(* ===== verification/Prelude.thy ===== *)
theory Prelude imports
  Main "HOL-Library.AList" "HOL-Library.List_Lexorder" "HOL-Library.Char_ord"
  "HOL-Library.Product_Lexorder" "HOL-Library.Multiset"
begin

text \<open>
  Shared vocabulary of the development.

  \<^item> Results: a Python function that may raise returns a value of \<open>'e + 'a\<close>,
    \<open>Inl\<close> for the exception and \<open>Inr\<close> for the returned value. \<open>ebind\<close> sequences,
    \<open>ensure\<close> is a guard that raises, \<open>emap\<close> and \<open>efold\<close> are loops that stop at the
    first exception.
  \<^item> Dynamic values: \<open>pyval\<close> is the part of Python's value universe that the decoders
    (\<open>from_dict\<close>, \<open>_parse_assignment\<close>) take apart: \<open>PFloat m e\<close> is the finite float
    \<open>m * 2 ^ e\<close>, \<open>PList\<close> a list or a tuple, \<open>PDict\<close> a mapping with string keys and
    \<open>POther\<close> any object of another type.
  \<^item> Dictionaries: association lists in insertion order. \<open>map_of\<close> is \<open>get\<close>,
    \<open>AList.update\<close> is \<open>d[k] = v\<close> (in place when the key is present, appended when it is
    new) and \<open>AList.delete\<close> is \<open>pop(k, None)\<close>.
  \<^item> Strings: lists of characters, for text in the ASCII range; \<open>casefold\<close>, \<open>py_split\<close>,
    \<open>py_strip\<close> and \<open>join_space\<close> are \<open>str.casefold\<close>, \<open>str.split()\<close>, \<open>str.strip()\<close>
    and \<open>' '.join\<close> there. The order on strings is the lexicographic order of code points.
  \<^item> Sorted containers: \<open>sorted_unique xs\<close> is \<open>sorted(set(xs))\<close>.
\<close>

named_theorems result_simps \<open>evaluation rules of the result combinators\<close>

type_synonym ('k, 'v) dict = "('k \<times> 'v) list"

section \<open>Results\<close>

definition ebind :: "'e + 'a \<Rightarrow> ('a \<Rightarrow> 'e + 'b) \<Rightarrow> 'e + 'b" where
  "ebind m f = (case m of Inl e \<Rightarrow> Inl e | Inr x \<Rightarrow> f x)"

definition ensure :: "bool \<Rightarrow> 'e \<Rightarrow> 'e + unit" where
  "ensure b e = (if b then Inr () else Inl e)"

definition reraise :: "('e \<Rightarrow> 'f) \<Rightarrow> 'e + 'a \<Rightarrow> 'f + 'a" where
  "reraise h m = (case m of Inl e \<Rightarrow> Inl (h e) | Inr x \<Rightarrow> Inr x)"

definition option_raise :: "'e \<Rightarrow> 'a option \<Rightarrow> 'e + 'a" where
  "option_raise e x = (case x of None \<Rightarrow> Inl e | Some v \<Rightarrow> Inr v)"

fun emap :: "('a \<Rightarrow> 'e + 'b) \<Rightarrow> 'a list \<Rightarrow> 'e + 'b list" where
  "emap f [] = Inr []"
| "emap f (x # xs) = ebind (f x) (\<lambda>y. ebind (emap f xs) (\<lambda>ys. Inr (y # ys)))"

fun efold :: "('s \<Rightarrow> 'a \<Rightarrow> 'e + 's) \<Rightarrow> 's \<Rightarrow> 'a list \<Rightarrow> 'e + 's" where
  "efold f s [] = Inr s"
| "efold f s (x # xs) = ebind (f s x) (\<lambda>s'. efold f s' xs)"

lemma ebind_simps [simp, result_simps]:
  "ebind (Inl e) f = Inl e"
  "ebind (Inr x) f = f x"
  by (simp_all add: ebind_def)

lemma ebind_return [simp]: "ebind m Inr = m"
  by (cases m) simp_all

lemma ebind_eq_Inr: "ebind m f = Inr y \<longleftrightarrow> (\<exists>x. m = Inr x \<and> f x = Inr y)"
  by (cases m) simp_all

lemma ebind_eq_Inl:
  "ebind m f = Inl e \<longleftrightarrow> m = Inl e \<or> (\<exists>x. m = Inr x \<and> f x = Inl e)"
  by (cases m) simp_all

lemma ensure_eq_Inr [simp, result_simps]: "ensure b e = Inr u \<longleftrightarrow> b"
  by (simp add: ensure_def)

lemma ensure_eq_Inl [simp, result_simps]: "ensure b e = Inl e' \<longleftrightarrow> \<not> b \<and> e' = e"
  by (auto simp: ensure_def)

lemma ensure_simps [simp, result_simps]:
  "ensure True e = Inr ()"
  "ensure False e = Inl e"
  by (simp_all add: ensure_def)

lemma ebind_ensure_Inr: "ebind (ensure b e) f = Inr y \<longleftrightarrow> b \<and> f () = Inr y"
  by (simp add: ensure_def)

lemma reraise_simps [simp, result_simps]:
  "reraise h (Inl e) = Inl (h e)"
  "reraise h (Inr x) = Inr x"
  by (simp_all add: reraise_def)

lemma reraise_eq_Inr [simp]: "reraise h m = Inr x \<longleftrightarrow> m = Inr x"
  by (cases m) simp_all

lemma reraise_eq_Inl: "reraise h m = Inl e \<longleftrightarrow> (\<exists>e'. m = Inl e' \<and> e = h e')"
  by (cases m) auto

lemma option_raise_simps [simp, result_simps]:
  "option_raise e None = Inl e"
  "option_raise e (Some v) = Inr v"
  by (simp_all add: option_raise_def)

lemma option_raise_eq_Inr: "option_raise e m = Inr x \<longleftrightarrow> m = Some x"
  by (cases m) simp_all

lemma case_sum_False: "(case m of Inl e \<Rightarrow> False | Inr x \<Rightarrow> P x) \<longleftrightarrow> (\<exists>x. m = Inr x \<and> P x)"
  by (cases m) simp_all

lemma emap_length: "emap f xs = Inr ys \<Longrightarrow> length ys = length xs"
  by (induction xs arbitrary: ys) (auto simp: ebind_eq_Inr)

lemma emap_Inr_iff: "emap f xs = Inr ys \<longleftrightarrow> list_all2 (\<lambda>x y. f x = Inr y) xs ys"
  by (induction xs arbitrary: ys) (auto simp: ebind_eq_Inr list_all2_Cons1)

lemma emap_append:
  "emap f (xs @ ys) = ebind (emap f xs) (\<lambda>us. ebind (emap f ys) (\<lambda>vs. Inr (us @ vs)))"
proof (induction xs)
  case Nil
  then show ?case by (cases "emap f ys") simp_all
next
  case (Cons x xs)
  then show ?case by (cases "f x"; cases "emap f xs"; cases "emap f ys") simp_all
qed

lemma map_fixed: "map h xs = xs \<Longrightarrow> x \<in> set xs \<Longrightarrow> h x = x"
  by (induction xs) auto

lemma emap_map:
  "emap f xs = Inr ys \<longleftrightarrow> (\<forall>x \<in> set xs. \<not> isl (f x)) \<and> ys = map (\<lambda>x. projr (f x)) xs"
proof (induction xs arbitrary: ys)
  case (Cons x xs)
  then show ?case by (cases "f x") (auto simp: ebind_eq_Inr)
qed auto

lemma emap_of_map: "emap f (map g xs) = emap (\<lambda>x. f (g x)) xs"
  by (induction xs) simp_all

lemma emap_total: "\<forall>x \<in> set xs. f x = Inr (g x) \<Longrightarrow> emap f xs = Inr (map g xs)"
  by (induction xs) simp_all

lemma emap_permutation:
  assumes "emap f xs = Inr ys" and "mset xs' = mset xs"
  shows "\<exists>ys'. emap f xs' = Inr ys' \<and> mset ys' = mset ys"
proof -
  have "set xs' = set xs" using assms(2) by (rule mset_eq_setD)
  with assms show ?thesis by (auto simp: emap_map)
qed

lemma emap_inverse:
  "\<forall>x \<in> set xs. f (g x) = Inr x \<Longrightarrow> emap f (map g xs) = Inr xs"
  by (induction xs) simp_all

lemma ebind_assoc: "ebind (ebind m f) k = ebind m (\<lambda>x. ebind (f x) k)"
  by (cases m) simp_all

lemma efold_append: "efold f s (xs @ ys) = ebind (efold f s xs) (\<lambda>s'. efold f s' ys)"
proof (induction xs arbitrary: s)
  case (Cons x xs)
  then show ?case by (cases "f s x") simp_all
qed simp

lemma efold_invariant:
  assumes "efold f s xs = Inr s'" and "P s"
    and "\<And>s a s'. P s \<Longrightarrow> a \<in> set xs \<Longrightarrow> f s a = Inr s' \<Longrightarrow> P s'"
  shows "P s'"
  using assms
proof (induction xs arbitrary: s)
  case (Cons x xs)
  from Cons.prems(1) obtain t where t: "f s x = Inr t" and rest: "efold f t xs = Inr s'"
    by (auto simp: ebind_eq_Inr)
  have "P t" by (rule Cons.prems(3) [OF Cons.prems(2) _ t]) simp
  show ?case
  proof (rule Cons.IH [OF rest \<open>P t\<close>])
    fix s a s'
    assume "P s" and "a \<in> set xs" and "f s a = Inr s'"
    then show "P s'" by (intro Cons.prems(3) [of s a s']) simp_all
  qed
qed simp

lemma distinct_singleton:
  assumes "distinct ys" and "set ys = {a}"
  shows "ys = [a]"
proof -
  have "length ys = 1" using distinct_card [OF assms(1)] assms(2) by simp
  then obtain b where "ys = [b]" by (auto simp: length_Suc_conv)
  with assms(2) show ?thesis by simp
qed

lemma list_all2_member: "list_all2 P xs ys \<Longrightarrow> y \<in> set ys \<Longrightarrow> \<exists>x \<in> set xs. P x y"
  by (induction rule: list_all2_induct) auto

section \<open>Dynamic values\<close>

datatype pyval =
    PNone
  | PBool bool
  | PInt int
  | PFloat int int
  | PStr string
  | PList "pyval list"
  | PDict "(string \<times> pyval) list"
  | POther

text \<open>\<open>isinstance(v, str) and v\<close>: a nonempty string.\<close>

fun nonempty_str :: "pyval \<Rightarrow> string option" where
  "nonempty_str (PStr s) = (if s = [] then None else Some s)"
| "nonempty_str _ = None"

lemma nonempty_str_Some: "nonempty_str v = Some s \<longleftrightarrow> v = PStr s \<and> s \<noteq> []"
  by (cases v) auto

text \<open>\<open>isinstance(v, int) and not isinstance(v, bool)\<close>: an exact integer.\<close>

fun exact_int :: "pyval \<Rightarrow> int option" where
  "exact_int (PInt n) = Some n"
| "exact_int _ = None"

lemma exact_int_Some: "exact_int v = Some n \<longleftrightarrow> v = PInt n"
  by (cases v) auto

text \<open>\<open>bool(v)\<close>.\<close>

fun truthy :: "pyval \<Rightarrow> bool" where
  "truthy PNone = False"
| "truthy (PBool b) = b"
| "truthy (PInt i) = (i \<noteq> 0)"
| "truthy (PFloat m e) = (m \<noteq> 0)"
| "truthy (PStr s) = (s \<noteq> [])"
| "truthy (PList vs) = (vs \<noteq> [])"
| "truthy (PDict d) = (d \<noteq> [])"
| "truthy POther = True"

section \<open>Dictionaries\<close>

definition dict_get :: "'v \<Rightarrow> ('k, 'v) dict \<Rightarrow> 'k \<Rightarrow> 'v" where
  "dict_get z d k = (case map_of d k of None \<Rightarrow> z | Some v \<Rightarrow> v)"

lemma map_of_dict_set [simp]: "map_of (AList.update k v d) = (map_of d)(k \<mapsto> v)"
  by (rule update_conv')

lemma map_of_dict_pop [simp]: "map_of (AList.delete k d) = (map_of d)(k := None)"
  by (rule delete_conv')

lemma dict_get_set [simp]:
  "dict_get z (AList.update k v d) k' = (if k' = k then v else dict_get z d k')"
  by (simp add: dict_get_def)

lemma dict_get_Nil [simp]: "dict_get z [] k = z"
  by (simp add: dict_get_def)

lemma dict_get_pop [simp]:
  "dict_get z (AList.delete k d) k' = (if k' = k then z else dict_get z d k')"
  by (simp add: dict_get_def)

lemma dict_keys_set [simp]: "fst ` set (AList.update k v d) = insert k (fst ` set d)"
  by (metis dom_map_of_conv_image_fst dom_fun_upd map_of_dict_set option.distinct(1))

lemma set_dict_set: "set (AList.update k v d) \<subseteq> insert (k, v) (set d)"
  by (induction d) auto

lemma dict_set_new: "k \<notin> fst ` set d \<Longrightarrow> AList.update k v d = d @ [(k, v)]"
  by (induction d) auto

lemma distinct_dict_set:
  "distinct (map fst d) \<Longrightarrow> distinct (map fst (AList.update k v d))"
  by (rule distinct_update)

lemma map_of_Some_key: "map_of d k = Some v \<Longrightarrow> k \<in> fst ` set d"
  by (force dest: map_of_SomeD)

lemma map_of_None_key: "map_of d k = None \<longleftrightarrow> k \<notin> fst ` set d"
  by (simp add: map_of_eq_None_iff)

text \<open>The dictionary comprehension \<open>{key(x): x for x in xs}\<close>; the last of equal keys wins.\<close>

definition dict_by :: "('a \<Rightarrow> 'k) \<Rightarrow> 'a list \<Rightarrow> ('k, 'a) dict" where
  "dict_by key xs = foldl (\<lambda>d x. AList.update (key x) x d) [] xs"

lemma dict_by_distinct:
  assumes "distinct (map key xs)"
  shows "dict_by key xs = map (\<lambda>x. (key x, x)) xs"
proof -
  have "distinct (map fst d @ map key xs) \<Longrightarrow>
      foldl (\<lambda>d x. AList.update (key x) x d) d xs = d @ map (\<lambda>x. (key x, x)) xs" for d
  proof (induction xs arbitrary: d)
    case (Cons x xs)
    then have "AList.update (key x) x d = d @ [(key x, x)]" by (intro dict_set_new) auto
    with Cons show ?case by simp
  qed simp
  from this [of "[]"] assms show ?thesis by (simp add: dict_by_def)
qed

lemma map_of_dict_by:
  assumes "distinct (map key xs)"
  shows "map_of (dict_by key xs) k = Some x \<longleftrightarrow> x \<in> set xs \<and> key x = k"
  using assms by (subst dict_by_distinct) (auto simp: map_of_eq_Some_iff comp_def)

lemma map_of_dict_by_None: "map_of (dict_by key xs) k = None \<longleftrightarrow> k \<notin> key ` set xs"
proof -
  have "map_of (foldl (\<lambda>d x. AList.update (key x) x d) d xs) k = None
      \<longleftrightarrow> map_of d k = None \<and> k \<notin> key ` set xs" for d
    by (induction xs arbitrary: d) auto
  from this [of "[]"] show ?thesis by (simp add: dict_by_def)
qed

lemma map_of_dict_by_SomeD: "map_of (dict_by key xs) k = Some x \<Longrightarrow> x \<in> set xs \<and> key x = k"
proof -
  have "map_of (foldl (\<lambda>d x. AList.update (key x) x d) d xs) k = Some x \<Longrightarrow>
      x \<in> set xs \<and> key x = k \<or> map_of d k = Some x" for d
    by (induction xs arbitrary: d) (fastforce split: if_splits)+
  from this [of "[]"] show "map_of (dict_by key xs) k = Some x \<Longrightarrow> x \<in> set xs \<and> key x = k"
    by (simp add: dict_by_def)
qed

section \<open>Sorted containers\<close>

lemma sort_key_permutation:
  assumes "mset xs = mset ys" and "inj_on f (set xs)" and "distinct xs"
  shows "sort_key f xs = sort_key f ys"
proof (rule map_sorted_distinct_set_unique)
  have "set ys = set xs" and "distinct ys"
    using assms by (metis mset_eq_setD, metis mset_eq_imp_distinct_iff)
  with assms show "inj_on f (set (sort_key f xs) \<union> set (sort_key f ys))"
    and "set (sort_key f xs) = set (sort_key f ys)"
    and "distinct (map f (sort_key f ys))"
    and "distinct (map f (sort_key f xs))"
    by (simp_all add: distinct_map)
qed simp_all


definition sorted_unique :: "'a::linorder list \<Rightarrow> 'a list" where
  "sorted_unique xs = sort (remdups xs)"

lemma set_sorted_unique [simp]: "set (sorted_unique xs) = set xs"
  by (simp add: sorted_unique_def)

lemma sorted_sorted_unique [simp]: "sorted (sorted_unique xs)"
  by (simp add: sorted_unique_def)

lemma distinct_sorted_unique [simp]: "distinct (sorted_unique xs)"
  by (simp add: sorted_unique_def)

lemma sorted_unique_cong: "set xs = set ys \<Longrightarrow> sorted_unique xs = sorted_unique ys"
  by (metis distinct_sorted_unique set_sorted_unique sorted_distinct_set_unique
      sorted_sorted_unique)

lemma sorted_unique_id: "sorted xs \<Longrightarrow> distinct xs \<Longrightarrow> sorted_unique xs = xs"
  by (simp add: sorted_distinct_set_unique)

section \<open>Text\<close>

text \<open>\<open>s.startswith(p)\<close>.\<close>

definition starts_with :: "string \<Rightarrow> string \<Rightarrow> bool" where
  "starts_with p s \<longleftrightarrow> take (length p) s = p"

lemma starts_with_append [simp]: "starts_with p (p @ s)"
  by (simp add: starts_with_def)

definition is_upper :: "char \<Rightarrow> bool" where
  "is_upper c \<longleftrightarrow> 65 \<le> (of_char c :: nat) \<and> (of_char c :: nat) \<le> 90"

definition lower_char :: "char \<Rightarrow> char" where
  "lower_char c = (if is_upper c then char_of ((of_char c :: nat) + 32) else c)"

definition is_space :: "char \<Rightarrow> bool" where
  "is_space c \<longleftrightarrow> (let n = (of_char c :: nat) in n = 32 \<or> (9 \<le> n \<and> n \<le> 13) \<or> (28 \<le> n \<and> n \<le> 31))"

definition casefold :: "string \<Rightarrow> string" where
  "casefold s = map lower_char s"

fun words_from :: "string \<Rightarrow> string \<Rightarrow> string list" where
  "words_from cur [] = (if cur = [] then [] else [rev cur])"
| "words_from cur (c # cs) =
     (if is_space c then (if cur = [] then words_from [] cs else rev cur # words_from [] cs)
      else words_from (c # cur) cs)"

definition py_split :: "string \<Rightarrow> string list" where
  "py_split s = words_from [] s"

definition py_strip :: "string \<Rightarrow> string" where
  "py_strip s = rev (dropWhile is_space (rev (dropWhile is_space s)))"

fun join_space :: "string list \<Rightarrow> string" where
  "join_space [] = []"
| "join_space [w] = w"
| "join_space (w # v # ws) = w @ CHR '' '' # join_space (v # ws)"

lemma lower_char_idem [simp]: "lower_char (lower_char c) = lower_char c"
  by (auto simp: lower_char_def is_upper_def)

lemma casefold_idem [simp]: "casefold (casefold s) = casefold s"
  by (simp add: casefold_def)

lemma is_space_lower [simp]: "is_space (lower_char c) = is_space c"
  by (auto simp: lower_char_def is_upper_def is_space_def Let_def)

definition is_word :: "string \<Rightarrow> bool" where
  "is_word w \<longleftrightarrow> w \<noteq> [] \<and> (\<forall>c \<in> set w. \<not> is_space c)"

lemma words_from_word:
  "\<forall>c \<in> set w. \<not> is_space c \<Longrightarrow> words_from cur (w @ s) = words_from (rev w @ cur) s"
  by (induction w arbitrary: cur) auto

lemma words_from_are_words:
  "\<forall>c \<in> set cur. \<not> is_space c \<Longrightarrow> \<forall>w \<in> set (words_from cur s). is_word w"
proof (induction s arbitrary: cur)
  case Nil
  then show ?case by (simp add: is_word_def)
next
  case (Cons c cs)
  show ?case
  proof (cases "is_space c")
    case True
    with Cons.IH [of "[]"] Cons.prems show ?thesis by (simp add: is_word_def)
  next
    case False
    with Cons.IH [of "c # cur"] Cons.prems show ?thesis by simp
  qed
qed

lemma py_split_words: "w \<in> set (py_split s) \<Longrightarrow> is_word w"
  using words_from_are_words [of "[]" s] by (simp add: py_split_def)

lemma space_is_space [simp]: "is_space (CHR '' '')"
  by (simp add: is_space_def)

lemma py_split_join: "\<forall>w \<in> set ws. is_word w \<Longrightarrow> py_split (join_space ws) = ws"
proof (induction ws rule: join_space.induct)
  case (2 w)
  then show ?case using words_from_word [of w "[]" "[]"]
    by (simp add: py_split_def is_word_def)
next
  case (3 w v ws)
  then show ?case using words_from_word [of w "[]" "CHR '' '' # join_space (v # ws)"]
    by (simp add: py_split_def is_word_def)
qed (simp add: py_split_def)

lemma casefold_join: "casefold (join_space ws) = join_space (map casefold ws)"
  by (induction ws rule: join_space.induct)
    (simp_all add: casefold_def lower_char_def is_upper_def)

lemma words_from_casefold:
  "words_from (casefold cur) (casefold s) = map casefold (words_from cur s)"
  by (induction cur s rule: words_from.induct) (auto simp: casefold_def rev_map)

lemma py_split_casefold: "py_split (casefold s) = map casefold (py_split s)"
  using words_from_casefold [of "[]" s] by (simp add: py_split_def casefold_def)

text \<open>\<open>" ".join(s.casefold().split())\<close>: lower case with single blanks.\<close>

definition folded_words :: "string \<Rightarrow> string" where
  "folded_words s = join_space (py_split (casefold s))"

lemma folded_words_idem [simp]: "folded_words (folded_words s) = folded_words s"
proof -
  let ?ws = "py_split (casefold s)"
  have lower: "map casefold ?ws = ?ws" by (simp add: py_split_casefold comp_def)
  have "py_split (join_space ?ws) = ?ws" by (rule py_split_join) (simp add: py_split_words)
  with lower show ?thesis by (simp add: folded_words_def casefold_join)
qed

text \<open>\<open>sub in s\<close> on strings.\<close>

fun contains :: "string \<Rightarrow> string \<Rightarrow> bool" where
  "contains sub [] \<longleftrightarrow> sub = []"
| "contains sub (c # cs) \<longleftrightarrow> take (length sub) (c # cs) = sub \<or> contains sub cs"

section \<open>Decimal numbers\<close>

definition digit_char :: "nat \<Rightarrow> char" where
  "digit_char d = char_of (48 + d)"

fun show_nat :: "nat \<Rightarrow> string" where
  "show_nat n = (if n < 10 then [digit_char n] else show_nat (n div 10) @ [digit_char (n mod 10)])"

declare show_nat.simps [simp del]

definition show_int :: "int \<Rightarrow> string" where
  "show_int i = (if i < 0 then CHR ''-'' # show_nat (nat (- i)) else show_nat (nat i))"

definition is_digit :: "char \<Rightarrow> bool" where
  "is_digit c \<longleftrightarrow> 48 \<le> (of_char c :: nat) \<and> (of_char c :: nat) \<le> 57"

definition read_nat :: "string \<Rightarrow> nat" where
  "read_nat s = foldl (\<lambda>a c. 10 * a + (of_char c - 48)) 0 s"

lemma of_digit_char: "d < 10 \<Longrightarrow> (of_char (digit_char d) :: nat) = 48 + d"
  by (simp add: digit_char_def)

lemma read_show_nat [simp]: "read_nat (show_nat n) = n"
proof (induction n rule: show_nat.induct)
  case (1 n)
  then show ?case
    by (subst show_nat.simps) (auto simp: read_nat_def of_digit_char)
qed

lemma show_nat_digits: "\<forall>c \<in> set (show_nat n). is_digit c"
proof (induction n rule: show_nat.induct)
  case (1 n)
  show ?case
  proof (cases "n < 10")
    case True
    then show ?thesis by (simp add: show_nat.simps [of n] is_digit_def of_digit_char)
  next
    case False
    with 1 show ?thesis by (simp add: show_nat.simps [of n] is_digit_def of_digit_char)
  qed
qed

lemma show_nat_inject [simp]: "show_nat m = show_nat n \<longleftrightarrow> m = n"
  by (metis read_show_nat)

lemma show_nat_nonempty [simp]: "show_nat n \<noteq> []"
  by (subst show_nat.simps) simp

lemma minus_not_digit: "show_nat n \<noteq> CHR ''-'' # s"
proof
  assume "show_nat n = CHR ''-'' # s"
  then have "is_digit (CHR ''-'')" using show_nat_digits [of n] by simp
  then show False by (simp add: is_digit_def)
qed

text \<open>\<open>str(value)\<close> of a text, an integer, a truth value or \<open>None\<close>; the text of other values is not modelled.\<close>

fun py_text :: "pyval \<Rightarrow> string" where
  "py_text (PStr s) = s"
| "py_text (PInt n) = show_int n"
| "py_text (PBool b) = (if b then ''True'' else ''False'')"
| "py_text _ = ''None''"

lemma show_int_inject [simp]: "show_int i = show_int j \<longleftrightarrow> i = j"
  using minus_not_digit by (auto simp: show_int_def eq_nat_nat_iff dest: sym)

end
