(* ===== verification/Mana_Pool.thy ===== *)
theory Mana_Pool imports Prelude
begin

text \<open>
  Mana costs and mana payment (\<open>quorune/util.py\<close>): reading a printed cost, normalising a
  bundle of mana, and spending a requirement from a pool, either as the player declared it or
  by the deterministic automatic rule.  A bundle is a dictionary over the six mana letters; a
  normalised one has exactly the keys W, U, B, R, G, C in that order, and \<open>bundle_ok\<close> says
  so.  The raising branches carry what their messages print.
\<close>

section \<open>Reading a printed cost\<close>

definition upper_char :: "char \<Rightarrow> char" where
  "upper_char c =
     (if 97 \<le> (of_char c :: nat) \<and> (of_char c :: nat) \<le> 122
      then char_of ((of_char c :: nat) - 32) else c)"

definition upper :: "string \<Rightarrow> string" where
  "upper s = map upper_char s"

definition not_brace :: "char \<Rightarrow> bool" where
  "not_brace c \<longleftrightarrow> c \<noteq> CHR ''{'' \<and> c \<noteq> CHR ''}''"

text \<open>The non-overlapping leftmost matches of the pattern \<open>{([^{}]+)}\<close>.\<close>

function scan_symbols :: "string \<Rightarrow> string list" where
  "scan_symbols [] = []"
| "scan_symbols (c # cs) =
     (let run = takeWhile not_brace cs; rest = dropWhile not_brace cs in
      if c = CHR ''{'' \<and> run \<noteq> [] \<and> rest \<noteq> [] \<and> hd rest = CHR ''}''
      then run # scan_symbols (tl rest) else scan_symbols cs)"
  by pat_completeness auto
termination
  by (relation "measure length")
    (auto intro: le_imp_less_Suc [OF le_trans [OF diff_le_self length_dropWhile_le]])

definition parse_mana_symbols :: "string option \<Rightarrow> string list" where
  "parse_mana_symbols cost =
     (case cost of None \<Rightarrow> [] | Some s \<Rightarrow> map upper (scan_symbols s))"

definition MANA_KEYS :: "string list" where
  "MANA_KEYS = [''W'', ''U'', ''B'', ''R'', ''G'', ''C'']"

definition isdigit :: "string \<Rightarrow> bool" where
  "isdigit s \<longleftrightarrow> s \<noteq> [] \<and> list_all is_digit s"

fun cost_vector_loop ::
  "string list \<Rightarrow> (string, int) dict \<Rightarrow> string list \<Rightarrow> (string, int) dict \<times> string list" where
  "cost_vector_loop [] fixed complex = (fixed, complex)"
| "cost_vector_loop (symbol # symbols) fixed complex =
     (if isdigit symbol
      then cost_vector_loop symbols
             (AList.update ''GENERIC'' (dict_get 0 fixed ''GENERIC'' + int (read_nat symbol)) fixed)
             complex
      else if symbol \<in> set MANA_KEYS
      then cost_vector_loop symbols
             (AList.update symbol (dict_get 0 fixed symbol + 1) fixed) complex
      else cost_vector_loop symbols fixed (complex @ [symbol]))"

definition mana_cost_to_vector :: "string option \<Rightarrow> (string, int) dict \<times> string list" where
  "mana_cost_to_vector cost =
     cost_vector_loop (parse_mana_symbols cost)
       ((''GENERIC'', 0) # map (\<lambda>k. (k, 0)) MANA_KEYS) []"

section \<open>Bundles\<close>

datatype mana_error =
    UnsupportedManaType string
  | NegativeManaQuantity
  | NegativeManaRequirement
  | PaymentExceedsPool string int int
  | PaymentBelowRequirement string int int
  | PaymentTotalMismatch int int
  | PaymentGenericMismatch
  | InsufficientColor string int int
  | InsufficientGeneric int int

definition zero_bundle :: "(string, int) dict" where
  "zero_bundle = map (\<lambda>k. (k, 0)) MANA_KEYS"

definition normalize_entry ::
  "(string, int) dict \<Rightarrow> string \<times> int \<Rightarrow> mana_error + (string, int) dict" where
  "normalize_entry result entry =
     (let key = upper (fst entry) in
      if map_of result key = None then Inl (UnsupportedManaType (fst entry))
      else if snd entry < 0 then Inl NegativeManaQuantity
      else Inr (AList.update key (dict_get 0 result key + snd entry) result))"

definition normalize_mana_bundle ::
  "(string, int) dict option \<Rightarrow> mana_error + (string, int) dict" where
  "normalize_mana_bundle bundle =
     (case bundle of None \<Rightarrow> Inr zero_bundle | Some b \<Rightarrow> efold normalize_entry zero_bundle b)"

definition spendable_total :: "(string, int) dict \<Rightarrow> int" where
  "spendable_total pool = sum_list (map (dict_get 0 pool) MANA_KEYS)"

section \<open>Paying\<close>

fun read_requirements ::
  "string list \<Rightarrow> (string, int) dict \<Rightarrow> (string, int) dict \<Rightarrow> mana_error + (string, int) dict" where
  "read_requirements [] requirements req = Inr req"
| "read_requirements (color # colors) requirements req =
     (let amount = dict_get 0 requirements color in
      if amount < 0 then Inl NegativeManaRequirement
      else read_requirements colors requirements (AList.update color amount req))"

fun check_declared ::
  "string list \<Rightarrow> (string, int) dict \<Rightarrow> (string, int) dict \<Rightarrow> (string, int) dict
     \<Rightarrow> mana_error + unit" where
  "check_declared [] spent pool req = Inr ()"
| "check_declared (color # colors) spent pool req =
     (if dict_get 0 spent color > dict_get 0 pool color
      then Inl (PaymentExceedsPool color (dict_get 0 spent color) (dict_get 0 pool color))
      else if dict_get 0 spent color < dict_get 0 req color
      then Inl (PaymentBelowRequirement color (dict_get 0 spent color) (dict_get 0 req color))
      else check_declared colors spent pool req)"

fun subtract_spent :: "(string, int) dict \<Rightarrow> (string, int) dict \<Rightarrow> (string, int) dict" where
  "subtract_spent [] pool = pool"
| "subtract_spent ((color, amount) # spent) pool =
     subtract_spent spent (AList.update color (dict_get 0 pool color - amount) pool)"

definition pay_declared ::
  "(string, int) dict \<Rightarrow> (string, int) dict \<Rightarrow> (string, int) dict
     \<Rightarrow> mana_error + (string, int) dict \<times> (string, int) dict" where
  "pay_declared payment pool req =
     ebind (normalize_mana_bundle (Some payment)) (\<lambda>spent.
     ebind (check_declared MANA_KEYS spent pool req) (\<lambda>_.
     let required_total =
           dict_get 0 req ''GENERIC'' + sum_list (map (dict_get 0 req) MANA_KEYS);
         spent_total = sum_list (map snd spent);
         surplus_after_fixed =
           sum_list (map (\<lambda>color. dict_get 0 spent color - dict_get 0 req color) MANA_KEYS) in
     if spent_total \<noteq> required_total
     then Inl (PaymentTotalMismatch spent_total required_total)
     else if surplus_after_fixed \<noteq> dict_get 0 req ''GENERIC''
     then Inl PaymentGenericMismatch
     else Inr (subtract_spent spent pool, spent)))"

fun pay_fixed ::
  "string list \<Rightarrow> (string, int) dict \<Rightarrow> (string, int) dict \<Rightarrow> (string, int) dict
     \<Rightarrow> mana_error + (string, int) dict \<times> (string, int) dict" where
  "pay_fixed [] req pool spent = Inr (pool, spent)"
| "pay_fixed (color # colors) req pool spent =
     (let amount = dict_get 0 req color in
      if dict_get 0 pool color < amount
      then Inl (InsufficientColor color amount (dict_get 0 pool color))
      else pay_fixed colors req
             (AList.update color (dict_get 0 pool color - amount) pool)
             (AList.update color (dict_get 0 spent color + amount) spent))"

fun pay_generic ::
  "string list \<Rightarrow> int \<Rightarrow> (string, int) dict \<Rightarrow> (string, int) dict
     \<Rightarrow> int \<times> (string, int) dict \<times> (string, int) dict" where
  "pay_generic [] generic pool spent = (generic, pool, spent)"
| "pay_generic (color # colors) generic pool spent =
     (if generic \<le> 0 then (generic, pool, spent)
      else let amount = min (dict_get 0 pool color) generic in
           pay_generic colors (generic - amount)
             (AList.update color (dict_get 0 pool color - amount) pool)
             (AList.update color (dict_get 0 spent color + amount) spent))"

definition GENERIC_ORDER :: "string list" where
  "GENERIC_ORDER = [''C'', ''W'', ''U'', ''B'', ''R'', ''G'']"

definition pay_automatic ::
  "(string, int) dict \<Rightarrow> (string, int) dict \<Rightarrow> (string, int) dict
     \<Rightarrow> mana_error + (string, int) dict \<times> (string, int) dict" where
  "pay_automatic original pool req =
     ebind (pay_fixed MANA_KEYS req pool zero_bundle) (\<lambda>(pool1, spent1).
     case pay_generic GENERIC_ORDER (dict_get 0 req ''GENERIC'') pool1 spent1 of
       (generic, pool2, spent2) \<Rightarrow>
         if generic \<noteq> 0 then Inl (InsufficientGeneric generic (spendable_total original))
         else Inr (pool2, spent2))"

definition pay_mana_from_pool ::
  "(string, int) dict \<Rightarrow> (string, int) dict \<Rightarrow> (string, int) dict option
     \<Rightarrow> mana_error + (string, int) dict \<times> (string, int) dict" where
  "pay_mana_from_pool pool requirements payment =
     ebind (normalize_mana_bundle (Some pool)) (\<lambda>new_pool.
     ebind (read_requirements MANA_KEYS requirements
              [(''GENERIC'', dict_get 0 requirements ''GENERIC'')]) (\<lambda>req.
     if dict_get 0 req ''GENERIC'' < 0 then Inl NegativeManaRequirement
     else (case payment of
             Some declared \<Rightarrow> pay_declared declared new_pool req
           | None \<Rightarrow> pay_automatic pool new_pool req)))"

fun unique_loop :: "string list \<Rightarrow> string list \<Rightarrow> string list" where
  "unique_loop seen [] = []"
| "unique_loop seen (value # values) =
     (if value \<in> set seen then unique_loop seen values
      else value # unique_loop (value # seen) values)"

definition unique_preserving_order :: "string list \<Rightarrow> string list" where
  "unique_preserving_order values = unique_loop [] values"

section \<open>Facts about bundles\<close>

definition bundle_ok :: "(string, int) dict \<Rightarrow> bool" where
  "bundle_ok d \<longleftrightarrow> map fst d = MANA_KEYS"

lemma mana_keys_distinct [simp]: "distinct MANA_KEYS"
  by (simp add: MANA_KEYS_def)

lemma generic_not_mana_key [simp]: "''GENERIC'' \<notin> set MANA_KEYS"
  by (simp add: MANA_KEYS_def)

lemma update_present_keys:
  "k \<in> fst ` set d \<Longrightarrow> map fst (AList.update k v d) = map fst d"
  by (induction d) auto

lemma bundle_ok_update:
  "bundle_ok d \<Longrightarrow> k \<in> set MANA_KEYS \<Longrightarrow> bundle_ok (AList.update k v d)"
  by (metis bundle_ok_def list.set_map update_present_keys)

lemma bundle_ok_zero [simp]: "bundle_ok zero_bundle"
  by (simp add: bundle_ok_def zero_bundle_def comp_def)

lemma zero_bundle_get [simp]: "dict_get 0 zero_bundle k = 0"
  by (auto simp: zero_bundle_def dict_get_def MANA_KEYS_def)

lemma sum_values_get:
  "distinct (map fst d) \<Longrightarrow> sum_list (map snd d) = sum_list (map (dict_get 0 d) (map fst d))"
proof (induction d)
  case (Cons p d)
  have "map (dict_get 0 (p # d)) (map fst d) = map (dict_get 0 d) (map fst d)"
  proof (rule map_cong [OF refl])
    fix k assume "k \<in> set (map fst d)"
    then have "k \<noteq> fst p" using Cons.prems by fastforce
    then show "dict_get 0 (p # d) k = dict_get 0 d k" by (cases p) (simp add: dict_get_def)
  qed
  moreover have "dict_get 0 (p # d) (fst p) = snd p"
    by (cases p) (simp add: dict_get_def)
  ultimately show ?case using Cons by (simp only: list.map sum_list.Cons distinct.simps)
qed simp

lemma bundle_sum: "bundle_ok d \<Longrightarrow> sum_list (map snd d) = spendable_total d"
  using sum_values_get [of d] by (simp add: bundle_ok_def spendable_total_def)

lemma bundle_key_present: "bundle_ok d \<Longrightarrow> map_of d k = None \<longleftrightarrow> k \<notin> set MANA_KEYS"
  by (metis bundle_ok_def list.set_map map_of_None_key)

lemma normalize_entry_keeps:
  assumes "bundle_ok d \<and> (\<forall>k. 0 \<le> dict_get 0 d k)" and "normalize_entry d e = Inr d'"
  shows "bundle_ok d' \<and> (\<forall>k. 0 \<le> dict_get 0 d' k)"
  using assms bundle_key_present [of d "upper (fst e)"]
  by (auto simp: normalize_entry_def Let_def bundle_ok_update split: if_splits)

lemma normalize_ok:
  assumes "normalize_mana_bundle b = Inr d"
  shows "bundle_ok d \<and> (\<forall>k. 0 \<le> dict_get 0 d k)"
proof (cases b)
  case None
  with assms show ?thesis by (auto simp: normalize_mana_bundle_def)
next
  case (Some entries)
  with assms have run: "efold normalize_entry zero_bundle entries = Inr d"
    by (simp add: normalize_mana_bundle_def)
  show ?thesis
    by (rule efold_invariant [OF run]) (auto dest: normalize_entry_keeps [OF conjI])
qed

lemma subtract_spent_get:
  "distinct (map fst spent) \<Longrightarrow>
   dict_get 0 (subtract_spent spent pool) c = dict_get 0 pool c - dict_get 0 spent c"
proof (induction spent pool rule: subtract_spent.induct)
  case (2 color amount spent pool)
  moreover from this have "dict_get 0 spent color = 0"
    by (simp add: dict_get_def map_of_None_key [THEN iffD2])
  ultimately show ?case by (auto simp: dict_get_def)
qed simp

lemma read_requirements_Inr:
  "read_requirements colors requirements req = Inr req' \<Longrightarrow>
   (\<forall>c. dict_get 0 req' c = (if c \<in> set colors then dict_get 0 requirements c else dict_get 0 req c))
   \<and> (\<forall>c \<in> set colors. 0 \<le> dict_get 0 requirements c)"
  by (induction colors requirements req rule: read_requirements.induct)
    (auto simp: Let_def split: if_splits)

lemma read_requirements_total:
  "\<forall>c \<in> set colors. 0 \<le> dict_get 0 requirements c \<Longrightarrow>
   \<exists>req'. read_requirements colors requirements req = Inr req'"
  by (induction colors requirements req rule: read_requirements.induct) (auto simp: Let_def)

lemma check_declared_Inr:
  "check_declared colors spent pool req = Inr u \<longleftrightarrow>
   (\<forall>c \<in> set colors. dict_get 0 req c \<le> dict_get 0 spent c
       \<and> dict_get 0 spent c \<le> dict_get 0 pool c)"
  by (induction colors spent pool req rule: check_declared.induct) auto

lemma pay_fixed_Inr:
  "pay_fixed colors req pool spent = Inr (pool', spent') \<Longrightarrow> distinct colors \<Longrightarrow>
   dict_get 0 pool' c = dict_get 0 pool c - (if c \<in> set colors then dict_get 0 req c else 0)
     \<and> dict_get 0 spent' c = dict_get 0 spent c + (if c \<in> set colors then dict_get 0 req c else 0)
     \<and> (\<forall>c \<in> set colors. dict_get 0 req c \<le> dict_get 0 pool c)"
proof (induction colors req pool spent rule: pay_fixed.induct)
  case (2 color colors req pool spent)
  define p where "p = AList.update color (dict_get 0 pool color - dict_get 0 req color) pool"
  define s where "s = AList.update color (dict_get 0 spent color + dict_get 0 req color) spent"
  have enough: "\<not> dict_get 0 pool color < dict_get 0 req color"
    and run: "pay_fixed colors req p s = Inr (pool', spent')"
    using "2.prems"(1) by (auto simp: p_def s_def Let_def split: if_splits)
  have fresh: "color \<notin> set colors" "distinct colors" using "2.prems"(2) by auto
  note IH = "2.IH" [OF refl enough, folded p_def s_def, OF run fresh(2)]
  have "\<forall>c \<in> set colors. dict_get 0 req c \<le> dict_get 0 pool c"
    using IH fresh(1) by (auto simp: p_def split: if_splits)
  then show ?case using IH enough fresh(1) by (auto simp: p_def s_def)
qed simp

lemma pay_fixed_total:
  "\<forall>c \<in> set colors. dict_get 0 req c \<le> dict_get 0 pool c \<Longrightarrow> distinct colors \<Longrightarrow>
   \<exists>r. pay_fixed colors req pool spent = Inr r"
  by (induction colors req pool spent rule: pay_fixed.induct) (auto simp: Let_def)

lemma pay_generic_get:
  "pay_generic colors generic pool spent = (generic', pool', spent') \<Longrightarrow>
   \<forall>c. 0 \<le> dict_get 0 pool c \<Longrightarrow>
   dict_get 0 pool' c + dict_get 0 spent' c = dict_get 0 pool c + dict_get 0 spent c
     \<and> 0 \<le> dict_get 0 pool' c \<and> dict_get 0 spent c \<le> dict_get 0 spent' c"
proof (induction colors generic pool spent rule: pay_generic.induct)
  case (2 color colors generic pool spent)
  show ?case
  proof (cases "generic \<le> 0")
    case True
    with 2 show ?thesis by simp
  next
    case False
    define amount where "amount = min (dict_get 0 pool color) generic"
    define p where "p = AList.update color (dict_get 0 pool color - amount) pool"
    define s where "s = AList.update color (dict_get 0 spent color + amount) spent"
    have amount: "0 \<le> amount" "amount \<le> dict_get 0 pool color"
      using False "2.prems"(2) by (auto simp: amount_def)
    have run: "pay_generic colors (generic - amount) p s = (generic', pool', spent')"
      using "2.prems"(1) False by (simp add: amount_def p_def s_def Let_def)
    have "dict_get 0 pool' c + dict_get 0 spent' c = dict_get 0 p c + dict_get 0 s c
       \<and> 0 \<le> dict_get 0 pool' c \<and> dict_get 0 s c \<le> dict_get 0 spent' c"
    proof (rule "2.IH" [OF False amount_def, folded p_def s_def, OF run])
      show "\<forall>c. 0 \<le> dict_get 0 p c" using "2.prems"(2) amount by (simp add: p_def)
    qed
    then show ?thesis using amount by (auto simp: p_def s_def split: if_splits)
  qed
qed simp

lemma pay_generic_left:
  "pay_generic colors generic pool spent = (generic', pool', spent') \<Longrightarrow>
   \<forall>c. 0 \<le> dict_get 0 pool c \<Longrightarrow> distinct colors \<Longrightarrow> 0 \<le> generic \<Longrightarrow>
   generic' = max 0 (generic - sum_list (map (dict_get 0 pool) colors))
     \<and> sum_list (map (dict_get 0 spent') colors)
       = sum_list (map (dict_get 0 spent) colors) + generic - generic'
     \<and> (\<forall>c. c \<notin> set colors \<longrightarrow> dict_get 0 spent' c = dict_get 0 spent c)"
proof (induction colors generic pool spent rule: pay_generic.induct)
  case (2 color colors generic pool spent)
  have others: "map (dict_get 0 (AList.update color v d)) colors = map (dict_get 0 d) colors"
    for v d using "2.prems"(3) by auto
  have nonneg: "0 \<le> sum_list (map (dict_get 0 pool) colors)"
    by (rule sum_list_nonneg) (use "2.prems"(2) in auto)
  show ?case
  proof (cases "generic \<le> 0")
    case True
    have "0 \<le> dict_get 0 pool color + sum_list (map (dict_get 0 pool) colors)"
      using "2.prems"(2) nonneg by (simp add: add_nonneg_nonneg)
    with True "2.prems"(1,4) show ?thesis by (auto simp: max_def)
  next
    case False
    define amount where "amount = min (dict_get 0 pool color) generic"
    define p where "p = AList.update color (dict_get 0 pool color - amount) pool"
    define s where "s = AList.update color (dict_get 0 spent color + amount) spent"
    have amount: "0 \<le> amount" "amount \<le> dict_get 0 pool color" "amount \<le> generic"
      using False "2.prems"(2) by (auto simp: amount_def)
    have run: "pay_generic colors (generic - amount) p s = (generic', pool', spent')"
      using "2.prems"(1) False by (simp add: amount_def p_def s_def Let_def)
    have p_nonneg: "\<forall>c. 0 \<le> dict_get 0 p c"
      using "2.prems"(2) amount by (simp add: p_def)
    have IH: "generic' = max 0 (generic - amount - sum_list (map (dict_get 0 p) colors))
       \<and> sum_list (map (dict_get 0 spent') colors)
         = sum_list (map (dict_get 0 s) colors) + (generic - amount) - generic'
       \<and> (\<forall>c. c \<notin> set colors \<longrightarrow> dict_get 0 spent' c = dict_get 0 s c)"
      using "2.IH" [OF False amount_def, folded p_def s_def, OF run p_nonneg] "2.prems"(3) amount
      by simp
    have sums: "sum_list (map (dict_get 0 p) colors) = sum_list (map (dict_get 0 pool) colors)"
      "sum_list (map (dict_get 0 s) colors) = sum_list (map (dict_get 0 spent) colors)"
      by (simp_all only: p_def s_def others)
    have "color \<notin> set colors" using "2.prems"(3) by simp
    moreover have "generic' = max 0 (generic - (dict_get 0 pool color
        + sum_list (map (dict_get 0 pool) colors)))"
      using IH sums nonneg amount by (auto simp: amount_def min_def max_def)
    ultimately show ?thesis using IH sums by (auto simp: s_def)
  qed
qed auto

section \<open>Properties\<close>

text \<open>The requirement's total: its generic part and its six coloured parts.\<close>

definition required_total :: "(string, int) dict \<Rightarrow> int" where
  "required_total requirements =
     dict_get 0 requirements ''GENERIC'' + spendable_total requirements"

lemma read_requirements_all:
  assumes "read_requirements MANA_KEYS requirements
             [(''GENERIC'', dict_get 0 requirements ''GENERIC'')] = Inr req"
  shows "dict_get 0 req ''GENERIC'' = dict_get 0 requirements ''GENERIC''"
    and "c \<in> set MANA_KEYS \<Longrightarrow> dict_get 0 req c = dict_get 0 requirements c"
    and "c \<in> set MANA_KEYS \<Longrightarrow> 0 \<le> dict_get 0 req c"
    and "sum_list (map (dict_get 0 req) MANA_KEYS) = spendable_total requirements"
proof -
  note all = read_requirements_Inr [OF assms]
  show "dict_get 0 req ''GENERIC'' = dict_get 0 requirements ''GENERIC''"
    using all by (simp add: dict_get_def)
  show same: "dict_get 0 req c = dict_get 0 requirements c" if "c \<in> set MANA_KEYS" for c
    using all that by simp
  show "0 \<le> dict_get 0 req c" if "c \<in> set MANA_KEYS" using all that by simp
  show "sum_list (map (dict_get 0 req) MANA_KEYS) = spendable_total requirements"
    unfolding spendable_total_def using same by (auto intro!: arg_cong [where f = sum_list])
qed

lemma generic_order_keys: "set GENERIC_ORDER = set MANA_KEYS" "distinct GENERIC_ORDER"
  by (auto simp: GENERIC_ORDER_def MANA_KEYS_def)

lemma sum_generic_order:
  "sum_list (map (f :: string \<Rightarrow> int) GENERIC_ORDER) = sum_list (map f MANA_KEYS)"
  by (simp add: GENERIC_ORDER_def MANA_KEYS_def)

lemma spendable_total_diff:
  "(\<And>c. c \<in> set MANA_KEYS \<Longrightarrow> dict_get 0 d c = f c - g c) \<Longrightarrow>
   spendable_total d = sum_list (map f MANA_KEYS) - sum_list (map g MANA_KEYS)"
  by (simp add: spendable_total_def MANA_KEYS_def)

lemma pay_automatic_cases:
  assumes "pay_automatic original pool req = Inr (pool', spent')"
  obtains p1 s1 where "pay_fixed MANA_KEYS req pool zero_bundle = Inr (p1, s1)"
    and "pay_generic GENERIC_ORDER (dict_get 0 req ''GENERIC'') p1 s1 = (0, pool', spent')"
proof -
  obtain p1 s1 where fixed: "pay_fixed MANA_KEYS req pool zero_bundle = Inr (p1, s1)"
    using assms by (cases "pay_fixed MANA_KEYS req pool zero_bundle") (auto simp: pay_automatic_def)
  obtain g p2 s2 where "pay_generic GENERIC_ORDER (dict_get 0 req ''GENERIC'') p1 s1 = (g, p2, s2)"
    by (rule prod_cases3)
  with assms fixed that show ?thesis by (simp add: pay_automatic_def split: if_splits)
qed

lemma pay_automatic_Inr:
  assumes pay: "pay_automatic original pool req = Inr (pool', spent')"
    and pool: "\<forall>c. 0 \<le> dict_get 0 pool c" and req: "\<forall>c \<in> set MANA_KEYS. 0 \<le> dict_get 0 req c"
    and generic: "0 \<le> dict_get 0 req ''GENERIC''"
  shows "dict_get 0 pool' c + dict_get 0 spent' c = dict_get 0 pool c"
    and "0 \<le> dict_get 0 pool' c"
    and "c \<in> set MANA_KEYS \<Longrightarrow> dict_get 0 req c \<le> dict_get 0 spent' c"
    and "spendable_total spent' =
           dict_get 0 req ''GENERIC'' + sum_list (map (dict_get 0 req) MANA_KEYS)"
proof -
  obtain p1 s1 where fixed: "pay_fixed MANA_KEYS req pool zero_bundle = Inr (p1, s1)"
    and gen: "pay_generic GENERIC_ORDER (dict_get 0 req ''GENERIC'') p1 s1 = (0, pool', spent')"
    using pay by (rule pay_automatic_cases)
  note f = pay_fixed_Inr [OF fixed mana_keys_distinct]
  have p1: "\<forall>c. 0 \<le> dict_get 0 p1 c" using f pool by auto
  note g = pay_generic_get [OF gen p1]
  note l = pay_generic_left [OF gen p1 generic_order_keys(2) generic]
  show "dict_get 0 pool' c + dict_get 0 spent' c = dict_get 0 pool c"
    using f [of c] g [of c] by simp
  show "0 \<le> dict_get 0 pool' c" using g by simp
  show "dict_get 0 req c \<le> dict_get 0 spent' c" if "c \<in> set MANA_KEYS"
    using f [of c] g [of c] that by simp
  have "map (dict_get 0 s1) MANA_KEYS = map (dict_get 0 req) MANA_KEYS" using f by simp
  then have "sum_list (map (dict_get 0 s1) MANA_KEYS) = sum_list (map (dict_get 0 req) MANA_KEYS)"
    by (rule arg_cong)
  then show "spendable_total spent' =
      dict_get 0 req ''GENERIC'' + sum_list (map (dict_get 0 req) MANA_KEYS)"
    using l unfolding sum_generic_order spendable_total_def by linarith
qed

lemma pay_declared_Inr:
  assumes pay: "pay_declared payment pool req = Inr (pool', spent')"
  shows "normalize_mana_bundle (Some payment) = Inr spent'"
    and "dict_get 0 pool' c + dict_get 0 spent' c = dict_get 0 pool c"
    and "c \<in> set MANA_KEYS \<Longrightarrow> 0 \<le> dict_get 0 pool' c"
    and "c \<in> set MANA_KEYS \<Longrightarrow> dict_get 0 req c \<le> dict_get 0 spent' c"
    and "spendable_total spent' =
           dict_get 0 req ''GENERIC'' + sum_list (map (dict_get 0 req) MANA_KEYS)"
proof -
  have norm: "normalize_mana_bundle (Some payment) = Inr spent'"
    and chk: "check_declared MANA_KEYS spent' pool req = Inr ()"
    and tot: "sum_list (map snd spent') =
      dict_get 0 req ''GENERIC'' + sum_list (map (dict_get 0 req) MANA_KEYS)"
    and sub: "pool' = subtract_spent spent' pool"
    using pay by (auto simp: pay_declared_def ebind_eq_Inr Let_def split: if_splits)
  have ok: "bundle_ok spent'" using normalize_ok [OF norm] by simp
  show "normalize_mana_bundle (Some payment) = Inr spent'" by (rule norm)
  show eq: "dict_get 0 pool' c + dict_get 0 spent' c = dict_get 0 pool c" for c
    using ok by (simp add: sub subtract_spent_get bundle_ok_def)
  show "0 \<le> dict_get 0 pool' c" if "c \<in> set MANA_KEYS"
    using chk that eq [of c] by (auto simp: check_declared_Inr)
  show "dict_get 0 req c \<le> dict_get 0 spent' c" if "c \<in> set MANA_KEYS"
    using chk that by (auto simp: check_declared_Inr)
  show "spendable_total spent' =
      dict_get 0 req ''GENERIC'' + sum_list (map (dict_get 0 req) MANA_KEYS)"
    using tot bundle_sum [OF ok] by simp
qed

lemma pay_mana_Inr:
  assumes "pay_mana_from_pool pool requirements payment = Inr r"
  obtains d req where "normalize_mana_bundle (Some pool) = Inr d"
    and "read_requirements MANA_KEYS requirements
           [(''GENERIC'', dict_get 0 requirements ''GENERIC'')] = Inr req"
    and "0 \<le> dict_get 0 req ''GENERIC''"
    and "(case payment of Some p \<Rightarrow> pay_declared p d req | None \<Rightarrow> pay_automatic pool d req) = Inr r"
  using assms by (auto simp: pay_mana_from_pool_def ebind_eq_Inr not_less split: if_splits)

lemma pay_automatic_total:
  assumes pool: "\<forall>c. 0 \<le> dict_get 0 pool c" and generic: "0 \<le> dict_get 0 req ''GENERIC''"
    and colored: "\<forall>c \<in> set MANA_KEYS. dict_get 0 req c \<le> dict_get 0 pool c"
    and total: "dict_get 0 req ''GENERIC'' + sum_list (map (dict_get 0 req) MANA_KEYS)
                  \<le> spendable_total pool"
  shows "\<exists>r. pay_automatic original pool req = Inr r"
proof -
  obtain p1 s1 where fixed: "pay_fixed MANA_KEYS req pool zero_bundle = Inr (p1, s1)"
    using pay_fixed_total [OF colored mana_keys_distinct] by (metis surj_pair)
  note f = pay_fixed_Inr [OF fixed mana_keys_distinct]
  have p1: "\<forall>c. 0 \<le> dict_get 0 p1 c" using f pool by auto
  have "\<And>c. c \<in> set MANA_KEYS \<Longrightarrow> dict_get 0 p1 c = dict_get 0 pool c - dict_get 0 req c"
    using f by simp
  then have "sum_list (map (dict_get 0 p1) MANA_KEYS) =
      spendable_total pool - sum_list (map (dict_get 0 req) MANA_KEYS)"
    using spendable_total_diff [of p1 "dict_get 0 pool" "dict_get 0 req"]
    by (simp add: spendable_total_def)
  moreover obtain g p2 s2
    where gen: "pay_generic GENERIC_ORDER (dict_get 0 req ''GENERIC'') p1 s1 = (g, p2, s2)"
    by (rule prod_cases3)
  ultimately have "g = 0"
    using pay_generic_left [OF gen p1 generic_order_keys(2) generic] total
    unfolding sum_generic_order by simp
  with fixed gen show ?thesis by (simp add: pay_automatic_def)
qed

text \<open>
  C31. A payment that succeeds, declared or automatic, splits the normalised pool exactly into
  what is left and what was spent, leaves no colour negative, covers every coloured requirement
  in its own colour and spends exactly the required total.
\<close>

theorem pay_mana_conserves:
  assumes "pay_mana_from_pool pool requirements payment = Inr (new_pool, spent)"
  shows "\<exists>d. normalize_mana_bundle (Some pool) = Inr d \<and>
    (\<forall>c \<in> set MANA_KEYS. dict_get 0 new_pool c + dict_get 0 spent c = dict_get 0 d c
       \<and> 0 \<le> dict_get 0 new_pool c \<and> dict_get 0 requirements c \<le> dict_get 0 spent c)
    \<and> spendable_total spent = required_total requirements"
proof -
  obtain d req where d: "normalize_mana_bundle (Some pool) = Inr d"
    and read: "read_requirements MANA_KEYS requirements
      [(''GENERIC'', dict_get 0 requirements ''GENERIC'')] = Inr req"
    and generic: "0 \<le> dict_get 0 req ''GENERIC''"
    and pay: "(case payment of Some p \<Rightarrow> pay_declared p d req | None \<Rightarrow> pay_automatic pool d req)
      = Inr (new_pool, spent)"
    using assms by (rule pay_mana_Inr)
  note rq = read_requirements_all [OF read]
  have d0: "\<forall>c. 0 \<le> dict_get 0 d c" using normalize_ok [OF d] by simp
  show ?thesis
  proof (cases payment)
    case None
    then have "pay_automatic pool d req = Inr (new_pool, spent)" using pay by simp
    from pay_automatic_Inr [OF this d0 _ generic] d rq show ?thesis
      by (auto simp: required_total_def)
  next
    case (Some p)
    then have "pay_declared p d req = Inr (new_pool, spent)" using pay by simp
    from pay_declared_Inr [OF this] d rq show ?thesis
      by (auto simp: required_total_def)
  qed
qed

theorem pay_mana_conserves_witness:
  "\<exists>new_pool spent.
     pay_mana_from_pool [(''w'', 3), (''C'', 1)] [(''W'', 1), (''GENERIC'', 2)] None
       = Inr (new_pool, spent)
     \<and> dict_get 0 spent ''C'' = 1
     \<and> spendable_total spent = required_total [(''W'', 1), (''GENERIC'', 2)]"
proof -
  have pay: "pay_mana_from_pool [(''w'', 3), (''C'', 1)] [(''W'', 1), (''GENERIC'', 2)] None =
    Inr ([(''W'', 1), (''U'', 0), (''B'', 0), (''R'', 0), (''G'', 0), (''C'', 0)],
         [(''W'', 2), (''U'', 0), (''B'', 0), (''R'', 0), (''G'', 0), (''C'', 1)])"
    by code_simp
  from pay_mana_conserves [OF this] pay show ?thesis by (auto simp: dict_get_def)
qed

text \<open>
  The automatic rule is complete: with nonnegative requirements it succeeds exactly when
  every colour covers its own requirement and the pool covers the total.
\<close>

theorem automatic_payment_iff_affordable:
  assumes d: "normalize_mana_bundle (Some pool) = Inr d"
    and colored: "\<forall>c \<in> set MANA_KEYS. 0 \<le> dict_get 0 requirements c"
    and generic: "0 \<le> dict_get 0 requirements ''GENERIC''"
  shows "(\<exists>r. pay_mana_from_pool pool requirements None = Inr r) \<longleftrightarrow>
    (\<forall>c \<in> set MANA_KEYS. dict_get 0 requirements c \<le> dict_get 0 d c)
    \<and> required_total requirements \<le> spendable_total d"
proof -
  obtain req where read: "read_requirements MANA_KEYS requirements
      [(''GENERIC'', dict_get 0 requirements ''GENERIC'')] = Inr req"
    using read_requirements_total [OF colored] by blast
  note rq = read_requirements_all [OF read]
  have d0: "\<forall>c. 0 \<le> dict_get 0 d c" using normalize_ok [OF d] by simp
  have g0: "0 \<le> dict_get 0 req ''GENERIC''" using generic rq(1) by simp
  have eq: "pay_mana_from_pool pool requirements None = pay_automatic pool d req"
    using d read g0 by (simp add: pay_mana_from_pool_def)
  show ?thesis
  proof
    assume "\<exists>r. pay_mana_from_pool pool requirements None = Inr r"
    then obtain p s where "pay_automatic pool d req = Inr (p, s)" using eq by auto
    note a = pay_automatic_Inr [OF this d0 _ g0]
    have colors: "dict_get 0 requirements c \<le> dict_get 0 d c" if "c \<in> set MANA_KEYS" for c
      using a(1-3) [of c] rq(2,3) that by fastforce
    have "\<And>c. c \<in> set MANA_KEYS \<Longrightarrow> dict_get 0 s c = dict_get 0 d c - dict_get 0 p c"
      using a(1) rq(3) by (metis add_diff_cancel_left')
    then have "spendable_total s = spendable_total d - spendable_total p"
      using spendable_total_diff [of s "dict_get 0 d" "dict_get 0 p"]
      by (simp add: spendable_total_def)
    moreover have "0 \<le> spendable_total p"
      unfolding spendable_total_def using a(2) rq(3) by (auto intro!: sum_list_nonneg)
    ultimately show "(\<forall>c \<in> set MANA_KEYS. dict_get 0 requirements c \<le> dict_get 0 d c)
        \<and> required_total requirements \<le> spendable_total d"
      using colors a(4) rq by (auto simp: required_total_def)
  next
    assume "(\<forall>c \<in> set MANA_KEYS. dict_get 0 requirements c \<le> dict_get 0 d c)
        \<and> required_total requirements \<le> spendable_total d"
    then show "\<exists>r. pay_mana_from_pool pool requirements None = Inr r"
      unfolding eq using pay_automatic_total [OF d0 g0] rq by (simp add: required_total_def)
  qed
qed

theorem automatic_payment_iff_affordable_witness:
  "(\<exists>r. pay_mana_from_pool [(''R'', 2)] [(''R'', 1), (''GENERIC'', 1)] None = Inr r)"
proof -
  have d: "normalize_mana_bundle (Some [(''R'', 2)]) =
      Inr [(''W'', 0), (''U'', 0), (''B'', 0), (''R'', 2), (''G'', 0), (''C'', 0)]"
    by code_simp
  have r: "\<forall>c \<in> set MANA_KEYS. (0::int) \<le> dict_get 0 [(''R'', 1), (''GENERIC'', 1)] c"
    by (simp add: MANA_KEYS_def dict_get_def)
  have g: "(0::int) \<le> dict_get 0 [(''R'', 1), (''GENERIC'', 1)] ''GENERIC''"
    by code_simp
  show ?thesis
    unfolding automatic_payment_iff_affordable [OF d r g]
    by (simp add: MANA_KEYS_def dict_get_def required_total_def spendable_total_def)
qed

text \<open>
  A declared payment is accepted exactly when it is a well-formed bundle that covers every
  coloured requirement, never exceeds the pool in any colour and spends the required total
  exactly; the new pool is then the old one less the declared bundle.
\<close>

theorem declared_payment_accepted_iff:
  assumes d: "normalize_mana_bundle (Some pool) = Inr d"
    and colored: "\<forall>c \<in> set MANA_KEYS. 0 \<le> dict_get 0 requirements c"
    and generic: "0 \<le> dict_get 0 requirements ''GENERIC''"
  shows "pay_mana_from_pool pool requirements (Some declared) = Inr (new_pool, spent) \<longleftrightarrow>
    normalize_mana_bundle (Some declared) = Inr spent
    \<and> (\<forall>c \<in> set MANA_KEYS. dict_get 0 requirements c \<le> dict_get 0 spent c
          \<and> dict_get 0 spent c \<le> dict_get 0 d c)
    \<and> spendable_total spent = required_total requirements
    \<and> new_pool = subtract_spent spent d"
proof -
  obtain req where read: "read_requirements MANA_KEYS requirements
      [(''GENERIC'', dict_get 0 requirements ''GENERIC'')] = Inr req"
    using read_requirements_total [OF colored] by blast
  note rq = read_requirements_all [OF read]
  have eq: "pay_mana_from_pool pool requirements (Some declared) = pay_declared declared d req"
    using d read generic rq(1) by (simp add: pay_mana_from_pool_def)
  have surplus: "sum_list (map (\<lambda>color. dict_get 0 s color - dict_get 0 req color) MANA_KEYS)
      = spendable_total s - spendable_total requirements" for s
    using rq(4) by (simp add: spendable_total_def MANA_KEYS_def)
  have chk: "check_declared MANA_KEYS s d req = Inr () \<longleftrightarrow>
      (\<forall>c \<in> set MANA_KEYS. dict_get 0 requirements c \<le> dict_get 0 s c
          \<and> dict_get 0 s c \<le> dict_get 0 d c)" for s
    using rq(2) by (auto simp: check_declared_Inr)
  show ?thesis
  proof (cases "normalize_mana_bundle (Some declared)")
    case (Inl e)
    then show ?thesis by (simp add: eq pay_declared_def)
  next
    case (Inr s)
    have tot: "sum_list (map snd s) = spendable_total s"
      using normalize_ok [OF Inr] bundle_sum by blast
    show ?thesis
      using Inr chk [of s] tot surplus [of s] rq(1,4)
      by (auto simp: eq pay_declared_def ebind_eq_Inr required_total_def Let_def)
  qed
qed

theorem declared_payment_accepted_iff_witness:
  "pay_mana_from_pool [(''R'', 2)] [(''R'', 1)] (Some [(''r'', 1)]) =
     Inr ([(''W'', 0), (''U'', 0), (''B'', 0), (''R'', 1), (''G'', 0), (''C'', 0)],
          [(''W'', 0), (''U'', 0), (''B'', 0), (''R'', 1), (''G'', 0), (''C'', 0)])"
proof -
  have d: "normalize_mana_bundle (Some [(''R'', 2)]) =
      Inr [(''W'', 0), (''U'', 0), (''B'', 0), (''R'', 2), (''G'', 0), (''C'', 0)]"
    by code_simp
  have p: "normalize_mana_bundle (Some [(''r'', 1)]) =
      Inr [(''W'', 0), (''U'', 0), (''B'', 0), (''R'', 1), (''G'', 0), (''C'', 0)]"
    by code_simp
  have r: "\<forall>c \<in> set MANA_KEYS. (0::int) \<le> dict_get 0 [(''R'', 1)] c"
    by (simp add: MANA_KEYS_def dict_get_def)
  have g: "(0::int) \<le> dict_get 0 [(''R'', 1)] ''GENERIC''"
    by (simp add: dict_get_def)
  show ?thesis
    unfolding declared_payment_accepted_iff [OF d r g]
    by (simp add: p MANA_KEYS_def dict_get_def required_total_def spendable_total_def)
qed

lemma braces [simp]: "\<not> not_brace (CHR ''{'')" "\<not> not_brace (CHR ''}'')"
  by (simp_all add: not_brace_def)

lemma takeWhile_not_brace:
  "\<forall>c \<in> set s. not_brace c \<Longrightarrow> takeWhile not_brace (s @ CHR ''}'' # t) = s"
  "\<forall>c \<in> set s. not_brace c \<Longrightarrow> dropWhile not_brace (s @ CHR ''}'' # t) = CHR ''}'' # t"
  by (induction s) (simp_all add: not_brace_def)

lemma scan_symbols_printed:
  "\<forall>s \<in> set symbols. s \<noteq> [] \<and> (\<forall>c \<in> set s. not_brace c) \<Longrightarrow>
   scan_symbols (concat (map (\<lambda>s. CHR ''{'' # s @ [CHR ''}'']) symbols)) = symbols"
  by (induction symbols) (simp_all add: takeWhile_not_brace Let_def)

text \<open>
  Reading back a printed cost gives its symbols in order, in upper case: nothing between
  braces is lost, merged or reordered.
\<close>

theorem parse_printed_cost:
  assumes "\<forall>s \<in> set symbols. s \<noteq> [] \<and> (\<forall>c \<in> set s. not_brace c)"
  shows "parse_mana_symbols (Some (concat (map (\<lambda>s. CHR ''{'' # s @ [CHR ''}'']) symbols)))
    = map upper symbols"
  using scan_symbols_printed [OF assms] by (simp add: parse_mana_symbols_def)

theorem parse_printed_cost_witness:
  "parse_mana_symbols (Some ''{2}{w/u}{X}'') = [''2'', ''W/U'', ''X'']"
proof -
  have printed: "concat (map (\<lambda>s. CHR ''{'' # s @ [CHR ''}'']) [''2'', ''w/u'', ''X''])
    = ''{2}{w/u}{X}''" by simp
  have ok: "\<forall>s \<in> set [''2'', ''w/u'', ''X'']. s \<noteq> [] \<and> (\<forall>c \<in> set s. not_brace c)"
    by (simp add: not_brace_def)
  show ?thesis
    unfolding printed [symmetric] parse_printed_cost [OF ok]
    by code_simp
qed

end
