(* ===== verification/State_Planner.thy ===== *)
theory State_Planner imports Prelude
begin

text \<open>
  The atomic shadow-state transaction of \<open>quorune/state_planner.py\<close>: plan a batch of
  changes against a shadow, validate the plan against the live state, write one final
  transition per key.  A domain plugs in through an adapter; the record below is the protocol
  \<open>StateChangeAdapter\<close>, its operations that may raise returning a sum.  The locale
  \<open>state_adapter\<close> states what the planner relies on and proves, once for every domain, that a
  plan validates in the state it was made in, that committing it gives every key the value the
  changes add up to, and that a plan is refused once a planned value has moved.
\<close>

section \<open>The adapter protocol and the planner\<close>

datatype 'e planner_error = PlanStale | PlanChanged | AdapterError 'e

record ('h, 'c, 't, 'k, 'e) adapter =
  validate_change :: "'c \<Rightarrow> 'e + unit"
  change_key :: "'c \<Rightarrow> 'k"
  current_value :: "'h \<Rightarrow> 'c \<Rightarrow> 'e + int"
  next_value :: "int \<Rightarrow> 'c \<Rightarrow> int"
  transition :: "'c \<Rightarrow> int \<Rightarrow> int \<Rightarrow> 't"
  change_from_transition :: "'t \<Rightarrow> 'e + 'c"
  transition_before :: "'t \<Rightarrow> int"
  transition_after :: "'t \<Rightarrow> int"
  validate_transition :: "'t \<Rightarrow> 'e + unit"
  apply_final :: "'h \<Rightarrow> 't \<Rightarrow> 'e + 'h"

fun plan_loop ::
  "('h, 'c, 't, 'k, 'e) adapter \<Rightarrow> 'h \<Rightarrow> 'c list \<Rightarrow> ('k, int) dict \<Rightarrow> 'e + 't list" where
  "plan_loop A host [] shadow = Inr []"
| "plan_loop A host (change # changes) shadow =
     ebind (validate_change A change) (\<lambda>_.
     ebind (case map_of shadow (change_key A change) of
              Some before \<Rightarrow> Inr before
            | None \<Rightarrow> current_value A host change) (\<lambda>before.
     let after = next_value A before change; t = transition A change before after in
     ebind (validate_transition A t) (\<lambda>_.
     ebind (plan_loop A host changes (AList.update (change_key A change) after shadow))
       (\<lambda>ts. Inr (t # ts)))))"

definition plan_state_changes ::
  "('h, 'c, 't, 'k, 'e) adapter \<Rightarrow> 'h \<Rightarrow> 'c list \<Rightarrow> 'e + 't list" where
  "plan_state_changes A host changes = plan_loop A host changes []"

fun validate_loop ::
  "('h, 'c, 't, 'k, 'e) adapter \<Rightarrow> 'h \<Rightarrow> 't list \<Rightarrow> ('k, int) dict
     \<Rightarrow> ('k, 'c \<times> int) dict \<Rightarrow> 'e planner_error + ('k, 'c \<times> int) dict" where
  "validate_loop A host [] expected initial = Inr initial"
| "validate_loop A host (t # ts) expected initial =
     ebind (reraise AdapterError (validate_transition A t)) (\<lambda>_.
     ebind (reraise AdapterError (change_from_transition A t)) (\<lambda>change.
     ebind (reraise AdapterError (validate_change A change)) (\<lambda>_.
     let key = change_key A change; before = transition_before A t in
     ebind (case map_of expected key of
              Some e \<Rightarrow> Inr (e, initial)
            | None \<Rightarrow>
                ebind (reraise AdapterError (current_value A host change)) (\<lambda>current.
                Inr (current, AList.update key (change, before) initial)))
       (\<lambda>(e, initial').
     if before \<noteq> e then Inl PlanStale
     else validate_loop A host ts (AList.update key (transition_after A t) expected) initial'))))"

definition recheck_initial ::
  "('h, 'c, 't, 'k, 'e) adapter \<Rightarrow> 'h \<Rightarrow> unit \<Rightarrow> 'k \<times> 'c \<times> int \<Rightarrow> 'e planner_error + unit" where
  "recheck_initial A host u entry =
     ebind (reraise AdapterError (current_value A host (fst (snd entry)))) (\<lambda>current.
     ensure (current = snd (snd entry)) PlanChanged)"

definition validate_state_plan ::
  "('h, 'c, 't, 'k, 'e) adapter \<Rightarrow> 'h \<Rightarrow> 't list \<Rightarrow> 'e planner_error + unit" where
  "validate_state_plan A host ts =
     ebind (validate_loop A host ts [] []) (\<lambda>initial.
     efold (recheck_initial A host) () initial)"

definition final_step ::
  "('h, 'c, 't, 'k, 'e) adapter \<Rightarrow> ('k, 't) dict \<Rightarrow> 't \<Rightarrow> 'e + ('k, 't) dict" where
  "final_step A final t =
     ebind (change_from_transition A t) (\<lambda>change.
     Inr (AList.update (change_key A change) t final))"

definition apply_state_plan ::
  "('h, 'c, 't, 'k, 'e) adapter \<Rightarrow> 'h \<Rightarrow> 't list \<Rightarrow> 'e + 'h \<times> 't list" where
  "apply_state_plan A host ts =
     ebind (efold (final_step A) [] ts) (\<lambda>final.
     ebind (efold (\<lambda>h entry. apply_final A h (snd entry)) host final) (\<lambda>host'.
     Inr (host', ts)))"

definition commit_state_plan ::
  "('h, 'c, 't, 'k, 'e) adapter \<Rightarrow> 'h \<Rightarrow> 't list \<Rightarrow> 'e planner_error + 'h \<times> 't list" where
  "commit_state_plan A host ts =
     ebind (validate_state_plan A host ts) (\<lambda>_.
     reraise AdapterError (apply_state_plan A host ts))"

section \<open>What the planner relies on\<close>

text \<open>
  \<open>wf\<close> marks the changes a constructor can build.  The laws are: a transition remembers its
  change; a transition to the next value is valid; a key has one readable value; writing a
  valid transition makes its value readable at its key and leaves every other key alone.
\<close>

locale state_adapter =
  fixes A :: "('h, 'c, 't, 'k, 'e) adapter" and wf :: "'c \<Rightarrow> bool"
  assumes change_ok: "wf c \<Longrightarrow> validate_change A c = Inr ()"
    and reads_back: "wf c \<Longrightarrow> change_from_transition A (transition A c b a) = Inr c"
    and before_after: "transition_before A (transition A c b a) = b"
      "transition_after A (transition A c b a) = a"
    and next_ok: "wf c \<Longrightarrow> validate_transition A (transition A c b (next_value A b c)) = Inr ()"
    and one_value: "change_key A c = change_key A c' \<Longrightarrow> current_value A h c = Inr v \<Longrightarrow>
      current_value A h c' = Inr v' \<Longrightarrow> v = v'"
    and write_same: "wf c \<Longrightarrow> change_key A c' = change_key A c \<Longrightarrow> current_value A h c' = Inr v \<Longrightarrow>
      \<exists>h'. apply_final A h (transition A c b (next_value A b c)) = Inr h'
        \<and> current_value A h' c' = Inr (next_value A b c)"
    and write_other: "wf c \<Longrightarrow> change_key A c' \<noteq> change_key A c \<Longrightarrow>
      apply_final A h (transition A c b (next_value A b c)) = Inr h' \<Longrightarrow>
      current_value A h' c' = current_value A h c'"
begin

text \<open>The value of a key after the changes of a batch that name it, in order.\<close>

definition run_key :: "'k \<Rightarrow> int \<Rightarrow> 'c list \<Rightarrow> int" where
  "run_key k v cs = foldl (\<lambda>v c. if change_key A c = k then next_value A v c else v) v cs"

lemma run_key_simps [simp]:
  "run_key k v [] = v"
  "run_key k v (c # cs) = run_key k (if change_key A c = k then next_value A v c else v) cs"
  by (simp_all add: run_key_def)

lemma run_key_untouched: "\<forall>c \<in> set cs. change_key A c \<noteq> k \<Longrightarrow> run_key k v cs = v"
  by (induction cs arbitrary: v) simp_all

lemma plan_loop_Cons:
  assumes "plan_loop A h (c # cs) shadow = Inr ts" and "wf c"
  obtains b ts' where "(case map_of shadow (change_key A c) of Some b \<Rightarrow> Inr b
        | None \<Rightarrow> current_value A h c) = Inr b"
    and "ts = transition A c b (next_value A b c) # ts'"
    and "plan_loop A h cs (AList.update (change_key A c) (next_value A b c) shadow) = Inr ts'"
  using assms by (auto simp: ebind_eq_Inr Let_def)

lemma plan_transitions:
  assumes "plan_loop A h cs shadow = Inr ts" and "\<forall>c \<in> set cs. wf c"
  shows "list_all2 (\<lambda>c t. \<exists>b. t = transition A c b (next_value A b c)) cs ts"
  using assms
proof (induction cs arbitrary: shadow ts)
  case (Cons c cs)
  from Cons.prems have "wf c" by simp
  with Cons.prems(1) show ?case
    by (rule plan_loop_Cons) (use Cons.IH Cons.prems(2) in auto)
qed simp

lemma plan_validates_loop:
  assumes "plan_loop A h cs shadow = Inr ts" and "\<forall>c \<in> set cs. wf c"
    and "\<forall>(k, c, b) \<in> set initial. current_value A h c = Inr b"
  shows "\<exists>initial'. validate_loop A h ts shadow initial = Inr initial'
    \<and> (\<forall>(k, c, b) \<in> set initial'. current_value A h c = Inr b)"
  using assms
proof (induction cs arbitrary: shadow ts initial)
  case (Cons c cs)
  from Cons.prems have wf: "wf c" by simp
  from Cons.prems(1) wf obtain b ts'
    where b: "(case map_of shadow (change_key A c) of Some b \<Rightarrow> Inr b
        | None \<Rightarrow> current_value A h c) = Inr b"
      and ts: "ts = transition A c b (next_value A b c) # ts'"
      and rest: "plan_loop A h cs (AList.update (change_key A c) (next_value A b c) shadow) = Inr ts'"
    by (rule plan_loop_Cons)
  define initial1 where "initial1 = (case map_of shadow (change_key A c) of
      Some _ \<Rightarrow> initial | None \<Rightarrow> AList.update (change_key A c) (c, b) initial)"
  have init1: "\<forall>(k, c, b) \<in> set initial1. current_value A h c = Inr b"
  proof (cases "map_of shadow (change_key A c)")
    case None
    then have "set initial1 \<subseteq> insert (change_key A c, c, b) (set initial)"
      using set_dict_set [of "change_key A c" "(c, b)" initial] by (auto simp: initial1_def)
    moreover have "current_value A h c = Inr b" using b None by simp
    ultimately show ?thesis using Cons.prems(3) by blast
  qed (use Cons.prems(3) in \<open>simp add: initial1_def\<close>)
  have "validate_loop A h ts shadow initial =
      validate_loop A h ts' (AList.update (change_key A c) (next_value A b c) shadow) initial1"
    using b wf
    by (cases "map_of shadow (change_key A c)")
      (simp_all add: ts next_ok reads_back change_ok before_after initial1_def Let_def)
  with Cons.IH [OF rest _ init1] Cons.prems(2) show ?case by simp
qed simp

lemma plan_validates:
  assumes "plan_state_changes A h cs = Inr ts" and "\<forall>c \<in> set cs. wf c"
  shows "validate_state_plan A h ts = Inr ()"
proof -
  obtain initial where v: "validate_loop A h ts [] [] = Inr initial"
    and current: "\<forall>(k, c, b) \<in> set initial. current_value A h c = Inr b"
    using plan_validates_loop [of h cs "[]" ts "[]"] assms by (auto simp: plan_state_changes_def)
  have "efold (recheck_initial A h) () initial = Inr ()"
    using current by (induction initial) (auto simp: recheck_initial_def)
  with v show ?thesis by (simp add: validate_state_plan_def)
qed

text \<open>The final dictionary of a plan: each entry is a written transition of its own key.\<close>

definition written :: "'h \<Rightarrow> ('k, 't) dict \<Rightarrow> bool" where
  "written h final \<longleftrightarrow> distinct (map fst final) \<and> (\<forall>(k, t) \<in> set final. \<exists>c b c1 v.
     wf c \<and> t = transition A c b (next_value A b c) \<and> change_key A c = k
     \<and> change_key A c1 = k \<and> current_value A h c1 = Inr v)"

definition value_in :: "('k, 't) dict \<Rightarrow> 'k \<Rightarrow> int \<Rightarrow> int" where
  "value_in final k v = (case map_of final k of Some t \<Rightarrow> transition_after A t | None \<Rightarrow> v)"

lemma final_of_plan:
  assumes "plan_loop A h cs shadow = Inr ts" and "\<forall>c \<in> set cs. wf c" and "written h final"
    and "\<forall>k. map_of shadow k = map_option (transition_after A) (map_of final k)"
  shows "\<exists>final'. efold (final_step A) final ts = Inr final' \<and> written h final'
    \<and> (\<forall>c v. current_value A h c = Inr v \<longrightarrow>
          value_in final' (change_key A c) v = run_key (change_key A c) (value_in final (change_key A c) v) cs)"
  using assms
proof (induction cs arbitrary: shadow ts final)
  case (Cons c0 cs)
  from Cons.prems have wf: "wf c0" by simp
  from Cons.prems(1) wf obtain b ts'
    where b: "(case map_of shadow (change_key A c0) of Some b \<Rightarrow> Inr b
        | None \<Rightarrow> current_value A h c0) = Inr b"
      and ts: "ts = transition A c0 b (next_value A b c0) # ts'"
      and rest: "plan_loop A h cs
        (AList.update (change_key A c0) (next_value A b c0) shadow) = Inr ts'"
    by (rule plan_loop_Cons)
  define t where "t = transition A c0 b (next_value A b c0)"
  define final1 where "final1 = AList.update (change_key A c0) t final"
  have readable: "\<exists>c1 v. change_key A c1 = change_key A c0 \<and> current_value A h c1 = Inr v"
  proof (cases "map_of final (change_key A c0)")
    case None
    with b Cons.prems(4) show ?thesis by (metis option.map(1) option.case(1))
  next
    case (Some t')
    with Cons.prems(3) show ?thesis by (force simp: written_def dest: map_of_SomeD)
  qed
  have entry: "\<exists>c b c1 v. wf c \<and> t = transition A c b (next_value A b c)
      \<and> change_key A c = change_key A c0 \<and> change_key A c1 = change_key A c0
      \<and> current_value A h c1 = Inr v"
    using readable wf unfolding t_def by blast
  have w1: "written h final1"
    unfolding written_def
  proof (intro conjI ballI)
    show "distinct (map fst final1)"
      using Cons.prems(3) unfolding final1_def written_def by (simp add: distinct_dict_set)
  next
    fix p
    assume "p \<in> set final1"
    then have "p = (change_key A c0, t) \<or> p \<in> set final"
      using set_dict_set unfolding final1_def by fastforce
    then show "case p of (k, t) \<Rightarrow> \<exists>c b c1 v. wf c \<and> t = transition A c b (next_value A b c)
        \<and> change_key A c = k \<and> change_key A c1 = k \<and> current_value A h c1 = Inr v"
      using entry Cons.prems(3) by (auto simp: written_def)
  qed
  have sh1: "\<forall>k. map_of (AList.update (change_key A c0) (next_value A b c0) shadow) k
      = map_option (transition_after A) (map_of final1 k)"
    using Cons.prems(4) by (simp add: final1_def t_def before_after)
  have step: "value_in final1 (change_key A c) v =
      (if change_key A c0 = change_key A c
       then next_value A (value_in final (change_key A c) v) c0
       else value_in final (change_key A c) v)"
    if "current_value A h c = Inr v" for c v
  proof (cases "change_key A c0 = change_key A c")
    case True
    then have "value_in final (change_key A c) v = b"
      using b Cons.prems(4) one_value [OF True _ that]
      by (auto simp: value_in_def split: option.splits)
    with True show ?thesis by (simp add: value_in_def final1_def t_def before_after)
  qed (simp add: value_in_def final1_def)
  have "efold (final_step A) final ts = efold (final_step A) final1 ts'"
    using wf by (simp add: ts final_step_def reads_back final1_def t_def)
  with Cons.IH [OF rest _ w1 sh1] Cons.prems(2) step show ?case by fastforce
qed simp

lemma final_from_plan:
  assumes "efold (final_step A) [] ts = Inr final"
  shows "snd ` set final \<subseteq> set ts"
proof (rule efold_invariant [where P = "\<lambda>final. snd ` set final \<subseteq> set ts", OF assms])
  fix d t d'
  assume d: "snd ` set d \<subseteq> set ts" "t \<in> set ts" and "final_step A d t = Inr d'"
  then obtain k where d': "d' = AList.update k t d" by (auto simp: final_step_def ebind_eq_Inr)
  have "snd ` set d' \<subseteq> insert t (snd ` set d)"
    using image_mono [OF set_dict_set [of k t d], of snd] by (simp add: d')
  with d show "snd ` set d' \<subseteq> set ts" by blast
qed simp

lemma write_final:
  assumes "written h final"
  shows "\<exists>h'. efold (\<lambda>h entry. apply_final A h (snd entry)) h final = Inr h'
    \<and> (\<forall>c v. current_value A h c = Inr v \<longrightarrow>
          current_value A h' c = Inr (value_in final (change_key A c) v))"
  using assms
proof (induction final arbitrary: h)
  case Nil
  then show ?case by (simp add: value_in_def)
next
  case (Cons p final)
  obtain k t where p: "p = (k, t)" by (cases p)
  obtain c b c1 v1 where wf: "wf c" and t: "t = transition A c b (next_value A b c)"
    and key: "change_key A c = k" and key1: "change_key A c1 = k"
    and read1: "current_value A h c1 = Inr v1"
    using Cons.prems by (auto simp: written_def p)
  obtain h1 where h1: "apply_final A h t = Inr h1"
    using write_same [OF wf _ read1] key key1 unfolding t by blast
  have same: "current_value A h1 c' = Inr (next_value A b c)"
    if "change_key A c' = k" "current_value A h c' = Inr v" for c' v
    using write_same [OF wf _ that(2), of b] that(1) key h1 unfolding t by auto
  have other: "current_value A h1 c' = current_value A h c'" if "change_key A c' \<noteq> k" for c'
    using write_other [OF wf] that key h1 unfolding t by blast
  have fresh: "map_of final k = None" and distinct: "distinct (map fst final)"
    using Cons.prems by (auto simp: written_def p map_of_None_key)
  have "written h1 final"
    unfolding written_def
  proof (intro conjI ballI)
    fix q
    assume q: "q \<in> set final"
    then have "fst q \<noteq> k" using fresh by (auto simp: map_of_None_key)
    moreover have "case q of (k, t) \<Rightarrow> \<exists>c b c1 v. wf c \<and> t = transition A c b (next_value A b c)
        \<and> change_key A c = k \<and> change_key A c1 = k \<and> current_value A h c1 = Inr v"
      using Cons.prems q by (auto simp: written_def)
    ultimately show "case q of (k, t) \<Rightarrow> \<exists>c b c1 v. wf c \<and> t = transition A c b (next_value A b c)
        \<and> change_key A c = k \<and> change_key A c1 = k \<and> current_value A h1 c1 = Inr v"
      using other by (cases q) fastforce
  qed (rule distinct)
  from Cons.IH [OF this] obtain h'
    where h': "efold (\<lambda>h entry. apply_final A h (snd entry)) h1 final = Inr h'"
      and vals: "\<And>c v. current_value A h1 c = Inr v \<Longrightarrow>
        current_value A h' c = Inr (value_in final (change_key A c) v)"
    by blast
  have "current_value A h' c' = Inr (value_in (p # final) (change_key A c') v)"
    if read: "current_value A h c' = Inr v" for c' v
  proof (cases "change_key A c' = k")
    case True
    with vals [OF same [OF True read]] fresh show ?thesis
      by (simp add: value_in_def p t before_after)
  next
    case False
    with vals [of c' v] other [OF False] read show ?thesis by (simp add: value_in_def p)
  qed
  with h1 h' show ?case by (auto simp: p)
qed

theorem commit_plan:
  assumes plan: "plan_state_changes A h cs = Inr ts" and wf: "\<forall>c \<in> set cs. wf c"
  shows "\<exists>h'. commit_state_plan A h ts = Inr (h', ts)
    \<and> (\<forall>c v. current_value A h c = Inr v \<longrightarrow>
          current_value A h' c = Inr (run_key (change_key A c) v cs))"
proof -
  have empty: "written h []" by (simp add: written_def)
  obtain final where final: "efold (final_step A) [] ts = Inr final" and w: "written h final"
    and vals: "\<And>c v. current_value A h c = Inr v \<Longrightarrow>
      value_in final (change_key A c) v = run_key (change_key A c) v cs"
    using final_of_plan [OF plan [unfolded plan_state_changes_def] wf empty]
    by (auto simp: value_in_def)
  from write_final [OF w] obtain h'
    where "efold (\<lambda>h entry. apply_final A h (snd entry)) h final = Inr h'"
      and "\<And>c v. current_value A h c = Inr v \<Longrightarrow>
        current_value A h' c = Inr (value_in final (change_key A c) v)"
    by blast
  with final vals plan_validates [OF plan wf] show ?thesis
    by (simp add: commit_state_plan_def apply_state_plan_def)
qed

text \<open>A plan whose first change of some key no longer finds its planned value is refused.\<close>

lemma validate_loop_first:
  assumes "validate_loop A h (ts @ t # us) expected initial = Inr r"
    and "change_from_transition A t = Inr c"
    and "map_of expected (change_key A c) = None"
    and "\<forall>t' \<in> set ts. \<forall>c'. change_from_transition A t' = Inr c' \<longrightarrow> change_key A c' \<noteq> change_key A c"
  shows "current_value A h c = Inr (transition_before A t)"
  using assms
proof (induction ts arbitrary: expected initial)
  case Nil
  then show ?case by (auto simp: ebind_eq_Inr Let_def split: if_splits)
next
  case (Cons t' ts)
  then obtain c' where c': "change_from_transition A t' = Inr c'"
    by (auto simp: ebind_eq_Inr)
  with Cons.prems(1) obtain initial'
    where rest: "validate_loop A h (ts @ t # us)
      (AList.update (change_key A c') (transition_after A t') expected) initial' = Inr r"
    by (auto simp: ebind_eq_Inr Let_def split: if_splits prod.splits)
  show ?case
    by (rule Cons.IH [OF rest Cons.prems(2)]) (use Cons.prems(3,4) c' in auto)
qed

theorem stale_plan_refused:
  assumes plan: "plan_state_changes A h (cs @ c # ds) = Inr ts"
    and wf: "\<forall>c \<in> set (cs @ c # ds). wf c"
    and first: "\<forall>c' \<in> set cs. change_key A c' \<noteq> change_key A c"
    and moved: "current_value A h2 c \<noteq> current_value A h c"
  shows "\<exists>e. commit_state_plan A h2 ts = Inl e"
proof (rule ccontr)
  assume "\<not> ?thesis"
  then obtain r where "validate_loop A h2 ts [] [] = Inr r"
    by (auto simp: commit_state_plan_def validate_state_plan_def ebind_eq_Inl)
      (meson sum.exhaust)
  moreover have all2: "list_all2 (\<lambda>c t. \<exists>b. t = transition A c b (next_value A b c)) (cs @ c # ds) ts"
    using plan wf by (intro plan_transitions) (simp_all add: plan_state_changes_def)
  then obtain us t vs where ts: "ts = us @ t # vs"
    and us: "list_all2 (\<lambda>c t. \<exists>b. t = transition A c b (next_value A b c)) cs us"
    and t: "\<exists>b. t = transition A c b (next_value A b c)"
    by (auto simp: list_all2_append1 list_all2_Cons1)
  moreover have "change_from_transition A t = Inr c" using t wf by (auto simp: reads_back)
  moreover have "\<forall>t' \<in> set us. \<forall>c'. change_from_transition A t' = Inr c'
      \<longrightarrow> change_key A c' \<noteq> change_key A c"
  proof (intro ballI allI impI)
    fix t' c'
    assume "t' \<in> set us" and read: "change_from_transition A t' = Inr c'"
    then obtain c2 b where "c2 \<in> set cs" "t' = transition A c2 b (next_value A b c2)"
      using list_all2_member [OF us] by blast
    then show "change_key A c' \<noteq> change_key A c" using read first wf by (auto simp: reads_back)
  qed
  ultimately have here: "current_value A h2 c = Inr (transition_before A t)"
    and "\<exists>r. validate_loop A h ts [] [] = Inr r
      \<Longrightarrow> current_value A h c = Inr (transition_before A t)"
    using validate_loop_first [of _ us t vs "[]" "[]" _ c] by auto
  moreover have "\<exists>r. validate_loop A h ts [] [] = Inr r"
    using plan_validates [OF plan wf] by (auto simp: validate_state_plan_def ebind_eq_Inr)
  ultimately show False using moved by simp
qed

end

end
