(* ===== verification/Trigger_Batches.thy ===== *)
theory Trigger_Batches imports Prelude
begin

text \<open>
  Pending triggered abilities (\<open>quorune/trigger_batches.py\<close>, with the deep freezing of
  \<open>quorune/replacement/immutable.py\<close>).  An occurrence is a frozen payload with a closed schema;
  a batch holds one group of occurrences per controller, the groups in active-player,
  nonactive-player (APNAP) order.  The operations create a batch, merge later triggers into it,
  begin its placement and place one controller's group at a time.  Array indexes inside error
  labels are left out; every raise is a branch.
\<close>

section \<open>Frozen values\<close>

datatype trigger_error =
    NotCanonicalJson
  | NotMapping string
  | NotNonemptyString string
  | NotNonnegative string
  | NotArray string
  | NotBoolean string
  | NotText string
  | HasDuplicates string
  | UnknownFields string
  | MissingFields string
  | NotTriggered
  | EmptyGroup
  | ControllerMismatch
  | RepeatedItem
  | UnsupportedSchema
  | EmptyOrder
  | EmptyGroups
  | SeveralGroupsPerController
  | ControllerNotInOrder
  | GroupsOutOfOrder
  | InactiveControllers "string list"
  | NoActiveController
  | PlacementNotStarted
  | NotFirstController
  | OrderMismatch

fun freeze_value :: "pyval \<Rightarrow> trigger_error + pyval"
  and freeze_list :: "pyval list \<Rightarrow> trigger_error + pyval list"
  and freeze_items :: "(string \<times> pyval) list \<Rightarrow> trigger_error + (string \<times> pyval) list" where
  "freeze_value (PDict items) =
     ebind (freeze_items items) (\<lambda>frozen. Inr (PDict (sort_key fst frozen)))"
| "freeze_value (PList items) = ebind (freeze_list items) (\<lambda>frozen. Inr (PList frozen))"
| "freeze_value PNone = Inr PNone"
| "freeze_value (PBool b) = Inr (PBool b)"
| "freeze_value (PInt n) = Inr (PInt n)"
| "freeze_value (PFloat m e) = Inr (PFloat m e)"
| "freeze_value (PStr s) = Inr (PStr s)"
| "freeze_value POther = Inl NotCanonicalJson"
| "freeze_list [] = Inr []"
| "freeze_list (v # vs) =
     ebind (freeze_value v) (\<lambda>w. ebind (freeze_list vs) (\<lambda>ws. Inr (w # ws)))"
| "freeze_items [] = Inr []"
| "freeze_items (kv # items) =
     ebind (freeze_value (snd kv)) (\<lambda>w.
     ebind (freeze_items items) (\<lambda>rest. Inr ((fst kv, w) # rest)))"

section \<open>Checked readings of dynamic values\<close>

fun exact_mapping :: "string \<Rightarrow> pyval \<Rightarrow> trigger_error + (string \<times> pyval) list" where
  "exact_mapping field (PDict d) = Inr d"
| "exact_mapping field _ = Inl (NotMapping field)"

definition exact_string :: "string \<Rightarrow> pyval \<Rightarrow> trigger_error + string" where
  "exact_string field v = option_raise (NotNonemptyString field) (nonempty_str v)"

fun exact_integer :: "string \<Rightarrow> pyval \<Rightarrow> trigger_error + int" where
  "exact_integer field (PInt n) = (if n < 0 then Inl (NotNonnegative field) else Inr n)"
| "exact_integer field _ = Inl (NotNonnegative field)"

fun string_tuple :: "string \<Rightarrow> pyval \<Rightarrow> trigger_error + string list" where
  "string_tuple field (PList vs) =
     ebind (emap (exact_string field) vs) (\<lambda>result.
     if distinct result then Inr result else Inl (HasDuplicates field))"
| "string_tuple field _ = Inl (NotArray field)"

section \<open>Occurrences\<close>

record trigger_occurrence =
  payload :: "(string \<times> pyval) list"

definition STACK_ITEM_FIELDS :: "string list" where
  "STACK_ITEM_FIELDS =
     [''stack_id'', ''ref'', ''kind'', ''controller'', ''label'', ''card_object_id'',
      ''source_object_id'', ''semantic_key'', ''targets'', ''modes'', ''x_value'',
      ''chosen_face'', ''notes'', ''default_destination'', ''visibility'', ''context'',
      ''referred_object_ids'']"

definition REQUIRED_STACK_ITEM_FIELDS :: "string list" where
  "REQUIRED_STACK_ITEM_FIELDS = [''stack_id'', ''ref'', ''kind'', ''controller'', ''label'']"

definition optional_string :: "(string \<times> pyval) list \<Rightarrow> string \<Rightarrow> trigger_error + unit" where
  "optional_string d field =
     (case map_of d field of
        None \<Rightarrow> Inr ()
      | Some v \<Rightarrow> if v = PNone then Inr () else ebind (exact_string field v) (\<lambda>_. Inr ()))"

fun string_items :: "string \<Rightarrow> pyval \<Rightarrow> trigger_error + unit" where
  "string_items field (PList vs) = ebind (emap (exact_string field) vs) (\<lambda>_. Inr ())"
| "string_items field _ = Inl (NotArray field)"

fun is_bool :: "pyval \<Rightarrow> bool" where
  "is_bool (PBool b) \<longleftrightarrow> True"
| "is_bool _ \<longleftrightarrow> False"

fun is_text :: "pyval \<Rightarrow> bool" where
  "is_text (PStr s) \<longleftrightarrow> True"
| "is_text _ \<longleftrightarrow> False"

fun kind_is_triggered :: "pyval \<Rightarrow> bool" where
  "kind_is_triggered (PStr s) \<longleftrightarrow> contains ''triggered'' (casefold s)"
| "kind_is_triggered _ \<longleftrightarrow> False"

definition check_context :: "(string \<times> pyval) list \<Rightarrow> trigger_error + unit" where
  "check_context context =
     ebind (emap (optional_string context)
              [''event'', ''source_logical_object_id'', ''source_zone'',
               ''one_or_more_aggregation_id'']) (\<lambda>_.
     ebind (ensure (is_bool (dict_get (PBool False) context ''trigger_target_selection_pending''))
              (NotBoolean ''trigger_target_selection_pending'')) (\<lambda>_.
     ebind (emap (\<lambda>field. exact_mapping field (dict_get (PDict []) context field))
              [''intervening_condition'', ''additional_trigger_source'']) (\<lambda>_. Inr ())))"

definition check_payload :: "(string \<times> pyval) list \<Rightarrow> trigger_error + unit" where
  "check_payload data =
     ebind (ensure (list_all (\<lambda>(k, _). k \<in> set STACK_ITEM_FIELDS) data)
              (UnknownFields ''trigger_item'')) (\<lambda>_.
     ebind (ensure (list_all (\<lambda>k. map_of data k \<noteq> None) REQUIRED_STACK_ITEM_FIELDS)
              (MissingFields ''trigger_item'')) (\<lambda>_.
     ebind (emap (\<lambda>k. exact_string k (dict_get PNone data k)) REQUIRED_STACK_ITEM_FIELDS) (\<lambda>_.
     ebind (ensure (kind_is_triggered (dict_get PNone data ''kind'')) NotTriggered) (\<lambda>_.
     ebind (emap (optional_string data)
              [''card_object_id'', ''source_object_id'', ''semantic_key'', ''chosen_face'',
               ''default_destination'']) (\<lambda>_.
     ebind (ensure (is_text (dict_get (PStr []) data ''notes'')) (NotText ''notes'')) (\<lambda>_.
     ebind (let x = dict_get PNone data ''x_value'' in
            if x = PNone then Inr 0 else exact_integer ''x_value'' x) (\<lambda>_.
     ebind (emap (\<lambda>k. string_items k (dict_get (PList []) data k)) [''targets'', ''modes'']) (\<lambda>_.
     ebind (emap (\<lambda>k. string_tuple k (dict_get (PList []) data k))
              [''visibility'', ''referred_object_ids'']) (\<lambda>_.
     ebind (exact_mapping ''context'' (dict_get (PDict []) data ''context'')) check_context)))))))))"

definition occurrence_init :: "(string \<times> pyval) list \<Rightarrow> trigger_error + trigger_occurrence" where
  "occurrence_init values =
     ebind (freeze_value (PDict values)) (\<lambda>frozen.
     ebind (exact_mapping ''trigger_item'' frozen) (\<lambda>data.
     ebind (check_payload data) (\<lambda>_. Inr \<lparr>payload = data\<rparr>)))"

definition occurrence_from_dict :: "pyval \<Rightarrow> trigger_error + trigger_occurrence" where
  "occurrence_from_dict data = ebind (exact_mapping ''trigger_item'' data) occurrence_init"

definition occurrence_to_dict :: "trigger_occurrence \<Rightarrow> pyval" where
  "occurrence_to_dict item = PDict (payload item)"

fun str_of :: "pyval \<Rightarrow> string" where
  "str_of (PStr s) = s"
| "str_of _ = []"

definition item_ref :: "trigger_occurrence \<Rightarrow> string" where
  "item_ref item = str_of (dict_get PNone (payload item) ''ref'')"

definition item_controller :: "trigger_occurrence \<Rightarrow> string" where
  "item_controller item = str_of (dict_get PNone (payload item) ''controller'')"

definition item_label :: "trigger_occurrence \<Rightarrow> string" where
  "item_label item = str_of (dict_get PNone (payload item) ''label'')"

definition occurrence_id :: "trigger_occurrence \<Rightarrow> string" where
  "occurrence_id item = str_of (dict_get PNone (payload item) ''stack_id'')"

fun array_items :: "string \<Rightarrow> pyval \<Rightarrow> trigger_error + pyval list" where
  "array_items field (PList vs) = Inr vs"
| "array_items field _ = Inl (NotArray field)"

text \<open>The typed properties of an occurrence and the closed view used for audit fingerprints.\<close>

fun text_or_none :: "pyval \<Rightarrow> pyval" where
  "text_or_none (PStr s) = PStr s"
| "text_or_none _ = PNone"

definition event_facts :: "trigger_occurrence \<Rightarrow> trigger_error + (string \<times> pyval) list" where
  "event_facts item = exact_mapping ''trigger_item.context'' (dict_get (PDict []) (payload item) ''context'')"

definition fact_mapping :: "trigger_occurrence \<Rightarrow> string \<Rightarrow> trigger_error + pyval" where
  "fact_mapping item field =
     ebind (event_facts item) (\<lambda>facts.
     ebind (exact_mapping field (dict_get (PDict []) facts field)) (\<lambda>d. Inr (PDict d)))"

definition fact_string :: "trigger_occurrence \<Rightarrow> string \<Rightarrow> trigger_error + pyval" where
  "fact_string item field =
     ebind (event_facts item) (\<lambda>facts. Inr (text_or_none (dict_get PNone facts field)))"

definition target_selection_required :: "trigger_occurrence \<Rightarrow> trigger_error + pyval" where
  "target_selection_required item =
     ebind (event_facts item) (\<lambda>facts.
     let value = dict_get (PBool False) facts ''trigger_target_selection_pending'' in
     ebind (ensure (is_bool value) (NotBoolean ''trigger_target_selection_pending'')) (\<lambda>_. Inr value))"

definition visibility_of :: "trigger_occurrence \<Rightarrow> trigger_error + pyval" where
  "visibility_of item =
     ebind (array_items ''trigger_item.visibility'' (dict_get (PList []) (payload item) ''visibility''))
       (\<lambda>vs. Inr (PList vs))"

definition typed_dict :: "trigger_occurrence \<Rightarrow> trigger_error + (string \<times> pyval) list" where
  "typed_dict item =
     ebind (fact_string item ''event'') (\<lambda>event.
     ebind (fact_string item ''source_logical_object_id'') (\<lambda>logical_id.
     ebind (fact_string item ''source_zone'') (\<lambda>zone.
     ebind (event_facts item) (\<lambda>facts.
     ebind (fact_mapping item ''intervening_condition'') (\<lambda>condition.
     ebind (target_selection_required item) (\<lambda>target_required.
     ebind (fact_mapping item ''additional_trigger_source'') (\<lambda>provenance.
     ebind (fact_string item ''one_or_more_aggregation_id'') (\<lambda>aggregation.
     ebind (visibility_of item) (\<lambda>visibility. Inr
       [(''schema_version'', PInt 1),
        (''occurrence_id'', PStr (occurrence_id item)),
        (''ref'', PStr (item_ref item)),
        (''controller'', PStr (item_controller item)),
        (''label'', PStr (item_label item)),
        (''normalized_event_id'', event),
        (''source_object_id'', text_or_none (dict_get PNone (payload item) ''source_object_id'')),
        (''source_logical_object_id'', logical_id),
        (''source_ability_id'', text_or_none (dict_get PNone (payload item) ''semantic_key'')),
        (''source_zone'', zone),
        (''event_facts'', PDict facts),
        (''intervening_condition'', condition),
        (''target_selection_required'', target_required),
        (''mode_requirements'', dict_get (PList []) (payload item) ''modes''),
        (''copy_provenance'', provenance),
        (''aggregation_id'', aggregation),
        (''visibility'', visibility)])))))))))"

section \<open>Controller groups and batches\<close>

record trigger_group =
  group_controller :: string
  group_items :: "trigger_occurrence list"

definition group_init ::
  "string \<Rightarrow> trigger_occurrence list \<Rightarrow> trigger_error + trigger_group" where
  "group_init controller items =
     ebind (ensure (controller \<noteq> []) (NotNonemptyString ''trigger_group.controller'')) (\<lambda>_.
     ebind (ensure (items \<noteq> []) EmptyGroup) (\<lambda>_.
     ebind (ensure (list_all (\<lambda>i. item_controller i = controller) items) ControllerMismatch) (\<lambda>_.
     ebind (ensure (distinct (map item_ref items)) RepeatedItem) (\<lambda>_.
     Inr \<lparr>group_controller = controller, group_items = items\<rparr>))))"

definition group_from_dict :: "pyval \<Rightarrow> trigger_error + trigger_group" where
  "group_from_dict data =
     ebind (exact_mapping ''trigger_group'' data) (\<lambda>value.
     ebind (ensure (set (map fst value) = {''controller'', ''items''})
              (UnknownFields ''trigger_group'')) (\<lambda>_.
     ebind (array_items ''trigger_group.items'' (dict_get PNone value ''items'')) (\<lambda>raw_items.
     ebind (exact_string ''trigger_group.controller'' (dict_get PNone value ''controller''))
       (\<lambda>controller.
     ebind (emap occurrence_from_dict raw_items) (\<lambda>items.
     group_init controller items)))))"

definition group_to_dict :: "trigger_group \<Rightarrow> pyval" where
  "group_to_dict g =
     PDict [(''controller'', PStr (group_controller g)),
            (''items'', PList (map occurrence_to_dict (group_items g)))]"

record trigger_batch =
  batch_id :: string
  batch_ref :: string
  apnap_order :: "string list"
  groups :: "trigger_group list"
  batch_turn_sequence :: int
  batch_priority_epoch :: int
  placement_started :: bool
  schema_version :: int

definition batch_items :: "trigger_batch \<Rightarrow> trigger_occurrence list" where
  "batch_items batch = concat (map group_items (groups batch))"

definition batch_init :: "trigger_batch \<Rightarrow> trigger_error + trigger_batch" where
  "batch_init b =
     ebind (ensure (batch_id b \<noteq> []) (NotNonemptyString ''trigger_batch.batch_id'')) (\<lambda>_.
     ebind (ensure (batch_ref b \<noteq> []) (NotNonemptyString ''trigger_batch.ref'')) (\<lambda>_.
     ebind (ensure (schema_version b = 1) UnsupportedSchema) (\<lambda>_.
     ebind (ensure (0 \<le> batch_turn_sequence b) (NotNonnegative ''trigger_batch.turn_sequence'')) (\<lambda>_.
     ebind (ensure (0 \<le> batch_priority_epoch b) (NotNonnegative ''trigger_batch.priority_epoch'')) (\<lambda>_.
     ebind (ensure (apnap_order b \<noteq> []) EmptyOrder) (\<lambda>_.
     ebind (ensure (list_all (\<lambda>s. s \<noteq> []) (apnap_order b))
              (NotNonemptyString ''trigger_batch.apnap_order'')) (\<lambda>_.
     ebind (ensure (distinct (apnap_order b)) (HasDuplicates ''trigger_batch.apnap_order'')) (\<lambda>_.
     ebind (ensure (groups b \<noteq> []) EmptyGroups) (\<lambda>_.
     let group_controllers = map group_controller (groups b) in
     ebind (ensure (distinct group_controllers) SeveralGroupsPerController) (\<lambda>_.
     ebind (ensure (list_all (\<lambda>c. c \<in> set (apnap_order b)) group_controllers) ControllerNotInOrder) (\<lambda>_.
     ebind (ensure (group_controllers = filter (\<lambda>s. s \<in> set group_controllers) (apnap_order b))
              GroupsOutOfOrder) (\<lambda>_.
     ebind (ensure (distinct (map item_ref (batch_items b))) RepeatedItem) (\<lambda>_.
     Inr b)))))))))))))"

definition BATCH_FIELDS :: "string list" where
  "BATCH_FIELDS =
     [''batch_id'', ''ref'', ''apnap_order'', ''groups'', ''turn_sequence'', ''priority_epoch'',
      ''placement_started'']"

definition exact_bool :: "string \<Rightarrow> pyval \<Rightarrow> trigger_error + bool" where
  "exact_bool field v = (case v of PBool b \<Rightarrow> Inr b | _ \<Rightarrow> Inl (NotBoolean field))"

definition batch_from_dict :: "pyval \<Rightarrow> trigger_error + trigger_batch" where
  "batch_from_dict data =
     ebind (exact_mapping ''trigger_batch'' data) (\<lambda>value.
     ebind (ensure (list_all (\<lambda>(k, _). k \<in> set (''schema_version'' # BATCH_FIELDS)) value)
              (UnknownFields ''trigger_batch'')) (\<lambda>_.
     ebind (ensure (list_all (\<lambda>k. map_of value k \<noteq> None) BATCH_FIELDS)
              (MissingFields ''trigger_batch'')) (\<lambda>_.
     ebind (array_items ''trigger_batch.groups'' (dict_get PNone value ''groups'')) (\<lambda>raw_groups.
     ebind (exact_string ''trigger_batch.batch_id'' (dict_get PNone value ''batch_id'')) (\<lambda>bid.
     ebind (exact_string ''trigger_batch.ref'' (dict_get PNone value ''ref'')) (\<lambda>ref.
     ebind (string_tuple ''trigger_batch.apnap_order'' (dict_get PNone value ''apnap_order'')) (\<lambda>order.
     ebind (emap group_from_dict raw_groups) (\<lambda>gs.
     ebind (exact_integer ''trigger_batch.turn_sequence'' (dict_get PNone value ''turn_sequence'')) (\<lambda>turn.
     ebind (exact_integer ''trigger_batch.priority_epoch'' (dict_get PNone value ''priority_epoch'')) (\<lambda>epoch.
     ebind (ensure (dict_get (PInt 1) value ''schema_version'' = PInt 1) UnsupportedSchema) (\<lambda>_.
     ebind (exact_bool ''trigger_batch.placement_started'' (dict_get PNone value ''placement_started'')) (\<lambda>started.
     batch_init
       \<lparr>batch_id = bid, batch_ref = ref, apnap_order = order, groups = gs,
        batch_turn_sequence = turn, batch_priority_epoch = epoch, placement_started = started,
        schema_version = 1\<rparr>))))))))))))"

definition batch_to_dict :: "trigger_batch \<Rightarrow> pyval" where
  "batch_to_dict b =
     PDict
       [(''schema_version'', PInt (schema_version b)),
        (''batch_id'', PStr (batch_id b)),
        (''ref'', PStr (batch_ref b)),
        (''apnap_order'', PList (map PStr (apnap_order b))),
        (''groups'', PList (map group_to_dict (groups b))),
        (''turn_sequence'', PInt (batch_turn_sequence b)),
        (''priority_epoch'', PInt (batch_priority_epoch b)),
        (''placement_started'', PBool (placement_started b))]"

section \<open>Operations\<close>

text \<open>The callers pass canonical occurrences or mappings that still have to be read.\<close>

datatype pending_item = Occurrence trigger_occurrence | RawItem pyval

fun normalize_item :: "pending_item \<Rightarrow> trigger_error + trigger_occurrence" where
  "normalize_item (Occurrence item) = Inr item"
| "normalize_item (RawItem data) = occurrence_from_dict data"

definition group_pending_trigger_items ::
  "pending_item list \<Rightarrow> string list \<Rightarrow> bool \<Rightarrow> trigger_error + trigger_group list" where
  "group_pending_trigger_items items apnap drop_inactive =
     ebind (string_tuple ''apnap_order'' (PList (map PStr apnap))) (\<lambda>order.
     ebind (emap normalize_item items) (\<lambda>normalized.
     ebind (ensure (distinct (map item_ref normalized)) RepeatedItem) (\<lambda>_.
     let inactive = filter (\<lambda>c. c \<notin> set order) (map item_controller normalized) in
     ebind (ensure (inactive = [] \<or> drop_inactive) (InactiveControllers (sorted_unique inactive))) (\<lambda>_.
     emap (\<lambda>c. group_init c (filter (\<lambda>i. item_controller i = c) normalized))
       (filter (\<lambda>c. list_ex (\<lambda>i. item_controller i = c) normalized) order)))))"

definition create_pending_trigger_batch ::
  "string \<Rightarrow> string \<Rightarrow> pending_item list \<Rightarrow> string list \<Rightarrow> int \<Rightarrow> int \<Rightarrow> trigger_error + trigger_batch" where
  "create_pending_trigger_batch bid ref items apnap turn epoch =
     ebind (group_pending_trigger_items items apnap False) (\<lambda>gs.
     ebind (ensure (gs \<noteq> []) NoActiveController) (\<lambda>_.
     batch_init
       \<lparr>batch_id = bid, batch_ref = ref, apnap_order = apnap, groups = gs,
        batch_turn_sequence = turn, batch_priority_epoch = epoch, placement_started = False,
        schema_version = 1\<rparr>))"

definition merge_pending_trigger_batch ::
  "trigger_batch \<Rightarrow> pending_item list \<Rightarrow> string list \<Rightarrow> int \<Rightarrow> trigger_error + trigger_batch option" where
  "merge_pending_trigger_batch batch items apnap epoch =
     (if placement_started batch \<or> batch_priority_epoch batch \<noteq> epoch then Inr None
      else
        ebind (group_pending_trigger_items (map Occurrence (batch_items batch) @ items) apnap True)
          (\<lambda>gs.
        if gs = [] then Inr None
        else ebind (batch_init (batch\<lparr>apnap_order := apnap, groups := gs\<rparr>)) (\<lambda>b. Inr (Some b))))"

definition begin_pending_trigger_placement ::
  "trigger_batch \<Rightarrow> string list \<Rightarrow> trigger_error + trigger_batch option" where
  "begin_pending_trigger_placement batch apnap =
     (if placement_started batch then Inr (Some batch)
      else
        ebind (group_pending_trigger_items (map Occurrence (batch_items batch)) apnap True) (\<lambda>gs.
        if gs = [] then Inr None
        else ebind (batch_init (batch\<lparr>apnap_order := apnap, groups := gs, placement_started := True\<rparr>))
               (\<lambda>b. Inr (Some b))))"

definition complete_pending_trigger_group ::
  "trigger_batch \<Rightarrow> string \<Rightarrow> string list
     \<Rightarrow> trigger_error + (trigger_occurrence list \<times> trigger_batch option)" where
  "complete_pending_trigger_group batch controller refs =
     (case groups batch of
        [] \<Rightarrow> Inl PlacementNotStarted
      | g # remaining \<Rightarrow>
          ebind (ensure (placement_started batch) PlacementNotStarted) (\<lambda>_.
          ebind (ensure (group_controller g = controller) NotFirstController) (\<lambda>_.
          ebind (string_tuple ''trigger_order'' (PList (map PStr refs))) (\<lambda>ordered_refs.
          let by_ref = dict_by item_ref (group_items g) in
          ebind (ensure (sort ordered_refs = sort (map fst by_ref)) OrderMismatch) (\<lambda>_.
          let ordered = map (\<lambda>ref. the (map_of by_ref ref)) ordered_refs in
          if remaining = [] then Inr (ordered, None)
          else ebind (batch_init (batch\<lparr>groups := remaining\<rparr>)) (\<lambda>b. Inr (ordered, Some b)))))))"

text \<open>
  The placement loop of the engine: while the batch is not empty the first controller answers with
  an order of its triggers.
\<close>

fun place_groups ::
  "trigger_batch \<Rightarrow> (string \<times> string list) list \<Rightarrow> trigger_error + (trigger_occurrence list \<times> trigger_batch option)" where
  "place_groups batch [] = Inr ([], Some batch)"
| "place_groups batch ((controller, refs) # answers) =
     ebind (complete_pending_trigger_group batch controller refs) (\<lambda>(ordered, rest).
     case rest of
       None \<Rightarrow> Inr (ordered, None)
     | Some batch' \<Rightarrow> ebind (place_groups batch' answers) (\<lambda>(more, final). Inr (ordered @ more, final)))"

section \<open>What the checks establish\<close>

definition group_valid :: "trigger_group \<Rightarrow> bool" where
  "group_valid g \<longleftrightarrow> group_init (group_controller g) (group_items g) = Inr g"

definition batch_valid :: "trigger_batch \<Rightarrow> bool" where
  "batch_valid b \<longleftrightarrow> batch_init b = Inr b \<and> (\<forall>g \<in> set (groups b). group_valid g)"

lemma group_init_eq:
  "group_init c items = Inr g \<longleftrightarrow>
     c \<noteq> [] \<and> items \<noteq> [] \<and> (\<forall>i \<in> set items. item_controller i = c)
     \<and> distinct (map item_ref items) \<and> g = \<lparr>group_controller = c, group_items = items\<rparr>"
  by (auto simp: group_init_def ebind_ensure_Inr list_all_iff)

lemma batch_init_eq:
  "batch_init b = Inr b' \<longleftrightarrow>
     b' = b \<and> batch_id b \<noteq> [] \<and> batch_ref b \<noteq> [] \<and> schema_version b = 1
     \<and> 0 \<le> batch_turn_sequence b \<and> 0 \<le> batch_priority_epoch b
     \<and> apnap_order b \<noteq> [] \<and> (\<forall>s \<in> set (apnap_order b). s \<noteq> []) \<and> distinct (apnap_order b)
     \<and> groups b \<noteq> [] \<and> distinct (map group_controller (groups b))
     \<and> (\<forall>c \<in> set (map group_controller (groups b)). c \<in> set (apnap_order b))
     \<and> map group_controller (groups b)
         = filter (\<lambda>s. s \<in> set (map group_controller (groups b))) (apnap_order b)
     \<and> distinct (map item_ref (batch_items b))"
  unfolding batch_init_def Let_def ebind_ensure_Inr list_all_iff by blast

lemma emap_exact_strings:
  "emap (exact_string f) (map PStr xs) = Inr ys \<longleftrightarrow> (\<forall>x \<in> set xs. x \<noteq> []) \<and> ys = xs"
  by (induction xs arbitrary: ys) (auto simp: ebind_eq_Inr exact_string_def)

lemma string_tuple_strings:
  "string_tuple f (PList (map PStr xs)) = Inr ys \<longleftrightarrow>
     (\<forall>x \<in> set xs. x \<noteq> []) \<and> distinct xs \<and> ys = xs"
  by (auto simp: ebind_eq_Inr emap_exact_strings split: if_splits)

definition group_of :: "trigger_occurrence list \<Rightarrow> string \<Rightarrow> trigger_group" where
  "group_of items c = \<lparr>group_controller = c, group_items = filter (\<lambda>i. item_controller i = c) items\<rparr>"

lemma group_of_simps [simp]:
  "group_controller (group_of items c) = c"
  "group_items (group_of items c) = filter (\<lambda>i. item_controller i = c) items"
  by (simp_all add: group_of_def)

lemma emap_groups:
  assumes "distinct (map item_ref items)"
    and "\<forall>c \<in> set cs. c \<noteq> [] \<and> (\<exists>i \<in> set items. item_controller i = c)"
  shows "emap (\<lambda>c. group_init c (filter (\<lambda>i. item_controller i = c) items)) cs
    = Inr (map (group_of items) cs)"
  using assms(2)
proof (induction cs)
  case (Cons c cs)
  have "group_init c (filter (\<lambda>i. item_controller i = c) items) = Inr (group_of items c)"
    using Cons.prems assms(1)
    by (auto simp: group_init_eq group_of_def filter_empty_conv distinct_map
        intro: inj_on_subset)
  with Cons show ?case by simp
qed simp

lemma group_items_eq:
  "group_pending_trigger_items items apnap drop_inactive = Inr gs \<longleftrightarrow>
     (\<exists>ns. emap normalize_item items = Inr ns
       \<and> (\<forall>s \<in> set apnap. s \<noteq> []) \<and> distinct apnap \<and> distinct (map item_ref ns)
       \<and> (drop_inactive \<or> (\<forall>i \<in> set ns. item_controller i \<in> set apnap))
       \<and> gs = map (group_of ns) (filter (\<lambda>c. \<exists>i \<in> set ns. item_controller i = c) apnap))"
proof -
  have groups: "emap (\<lambda>c. group_init c (filter (\<lambda>i. item_controller i = c) ns))
      (filter (\<lambda>c. list_ex (\<lambda>i. item_controller i = c) ns) apnap)
      = Inr (map (group_of ns) (filter (\<lambda>c. \<exists>i \<in> set ns. item_controller i = c) apnap))"
    if "distinct (map item_ref ns)" "\<forall>s \<in> set apnap. s \<noteq> []" for ns
    using that emap_groups [of ns "filter (\<lambda>c. \<exists>i \<in> set ns. item_controller i = c) apnap"]
    by (auto simp: list_ex_iff)
  show ?thesis
    unfolding group_pending_trigger_items_def Let_def ebind_eq_Inr string_tuple_strings
      ensure_eq_Inr
    using groups by (auto simp: list_ex_iff filter_empty_conv)
qed

lemma normalize_occurrences: "emap normalize_item (map Occurrence is) = Inr is"
  by (induction "is") simp_all

lemma group_of_valid:
  assumes "distinct (map item_ref items)" and "c \<noteq> []" and "\<exists>i \<in> set items. item_controller i = c"
  shows "group_valid (group_of items c)"
  using assms emap_groups [of items "[c]"] by (simp add: group_valid_def ebind_eq_Inr)

lemma sum_groups:
  assumes "distinct cs"
  shows "mset (concat (map (\<lambda>c. filter (\<lambda>i. f i = c) xs) cs)) = mset (filter (\<lambda>i. f i \<in> set cs) xs)"
  using assms
proof (induction cs)
  case (Cons c cs)
  have "mset (filter (\<lambda>i. f i = c \<or> f i \<in> set cs) xs)
      = mset (filter (\<lambda>i. f i = c) xs) + mset (filter (\<lambda>i. f i \<in> set cs) xs)"
    using Cons.prems by (induction xs) auto
  with Cons show ?case by simp
qed simp

lemma items_of_groups:
  assumes "distinct apnap"
  shows "mset (concat (map group_items (map (group_of ns)
            (filter (\<lambda>c. \<exists>i \<in> set ns. item_controller i = c) apnap))))
    = mset (filter (\<lambda>i. item_controller i \<in> set apnap) ns)"
proof -
  let ?cs = "filter (\<lambda>c. \<exists>i \<in> set ns. item_controller i = c) apnap"
  have "mset (concat (map (\<lambda>c. filter (\<lambda>i. item_controller i = c) ns) ?cs))
      = mset (filter (\<lambda>i. item_controller i \<in> set ?cs) ns)"
    by (rule sum_groups) (simp add: assms)
  moreover have "filter (\<lambda>i. item_controller i \<in> set ?cs) ns
      = filter (\<lambda>i. item_controller i \<in> set apnap) ns"
    by (rule filter_cong) auto
  moreover have "map group_items (map (group_of ns) ?cs)
      = map (\<lambda>c. filter (\<lambda>i. item_controller i = c) ns) ?cs"
    by simp
  ultimately show ?thesis by metis
qed

section \<open>Creating, merging and placing\<close>

lemma batch_of_groups_valid:
  assumes "group_pending_trigger_items items apnap d = Inr gs"
    and "batch_init b = Inr b'" and "groups b = gs"
  shows "batch_valid b'"
proof -
  obtain ns where "\<forall>s \<in> set apnap. s \<noteq> []" "distinct (map item_ref ns)"
    and gs: "gs = map (group_of ns) (filter (\<lambda>c. \<exists>i \<in> set ns. item_controller i = c) apnap)"
    using assms(1) by (auto simp: group_items_eq)
  then have "\<forall>g \<in> set gs. group_valid g" by (auto intro!: group_of_valid)
  moreover have "b' = b" using assms(2) by (simp add: batch_init_eq)
  ultimately show ?thesis using assms by (simp add: batch_valid_def)
qed

text \<open>
  A batch that is created holds exactly the given triggers: one group per controller that has
  triggers, the groups in APNAP order, each group's triggers in the order in which they were given.
  The batch passes all of its construction checks.
\<close>

theorem created_batch_groups:
  assumes "create_pending_trigger_batch bid ref items apnap turn epoch = Inr b"
  shows "batch_valid b \<and> (\<exists>ns. emap normalize_item items = Inr ns
    \<and> mset (batch_items b) = mset ns
    \<and> map group_controller (groups b) = filter (\<lambda>c. \<exists>i \<in> set ns. item_controller i = c) apnap
    \<and> (\<forall>g \<in> set (groups b).
         group_items g = filter (\<lambda>i. item_controller i = group_controller g) ns))"
proof -
  obtain gs where gs: "group_pending_trigger_items items apnap False = Inr gs"
    and init: "batch_init \<lparr>batch_id = bid, batch_ref = ref, apnap_order = apnap, groups = gs,
        batch_turn_sequence = turn, batch_priority_epoch = epoch, placement_started = False,
        schema_version = 1\<rparr> = Inr b"
    using assms by (auto simp: create_pending_trigger_batch_def ebind_eq_Inr)
  from gs obtain ns where ns: "emap normalize_item items = Inr ns" "distinct apnap"
    and active: "\<forall>i \<in> set ns. item_controller i \<in> set apnap"
    and eq: "gs = map (group_of ns) (filter (\<lambda>c. \<exists>i \<in> set ns. item_controller i = c) apnap)"
    by (auto simp: group_items_eq)
  have b: "groups b = gs" using init by (auto simp: batch_init_eq)
  have "batch_valid b" by (rule batch_of_groups_valid [OF gs init]) simp
  moreover have "mset (batch_items b) = mset ns"
    using items_of_groups [OF ns(2), of ns] active
    by (simp add: batch_items_def b eq filter_id_conv)
  ultimately show ?thesis using ns by (auto simp: b eq comp_def)
qed

text \<open>
  Later triggers merge only into a batch whose placement has not begun and whose priority
  epoch is the same. The merged batch holds exactly the old and the new triggers whose controllers
  are still in the APNAP order, the old ones of a controller before the new ones, and is valid.
\<close>

theorem merged_batch_groups:
  assumes "merge_pending_trigger_batch batch items apnap epoch = Inr r"
  shows "case r of
      None \<Rightarrow> placement_started batch \<or> batch_priority_epoch batch \<noteq> epoch
        \<or> (\<exists>ns. emap normalize_item items = Inr ns
             \<and> (\<forall>i \<in> set (batch_items batch @ ns). item_controller i \<notin> set apnap))
    | Some b \<Rightarrow> \<not> placement_started b \<and> batch_priority_epoch b = epoch \<and> batch_valid b
        \<and> (\<exists>ns. emap normalize_item items = Inr ns
             \<and> mset (batch_items b)
                 = mset (filter (\<lambda>i. item_controller i \<in> set apnap) (batch_items batch @ ns))
             \<and> (\<forall>g \<in> set (groups b). group_items g
                  = filter (\<lambda>i. item_controller i = group_controller g) (batch_items batch @ ns)))"
proof (cases "placement_started batch \<or> batch_priority_epoch batch \<noteq> epoch")
  case True
  with assms show ?thesis by (auto simp: merge_pending_trigger_batch_def)
next
  case False
  then obtain gs where gs: "group_pending_trigger_items
      (map Occurrence (batch_items batch) @ items) apnap True = Inr gs"
    and r: "(if gs = [] then Inr None
        else ebind (batch_init (batch\<lparr>apnap_order := apnap, groups := gs\<rparr>)) (\<lambda>b. Inr (Some b))) = Inr r"
    using assms by (auto simp: merge_pending_trigger_batch_def ebind_eq_Inr)
  from gs obtain ms where ms: "emap normalize_item (map Occurrence (batch_items batch) @ items) = Inr ms"
    and "distinct apnap"
    and eq: "gs = map (group_of ms) (filter (\<lambda>c. \<exists>i \<in> set ms. item_controller i = c) apnap)"
    by (auto simp: group_items_eq)
  from ms obtain ns where ns: "emap normalize_item items = Inr ns" "ms = batch_items batch @ ns"
    using emap_append [of normalize_item "map Occurrence (batch_items batch)" items]
    by (auto simp: normalize_occurrences ebind_eq_Inr)
  show ?thesis
  proof (cases "gs = []")
    case True
    then have "\<forall>i \<in> set ms. item_controller i \<notin> set apnap" by (auto simp: eq filter_empty_conv)
    with True r ns False show ?thesis by auto
  next
    case nonempty: False
    with r obtain b where b: "batch_init (batch\<lparr>apnap_order := apnap, groups := gs\<rparr>) = Inr b"
      and r: "r = Some b"
      by (auto simp: ebind_eq_Inr)
    have "batch_valid b" by (rule batch_of_groups_valid [OF gs b]) simp
    moreover have "b = batch\<lparr>apnap_order := apnap, groups := gs\<rparr>"
      using b unfolding batch_init_eq by simp
    moreover have "mset (concat (map group_items gs))
        = mset (filter (\<lambda>i. item_controller i \<in> set apnap) ms)"
      unfolding eq by (rule items_of_groups) fact
    ultimately show ?thesis using False ns r by (auto simp: batch_items_def eq)
  qed
qed

lemma by_ref_reorder:
  assumes "distinct (map item_ref is)" and "mset refs = mset (map item_ref is)"
  defines "f \<equiv> \<lambda>r. the (map_of (map (\<lambda>i. (item_ref i, i)) is) r)"
  shows "mset (map f refs) = mset is" and "map item_ref (map f refs) = refs"
proof -
  have f: "f (item_ref i) = i" if "i \<in> set is" for i
    using that assms(1) by (auto simp: f_def map_of_eq_Some_iff comp_def intro: the_equality
        intro!: arg_cong [of _ "Some i" the, simplified])
  have "mset (map f refs) = image_mset f (mset (map item_ref is))"
    using assms(2) by (metis mset_map)
  also have "\<dots> = mset (map (\<lambda>i. f (item_ref i)) is)" by (simp add: image_mset.compositionality comp_def)
  also have "map (\<lambda>i. f (item_ref i)) is = is" by (simp add: map_idI f)
  finally show "mset (map f refs) = mset is" .
  have "set refs = item_ref ` set is" using assms(2) by (metis set_map set_mset_mset)
  then show "map item_ref (map f refs) = refs" by (auto simp: f intro!: map_idI)
qed

lemma filter_tail:
  assumes "distinct order" and "c # cs = filter (\<lambda>s. s \<in> set (c # cs)) order"
  shows "cs = filter (\<lambda>s. s \<in> set cs) order"
proof -
  have "distinct (c # cs)" using assms distinct_filter by metis
  have "filter (\<lambda>s. s \<in> set cs) order = filter (\<lambda>s. s \<in> set cs) (filter (\<lambda>s. s \<in> set (c # cs)) order)"
    unfolding filter_filter by (rule filter_cong) auto
  also have "\<dots> = filter (\<lambda>s. s \<in> set cs) (c # cs)" by (simp only: assms(2) [symmetric])
  also have "\<dots> = cs" using \<open>distinct (c # cs)\<close> by (simp add: filter_id_conv)
  finally show ?thesis by simp
qed

lemma batch_tail_init:
  assumes "batch_valid b" and "groups b = g # gs" and "gs \<noteq> []"
  shows "batch_init (b\<lparr>groups := gs\<rparr>) = Inr (b\<lparr>groups := gs\<rparr>)"
    and "batch_valid (b\<lparr>groups := gs\<rparr>)"
proof -
  have init: "batch_init b = Inr b" using assms(1) by (simp add: batch_valid_def)
  then have order: "distinct (apnap_order b)"
    and "group_controller g # map group_controller gs
      = filter (\<lambda>s. s \<in> set (group_controller g # map group_controller gs)) (apnap_order b)"
    unfolding batch_init_eq assms(2) list.map by blast+
  then have tail: "map group_controller gs
      = filter (\<lambda>s. s \<in> set (map group_controller gs)) (apnap_order b)"
    by (rule filter_tail)
  have refs: "distinct (map item_ref (batch_items (b\<lparr>groups := gs\<rparr>)))"
    using init assms(2) by (simp add: batch_init_eq batch_items_def)
  have selected: "groups (b\<lparr>groups := gs\<rparr>) = gs"
    "apnap_order (b\<lparr>groups := gs\<rparr>) = apnap_order b"
    by simp_all
  show init': "batch_init (b\<lparr>groups := gs\<rparr>) = Inr (b\<lparr>groups := gs\<rparr>)"
    unfolding batch_init_eq
  proof (intro conjI)
    show "map group_controller (groups (b\<lparr>groups := gs\<rparr>)) = filter
        (\<lambda>s. s \<in> set (map group_controller (groups (b\<lparr>groups := gs\<rparr>))))
        (apnap_order (b\<lparr>groups := gs\<rparr>))"
      unfolding selected by (rule tail)
  qed (use init assms refs in \<open>simp_all add: batch_init_eq\<close>)
  show "batch_valid (b\<lparr>groups := gs\<rparr>)"
    using init' assms by (simp add: batch_valid_def)
qed

lemma complete_group:
  assumes "batch_valid b"
  shows "complete_pending_trigger_group b c refs = Inr (ordered, rest) \<longleftrightarrow>
    placement_started b \<and> (\<exists>g gs. groups b = g # gs \<and> group_controller g = c
      \<and> (\<forall>r \<in> set refs. r \<noteq> []) \<and> mset refs = mset (map item_ref (group_items g))
      \<and> ordered = map (\<lambda>r. the (map_of (map (\<lambda>i. (item_ref i, i)) (group_items g)) r)) refs
      \<and> rest = (if gs = [] then None else Some (b\<lparr>groups := gs\<rparr>)))"
proof (cases "groups b")
  case Nil
  then show ?thesis by (simp add: complete_pending_trigger_group_def)
next
  case (Cons g gs)
  have distinct: "distinct (map item_ref (group_items g))"
    using assms Cons by (auto simp: batch_valid_def group_valid_def group_init_eq)
  note by_ref = dict_by_distinct [OF distinct]
  have sort: "sort refs = sort (map item_ref (group_items g))
      \<longleftrightarrow> mset refs = mset (map item_ref (group_items g))" for refs
    by (metis mset_sort properties_for_sort sorted_sort)
  have tail: "(if gs = [] then Inr (ordered', None)
      else ebind (batch_init (b\<lparr>groups := gs\<rparr>)) (\<lambda>b. Inr (ordered', Some b)))
      = Inr (ordered', if gs = [] then None else Some (b\<lparr>groups := gs\<rparr>))" for ordered'
    using batch_tail_init [OF assms Cons] by simp
  have unique: "mset refs = mset (map item_ref (group_items g)) \<Longrightarrow> distinct refs"
    using distinct by (metis mset_eq_imp_distinct_iff)
  show ?thesis
    unfolding complete_pending_trigger_group_def Cons list.case by_ref Let_def
    using unique tail
    by (auto simp: ebind_eq_Inr string_tuple_strings sort comp_def simp del: string_tuple.simps)
qed

lemma place_groups_Cons:
  assumes "batch_valid b" and "place_groups b ((c, refs) # answers) = Inr (placed, rest)"
  obtains g gs first more where "placement_started b" and "groups b = g # gs"
    and "group_controller g = c" and "map item_ref first = refs"
    and "mset first = mset (group_items g)" and "placed = first @ more"
    and "if gs = [] then more = [] \<and> rest = None
         else batch_valid (b\<lparr>groups := gs\<rparr>)
           \<and> place_groups (b\<lparr>groups := gs\<rparr>) answers = Inr (more, rest)"
proof -
  from assms(2) obtain first r where step: "complete_pending_trigger_group b c refs = Inr (first, r)"
    and tail: "(case r of None \<Rightarrow> Inr (first, None)
        | Some b' \<Rightarrow> ebind (place_groups b' answers) (\<lambda>(more, final). Inr (first @ more, final)))
      = Inr (placed, rest)"
    by (auto simp: ebind_eq_Inr split: prod.splits)
  from step [unfolded complete_group [OF assms(1)]] obtain g gs where
    g: "placement_started b" "groups b = g # gs" "group_controller g = c"
    and perm: "mset refs = mset (map item_ref (group_items g))"
    and first: "first = map (\<lambda>r. the (map_of (map (\<lambda>i. (item_ref i, i)) (group_items g)) r)) refs"
    and r: "r = (if gs = [] then None else Some (b\<lparr>groups := gs\<rparr>))"
    by blast
  have "distinct (map item_ref (group_items g))"
    using assms(1) g(2) by (auto simp: batch_valid_def group_valid_def group_init_eq)
  note order = by_ref_reorder [OF this perm, folded first]
  show thesis
  proof (cases "gs = []")
    case True
    with tail r have "placed = first @ []" "rest = None" by simp_all
    with that [OF g order(2,1), of "[]"] True show thesis by simp
  next
    case False
    with tail r obtain more where "place_groups (b\<lparr>groups := gs\<rparr>) answers = Inr (more, rest)"
      and "placed = first @ more"
      by (auto simp: ebind_eq_Inr)
    with that [OF g order(2,1), of more] False batch_tail_init(2) [OF assms(1) g(2) False]
    show thesis by simp
  qed
qed

text \<open>
  Placement is in APNAP order and loses nothing: after any sequence of accepted answers the
  answers come from the controllers of the first groups in turn, the placed triggers are exactly
  the triggers of those groups in the order their controllers chose, and what is left is the batch
  of the remaining groups, or nothing when every group was placed.
\<close>

theorem placed_in_apnap_order:
  assumes "batch_valid b" and "place_groups b answers = Inr (placed, rest)"
  shows "\<exists>n \<le> length (groups b).
    map fst (take n answers) = map group_controller (take n (groups b))
    \<and> map item_ref placed = concat (map snd (take n answers))
    \<and> mset placed = mset (concat (map group_items (take n (groups b))))
    \<and> (case rest of None \<Rightarrow> n = length (groups b)
        | Some r \<Rightarrow> n = length answers \<and> r = b\<lparr>groups := drop n (groups b)\<rparr> \<and> batch_valid r)"
  using assms
proof (induction b answers arbitrary: placed rest rule: place_groups.induct)
  case (1 b)
  then show ?case by (intro exI [of _ 0]) auto
next
  case (2 b c refs answers)
  from 2(2,3) obtain g gs first more where g: "placement_started b" "groups b = g # gs"
    and c: "group_controller g = c" "map item_ref first = refs" "mset first = mset (group_items g)"
    and placed: "placed = first @ more"
    and rest: "if gs = [] then more = [] \<and> rest = None
         else batch_valid (b\<lparr>groups := gs\<rparr>)
           \<and> place_groups (b\<lparr>groups := gs\<rparr>) answers = Inr (more, rest)"
    by (rule place_groups_Cons)
  show ?case
  proof (cases "gs = []")
    case True
    with g c placed rest show ?thesis by (intro exI [of _ 1]) simp
  next
    case False
    have "batch_valid (b\<lparr>groups := gs\<rparr>)"
      and "place_groups (b\<lparr>groups := gs\<rparr>) answers = Inr (more, rest)"
      using rest False by simp_all
    from 2(1) [OF this]
    obtain n where "n \<le> length (groups (b\<lparr>groups := gs\<rparr>))"
      "map fst (take n answers) = map group_controller (take n (groups (b\<lparr>groups := gs\<rparr>)))"
      "map item_ref more = concat (map snd (take n answers))"
      "mset more = mset (concat (map group_items (take n (groups (b\<lparr>groups := gs\<rparr>)))))"
      "case rest of None \<Rightarrow> n = length (groups (b\<lparr>groups := gs\<rparr>))
        | Some r \<Rightarrow> n = length answers
            \<and> r = b\<lparr>groups := gs\<rparr>\<lparr>groups := drop n (groups (b\<lparr>groups := gs\<rparr>))\<rparr> \<and> batch_valid r"
      by blast
    then have n: "n \<le> length gs"
      "map fst (take n answers) = map group_controller (take n gs)"
      "map item_ref more = concat (map snd (take n answers))"
      "mset more = mset (concat (map group_items (take n gs)))"
      "case rest of None \<Rightarrow> n = length gs
        | Some r \<Rightarrow> n = length answers \<and> r = b\<lparr>groups := drop n gs\<rparr> \<and> batch_valid r"
      by (simp_all split: option.splits)
    show ?thesis
    proof (intro exI [of _ "Suc n"] conjI)
      show "case rest of None \<Rightarrow> Suc n = length (groups b)
        | Some r \<Rightarrow> Suc n = length ((c, refs) # answers)
            \<and> r = b\<lparr>groups := drop (Suc n) (groups b)\<rparr> \<and> batch_valid r"
        using n(5) g(2) by (cases rest) simp_all
    qed (use n(1-4) g(2) c placed in simp_all)
  qed
qed

text \<open>
  Placement always finishes: when every controller in turn answers with its own triggers in
  any order, all answers are accepted, nothing is left, and the triggers are placed in exactly the
  chosen orders.
\<close>

theorem placement_finishes:
  assumes "batch_valid b" and "placement_started b"
    and "\<forall>i \<in> set (batch_items b). item_ref i \<noteq> []"
    and "list_all2 (\<lambda>g answer. fst answer = group_controller g
           \<and> mset (snd answer) = mset (map item_ref (group_items g))) (groups b) answers"
  shows "\<exists>placed. place_groups b answers = Inr (placed, None)
    \<and> map item_ref placed = concat (map snd answers) \<and> mset placed = mset (batch_items b)"
  using assms
proof (induction answers arbitrary: b)
  case Nil
  then show ?case by (simp add: batch_valid_def batch_init_eq)
next
  case (Cons a answers)
  obtain c refs where a: "a = (c, refs)" by (cases a)
  from Cons.prems(4) obtain g gs where g: "groups b = g # gs" "group_controller g = c"
    "mset refs = mset (map item_ref (group_items g))"
    and tail: "list_all2 (\<lambda>g answer. fst answer = group_controller g
           \<and> mset (snd answer) = mset (map item_ref (group_items g))) gs answers"
    by (auto simp: a list_all2_Cons2)
  have refs: "\<forall>r \<in> set refs. r \<noteq> []"
    using Cons.prems(3) g(1) mset_eq_setD [OF g(3)] by (auto simp: batch_items_def)
  define first where
    "first = map (\<lambda>r. the (map_of (map (\<lambda>i. (item_ref i, i)) (group_items g)) r)) refs"
  have step: "complete_pending_trigger_group b c refs
      = Inr (first, if gs = [] then None else Some (b\<lparr>groups := gs\<rparr>))"
    using complete_group [OF Cons.prems(1)] Cons.prems(2) g refs by (simp add: first_def)
  have "distinct (map item_ref (group_items g))"
    using Cons.prems(1) g(1) by (auto simp: batch_valid_def group_valid_def group_init_eq)
  note order = by_ref_reorder [OF this g(3), folded first_def]
  show ?case
  proof (cases "gs = []")
    case True
    with tail step order g show ?thesis by (simp add: a batch_items_def)
  next
    case False
    have "batch_valid (b\<lparr>groups := gs\<rparr>)" by (rule batch_tail_init(2) [OF Cons.prems(1) g(1) False])
    with Cons.IH [of "b\<lparr>groups := gs\<rparr>"] Cons.prems(2,3) g(1) tail
    obtain more where "place_groups (b\<lparr>groups := gs\<rparr>) answers = Inr (more, None)"
      "map item_ref more = concat (map snd answers)" "mset more = mset (concat (map group_items gs))"
      by (auto simp: batch_items_def)
    with False step order g show ?thesis by (simp add: a batch_items_def)
  qed
qed

section \<open>Reading back what was written\<close>

lemma freeze_fixed:
  "freeze_value v = Inr w \<Longrightarrow> freeze_value w = Inr w"
  "freeze_list vs = Inr ws \<Longrightarrow> freeze_list ws = Inr ws"
  "freeze_items kvs = Inr kws \<Longrightarrow>
     map fst kws = map fst kvs \<and> (\<forall>(k, w) \<in> set kws. freeze_value w = Inr w)"
proof (induction v and vs and kvs arbitrary: w and ws and kws
    rule: freeze_value_freeze_list_freeze_items.induct)
  case (1 items)
  from 1(2) obtain frozen where f: "freeze_items items = Inr frozen"
    and w: "w = PDict (sort_key fst frozen)"
    by (auto simp: ebind_eq_Inr)
  have fixed: "freeze_items kvs = Inr kvs" if "\<forall>(k, w) \<in> set kvs. freeze_value w = Inr w" for kvs
    using that by (induction kvs) auto
  have "\<forall>(k, w) \<in> set (sort_key fst frozen). freeze_value w = Inr w"
    using 1(1) [OF f] by simp
  with fixed [of "sort_key fst frozen"] show ?case
    by (simp add: w sort_key_id_if_sorted)
qed (auto simp: ebind_eq_Inr)

definition item_valid :: "trigger_occurrence \<Rightarrow> bool" where
  "item_valid item \<longleftrightarrow> occurrence_init (payload item) = Inr item"

lemma occurrence_init_valid: "occurrence_init values = Inr item \<Longrightarrow> item_valid item"
proof -
  assume "occurrence_init values = Inr item"
  then obtain w data where frozen: "freeze_value (PDict values) = Inr w"
    and data: "exact_mapping ''trigger_item'' w = Inr data" and checked: "check_payload data = Inr ()"
    and item: "item = \<lparr>payload = data\<rparr>"
    by (auto simp: occurrence_init_def ebind_eq_Inr simp del: freeze_value.simps)
  have "w = PDict data" using data by (cases w) simp_all
  with freeze_fixed(1) [OF frozen] checked show "item_valid item"
    by (simp add: item item_valid_def occurrence_init_def del: freeze_value.simps)
qed

lemma exact_mapping_Inr: "exact_mapping f v = Inr d \<longleftrightarrow> v = PDict d"
  by (cases v) auto

text \<open>The typed view of a valid occurrence exists: none of its checks can fail any more.\<close>

lemma typed_dict_total:
  assumes "item_valid item"
  shows "\<exists>view. typed_dict item = Inr view \<and> map_of view ''controller'' = Some (PStr (item_controller item))"
proof -
  from assms obtain w where "exact_mapping ''trigger_item'' w = Inr (payload item)"
    and "check_payload (payload item) = Inr ()"
    by (cases item) (auto simp: item_valid_def occurrence_init_def ebind_eq_Inr
        simp del: freeze_value.simps)
  then obtain ctxt where payload_ctxt: "dict_get (PDict []) (payload item) ''context'' = PDict ctxt"
    and checked: "check_context ctxt = Inr ()"
    and visible: "\<exists>vs. string_tuple ''visibility'' (dict_get (PList []) (payload item) ''visibility'') = Inr vs"
    unfolding check_payload_def ebind_eq_Inr exact_mapping_Inr by (auto simp: ebind_eq_Inr)
  have facts: "event_facts item = Inr ctxt" by (simp add: event_facts_def payload_ctxt)
  from checked have "is_bool (dict_get (PBool False) ctxt ''trigger_target_selection_pending'')"
    and "\<exists>d. dict_get (PDict []) ctxt ''intervening_condition'' = PDict d"
    and "\<exists>d. dict_get (PDict []) ctxt ''additional_trigger_source'' = PDict d"
    by (auto simp: check_context_def ebind_eq_Inr exact_mapping_Inr)
  moreover from visible obtain vs
    where "dict_get (PList []) (payload item) ''visibility'' = PList vs"
    by (auto elim!: string_tuple.elims)
  ultimately show ?thesis
    by (auto simp: typed_dict_def fact_string_def fact_mapping_def facts
        target_selection_required_def visibility_of_def)
qed

lemma occurrence_roundtrip:
  "item_valid item \<Longrightarrow> occurrence_from_dict (occurrence_to_dict item) = Inr item"
  by (simp add: occurrence_from_dict_def occurrence_to_dict_def item_valid_def)

lemma group_roundtrip:
  assumes "group_valid g" and "\<forall>i \<in> set (group_items g). item_valid i"
  shows "group_from_dict (group_to_dict g) = Inr g"
proof -
  have "emap occurrence_from_dict (map occurrence_to_dict (group_items g)) = Inr (group_items g)"
    by (rule emap_inverse) (use assms(2) in \<open>simp add: occurrence_roundtrip\<close>)
  with assms(1) show ?thesis
    by (auto simp: group_from_dict_def group_to_dict_def group_valid_def dict_get_def
        exact_string_def group_init_eq)
qed

text \<open>
  A batch is read back from what it writes: every valid batch of valid triggers, its
  placement mark and its order included, is restored unchanged.
\<close>

theorem batch_roundtrip:
  assumes "batch_valid b" and "\<forall>i \<in> set (batch_items b). item_valid i"
  shows "batch_from_dict (batch_to_dict b) = Inr b"
proof -
  have init: "batch_init b = Inr b" and gs: "\<forall>g \<in> set (groups b). group_valid g"
    using assms(1) by (simp_all add: batch_valid_def)
  have "emap group_from_dict (map group_to_dict (groups b)) = Inr (groups b)"
    by (rule emap_inverse) (use gs assms(2) in \<open>auto simp: batch_items_def intro!: group_roundtrip\<close>)
  moreover have "string_tuple ''trigger_batch.apnap_order'' (PList (map PStr (apnap_order b)))
      = Inr (apnap_order b)"
    using init unfolding string_tuple_strings batch_init_eq by simp
  moreover have "batch_id b \<noteq> []" "batch_ref b \<noteq> []" "schema_version b = 1"
    "0 \<le> batch_turn_sequence b" "0 \<le> batch_priority_epoch b"
    using init unfolding batch_init_eq by simp_all
  ultimately show ?thesis
    using init
    by (cases b) (simp add: batch_from_dict_def batch_to_dict_def BATCH_FIELDS_def dict_get_def
        exact_string_def exact_bool_def del: string_tuple.simps)
qed

section \<open>Concrete batches\<close>

definition sample_item :: "string \<Rightarrow> string \<Rightarrow> pyval" where
  "sample_item ref controller =
     PDict [(''controller'', PStr controller), (''kind'', PStr ''triggered_ability''),
            (''label'', PStr ref), (''ref'', PStr ref), (''stack_id'', PStr ref)]"

definition sample_batch :: "trigger_batch" where
  "sample_batch =
     (case create_pending_trigger_batch ''tb'' ''B''
             [RawItem (sample_item ''T1'' ''B''), RawItem (sample_item ''T2'' ''A''),
              RawItem (sample_item ''T3'' ''B'')] [''A'', ''B''] 3 7 of
        Inr b \<Rightarrow> b\<lparr>placement_started := True\<rparr>)"

lemma sample_batch_eq:
  "create_pending_trigger_batch ''tb'' ''B''
     [RawItem (sample_item ''T1'' ''B''), RawItem (sample_item ''T2'' ''A''),
      RawItem (sample_item ''T3'' ''B'')] [''A'', ''B''] 3 7
   = Inr (sample_batch\<lparr>placement_started := False\<rparr>)"
  by code_simp

text \<open>Two triggers of the second player and one of the active player, entered out of order.\<close>

theorem created_batch_groups_witness:
  "map group_controller (groups sample_batch) = [''A'', ''B'']
   \<and> mset (map item_ref (batch_items sample_batch)) = {#''T1'', ''T2'', ''T3''#}"
proof -
  have "\<exists>ns. emap normalize_item
        [RawItem (sample_item ''T1'' ''B''), RawItem (sample_item ''T2'' ''A''),
         RawItem (sample_item ''T3'' ''B'')] = Inr ns
      \<and> mset (batch_items (sample_batch\<lparr>placement_started := False\<rparr>)) = mset ns"
    using created_batch_groups [OF sample_batch_eq] by blast
  then obtain ns where ns: "emap normalize_item
        [RawItem (sample_item ''T1'' ''B''), RawItem (sample_item ''T2'' ''A''),
         RawItem (sample_item ''T3'' ''B'')] = Inr ns"
    and "mset (batch_items sample_batch) = mset ns"
    by (auto simp: batch_items_def)
  moreover have "map item_ref ns = [''T1'', ''T2'', ''T3'']"
  proof -
    have "(case emap normalize_item
        [RawItem (sample_item ''T1'' ''B''), RawItem (sample_item ''T2'' ''A''),
         RawItem (sample_item ''T3'' ''B'')] of Inr is \<Rightarrow> map item_ref is) = [''T1'', ''T2'', ''T3'']"
      by code_simp
    with ns show ?thesis by simp
  qed
  ultimately have "mset (map item_ref (batch_items sample_batch)) = {#''T1'', ''T2'', ''T3''#}"
    by (metis mset.simps mset_map)
  moreover have "map group_controller (groups sample_batch) = [''A'', ''B'']" by code_simp
  ultimately show ?thesis by simp
qed

lemma sample_batch_valid: "batch_valid sample_batch"
  by code_simp

lemma sample_refs:
  "map (map item_ref) (map group_items (groups sample_batch)) = [[''T2''], [''T1'', ''T3'']]"
  by code_simp

theorem merged_batch_groups_witness:
  "\<exists>b. merge_pending_trigger_batch (sample_batch\<lparr>placement_started := False\<rparr>)
        [RawItem (sample_item ''T4'' ''A'')] [''A''] 7 = Inr (Some b)
     \<and> batch_valid b \<and> batch_priority_epoch b = 7 \<and> map item_ref (batch_items b) = [''T2'', ''T4'']"
proof -
  let ?m = "merge_pending_trigger_batch (sample_batch\<lparr>placement_started := False\<rparr>)
        [RawItem (sample_item ''T4'' ''A'')] [''A''] 7"
  have "(case ?m of Inr (Some b) \<Rightarrow> map item_ref (batch_items b) | _ \<Rightarrow> []) = [''T2'', ''T4'']"
    by code_simp
  then obtain b where b: "?m = Inr (Some b)" "map item_ref (batch_items b) = [''T2'', ''T4'']"
    by (auto split: sum.splits option.splits)
  with merged_batch_groups [OF b(1)] show ?thesis by auto
qed

theorem placed_in_apnap_order_witness:
  "\<exists>placed rest. place_groups sample_batch [(''A'', [''T2''])] = Inr (placed, Some rest)
     \<and> map item_ref placed = [''T2''] \<and> groups rest = drop 1 (groups sample_batch)"
proof -
  have "(case place_groups sample_batch [(''A'', [''T2''])] of Inr (_, Some _) \<Rightarrow> True | _ \<Rightarrow> False)"
    by code_simp
  then obtain placed rest
    where run: "place_groups sample_batch [(''A'', [''T2''])] = Inr (placed, Some rest)"
    by (auto split: sum.splits option.splits)
  from placed_in_apnap_order [OF sample_batch_valid this] run show ?thesis by auto
qed

theorem placement_finishes_witness:
  "\<exists>placed. place_groups sample_batch [(''A'', [''T2'']), (''B'', [''T3'', ''T1''])] = Inr (placed, None)
     \<and> map item_ref placed = [''T2'', ''T3'', ''T1'']"
proof -
  have 1: "placement_started sample_batch" by code_simp
  have 2: "\<forall>i \<in> set (batch_items sample_batch). item_ref i \<noteq> []" by code_simp
  have 3: "list_all2 (\<lambda>g answer. fst answer = group_controller g
      \<and> mset (snd answer) = mset (map item_ref (group_items g))) (groups sample_batch)
      [(''A'', [''T2'']), (''B'', [''T3'', ''T1''])]"
    by code_simp
  from placement_finishes [OF sample_batch_valid 1 2 3] show ?thesis by auto
qed

theorem batch_roundtrip_witness:
  "batch_from_dict (batch_to_dict sample_batch) = Inr sample_batch \<and> batch_items sample_batch \<noteq> []"
proof -
  have "\<forall>i \<in> set (batch_items sample_batch). item_valid i" by code_simp
  with batch_roundtrip [OF sample_batch_valid] sample_refs show ?thesis
    by (auto simp: batch_items_def)
qed

end
