(* ===== verification/Game_Model.thy ===== *)
theory Game_Model imports Prelude Mana_Pool Trigger_Batches
begin

text \<open>
  The game state of \<open>quorune/model.py\<close>: one record per dataclass with the fields of the source
  (a field whose name another record already has carries a prefix), the construction checks of
  each \<open>__post_init__\<close>, and the derived readings other modules use.  Fields hold values of their
  annotated types, so the \<open>isinstance\<close> checks on them cannot fail and are left out; range,
  membership and uniqueness checks are kept.  Open dictionaries and lists of other records that
  no modelled operation looks into (event details, effect journals, statistics) hold
  \<open>pyval\<close>s.
\<close>

section \<open>Turn history\<close>

record turn_history_event =
  history_kind :: string
  history_actor :: "string option"
  object_incarnation :: "string option"
  history_target :: "string option"
  target_kind :: "string option"
  history_types :: "string list"
  history_amount :: int

record turn_history =
  history_version :: int
  history_turn_sequence :: int
  history_events :: "turn_history_event list"

section \<open>Objects\<close>

record goad_designation =
  goad_player :: string
  expires_at_turns_begun :: int
  goad_turn_sequence :: int

record card_instance =
  object_id :: string
  card_ref :: string
  oracle_id :: string
  printed_name :: string
  owner :: string
  controller :: string
  zone :: string
  is_token :: bool
  is_commander :: bool
  commander_designation_id :: "string option"
  commander_zone_choice_logical_id :: "string option"
  zone_change_counter :: int
  zone_timestamp :: int
  world_supertype_timestamp :: "int option"
  has_left_battlefield :: bool
  tapped :: bool
  face_down :: bool
  active_face :: "string option"
  phased_out :: bool
  card_counters :: "(string, int) dict"
  marked_damage :: int
  deathtouch_damage :: bool
  regeneration_shields :: int
  temporary_keywords :: "string list"
  goaded_by :: "goad_designation list"
  monstrous_value :: "int option"
  renowned :: bool
  unearthed :: bool
  card_annotations :: "(string, pyval) dict"
  attached_to :: "string option"
  attachments :: "string list"
  acquired_control_turn_count :: int
  acquired_control_timestamp :: int
  entered_battlefield_turn_sequence :: int
  revealed_to :: "string list"
  known_to :: "string list"
  attacking :: "string option"
  blocking :: "string option"
  battle_protector :: "string option"
  object_kind :: string

datatype model_error =
    UnsupportedObjectKind string
  | EmptyDesignationId
  | DesignationWithoutCommander
  | EmptyZoneChoiceId
  | ZoneChoiceWithoutCommander
  | NegativeRegeneration
  | NegativeMonstrous
  | NegativeControlTimestamp
  | NegativeUpkeepTimestamp
  | EmptyCounterName
  | LegacyCounterName
  | NegativeCounterAmount
  | DuplicateCounterName
  | BadAttachmentSources
  | BadManaColors
  | DuplicateManaColors
  | BadReferredObjects
  | MissingSeat string

definition OBJECT_KINDS :: "string list" where
  "OBJECT_KINDS = [''card'', ''token'', ''spell_copy'', ''card_copy'', ''emblem'']"

definition card_init :: "card_instance \<Rightarrow> model_error + card_instance" where
  "card_init c =
     (let card = (if is_token c then c\<lparr>object_kind := ''token''\<rparr>
                  else if object_kind c = ''token'' then c\<lparr>is_token := True\<rparr>
                  else c) in
      ebind (ensure (object_kind card \<in> set OBJECT_KINDS) (UnsupportedObjectKind (object_kind card))) (\<lambda>_.
      ebind (ensure (commander_designation_id card \<noteq> Some []) EmptyDesignationId) (\<lambda>_.
      ebind (ensure (commander_designation_id card = None \<or> is_commander card)
               DesignationWithoutCommander) (\<lambda>_.
      ebind (ensure (commander_zone_choice_logical_id card \<noteq> Some []) EmptyZoneChoiceId) (\<lambda>_.
      ebind (ensure (commander_zone_choice_logical_id card = None \<or> is_commander card)
               ZoneChoiceWithoutCommander) (\<lambda>_.
      ebind (ensure (0 \<le> regeneration_shields card) NegativeRegeneration) (\<lambda>_.
      ebind (ensure (case monstrous_value card of None \<Rightarrow> True | Some n \<Rightarrow> 0 \<le> n) NegativeMonstrous) (\<lambda>_.
      ebind (ensure (0 \<le> acquired_control_timestamp card) NegativeControlTimestamp) (\<lambda>_.
      Inr card)))))))))"

definition logical_object_id :: "card_instance \<Rightarrow> string" where
  "logical_object_id c = object_id c @ CHR ''@'' # show_int (zone_change_counter c)"

definition is_card_object :: "card_instance \<Rightarrow> bool" where
  "is_card_object c \<longleftrightarrow> object_kind c = ''card''"

definition is_spell_copy :: "card_instance \<Rightarrow> bool" where
  "is_spell_copy c \<longleftrightarrow> object_kind c = ''spell_copy''"

definition is_card_copy :: "card_instance \<Rightarrow> bool" where
  "is_card_copy c \<longleftrightarrow> object_kind c = ''card_copy''"

section \<open>Players\<close>

record yield_policy =
  yield_mode :: string
  created_revision :: int
  created_event_sequence :: int
  created_stack_change_epoch :: int
  created_public_change_epoch :: int
  created_draw_epoch :: int
  created_action_change_epoch :: int
  created_turn_sequence :: int
  created_priority_epoch :: int
  created_active_player :: "string option"
  created_phase :: "string option"
  created_step :: "string option"
  created_land_plays_remaining :: "int option"
  action_signature :: "string option"
  stack_signature :: "string option"
  expires_turn_sequence :: "int option"
  expires_on_stack_change :: bool
  expires_on_hand_change :: bool
  expires_on_battlefield_change :: bool
  stop_phase :: "string option"
  stop_step :: "string option"
  yield_note :: string

definition default_yield_policy :: "yield_policy" where
  "default_yield_policy =
     \<lparr>yield_mode = ''none'', created_revision = 0, created_event_sequence = 0,
      created_stack_change_epoch = 0, created_public_change_epoch = 0, created_draw_epoch = 0,
      created_action_change_epoch = 0, created_turn_sequence = 0, created_priority_epoch = 0,
      created_active_player = None, created_phase = None, created_step = None,
      created_land_plays_remaining = None, action_signature = None, stack_signature = None,
      expires_turn_sequence = None, expires_on_stack_change = True,
      expires_on_hand_change = True, expires_on_battlefield_change = True,
      stop_phase = None, stop_step = None, yield_note = []\<rparr>"

record player_state =
  seat :: string
  player_name :: string
  life :: int
  poison :: int
  energy :: int
  player_counters :: "(string, int) dict"
  in_game :: bool
  mana_pool :: "(string, int) dict"
  zones :: "(string, string list) dict"
  player_attachments :: "string list"
  commander_casts :: "(string, int) dict"
  commander_damage_received :: "(string, int) dict"
  turns_begun :: int
  last_upkeep_timestamp :: int
  land_plays_remaining :: int
  max_hand_size :: int
  mulligans_taken :: int
  mulligan_penalty :: int
  mulligan_status :: string
  kept_hand :: bool
  attempted_empty_draw :: bool
  draw_history :: "pyval list"
  decision_notes :: "pyval list"
  rules_seen :: "string list"
  stats :: "(string, pyval) dict"
  player_yield :: yield_policy

definition normalize_counter_entry ::
  "(string, int) dict \<Rightarrow> string \<times> int \<Rightarrow> model_error + (string, int) dict" where
  "normalize_counter_entry normalized entry =
     (let name = folded_words (fst entry); raw_amount = snd entry in
      ebind (ensure (name \<noteq> []) EmptyCounterName) (\<lambda>_.
      ebind (ensure (name \<noteq> ''poison'' \<and> name \<noteq> ''energy'') LegacyCounterName) (\<lambda>_.
      ebind (ensure (0 \<le> raw_amount) NegativeCounterAmount) (\<lambda>_.
      if raw_amount = 0 then Inr normalized
      else if map_of normalized name \<noteq> None then Inl DuplicateCounterName
      else Inr (AList.update name raw_amount normalized)))))"

definition player_init :: "player_state \<Rightarrow> model_error + player_state" where
  "player_init p =
     ebind (ensure (0 \<le> last_upkeep_timestamp p) NegativeUpkeepTimestamp) (\<lambda>_.
     ebind (efold normalize_counter_entry [] (player_counters p)) (\<lambda>normalized.
     ebind (ensure (list_all (\<lambda>i. i \<noteq> []) (player_attachments p) \<and> distinct (player_attachments p))
              BadAttachmentSources) (\<lambda>_.
     Inr (p\<lparr>player_counters := normalized\<rparr>))))"

section \<open>The stack, delayed triggers, turns\<close>

record stack_item =
  stack_id :: string
  stack_ref :: string
  stack_kind :: string
  stack_controller :: string
  stack_label :: string
  card_object_id :: "string option"
  source_object_id :: "string option"
  semantic_key :: "string option"
  targets :: "pyval list"
  modes :: "string list"
  x_value :: "int option"
  chosen_face :: "string option"
  stack_notes :: string
  default_destination :: "string option"
  stack_visibility :: "string list"
  stack_context :: "(string, pyval) dict"
  mana_colors_spent :: "string list"
  referred_object_ids :: "string list"

definition COLORED_MANA_SYMBOLS :: "string list" where
  "COLORED_MANA_SYMBOLS = [''W'', ''U'', ''B'', ''R'', ''G'']"

definition stack_item_init :: "stack_item \<Rightarrow> model_error + stack_item" where
  "stack_item_init item =
     ebind (ensure (list_all (\<lambda>v. v \<in> set COLORED_MANA_SYMBOLS) (mana_colors_spent item)) BadManaColors) (\<lambda>_.
     ebind (ensure (distinct (mana_colors_spent item)) DuplicateManaColors) (\<lambda>_.
     ebind (ensure (list_all (\<lambda>v. v \<noteq> []) (referred_object_ids item)) BadReferredObjects) (\<lambda>_.
     Inr (item\<lparr>mana_colors_spent := filter (\<lambda>c. c \<in> set (mana_colors_spent item)) COLORED_MANA_SYMBOLS,
               referred_object_ids := unique_preserving_order (referred_object_ids item)\<rparr>))))"

record delayed_trigger =
  trigger_id :: string
  trigger_ref :: string
  trigger_controller :: string
  trigger_label :: string
  trigger_source_object_id :: "string option"
  event_kind :: string
  condition :: "(string, pyval) dict"
  stack_template :: "(string, pyval) dict"
  source_logical_object_id :: "string option"
  trigger_once :: bool
  trigger_turn_sequence :: int
  trigger_expires_turn_sequence :: "int option"
  trigger_active :: bool
  trigger_referred_ids :: "string list"

definition delayed_trigger_init :: "delayed_trigger \<Rightarrow> model_error + delayed_trigger" where
  "delayed_trigger_init t =
     ebind (ensure (list_all (\<lambda>v. v \<noteq> []) (trigger_referred_ids t)) BadReferredObjects) (\<lambda>_.
     Inr (t\<lparr>trigger_referred_ids := unique_preserving_order (trigger_referred_ids t)\<rparr>))"

record turn_entry =
  turn_id :: string
  turn_player :: string
  extra :: bool
  turn_source :: "string option"
  turn_created_sequence :: int
  skip_steps :: "string list"

section \<open>Combat, decisions, events\<close>

record combat_state =
  attackers_declared :: bool
  blockers_declared :: bool
  had_attacking_creature :: bool
  attackers :: "(string, string) dict"
  attack_target_context :: "(string, (string, string) dict) dict"
  defending_players :: "string list"
  blocker_cursor :: int
  blockers :: "(string, string list) dict"
  damage_assignments :: "pyval list"
  damage_sequence_id :: "string option"
  damage_step_index :: int
  damage_step_initialized :: bool
  first_strike_step :: bool
  ordinary_second_damage_combatants :: "string list"

record decision_group =
  decision_id :: string
  decision_kind :: string
  decision_role :: string
  actors :: "string list"
  decision_actions :: "string list"
  payload_by_actor :: "(string, (string, pyval) dict) dict"
  simultaneous :: bool
  responses :: "(string, (string, pyval) dict) dict"
  continuation :: "(string, pyval) dict"
  decision_revision :: int

record capability =
  token :: string
  cap_decision_id :: string
  principal :: string
  cap_role :: string
  cap_actor :: "string option"
  allowed_actions :: "string list"
  cap_revision :: int
  consumed :: bool

record event =
  event_id :: int
  event_revision :: int
  event_turn_sequence :: int
  event_active_player :: "string option"
  event_phase :: string
  event_step :: string
  event_actor :: "string option"
  event_code :: string
  event_summary :: string
  event_details :: "(string, pyval) dict"
  event_visibility :: "string list"
  event_importance :: int
  changed_objects :: "string list"
  changed_players :: "string list"

section \<open>Configuration and the whole game\<close>

record game_config =
  format_name :: string
  review_profile :: string
  profile :: string
  starting_life :: int
  poison_to_lose :: int
  commander_damage_to_lose :: int
  opening_hand_size :: int
  free_mulligans :: "int option"
  first_player_draws_on_turn_one :: "bool option"
  auto_untap :: bool
  auto_draw :: bool
  strict_timing :: bool
  strict_mana :: bool
  rng_seed :: "int option"
  hidden_information_mode :: string
  priority_optimization :: string
  auto_resolve_registered_semantics :: bool
  semantic_policy :: string
  auto_pass_empty_priority :: bool
  manual_active_main_phase :: bool
  realistic_mulligan_guard :: bool
  max_players :: int
  trace_level :: string

definition effective_profile :: "game_config \<Rightarrow> int \<Rightarrow> string" where
  "effective_profile config player_count =
     (if profile config \<noteq> ''auto'' then profile config
      else if player_count = 2 then ''commander_duel'' else ''commander_multiplayer'')"

definition effective_free_mulligans :: "game_config \<Rightarrow> int \<Rightarrow> int" where
  "effective_free_mulligans config player_count =
     (case free_mulligans config of
        Some n \<Rightarrow> n
      | None \<Rightarrow> if effective_profile config player_count = ''commander_duel'' then 0 else 1)"

definition effective_first_player_draws :: "game_config \<Rightarrow> int \<Rightarrow> bool" where
  "effective_first_player_draws config player_count \<longleftrightarrow>
     (if 3 \<le> player_count then True
      else case first_player_draws_on_turn_one config of Some b \<Rightarrow> b | None \<Rightarrow> False)"

record game_state =
  game_id :: string
  config :: game_config
  players :: "(string, player_state) dict"
  cards :: "(string, card_instance) dict"
  deck_names :: "(string, string) dict"
  commander_oracle_ids :: "(string, string list) dict"
  turn_order :: "string list"
  current_turn :: "turn_entry option"
  last_normal_turn_player :: "string option"
  commander_damage_identity_version :: "int option"
  control_history_version :: "int option"
  extra_turns :: "turn_entry list"
  active_player :: "string option"
  priority_player :: "string option"
  priority_passes :: "string list"
  priority_epoch :: int
  turn_sequence :: int
  phase_index :: int
  game_phase :: string
  game_step :: string
  stack_items :: "stack_item list"
  delayed_triggers :: "delayed_trigger list"
  damage_prevention_shields :: "pyval list"
  damage_redirections :: "pyval list"
  continuous_effects :: "pyval list option"
  game_turn_history :: "turn_history option"
  monarch :: "string option"
  pending_trigger_batches :: "trigger_batch list"
  combat :: combat_state
  events :: "event list"
  game_annotations :: "pyval list"
  action_opportunities :: "pyval list"
  opportunity_sequence :: int
  timestamp_sequence :: int
  pending_decision :: "decision_group option"
  capabilities :: "(string, capability) dict"
  game_started :: bool
  game_over :: bool
  winner :: "string option"
  game_draw :: bool
  eliminated_players :: "string list"
  revision :: int
  event_sequence :: int
  state_version :: int
  mulligan_round :: int
  ref_counters :: "(string, int) dict"

text \<open>\<open>self.players[seat]\<close> raises \<open>KeyError\<close> for a seat without a player.\<close>

fun active_seats_loop :: "(string, player_state) dict \<Rightarrow> string list \<Rightarrow> model_error + string list" where
  "active_seats_loop ps [] = Inr []"
| "active_seats_loop ps (s # order) =
     ebind (option_raise (MissingSeat s) (map_of ps s)) (\<lambda>p.
     ebind (active_seats_loop ps order) (\<lambda>rest.
     Inr (if in_game p then s # rest else rest)))"

definition active_seats :: "game_state \<Rightarrow> model_error + string list" where
  "active_seats state = active_seats_loop (players state) (turn_order state)"

section \<open>Identity and construction\<close>

lemma at_not_in_show_int: "CHR ''@'' \<notin> set (show_int n)"
proof -
  have "CHR ''@'' \<notin> set (show_nat m)" for m
    using show_nat_digits [of m] by (auto simp: is_digit_def)
  then show ?thesis by (simp add: show_int_def)
qed

lemma split_at_last:
  "xs @ c # ys = xs' @ c # ys' \<Longrightarrow> c \<notin> set ys \<Longrightarrow> c \<notin> set ys' \<Longrightarrow> xs = xs' \<and> ys = ys'"
  by (auto simp: append_eq_append_conv2 append_eq_Cons_conv Cons_eq_append_conv)

text \<open>
  A logical object id names one incarnation of one object: two objects have the same logical
  id exactly when they have the same object id and the same number of zone changes, whatever
  characters the object ids contain.
\<close>

theorem logical_object_id_unique:
  "logical_object_id c = logical_object_id d \<longleftrightarrow>
     object_id c = object_id d \<and> zone_change_counter c = zone_change_counter d"
  unfolding logical_object_id_def
  using split_at_last [OF _ at_not_in_show_int at_not_in_show_int] by auto

definition card_ok :: "card_instance \<Rightarrow> bool" where
  "card_ok c \<longleftrightarrow>
     (is_token c \<longleftrightarrow> object_kind c = ''token'') \<and> object_kind c \<in> set OBJECT_KINDS
     \<and> commander_designation_id c \<noteq> Some [] \<and> commander_zone_choice_logical_id c \<noteq> Some []
     \<and> (\<not> is_commander c \<longrightarrow>
          commander_designation_id c = None \<and> commander_zone_choice_logical_id c = None)
     \<and> 0 \<le> regeneration_shields c \<and> 0 \<le> acquired_control_timestamp c
     \<and> (\<forall>n. monstrous_value c = Some n \<longrightarrow> 0 \<le> n)"

text \<open>
  Constructing a card settles its invariant: the result agrees on being a token in both
  fields, has a known kind and nonnegative counters, and carries commander identities only as a
  commander; constructing it again changes nothing, and a card is refused only for breaking the
  invariant itself.
\<close>

theorem card_init_settles:
  "(card_init c = Inr d \<longrightarrow> card_ok d \<and> card_init d = Inr d)
   \<and> (card_ok c \<longrightarrow> card_init c = Inr c)"
proof -
  have ok: "card_init c = Inr c" if "card_ok c" for c
  proof -
    have "(if is_token c then c\<lparr>object_kind := ''token''\<rparr>
        else if object_kind c = ''token'' then c\<lparr>is_token := True\<rparr> else c) = c"
      using that by (cases c) (auto simp: card_ok_def)
    moreover have "case monstrous_value c of None \<Rightarrow> True | Some n \<Rightarrow> 0 \<le> n"
      using that by (auto simp: card_ok_def split: option.splits)
    ultimately show ?thesis
      using that unfolding card_init_def Let_def by (auto simp: card_ok_def ensure_def)
  qed
  have "card_ok d" if "card_init c = Inr d"
    using that unfolding card_init_def Let_def ebind_ensure_Inr
    by (auto simp: card_ok_def OBJECT_KINDS_def split: if_splits option.splits)
  with ok show ?thesis by blast
qed

section \<open>Player counters\<close>

definition counters_canonical :: "(string, int) dict \<Rightarrow> bool" where
  "counters_canonical d \<longleftrightarrow> distinct (map fst d)
     \<and> (\<forall>(k, v) \<in> set d. folded_words k = k \<and> k \<noteq> [] \<and> k \<noteq> ''poison'' \<and> k \<noteq> ''energy'' \<and> 0 < v)"

lemma normalize_counters_canonical:
  assumes "efold normalize_counter_entry acc xs = Inr d" and "counters_canonical acc"
  shows "counters_canonical d"
proof (rule efold_invariant [where P = counters_canonical, OF assms])
  fix acc entry acc'
  assume acc: "counters_canonical acc" and step: "normalize_counter_entry acc entry = Inr acc'"
  show "counters_canonical acc'"
  proof (cases "snd entry = 0")
    case True
    with acc step show ?thesis by (auto simp: normalize_counter_entry_def ebind_eq_Inr Let_def)
  next
    case False
    with step have new: "map_of acc (folded_words (fst entry)) = None"
      and "acc' = AList.update (folded_words (fst entry)) (snd entry) acc"
      and fresh: "folded_words (fst entry) \<noteq> []" "folded_words (fst entry) \<noteq> ''poison''"
        "folded_words (fst entry) \<noteq> ''energy''" "0 < snd entry"
      by (auto simp: normalize_counter_entry_def ebind_eq_Inr Let_def split: if_splits)
    then have "acc' = acc @ [(folded_words (fst entry), snd entry)]"
      by (simp add: dict_set_new map_of_None_key)
    with acc new fresh show ?thesis
      by (auto simp: counters_canonical_def map_of_None_key image_iff)
  qed
qed

lemma normalize_canonical_counters:
  "counters_canonical (acc @ xs) \<Longrightarrow> efold normalize_counter_entry acc xs = Inr (acc @ xs)"
proof (induction xs arbitrary: acc)
  case (Cons x xs)
  obtain k v where x: "x = (k, v)" by (cases x)
  from Cons.prems have k: "folded_words k = k" "k \<noteq> []" "k \<noteq> ''poison''" "k \<noteq> ''energy''" "0 < v"
    and new: "k \<notin> fst ` set acc"
    by (auto simp: counters_canonical_def x)
  have "normalize_counter_entry acc x = Inr (acc @ [x])"
    using k new by (simp add: normalize_counter_entry_def x dict_set_new map_of_None_key)
  with Cons.IH [of "acc @ [x]"] Cons.prems show ?case by simp
qed simp

text \<open>
  Constructing a player leaves the counters canonical: each name is lower case with single
  blanks, occurs once, is not one of the two legacy counters, and has a positive amount; a
  constructed player is unchanged by constructing it again.
\<close>

theorem player_init_canonical:
  assumes "player_init p = Inr q"
  shows "counters_canonical (player_counters q) \<and> player_init q = Inr q \<and> q\<lparr>player_counters := player_counters p\<rparr> = p"
proof -
  from assms obtain n where n: "efold normalize_counter_entry [] (player_counters p) = Inr n"
    and q: "q = p\<lparr>player_counters := n\<rparr>"
    and rest: "0 \<le> last_upkeep_timestamp p"
      "list_all (\<lambda>i. i \<noteq> []) (player_attachments p)" "distinct (player_attachments p)"
    by (auto simp: player_init_def ebind_eq_Inr)
  have "counters_canonical n"
    by (rule normalize_counters_canonical [OF n]) (simp add: counters_canonical_def)
  with normalize_canonical_counters [of "[]" n] rest q show ?thesis by (simp add: player_init_def)
qed

lemma unique_loop_result:
  "distinct (unique_loop seen xs) \<and> set (unique_loop seen xs) = set xs - set seen"
  by (induction seen xs rule: unique_loop.induct) auto

lemma unique_loop_id: "distinct xs \<Longrightarrow> set xs \<inter> set seen = {} \<Longrightarrow> unique_loop seen xs = xs"
  by (induction seen xs rule: unique_loop.induct) auto

lemma unique_preserving_order_result:
  "distinct (unique_preserving_order xs)" "set (unique_preserving_order xs) = set xs"
  "unique_preserving_order (unique_preserving_order xs) = unique_preserving_order xs"
proof -
  have d: "distinct (unique_loop [] xs)" using unique_loop_result [of "[]" xs] by simp
  then show "distinct (unique_preserving_order xs)" by (simp add: unique_preserving_order_def)
  show "set (unique_preserving_order xs) = set xs"
    using unique_loop_result [of "[]" xs] by (simp add: unique_preserving_order_def)
  show "unique_preserving_order (unique_preserving_order xs) = unique_preserving_order xs"
    using unique_loop_id [OF d, of "[]"] by (simp add: unique_preserving_order_def)
qed

lemma stack_item_init_idem:
  assumes "stack_item_init i = Inr j"
  shows "stack_item_init j = Inr j" and "set (mana_colors_spent j) = set (mana_colors_spent i)"
    and "distinct (referred_object_ids j)"
proof -
  from assms have j: "j = i\<lparr>mana_colors_spent := filter (\<lambda>c. c \<in> set (mana_colors_spent i)) COLORED_MANA_SYMBOLS,
      referred_object_ids := unique_preserving_order (referred_object_ids i)\<rparr>"
    and colors: "set (mana_colors_spent i) \<subseteq> set COLORED_MANA_SYMBOLS"
    and refs: "\<forall>v \<in> set (referred_object_ids i). v \<noteq> []"
    by (auto simp: stack_item_init_def ebind_eq_Inr list_all_iff)
  have "filter (\<lambda>c. c \<in> set (filter (\<lambda>c. c \<in> set (mana_colors_spent i)) COLORED_MANA_SYMBOLS))
      COLORED_MANA_SYMBOLS = filter (\<lambda>c. c \<in> set (mana_colors_spent i)) COLORED_MANA_SYMBOLS"
    by (rule filter_cong) auto
  moreover have "distinct (filter (\<lambda>c. c \<in> set (mana_colors_spent i)) COLORED_MANA_SYMBOLS)"
    by (rule distinct_filter) (simp add: COLORED_MANA_SYMBOLS_def)
  ultimately show "stack_item_init j = Inr j"
    using refs by (simp add: stack_item_init_def j list_all_iff unique_preserving_order_result
        ensure_def)
  show "set (mana_colors_spent j) = set (mana_colors_spent i)" using colors by (auto simp: j)
  show "distinct (referred_object_ids j)" by (simp add: j unique_preserving_order_result)
qed

lemma active_seats_eq:
  assumes "active_seats s = Inr seats"
  shows "seats = filter (\<lambda>x. case map_of (players s) x of Some p \<Rightarrow> in_game p | None \<Rightarrow> False) (turn_order s)"
proof -
  have "active_seats_loop ps order = Inr seats \<Longrightarrow>
    seats = filter (\<lambda>x. case map_of ps x of Some p \<Rightarrow> in_game p | None \<Rightarrow> False) order" for ps order seats
    by (induction order arbitrary: seats)
      (auto simp: ebind_eq_Inr option_raise_eq_Inr split: if_splits)
  with assms show ?thesis by (simp add: active_seats_def)
qed

lemma active_seats_total:
  "(\<exists>seats. active_seats s = Inr seats) \<longleftrightarrow> set (turn_order s) \<subseteq> fst ` set (players s)"
proof -
  have "(\<exists>seats. active_seats_loop ps order = Inr seats) \<longleftrightarrow> set order \<subseteq> fst ` set ps" for ps order
  proof (induction order)
    case (Cons x order)
    then show ?case
      using map_of_None_key [of ps x] by (cases "map_of ps x") (auto simp: ebind_eq_Inr)
  qed simp
  then show ?thesis by (simp add: active_seats_def)
qed

text \<open>Writing a field of one player that is not \<open>in_game\<close> leaves the active seats alone.\<close>

lemma active_seats_update [simp]:
  assumes "map_of (players h) s = Some p" and "in_game p' = in_game p"
  shows "active_seats (h\<lparr>players := AList.update s p' (players h)\<rparr>) = active_seats h"
proof -
  have "active_seats_loop (AList.update s p' ps) order = active_seats_loop ps order"
    if "map_of ps s = Some p" for ps order
  proof (induction order)
    case (Cons x order)
    with that assms(2) show ?case by (cases "x = s") simp_all
  qed simp
  with assms(1) show ?thesis by (simp add: active_seats_def)
qed

section \<open>Fresh records\<close>

text \<open>The records the dataclasses build from their required fields and their defaults.\<close>

definition new_card :: "string \<Rightarrow> string \<Rightarrow> string \<Rightarrow> card_instance" where
  "new_card oid own z =
     \<lparr>object_id = oid, card_ref = oid, oracle_id = oid, printed_name = oid, owner = own,
      controller = own, zone = z, is_token = False, is_commander = False,
      commander_designation_id = None, commander_zone_choice_logical_id = None,
      zone_change_counter = 0, zone_timestamp = 0, world_supertype_timestamp = None,
      has_left_battlefield = False, tapped = False, face_down = False, active_face = None,
      phased_out = False, card_counters = [], marked_damage = 0, deathtouch_damage = False,
      regeneration_shields = 0, temporary_keywords = [], goaded_by = [], monstrous_value = None,
      renowned = False, unearthed = False, card_annotations = [], attached_to = None,
      attachments = [], acquired_control_turn_count = 0, acquired_control_timestamp = 0,
      entered_battlefield_turn_sequence = 0, revealed_to = [], known_to = [], attacking = None,
      blocking = None, battle_protector = None, object_kind = ''card''\<rparr>"

definition new_player :: "string \<Rightarrow> player_state" where
  "new_player s =
     \<lparr>seat = s, player_name = s, life = 40, poison = 0, energy = 0, player_counters = [],
      in_game = True, mana_pool = zero_bundle,
      zones = map (\<lambda>z. (z, []))
        [''library'', ''hand'', ''battlefield'', ''graveyard'', ''exile'', ''command'', ''outside''],
      player_attachments = [], commander_casts = [], commander_damage_received = [],
      turns_begun = 0, last_upkeep_timestamp = 0, land_plays_remaining = 1, max_hand_size = 7,
      mulligans_taken = 0, mulligan_penalty = 0, mulligan_status = ''pending'',
      kept_hand = False, attempted_empty_draw = False, draw_history = [], decision_notes = [],
      rules_seen = [], stats = [], player_yield = default_yield_policy\<rparr>"

definition default_config :: "game_config" where
  "default_config =
     \<lparr>format_name = ''commander'', review_profile = ''commander_review'', profile = ''auto'',
      starting_life = 40, poison_to_lose = 10, commander_damage_to_lose = 21,
      opening_hand_size = 7, free_mulligans = None, first_player_draws_on_turn_one = None,
      auto_untap = True, auto_draw = True, strict_timing = True, strict_mana = True,
      rng_seed = None, hidden_information_mode = ''seat-projected'',
      priority_optimization = ''conservative-yield'',
      auto_resolve_registered_semantics = True, semantic_policy = ''arbitrate_or_pause'',
      auto_pass_empty_priority = True, manual_active_main_phase = False,
      realistic_mulligan_guard = True, max_players = 6, trace_level = ''standard''\<rparr>"

definition new_combat :: "combat_state" where
  "new_combat =
     \<lparr>attackers_declared = False, blockers_declared = False, had_attacking_creature = False,
      attackers = [], attack_target_context = [], defending_players = [], blocker_cursor = 0,
      blockers = [], damage_assignments = [], damage_sequence_id = None, damage_step_index = 0,
      damage_step_initialized = False, first_strike_step = False,
      ordinary_second_damage_combatants = []\<rparr>"

definition new_game :: "string list \<Rightarrow> game_state" where
  "new_game seats =
     \<lparr>game_id = ''game'', config = default_config, players = map (\<lambda>s. (s, new_player s)) seats,
      cards = [], deck_names = [], commander_oracle_ids = [], turn_order = seats,
      current_turn = None, last_normal_turn_player = None,
      commander_damage_identity_version = None, control_history_version = None,
      extra_turns = [], active_player = None, priority_player = None, priority_passes = [],
      priority_epoch = 0, turn_sequence = 0, phase_index = 0, game_phase = ''setup'',
      game_step = ''mulligan'', stack_items = [], delayed_triggers = [],
      damage_prevention_shields = [], damage_redirections = [], continuous_effects = Some [],
      game_turn_history =
        Some \<lparr>history_version = 1, history_turn_sequence = 0, history_events = []\<rparr>,
      monarch = None, pending_trigger_batches = [], combat = new_combat, events = [],
      game_annotations = [], action_opportunities = [], opportunity_sequence = 0,
      timestamp_sequence = 0, pending_decision = None, capabilities = [], game_started = False,
      game_over = False, winner = None, game_draw = False, eliminated_players = [],
      revision = 0, event_sequence = 0, state_version = 3, mulligan_round = 0,
      ref_counters = []\<rparr>"

theorem player_init_canonical_witness:
  "\<exists>q. player_init ((new_player ''A'')\<lparr>player_counters := [('' Rad  Counter'', 2), (''ticket'', 0)]\<rparr>)
       = Inr q
     \<and> player_counters q = [(''rad counter'', 2)] \<and> player_init q = Inr q"
proof -
  let ?p = "(new_player ''A'')\<lparr>player_counters := [('' Rad  Counter'', 2), (''ticket'', 0)]\<rparr>"
  have "player_init ?p = Inr (?p\<lparr>player_counters := [(''rad counter'', 2)]\<rparr>)" by code_simp
  from player_init_canonical [OF this] this show ?thesis by auto
qed

text \<open>
  The profile rules follow the player count: a game of three or more players always lets the
  first player draw, and without an explicit setting a two-player game is a duel without a free
  mulligan and every other game a multiplayer game with one.
\<close>

theorem profile_follows_player_count:
  "effective_first_player_draws (c\<lparr>first_player_draws_on_turn_one := d\<rparr>) n
     = (3 \<le> n \<or> d = Some True)
   \<and> effective_free_mulligans (c\<lparr>profile := ''auto'', free_mulligans := None\<rparr>) n
     = (if n = 2 then 0 else 1)
   \<and> effective_free_mulligans (c\<lparr>free_mulligans := Some k\<rparr>) n = k"
  by (auto simp: effective_first_player_draws_def effective_free_mulligans_def
      effective_profile_def split: option.splits)

theorem card_init_settles_witness:
  "\<exists>d. card_init ((new_card ''c'' ''A'' ''hand'')\<lparr>is_token := True\<rparr>) = Inr d \<and> card_ok d
     \<and> card_init d = Inr d"
proof -
  have "card_init ((new_card ''c'' ''A'' ''hand'')\<lparr>is_token := True\<rparr>)
      = Inr ((new_card ''c'' ''A'' ''hand'')\<lparr>is_token := True, object_kind := ''token''\<rparr>)"
    by code_simp
  with card_init_settles [of "(new_card ''c'' ''A'' ''hand'')\<lparr>is_token := True\<rparr>"] show ?thesis
    by blast
qed

end
