(* ===== verification/Life_State.thy ===== *)
theory Life_State imports Game_Model State_Planner
begin

text \<open>
  Life totals (\<open>quorune/life_state.py\<close>): the life adapter of the shadow-state planner, batches
  of simultaneous life changes and the nonreplaceable life payments of CR 119.4.  The host is the
  whole game state.  Plans hold typed transitions, so the \<open>isinstance\<close> checks on them are left
  out.
\<close>

section \<open>Changes, transitions and the adapter\<close>

datatype life_error =
    ChangeWithoutPlayer
  | PlayerNotActive
  | BadLifeArithmetic
  | LifePlanStale
  | LifePlanChanged
  | PaymentWithoutPlayer
  | NegativePayment
  | CannotPayLife
  | NotOneTransition
  | PaymentMismatch
  | LifeKeyError string
  | LifeModelError model_error

record life_change =
  change_player :: string
  change_amount :: int

definition life_change_init :: "string \<Rightarrow> int \<Rightarrow> life_error + life_change" where
  "life_change_init player amount =
     (if player = [] then Inl ChangeWithoutPlayer
      else Inr \<lparr>change_player = player, change_amount = amount\<rparr>)"

record life_transition =
  trans_player :: string
  requested_delta :: int
  life_before :: int
  life_after :: int

record prepared_life_payment =
  payment_player :: string
  payment_amount :: int
  payment_plan :: "life_transition list"

definition payment_init ::
  "string \<Rightarrow> int \<Rightarrow> life_transition list \<Rightarrow> life_error + prepared_life_payment" where
  "payment_init player amount plan =
     ebind (ensure (player \<noteq> []) PaymentWithoutPlayer) (\<lambda>_.
     ebind (ensure (0 \<le> amount) NegativePayment) (\<lambda>_.
     Inr \<lparr>payment_player = player, payment_amount = amount, payment_plan = plan\<rparr>))"

definition changed_life_players :: "life_transition list \<Rightarrow> string list" where
  "changed_life_players plan =
     sorted_unique (map trans_player (filter (\<lambda>t. life_before t \<noteq> life_after t) plan))"

definition current_life :: "game_state \<Rightarrow> string \<Rightarrow> life_error + int" where
  "current_life host player =
     (case map_of (players host) player of
        None \<Rightarrow> Inl PlayerNotActive
      | Some p \<Rightarrow>
          ebind (reraise LifeModelError (active_seats host)) (\<lambda>seats.
          if player \<in> set seats then Inr (life p) else Inl PlayerNotActive))"

definition validate_life_transition :: "life_transition \<Rightarrow> life_error + unit" where
  "validate_life_transition t =
     ensure (life_after t = life_before t + requested_delta t) BadLifeArithmetic"

definition apply_final_life :: "game_state \<Rightarrow> life_transition \<Rightarrow> life_error + game_state" where
  "apply_final_life host t =
     (case map_of (players host) (trans_player t) of
        None \<Rightarrow> Inl (LifeKeyError (trans_player t))
      | Some p \<Rightarrow>
          Inr (host\<lparr>players :=
                 AList.update (trans_player t) (p\<lparr>life := life_after t\<rparr>) (players host)\<rparr>))"

definition life_adapter ::
  "(game_state, life_change, life_transition, string, life_error) adapter" where
  "life_adapter =
     \<lparr>validate_change = (\<lambda>change. Inr ()),
      change_key = change_player,
      current_value = (\<lambda>host change. current_life host (change_player change)),
      next_value = (\<lambda>before change. before + change_amount change),
      transition = (\<lambda>change before after.
        \<lparr>trans_player = change_player change, requested_delta = change_amount change,
         life_before = before, life_after = after\<rparr>),
      change_from_transition = (\<lambda>t. life_change_init (trans_player t) (requested_delta t)),
      transition_before = life_before,
      transition_after = life_after,
      validate_transition = validate_life_transition,
      apply_final = apply_final_life\<rparr>"

fun life_planner_error :: "life_error planner_error \<Rightarrow> life_error" where
  "life_planner_error PlanStale = LifePlanStale"
| "life_planner_error PlanChanged = LifePlanChanged"
| "life_planner_error (AdapterError e) = e"

section \<open>Operations\<close>

definition plan_life_changes ::
  "game_state \<Rightarrow> life_change list \<Rightarrow> life_error + life_transition list" where
  "plan_life_changes host changes = plan_state_changes life_adapter host changes"

definition validate_life_changes ::
  "game_state \<Rightarrow> life_transition list \<Rightarrow> life_error + unit" where
  "validate_life_changes host plan =
     reraise life_planner_error (validate_state_plan life_adapter host plan)"

definition apply_life_changes ::
  "game_state \<Rightarrow> life_transition list \<Rightarrow> life_error + game_state \<times> life_transition list" where
  "apply_life_changes host plan = apply_state_plan life_adapter host plan"

definition commit_life_changes ::
  "game_state \<Rightarrow> life_transition list \<Rightarrow> life_error + game_state \<times> life_transition list" where
  "commit_life_changes host plan =
     reraise life_planner_error (commit_state_plan life_adapter host plan)"

definition prepare_life_payment ::
  "game_state \<Rightarrow> string \<Rightarrow> int \<Rightarrow> life_error + prepared_life_payment" where
  "prepare_life_payment host player amount =
     ebind (ensure (0 \<le> amount) NegativePayment) (\<lambda>_.
     ebind (current_life host player) (\<lambda>current.
     ebind (ensure (amount \<le> current) CannotPayLife) (\<lambda>_.
     ebind (life_change_init player (- amount)) (\<lambda>change.
     ebind (plan_life_changes host [change]) (\<lambda>plan.
     payment_init player amount plan)))))"

definition validate_life_payment :: "game_state \<Rightarrow> prepared_life_payment \<Rightarrow> life_error + unit" where
  "validate_life_payment host prepared =
     (case payment_plan prepared of
        [t] \<Rightarrow>
          if trans_player t \<noteq> payment_player prepared
             \<or> requested_delta t \<noteq> - payment_amount prepared
             \<or> life_before t < payment_amount prepared
          then Inl PaymentMismatch
          else validate_life_changes host (payment_plan prepared)
      | _ \<Rightarrow> Inl NotOneTransition)"

definition commit_life_payment ::
  "game_state \<Rightarrow> prepared_life_payment \<Rightarrow> life_error + game_state \<times> life_transition" where
  "commit_life_payment host prepared =
     ebind (validate_life_payment host prepared) (\<lambda>_.
     ebind (apply_life_changes host (payment_plan prepared)) (\<lambda>(host', transitions).
     Inr (host', transitions ! 0)))"

definition pay_life_cost ::
  "game_state \<Rightarrow> string \<Rightarrow> int \<Rightarrow> life_error + game_state \<times> life_transition" where
  "pay_life_cost host player amount =
     ebind (prepare_life_payment host player amount) (commit_life_payment host)"

section \<open>The adapter satisfies the planner's laws\<close>

lemma life_adapter_simps [simp]:
  "validate_change life_adapter c = Inr ()"
  "change_key life_adapter c = change_player c"
  "current_value life_adapter h c = current_life h (change_player c)"
  "next_value life_adapter b c = b + change_amount c"
  "transition life_adapter c b a = \<lparr>trans_player = change_player c,
     requested_delta = change_amount c, life_before = b, life_after = a\<rparr>"
  "change_from_transition life_adapter t = life_change_init (trans_player t) (requested_delta t)"
  "transition_before life_adapter t = life_before t"
  "transition_after life_adapter t = life_after t"
  "validate_transition life_adapter t = validate_life_transition t"
  "apply_final life_adapter h t = apply_final_life h t"
  by (simp_all add: life_adapter_def)

lemma current_life_eq:
  "current_life h s = Inr v \<longleftrightarrow>
     (\<exists>p seats. map_of (players h) s = Some p \<and> active_seats h = Inr seats \<and> s \<in> set seats
        \<and> life p = v)"
  by (auto simp: current_life_def ebind_eq_Inr split: option.splits if_splits)

lemma apply_final_life_other:
  assumes "apply_final_life h t = Inr h'" and "s \<noteq> trans_player t"
  shows "current_life h' s = current_life h s" and "map_of (players h') s = map_of (players h) s"
proof -
  from assms(1) obtain p where p: "map_of (players h) (trans_player t) = Some p"
    and h': "h' = h\<lparr>players := AList.update (trans_player t) (p\<lparr>life := life_after t\<rparr>) (players h)\<rparr>"
    by (auto simp: apply_final_life_def split: option.splits)
  have "active_seats h' = active_seats h" unfolding h' by (rule active_seats_update [OF p]) simp
  with assms(2) show "current_life h' s = current_life h s"
    by (cases "map_of (players h) s") (simp_all add: current_life_def h')
  show "map_of (players h') s = map_of (players h) s" using assms(2) by (simp add: h')
qed

lemma apply_final_life_same:
  assumes "current_life h (trans_player t) = Inr v"
  shows "\<exists>h'. apply_final_life h t = Inr h' \<and> current_life h' (trans_player t) = Inr (life_after t)"
proof -
  from assms obtain p seats where p: "map_of (players h) (trans_player t) = Some p"
    and seats: "active_seats h = Inr seats" "trans_player t \<in> set seats"
    by (auto simp: current_life_eq)
  define h' where
    "h' = h\<lparr>players := AList.update (trans_player t) (p\<lparr>life := life_after t\<rparr>) (players h)\<rparr>"
  have "active_seats h' = active_seats h" unfolding h'_def by (rule active_seats_update [OF p]) simp
  with seats have "current_life h' (trans_player t) = Inr (life_after t)"
    by (simp add: current_life_eq h'_def)
  moreover have "apply_final_life h t = Inr h'" by (simp add: apply_final_life_def p h'_def)
  ultimately show ?thesis by blast
qed

interpretation life: state_adapter life_adapter "\<lambda>c. change_player c \<noteq> []"
proof unfold_locales
  fix c c' :: life_change and h h' :: game_state and v v' b a :: int
  show "validate_change life_adapter c = Inr ()" by simp
  show "transition_before life_adapter (transition life_adapter c b a) = b"
    "transition_after life_adapter (transition life_adapter c b a) = a"
    by simp_all
  show "validate_transition life_adapter (transition life_adapter c b (next_value life_adapter b c)) = Inr ()"
    by (simp add: validate_life_transition_def)
  show "change_from_transition life_adapter (transition life_adapter c b a) = Inr c"
    if "change_player c \<noteq> []"
    using that by (simp add: life_change_init_def)
  show "v = v'" if "change_key life_adapter c = change_key life_adapter c'"
    "current_value life_adapter h c = Inr v" "current_value life_adapter h c' = Inr v'"
    using that by simp
  show "\<exists>h'. apply_final life_adapter h (transition life_adapter c b (next_value life_adapter b c)) = Inr h'
      \<and> current_value life_adapter h' c' = Inr (next_value life_adapter b c)"
    if "change_key life_adapter c' = change_key life_adapter c"
      "current_value life_adapter h c' = Inr v"
    using apply_final_life_same [of h "transition life_adapter c b (next_value life_adapter b c)" v] that
    by simp
  show "current_value life_adapter h' c' = current_value life_adapter h c'"
    if "change_key life_adapter c' \<noteq> change_key life_adapter c"
      "apply_final life_adapter h (transition life_adapter c b (next_value life_adapter b c)) = Inr h'"
    using apply_final_life_other(1) [of h "transition life_adapter c b (next_value life_adapter b c)" h'] that
    by simp
qed

lemma life_run_key:
  "life.run_key s v cs = v + sum_list (map change_amount (filter (\<lambda>c. change_player c = s) cs))"
  by (induction cs arbitrary: v) simp_all

section \<open>Batches of life changes\<close>

text \<open>What a write of life totals may touch: only the life of the named players.\<close>

definition only_lives :: "string set \<Rightarrow> game_state \<Rightarrow> game_state \<Rightarrow> bool" where
  "only_lives S h h' \<longleftrightarrow> h'\<lparr>players := players h\<rparr> = h
     \<and> (\<forall>s. map_option (\<lambda>p. p\<lparr>life := 0\<rparr>) (map_of (players h') s)
           = map_option (\<lambda>p. p\<lparr>life := 0\<rparr>) (map_of (players h) s))
     \<and> (\<forall>s. s \<notin> S \<longrightarrow> map_of (players h') s = map_of (players h) s)"

lemma only_lives_refl: "only_lives S h h"
  by (simp add: only_lives_def)

lemma only_lives_apply:
  assumes "only_lives S h0 h" and "apply_final_life h t = Inr h'" and "trans_player t \<in> S"
  shows "only_lives S h0 h'"
proof -
  from assms(2) obtain p where p: "map_of (players h) (trans_player t) = Some p"
    and h': "h' = h\<lparr>players := AList.update (trans_player t) (p\<lparr>life := life_after t\<rparr>) (players h)\<rparr>"
    by (auto simp: apply_final_life_def split: option.splits)
  have "map_option (\<lambda>p. p\<lparr>life := 0\<rparr>) (map_of (players h') s)
      = map_option (\<lambda>p. p\<lparr>life := 0\<rparr>) (map_of (players h) s)" for s
    using p by (simp add: h')
  with assms(1,3) show ?thesis by (auto simp: only_lives_def h')
qed

lemma life_frame:
  assumes "apply_life_changes h ts = Inr (h', ts')"
  shows "only_lives (set (map trans_player ts)) h h'"
proof -
  from assms obtain final where final: "efold (final_step life_adapter) [] ts = Inr final"
    and stored: "efold (\<lambda>h entry. apply_final_life h (snd entry)) h final = Inr h'"
    by (auto simp: apply_life_changes_def apply_state_plan_def ebind_eq_Inr)
  have "snd ` set final \<subseteq> set ts" by (rule life.final_from_plan [OF final])
  then show ?thesis
    using efold_invariant [where P = "only_lives (set (map trans_player ts)) h", OF stored
        only_lives_refl] only_lives_apply
    by fastforce
qed

lemma life_plan_players:
  assumes "plan_life_changes h cs = Inr ts" and "\<forall>c \<in> set cs. change_player c \<noteq> []"
  shows "set (map trans_player ts) = change_player ` set cs"
proof -
  have "list_all2 (\<lambda>c t. \<exists>b. t = transition life_adapter c b (next_value life_adapter b c)) cs ts"
    using life.plan_transitions assms by (auto simp: plan_life_changes_def plan_state_changes_def)
  then have "list_all2 (\<lambda>c t. trans_player t = change_player c) cs ts"
    by (rule list_all2_mono) auto
  then have "map trans_player ts = map change_player cs"
    by (induction rule: list_all2_induct) simp_all
  then show ?thesis by (metis set_map)
qed

text \<open>
  C37. A planned batch of life changes commits in the state it was planned in: every active
  player's life moves by exactly the sum of its own changes, players the batch does not name keep
  their whole state, and nothing but life totals changes.
\<close>

theorem life_batch_adds_up:
  assumes "plan_life_changes h cs = Inr ts" and "\<forall>c \<in> set cs. change_player c \<noteq> []"
  shows "\<exists>h'. commit_life_changes h ts = Inr (h', ts)
    \<and> (\<forall>s v. current_life h s = Inr v \<longrightarrow> current_life h' s
          = Inr (v + sum_list (map change_amount (filter (\<lambda>c. change_player c = s) cs))))
    \<and> only_lives (change_player ` set cs) h h'"
proof -
  obtain h' where commit: "commit_state_plan life_adapter h ts = Inr (h', ts)"
    and vals: "\<And>c v. current_value life_adapter h c = Inr v \<Longrightarrow>
      current_value life_adapter h' c = Inr (life.run_key (change_key life_adapter c) v cs)"
    using life.commit_plan [OF assms(1) [unfolded plan_life_changes_def] assms(2)] by blast
  have "apply_life_changes h ts = Inr (h', ts)"
    using commit by (auto simp: commit_state_plan_def apply_life_changes_def ebind_eq_Inr)
  from life_frame [OF this] have "only_lives (change_player ` set cs) h h'"
    unfolding life_plan_players [OF assms] .
  moreover have "current_life h' s
      = Inr (v + sum_list (map change_amount (filter (\<lambda>c. change_player c = s) cs)))"
    if "current_life h s = Inr v" for s v
    using vals [of "\<lparr>change_player = s, change_amount = 0\<rparr>" v] that by (simp add: life_run_key)
  ultimately show ?thesis using commit by (auto simp: commit_life_changes_def)
qed

text \<open>
  A life plan is refused, with nothing written, once the life of a player it names has moved
  since planning.
\<close>

theorem stale_life_plan_refused:
  assumes "plan_life_changes h cs = Inr ts" and "\<forall>c \<in> set cs. change_player c \<noteq> []"
    and "s \<in> change_player ` set cs" and "current_life h2 s \<noteq> current_life h s"
  shows "\<exists>e. commit_life_changes h2 ts = Inl e"
proof -
  from assms(3) obtain ds c es where cs: "cs = ds @ c # es" and c: "change_player c = s"
    and first: "\<forall>d \<in> set ds. change_player d \<noteq> s"
    using split_list_first_prop [of cs "\<lambda>c. change_player c = s"] by blast
  have "\<exists>e. commit_state_plan life_adapter h2 ts = Inl e"
  proof (rule life.stale_plan_refused)
    show "plan_state_changes life_adapter h (ds @ c # es) = Inr ts"
      using assms(1) by (simp add: plan_life_changes_def cs)
  qed (use assms(2,4) c first cs in simp_all)
  then show ?thesis by (auto simp: commit_life_changes_def)
qed

section \<open>Life payments\<close>

lemma prepare_payment_eq:
  "prepare_life_payment h s n = Inr prepared \<longleftrightarrow>
     s \<noteq> [] \<and> 0 \<le> n \<and> (\<exists>v. current_life h s = Inr v \<and> n \<le> v
       \<and> prepared = \<lparr>payment_player = s, payment_amount = n,
           payment_plan = [\<lparr>trans_player = s, requested_delta = - n, life_before = v,
             life_after = v - n\<rparr>]\<rparr>)"
  by (auto simp: prepare_life_payment_def ebind_eq_Inr life_change_init_def payment_init_def
      plan_life_changes_def plan_state_changes_def validate_life_transition_def)

lemma commit_payment_eq:
  assumes "s \<noteq> []"
  shows "commit_life_payment h \<lparr>payment_player = s, payment_amount = n,
      payment_plan = [\<lparr>trans_player = s, requested_delta = - n, life_before = v,
        life_after = v - n\<rparr>]\<rparr> = Inr (h', t) \<longleftrightarrow>
    n \<le> v \<and> current_life h s = Inr v
      \<and> t = \<lparr>trans_player = s, requested_delta = - n, life_before = v, life_after = v - n\<rparr>
      \<and> apply_final_life h t = Inr h'"
  using assms
  by (auto simp: commit_life_payment_def validate_life_payment_def validate_life_changes_def
      validate_state_plan_def validate_life_transition_def life_change_init_def
      recheck_initial_def apply_life_changes_def apply_state_plan_def final_step_def
      ebind_eq_Inr split: if_splits)

text \<open>
  A life payment is all or nothing and never pays more than there is: paying succeeds exactly
  for an active player with at least that much life and a nonnegative amount, and then that
  player's life falls by exactly the amount, stays nonnegative, and nothing else changes.
\<close>

theorem life_payment_exact:
  "case pay_life_cost h s n of
     Inl e \<Rightarrow> s = [] \<or> n < 0 \<or> (case current_life h s of Inl _ \<Rightarrow> True | Inr v \<Rightarrow> v < n)
   | Inr (h', t) \<Rightarrow> s \<noteq> [] \<and> 0 \<le> n
       \<and> (\<exists>v. current_life h s = Inr v \<and> n \<le> v \<and> current_life h' s = Inr (v - n))
       \<and> only_lives {s} h h'"
proof (cases "s \<noteq> [] \<and> 0 \<le> n \<and> (\<exists>v. current_life h s = Inr v \<and> n \<le> v)")
  case True
  then obtain v where v: "current_life h s = Inr v" "n \<le> v" and s: "s \<noteq> []" by blast
  let ?t = "\<lparr>trans_player = s, requested_delta = - n, life_before = v, life_after = v - n\<rparr>"
  from v obtain h' where h': "apply_final_life h ?t = Inr h'"
    and after: "current_life h' s = Inr (v - n)"
    using apply_final_life_same [of h ?t v] by auto
  have "pay_life_cost h s n = Inr (h', ?t)"
    using True v h' commit_payment_eq [OF s, of h n v h' ?t]
    by (auto simp: pay_life_cost_def ebind_eq_Inr prepare_payment_eq)
  moreover have "only_lives {s} h h'"
    by (rule only_lives_apply [OF only_lives_refl h']) simp
  ultimately show ?thesis using True v after by auto
next
  case False
  have "pay_life_cost h s n \<noteq> Inr r" for r
    using False by (auto simp: pay_life_cost_def ebind_eq_Inr prepare_payment_eq)
  with False show ?thesis by (cases "pay_life_cost h s n") (auto split: sum.splits)
qed

text \<open>
  A prepared payment is pinned to the life it was prepared against: in any later state it
  commits exactly when the player is still active with that same life.
\<close>

theorem prepared_payment_pinned:
  assumes "prepare_life_payment h s n = Inr prepared"
  shows "(\<exists>r. commit_life_payment h2 prepared = Inr r) = (current_life h2 s = current_life h s)"
proof -
  from assms obtain v where s: "s \<noteq> []" and v: "current_life h s = Inr v" "n \<le> v"
    and p: "prepared = \<lparr>payment_player = s, payment_amount = n,
      payment_plan = [\<lparr>trans_player = s, requested_delta = - n, life_before = v,
        life_after = v - n\<rparr>]\<rparr>"
    by (auto simp: prepare_payment_eq)
  show ?thesis
    using commit_payment_eq [OF s, of h2 n v] v
      apply_final_life_same [of h2 "\<lparr>trans_player = s, requested_delta = - n, life_before = v,
        life_after = v - n\<rparr>" v]
    by (auto simp: p)
qed

section \<open>Concrete games\<close>

lemma sample_life_plan:
  "plan_life_changes (new_game [''A'', ''B''])
     [\<lparr>change_player = ''A'', change_amount = -3\<rparr>, \<lparr>change_player = ''B'', change_amount = 2\<rparr>,
      \<lparr>change_player = ''A'', change_amount = 1\<rparr>]
   = Inr [\<lparr>trans_player = ''A'', requested_delta = -3, life_before = 40, life_after = 37\<rparr>,
          \<lparr>trans_player = ''B'', requested_delta = 2, life_before = 40, life_after = 42\<rparr>,
          \<lparr>trans_player = ''A'', requested_delta = 1, life_before = 37, life_after = 38\<rparr>]"
  by code_simp

theorem life_batch_adds_up_witness:
  "\<exists>ts h'. plan_life_changes (new_game [''A'', ''B''])
       [\<lparr>change_player = ''A'', change_amount = -3\<rparr>, \<lparr>change_player = ''B'', change_amount = 2\<rparr>,
        \<lparr>change_player = ''A'', change_amount = 1\<rparr>] = Inr ts
     \<and> commit_life_changes (new_game [''A'', ''B'']) ts = Inr (h', ts)
     \<and> current_life h' ''A'' = Inr 38"
proof -
  have "current_life (new_game [''A'', ''B'']) ''A'' = Inr 40" by code_simp
  with life_batch_adds_up [OF sample_life_plan] sample_life_plan show ?thesis by fastforce
qed

theorem stale_life_plan_refused_witness:
  "\<exists>e. commit_life_changes ((new_game [''A'', ''B''])\<lparr>players :=
         [(''A'', (new_player ''A'')\<lparr>life := 39\<rparr>), (''B'', new_player ''B'')]\<rparr>)
       [\<lparr>trans_player = ''A'', requested_delta = -3, life_before = 40, life_after = 37\<rparr>,
        \<lparr>trans_player = ''B'', requested_delta = 2, life_before = 40, life_after = 42\<rparr>,
        \<lparr>trans_player = ''A'', requested_delta = 1, life_before = 37, life_after = 38\<rparr>] = Inl e"
proof (rule stale_life_plan_refused [OF sample_life_plan, of "''A''"])
  show "current_life ((new_game [''A'', ''B''])\<lparr>players :=
         [(''A'', (new_player ''A'')\<lparr>life := 39\<rparr>), (''B'', new_player ''B'')]\<rparr>) ''A''
      \<noteq> current_life (new_game [''A'', ''B'']) ''A''"
    by code_simp
qed simp_all

theorem life_payment_exact_witness:
  "case pay_life_cost (new_game [''A'', ''B'']) ''A'' 7 of
     Inl e \<Rightarrow> False
   | Inr (h', t) \<Rightarrow> current_life h' ''A'' = Inr 33 \<and> only_lives {''A''} (new_game [''A'', ''B'']) h'"
proof -
  have life: "current_life (new_game [''A'', ''B'']) ''A'' = Inr 40" by code_simp
  show ?thesis
    using life_payment_exact [where h = "new_game [''A'', ''B'']" and s = "''A''" and n = 7] life
    by (simp split: sum.splits prod.splits)
qed

theorem prepared_payment_pinned_witness:
  "\<exists>prepared. prepare_life_payment (new_game [''A'', ''B'']) ''B'' 5 = Inr prepared
     \<and> (\<exists>r. commit_life_payment (new_game [''A'', ''B'']) prepared = Inr r)"
proof -
  have "current_life (new_game [''A'', ''B'']) ''B'' = Inr 40" by code_simp
  then obtain prepared where "prepare_life_payment (new_game [''A'', ''B'']) ''B'' 5 = Inr prepared"
    by (auto simp: prepare_payment_eq)
  with prepared_payment_pinned [OF this] show ?thesis by auto
qed

end
