(* ===== verification/Counter_State.thy ===== *)
theory Counter_State imports Game_Model State_Planner
begin

text \<open>
  Counters on players and permanents (\<open>quorune/counter_names.py\<close>, \<open>quorune/counter_state.py\<close>):
  canonical counter names, checked changes, the counter adapter of the shadow-state planner and
  the commit of a batch.  Poison and energy are fields of the player, every other player counter
  lives in the generic dictionary.  The subject kind is a two-valued type, so the check of its
  spelling is left out.
\<close>

section \<open>Names, changes and transitions\<close>

datatype counter_error =
    NoCounterName
  | NoSubject
  | PlayerWithIdentity
  | NoSuchPlayer
  | NoSuchPermanent
  | LegacyDuplicated
  | NegativeCounter
  | NamesNotUnique
  | ZoneChanged
  | IdentityChanged
  | BadCounterArithmetic
  | BadAppliedDelta
  | CounterPlanStale
  | CounterPlanChanged
  | CounterKeyError string

definition normalized_counter_name :: "string \<Rightarrow> counter_error + string" where
  "normalized_counter_name value =
     (let result = folded_words value in if result = [] then Inl NoCounterName else Inr result)"

datatype subject_kind = PlayerSubject | PermanentSubject

record counter_change =
  subject_kind :: subject_kind
  subject_id :: string
  counter_name :: string
  counter_amount :: int
  expected_zone :: "string option"
  expected_logical_object_id :: "string option"

definition counter_change_init :: "counter_change \<Rightarrow> counter_error + counter_change" where
  "counter_change_init c =
     ebind (ensure (subject_id c \<noteq> []) NoSubject) (\<lambda>_.
     ebind (normalized_counter_name (counter_name c)) (\<lambda>name.
     ebind (ensure (\<not> (subject_kind c = PlayerSubject
                      \<and> (expected_zone c \<noteq> None \<or> expected_logical_object_id c \<noteq> None)))
              PlayerWithIdentity) (\<lambda>_.
     Inr (c\<lparr>counter_name := name\<rparr>))))"

record counter_transition =
  trans_kind :: subject_kind
  trans_subject :: string
  trans_name :: string
  counter_requested :: int
  applied_delta :: int
  counter_before :: int
  counter_after :: int
  trans_zone :: "string option"
  trans_logical_id :: "string option"

definition changed_counter_players :: "counter_transition list \<Rightarrow> string list" where
  "changed_counter_players plan =
     sorted_unique (map trans_subject
       (filter (\<lambda>t. trans_kind t = PlayerSubject \<and> applied_delta t \<noteq> 0) plan))"

definition changed_counter_objects :: "counter_transition list \<Rightarrow> string list" where
  "changed_counter_objects plan =
     sorted_unique (map trans_subject
       (filter (\<lambda>t. trans_kind t = PermanentSubject \<and> applied_delta t \<noteq> 0) plan))"

section \<open>Reading counters\<close>

definition snapshot_entry ::
  "(string, int) dict \<Rightarrow> string \<times> int \<Rightarrow> counter_error + (string, int) dict" where
  "snapshot_entry result entry =
     ebind (normalized_counter_name (fst entry)) (\<lambda>name.
     ebind (ensure (name \<noteq> ''energy'' \<and> name \<noteq> ''poison'') LegacyDuplicated) (\<lambda>_.
     ebind (ensure (0 \<le> snd entry) NegativeCounter) (\<lambda>_.
     if snd entry = 0 then Inr result
     else if map_of result name \<noteq> None then Inl NamesNotUnique
     else Inr (AList.update name (snd entry) result))))"

definition player_counter_snapshot :: "player_state \<Rightarrow> counter_error + (string, int) dict" where
  "player_counter_snapshot p =
     ebind (efold snapshot_entry
              ((if 0 < energy p then [(''energy'', energy p)] else [])
               @ (if 0 < poison p then [(''poison'', poison p)] else []))
              (player_counters p))
       (\<lambda>result. Inr (sort_key fst result))"

definition player_counter_value :: "game_state \<Rightarrow> string \<Rightarrow> string \<Rightarrow> counter_error + int" where
  "player_counter_value host s name =
     (case map_of (players host) s of
        None \<Rightarrow> Inl NoSuchPlayer
      | Some p \<Rightarrow>
          let value = (if name = ''energy'' then energy p
                       else if name = ''poison'' then poison p
                       else dict_get 0 (player_counters p) name)
          in if value < 0 then Inl NegativeCounter else Inr value)"

definition permanent_counter_value :: "game_state \<Rightarrow> counter_change \<Rightarrow> counter_error + int" where
  "permanent_counter_value host change =
     (case map_of (cards host) (subject_id change) of
        None \<Rightarrow> Inl NoSuchPermanent
      | Some c \<Rightarrow>
          if expected_zone change \<noteq> None \<and> Some (zone c) \<noteq> expected_zone change
          then Inl ZoneChanged
          else if expected_logical_object_id change \<noteq> None
                  \<and> Some (logical_object_id c) \<noteq> expected_logical_object_id change
          then Inl IdentityChanged
          else let value = dict_get 0 (card_counters c) (counter_name change)
               in if value < 0 then Inl NegativeCounter else Inr value)"

definition current_counter :: "game_state \<Rightarrow> counter_change \<Rightarrow> counter_error + int" where
  "current_counter host change =
     (case subject_kind change of
        PlayerSubject \<Rightarrow> player_counter_value host (subject_id change) (counter_name change)
      | PermanentSubject \<Rightarrow> permanent_counter_value host change)"

section \<open>The adapter\<close>

definition counter_transition_of :: "counter_change \<Rightarrow> int \<Rightarrow> int \<Rightarrow> counter_transition" where
  "counter_transition_of change before after =
     \<lparr>trans_kind = subject_kind change, trans_subject = subject_id change,
      trans_name = counter_name change, counter_requested = counter_amount change,
      applied_delta = after - before, counter_before = before, counter_after = after,
      trans_zone = expected_zone change, trans_logical_id = expected_logical_object_id change\<rparr>"

definition transition_as_change :: "counter_transition \<Rightarrow> counter_error + counter_change" where
  "transition_as_change t =
     counter_change_init
       \<lparr>subject_kind = trans_kind t, subject_id = trans_subject t, counter_name = trans_name t,
        counter_amount = counter_requested t, expected_zone = trans_zone t,
        expected_logical_object_id = trans_logical_id t\<rparr>"

definition validate_counter_transition :: "counter_transition \<Rightarrow> counter_error + unit" where
  "validate_counter_transition t =
     ebind (ensure (counter_after t = max 0 (counter_before t + counter_requested t))
              BadCounterArithmetic) (\<lambda>_.
     ensure (applied_delta t = counter_after t - counter_before t) BadAppliedDelta)"

definition write_counter :: "string \<Rightarrow> int \<Rightarrow> (string, int) dict \<Rightarrow> (string, int) dict" where
  "write_counter name value d = (if value \<noteq> 0 then AList.update name value d else AList.delete name d)"

definition write_player_counter :: "string \<Rightarrow> int \<Rightarrow> player_state \<Rightarrow> player_state" where
  "write_player_counter name value p =
     (if name = ''energy'' then p\<lparr>energy := value\<rparr>
      else if name = ''poison'' then p\<lparr>poison := value\<rparr>
      else p\<lparr>player_counters := write_counter name value (player_counters p)\<rparr>)"

definition apply_final_counter :: "game_state \<Rightarrow> counter_transition \<Rightarrow> counter_error + game_state" where
  "apply_final_counter host t =
     (case trans_kind t of
        PlayerSubject \<Rightarrow>
          ebind (option_raise (CounterKeyError (trans_subject t)) (map_of (players host) (trans_subject t)))
            (\<lambda>p. Inr (host\<lparr>players := AList.update (trans_subject t)
               (write_player_counter (trans_name t) (counter_after t) p) (players host)\<rparr>))
      | PermanentSubject \<Rightarrow>
          ebind (option_raise (CounterKeyError (trans_subject t)) (map_of (cards host) (trans_subject t)))
            (\<lambda>c. Inr (host\<lparr>cards := AList.update (trans_subject t)
               (c\<lparr>card_counters := write_counter (trans_name t) (counter_after t) (card_counters c)\<rparr>)
               (cards host)\<rparr>)))"

definition counter_adapter ::
  "(game_state, counter_change, counter_transition, subject_kind \<times> string \<times> string, counter_error) adapter" where
  "counter_adapter =
     \<lparr>validate_change = (\<lambda>change. Inr ()),
      change_key = (\<lambda>change. (subject_kind change, subject_id change, counter_name change)),
      current_value = current_counter,
      next_value = (\<lambda>before change. max 0 (before + counter_amount change)),
      transition = counter_transition_of,
      change_from_transition = transition_as_change,
      transition_before = counter_before,
      transition_after = counter_after,
      validate_transition = validate_counter_transition,
      apply_final = apply_final_counter\<rparr>"

fun counter_planner_error :: "counter_error planner_error \<Rightarrow> counter_error" where
  "counter_planner_error PlanStale = CounterPlanStale"
| "counter_planner_error PlanChanged = CounterPlanChanged"
| "counter_planner_error (AdapterError e) = e"

section \<open>Operations\<close>

definition plan_counter_changes ::
  "game_state \<Rightarrow> counter_change list \<Rightarrow> counter_error + counter_transition list" where
  "plan_counter_changes host changes = plan_state_changes counter_adapter host changes"

definition validate_counter_changes ::
  "game_state \<Rightarrow> counter_transition list \<Rightarrow> counter_error + unit" where
  "validate_counter_changes host plan =
     reraise counter_planner_error (validate_state_plan counter_adapter host plan)"

definition apply_counter_changes ::
  "game_state \<Rightarrow> counter_transition list \<Rightarrow> counter_error + game_state \<times> counter_transition list" where
  "apply_counter_changes host plan = apply_state_plan counter_adapter host plan"

definition commit_counter_changes ::
  "game_state \<Rightarrow> counter_transition list \<Rightarrow> counter_error + game_state \<times> counter_transition list" where
  "commit_counter_changes host plan =
     reraise counter_planner_error (commit_state_plan counter_adapter host plan)"

section \<open>The adapter satisfies the planner's laws\<close>

lemma counter_adapter_simps [simp]:
  "validate_change counter_adapter c = Inr ()"
  "change_key counter_adapter c = (subject_kind c, subject_id c, counter_name c)"
  "current_value counter_adapter h c = current_counter h c"
  "next_value counter_adapter b c = max 0 (b + counter_amount c)"
  "transition counter_adapter c b a = counter_transition_of c b a"
  "change_from_transition counter_adapter t = transition_as_change t"
  "transition_before counter_adapter t = counter_before t"
  "transition_after counter_adapter t = counter_after t"
  "validate_transition counter_adapter t = validate_counter_transition t"
  "apply_final counter_adapter h t = apply_final_counter h t"
  by (simp_all add: counter_adapter_def)

lemma transition_of_simps [simp]:
  "trans_kind (counter_transition_of c b a) = subject_kind c"
  "trans_subject (counter_transition_of c b a) = subject_id c"
  "trans_name (counter_transition_of c b a) = counter_name c"
  "counter_requested (counter_transition_of c b a) = counter_amount c"
  "applied_delta (counter_transition_of c b a) = a - b"
  "counter_before (counter_transition_of c b a) = b"
  "counter_after (counter_transition_of c b a) = a"
  "trans_zone (counter_transition_of c b a) = expected_zone c"
  "trans_logical_id (counter_transition_of c b a) = expected_logical_object_id c"
  by (simp_all add: counter_transition_of_def)

definition change_ok :: "counter_change \<Rightarrow> bool" where
  "change_ok c \<longleftrightarrow> counter_change_init c = Inr c"

lemma counter_change_init_ok: "counter_change_init c = Inr d \<Longrightarrow> change_ok d"
  by (auto simp: change_ok_def counter_change_init_def ebind_eq_Inr normalized_counter_name_def
      Let_def split: if_splits)

lemma change_ok_name: "change_ok c \<Longrightarrow> folded_words (counter_name c) = counter_name c \<and> counter_name c \<noteq> []"
  by (cases c) (auto simp: change_ok_def counter_change_init_def ebind_eq_Inr normalized_counter_name_def
      Let_def split: if_splits)

lemma dict_get_write_counter [simp]:
  "dict_get 0 (write_counter name v d) k = (if k = name then v else dict_get 0 d k)"
  by (simp add: write_counter_def)

lemma player_value_write:
  "player_counter_value (h\<lparr>players := AList.update s (write_player_counter n v p) (players h)\<rparr>) s' n' =
     (if s' = s then
        (if n' = n then (if v < 0 then Inl NegativeCounter else Inr v)
         else player_counter_value (h\<lparr>players := AList.update s p (players h)\<rparr>) s n')
      else player_counter_value h s' n')"
  by (cases "map_of (players h) s'") (simp_all add: player_counter_value_def write_player_counter_def)

lemma logical_id_counters [simp]:
  "logical_object_id (c\<lparr>card_counters := d\<rparr>) = logical_object_id c"
  by (simp add: logical_object_id_def)

lemma permanent_value_write:
  assumes "map_of (cards h) s = Some c"
  shows "permanent_counter_value
      (h\<lparr>cards := AList.update s (c\<lparr>card_counters := write_counter n v (card_counters c)\<rparr>) (cards h)\<rparr>) ch =
    (if subject_id ch = s \<and> counter_name ch = n
     then ebind (permanent_counter_value
        (h\<lparr>cards := AList.update s (c\<lparr>card_counters := []\<rparr>) (cards h)\<rparr>) ch)
        (\<lambda>_. if v < 0 then Inl NegativeCounter else Inr v)
     else permanent_counter_value h ch)"
  using assms by (cases "map_of (cards h) (subject_id ch)") (auto simp: permanent_counter_value_def)

lemma reads_back_counter:
  assumes "change_ok c"
  shows "transition_as_change (counter_transition_of c b a) = Inr c"
  using assms
  by (cases c) (simp add: transition_as_change_def change_ok_def counter_transition_of_def)

lemma counter_write_same:
  assumes key: "subject_kind c' = subject_kind c" "subject_id c' = subject_id c"
      "counter_name c' = counter_name c"
    and read: "current_counter h c' = Inr v" and a: "0 \<le> a"
  shows "\<exists>h'. apply_final_counter h (counter_transition_of c b a) = Inr h' \<and> current_counter h' c' = Inr a"
proof (cases "subject_kind c")
  case PlayerSubject
  with read key obtain p where p: "map_of (players h) (subject_id c) = Some p"
    by (auto simp: current_counter_def player_counter_value_def split: option.splits)
  with PlayerSubject a key show ?thesis
    by (simp add: apply_final_counter_def current_counter_def player_value_write)
next
  case PermanentSubject
  with read key obtain x where x: "map_of (cards h) (subject_id c) = Some x"
    and ok: "expected_zone c' = None \<or> Some (zone x) = expected_zone c'"
      "expected_logical_object_id c' = None \<or> Some (logical_object_id x) = expected_logical_object_id c'"
    by (auto simp: current_counter_def permanent_counter_value_def split: option.splits if_splits)
  let ?x = "x\<lparr>card_counters := write_counter (counter_name c) a (card_counters x)\<rparr>"
  have "permanent_counter_value (h\<lparr>cards := AList.update (subject_id c) ?x (cards h)\<rparr>) c' = Inr a"
    using x ok a key by (auto simp: permanent_counter_value_def)
  with PermanentSubject x key show ?thesis
    by (simp add: apply_final_counter_def current_counter_def)
qed

lemma player_value_cards [simp]:
  "player_counter_value (h\<lparr>cards := d\<rparr>) s n = player_counter_value h s n"
  by (simp add: player_counter_value_def)

lemma permanent_value_players [simp]:
  "permanent_counter_value (h\<lparr>players := d\<rparr>) c = permanent_counter_value h c"
  by (simp add: permanent_counter_value_def)

lemma counter_write_other:
  assumes "(subject_kind c', subject_id c', counter_name c')
      \<noteq> (subject_kind c, subject_id c, counter_name c)"
    and "apply_final_counter h (counter_transition_of c b a) = Inr h'"
  shows "current_counter h' c' = current_counter h c'"
proof (cases "subject_kind c")
  case PlayerSubject
  with assms(2) obtain p where p: "map_of (players h) (subject_id c) = Some p"
    and h': "h' = h\<lparr>players := AList.update (subject_id c)
      (write_player_counter (counter_name c) a p) (players h)\<rparr>"
    by (auto simp: apply_final_counter_def ebind_eq_Inr option_raise_eq_Inr)
  have same: "player_counter_value (h\<lparr>players := AList.update (subject_id c) p (players h)\<rparr>)
      (subject_id c) n = player_counter_value h (subject_id c) n" for n
    using p by (simp add: player_counter_value_def)
  show ?thesis
    using assms(1) PlayerSubject same
    by (cases "subject_kind c'") (auto simp: current_counter_def h' player_value_write)
next
  case PermanentSubject
  with assms(2) obtain x where x: "map_of (cards h) (subject_id c) = Some x"
    and h': "h' = h\<lparr>cards := AList.update (subject_id c)
      (x\<lparr>card_counters := write_counter (counter_name c) a (card_counters x)\<rparr>) (cards h)\<rparr>"
    by (auto simp: apply_final_counter_def ebind_eq_Inr option_raise_eq_Inr)
  show ?thesis
    using assms(1) PermanentSubject permanent_value_write [OF x]
    by (cases "subject_kind c'") (auto simp: current_counter_def h')
qed

lemma counter_one_value:
  assumes "subject_kind c = subject_kind c'" "subject_id c = subject_id c'"
    "counter_name c = counter_name c'"
    and "current_counter h c = Inr v" "current_counter h c' = Inr v'"
  shows "v = v'"
  using assms
  by (cases "subject_kind c'")
    (auto simp: current_counter_def permanent_counter_value_def Let_def split: option.splits if_splits)

interpretation counters: state_adapter counter_adapter change_ok
proof unfold_locales
  fix c c' :: counter_change and h h' :: game_state and v v' b a :: int
  show "validate_change counter_adapter c = Inr ()" by simp
  show "transition_before counter_adapter (transition counter_adapter c b a) = b"
    "transition_after counter_adapter (transition counter_adapter c b a) = a"
    by simp_all
  show "validate_transition counter_adapter
      (transition counter_adapter c b (next_value counter_adapter b c)) = Inr ()"
    by (simp add: validate_counter_transition_def)
  show "change_from_transition counter_adapter (transition counter_adapter c b a) = Inr c"
    if "change_ok c"
    using reads_back_counter [OF that] by simp
  show "v = v'" if "change_key counter_adapter c = change_key counter_adapter c'"
    "current_value counter_adapter h c = Inr v" "current_value counter_adapter h c' = Inr v'"
    using counter_one_value [of c c' h v v'] that by auto
  show "\<exists>h'. apply_final counter_adapter h
        (transition counter_adapter c b (next_value counter_adapter b c)) = Inr h'
      \<and> current_value counter_adapter h' c' = Inr (next_value counter_adapter b c)"
    if "change_key counter_adapter c' = change_key counter_adapter c"
      "current_value counter_adapter h c' = Inr v"
    using counter_write_same [of c' c h v "max 0 (b + counter_amount c)" b] that by simp
  show "current_value counter_adapter h' c' = current_value counter_adapter h c'"
    if "change_key counter_adapter c' \<noteq> change_key counter_adapter c"
      "apply_final counter_adapter h
        (transition counter_adapter c b (next_value counter_adapter b c)) = Inr h'"
    using counter_write_other that by simp
qed

section \<open>Batches of counter changes\<close>

text \<open>The value of one counter after the changes of a batch that name it: removals stop at zero.\<close>

definition run_counter :: "subject_kind \<Rightarrow> string \<Rightarrow> string \<Rightarrow> int \<Rightarrow> counter_change list \<Rightarrow> int" where
  "run_counter k s n v cs =
     foldl (\<lambda>v c. max 0 (v + counter_amount c)) v
       (filter (\<lambda>c. subject_kind c = k \<and> subject_id c = s \<and> counter_name c = n) cs)"

lemma counters_run_key: "counters.run_key (k, s, n) v cs = run_counter k s n v cs"
  by (induction cs arbitrary: v) (simp_all add: run_counter_def)

definition erase_player :: "player_state \<Rightarrow> player_state" where
  "erase_player p = p\<lparr>poison := 0, energy := 0, player_counters := []\<rparr>"

definition only_counters :: "game_state \<Rightarrow> game_state \<Rightarrow> bool" where
  "only_counters h h' \<longleftrightarrow> h'\<lparr>players := players h, cards := cards h\<rparr> = h
     \<and> (\<forall>s. map_option erase_player (map_of (players h') s)
           = map_option erase_player (map_of (players h) s))
     \<and> (\<forall>oid. map_option (card_counters_update (\<lambda>_. [])) (map_of (cards h') oid)
           = map_option (card_counters_update (\<lambda>_. [])) (map_of (cards h) oid))"

lemma erase_write [simp]: "erase_player (write_player_counter n v p) = erase_player p"
  by (simp add: erase_player_def write_player_counter_def)

lemma only_counters_refl: "only_counters h h"
  by (simp add: only_counters_def)

lemma only_counters_apply:
  assumes "only_counters h0 h" and "apply_final_counter h t = Inr h'"
  shows "only_counters h0 h'"
proof (cases "trans_kind t")
  case PlayerSubject
  with assms(2) obtain p where "map_of (players h) (trans_subject t) = Some p"
    and "h' = h\<lparr>players := AList.update (trans_subject t)
      (write_player_counter (trans_name t) (counter_after t) p) (players h)\<rparr>"
    by (auto simp: apply_final_counter_def ebind_eq_Inr option_raise_eq_Inr)
  with assms(1) show ?thesis by (simp add: only_counters_def) (metis option.map(2))
next
  case PermanentSubject
  with assms(2) obtain c where "map_of (cards h) (trans_subject t) = Some c"
    and "h' = h\<lparr>cards := AList.update (trans_subject t)
      (c\<lparr>card_counters := write_counter (trans_name t) (counter_after t) (card_counters c)\<rparr>) (cards h)\<rparr>"
    by (auto simp: apply_final_counter_def ebind_eq_Inr option_raise_eq_Inr)
  with assms(1) show ?thesis by (simp add: only_counters_def) (metis option.map(2))
qed

text \<open>What the written states satisfy: every stored counter is positive and canonically named.\<close>

definition counters_sound :: "game_state \<Rightarrow> bool" where
  "counters_sound h \<longleftrightarrow>
     (\<forall>s p. map_of (players h) s = Some p \<longrightarrow>
        0 \<le> poison p \<and> 0 \<le> energy p \<and> counters_canonical (player_counters p))
     \<and> (\<forall>oid c. map_of (cards h) oid = Some c \<longrightarrow>
          distinct (map fst (card_counters c)) \<and> (\<forall>(k, v) \<in> set (card_counters c). 0 < v))"

lemma write_counter_canonical:
  assumes "counters_canonical d" and "folded_words n = n" and "n \<noteq> []" and "0 \<le> v"
    and "n \<noteq> ''poison''" and "n \<noteq> ''energy''"
  shows "counters_canonical (write_counter n v d)"
proof (cases "v = 0")
  case True
  have "set (AList.delete n d) \<subseteq> set d" by (induction d) auto
  with assms(1) True show ?thesis
    by (auto simp: counters_canonical_def write_counter_def distinct_delete)
next
  case False
  have "set (AList.update n v d) \<subseteq> insert (n, v) (set d)" by (rule set_dict_set)
  with assms False show ?thesis
    by (fastforce simp: counters_canonical_def write_counter_def intro: distinct_dict_set)
qed

lemma write_counter_positive:
  assumes "distinct (map fst d) \<and> (\<forall>(k, v) \<in> set d. 0 < v)" and "0 \<le> v"
  shows "distinct (map fst (write_counter n v d)) \<and> (\<forall>(k, v) \<in> set (write_counter n v d). (0::int) < v)"
proof (cases "v = 0")
  case True
  have "set (AList.delete n d) \<subseteq> set d" by (induction d) auto
  with assms(1) True show ?thesis by (auto simp: write_counter_def distinct_delete)
next
  case False
  have "set (AList.update n v d) \<subseteq> insert (n, v) (set d)" by (rule set_dict_set)
  with assms False show ?thesis
    by (fastforce simp: write_counter_def intro: distinct_dict_set)
qed

definition transition_sound :: "counter_transition \<Rightarrow> bool" where
  "transition_sound t \<longleftrightarrow>
     folded_words (trans_name t) = trans_name t \<and> trans_name t \<noteq> [] \<and> 0 \<le> counter_after t"

lemma counters_sound_apply:
  assumes "counters_sound h" and "apply_final_counter h t = Inr h'" and "transition_sound t"
  shows "counters_sound h'"
proof (cases "trans_kind t")
  case PlayerSubject
  with assms(2) obtain p where p: "map_of (players h) (trans_subject t) = Some p"
    and h': "h' = h\<lparr>players := AList.update (trans_subject t)
      (write_player_counter (trans_name t) (counter_after t) p) (players h)\<rparr>"
    by (auto simp: apply_final_counter_def ebind_eq_Inr option_raise_eq_Inr)
  let ?p = "write_player_counter (trans_name t) (counter_after t) p"
  have "0 \<le> poison p" "0 \<le> energy p" "counters_canonical (player_counters p)"
    using assms(1) p by (auto simp: counters_sound_def)
  then have "0 \<le> poison ?p \<and> 0 \<le> energy ?p \<and> counters_canonical (player_counters ?p)"
    using assms(3) write_counter_canonical
    by (simp add: write_player_counter_def transition_sound_def)
  with assms(1) show ?thesis by (auto simp: counters_sound_def h')
next
  case PermanentSubject
  with assms(2) obtain c where c: "map_of (cards h) (trans_subject t) = Some c"
    and h': "h' = h\<lparr>cards := AList.update (trans_subject t)
      (c\<lparr>card_counters := write_counter (trans_name t) (counter_after t) (card_counters c)\<rparr>) (cards h)\<rparr>"
    by (auto simp: apply_final_counter_def ebind_eq_Inr option_raise_eq_Inr)
  have "distinct (map fst (card_counters c)) \<and> (\<forall>(k, v) \<in> set (card_counters c). 0 < v)"
    using assms(1) c by (auto simp: counters_sound_def)
  then have "distinct (map fst (write_counter (trans_name t) (counter_after t) (card_counters c)))
      \<and> (\<forall>(k, v) \<in> set (write_counter (trans_name t) (counter_after t) (card_counters c)). 0 < v)"
    by (rule write_counter_positive) (use assms(3) in \<open>simp add: transition_sound_def\<close>)
  with assms(1) show ?thesis by (simp add: counters_sound_def h')
qed

lemma apply_counters_invariant:
  assumes "apply_counter_changes h ts = Inr (h', ts')"
    and "P h" and "\<And>g t g'. P g \<Longrightarrow> t \<in> set ts \<Longrightarrow> apply_final_counter g t = Inr g' \<Longrightarrow> P g'"
  shows "P h'"
proof -
  from assms(1) obtain final where final: "efold (final_step counter_adapter) [] ts = Inr final"
    and stored: "efold (\<lambda>h entry. apply_final_counter h (snd entry)) h final = Inr h'"
    by (auto simp: apply_counter_changes_def apply_state_plan_def ebind_eq_Inr)
  have sub: "snd ` set final \<subseteq> set ts"
    using counters.final_from_plan [OF final] .
  show ?thesis
    by (rule efold_invariant [where P = P, OF stored assms(2)]) (use sub assms(3) in auto)
qed

lemma counter_plan_sound:
  assumes "plan_counter_changes h cs = Inr ts" and "\<forall>c \<in> set cs. change_ok c" and "t \<in> set ts"
  shows "transition_sound t"
proof -
  have "list_all2 (\<lambda>c t. \<exists>b. t = transition counter_adapter c b (next_value counter_adapter b c)) cs ts"
    using counters.plan_transitions assms(1,2)
    by (simp add: plan_counter_changes_def plan_state_changes_def)
  from list_all2_member [OF this assms(3)] obtain c b
    where "c \<in> set cs" "t = counter_transition_of c b (max 0 (b + counter_amount c))"
    by auto
  with assms(2) change_ok_name show ?thesis by (simp add: transition_sound_def)
qed

text \<open>
  C38. A planned batch of counter changes commits in the state it was planned in: every counter
  that can be read takes the value its own changes lead to, in order and never below zero, counters
  the batch does not name keep their value, nothing but counters changes, and the stored counters
  stay positive and canonically named.
\<close>

theorem counter_batch_adds_up:
  assumes "plan_counter_changes h cs = Inr ts" and "\<forall>c \<in> set cs. change_ok c" and "counters_sound h"
  shows "\<exists>h'. commit_counter_changes h ts = Inr (h', ts)
    \<and> (\<forall>c v. current_counter h c = Inr v \<longrightarrow> current_counter h' c
          = Inr (run_counter (subject_kind c) (subject_id c) (counter_name c) v cs))
    \<and> only_counters h h' \<and> counters_sound h'"
proof -
  obtain h' where commit: "commit_state_plan counter_adapter h ts = Inr (h', ts)"
    and vals: "\<And>c v. current_value counter_adapter h c = Inr v \<Longrightarrow>
      current_value counter_adapter h' c = Inr (counters.run_key (change_key counter_adapter c) v cs)"
    using counters.commit_plan [OF assms(1) [unfolded plan_counter_changes_def] assms(2)] by blast
  have applied: "apply_counter_changes h ts = Inr (h', ts)"
    using commit by (auto simp: commit_state_plan_def apply_counter_changes_def ebind_eq_Inr)
  have "only_counters h h'"
    by (rule apply_counters_invariant [OF applied only_counters_refl]) (rule only_counters_apply)
  moreover have "counters_sound h'"
    by (rule apply_counters_invariant [where P = counters_sound, OF applied assms(3)])
      (use counters_sound_apply counter_plan_sound [OF assms(1,2)] in blast)
  moreover have "current_counter h' c
      = Inr (run_counter (subject_kind c) (subject_id c) (counter_name c) v cs)"
    if "current_counter h c = Inr v" for c v
    using vals [of c v] that by (simp add: counters_run_key)
  ultimately show ?thesis using commit by (auto simp: commit_counter_changes_def)
qed

text \<open>
  Committing a counter plan checks identities: for the first transition of each counter of a
  permanent, the object exists, is in the expected zone, is the expected incarnation and still has
  the planned number of counters; otherwise the commit fails before anything is written.
\<close>

theorem committed_counters_identity:
  assumes "commit_counter_changes h ts = Inr r" and "ts = us @ t # vs"
    and "trans_kind t = PermanentSubject" and "transition_as_change t = Inr c"
    and "\<forall>u \<in> set us. \<forall>d. transition_as_change u = Inr d \<longrightarrow>
           (subject_kind d, subject_id d, counter_name d) \<noteq> (subject_kind c, subject_id c, counter_name c)"
  shows "\<exists>x. map_of (cards h) (trans_subject t) = Some x
    \<and> (trans_zone t = None \<or> trans_zone t = Some (zone x))
    \<and> (trans_logical_id t = None \<or> trans_logical_id t = Some (logical_object_id x))
    \<and> dict_get 0 (card_counters x) (counter_name c) = counter_before t"
proof -
  from assms(1,2) obtain q where "validate_loop counter_adapter h (us @ t # vs) [] [] = Inr q"
    by (auto simp: commit_counter_changes_def commit_state_plan_def validate_state_plan_def
        ebind_eq_Inr)
  then have "current_value counter_adapter h c = Inr (transition_before counter_adapter t)"
    by (rule counters.validate_loop_first) (use assms(4,5) in simp_all)
  then have read: "current_counter h c = Inr (counter_before t)" by simp
  have "subject_kind c = trans_kind t" "subject_id c = trans_subject t"
    "expected_zone c = trans_zone t" "expected_logical_object_id c = trans_logical_id t"
    using assms(4) by (auto simp: transition_as_change_def counter_change_init_def ebind_eq_Inr)
  with read assms(3) show ?thesis
    by (auto simp: current_counter_def permanent_counter_value_def Let_def
        split: option.splits if_splits)
qed

section \<open>Concrete games\<close>

definition counter_game :: "game_state" where
  "counter_game = (new_game [''A'', ''B''])\<lparr>cards :=
     [(''c1'', (new_card ''c1'' ''A'' ''battlefield'')\<lparr>card_counters := [(''+1/+1'', 2)]\<rparr>)]\<rparr>"

definition sample_counter_changes :: "counter_change list" where
  "sample_counter_changes =
     [\<lparr>subject_kind = PermanentSubject, subject_id = ''c1'', counter_name = ''+1/+1'',
       counter_amount = -3, expected_zone = Some ''battlefield'',
       expected_logical_object_id = Some ''c1@0''\<rparr>,
      \<lparr>subject_kind = PlayerSubject, subject_id = ''B'', counter_name = ''poison'',
       counter_amount = 1, expected_zone = None, expected_logical_object_id = None\<rparr>]"

definition sample_counter_plan :: "counter_transition list" where
  "sample_counter_plan =
     [\<lparr>trans_kind = PermanentSubject, trans_subject = ''c1'', trans_name = ''+1/+1'',
       counter_requested = -3, applied_delta = -2, counter_before = 2, counter_after = 0,
       trans_zone = Some ''battlefield'', trans_logical_id = Some ''c1@0''\<rparr>,
      \<lparr>trans_kind = PlayerSubject, trans_subject = ''B'', trans_name = ''poison'',
       counter_requested = 1, applied_delta = 1, counter_before = 0, counter_after = 1,
       trans_zone = None, trans_logical_id = None\<rparr>]"

lemma sample_counter_planned:
  "plan_counter_changes counter_game sample_counter_changes = Inr sample_counter_plan"
  by code_simp

lemma counter_game_sound: "counters_sound counter_game"
proof -
  have "map_of (players counter_game) s = Some p \<Longrightarrow>
      poison p = 0 \<and> energy p = 0 \<and> player_counters p = []" for s p
    by (auto simp: counter_game_def new_game_def new_player_def split: if_splits)
  moreover have "map_of (cards counter_game) oid = Some c \<Longrightarrow> card_counters c = [(''+1/+1'', 2)]" for oid c
    by (auto simp: counter_game_def split: if_splits)
  ultimately show ?thesis by (auto simp: counters_sound_def counters_canonical_def)
qed

theorem counter_batch_adds_up_witness:
  "\<exists>h'. commit_counter_changes counter_game sample_counter_plan = Inr (h', sample_counter_plan)
     \<and> current_counter h' (sample_counter_changes ! 0) = Inr 0 \<and> counters_sound h'"
proof -
  have "\<forall>c \<in> set sample_counter_changes. change_ok c" by code_simp
  from counter_batch_adds_up [OF sample_counter_planned this counter_game_sound]
  obtain h' where "commit_counter_changes counter_game sample_counter_plan
      = Inr (h', sample_counter_plan)" "counters_sound h'"
    and vals: "\<And>c v. current_counter counter_game c = Inr v \<Longrightarrow> current_counter h' c
      = Inr (run_counter (subject_kind c) (subject_id c) (counter_name c) v sample_counter_changes)"
    by blast
  moreover have "current_counter counter_game (sample_counter_changes ! 0) = Inr 2" by code_simp
  moreover have "run_counter PermanentSubject ''c1'' ''+1/+1'' 2 sample_counter_changes = 0"
    by code_simp
  ultimately show ?thesis
    using vals [of "sample_counter_changes ! 0" 2] by (auto simp: sample_counter_changes_def)
qed

theorem committed_counters_identity_witness:
  "\<exists>x. map_of (cards counter_game) ''c1'' = Some x \<and> zone x = ''battlefield''
     \<and> logical_object_id x = ''c1@0''"
proof -
  obtain t vs where plan: "sample_counter_plan = [] @ t # vs"
    and t: "t = sample_counter_plan ! 0"
    by (simp add: sample_counter_plan_def)
  have "\<exists>r. commit_counter_changes counter_game sample_counter_plan = Inr r"
    using counter_batch_adds_up_witness by blast
  then obtain r where r: "commit_counter_changes counter_game sample_counter_plan = Inr r" by blast
  have kind: "trans_kind t = PermanentSubject" and zone: "trans_zone t = Some ''battlefield''"
    and logical: "trans_logical_id t = Some ''c1@0''" and "trans_subject t = ''c1''"
    by (simp_all add: t sample_counter_plan_def)
  have "transition_as_change t = Inr (sample_counter_changes ! 0)" unfolding t by code_simp
  from committed_counters_identity [OF r plan kind this] zone logical \<open>trans_subject t = ''c1''\<close>
  show ?thesis by auto
qed

text \<open>
  Only the first change of a counter is checked: a later change of the same counter that expects
  another zone is planned and committed.
\<close>

lemma later_identity_not_checked:
  "(case plan_counter_changes counter_game
      [\<lparr>subject_kind = PermanentSubject, subject_id = ''c1'', counter_name = ''+1/+1'',
        counter_amount = 1, expected_zone = Some ''battlefield'', expected_logical_object_id = None\<rparr>,
       \<lparr>subject_kind = PermanentSubject, subject_id = ''c1'', counter_name = ''+1/+1'',
        counter_amount = 1, expected_zone = Some ''graveyard'', expected_logical_object_id = None\<rparr>] of
     Inr ts \<Rightarrow> \<not> isl (commit_counter_changes counter_game ts)
   | Inl e \<Rightarrow> False)"
  by code_simp

end
