(* ===== verification/Damage_Assignment.thy ===== *)
theory Damage_Assignment imports Prelude
begin

text \<open>
  Announcing combat damage (CR 510.1): the assignment values of
  \<open>quorune/combat_damage_values.py\<close>, the lethal-damage rule of deathtouch
  (\<open>quorune/deathtouch.py\<close>), trample's lethal-before-spill check
  (\<open>quorune/combat_damage_trample.py\<close>) and the proposal of
  \<open>quorune/combat_damage_assignment.py\<close> with its validation of a submitted announcement.
  A submission is untrusted data and is read from \<open>pyval\<close>s.  The fingerprint of a proposal
  (SHA-256 of its JSON text) is left out.
\<close>

section \<open>Values\<close>

datatype damage_error =
    NotIdentity string
  | NotExactInteger string
  | BelowMinimum string
  | NegativeDamage
  | BadTrampleBlockers
  | TargetsNotNonempty
  | TargetsNotUnique
  | SourcesNotUnique
  | ForeignSource
  | LogicalIdsNotUnique
  | AttackersNotSources
  | DeathtouchNotAttackers
  | BadTrampleSources
  | SpillNotTarget
  | BlockersMismatch
  | NotAnArray
  | NotAnObject
  | BadFields
  | BadSource
  | UnknownSource string
  | PowerlessSource string
  | BadTarget
  | IllegalTarget string string
  | AmountNotInteger
  | RepeatedPair
  | WrongTotal string int int
  | LethalNotAssigned string string string int int
  | DeathtouchFact string

record damage_assignment =
  da_source :: string
  da_target :: string
  da_amount :: int

definition assignment_init :: "string \<Rightarrow> string \<Rightarrow> int \<Rightarrow> damage_error + damage_assignment" where
  "assignment_init source target amount =
     ebind (ensure (source \<noteq> []) (NotIdentity ''Damage source'')) (\<lambda>_.
     ebind (ensure (target \<noteq> []) (NotIdentity ''Damage recipient'')) (\<lambda>_.
     ebind (ensure (0 \<le> amount) NegativeDamage) (\<lambda>_.
     Inr \<lparr>da_source = source, da_target = target, da_amount = amount\<rparr>)))"

definition assignment_to_dict :: "damage_assignment \<Rightarrow> pyval" where
  "assignment_to_dict a =
     PDict [(''source'', PStr (da_source a)), (''target'', PStr (da_target a)),
            (''amount'', PInt (da_amount a))]"

record creature_damage_state =
  toughness :: int
  damage_marked :: int

definition creature_state_init :: "int \<Rightarrow> int \<Rightarrow> damage_error + creature_damage_state" where
  "creature_state_init t m =
     (if m < 0 then Inl (BelowMinimum ''Blocker marked damage'')
      else Inr \<lparr>toughness = t, damage_marked = m\<rparr>)"

record trample_spec =
  trampler :: string
  spill_target :: string
  trample_blockers :: "(string \<times> creature_damage_state) list"

definition trample_init ::
  "string \<Rightarrow> string \<Rightarrow> (string \<times> creature_damage_state) list \<Rightarrow> damage_error + trample_spec" where
  "trample_init attacker spill bs =
     ebind (ensure (attacker \<noteq> []) (NotIdentity ''Trample source'')) (\<lambda>_.
     ebind (ensure (spill \<noteq> []) (NotIdentity ''Trample spill target'')) (\<lambda>_.
     ebind (ensure (distinct (map fst bs) \<and> list_all (\<lambda>b. fst b \<noteq> []) bs) BadTrampleBlockers) (\<lambda>_.
     Inr \<lparr>trampler = attacker, spill_target = spill, trample_blockers = bs\<rparr>)))"

section \<open>Deathtouch\<close>

definition normalized_strings :: "string \<Rightarrow> string list \<Rightarrow> damage_error + string set" where
  "normalized_strings label values =
     (if list_all (\<lambda>v. py_strip v \<noteq> []) values then Inr (set (map folded_words values))
      else Inl (DeathtouchFact label))"

definition source_has_deathtouch :: "string list \<Rightarrow> damage_error + bool" where
  "source_has_deathtouch keywords =
     ebind (normalized_strings ''Damage source keywords'' keywords) (\<lambda>ks. Inr (''deathtouch'' \<in> ks))"

definition deathtouch_assignment_is_lethal ::
  "string \<Rightarrow> int \<Rightarrow> string set \<Rightarrow> damage_error + bool" where
  "deathtouch_assignment_is_lethal source amount sources =
     ebind (ensure (source \<noteq> []) (DeathtouchFact ''assignment source'')) (\<lambda>_.
     ebind (ensure (0 \<le> amount) (DeathtouchFact ''assignment amount'')) (\<lambda>_.
     ebind (ensure ([] \<notin> sources) (DeathtouchFact ''assignment sources'')) (\<lambda>_.
     Inr (0 < amount \<and> source \<in> sources))))"

definition deathtouch_damage_result_applies ::
  "int \<Rightarrow> string list \<Rightarrow> string list \<Rightarrow> damage_error + bool" where
  "deathtouch_damage_result_applies amount source_keywords target_types =
     ebind (ensure (0 \<le> amount) (DeathtouchFact ''damage amount'')) (\<lambda>_.
     ebind (normalized_strings ''Damage source keywords'' source_keywords) (\<lambda>keywords.
     ebind (normalized_strings ''Damage recipient types'' target_types) (\<lambda>types.
     Inr (0 < amount \<and> ''deathtouch'' \<in> keywords \<and> ''creature'' \<in> types))))"

section \<open>Trample\<close>

definition sum_damage :: "damage_assignment list \<Rightarrow> int" where
  "sum_damage as = sum_list (map da_amount as)"

fun any_lethal :: "damage_assignment list \<Rightarrow> string set \<Rightarrow> damage_error + bool" where
  "any_lethal [] deathtouch = Inr False"
| "any_lethal (a # as) deathtouch =
     ebind (deathtouch_assignment_is_lethal (da_source a) (da_amount a) deathtouch) (\<lambda>lethal.
     if lethal then Inr True else any_lethal as deathtouch)"

definition assigned_to ::
  "string \<Rightarrow> string set \<Rightarrow> damage_assignment list \<Rightarrow> damage_assignment list" where
  "assigned_to blocker attacking as =
     filter (\<lambda>a. da_target a = blocker \<and> da_source a \<in> attacking \<and> 0 < da_amount a) as"

fun check_trample_blockers ::
  "string \<Rightarrow> string \<Rightarrow> (string \<times> creature_damage_state) list \<Rightarrow> damage_assignment list
     \<Rightarrow> string set \<Rightarrow> string set \<Rightarrow> damage_error + unit" where
  "check_trample_blockers attacker spill [] as attacking deathtouch = Inr ()"
| "check_trample_blockers attacker spill ((blocker, state) # bs) as attacking deathtouch =
     (let assigned = assigned_to blocker attacking as;
          amount = sum_damage assigned in
      ebind (any_lethal assigned deathtouch) (\<lambda>touched.
      if touched \<or> toughness state \<le> damage_marked state + amount
      then check_trample_blockers attacker spill bs as attacking deathtouch
      else Inl (LethalNotAssigned attacker spill blocker
                  (max 0 (toughness state - damage_marked state)) amount)))"

definition trample_assignment_error ::
  "trample_spec \<Rightarrow> damage_assignment list \<Rightarrow> string set \<Rightarrow> string set \<Rightarrow> damage_error + unit" where
  "trample_assignment_error spec as attacking deathtouch =
     (if sum_damage (filter (\<lambda>a. da_source a = trampler spec \<and> da_target a = spill_target spec) as) \<le> 0
      then Inr ()
      else check_trample_blockers (trampler spec) (spill_target spec) (trample_blockers spec)
             as attacking deathtouch)"

section \<open>Proposals\<close>

record source_spec =
  spec_source :: string
  spec_controller :: string
  spec_logical :: string
  spec_power :: int
  spec_targets :: "string list"

definition source_spec_init :: "source_spec \<Rightarrow> damage_error + source_spec" where
  "source_spec_init s =
     ebind (ensure (spec_source s \<noteq> []) (NotIdentity ''Damage source'')) (\<lambda>_.
     ebind (ensure (spec_controller s \<noteq> []) (NotIdentity ''Damage source controller'')) (\<lambda>_.
     ebind (ensure (spec_logical s \<noteq> []) (NotIdentity ''Damage source logical identity'')) (\<lambda>_.
     ebind (ensure (0 \<le> spec_power s) (BelowMinimum ''Damage power'')) (\<lambda>_.
     ebind (ensure (list_all (\<lambda>t. t \<noteq> []) (spec_targets s)) TargetsNotNonempty) (\<lambda>_.
     ebind (ensure (distinct (spec_targets s)) TargetsNotUnique) (\<lambda>_.
     Inr s))))))"

record proposal =
  damage_step_id :: string
  actor :: string
  sources :: "source_spec list"
  attacking_sources :: "string set"
  deathtouch_sources :: "string set"
  trample_sources :: "trample_spec list"

definition check_trample_spec :: "source_spec list \<Rightarrow> trample_spec \<Rightarrow> damage_error + unit" where
  "check_trample_spec ss spec =
     (case map_of (dict_by spec_source ss) (trampler spec) of
        None \<Rightarrow> Inl BadTrampleSources
      | Some source \<Rightarrow>
          ebind (ensure (spill_target spec \<in> set (spec_targets source)) SpillNotTarget) (\<lambda>_.
          ensure (map fst (trample_blockers spec)
                  = filter (\<lambda>t. t \<noteq> spill_target spec) (spec_targets source)) BlockersMismatch))"

definition proposal_init :: "proposal \<Rightarrow> damage_error + proposal" where
  "proposal_init p =
     ebind (ensure (damage_step_id p \<noteq> []) (NotIdentity ''Damage-step identity'')) (\<lambda>_.
     ebind (ensure (actor p \<noteq> []) (NotIdentity ''Assignment actor'')) (\<lambda>_.
     ebind (ensure (distinct (map spec_source (sources p))) SourcesNotUnique) (\<lambda>_.
     ebind (ensure (list_all (\<lambda>s. spec_controller s = actor p) (sources p)) ForeignSource) (\<lambda>_.
     ebind (ensure (distinct (map spec_logical (sources p))) LogicalIdsNotUnique) (\<lambda>_.
     ebind (ensure (attacking_sources p \<subseteq> set (map spec_source (sources p))) AttackersNotSources) (\<lambda>_.
     ebind (ensure (deathtouch_sources p \<subseteq> attacking_sources p) DeathtouchNotAttackers) (\<lambda>_.
     ebind (ensure (distinct (map trampler (trample_sources p))
                    \<and> set (map trampler (trample_sources p)) \<subseteq> attacking_sources p)
              BadTrampleSources) (\<lambda>_.
     ebind (emap (check_trample_spec (sources p)) (trample_sources p)) (\<lambda>_.
     Inr p)))))))))"

text \<open>\<open>automatic_assignments\<close>: \<open>None\<close> when a source has to divide its damage.\<close>

definition automatic_assignments :: "proposal \<Rightarrow> damage_error + damage_assignment list option" where
  "automatic_assignments p =
     (if list_ex (\<lambda>s. 1 < length (spec_targets s)) (sources p) then Inr None
      else ebind (emap (\<lambda>s. assignment_init (spec_source s) (hd (spec_targets s)) (spec_power s))
                    (filter (\<lambda>s. 0 < spec_power s \<and> spec_targets s \<noteq> []) (sources p)))
             (\<lambda>as. Inr (Some as)))"

section \<open>Validating a submitted announcement\<close>

definition parse_assignment ::
  "(string, source_spec) dict \<Rightarrow> pyval \<Rightarrow> damage_error + damage_assignment" where
  "parse_assignment source_map raw =
     (case raw of
        PDict d \<Rightarrow>
          ebind (ensure (set (map fst d) = {''source'', ''target'', ''amount''}) BadFields) (\<lambda>_.
          ebind (option_raise BadSource (nonempty_str (dict_get PNone d ''source''))) (\<lambda>source_ref.
          ebind (option_raise (UnknownSource source_ref) (map_of source_map source_ref)) (\<lambda>source.
          ebind (ensure (0 < spec_power source) (PowerlessSource source_ref)) (\<lambda>_.
          ebind (option_raise BadTarget (nonempty_str (dict_get PNone d ''target''))) (\<lambda>target_ref.
          ebind (ensure (target_ref \<in> set (spec_targets source)) (IllegalTarget target_ref source_ref)) (\<lambda>_.
          ebind (option_raise AmountNotInteger (exact_int (dict_get PNone d ''amount''))) (\<lambda>value.
          ebind (ensure (0 \<le> value) NegativeDamage) (\<lambda>_.
          assignment_init source_ref target_ref value))))))))
      | _ \<Rightarrow> Inl NotAnObject)"

type_synonym parsed = "(string \<times> string, damage_assignment) dict"

definition parse_step ::
  "(string, source_spec) dict \<Rightarrow> parsed \<times> (string, int) dict \<Rightarrow> pyval
     \<Rightarrow> damage_error + parsed \<times> (string, int) dict" where
  "parse_step source_map state raw =
     ebind (parse_assignment source_map raw) (\<lambda>a.
     let pair = (da_source a, da_target a) in
     if map_of (fst state) pair \<noteq> None then Inl RepeatedPair
     else Inr (AList.update pair a (fst state),
               AList.update (da_source a) (dict_get 0 (snd state) (da_source a) + da_amount a)
                 (snd state)))"

definition check_total :: "(string, int) dict \<Rightarrow> source_spec \<Rightarrow> damage_error + unit" where
  "check_total totals source =
     (let required = (if spec_targets source \<noteq> [] then spec_power source else 0);
          assigned = dict_get 0 totals (spec_source source) in
      ensure (assigned = required) (WrongTotal (spec_source source) required assigned))"

definition canonical_assignments :: "source_spec list \<Rightarrow> parsed \<Rightarrow> damage_assignment list" where
  "canonical_assignments ss parsed =
     filter (\<lambda>a. 0 < da_amount a)
       (concat (map (\<lambda>s. concat (map (\<lambda>t.
          case map_of parsed (spec_source s, t) of None \<Rightarrow> [] | Some a \<Rightarrow> [a]) (spec_targets s))) ss))"

definition validate_assignments :: "proposal \<Rightarrow> pyval \<Rightarrow> damage_error + damage_assignment list" where
  "validate_assignments p submitted =
     (case submitted of
        PList raws \<Rightarrow>
          ebind (efold (parse_step (dict_by spec_source (sources p))) ([], []) raws) (\<lambda>(parsed, totals).
          ebind (emap (check_total totals) (sources p)) (\<lambda>_.
          let as = canonical_assignments (sources p) parsed in
          ebind (emap (\<lambda>spec. trample_assignment_error spec as (attacking_sources p)
                           (deathtouch_sources p)) (trample_sources p)) (\<lambda>_.
          Inr as)))
      | _ \<Rightarrow> Inl NotAnArray)"

section \<open>How a submission is read\<close>

definition pair_of :: "damage_assignment \<Rightarrow> string \<times> string" where
  "pair_of a = (da_source a, da_target a)"

definition tagged :: "damage_assignment list \<Rightarrow> parsed" where
  "tagged xs = map (\<lambda>a. (pair_of a, a)) xs"

definition add_total :: "(string, int) dict \<Rightarrow> damage_assignment \<Rightarrow> (string, int) dict" where
  "add_total totals a =
     AList.update (da_source a) (dict_get 0 totals (da_source a) + da_amount a) totals"

lemma sum_damage_simps [simp]:
  "sum_damage [] = 0"
  "sum_damage (a # as) = da_amount a + sum_damage as"
  "sum_damage (as @ bs) = sum_damage as + sum_damage bs"
  by (simp_all add: sum_damage_def)

lemma sum_damage_mset: "mset as = mset bs \<Longrightarrow> sum_damage as = sum_damage bs"
  unfolding sum_damage_def by (metis mset_map sum_mset_sum_list)

lemma sum_damage_positive:
  "\<forall>a \<in> set as. 0 \<le> da_amount a \<Longrightarrow> sum_damage (filter (\<lambda>a. 0 < da_amount a) as) = sum_damage as"
  by (induction as) force+

lemma totals_of: "dict_get 0 (foldl add_total T xs) s = dict_get 0 T s + sum_damage (filter (\<lambda>a. da_source a = s) xs)"
  by (induction xs arbitrary: T) (simp_all add: add_total_def)

lemma parse_all:
  assumes "distinct (map fst P)"
  shows "efold (parse_step m) (P, T) raws = Inr r \<longleftrightarrow>
    (\<exists>xs. emap (parse_assignment m) raws = Inr xs \<and> distinct (map fst P @ map pair_of xs)
       \<and> r = (P @ tagged xs, foldl add_total T xs))"
  using assms
proof (induction raws arbitrary: P T)
  case Nil
  then show ?case by (auto simp: tagged_def)
next
  case (Cons raw raws)
  show ?case
  proof (cases "parse_assignment m raw")
    case (Inl e)
    then show ?thesis by (simp add: parse_step_def)
  next
    case (Inr a)
    show ?thesis
    proof (cases "map_of P (pair_of a) = None")
      case True
      then have step: "parse_step m (P, T) raw = Inr (P @ [(pair_of a, a)], add_total T a)"
        by (simp add: parse_step_def Inr pair_of_def add_total_def dict_set_new map_of_None_key)
      have "distinct (map fst (P @ [(pair_of a, a)]))"
        using Cons.prems True by (auto simp: map_of_None_key)
      note IH = Cons.IH [OF this, of "add_total T a"]
      have "efold (parse_step m) (P, T) (raw # raws) = Inr r \<longleftrightarrow>
          (\<exists>ys. emap (parse_assignment m) raws = Inr ys
            \<and> distinct (map fst (P @ [(pair_of a, a)]) @ map pair_of ys)
            \<and> r = ((P @ [(pair_of a, a)]) @ tagged ys, foldl add_total (add_total T a) ys))"
        unfolding efold.simps step ebind_simps by (rule IH)
      also have "\<dots> \<longleftrightarrow> (\<exists>ys. emap (parse_assignment m) raws = Inr ys
            \<and> distinct (map fst P @ map pair_of (a # ys))
            \<and> r = (P @ tagged (a # ys), foldl add_total T (a # ys)))"
        by (simp add: tagged_def)
      also have "\<dots> \<longleftrightarrow> (\<exists>xs. emap (parse_assignment m) (raw # raws) = Inr xs
            \<and> distinct (map fst P @ map pair_of xs)
            \<and> r = (P @ tagged xs, foldl add_total T xs))"
        unfolding emap.simps Inr ebind_simps ebind_eq_Inr by blast
      finally show ?thesis .
    next
      case False
      then have "pair_of a \<in> fst ` set P" by (auto dest: map_of_Some_key)
      moreover have "parse_step m (P, T) raw = Inl RepeatedPair"
        using False by (simp add: parse_step_def Inr pair_of_def)
      ultimately show ?thesis using Inr by (auto simp: ebind_eq_Inr)
    qed
  qed
qed

definition readable :: "source_spec list \<Rightarrow> damage_assignment \<Rightarrow> bool" where
  "readable ss a \<longleftrightarrow> da_source a \<noteq> [] \<and> da_target a \<noteq> [] \<and> 0 \<le> da_amount a
     \<and> (\<exists>s \<in> set ss. spec_source s = da_source a \<and> 0 < spec_power s \<and> da_target a \<in> set (spec_targets s))"

lemma parse_assignment_readable:
  assumes "parse_assignment (dict_by spec_source ss) raw = Inr a"
  shows "readable ss a"
proof -
  from assms obtain d where raw: "raw = PDict d" by (cases raw) (simp_all add: parse_assignment_def)
  from assms obtain source_ref source target_ref v
    where source: "map_of (dict_by spec_source ss) source_ref = Some source"
      and "0 < spec_power source" and "target_ref \<in> set (spec_targets source)" and "0 \<le> v"
      and "assignment_init source_ref target_ref v = Inr a"
    unfolding parse_assignment_def raw pyval.case ebind_eq_Inr ensure_eq_Inr option_raise_eq_Inr
    by (elim exE conjE) (rule that; assumption)
  with map_of_dict_by_SomeD [OF source] show ?thesis
    by (auto simp: readable_def assignment_init_def ebind_eq_Inr)
qed

lemma parse_assignment_to_dict:
  assumes "distinct (map spec_source ss)"
  shows "parse_assignment (dict_by spec_source ss) (assignment_to_dict a) = Inr b \<longleftrightarrow> b = a \<and> readable ss a"
proof -
  have fields: "{''source'', ''target'', ''amount''} = {''amount'', ''source'', ''target''}" by auto
  show ?thesis
    unfolding parse_assignment_def assignment_to_dict_def readable_def
    by (cases a)
      (auto simp: ebind_eq_Inr option_raise_eq_Inr nonempty_str_Some assignment_init_def
        dict_get_def map_of_dict_by [OF assms] fields)
qed

lemma emap_parse_to_dict:
  assumes "distinct (map spec_source ss)"
  shows "emap (parse_assignment (dict_by spec_source ss)) (map assignment_to_dict xs) = Inr ys
    \<longleftrightarrow> ys = xs \<and> (\<forall>a \<in> set xs. readable ss a)"
  by (induction xs arbitrary: ys) (auto simp: ebind_eq_Inr parse_assignment_to_dict [OF assms])

section \<open>The canonical order\<close>

definition pairs :: "source_spec list \<Rightarrow> (string \<times> string) list" where
  "pairs ss = concat (map (\<lambda>s. map (\<lambda>t. (spec_source s, t)) (spec_targets s)) ss)"

definition positive_entry :: "parsed \<Rightarrow> string \<times> string \<Rightarrow> bool" where
  "positive_entry P q \<longleftrightarrow> (case map_of P q of None \<Rightarrow> False | Some a \<Rightarrow> 0 < da_amount a)"

lemma positive_entry_eq: "positive_entry P q \<longleftrightarrow> (\<exists>a. map_of P q = Some a \<and> 0 < da_amount a)"
  by (auto simp: positive_entry_def split: option.splits)

lemma canonical_eq:
  "canonical_assignments ss P = map (\<lambda>q. the (map_of P q)) (filter (positive_entry P) (pairs ss))"
proof -
  have inner: "filter (\<lambda>a. 0 < da_amount a) (concat (map (\<lambda>t.
      case map_of P (x, t) of None \<Rightarrow> [] | Some a \<Rightarrow> [a]) ts))
      = map (\<lambda>q. the (map_of P q)) (filter (positive_entry P) (map (\<lambda>t. (x, t)) ts))" for x ts
    by (induction ts) (auto simp: positive_entry_def split: option.splits)
  show ?thesis
    by (induction ss) (simp_all add: canonical_assignments_def pairs_def inner)
qed

lemma distinct_pairs:
  "distinct (map spec_source ss) \<Longrightarrow> \<forall>s \<in> set ss. distinct (spec_targets s) \<Longrightarrow> distinct (pairs ss)"
  by (induction ss) (auto simp: pairs_def distinct_map inj_on_def)

lemma map_of_tagged:
  "distinct (map pair_of xs) \<Longrightarrow> map_of (tagged xs) q = Some a \<longleftrightarrow> a \<in> set xs \<and> pair_of a = q"
  by (auto simp: tagged_def map_of_eq_Some_iff comp_def)

lemma canonical_set:
  assumes "distinct (map pair_of xs)" and "\<forall>a \<in> set xs. readable ss a"
  shows "set (canonical_assignments ss (tagged xs)) = {a \<in> set xs. 0 < da_amount a}"
proof -
  have "a \<in> set (canonical_assignments ss (tagged xs)) \<longleftrightarrow> a \<in> set xs \<and> 0 < da_amount a" for a
  proof
    assume "a \<in> set (canonical_assignments ss (tagged xs))"
    then obtain q where "positive_entry (tagged xs) q" "a = the (map_of (tagged xs) q)"
      by (auto simp: canonical_eq)
    then have "map_of (tagged xs) q = Some a" "0 < da_amount a" by (auto simp: positive_entry_eq)
    then show "a \<in> set xs \<and> 0 < da_amount a" using map_of_tagged [OF assms(1)] by blast
  next
    assume a: "a \<in> set xs \<and> 0 < da_amount a"
    then have "map_of (tagged xs) (pair_of a) = Some a" using map_of_tagged [OF assms(1)] by blast
    moreover have "pair_of a \<in> set (pairs ss)"
      using assms(2) a by (force simp: readable_def pairs_def pair_of_def)
    ultimately show "a \<in> set (canonical_assignments ss (tagged xs))"
      using a by (force simp: canonical_eq positive_entry_def)
  qed
  then show ?thesis by blast
qed

lemma canonical_pairs:
  assumes "distinct (map pair_of xs)"
  shows "map pair_of (canonical_assignments ss (tagged xs)) = filter (positive_entry (tagged xs)) (pairs ss)"
proof -
  have "pair_of (the (map_of (tagged xs) q)) = q" if "positive_entry (tagged xs) q" for q
  proof -
    from that obtain a where "map_of (tagged xs) q = Some a" by (auto simp: positive_entry_eq)
    then show ?thesis using map_of_tagged [OF assms, of q a] by simp
  qed
  then show ?thesis by (auto simp: canonical_eq comp_def intro!: map_idI)
qed

lemma canonical_mset:
  assumes "distinct (map pair_of xs)" and "\<forall>a \<in> set xs. readable ss a"
    and "distinct (map spec_source ss)" and "\<forall>s \<in> set ss. distinct (spec_targets s)"
  shows "mset (canonical_assignments ss (tagged xs)) = mset (filter (\<lambda>a. 0 < da_amount a) xs)"
proof (rule set_eq_iff_mset_eq_distinct [THEN iffD1])
  have "distinct (map pair_of (canonical_assignments ss (tagged xs)))"
    using canonical_pairs [OF assms(1)] distinct_pairs [OF assms(3,4)] by simp
  then show "distinct (canonical_assignments ss (tagged xs))" by (simp add: distinct_map)
  show "distinct (filter (\<lambda>a. 0 < da_amount a) xs)" using assms(1) by (simp add: distinct_map)
  show "set (canonical_assignments ss (tagged xs)) = set (filter (\<lambda>a. 0 < da_amount a) xs)"
    using canonical_set [OF assms(1,2)] by auto
qed

section \<open>Lethal damage before spill\<close>

definition lethal_assigned ::
  "proposal \<Rightarrow> damage_assignment list \<Rightarrow> string \<times> creature_damage_state \<Rightarrow> bool" where
  "lethal_assigned p as b \<longleftrightarrow>
     (let assigned = assigned_to (fst b) (attacking_sources p) as in
      (\<exists>a \<in> set assigned. da_source a \<in> deathtouch_sources p)
      \<or> toughness (snd b) \<le> damage_marked (snd b) + sum_damage assigned)"

definition spilled :: "trample_spec \<Rightarrow> damage_assignment list \<Rightarrow> int" where
  "spilled spec as =
     sum_damage (filter (\<lambda>a. da_source a = trampler spec \<and> da_target a = spill_target spec) as)"

definition trample_respected :: "proposal \<Rightarrow> damage_assignment list \<Rightarrow> bool" where
  "trample_respected p as \<longleftrightarrow>
     (\<forall>spec \<in> set (trample_sources p).
        0 < spilled spec as \<longrightarrow> (\<forall>b \<in> set (trample_blockers spec). lethal_assigned p as b))"

lemma any_lethal_eq:
  assumes "[] \<notin> D" and "\<forall>a \<in> set as. da_source a \<noteq> [] \<and> 0 < da_amount a"
  shows "any_lethal as D = Inr (\<exists>a \<in> set as. da_source a \<in> D)"
  using assms(2)
  by (induction as) (auto simp: deathtouch_assignment_is_lethal_def assms(1) ensure_def)

lemma check_trample_eq:
  assumes "[] \<notin> deathtouch_sources p" and "\<forall>a \<in> set as. da_source a \<noteq> [] \<and> 0 < da_amount a"
  shows "check_trample_blockers x y bs as (attacking_sources p) (deathtouch_sources p) = Inr u
    \<longleftrightarrow> (\<forall>b \<in> set bs. lethal_assigned p as b)"
proof (induction bs)
  case (Cons b bs)
  have "any_lethal (assigned_to (fst b) (attacking_sources p) as) (deathtouch_sources p)
      = Inr (\<exists>a \<in> set (assigned_to (fst b) (attacking_sources p) as). da_source a \<in> deathtouch_sources p)"
    using assms by (intro any_lethal_eq) (auto simp: assigned_to_def)
  with Cons show ?case by (cases b) (simp add: Let_def lethal_assigned_def)
qed simp

lemma trample_error_eq:
  assumes "[] \<notin> deathtouch_sources p" and "\<forall>a \<in> set as. da_source a \<noteq> [] \<and> 0 < da_amount a"
  shows "emap (\<lambda>spec. trample_assignment_error spec as (attacking_sources p) (deathtouch_sources p))
      specs = Inr us
    \<longleftrightarrow> us = map (\<lambda>_. ()) specs
        \<and> (\<forall>spec \<in> set specs. 0 < spilled spec as \<longrightarrow> (\<forall>b \<in> set (trample_blockers spec). lethal_assigned p as b))"
  by (induction specs arbitrary: us)
    (auto simp: ebind_eq_Inr trample_assignment_error_def spilled_def check_trample_eq [OF assms])

section \<open>Valid proposals and accepted announcements\<close>

definition proposal_valid :: "proposal \<Rightarrow> bool" where
  "proposal_valid p \<longleftrightarrow> proposal_init p = Inr p \<and> (\<forall>s \<in> set (sources p). source_spec_init s = Inr s)"

lemma proposal_validD:
  assumes "proposal_valid p"
  shows "distinct (map spec_source (sources p))" and "\<forall>s \<in> set (sources p). distinct (spec_targets s)"
    and "\<forall>s \<in> set (sources p). 0 \<le> spec_power s" and "[] \<notin> deathtouch_sources p"
    and "\<forall>s \<in> set (sources p). spec_source s \<noteq> [] \<and> [] \<notin> set (spec_targets s)"
    and "\<forall>spec \<in> set (trample_sources p). \<exists>s \<in> set (sources p). spec_source s = trampler spec
      \<and> spill_target spec \<in> set (spec_targets s)
      \<and> map fst (trample_blockers spec) = filter (\<lambda>t. t \<noteq> spill_target spec) (spec_targets s)"
proof -
  have init: "proposal_init p = Inr p" and ss: "\<forall>s \<in> set (sources p). source_spec_init s = Inr s"
    using assms by (simp_all add: proposal_valid_def)
  from init show "distinct (map spec_source (sources p))"
    by (simp add: proposal_init_def ebind_ensure_Inr)
  from ss show "\<forall>s \<in> set (sources p). distinct (spec_targets s)"
    and "\<forall>s \<in> set (sources p). 0 \<le> spec_power s"
    and nonempty: "\<forall>s \<in> set (sources p). spec_source s \<noteq> [] \<and> [] \<notin> set (spec_targets s)"
    by (auto simp: source_spec_init_def ebind_ensure_Inr list_all_iff)
  from init have sub: "attacking_sources p \<subseteq> set (map spec_source (sources p))"
    "deathtouch_sources p \<subseteq> attacking_sources p"
    and tr: "\<exists>us. emap (check_trample_spec (sources p)) (trample_sources p) = Inr us"
    by (auto simp: proposal_init_def ebind_eq_Inr)
  from sub nonempty show "[] \<notin> deathtouch_sources p" by (metis imageE list.set_map subsetD)
  from tr have "\<forall>spec \<in> set (trample_sources p). check_trample_spec (sources p) spec = Inr ()"
    by (auto simp: emap_Inr_iff list_all2_conv_all_nth in_set_conv_nth)
  then show "\<forall>spec \<in> set (trample_sources p). \<exists>s \<in> set (sources p). spec_source s = trampler spec
      \<and> spill_target spec \<in> set (spec_targets s)
      \<and> map fst (trample_blockers spec) = filter (\<lambda>t. t \<noteq> spill_target spec) (spec_targets s)"
    by (fastforce simp: check_trample_spec_def ebind_ensure_Inr split: option.splits
        dest!: map_of_dict_by_SomeD)
qed

definition required :: "source_spec \<Rightarrow> int" where
  "required s = (if spec_targets s \<noteq> [] then spec_power s else 0)"

definition exact_totals :: "source_spec list \<Rightarrow> damage_assignment list \<Rightarrow> bool" where
  "exact_totals ss as \<longleftrightarrow>
     (\<forall>s \<in> set ss. sum_damage (filter (\<lambda>a. da_source a = spec_source s) as) = required s)"

lemma check_totals_eq:
  "emap (check_total (foldl add_total [] xs)) ss = Inr us
    \<longleftrightarrow> us = map (\<lambda>_. ()) ss \<and> exact_totals ss xs"
  by (induction ss arbitrary: us)
    (auto simp: ebind_eq_Inr check_total_def Let_def totals_of exact_totals_def required_def)

lemma validate_eq:
  assumes "proposal_valid p"
  shows "validate_assignments p (PList raws) = Inr r \<longleftrightarrow>
    (\<exists>xs. emap (parse_assignment (dict_by spec_source (sources p))) raws = Inr xs
      \<and> distinct (map pair_of xs) \<and> exact_totals (sources p) xs
      \<and> r = canonical_assignments (sources p) (tagged xs) \<and> trample_respected p r)"
proof -
  note valid = proposal_validD [OF assms]
  have trample: "(\<exists>us. emap (\<lambda>spec. trample_assignment_error spec
        (canonical_assignments (sources p) (tagged xs)) (attacking_sources p) (deathtouch_sources p))
        (trample_sources p) = Inr us)
      \<longleftrightarrow> trample_respected p (canonical_assignments (sources p) (tagged xs))"
    if "emap (parse_assignment (dict_by spec_source (sources p))) raws = Inr xs"
      and "distinct (map pair_of xs)" for xs
  proof -
    have "\<forall>a \<in> set xs. readable (sources p) a"
      using that(1) parse_assignment_readable by (fastforce simp: emap_Inr_iff dest: list_all2_member)
    from canonical_set [OF that(2) this] this
    have "\<forall>a \<in> set (canonical_assignments (sources p) (tagged xs)). da_source a \<noteq> [] \<and> 0 < da_amount a"
      by (auto simp: readable_def)
    from trample_error_eq [OF valid(4) this] show ?thesis by (simp add: trample_respected_def)
  qed
  show ?thesis
  proof (cases "\<exists>xs. emap (parse_assignment (dict_by spec_source (sources p))) raws = Inr xs
      \<and> distinct (map pair_of xs)")
    case True
    then obtain xs where xs: "emap (parse_assignment (dict_by spec_source (sources p))) raws = Inr xs"
      "distinct (map pair_of xs)"
      by blast
    then have "efold (parse_step (dict_by spec_source (sources p))) ([], []) raws
        = Inr (tagged xs, foldl add_total [] xs)"
      using parse_all [of "[]"] by simp
    then show ?thesis
      using xs trample [OF xs] check_totals_eq [of xs "sources p"]
      by (auto simp: validate_assignments_def ebind_eq_Inr Let_def)
  next
    case False
    then have "efold (parse_step (dict_by spec_source (sources p))) ([], []) raws \<noteq> Inr q" for q
      using parse_all [of "[]"] by auto
    with False show ?thesis by (auto simp: validate_assignments_def ebind_eq_Inr)
  qed
qed

lemma canonical_totals:
  assumes "distinct (map pair_of xs)" and "\<forall>a \<in> set xs. readable ss a"
    and "distinct (map spec_source ss)" and "\<forall>s \<in> set ss. distinct (spec_targets s)"
  shows "exact_totals ss (canonical_assignments ss (tagged xs)) \<longleftrightarrow> exact_totals ss xs"
proof -
  have "sum_damage (filter (\<lambda>a. da_source a = x) (canonical_assignments ss (tagged xs)))
      = sum_damage (filter (\<lambda>a. da_source a = x) xs)" for x
  proof -
    have "mset (filter (\<lambda>a. da_source a = x) (canonical_assignments ss (tagged xs)))
        = mset (filter (\<lambda>a. da_source a = x) (filter (\<lambda>a. 0 < da_amount a) xs))"
      using canonical_mset [OF assms] by (metis mset_filter)
    also have "filter (\<lambda>a. da_source a = x) (filter (\<lambda>a. 0 < da_amount a) xs)
        = filter (\<lambda>a. 0 < da_amount a) (filter (\<lambda>a. da_source a = x) xs)"
      by (simp add: conj_commute)
    finally have "sum_damage (filter (\<lambda>a. da_source a = x) (canonical_assignments ss (tagged xs)))
        = sum_damage (filter (\<lambda>a. 0 < da_amount a) (filter (\<lambda>a. da_source a = x) xs))"
      by (rule sum_damage_mset)
    also have "\<dots> = sum_damage (filter (\<lambda>a. da_source a = x) xs)"
      by (rule sum_damage_positive) (use assms(2) in \<open>auto simp: readable_def\<close>)
    finally show ?thesis .
  qed
  then show ?thesis by (simp add: exact_totals_def)
qed

lemma accepted_readable:
  assumes "emap (parse_assignment (dict_by spec_source ss)) raws = Inr xs"
  shows "\<forall>a \<in> set xs. readable ss a"
  using assms parse_assignment_readable by (fastforce simp: emap_Inr_iff dest: list_all2_member)

text \<open>
  C23. Whatever was submitted, an accepted announcement assigns exactly each source's power (nothing
  when it has no recipient), only positive amounts, only from a source to its own recipients, each
  pair at most once, and no trampling attacker spills onto the attacked recipient before every one
  of its blockers has lethal damage, counting damage already marked and deathtouch.
\<close>

theorem accepted_damage_exact:
  assumes "proposal_valid p" and "validate_assignments p submitted = Inr r"
  shows "exact_totals (sources p) r
    \<and> (\<forall>a \<in> set r. 0 < da_amount a \<and> (\<exists>s \<in> set (sources p).
         spec_source s = da_source a \<and> da_target a \<in> set (spec_targets s)))
    \<and> distinct (map pair_of r) \<and> trample_respected p r"
proof -
  note valid = proposal_validD [OF assms(1)]
  obtain raws where "submitted = PList raws"
    using assms(2) by (cases submitted) (simp_all add: validate_assignments_def)
  with assms(2) obtain xs
    where xs: "emap (parse_assignment (dict_by spec_source (sources p))) raws = Inr xs"
      "distinct (map pair_of xs)" "exact_totals (sources p) xs"
    and r: "r = canonical_assignments (sources p) (tagged xs)" and tr: "trample_respected p r"
    using validate_eq [OF assms(1)] by auto
  note readable = accepted_readable [OF xs(1)]
  have "exact_totals (sources p) r"
    using canonical_totals [OF xs(2) readable valid(1,2)] xs(3) by (simp add: r)
  moreover have "\<forall>a \<in> set r. 0 < da_amount a \<and> (\<exists>s \<in> set (sources p).
      spec_source s = da_source a \<and> da_target a \<in> set (spec_targets s))"
    using canonical_set [OF xs(2) readable] readable by (auto simp: r readable_def)
  moreover have "distinct (map pair_of r)"
    using canonical_pairs [OF xs(2)] distinct_pairs [OF valid(1,2)] by (simp add: r)
  ultimately show ?thesis using tr by blast
qed

text \<open>
  C32. The validator accepts every legal announcement, in any order and with zero entries allowed:
  a list of assignments from powered sources to their own recipients is accepted exactly when no
  pair repeats, every source assigns its exact total and trample is respected; the result is the
  same damage without the zero entries.
\<close>

theorem legal_damage_accepted:
  assumes "proposal_valid p"
  shows "(\<exists>r. validate_assignments p (PList (map assignment_to_dict xs)) = Inr r
           \<and> mset r = mset (filter (\<lambda>a. 0 < da_amount a) xs))
    = ((\<forall>a \<in> set xs. readable (sources p) a) \<and> distinct (map pair_of xs)
       \<and> exact_totals (sources p) xs
       \<and> trample_respected p (filter (\<lambda>a. 0 < da_amount a) xs))"
proof -
  note valid = proposal_validD [OF assms]
  have same: "trample_respected p as \<longleftrightarrow> trample_respected p bs" if "mset as = mset bs" for as bs
  proof -
    have filt: "sum_damage (filter P as) = sum_damage (filter P bs)" for P
      by (rule sum_damage_mset) (use that in \<open>metis mset_filter\<close>)
    have "set as = set bs" using that by (rule mset_eq_setD)
    then have "lethal_assigned p as b \<longleftrightarrow> lethal_assigned p bs b" for b
      using filt by (simp add: lethal_assigned_def assigned_to_def Let_def)
    with filt show ?thesis by (simp add: trample_respected_def spilled_def)
  qed
  have "(\<exists>r. validate_assignments p (PList (map assignment_to_dict xs)) = Inr r
        \<and> mset r = mset (filter (\<lambda>a. 0 < da_amount a) xs))
      \<longleftrightarrow> (\<forall>a \<in> set xs. readable (sources p) a) \<and> distinct (map pair_of xs)
        \<and> exact_totals (sources p) xs
        \<and> trample_respected p (canonical_assignments (sources p) (tagged xs))"
    using canonical_mset [OF _ _ valid(1,2), of xs]
    by (auto simp: validate_eq [OF assms] emap_parse_to_dict [OF valid(1)])
  also have "\<dots> \<longleftrightarrow> (\<forall>a \<in> set xs. readable (sources p) a) \<and> distinct (map pair_of xs)
        \<and> exact_totals (sources p) xs \<and> trample_respected p (filter (\<lambda>a. 0 < da_amount a) xs)"
    using canonical_mset [OF _ _ valid(1,2), of xs] same by blast
  finally show ?thesis .
qed

section \<open>Forced announcements\<close>

definition forced :: "source_spec \<Rightarrow> damage_assignment list" where
  "forced s = (if 0 < spec_power s \<and> spec_targets s \<noteq> []
     then [\<lparr>da_source = spec_source s, da_target = hd (spec_targets s), da_amount = spec_power s\<rparr>]
     else [])"

lemma automatic_eq:
  assumes "proposal_valid p" and "automatic_assignments p = Inr (Some as)"
  shows "as = concat (map forced (sources p))" and "\<forall>s \<in> set (sources p). length (spec_targets s) \<le> 1"
proof -
  note valid = proposal_validD [OF assms(1)]
  have "emap (\<lambda>s. assignment_init (spec_source s) (hd (spec_targets s)) (spec_power s))
      (filter (\<lambda>s. 0 < spec_power s \<and> spec_targets s \<noteq> []) ss) = Inr (concat (map forced ss))"
    if "set ss \<subseteq> set (sources p)" for ss
    using that
  proof (induction ss)
    case (Cons s ss)
    then have s: "spec_source s \<noteq> []" "[] \<notin> set (spec_targets s)" using valid(5) by auto
    have "hd (spec_targets s) \<noteq> []" if "spec_targets s \<noteq> []"
      using hd_in_set [OF that] s(2) by metis
    with s Cons show ?case by (simp add: assignment_init_def forced_def ensure_def)
  qed simp
  from this [of "sources p"] assms(2) show "as = concat (map forced (sources p))"
    by (auto simp: automatic_assignments_def ebind_eq_Inr split: if_splits)
  show "\<forall>s \<in> set (sources p). length (spec_targets s) \<le> 1"
    using assms(2) by (auto simp: automatic_assignments_def list_ex_iff split: if_splits)
qed

lemma forced_source:
  "a \<in> set (concat (map forced ss)) \<Longrightarrow> \<exists>s \<in> set ss. da_source a = spec_source s \<and> a \<in> set (forced s)"
  by (auto simp: forced_def split: if_splits)

lemma forced_totals:
  assumes "distinct (map spec_source ss)" and "s \<in> set ss"
  shows "filter (\<lambda>a. da_source a = spec_source s) (concat (map forced ss)) = forced s"
  using assms
proof (induction ss)
  case (Cons x ss)
  have none: "filter (\<lambda>a. da_source a = spec_source y) (concat (map forced ss)) = []"
    if "spec_source y \<notin> spec_source ` set ss" for y
    using that by (auto simp: filter_empty_conv forced_def image_iff split: if_splits)
  have self: "filter (\<lambda>a. da_source a = y) (forced x) = (if y = spec_source x then forced x else [])" for y
    by (simp add: forced_def)
  show ?case
  proof (cases "s = x")
    case True
    with Cons.prems show ?thesis by (simp add: self none)
  next
    case False
    with Cons.prems have "s \<in> set ss" by simp
    moreover from this Cons.prems have "spec_source s \<noteq> spec_source x" by (auto simp: image_iff)
    ultimately have "spec_source s \<noteq> spec_source x" "s \<in> set ss" by simp_all
    with Cons show ?thesis by (simp add: self)
  qed
qed simp

lemma canonical_forced:
  assumes "distinct (map pair_of xs)" and "\<forall>a \<in> set xs. readable ss a"
    and "distinct (map spec_source ss)" and "exact_totals ss xs" and "set ts \<subseteq> set ss"
    and "\<forall>s \<in> set ss. length (spec_targets s) \<le> 1 \<and> 0 \<le> spec_power s"
  shows "canonical_assignments ts (tagged xs) = concat (map forced ts)"
  using assms(5)
proof (induction ts)
  case (Cons s ts)
  then have s: "s \<in> set ss" by simp
  have "filter (\<lambda>a. 0 < da_amount a) (concat (map (\<lambda>t. case map_of (tagged xs) (spec_source s, t) of
      None \<Rightarrow> [] | Some a \<Rightarrow> [a]) (spec_targets s))) = forced s"
  proof (cases "spec_targets s")
    case Nil
    then show ?thesis by (simp add: forced_def)
  next
    case targets: (Cons t ts')
    have t: "spec_targets s = [t]" using targets assms(6) s by (cases ts') auto
    have only: "da_target a = t" if "a \<in> set xs" "da_source a = spec_source s" for a
    proof -
      from assms(2) that obtain s' where "s' \<in> set ss" "spec_source s' = spec_source s"
        "da_target a \<in> set (spec_targets s')"
        by (auto simp: readable_def)
      then have "s' = s" using assms(3) s by (metis distinct_map inj_on_eq_iff)
      with t \<open>da_target a \<in> set (spec_targets s')\<close> show ?thesis by simp
    qed
    have total: "sum_damage (filter (\<lambda>a. da_source a = spec_source s) xs) = spec_power s"
      using assms(4) s t by (auto simp: exact_totals_def required_def)
    show ?thesis
    proof (cases "map_of (tagged xs) (spec_source s, t)")
      case None
      have "filter (\<lambda>a. da_source a = spec_source s) xs = []"
      proof (rule ccontr)
        assume "filter (\<lambda>a. da_source a = spec_source s) xs \<noteq> []"
        then obtain a where "a \<in> set xs" "da_source a = spec_source s" by (auto simp: filter_empty_conv)
        then show False
          using only map_of_tagged [OF assms(1), of "(spec_source s, t)" a] None
          by (simp add: pair_of_def)
      qed
      with total None t show ?thesis by (simp add: forced_def)
    next
      case (Some a)
      then have a: "a \<in> set xs" "da_source a = spec_source s" "da_target a = t"
        using map_of_tagged [OF assms(1)] by (auto simp: pair_of_def)
      have "set (filter (\<lambda>a. da_source a = spec_source s) xs) = {a}"
      proof -
        have "b = a" if "b \<in> set xs" "da_source b = spec_source s" for b
        proof -
          have "inj_on pair_of (set xs)" using assms(1) by (simp add: distinct_map)
          moreover have "pair_of b = pair_of a" using only [OF that] that(2) a by (simp add: pair_of_def)
          ultimately show ?thesis using that(1) a(1) by (rule inj_onD)
        qed
        with a(1,2) show ?thesis unfolding set_filter by blast
      qed
      moreover have "distinct (filter (\<lambda>a. da_source a = spec_source s) xs)"
        using assms(1) by (simp add: distinct_map)
      ultimately have "filter (\<lambda>a. da_source a = spec_source s) xs = [a]"
        by (intro distinct_singleton)
      with total have "da_amount a = spec_power s" by simp
      with a have "a = \<lparr>da_source = spec_source s, da_target = t, da_amount = spec_power s\<rparr>"
        by (intro damage_assignment.equality) simp_all
      with Some t show ?thesis by (simp add: forced_def)
    qed
  qed
  with Cons show ?case by (simp add: canonical_assignments_def)
qed (simp add: canonical_assignments_def)

text \<open>
  When no source has a choice the announcement is forced: the automatic assignments are
  themselves accepted unchanged, and every accepted submission is exactly them.
\<close>

theorem forced_damage_unique:
  assumes "proposal_valid p" and "automatic_assignments p = Inr (Some as)"
  shows "validate_assignments p (PList (map assignment_to_dict as)) = Inr as
    \<and> (\<forall>submitted r. validate_assignments p submitted = Inr r \<longrightarrow> r = as)"
proof (intro conjI allI impI)
  note valid = proposal_validD [OF assms(1)]
  note as = automatic_eq [OF assms]
  have small: "\<forall>s \<in> set (sources p). length (spec_targets s) \<le> 1 \<and> 0 \<le> spec_power s"
    using as(2) valid(3) by blast
  have readable: "\<forall>a \<in> set as. readable (sources p) a"
  proof
    fix a
    assume "a \<in> set as"
    then obtain s where s: "s \<in> set (sources p)" "a \<in> set (forced s)"
      using forced_source by (metis as(1))
    then have a: "a = \<lparr>da_source = spec_source s, da_target = hd (spec_targets s),
        da_amount = spec_power s\<rparr>" "0 < spec_power s" "hd (spec_targets s) \<in> set (spec_targets s)"
      by (auto simp: forced_def split: if_splits)
    moreover have "spec_source s \<noteq> []" "hd (spec_targets s) \<noteq> []"
      using valid(5) s(1) a(3) by metis+
    ultimately show "readable (sources p) a" using s(1) by (auto simp: readable_def)
  qed
  have distinct: "distinct (map pair_of as)"
  proof -
    have "distinct (map spec_source ss) \<Longrightarrow> distinct (map da_source (concat (map forced ss)))" for ss
    proof (induction ss)
      case (Cons s ss)
      have "da_source ` set (concat (map forced ss)) \<subseteq> spec_source ` set ss"
        by (auto simp: forced_def split: if_splits)
      with Cons show ?case by (auto simp: forced_def)
    qed simp
    then have "distinct (map da_source as)" using valid(1) by (simp add: as(1))
    moreover have "map da_source as = map fst (map pair_of as)" by (simp add: pair_of_def comp_def)
    ultimately show ?thesis by (metis distinct_map)
  qed
  have totals: "exact_totals (sources p) as"
    using forced_totals [OF valid(1)] valid(3)
    by (auto simp: exact_totals_def as(1) forced_def required_def)
  have canonical: "canonical_assignments (sources p) (tagged xs) = as"
    if "distinct (map pair_of xs)" "\<forall>a \<in> set xs. readable (sources p) a" "exact_totals (sources p) xs"
    for xs
    using canonical_forced [OF that(1,2) valid(1) that(3) subset_refl small] by (simp add: as(1))
  have trample: "trample_respected p as"
    unfolding trample_respected_def
  proof (intro ballI impI)
    fix spec b
    assume spec: "spec \<in> set (trample_sources p)" and b: "b \<in> set (trample_blockers spec)"
    from valid(6) spec obtain s where s: "s \<in> set (sources p)" "spill_target spec \<in> set (spec_targets s)"
      and bs: "map fst (trample_blockers spec) = filter (\<lambda>t. t \<noteq> spill_target spec) (spec_targets s)"
      by blast
    have "spec_targets s = [spill_target spec]"
      using s small by (cases "spec_targets s") force+
    with bs b show "lethal_assigned p as b" by (cases "trample_blockers spec") simp_all
  qed
  show "validate_assignments p (PList (map assignment_to_dict as)) = Inr as"
    using readable distinct totals canonical [OF distinct readable totals] trample
    by (auto simp: validate_eq [OF assms(1)] emap_parse_to_dict [OF valid(1)])
  fix submitted r
  assume v: "validate_assignments p submitted = Inr r"
  then obtain raws where "submitted = PList raws"
    by (cases submitted) (simp_all add: validate_assignments_def)
  with v obtain xs where "emap (parse_assignment (dict_by spec_source (sources p))) raws = Inr xs"
    "distinct (map pair_of xs)" "exact_totals (sources p) xs"
    and "r = canonical_assignments (sources p) (tagged xs)"
    using validate_eq [OF assms(1)] by auto
  then show "r = as" using canonical accepted_readable by blast
qed

section \<open>A concrete announcement\<close>

text \<open>A 5/5 trampler and a deathtouch attacker, both blocked by the same 2/4 creature.\<close>

definition sample_proposal :: "proposal" where
  "sample_proposal =
     \<lparr>damage_step_id = ''d1'', actor = ''A'',
      sources =
        [\<lparr>spec_source = ''rhino'', spec_controller = ''A'', spec_logical = ''o1@0'', spec_power = 5,
          spec_targets = [''wall'', ''B'']\<rparr>,
         \<lparr>spec_source = ''snake'', spec_controller = ''A'', spec_logical = ''o2@0'', spec_power = 1,
          spec_targets = [''wall'']\<rparr>],
      attacking_sources = {''rhino'', ''snake''}, deathtouch_sources = {''snake''},
      trample_sources =
        [\<lparr>trampler = ''rhino'', spill_target = ''B'',
          trample_blockers = [(''wall'', \<lparr>toughness = 4, damage_marked = 0\<rparr>)]\<rparr>]\<rparr>"

lemma sample_proposal_valid: "proposal_valid sample_proposal"
  by code_simp

definition sample_submission :: "damage_assignment list" where
  "sample_submission =
     [\<lparr>da_source = ''snake'', da_target = ''wall'', da_amount = 1\<rparr>,
      \<lparr>da_source = ''rhino'', da_target = ''B'', da_amount = 5\<rparr>,
      \<lparr>da_source = ''rhino'', da_target = ''wall'', da_amount = 0\<rparr>]"

theorem accepted_damage_exact_witness:
  "\<exists>r. validate_assignments sample_proposal (PList (map assignment_to_dict sample_submission)) = Inr r
     \<and> exact_totals (sources sample_proposal) r \<and> trample_respected sample_proposal r"
proof -
  have "validate_assignments sample_proposal (PList (map assignment_to_dict sample_submission))
      = Inr [sample_submission ! 1, sample_submission ! 0]"
    by code_simp
  with accepted_damage_exact [OF sample_proposal_valid this] show ?thesis by blast
qed

theorem legal_damage_accepted_witness:
  "\<exists>r. validate_assignments sample_proposal (PList (map assignment_to_dict sample_submission)) = Inr r
     \<and> mset r = mset (filter (\<lambda>a. 0 < da_amount a) sample_submission)"
proof -
  have "\<forall>a \<in> set sample_submission. readable (sources sample_proposal) a" by code_simp
  moreover have "distinct (map pair_of sample_submission)" by code_simp
  moreover have "exact_totals (sources sample_proposal) sample_submission" by code_simp
  moreover have "trample_respected sample_proposal (filter (\<lambda>a. 0 < da_amount a) sample_submission)"
    by code_simp
  ultimately show ?thesis
    using legal_damage_accepted [OF sample_proposal_valid, of sample_submission] by blast
qed

definition forced_proposal :: "proposal" where
  "forced_proposal = sample_proposal\<lparr>sources := map (\<lambda>s. s\<lparr>spec_targets := [''wall'']\<rparr>)
     (sources sample_proposal), trample_sources := []\<rparr>"

theorem forced_damage_unique_witness:
  "\<exists>as. automatic_assignments forced_proposal = Inr (Some as) \<and> length as = 2
     \<and> validate_assignments forced_proposal (PList (map assignment_to_dict as)) = Inr as"
proof -
  have valid: "proposal_valid forced_proposal" by code_simp
  have auto: "automatic_assignments forced_proposal = Inr (Some
      [\<lparr>da_source = ''rhino'', da_target = ''wall'', da_amount = 5\<rparr>,
       \<lparr>da_source = ''snake'', da_target = ''wall'', da_amount = 1\<rparr>])"
    by code_simp
  from forced_damage_unique [OF valid auto] auto show ?thesis by simp
qed

end
