(* ===== verification/Damage_Snapshot.thy ===== *)
theory Damage_Snapshot imports Damage_Assignment
begin

text \<open>
  The closed input of a combat-damage step: participants, attacked recipients and block relations
  (\<open>quorune/combat_damage_snapshot.py\<close>), the builder that reads them through a query of the
  live state, and the lowering of a snapshot to one seat's proposal
  (\<open>build_combat_damage_assignment_proposal\<close>, \<open>quorune/combat_damage_projection.py\<close>).
  The query is the interface to the engine: a record of its answers, each of which may raise.
\<close>

section \<open>Participants, recipients and relations\<close>

datatype snapshot_error =
    EmptyIdentity string
  | BelowZero string
  | UnsupportedRecipientKind string
  | PlayerWithObject
  | ParticipantsNotUnique string
  | RepeatedAttacker
  | AttackerNotParticipant
  | AttackerNotActive
  | RepeatedBlock
  | OpenBlock
  | AttackerAndBlocker
  | ParticipantWithoutRelation
  | BlockedNotAttacker
  | BlockedNotMarked
  | QueryIdentities string
  | QueryMismatch
  | QueryFailed string

record participant =
  p_object_id :: string
  p_reference :: string
  p_controller :: string
  p_power :: int
  p_toughness :: int
  p_marked :: int
  p_keywords :: "string set"
  p_assigns :: bool
  p_logical :: string

definition participant_init :: "participant \<Rightarrow> snapshot_error + participant" where
  "participant_init p =
     ebind (ensure (p_object_id p \<noteq> []) (EmptyIdentity ''Participant object identity'')) (\<lambda>_.
     ebind (ensure (p_reference p \<noteq> []) (EmptyIdentity ''Participant reference'')) (\<lambda>_.
     ebind (ensure (p_controller p \<noteq> []) (EmptyIdentity ''Participant controller'')) (\<lambda>_.
     let logical = (if p_logical p \<noteq> [] then p_logical p else p_object_id p) in
     ebind (ensure (0 \<le> p_marked p) (BelowZero ''Participant marked damage'')) (\<lambda>_.
     ebind (ensure ([] \<notin> p_keywords p) (EmptyIdentity ''Participant ability'')) (\<lambda>_.
     Inr (p\<lparr>p_logical := logical, p_keywords := casefold ` p_keywords p\<rparr>))))))"

record recipient =
  r_reference :: string
  r_logical :: string
  r_controller :: string
  r_kind :: string
  r_legal :: bool
  r_object_id :: "string option"

definition recipient_init :: "recipient \<Rightarrow> snapshot_error + recipient" where
  "recipient_init r =
     ebind (ensure (r_reference r \<noteq> []) (EmptyIdentity ''Attack recipient reference'')) (\<lambda>_.
     ebind (ensure (r_logical r \<noteq> []) (EmptyIdentity ''Attack recipient logical identity'')) (\<lambda>_.
     ebind (ensure (r_controller r \<noteq> []) (EmptyIdentity ''Attack recipient controller'')) (\<lambda>_.
     ebind (ensure (r_kind r \<in> {''player'', ''planeswalker'', ''battle''})
              (UnsupportedRecipientKind (r_kind r))) (\<lambda>_.
     ebind (if r_kind r = ''player'' then ensure (r_object_id r = None) PlayerWithObject
            else ensure (r_object_id r \<noteq> None \<and> r_object_id r \<noteq> Some [])
                   (EmptyIdentity ''Permanent recipient object identity'')) (\<lambda>_.
     Inr r)))))"

record attack_relationship =
  source_object :: string
  attack_recipient :: recipient

definition attack_init :: "string \<Rightarrow> recipient \<Rightarrow> snapshot_error + attack_relationship" where
  "attack_init source r =
     ebind (ensure (source \<noteq> []) (EmptyIdentity ''Attacker object identity'')) (\<lambda>_.
     Inr \<lparr>source_object = source, attack_recipient = r\<rparr>)"

record block_relationship =
  attacker_object :: string
  blocker_object :: string

definition block_init :: "string \<Rightarrow> string \<Rightarrow> snapshot_error + block_relationship" where
  "block_init attacker blocker =
     ebind (ensure (attacker \<noteq> []) (EmptyIdentity ''Blocked attacker identity'')) (\<lambda>_.
     ebind (ensure (blocker \<noteq> []) (EmptyIdentity ''Blocker object identity'')) (\<lambda>_.
     Inr \<lparr>attacker_object = attacker, blocker_object = blocker\<rparr>))"

section \<open>Snapshots\<close>

record snapshot =
  snap_step_id :: string
  snap_step_index :: int
  snap_first_strike :: bool
  snap_active_player :: string
  participants :: "participant list"
  attacks :: "attack_relationship list"
  blocks :: "block_relationship list"
  was_blocked :: "string set"

definition block_pair :: "block_relationship \<Rightarrow> string \<times> string" where
  "block_pair b = (attacker_object b, blocker_object b)"

definition attacker_controller_ok :: "snapshot \<Rightarrow> string \<Rightarrow> bool" where
  "attacker_controller_ok s attacker \<longleftrightarrow>
     (case map_of (dict_by p_object_id (participants s)) attacker of
        None \<Rightarrow> False | Some p \<Rightarrow> p_controller p = snap_active_player s)"

definition snapshot_init :: "snapshot \<Rightarrow> snapshot_error + snapshot" where
  "snapshot_init s =
     ebind (ensure (snap_step_id s \<noteq> []) (EmptyIdentity ''Combat damage-step identity'')) (\<lambda>_.
     ebind (ensure (0 \<le> snap_step_index s) (BelowZero ''Combat damage-step index'')) (\<lambda>_.
     ebind (ensure (snap_active_player s \<noteq> []) (EmptyIdentity ''Active player'')) (\<lambda>_.
     let ids = map p_object_id (participants s);
         attack_ids = map source_object (attacks s);
         block_pairs = map block_pair (blocks s);
         blocker_ids = map snd block_pairs in
     ebind (ensure (distinct ids) (ParticipantsNotUnique ''object identities'')) (\<lambda>_.
     ebind (ensure (distinct (map p_reference (participants s))) (ParticipantsNotUnique ''references'')) (\<lambda>_.
     ebind (ensure (distinct (map p_logical (participants s))) (ParticipantsNotUnique ''logical identities'')) (\<lambda>_.
     ebind (ensure (distinct attack_ids) RepeatedAttacker) (\<lambda>_.
     ebind (ensure (set attack_ids \<subseteq> set ids) AttackerNotParticipant) (\<lambda>_.
     ebind (ensure (list_all (attacker_controller_ok s) attack_ids) AttackerNotActive) (\<lambda>_.
     ebind (ensure (distinct block_pairs) RepeatedBlock) (\<lambda>_.
     ebind (ensure (list_all (\<lambda>(a, b). a \<in> set attack_ids \<and> b \<in> set ids) block_pairs) OpenBlock) (\<lambda>_.
     ebind (ensure (set attack_ids \<inter> set blocker_ids = {}) AttackerAndBlocker) (\<lambda>_.
     ebind (ensure (set ids = set attack_ids \<union> set blocker_ids) ParticipantWithoutRelation) (\<lambda>_.
     ebind (ensure (was_blocked s \<subseteq> set attack_ids) BlockedNotAttacker) (\<lambda>_.
     ebind (ensure (set (map fst block_pairs) \<subseteq> was_blocked s) BlockedNotMarked) (\<lambda>_.
     Inr s)))))))))))))))"

section \<open>Reading the live state\<close>

record damage_query =
  q_step_identity :: "snapshot_error + string"
  q_step_index :: "snapshot_error + int"
  q_first_strike :: "snapshot_error + bool"
  q_active_player :: "snapshot_error + string"
  q_participant_ids :: "snapshot_error + string list"
  q_participant :: "string \<Rightarrow> snapshot_error + participant"
  q_attacker_ids :: "snapshot_error + string list"
  q_recipient :: "string \<Rightarrow> snapshot_error + recipient"
  q_blocker_ids :: "string \<Rightarrow> snapshot_error + string list"
  q_was_blocked :: "string \<Rightarrow> snapshot_error + bool"

definition checked_ids :: "string \<Rightarrow> string list \<Rightarrow> snapshot_error + unit" where
  "checked_ids label ids = ensure (distinct ids \<and> list_all (\<lambda>i. i \<noteq> []) ids) (QueryIdentities label)"

definition reference_of :: "(string, participant) dict \<Rightarrow> string \<Rightarrow> string" where
  "reference_of by_id i = p_reference (the (map_of by_id i))"

definition read_attack :: "damage_query \<Rightarrow> string \<Rightarrow> snapshot_error + attack_relationship" where
  "read_attack q attacker = ebind (q_recipient q attacker) (\<lambda>r. attack_init attacker r)"

definition read_blocks ::
  "damage_query \<Rightarrow> (string, participant) dict \<Rightarrow> attack_relationship
     \<Rightarrow> snapshot_error + block_relationship list \<times> string list" where
  "read_blocks q by_id attack =
     (let attacker = source_object attack in
      ebind (q_blocker_ids q attacker) (\<lambda>blocker_ids.
      ebind (checked_ids ''blocker'' blocker_ids) (\<lambda>_.
      ebind (q_was_blocked q attacker) (\<lambda>blocked.
      ebind (ensure (list_all (\<lambda>i. map_of by_id i \<noteq> None) blocker_ids) (QueryIdentities ''blocker'')) (\<lambda>_.
      ebind (emap (block_init attacker) blocker_ids) (\<lambda>bs.
      Inr (bs, if blocked then [attacker] else [])))))))"

definition build_combat_damage_snapshot :: "damage_query \<Rightarrow> snapshot_error + snapshot" where
  "build_combat_damage_snapshot q =
     ebind (q_participant_ids q) (\<lambda>participant_ids.
     ebind (checked_ids ''participant'' participant_ids) (\<lambda>_.
     ebind (emap (q_participant q) participant_ids) (\<lambda>ps.
     ebind (ensure (map p_object_id ps = participant_ids) QueryMismatch) (\<lambda>_.
     let canonical = sort_key (\<lambda>p. (p_reference p, p_object_id p)) ps in
     ebind (q_attacker_ids q) (\<lambda>attacker_ids.
     ebind (checked_ids ''attacker'' attacker_ids) (\<lambda>_.
     let by_id = dict_by p_object_id canonical in
     ebind (ensure (list_all (\<lambda>i. map_of by_id i \<noteq> None) attacker_ids) (QueryIdentities ''attacker'')) (\<lambda>_.
     ebind (emap (read_attack q) attacker_ids) (\<lambda>as.
     let sorted_attacks = sort_key (\<lambda>a. (reference_of by_id (source_object a), source_object a)) as in
     ebind (emap (read_blocks q by_id) sorted_attacks) (\<lambda>relations.
     let sorted_blocks = sort_key (\<lambda>b. (reference_of by_id (attacker_object b),
           reference_of by_id (blocker_object b))) (concat (map fst relations)) in
     ebind (q_step_identity q) (\<lambda>step_id.
     ebind (q_step_index q) (\<lambda>step_index.
     ebind (q_first_strike q) (\<lambda>first_strike.
     ebind (q_active_player q) (\<lambda>active.
     snapshot_init
       \<lparr>snap_step_id = step_id, snap_step_index = step_index, snap_first_strike = first_strike,
        snap_active_player = active, participants = canonical, attacks = sorted_attacks,
        blocks = sorted_blocks, was_blocked = set (concat (map snd relations))\<rparr>)))))))))))))"

section \<open>Lowering a snapshot to a proposal\<close>

definition blockers_of :: "snapshot \<Rightarrow> string \<Rightarrow> string list" where
  "blockers_of s attacker =
     map blocker_object (filter (\<lambda>b. attacker_object b = attacker) (blocks s))"

definition attackers_of :: "snapshot \<Rightarrow> string \<Rightarrow> string list" where
  "attackers_of s blocker =
     map attacker_object (filter (\<lambda>b. blocker_object b = blocker) (blocks s))"

datatype lowering_error =
    SnapshotReference
  | NoClosedRelationship string
  | LoweredValue damage_error

definition lookup_participant ::
  "(string, participant) dict \<Rightarrow> string \<Rightarrow> lowering_error + participant" where
  "lookup_participant by_id i = option_raise SnapshotReference (map_of by_id i)"

definition blocker_state :: "participant \<Rightarrow> lowering_error + string \<times> creature_damage_state" where
  "blocker_state p =
     ebind (reraise LoweredValue (creature_state_init (p_toughness p) (p_marked p))) (\<lambda>st.
     Inr (p_reference p, st))"

text \<open>One eligible participant: its targets, and the trample entry of a blocked trampler.\<close>

definition lower_participant ::
  "snapshot \<Rightarrow> (string, participant) dict \<Rightarrow> participant
     \<Rightarrow> lowering_error + source_spec \<times> trample_spec list" where
  "lower_participant s by_id p =
     ebind (case map_of (dict_by source_object (attacks s)) (p_object_id p) of
        Some attack \<Rightarrow>
          let r = attack_recipient attack in
          ebind (emap (lookup_participant by_id) (blockers_of s (p_object_id p))) (\<lambda>bs.
          let blocker_refs = map p_reference bs in
          if p_object_id p \<in> was_blocked s then
            if ''trample'' \<in> p_keywords p \<and> r_legal r then
              ebind (emap blocker_state bs) (\<lambda>states.
              ebind (reraise LoweredValue (trample_init (p_reference p) (r_reference r) states)) (\<lambda>t.
              Inr (blocker_refs @ [r_reference r], [t])))
            else Inr (blocker_refs, [])
          else Inr (if r_legal r then [r_reference r] else [], []))
      | None \<Rightarrow>
          if attackers_of s (p_object_id p) \<noteq> [] then
            ebind (emap (lookup_participant by_id) (attackers_of s (p_object_id p))) (\<lambda>as.
            Inr (map p_reference as, []))
          else Inl (NoClosedRelationship (p_reference p)))
     (\<lambda>(targets, tramples).
     ebind (reraise LoweredValue (source_spec_init
        \<lparr>spec_source = p_reference p, spec_controller = p_controller p,
         spec_logical = p_logical p, spec_power = max 0 (p_power p), spec_targets = targets\<rparr>)) (\<lambda>spec.
     Inr (spec, tramples)))"

definition build_proposal :: "string \<Rightarrow> snapshot \<Rightarrow> lowering_error + proposal" where
  "build_proposal seat s =
     ebind (ensure (seat \<noteq> []) (LoweredValue (NotIdentity ''Assignment seat''))) (\<lambda>_.
     let by_id = dict_by p_object_id (participants s);
         mine = filter (\<lambda>p. p_controller p = seat \<and> p_assigns p) (participants s);
         attacking = filter (\<lambda>p. p_object_id p \<in> set (map source_object (attacks s))) mine in
     ebind (emap (lower_participant s by_id) mine) (\<lambda>lowered.
     reraise LoweredValue (proposal_init
       \<lparr>damage_step_id = snap_step_id s, actor = seat, sources = map fst lowered,
        attacking_sources = set (map p_reference attacking),
        deathtouch_sources = set (map p_reference (filter (\<lambda>p. ''deathtouch'' \<in> p_keywords p) attacking)),
        trample_sources = concat (map snd lowered)\<rparr>)))"

datatype projection_error = ProjectionSnapshot snapshot_error | ProjectionLowering lowering_error

definition project_combat_damage_assignment ::
  "damage_query \<Rightarrow> string \<Rightarrow> projection_error + proposal" where
  "project_combat_damage_assignment q seat =
     ebind (reraise ProjectionSnapshot (build_combat_damage_snapshot q)) (\<lambda>s.
     reraise ProjectionLowering (build_proposal seat s))"

section \<open>What the snapshot checks establish\<close>

lemma snapshot_initD:
  assumes "snapshot_init s = Inr s'"
  shows "s' = s" and "snap_step_id s \<noteq> []" and "distinct (map p_object_id (participants s))"
    and "distinct (map p_reference (participants s))" and "distinct (map p_logical (participants s))"
    and "distinct (map source_object (attacks s))"
    and "source_object ` set (attacks s) \<subseteq> p_object_id ` set (participants s)"
    and "distinct (map block_pair (blocks s))"
    and "\<forall>b \<in> set (blocks s). attacker_object b \<in> source_object ` set (attacks s)
           \<and> blocker_object b \<in> p_object_id ` set (participants s)"
    and "p_object_id ` set (participants s)
           = source_object ` set (attacks s) \<union> blocker_object ` set (blocks s)"
    and "attacker_object ` set (blocks s) \<subseteq> was_blocked s"
    and "source_object ` set (attacks s) \<inter> blocker_object ` set (blocks s) = {}"
  using assms
  by (auto simp: snapshot_init_def Let_def ebind_ensure_Inr list_all_iff block_pair_def image_image
      comp_def)

lemma by_id_participant:
  assumes "distinct (map p_object_id ps)"
  shows "map_of (dict_by p_object_id ps) i = Some p \<longleftrightarrow> p \<in> set ps \<and> p_object_id p = i"
  by (rule map_of_dict_by) fact

section \<open>The order of the live state does not matter\<close>

text \<open>Two queries that answer alike except for the order of their lists.\<close>

definition same_lists :: "snapshot_error + string list \<Rightarrow> snapshot_error + string list \<Rightarrow> bool" where
  "same_lists a b \<longleftrightarrow> (case (a, b) of
     (Inr xs, Inr ys) \<Rightarrow> mset xs = mset ys | (Inl e, Inl f) \<Rightarrow> e = f | _ \<Rightarrow> False)"

definition same_view :: "damage_query \<Rightarrow> damage_query \<Rightarrow> bool" where
  "same_view q q' \<longleftrightarrow>
     same_lists (q_participant_ids q) (q_participant_ids q')
     \<and> same_lists (q_attacker_ids q) (q_attacker_ids q')
     \<and> (\<forall>i. same_lists (q_blocker_ids q i) (q_blocker_ids q' i))
     \<and> q_step_identity q' = q_step_identity q \<and> q_step_index q' = q_step_index q
     \<and> q_first_strike q' = q_first_strike q \<and> q_active_player q' = q_active_player q
     \<and> q_participant q' = q_participant q \<and> q_recipient q' = q_recipient q
     \<and> q_was_blocked q' = q_was_blocked q"

lemma same_listsD:
  assumes "same_lists a b" and "a = Inr xs"
  obtains ys where "b = Inr ys" and "mset ys = mset xs"
  using assms by (cases b) (auto simp: same_lists_def)

lemma checked_ids_eq [simp]:
  "checked_ids label ids = Inr u \<longleftrightarrow> distinct ids \<and> [] \<notin> set ids"
  by (auto simp: checked_ids_def list_all_iff)

lemma checked_ids_permutation:
  assumes "mset ys = mset xs"
  shows "distinct ys \<and> [] \<notin> set ys \<longleftrightarrow> distinct xs \<and> [] \<notin> set xs"
  using assms mset_eq_imp_distinct_iff mset_eq_setD by blast

lemma read_attack_object: "read_attack q i = Inr a \<Longrightarrow> source_object a = i"
  by (auto simp: read_attack_def attack_init_def ebind_eq_Inr)

lemma emap_block_init:
  assumes "attacker \<noteq> []" and "[] \<notin> set ids"
  shows "emap (block_init attacker) ids
    = Inr (map (\<lambda>i. \<lparr>attacker_object = attacker, blocker_object = i\<rparr>) ids)"
  by (rule emap_total) (use assms in \<open>auto simp: block_init_def ensure_def\<close>)

lemma block_init_nonempty: "block_init a b = Inr r \<Longrightarrow> a \<noteq> [] \<and> b \<noteq> []"
  by (auto simp: block_init_def ebind_ensure_Inr)

lemma read_blocks_permutation:
  assumes "same_view q q'" and "read_blocks q by_id attack = Inr (bs, w)"
  shows "\<exists>bs'. read_blocks q' by_id attack = Inr (bs', w) \<and> mset bs' = mset bs"
proof -
  let ?a = "source_object attack"
  from assms(2) obtain ids blocked where ids: "q_blocker_ids q ?a = Inr ids"
    and ok: "distinct ids" "[] \<notin> set ids"
    and blocked: "q_was_blocked q ?a = Inr blocked" "w = (if blocked then [?a] else [])"
    and known: "list_all (\<lambda>i. map_of by_id i \<noteq> None) ids"
    and bs: "emap (block_init ?a) ids = Inr bs"
    by (auto simp: read_blocks_def Let_def ebind_eq_Inr)
  from assms(1) have "same_lists (q_blocker_ids q ?a) (q_blocker_ids q' ?a)"
    by (simp add: same_view_def)
  from this ids obtain ids' where ids': "q_blocker_ids q' ?a = Inr ids'" "mset ids' = mset ids"
    by (rule same_listsD)
  from emap_permutation [OF bs ids'(2)] obtain bs'
    where bs': "emap (block_init ?a) ids' = Inr bs'" "mset bs' = mset bs"
    by blast
  have "distinct ids' \<and> [] \<notin> set ids'" using checked_ids_permutation [OF ids'(2)] ok by blast
  moreover have "list_all (\<lambda>i. map_of by_id i \<noteq> None) ids'"
    using known mset_eq_setD [OF ids'(2)] by (simp add: list_all_iff)
  moreover have "q_was_blocked q' ?a = Inr blocked"
    using assms(1) blocked by (simp add: same_view_def)
  ultimately have "read_blocks q' by_id attack = Inr (bs', w)"
    using ids' bs' blocked(2) by (auto simp: read_blocks_def Let_def ebind_eq_Inr ensure_def)
  with bs'(2) show ?thesis by blast
qed

lemma read_all_blocks_permutation:
  assumes "same_view q q'" and "emap (read_blocks q by_id) as = Inr rs"
  shows "\<exists>rs'. emap (read_blocks q' by_id) as = Inr rs'
    \<and> mset (concat (map fst rs')) = mset (concat (map fst rs)) \<and> map snd rs' = map snd rs"
  using assms(2)
proof (induction as arbitrary: rs)
  case (Cons a as)
  then obtain bs w rest where a: "read_blocks q by_id a = Inr (bs, w)"
    and rest: "emap (read_blocks q by_id) as = Inr rest" and rs: "rs = (bs, w) # rest"
    by (auto simp: ebind_eq_Inr)
  from read_blocks_permutation [OF assms(1) a] obtain bs'
    where "read_blocks q' by_id a = Inr (bs', w)" "mset bs' = mset bs"
    by blast
  with Cons.IH [OF rest] show ?case by (auto simp: rs)
qed simp

lemma sort_by_identity:
  assumes "mset ys = mset xs" and "distinct (map g xs)"
  shows "sort_key (\<lambda>x. (f x, g x)) ys = sort_key (\<lambda>x. (f x, g x)) xs"
proof -
  have "inj_on (\<lambda>x. (f x, g x)) (set xs)" and "distinct xs"
    using assms(2) by (auto simp: distinct_map inj_on_def)
  then show ?thesis using sort_key_permutation [OF assms(1) [symmetric]] by metis
qed

text \<open>
  A damage snapshot is canonical: whatever order the live state lists participants, attackers
  and blockers in, the same state gives the same snapshot.
\<close>

theorem snapshot_order_independent:
  assumes "same_view q q'" and "build_combat_damage_snapshot q = Inr s"
  shows "build_combat_damage_snapshot q' = Inr s"
proof -
  from assms(2) obtain ids ps ats as rs stp idx fs act
    where ids: "q_participant_ids q = Inr ids" "distinct ids" "[] \<notin> set ids"
    and ps: "emap (q_participant q) ids = Inr ps" "map p_object_id ps = ids"
    and ats: "q_attacker_ids q = Inr ats" "distinct ats" "[] \<notin> set ats"
    and known: "list_all (\<lambda>i. map_of (dict_by p_object_id
      (sort_key (\<lambda>p. (p_reference p, p_object_id p)) ps)) i \<noteq> None) ats"
    and as: "emap (read_attack q) ats = Inr as"
    and rs: "emap (read_blocks q (dict_by p_object_id
        (sort_key (\<lambda>p. (p_reference p, p_object_id p)) ps)))
      (sort_key (\<lambda>a. (reference_of (dict_by p_object_id
        (sort_key (\<lambda>p. (p_reference p, p_object_id p)) ps)) (source_object a), source_object a)) as) = Inr rs"
    and rest: "q_step_identity q = Inr stp" "q_step_index q = Inr idx" "q_first_strike q = Inr fs"
      "q_active_player q = Inr act"
    and init: "snapshot_init
       \<lparr>snap_step_id = stp, snap_step_index = idx, snap_first_strike = fs,
        snap_active_player = act, participants = sort_key (\<lambda>p. (p_reference p, p_object_id p)) ps,
        attacks = sort_key (\<lambda>a. (reference_of (dict_by p_object_id
          (sort_key (\<lambda>p. (p_reference p, p_object_id p)) ps)) (source_object a), source_object a)) as,
        blocks = sort_key (\<lambda>b. (reference_of (dict_by p_object_id
            (sort_key (\<lambda>p. (p_reference p, p_object_id p)) ps)) (attacker_object b),
           reference_of (dict_by p_object_id
            (sort_key (\<lambda>p. (p_reference p, p_object_id p)) ps)) (blocker_object b))) (concat (map fst rs)),
        was_blocked = set (concat (map snd rs))\<rparr> = Inr s"
    unfolding build_combat_damage_snapshot_def Let_def ebind_eq_Inr checked_ids_eq ensure_eq_Inr
    by (elim exE conjE) (rule that; assumption)
  define canonical where "canonical = sort_key (\<lambda>p. (p_reference p, p_object_id p)) ps"
  define by_id where "by_id = dict_by p_object_id canonical"
  define sorted_attacks where
    "sorted_attacks = sort_key (\<lambda>a. (reference_of by_id (source_object a), source_object a)) as"
  note folds = canonical_def [symmetric] by_id_def [symmetric] sorted_attacks_def [symmetric]
  note known = known [unfolded folds] and rs = rs [unfolded folds] and init = init [unfolded folds]
  have q': "q_participant q' = q_participant q" "q_recipient q' = q_recipient q"
    "q_step_identity q' = Inr stp" "q_step_index q' = Inr idx" "q_first_strike q' = Inr fs"
    "q_active_player q' = Inr act"
    using assms(1) rest by (simp_all add: same_view_def)
  from assms(1) have "same_lists (q_participant_ids q) (q_participant_ids q')"
    and "same_lists (q_attacker_ids q) (q_attacker_ids q')" by (simp_all add: same_view_def)
  from same_listsD [OF this(1) ids(1)] same_listsD [OF this(2) ats(1)] obtain ids' ats'
    where ids': "q_participant_ids q' = Inr ids'" "mset ids' = mset ids"
      and ats': "q_attacker_ids q' = Inr ats'" "mset ats' = mset ats"
    by metis
  from emap_permutation [OF ps(1) ids'(2)] obtain ps'
    where ps': "emap (q_participant q') ids' = Inr ps'" "mset ps' = mset ps"
    by (auto simp: q')
  have pids: "map p_object_id ps' = ids'"
  proof -
    have "ps = map (\<lambda>i. projr (q_participant q i)) ids" using ps(1) by (simp add: emap_map)
    with ps(2) have "map (\<lambda>i. p_object_id (projr (q_participant q i))) ids = ids"
      by (simp add: comp_def)
    then have "p_object_id (projr (q_participant q i)) = i" if "i \<in> set ids'" for i
      using map_fixed that mset_eq_setD [OF ids'(2)] by metis
    moreover have "ps' = map (\<lambda>i. projr (q_participant q i)) ids'"
      using ps'(1) by (simp add: emap_map q')
    ultimately show ?thesis by (simp add: map_idI)
  qed
  have "read_attack q' = read_attack q" by (auto simp: read_attack_def q')
  with emap_permutation [OF as ats'(2)] obtain as'
    where as': "emap (read_attack q') ats' = Inr as'" "mset as' = mset as"
    by auto
  have can': "sort_key (\<lambda>p. (p_reference p, p_object_id p)) ps' = canonical"
    unfolding canonical_def by (rule sort_by_identity [OF ps'(2)]) (simp add: ps(2) ids(2))
  have "map source_object as = ats"
    using as read_attack_object
    by (induction ats arbitrary: as) (auto simp: ebind_eq_Inr)
  then have att': "sort_key (\<lambda>a. (reference_of by_id (source_object a), source_object a)) as' = sorted_attacks"
    unfolding sorted_attacks_def by (intro sort_by_identity [OF as'(2)]) (simp add: ats(2))
  from read_all_blocks_permutation [OF assms(1) rs] obtain rs'
    where rs': "emap (read_blocks q' by_id) sorted_attacks = Inr rs'"
      "mset (concat (map fst rs')) = mset (concat (map fst rs))" "map snd rs' = map snd rs"
    by blast
  let ?key = "\<lambda>b. (reference_of by_id (attacker_object b), reference_of by_id (blocker_object b))"
  have blk': "sort_key ?key (concat (map fst rs')) = sort_key ?key (concat (map fst rs))"
  proof (rule sort_key_permutation [symmetric])
    show "mset (concat (map fst rs)) = mset (concat (map fst rs'))" using rs'(2) by simp
    note D = snapshot_initD [OF init]
    have blocks: "set (sort_key ?key (concat (map fst rs))) = set (concat (map fst rs))"
      by (rule set_sort)
    have pairs: "distinct (map block_pair (sort_key ?key (concat (map fst rs))))"
      using D(8) by (simp only: snapshot.select_convs)
    then show "distinct (concat (map fst rs))" by (simp add: distinct_map)
    have inj: "inj_on (reference_of by_id) (p_object_id ` set canonical)"
    proof (rule inj_onI)
      fix i j
      assume "i \<in> p_object_id ` set canonical" "j \<in> p_object_id ` set canonical"
        and same: "reference_of by_id i = reference_of by_id j"
      then obtain p r where p: "p \<in> set canonical" "p_object_id p = i"
        and r: "r \<in> set canonical" "p_object_id r = j"
        by auto
      have ids: "distinct (map p_object_id canonical)" and refs: "distinct (map p_reference canonical)"
        using D(3,4) by (simp_all only: snapshot.select_convs)
      have "map_of by_id i = Some p" "map_of by_id j = Some r"
        using by_id_participant [OF ids] p r by (simp_all add: by_id_def)
      with same have "p_reference p = p_reference r" by (simp add: reference_of_def)
      with refs p r have "p = r" by (metis distinct_map inj_onD)
      with p r show "i = j" by simp
    qed
    have known: "attacker_object b \<in> p_object_id ` set canonical
        \<and> blocker_object b \<in> p_object_id ` set canonical"
      if "b \<in> set (concat (map fst rs))" for b
      using D(7,9) that by (simp only: snapshot.select_convs set_sort) blast
    have "inj_on block_pair (set (concat (map fst rs)))"
      using pairs by (simp add: distinct_map)
    show "inj_on ?key (set (concat (map fst rs)))"
    proof (rule inj_onI)
      fix b c
      assume b: "b \<in> set (concat (map fst rs))" and c: "c \<in> set (concat (map fst rs))"
        and "?key b = ?key c"
      then have "attacker_object b = attacker_object c" "blocker_object b = blocker_object c"
        using inj_onD [OF inj] known [OF b] known [OF c] by auto
      then show "b = c" by simp
    qed
  qed
  have checks: "distinct ids' \<and> [] \<notin> set ids'" "distinct ats' \<and> [] \<notin> set ats'"
    using checked_ids_permutation [OF ids'(2)] checked_ids_permutation [OF ats'(2)] ids ats by blast+
  have known': "list_all (\<lambda>i. map_of by_id i \<noteq> None) ats'"
    using known mset_eq_setD [OF ats'(2)] by (simp add: list_all_iff)
  have "set (concat (map snd rs')) = set (concat (map snd rs))" by (simp only: rs'(3))
  with init show ?thesis
    unfolding build_combat_damage_snapshot_def ids' ats' Let_def ebind_simps
    using checks ps' pids as' rs'(1) known' q' can' att' blk'
    by (simp add: ebind_eq_Inr by_id_def [symmetric] ensure_def checked_ids_def list_all_iff)
qed

section \<open>What a proposal contains\<close>

text \<open>
  The recipients and trample entries of one participant, read off the relations of the snapshot
  (CR 510.1b-d, 702.19b): an unblocked attacker hits its legal recipient, a blocked attacker its
  blockers and, with trample, then its recipient, and a blocker the attackers it blocks.
\<close>

definition ref_in :: "snapshot \<Rightarrow> string \<Rightarrow> string" where
  "ref_in s i = reference_of (dict_by p_object_id (participants s)) i"

definition attack_of :: "snapshot \<Rightarrow> participant \<Rightarrow> attack_relationship option" where
  "attack_of s p = map_of (dict_by source_object (attacks s)) (p_object_id p)"

definition trample_recipient :: "snapshot \<Rightarrow> participant \<Rightarrow> string option" where
  "trample_recipient s p =
     (case attack_of s p of
        None \<Rightarrow> None
      | Some a \<Rightarrow>
          if p_object_id p \<in> was_blocked s \<and> ''trample'' \<in> p_keywords p \<and> r_legal (attack_recipient a)
          then Some (r_reference (attack_recipient a)) else None)"

definition blocker_refs :: "snapshot \<Rightarrow> participant \<Rightarrow> string list" where
  "blocker_refs s p = map (ref_in s) (blockers_of s (p_object_id p))"

definition targets_of :: "snapshot \<Rightarrow> participant \<Rightarrow> string list" where
  "targets_of s p =
     (case attack_of s p of
        None \<Rightarrow> map (ref_in s) (attackers_of s (p_object_id p))
      | Some a \<Rightarrow>
          if p_object_id p \<in> was_blocked s
          then blocker_refs s p @ (case trample_recipient s p of None \<Rightarrow> [] | Some r \<Rightarrow> [r])
          else if r_legal (attack_recipient a) then [r_reference (attack_recipient a)] else [])"

definition blocker_states :: "snapshot \<Rightarrow> participant \<Rightarrow> (string \<times> creature_damage_state) list" where
  "blocker_states s p = map (\<lambda>i.
     let b = the (map_of (dict_by p_object_id (participants s)) i) in
     (p_reference b, \<lparr>toughness = p_toughness b, damage_marked = p_marked b\<rparr>))
     (blockers_of s (p_object_id p))"

definition tramples_of :: "snapshot \<Rightarrow> participant \<Rightarrow> trample_spec list" where
  "tramples_of s p =
     (case trample_recipient s p of
        None \<Rightarrow> []
      | Some r \<Rightarrow> [\<lparr>trampler = p_reference p, spill_target = r, trample_blockers = blocker_states s p\<rparr>])"

definition spec_of :: "snapshot \<Rightarrow> participant \<Rightarrow> source_spec" where
  "spec_of s p =
     \<lparr>spec_source = p_reference p, spec_controller = p_controller p, spec_logical = p_logical p,
      spec_power = max 0 (p_power p), spec_targets = targets_of s p\<rparr>"

definition assigning :: "string \<Rightarrow> snapshot \<Rightarrow> participant list" where
  "assigning s snap = filter (\<lambda>p. p_controller p = s \<and> p_assigns p) (participants snap)"

definition snapshot_valid :: "snapshot \<Rightarrow> bool" where
  "snapshot_valid s \<longleftrightarrow> snapshot_init s = Inr s
     \<and> (\<forall>p \<in> set (participants s). participant_init p = Inr p)
     \<and> (\<forall>a \<in> set (attacks s). recipient_init (attack_recipient a) = Inr (attack_recipient a))"

lemma valid_participant:
  assumes "snapshot_valid s" and "p \<in> set (participants s)"
  shows "p_object_id p \<noteq> []" and "p_reference p \<noteq> []" and "p_controller p \<noteq> []"
    and "p_logical p \<noteq> []" and "0 \<le> p_marked p"
proof -
  have init: "participant_init p = Inr p" using assms by (simp add: snapshot_valid_def)
  then show id: "p_object_id p \<noteq> []" and "p_reference p \<noteq> []" and "p_controller p \<noteq> []"
    and "0 \<le> p_marked p"
    by (simp_all add: participant_init_def Let_def ebind_ensure_Inr)
  from init have same: "p\<lparr>p_logical := if p_logical p \<noteq> [] then p_logical p else p_object_id p,
      p_keywords := casefold ` p_keywords p\<rparr> = p"
    by (simp only: participant_init_def Let_def ebind_ensure_Inr sum.inject)
  from arg_cong [OF same, of p_logical]
  have "p_logical p = (if p_logical p \<noteq> [] then p_logical p else p_object_id p)" by simp
  with id show "p_logical p \<noteq> []" by (auto split: if_splits)
qed

lemma found_participant:
  assumes "snapshot_valid s" and "i \<in> p_object_id ` set (participants s)"
  obtains p where "map_of (dict_by p_object_id (participants s)) i = Some p"
    and "p \<in> set (participants s)" and "p_object_id p = i" and "ref_in s i = p_reference p"
proof -
  have "distinct (map p_object_id (participants s))"
    using assms(1) snapshot_initD(3) by (auto simp: snapshot_valid_def)
  then show thesis
    using assms(2) that by_id_participant by (force simp: ref_in_def reference_of_def)
qed

lemma relation_ids:
  assumes "snapshot_valid s"
  shows "set (blockers_of s i) \<subseteq> p_object_id ` set (participants s)"
    and "set (attackers_of s i) \<subseteq> p_object_id ` set (participants s)"
    and "distinct (blockers_of s i)" and "distinct (attackers_of s i)"
proof -
  have init: "snapshot_init s = Inr s" using assms by (simp add: snapshot_valid_def)
  note D = snapshot_initD [OF init]
  show "set (blockers_of s i) \<subseteq> p_object_id ` set (participants s)"
    and "set (attackers_of s i) \<subseteq> p_object_id ` set (participants s)"
    using D(7,9) by (auto simp: blockers_of_def attackers_of_def)
  have "distinct (map block_pair (filter P (blocks s)))" for P
    by (rule distinct_map_filter) (rule D(8))
  from this [of "\<lambda>b. attacker_object b = i"] this [of "\<lambda>b. blocker_object b = i"]
  show "distinct (blockers_of s i)" and "distinct (attackers_of s i)"
    by (auto simp: blockers_of_def attackers_of_def distinct_map inj_on_def block_pair_def)
qed

lemma ref_in_inj:
  assumes "snapshot_valid s"
  shows "inj_on (ref_in s) (p_object_id ` set (participants s))"
proof (rule inj_onI)
  fix i j
  assume i: "i \<in> p_object_id ` set (participants s)" and j: "j \<in> p_object_id ` set (participants s)"
    and same: "ref_in s i = ref_in s j"
  from found_participant [OF assms i] obtain p where p: "p \<in> set (participants s)"
    "p_object_id p = i" "ref_in s i = p_reference p" by blast
  from found_participant [OF assms j] obtain r where r: "r \<in> set (participants s)"
    "p_object_id r = j" "ref_in s j = p_reference r" by blast
  have "distinct (map p_reference (participants s))"
    using assms snapshot_initD(4) by (auto simp: snapshot_valid_def)
  with p r same show "i = j" by (metis distinct_map inj_onD)
qed

lemma refs_distinct:
  assumes "snapshot_valid s"
  shows "distinct (blocker_refs s p)" and "distinct (map (ref_in s) (attackers_of s i))"
    and "[] \<notin> set (blocker_refs s p)" and "[] \<notin> set (map (ref_in s) (attackers_of s i))"
proof -
  note R = relation_ids [OF assms]
  show "distinct (blocker_refs s p)" and "distinct (map (ref_in s) (attackers_of s i))"
    using R(3,4) inj_on_subset [OF ref_in_inj [OF assms] R(1)]
      inj_on_subset [OF ref_in_inj [OF assms] R(2)]
    by (simp_all add: blocker_refs_def distinct_map)
  have "ref_in s i \<noteq> []" if "i \<in> p_object_id ` set (participants s)" for i
    using found_participant [OF assms that] valid_participant(2) [OF assms] by metis
  then show "[] \<notin> set (blocker_refs s p)" and "[] \<notin> set (map (ref_in s) (attackers_of s i))"
    unfolding blocker_refs_def set_map using R(1,2) by (metis imageE subsetD)+
qed

lemma lookups:
  assumes "snapshot_valid s" and "set is \<subseteq> p_object_id ` set (participants s)"
  shows "emap (lookup_participant (dict_by p_object_id (participants s))) is
    = Inr (map (\<lambda>i. the (map_of (dict_by p_object_id (participants s)) i)) is)"
proof (rule emap_total, rule ballI)
  fix i
  assume "i \<in> set is"
  with assms(2) have "i \<in> p_object_id ` set (participants s)" by blast
  from found_participant [OF assms(1) this] obtain p
    where "map_of (dict_by p_object_id (participants s)) i = Some p"
    by blast
  then show "lookup_participant (dict_by p_object_id (participants s)) i
      = Inr (the (map_of (dict_by p_object_id (participants s)) i))"
    by (simp add: lookup_participant_def)
qed

lemma states:
  assumes "snapshot_valid s"
  shows "emap blocker_state (map (\<lambda>i. the (map_of (dict_by p_object_id (participants s)) i))
      (blockers_of s (p_object_id p))) = Inr (blocker_states s p)"
proof -
  have "blocker_state (the (map_of (dict_by p_object_id (participants s)) i))
      = Inr (let b = the (map_of (dict_by p_object_id (participants s)) i) in
          (p_reference b, \<lparr>toughness = p_toughness b, damage_marked = p_marked b\<rparr>))"
    if "i \<in> p_object_id ` set (participants s)" for i
  proof -
    from found_participant [OF assms that] obtain b
      where "map_of (dict_by p_object_id (participants s)) i = Some b" "b \<in> set (participants s)"
      by blast
    with valid_participant(5) [OF assms this(2)] show ?thesis
      by (simp add: blocker_state_def creature_state_init_def)
  qed
  with relation_ids(1) [OF assms] show ?thesis
    unfolding blocker_states_def emap_of_map by (intro emap_total) blast
qed

text \<open>
  The one situation the lowering does not represent: a trampler whose attacked recipient also
  blocks it (an attacked planeswalker or battle that is a creature) would name one recipient twice.
\<close>

definition no_self_block :: "snapshot \<Rightarrow> bool" where
  "no_self_block s \<longleftrightarrow>
     (\<forall>p \<in> set (participants s). \<forall>r. trample_recipient s p = Some r \<longrightarrow> r \<notin> set (blocker_refs s p))"

lemma attack_of_valid:
  assumes "snapshot_valid s" and "attack_of s p = Some a"
  shows "a \<in> set (attacks s)" and "source_object a = p_object_id p"
    and "r_reference (attack_recipient a) \<noteq> []"
proof -
  show a: "a \<in> set (attacks s)" and "source_object a = p_object_id p"
    using assms(2) by (auto simp: attack_of_def dest: map_of_dict_by_SomeD)
  have "recipient_init (attack_recipient a) = Inr (attack_recipient a)"
    using assms(1) a by (simp add: snapshot_valid_def)
  then show "r_reference (attack_recipient a) \<noteq> []"
    by (simp add: recipient_init_def ebind_ensure_Inr)
qed

lemma targets_ok:
  assumes "snapshot_valid s" and "no_self_block s" and "p \<in> set (participants s)"
  shows "distinct (targets_of s p)" and "[] \<notin> set (targets_of s p)"
proof -
  note R = refs_distinct(1,3) [OF assms(1), where p = p] and R' = refs_distinct(2,4) [OF assms(1), where i = "p_object_id p"]
  have new: "r \<notin> set (blocker_refs s p) \<and> r \<noteq> []" if "trample_recipient s p = Some r" for r
    using assms that attack_of_valid(3) [OF assms(1)]
    by (auto simp: no_self_block_def trample_recipient_def split: option.splits if_splits)
  show "distinct (targets_of s p)"
    using R R' new by (auto simp: targets_of_def split: option.splits)
  show "[] \<notin> set (targets_of s p)"
  proof (cases "attack_of s p")
    case None
    then show ?thesis using R' by (simp add: targets_of_def)
  next
    case (Some a)
    have "[] \<notin> set (case trample_recipient s p of None \<Rightarrow> [] | Some r \<Rightarrow> [r])"
      using new by (cases "trample_recipient s p") auto
    with Some R attack_of_valid(3) [OF assms(1) Some] show ?thesis by (simp add: targets_of_def)
  qed
qed

lemma lowered_participant:
  assumes "snapshot_valid s" and "no_self_block s" and "p \<in> set (participants s)"
  shows "lower_participant s (dict_by p_object_id (participants s)) p = Inr (spec_of s p, tramples_of s p)"
proof -
  note V = valid_participant [OF assms(1,3)]
  note R = relation_ids [OF assms(1)]
  note look = lookups [OF assms(1) R(1)] lookups [OF assms(1) R(2)]
  have spec: "source_spec_init \<lparr>spec_source = p_reference p, spec_controller = p_controller p,
      spec_logical = p_logical p, spec_power = max 0 (p_power p), spec_targets = targets_of s p\<rparr>
    = Inr (spec_of s p)"
    using V targets_ok [OF assms]
    by (auto simp: source_spec_init_def spec_of_def ensure_def list_all_iff)
  have refs: "map p_reference (map (\<lambda>i. the (map_of (dict_by p_object_id (participants s)) i))
      (blockers_of s (p_object_id p))) = blocker_refs s p"
    by (simp add: blocker_refs_def ref_in_def reference_of_def)
  show ?thesis
  proof (cases "attack_of s p")
    case None
    have "attackers_of s (p_object_id p) \<noteq> []"
    proof -
      have "p_object_id p \<notin> source_object ` set (attacks s)"
        using None by (simp add: attack_of_def map_of_dict_by_None)
      moreover have "p_object_id p \<in> source_object ` set (attacks s) \<union> blocker_object ` set (blocks s)"
        using snapshot_initD(10) [OF assms(1) [unfolded snapshot_valid_def, THEN conjunct1]]
          imageI [OF assms(3), of p_object_id] by simp
      ultimately show ?thesis by (auto simp: attackers_of_def filter_empty_conv)
    qed
    moreover have "targets_of s p = map p_reference (map (\<lambda>i. the (map_of
        (dict_by p_object_id (participants s)) i)) (attackers_of s (p_object_id p)))"
      and "tramples_of s p = []"
      using None by (simp_all add: targets_of_def tramples_of_def trample_recipient_def ref_in_def
          reference_of_def)
    ultimately show ?thesis
      using spec
      by (simp only: lower_participant_def None [unfolded attack_of_def] option.case if_True
          not_False_eq_True look(2) ebind_simps prod.case reraise_simps)
  next
    case (Some a)
    show ?thesis
    proof (cases "p_object_id p \<in> was_blocked s \<and> ''trample'' \<in> p_keywords p \<and> r_legal (attack_recipient a)")
      case True
      have "trample_init (p_reference p) (r_reference (attack_recipient a)) (blocker_states s p)
          = Inr \<lparr>trampler = p_reference p, spill_target = r_reference (attack_recipient a),
              trample_blockers = blocker_states s p\<rparr>"
      proof -
        have "map fst (blocker_states s p) = blocker_refs s p"
          by (simp add: blocker_states_def blocker_refs_def ref_in_def reference_of_def Let_def comp_def)
        moreover have "list_all (\<lambda>b. fst b \<noteq> []) (blocker_states s p)
            \<longleftrightarrow> [] \<notin> set (map fst (blocker_states s p))"
          unfolding list_all_iff set_map by force
        ultimately show ?thesis
          using V attack_of_valid(3) [OF assms(1) Some] refs_distinct(1,3) [OF assms(1)]
          by (simp add: trample_init_def ensure_def)
      qed
      with Some True spec look(1) [of "p_object_id p"] states [OF assms(1), of p] refs show ?thesis
        by (simp add: lower_participant_def attack_of_def targets_of_def tramples_of_def
            trample_recipient_def Let_def)
    next
      case False
      with Some spec look(1) [of "p_object_id p"] refs show ?thesis
        by (auto simp: lower_participant_def attack_of_def targets_of_def tramples_of_def
            trample_recipient_def Let_def)
    qed
  qed
qed

lemma assigning_distinct:
  assumes "snapshot_valid s"
  shows "distinct (map p_reference (assigning x s))" and "distinct (map p_logical (assigning x s))"
    and "set (assigning x s) \<subseteq> set (participants s)"
  using assms snapshot_initD(4,5) by (auto simp: assigning_def snapshot_valid_def distinct_map_filter)

lemma tramples_of_entries:
  assumes "t \<in> set (tramples_of s p)"
  shows "trampler t = p_reference p" and "trample_recipient s p = Some (spill_target t)"
    and "trample_blockers t = blocker_states s p" and "attack_of s p \<noteq> None"
  using assms by (auto simp: tramples_of_def trample_recipient_def split: option.splits if_splits)

text \<open>
  Every closed snapshot lowers to a valid proposal, unless an attacked permanent blocks its own
  trampling attacker: the proposal names exactly the seat's participants that assign damage in this
  step, each with its power (not below zero) and with the recipients the combat rules give it, and
  a trample entry for exactly the blocked tramplers with a legal recipient.
\<close>

theorem proposal_from_snapshot:
  assumes "snapshot_valid s" and "no_self_block s" and "x \<noteq> []"
  shows "\<exists>p. build_proposal x s = Inr p \<and> proposal_valid p
    \<and> actor p = x \<and> sources p = map (spec_of s) (assigning x s)
    \<and> trample_sources p = concat (map (tramples_of s) (assigning x s))"
proof -
  note A = assigning_distinct [OF assms(1), of x]
  have lowered: "emap (lower_participant s (dict_by p_object_id (participants s))) (assigning x s)
      = Inr (map (\<lambda>p. (spec_of s p, tramples_of s p)) (assigning x s))"
    by (rule emap_total) (use A(3) lowered_participant [OF assms(1,2)] in blast)
  let ?attacking = "filter (\<lambda>p. p_object_id p \<in> set (map source_object (attacks s))) (assigning x s)"
  let ?p = "\<lparr>damage_step_id = snap_step_id s, actor = x, sources = map (spec_of s) (assigning x s),
      attacking_sources = set (map p_reference ?attacking),
      deathtouch_sources =
        set (map p_reference (filter (\<lambda>p. ''deathtouch'' \<in> p_keywords p) ?attacking)),
      trample_sources = concat (map (tramples_of s) (assigning x s))\<rparr>"
  have refs: "map spec_source (map (spec_of s) ps) = map p_reference ps"
    and logical: "map spec_logical (map (spec_of s) ps) = map p_logical ps" for ps
    by (simp_all add: spec_of_def comp_def)
  have found: "map_of (dict_by spec_source (map (spec_of s) (assigning x s))) (p_reference p)
      = Some (spec_of s p)" if "p \<in> set (assigning x s)" for p
    using that A(1) by (subst map_of_dict_by) (auto simp: comp_def spec_of_def)
  have checks: "check_trample_spec (map (spec_of s) (assigning x s)) t = Inr ()"
    if p: "p \<in> set (assigning x s)" and t: "t \<in> set (tramples_of s p)" for p t
  proof -
    note T = tramples_of_entries [OF t]
    have in_s: "p \<in> set (participants s)" using p A(3) by blast
    then have new: "spill_target t \<notin> set (blocker_refs s p)"
      using assms(2) T(2) by (auto simp: no_self_block_def)
    have targets: "targets_of s p = blocker_refs s p @ [spill_target t]"
      using T(2,4) by (auto simp: targets_of_def trample_recipient_def split: option.splits if_splits)
    have "map fst (trample_blockers t) = blocker_refs s p"
      by (simp add: T(3) blocker_states_def blocker_refs_def ref_in_def reference_of_def Let_def comp_def)
    moreover have "filter (\<lambda>r. r \<noteq> spill_target t) (blocker_refs s p) = blocker_refs s p"
      using new by (auto simp: filter_id_conv)
    ultimately show ?thesis
      using found [OF p] targets by (simp add: check_trample_spec_def T(1) spec_of_def ensure_def)
  qed
  have all: "emap (check_trample_spec (map (spec_of s) (assigning x s)))
      (concat (map (tramples_of s) (assigning x s)))
    = Inr (map (\<lambda>_. ()) (concat (map (tramples_of s) (assigning x s))))"
    by (rule emap_total) (use checks in auto)
  have tramplers: "distinct (map trampler (concat (map (tramples_of s) ps)))
      \<and> set (map trampler (concat (map (tramples_of s) ps))) \<subseteq> p_reference ` set ps"
    if "distinct (map p_reference ps)" for ps
    using that
  proof (induction ps)
    case (Cons p ps)
    have "map trampler (tramples_of s p) = [] \<or> map trampler (tramples_of s p) = [p_reference p]"
      by (simp add: tramples_of_def split: option.splits)
    moreover have IH: "distinct (map trampler (concat (map (tramples_of s) ps)))"
      "set (map trampler (concat (map (tramples_of s) ps))) \<subseteq> p_reference ` set ps"
      using Cons by simp_all
    moreover have "p_reference p \<notin> set (map trampler (concat (map (tramples_of s) ps)))"
      using Cons.prems IH(2) by auto
    ultimately show ?case
      unfolding list.map concat.simps map_append distinct_append set_append
      by (elim disjE) (simp_all, blast+)
  qed simp
  have attack: "set (map trampler (concat (map (tramples_of s) (assigning x s))))
      \<subseteq> set (map p_reference ?attacking)"
  proof
    fix r
    assume "r \<in> set (map trampler (concat (map (tramples_of s) (assigning x s))))"
    then obtain p t where p: "p \<in> set (assigning x s)" and t: "t \<in> set (tramples_of s p)"
      and r: "r = trampler t"
      by auto
    from tramples_of_entries(4) [OF t] obtain a where "attack_of s p = Some a" by blast
    with attack_of_valid(1,2) [OF assms(1) this] have "p_object_id p \<in> set (map source_object (attacks s))"
      by force
    with p show "r \<in> set (map p_reference ?attacking)"
      by (auto simp: r tramples_of_entries(1) [OF t])
  qed
  have "snap_step_id s \<noteq> []"
    by (rule snapshot_initD(2) [OF assms(1) [unfolded snapshot_valid_def, THEN conjunct1]])
  moreover have "distinct (map spec_source (map (spec_of s) (assigning x s)))"
    and "distinct (map spec_logical (map (spec_of s) (assigning x s)))"
    unfolding refs logical by (rule A)+
  moreover have "list_all (\<lambda>sp. spec_controller sp = x) (map (spec_of s) (assigning x s))"
    by (auto simp: list_all_iff spec_of_def assigning_def)
  moreover have "set (map p_reference ?attacking) \<subseteq> set (map spec_source (map (spec_of s) (assigning x s)))"
    unfolding refs by auto
  moreover have "set (map p_reference (filter (\<lambda>p. ''deathtouch'' \<in> p_keywords p) ?attacking))
      \<subseteq> set (map p_reference ?attacking)"
    by auto
  moreover note tramplers [OF A(1), THEN conjunct1] attack all assms(3)
  ultimately have init: "proposal_init ?p = Inr ?p"
    by (simp only: proposal_init_def proposal.select_convs ensure_simps ebind_simps simp_thms
        not_False_eq_True)
  have "source_spec_init (spec_of s p) = Inr (spec_of s p)" if "p \<in> set (assigning x s)" for p
    using that A(3) valid_participant [OF assms(1)] targets_ok [OF assms(1,2)]
    by (auto simp: source_spec_init_def spec_of_def ensure_def list_all_iff)
  with init have "proposal_valid ?p" by (simp add: proposal_valid_def)
  moreover have "build_proposal x s = Inr ?p"
    using lowered init assms(3)
    by (simp add: build_proposal_def assigning_def [symmetric] comp_def Let_def)
  ultimately show ?thesis by auto
qed

section \<open>A concrete combat\<close>

definition creature :: "string \<Rightarrow> string \<Rightarrow> int \<Rightarrow> int \<Rightarrow> string set \<Rightarrow> participant" where
  "creature i c pw tg kws =
     \<lparr>p_object_id = i, p_reference = i, p_controller = c, p_power = pw, p_toughness = tg,
      p_marked = 0, p_keywords = kws, p_assigns = True, p_logical = i\<rparr>"

definition seat_recipient :: "string \<Rightarrow> recipient" where
  "seat_recipient s =
     \<lparr>r_reference = s, r_logical = s, r_controller = s, r_kind = ''player'', r_legal = True,
      r_object_id = None\<rparr>"

definition sample_query :: "string list \<Rightarrow> damage_query" where
  "sample_query ids =
     \<lparr>q_step_identity = Inr ''d1'', q_step_index = Inr 0, q_first_strike = Inr False,
      q_active_player = Inr ''A'', q_participant_ids = Inr ids,
      q_participant = (\<lambda>i. Inr (if i = ''rhino'' then creature i ''A'' 4 4 {''trample''}
                                else creature i ''B'' 0 4 {})),
      q_attacker_ids = Inr [''rhino''], q_recipient = (\<lambda>i. Inr (seat_recipient ''B'')),
      q_blocker_ids = (\<lambda>i. Inr [''wall'']), q_was_blocked = (\<lambda>i. Inr True)\<rparr>"

definition sample_snapshot :: "snapshot" where
  "sample_snapshot =
     \<lparr>snap_step_id = ''d1'', snap_step_index = 0, snap_first_strike = False,
      snap_active_player = ''A'',
      participants = [creature ''rhino'' ''A'' 4 4 {''trample''}, creature ''wall'' ''B'' 0 4 {}],
      attacks = [\<lparr>source_object = ''rhino'', attack_recipient = seat_recipient ''B''\<rparr>],
      blocks = [\<lparr>attacker_object = ''rhino'', blocker_object = ''wall''\<rparr>],
      was_blocked = {''rhino''}\<rparr>"

theorem snapshot_order_independent_witness:
  "build_combat_damage_snapshot (sample_query [''wall'', ''rhino'']) = Inr sample_snapshot"
proof (rule snapshot_order_independent)
  show "same_view (sample_query [''rhino'', ''wall'']) (sample_query [''wall'', ''rhino''])"
    by (simp add: same_view_def same_lists_def sample_query_def add_mset_commute)
  show "build_combat_damage_snapshot (sample_query [''rhino'', ''wall'']) = Inr sample_snapshot"
    by code_simp
qed

theorem proposal_from_snapshot_witness:
  "\<exists>p. build_proposal ''A'' sample_snapshot = Inr p \<and> proposal_valid p
     \<and> map spec_targets (sources p) = [[''wall'', ''B'']]"
proof -
  have valid: "snapshot_valid sample_snapshot" by code_simp
  have open_recipient: "no_self_block sample_snapshot" 
  proof -
    have "list_all (\<lambda>p. case trample_recipient sample_snapshot p of None \<Rightarrow> True
        | Some r \<Rightarrow> r \<notin> set (blocker_refs sample_snapshot p)) (participants sample_snapshot)"
      by code_simp
    then show ?thesis by (auto simp: no_self_block_def list_all_iff split: option.splits)
  qed
  obtain p where "build_proposal ''A'' sample_snapshot = Inr p" "proposal_valid p"
    and "sources p = map (spec_of sample_snapshot) (assigning ''A'' sample_snapshot)"
    using proposal_from_snapshot [OF valid open_recipient, of "''A''"] by auto
  moreover have "map spec_targets (map (spec_of sample_snapshot) (assigning ''A'' sample_snapshot))
      = [[''wall'', ''B'']]"
    by code_simp
  ultimately show ?thesis by metis
qed

text \<open>
  An attacked planeswalker that is also a creature and blocks the trampler attacking it: the
  snapshot is valid, and lowering it raises instead of offering the announcement.
\<close>

definition self_block_snapshot :: "snapshot" where
  "self_block_snapshot = sample_snapshot\<lparr>attacks :=
     [\<lparr>source_object = ''rhino'', attack_recipient =
        \<lparr>r_reference = ''wall'', r_logical = ''wall@0'', r_controller = ''B'', r_kind = ''planeswalker'',
         r_legal = True, r_object_id = Some ''wall''\<rparr>\<rparr>]\<rparr>"

lemma self_block_not_lowered:
  "snapshot_valid self_block_snapshot
   \<and> build_proposal ''A'' self_block_snapshot = Inl (LoweredValue TargetsNotUnique)"
  by code_simp

end
