(* ===== verification/Damage_Sequence.thy ===== *)
theory Damage_Sequence imports Damage_Assignment
begin

text \<open>
  The announcement sequence of one combat-damage step (\<open>quorune/combat_damage_sequence.py\<close>):
  the seats announce in active-player, nonactive-player order, each announcement is pinned to its
  index and actor, and the whole sequence is written to and read from checkpoints with a closed
  schema.
\<close>

section \<open>Announcements\<close>

datatype sequence_error =
    NotNonempty string
  | NotIndex string
  | NotBool
  | PairsNotUnique
  | ZeroAssignment
  | ClosedSchema string
  | NotArrays
  | UnsupportedVersion
  | ActorsNotNonempty
  | ActorsNotUnique
  | CursorBeyond
  | CursorMismatch
  | NotApnap
  | NotCurrentActor
  | AssignmentValue damage_error

record announcement =
  ann_actor :: string
  ann_index :: int
  ann_automatic :: bool
  ann_proposal :: string
  ann_assignments :: "damage_assignment list"

definition announcement_init :: "announcement \<Rightarrow> sequence_error + announcement" where
  "announcement_init a =
     ebind (ensure (ann_actor a \<noteq> []) (NotNonempty ''Announcement actor'')) (\<lambda>_.
     ebind (ensure (0 \<le> ann_index a) (NotIndex ''Announcement index'')) (\<lambda>_.
     ebind (ensure (ann_proposal a \<noteq> []) (NotNonempty ''Announcement proposal identity'')) (\<lambda>_.
     ebind (ensure (distinct (map pair_of (ann_assignments a))) PairsNotUnique) (\<lambda>_.
     ebind (ensure (list_all (\<lambda>v. 0 < da_amount v) (ann_assignments a)) ZeroAssignment) (\<lambda>_.
     Inr a)))))"

definition announcement_to_dict :: "announcement \<Rightarrow> pyval" where
  "announcement_to_dict a =
     PDict [(''actor'', PStr (ann_actor a)), (''announcement_index'', PInt (ann_index a)),
            (''automatic'', PBool (ann_automatic a)), (''proposal_id'', PStr (ann_proposal a)),
            (''assignments'', PList (map assignment_to_dict (ann_assignments a)))]"

fun as_mapping :: "sequence_error \<Rightarrow> pyval \<Rightarrow> sequence_error + (string \<times> pyval) list" where
  "as_mapping e (PDict d) = Inr d"
| "as_mapping e _ = Inl e"

fun as_array :: "sequence_error \<Rightarrow> pyval \<Rightarrow> sequence_error + pyval list" where
  "as_array e (PList vs) = Inr vs"
| "as_array e _ = Inl e"

definition closed_fields :: "sequence_error \<Rightarrow> string list \<Rightarrow> pyval \<Rightarrow> sequence_error + (string \<times> pyval) list" where
  "closed_fields e names v =
     ebind (as_mapping e v) (\<lambda>d. if set (map fst d) = set names then Inr d else Inl e)"

definition read_identity :: "string \<Rightarrow> pyval \<Rightarrow> sequence_error + string" where
  "read_identity label v = option_raise (NotNonempty label) (nonempty_str v)"

definition read_index :: "string \<Rightarrow> pyval \<Rightarrow> sequence_error + int" where
  "read_index label v =
     ebind (option_raise (NotIndex label) (exact_int v)) (\<lambda>n.
     if 0 \<le> n then Inr n else Inl (NotIndex label))"

fun read_bool :: "pyval \<Rightarrow> sequence_error + bool" where
  "read_bool (PBool b) = Inr b"
| "read_bool _ = Inl NotBool"

text \<open>\<open>DamageAssignment(source=..., target=..., amount=...)\<close> on untyped arguments.\<close>

definition assignment_of_values :: "pyval \<Rightarrow> pyval \<Rightarrow> pyval \<Rightarrow> damage_error + damage_assignment" where
  "assignment_of_values source target amount =
     ebind (option_raise (NotIdentity ''Damage source'') (nonempty_str source)) (\<lambda>s.
     ebind (option_raise (NotIdentity ''Damage recipient'') (nonempty_str target)) (\<lambda>t.
     ebind (option_raise (NotExactInteger ''Damage amount'') (exact_int amount)) (\<lambda>n.
     assignment_init s t n)))"

definition assignment_from_dict :: "pyval \<Rightarrow> sequence_error + damage_assignment" where
  "assignment_from_dict raw =
     ebind (closed_fields (ClosedSchema ''assignment'') [''source'', ''target'', ''amount''] raw) (\<lambda>d.
     reraise AssignmentValue (assignment_of_values (dict_get PNone d ''source'')
       (dict_get PNone d ''target'') (dict_get PNone d ''amount'')))"

definition announcement_from_dict :: "pyval \<Rightarrow> sequence_error + announcement" where
  "announcement_from_dict raw =
     ebind (closed_fields (ClosedSchema ''announcement'')
       [''actor'', ''announcement_index'', ''automatic'', ''proposal_id'', ''assignments''] raw) (\<lambda>d.
     ebind (as_array NotArrays (dict_get PNone d ''assignments'')) (\<lambda>raws.
     ebind (emap assignment_from_dict raws) (\<lambda>as.
     ebind (read_identity ''Announcement actor'' (dict_get PNone d ''actor'')) (\<lambda>who.
     ebind (read_index ''Announcement index'' (dict_get PNone d ''announcement_index'')) (\<lambda>index.
     ebind (read_bool (dict_get PNone d ''automatic'')) (\<lambda>automatic.
     ebind (read_identity ''Announcement proposal identity'' (dict_get PNone d ''proposal_id'')) (\<lambda>pid.
     announcement_init
       \<lparr>ann_actor = who, ann_index = index, ann_automatic = automatic, ann_proposal = pid,
        ann_assignments = as\<rparr>)))))))"

section \<open>The sequence\<close>

record assignment_sequence =
  seq_actors :: "string list"
  seq_cursor :: int
  announcements :: "announcement list"

definition in_order :: "string list \<Rightarrow> announcement list \<Rightarrow> bool" where
  "in_order actors as \<longleftrightarrow>
     list_all (\<lambda>(i, a). ann_index a = int i \<and> ann_actor a = actors ! i)
       (zip [0..<length as] as)"

definition sequence_init :: "assignment_sequence \<Rightarrow> sequence_error + assignment_sequence" where
  "sequence_init s =
     ebind (ensure (list_all (\<lambda>a. a \<noteq> []) (seq_actors s)) ActorsNotNonempty) (\<lambda>_.
     ebind (ensure (distinct (seq_actors s)) ActorsNotUnique) (\<lambda>_.
     ebind (ensure (0 \<le> seq_cursor s) (NotIndex ''Assignment cursor'')) (\<lambda>_.
     ebind (ensure (seq_cursor s \<le> int (length (seq_actors s))) CursorBeyond) (\<lambda>_.
     ebind (ensure (int (length (announcements s)) = seq_cursor s) CursorMismatch) (\<lambda>_.
     ebind (ensure (in_order (seq_actors s) (announcements s)) NotApnap) (\<lambda>_.
     Inr s))))))"

definition pending_actor :: "assignment_sequence \<Rightarrow> string option" where
  "pending_actor s =
     (if seq_cursor s < int (length (seq_actors s)) then Some (seq_actors s ! nat (seq_cursor s)) else None)"

definition collected_assignments :: "assignment_sequence \<Rightarrow> damage_assignment list" where
  "collected_assignments s = concat (map ann_assignments (announcements s))"

definition announce ::
  "assignment_sequence \<Rightarrow> string \<Rightarrow> string \<Rightarrow> damage_assignment list \<Rightarrow> bool
     \<Rightarrow> sequence_error + assignment_sequence" where
  "announce s who pid as automatic =
     ebind (ensure (pending_actor s = Some who) NotCurrentActor) (\<lambda>_.
     ebind (announcement_init
       \<lparr>ann_actor = who, ann_index = seq_cursor s, ann_automatic = automatic, ann_proposal = pid,
        ann_assignments = as\<rparr>) (\<lambda>a.
     sequence_init
       \<lparr>seq_actors = seq_actors s, seq_cursor = seq_cursor s + 1,
        announcements = announcements s @ [a]\<rparr>))"

definition sequence_to_dict :: "assignment_sequence \<Rightarrow> pyval" where
  "sequence_to_dict s =
     PDict [(''version'', PInt 1), (''actors'', PList (map PStr (seq_actors s))),
            (''cursor'', PInt (seq_cursor s)),
            (''announcements'', PList (map announcement_to_dict (announcements s)))]"

text \<open>\<open>value == 1\<close> in Python holds for the integer, for \<open>True\<close> and for a float equal to one.\<close>

fun equals_one :: "pyval \<Rightarrow> bool" where
  "equals_one (PInt n) \<longleftrightarrow> n = 1"
| "equals_one (PBool b) \<longleftrightarrow> b"
| "equals_one (PFloat m e) \<longleftrightarrow> e \<le> 0 \<and> m = 2 ^ nat (- e)"
| "equals_one _ \<longleftrightarrow> False"

definition sequence_from_dict :: "pyval \<Rightarrow> sequence_error + assignment_sequence" where
  "sequence_from_dict raw =
     ebind (closed_fields (ClosedSchema ''sequence'')
       [''version'', ''actors'', ''cursor'', ''announcements''] raw) (\<lambda>d.
     ebind (ensure (equals_one (dict_get PNone d ''version'')) UnsupportedVersion) (\<lambda>_.
     ebind (as_array NotArrays (dict_get PNone d ''actors'')) (\<lambda>raw_actors.
     ebind (as_array NotArrays (dict_get PNone d ''announcements'')) (\<lambda>raw_announcements.
     ebind (emap announcement_from_dict raw_announcements) (\<lambda>as.
     ebind (emap (\<lambda>v. option_raise ActorsNotNonempty (nonempty_str v)) raw_actors) (\<lambda>actors.
     ebind (ensure (distinct actors) ActorsNotUnique) (\<lambda>_.
     ebind (read_index ''Assignment cursor'' (dict_get PNone d ''cursor'')) (\<lambda>cursor.
     sequence_init \<lparr>seq_actors = actors, seq_cursor = cursor, announcements = as\<rparr>))))))))"

section \<open>Announcing in order\<close>

definition sequence_valid :: "assignment_sequence \<Rightarrow> bool" where
  "sequence_valid s \<longleftrightarrow> sequence_init s = Inr s
     \<and> (\<forall>a \<in> set (announcements s). announcement_init a = Inr a)"

lemma sequence_init_eq:
  "sequence_init s = Inr s' \<longleftrightarrow> s' = s \<and> [] \<notin> set (seq_actors s) \<and> distinct (seq_actors s)
     \<and> seq_cursor s = int (length (announcements s))
     \<and> length (announcements s) \<le> length (seq_actors s)
     \<and> in_order (seq_actors s) (announcements s)"
  by (auto simp: sequence_init_def ebind_ensure_Inr list_all_iff)

lemma announcement_init_eq:
  "announcement_init a = Inr b \<longleftrightarrow> b = a \<and> ann_actor a \<noteq> [] \<and> 0 \<le> ann_index a \<and> ann_proposal a \<noteq> []
     \<and> distinct (map pair_of (ann_assignments a)) \<and> (\<forall>v \<in> set (ann_assignments a). 0 < da_amount v)"
  by (auto simp: announcement_init_def ebind_ensure_Inr list_all_iff)

lemma in_order_nth:
  "in_order actors as \<longleftrightarrow> (\<forall>i < length as. ann_index (as ! i) = int i \<and> ann_actor (as ! i) = actors ! i)"
  by (auto simp: in_order_def list_all_length)

lemma in_order_snoc:
  "in_order actors (as @ [a]) \<longleftrightarrow> in_order actors as
     \<and> ann_index a = int (length as) \<and> ann_actor a = actors ! length as"
  by (auto simp: in_order_nth nth_append less_Suc_eq)

type_synonym statement = "string \<times> string \<times> damage_assignment list \<times> bool"

fun announce_all :: "assignment_sequence \<Rightarrow> statement list \<Rightarrow> sequence_error + assignment_sequence" where
  "announce_all s [] = Inr s"
| "announce_all s ((who, pid, as, automatic) # rest) =
     ebind (announce s who pid as automatic) (\<lambda>s'. announce_all s' rest)"

definition statement_ok :: "statement \<Rightarrow> bool" where
  "statement_ok st = (case st of (who, pid, as, automatic) \<Rightarrow>
     pid \<noteq> [] \<and> distinct (map pair_of as) \<and> (\<forall>v \<in> set as. 0 < da_amount v))"

definition statement_assignments :: "statement \<Rightarrow> damage_assignment list" where
  "statement_assignments st = fst (snd (snd st))"

lemma announce_eq:
  assumes "sequence_valid s"
  shows "announce s who pid as automatic = Inr s' \<longleftrightarrow>
    (length (announcements s) < length (seq_actors s)
     \<and> seq_actors s ! length (announcements s) = who \<and> statement_ok (who, pid, as, automatic)
     \<and> s' = s\<lparr>seq_cursor := seq_cursor s + 1, announcements := announcements s @
         [\<lparr>ann_actor = who, ann_index = seq_cursor s, ann_automatic = automatic, ann_proposal = pid,
           ann_assignments = as\<rparr>]\<rparr>)"
proof -
  have init: "[] \<notin> set (seq_actors s)" "distinct (seq_actors s)"
    "seq_cursor s = int (length (announcements s))" "in_order (seq_actors s) (announcements s)"
    using assms by (auto simp: sequence_valid_def sequence_init_eq)
  have nonempty: "seq_actors s ! i \<noteq> []" if "i < length (seq_actors s)" for i
    using init(1) nth_mem [OF that] by metis
  show ?thesis
    using init nonempty
    by (cases s) (auto simp: announce_def ebind_eq_Inr pending_actor_def announcement_init_eq
        sequence_init_eq statement_ok_def in_order_snoc)
qed

lemma announce_valid:
  assumes "sequence_valid s" and "announce s who pid as automatic = Inr s'"
  shows "sequence_valid s'"
  using assms
  by (auto simp: sequence_valid_def announce_def ebind_eq_Inr announcement_init_eq sequence_init_eq)

text \<open>
  C33. A damage step is announced in APNAP order and only so: a run of announcements is accepted
  exactly when each comes from the seat whose turn it is and is itself well formed; then the
  cursor has advanced by the number of announcements and the collected damage is what was
  collected before followed by the announced assignments in order.
\<close>

theorem announced_in_apnap_order:
  assumes "sequence_valid s"
  shows "(\<exists>s'. announce_all s sts = Inr s' \<and> sequence_valid s'
       \<and> seq_actors s' = seq_actors s \<and> seq_cursor s' = seq_cursor s + int (length sts)
       \<and> collected_assignments s'
           = collected_assignments s @ concat (map statement_assignments sts))
    = (length (announcements s) + length sts \<le> length (seq_actors s)
       \<and> map fst sts = take (length sts) (drop (length (announcements s)) (seq_actors s))
       \<and> (\<forall>st \<in> set sts. statement_ok st))"
  using assms
proof (induction sts arbitrary: s)
  case Nil
  then show ?case
    by (auto simp: sequence_valid_def sequence_init_eq)
next
  case (Cons st sts)
  obtain who pid as automatic where st: "st = (who, pid, as, automatic)" by (cases st)
  show ?case
  proof (cases "\<exists>s1. announce s who pid as automatic = Inr s1")
    case True
    then obtain s1 where s1: "announce s who pid as automatic = Inr s1" by blast
    note facts = s1 [unfolded announce_eq [OF Cons.prems]]
    have more: "announcements s1 = announcements s @ [\<lparr>ann_actor = who, ann_index = seq_cursor s,
        ann_automatic = automatic, ann_proposal = pid, ann_assignments = as\<rparr>]"
      "seq_actors s1 = seq_actors s" "seq_cursor s1 = seq_cursor s + 1"
      using facts by simp_all
    have drop: "drop (length (announcements s)) (seq_actors s)
        = who # drop (Suc (length (announcements s))) (seq_actors s)"
      using facts Cons_nth_drop_Suc [of "length (announcements s)" "seq_actors s"] by simp
    from Cons.IH [OF announce_valid [OF Cons.prems s1]] show ?thesis
      using s1 facts drop
      by (simp add: st more collected_assignments_def statement_assignments_def algebra_simps)
  next
    case False
    then have none: "announce_all s (st # sts) \<noteq> Inr r" for r
      by (auto simp: st ebind_eq_Inr)
    have "\<not> (length (announcements s) < length (seq_actors s)
        \<and> seq_actors s ! length (announcements s) = who \<and> statement_ok (who, pid, as, automatic))"
      using False announce_eq [OF Cons.prems] by blast
    then have "\<not> (length (announcements s) + length (st # sts) \<le> length (seq_actors s)
        \<and> map fst (st # sts) = take (length (st # sts)) (drop (length (announcements s)) (seq_actors s))
        \<and> (\<forall>st \<in> set (st # sts). statement_ok st))"
      using Cons_nth_drop_Suc [of "length (announcements s)" "seq_actors s", symmetric] by (auto simp: st)
    with none show ?thesis by blast
  qed
qed

text \<open>
  A sequence survives a checkpoint: every valid sequence is read back from what it writes,
  announcements, order and cursor included.
\<close>

theorem sequence_roundtrip:
  assumes "sequence_valid s"
    and "\<forall>a \<in> set (collected_assignments s). da_source a \<noteq> [] \<and> da_target a \<noteq> []"
  shows "sequence_from_dict (sequence_to_dict s) = Inr s"
proof -
  have assignment: "assignment_from_dict (assignment_to_dict a) = Inr a"
    if "da_source a \<noteq> []" "da_target a \<noteq> []" "0 < da_amount a" for a
    using that by (simp add: assignment_from_dict_def assignment_to_dict_def closed_fields_def
        dict_get_def assignment_of_values_def assignment_init_def insert_commute ensure_def)
  have announcement: "announcement_from_dict (announcement_to_dict a) = Inr a"
    if "a \<in> set (announcements s)" for a
  proof -
    have init: "announcement_init a = Inr a" using assms(1) that by (simp add: sequence_valid_def)
    then have ok: "ann_actor a \<noteq> []" "0 \<le> ann_index a" "ann_proposal a \<noteq> []"
      "\<forall>v \<in> set (ann_assignments a). 0 < da_amount v"
      by (auto simp: announcement_init_eq)
    have "emap assignment_from_dict (map assignment_to_dict (ann_assignments a)) = Inr (ann_assignments a)"
      by (rule emap_inverse) (use ok(4) assms(2) that in \<open>auto simp: collected_assignments_def intro!: assignment\<close>)
    with ok init show ?thesis
      by (cases a) (simp add: announcement_from_dict_def announcement_to_dict_def closed_fields_def dict_get_def
          read_identity_def read_index_def)
  qed
  have "emap announcement_from_dict (map announcement_to_dict (announcements s)) = Inr (announcements s)"
    by (rule emap_inverse) (use announcement in blast)
  moreover have init: "sequence_init s = Inr s" using assms(1) by (simp add: sequence_valid_def)
  moreover have "emap (\<lambda>v. option_raise ActorsNotNonempty (nonempty_str v)) (map PStr (seq_actors s))
      = Inr (seq_actors s)"
    by (rule emap_inverse) (use init in \<open>auto simp: sequence_init_eq\<close>)
  moreover have "distinct (seq_actors s)" "0 \<le> seq_cursor s"
    using init by (auto simp: sequence_init_eq)
  ultimately show ?thesis
    by (cases s) (simp add: sequence_from_dict_def sequence_to_dict_def closed_fields_def dict_get_def
        read_index_def)
qed

section \<open>A concrete step\<close>

definition fresh_sequence :: "assignment_sequence" where
  "fresh_sequence = \<lparr>seq_actors = [''A'', ''B''], seq_cursor = 0, announcements = []\<rparr>"

definition sample_statements :: "statement list" where
  "sample_statements =
     [(''A'', ''p1'', [\<lparr>da_source = ''rhino'', da_target = ''wall'', da_amount = 4\<rparr>], False),
      (''B'', ''p2'', [], True)]"

theorem announced_in_apnap_order_witness:
  "\<exists>s. announce_all fresh_sequence sample_statements = Inr s \<and> seq_cursor s = 2"
proof -
  have "sequence_valid fresh_sequence" by code_simp
  from announced_in_apnap_order [OF this, of sample_statements] show ?thesis
    by (auto simp: fresh_sequence_def sample_statements_def statement_ok_def)
qed

theorem sequence_roundtrip_witness:
  "\<exists>s. announce_all fresh_sequence sample_statements = Inr s
     \<and> sequence_from_dict (sequence_to_dict s) = Inr s \<and> length (announcements s) = 2"
proof -
  let ?s = "\<lparr>seq_actors = [''A'', ''B''], seq_cursor = 2, announcements =
      [\<lparr>ann_actor = ''A'', ann_index = 0, ann_automatic = False, ann_proposal = ''p1'',
        ann_assignments = [\<lparr>da_source = ''rhino'', da_target = ''wall'', da_amount = 4\<rparr>]\<rparr>,
       \<lparr>ann_actor = ''B'', ann_index = 1, ann_automatic = True, ann_proposal = ''p2'',
        ann_assignments = []\<rparr>]\<rparr>"
  have run: "announce_all fresh_sequence sample_statements = Inr ?s" by code_simp
  have valid: "sequence_valid ?s" by code_simp
  have "\<forall>a \<in> set (collected_assignments ?s). da_source a \<noteq> [] \<and> da_target a \<noteq> []" by code_simp
  from sequence_roundtrip [OF valid this] run show ?thesis by auto
qed

end
