(* ===== verification/Combat_Relations.thy ===== *)
theory Combat_Relations imports Game_Model
begin

text \<open>
  The owner of combat relations (\<open>quorune/combat_relationship_state.py\<close>): committing declared
  attackers and blockers and removing an object from combat.  The operations mutate the combat
  state and the cards, so they return both together with their result: what a raised exception
  leaves behind is part of the model.
\<close>

section \<open>Assignments\<close>

datatype relation_error =
    BlockIdentity
  | SelfBlock
  | AttackIdentity
  | AttackKind
  | PlayerTargetMismatch
  | PlayerTargetLogical
  | PermanentTargetLogical
  | EmptyController
  | RepeatedAttackerCommit
  | UnknownAttacker
  | AttackAlreadyCommitted
  | RepeatedBlockerCommit
  | NoCurrentAttacker
  | UnknownBlocker
  | BlockAlreadyCommitted
  | EmptyObject

record block_assignment =
  blocker_object_id :: string
  blocked_object_id :: string

definition block_assignment_init :: "string \<Rightarrow> string \<Rightarrow> relation_error + block_assignment" where
  "block_assignment_init blocker attacker =
     ebind (ensure (blocker \<noteq> [] \<and> attacker \<noteq> []) BlockIdentity) (\<lambda>_.
     ebind (ensure (blocker \<noteq> attacker) SelfBlock) (\<lambda>_.
     Inr \<lparr>blocker_object_id = blocker, blocked_object_id = attacker\<rparr>))"

record attack_assignment =
  attacker_object_id :: string
  attack_target :: string
  attack_target_kind :: string
  attack_defending_player :: string
  attack_target_logical :: "string option"

definition attack_assignment_init :: "attack_assignment \<Rightarrow> relation_error + attack_assignment" where
  "attack_assignment_init a =
     ebind (ensure (attacker_object_id a \<noteq> [] \<and> attack_target a \<noteq> [] \<and> attack_target_kind a \<noteq> []
                    \<and> attack_defending_player a \<noteq> []) AttackIdentity) (\<lambda>_.
     ebind (ensure (attack_target_kind a \<in> {''player'', ''planeswalker'', ''battle''}) AttackKind) (\<lambda>_.
     ebind (if attack_target_kind a = ''player'' then
              ebind (ensure (attack_target a = attack_defending_player a) PlayerTargetMismatch) (\<lambda>_.
              ensure (attack_target_logical a = None) PlayerTargetLogical)
            else ensure (attack_target_logical a \<noteq> None \<and> attack_target_logical a \<noteq> Some [])
                   PermanentTargetLogical) (\<lambda>_.
     Inr a)))"

definition target_context :: "attack_assignment \<Rightarrow> (string, string) dict" where
  "target_context a =
     [(''target'', attack_target a), (''kind'', attack_target_kind a),
      (''defending_player'', attack_defending_player a)]
     @ (case attack_target_logical a of None \<Rightarrow> [] | Some l \<Rightarrow> [(''logical_object_id'', l)])"

section \<open>Committing attackers\<close>

type_synonym combat_cards = "combat_state \<times> (string, card_instance) dict"

definition can_fight :: "string \<Rightarrow> card_instance \<Rightarrow> bool" where
  "can_fight who c \<longleftrightarrow> zone c = ''battlefield'' \<and> controller c = who \<and> \<not> phased_out c"

fun select_attackers ::
  "combat_cards \<Rightarrow> string \<Rightarrow> attack_assignment list \<Rightarrow> relation_error + attack_assignment list" where
  "select_attackers st who [] = Inr []"
| "select_attackers st who (a # as) =
     ebind (option_raise UnknownAttacker (map_of (snd st) (attacker_object_id a))) (\<lambda>attacker.
     if \<not> can_fight who attacker then select_attackers st who as
     else
       ebind (ensure (map_of (attackers (fst st)) (attacker_object_id a) = None) AttackAlreadyCommitted) (\<lambda>_.
       ebind (select_attackers st who as) (\<lambda>rest. Inr (a # rest))))"

definition write_attack :: "combat_cards \<Rightarrow> attack_assignment \<Rightarrow> combat_cards" where
  "write_attack st a =
     (let i = attacker_object_id a in
      ((fst st)\<lparr>attackers := AList.update i (attack_target a) (attackers (fst st)),
                attack_target_context :=
                  AList.update i (target_context a) (attack_target_context (fst st))\<rparr>,
       AList.update i ((the (map_of (snd st) i))\<lparr>attacking := Some (attack_target a)\<rparr>) (snd st)))"

definition commit_attack_declaration ::
  "combat_cards \<Rightarrow> string \<Rightarrow> attack_assignment list
     \<Rightarrow> combat_cards \<times> (relation_error + attack_assignment list)" where
  "commit_attack_declaration st who as =
     (case ebind (ensure (who \<noteq> []) EmptyController) (\<lambda>_.
           ebind (ensure (distinct (map attacker_object_id as)) RepeatedAttackerCommit) (\<lambda>_.
           select_attackers st who as)) of
        Inl e \<Rightarrow> (st, Inl e)
      | Inr committed \<Rightarrow> (foldl write_attack st committed, Inr committed))"

section \<open>Committing blockers\<close>

text \<open>Here checking and writing alternate, so an exception leaves the earlier writes behind.\<close>

fun commit_blocks ::
  "combat_cards \<Rightarrow> string \<Rightarrow> block_assignment list
     \<Rightarrow> combat_cards \<times> (relation_error + block_assignment list)" where
  "commit_blocks st who [] = (st, Inr [])"
| "commit_blocks st who (a # as) =
     (let attacker = blocked_object_id a; blocker = blocker_object_id a in
      if map_of (snd st) attacker = None \<or> map_of (attackers (fst st)) attacker = None
      then (st, Inl NoCurrentAttacker)
      else case map_of (snd st) blocker of
        None \<Rightarrow> (st, Inl UnknownBlocker)
      | Some b \<Rightarrow>
          if \<not> can_fight who b then commit_blocks st who as
          else
            let existing = dict_get [] (blockers (fst st)) attacker in
            if blocker \<in> set existing
            then (((fst st)\<lparr>blockers := AList.update attacker existing (blockers (fst st))\<rparr>, snd st),
                  Inl BlockAlreadyCommitted)
            else
              let st' = ((fst st)\<lparr>blockers := AList.update attacker (existing @ [blocker])
                                   (blockers (fst st))\<rparr>,
                         AList.update blocker (b\<lparr>blocking := Some attacker\<rparr>) (snd st)) in
              case commit_blocks st' who as of
                (final, Inl e) \<Rightarrow> (final, Inl e)
              | (final, Inr rest) \<Rightarrow> (final, Inr (a # rest)))"

definition commit_block_declaration ::
  "combat_cards \<Rightarrow> string \<Rightarrow> block_assignment list
     \<Rightarrow> combat_cards \<times> (relation_error + block_assignment list)" where
  "commit_block_declaration st who as =
     (if who = [] then (st, Inl EmptyController)
      else if \<not> distinct (map blocker_object_id as) then (st, Inl RepeatedBlockerCommit)
      else commit_blocks st who as)"

section \<open>Removal from combat\<close>

record combat_removal =
  was_attacker :: bool
  removed_as_blocker :: bool

definition remove_combat_relationships ::
  "combat_state \<Rightarrow> string \<Rightarrow> relation_error + combat_state \<times> combat_removal" where
  "remove_combat_relationships c i =
     ebind (ensure (i \<noteq> []) EmptyObject) (\<lambda>_.
     let attacked = (map_of (attackers c) i \<noteq> None);
         blocked = list_ex (\<lambda>(_, bs). i \<in> set bs) (blockers c);
         c1 = c\<lparr>blockers := map (\<lambda>(a, bs). (a, if i \<in> set bs then filter (\<lambda>b. b \<noteq> i) bs else bs))
                  (blockers c)\<rparr>;
         c2 = (if attacked
               then c1\<lparr>attackers := AList.delete i (attackers c1),
                       attack_target_context := AList.delete i (attack_target_context c1)\<rparr>
               else c1) in
     Inr (c2, \<lparr>was_attacker = attacked, removed_as_blocker = blocked\<rparr>))"

section \<open>The invariant of the relations\<close>

text \<open>
  Every attacker has its context and a card, no attacker lists a blocker twice, and every
  dictionary has each key once.
\<close>

definition relations_ok :: "combat_state \<Rightarrow> bool" where
  "relations_ok c \<longleftrightarrow>
     distinct (map fst (attackers c)) \<and> distinct (map fst (attack_target_context c))
     \<and> distinct (map fst (blockers c))
     \<and> fst ` set (attackers c) = fst ` set (attack_target_context c)
     \<and> (\<forall>(a, bs) \<in> set (blockers c). distinct bs)"

lemma write_attack_ok: "relations_ok (fst st) \<Longrightarrow> relations_ok (fst (write_attack st a))"
  by (simp add: relations_ok_def write_attack_def Let_def distinct_dict_set)

lemma write_attacks_ok: "relations_ok (fst st) \<Longrightarrow> relations_ok (fst (foldl write_attack st as))"
  by (induction as arbitrary: st) (simp_all add: write_attack_ok)

lemma blockers_update_ok:
  assumes "relations_ok c" and "distinct bs"
  shows "relations_ok (c\<lparr>blockers := AList.update a bs (blockers c)\<rparr>)"
proof -
  have "set (AList.update a bs (blockers c)) \<subseteq> insert (a, bs) (set (blockers c))"
    by (rule set_dict_set)
  with assms show ?thesis by (auto simp: relations_ok_def distinct_dict_set)
qed

lemma existing_distinct: "relations_ok c \<Longrightarrow> distinct (dict_get [] (blockers c) a)"
  by (auto simp: relations_ok_def dict_get_def split: option.splits dest: map_of_SomeD)

lemma commit_blocks_ok:
  "relations_ok (fst st) \<Longrightarrow> relations_ok (fst (fst (commit_blocks st who as)))"
proof (induction st who as rule: commit_blocks.induct)
  case (2 st who a as)
  note d = existing_distinct [OF 2(3), of "blocked_object_id a"]
  have w: "relations_ok ((fst st)\<lparr>blockers := AList.update (blocked_object_id a)
      (dict_get [] (blockers (fst st)) (blocked_object_id a)) (blockers (fst st))\<rparr>)"
    by (rule blockers_update_ok [OF 2(3) d])
  show ?case
  proof (cases "map_of (snd st) (blocked_object_id a) = None
      \<or> map_of (attackers (fst st)) (blocked_object_id a) = None")
    case True
    then show ?thesis using 2(3) by auto
  next
    case known: False
    show ?thesis
    proof (cases "map_of (snd st) (blocker_object_id a)")
      case None
      then show ?thesis using known 2(3) by (simp add: Let_def)
    next
      case (Some b)
      consider "\<not> can_fight who b"
        | "can_fight who b" "blocker_object_id a \<in> set (dict_get [] (blockers (fst st)) (blocked_object_id a))"
        | "can_fight who b" "blocker_object_id a \<notin> set (dict_get [] (blockers (fst st)) (blocked_object_id a))"
        by blast
      then show ?thesis
      proof cases
        case 1
        with 2(1) [OF refl refl known Some 1 2(3)] known Some show ?thesis by (auto simp: Let_def)
      next
        case 2
        with known Some w show ?thesis by (auto simp: Let_def)
      next
        case 3
        let ?st = "((fst st)\<lparr>blockers := AList.update (blocked_object_id a)
            (dict_get [] (blockers (fst st)) (blocked_object_id a) @ [blocker_object_id a])
            (blockers (fst st))\<rparr>,
          AList.update (blocker_object_id a) (b\<lparr>blocking := Some (blocked_object_id a)\<rparr>) (snd st))"
        have "relations_ok (fst ?st)"
          using blockers_update_ok [OF 2(3)] d 3(2) by simp
        from 2(2) [OF refl refl known Some _ refl _ refl this] 3
        have "relations_ok (fst (fst (commit_blocks ?st who as)))" by simp
        with known Some 3 show ?thesis
          by (auto simp: Let_def split: prod.splits sum.splits)
      qed
    qed
  qed
qed simp

text \<open>
  The relations stay well formed whatever is committed or removed, also when a commit raises:
  attackers and contexts keep the same keys, and no attacker ever lists a blocker twice.
\<close>

theorem relations_stay_ok:
  assumes "relations_ok (fst st)"
  shows "relations_ok (fst (fst (commit_attack_declaration st who as)))
    \<and> relations_ok (fst (fst (commit_block_declaration st who bs)))
    \<and> (\<forall>i c r. remove_combat_relationships (fst st) i = Inr (c, r) \<longrightarrow> relations_ok c)"
proof (intro conjI allI impI)
  show "relations_ok (fst (fst (commit_attack_declaration st who as)))"
    using assms write_attacks_ok by (auto simp: commit_attack_declaration_def split: sum.splits)
  show "relations_ok (fst (fst (commit_block_declaration st who bs)))"
    using assms commit_blocks_ok by (simp add: commit_block_declaration_def)
  fix i c r
  assume "remove_combat_relationships (fst st) i = Inr (c, r)"
  then have c: "c = (let c1 = (fst st)\<lparr>blockers := map (\<lambda>(a, bs). (a, if i \<in> set bs
        then filter (\<lambda>b. b \<noteq> i) bs else bs)) (blockers (fst st))\<rparr> in
      if map_of (attackers (fst st)) i \<noteq> None
      then c1\<lparr>attackers := AList.delete i (attackers c1),
             attack_target_context := AList.delete i (attack_target_context c1)\<rparr> else c1)"
    by (auto simp: remove_combat_relationships_def ebind_ensure_Inr Let_def)
  have keys: "fst \<circ> (\<lambda>(a, bs). (a, if i \<in> set bs then filter (\<lambda>b. b \<noteq> i) bs else bs)) = fst"
    by auto
  have pop: "fst ` set (AList.delete i d) = fst ` set d - {i}" for d :: "(string, 'b) dict"
    by (induction d) auto
  show "relations_ok c"
    using assms unfolding c relations_ok_def
    by (auto simp: Let_def keys distinct_delete pop split: if_splits)
qed

section \<open>What each operation does\<close>

definition stays :: "combat_cards \<Rightarrow> string \<Rightarrow> string \<Rightarrow> bool" where
  "stays st who i \<longleftrightarrow> (case map_of (snd st) i of None \<Rightarrow> False | Some c \<Rightarrow> can_fight who c)"

lemma select_attackers_eq:
  assumes "select_attackers st who as = Inr committed"
  shows "committed = filter (\<lambda>a. stays st who (attacker_object_id a)) as
    \<and> (\<forall>a \<in> set committed. map_of (attackers (fst st)) (attacker_object_id a) = None)"
  using assms
  by (induction as arbitrary: committed)
    (auto simp: ebind_eq_Inr option_raise_eq_Inr stays_def split: if_splits)

definition committed_attack :: "attack_assignment list \<Rightarrow> string \<Rightarrow> attack_assignment option" where
  "committed_attack as i = map_of (map (\<lambda>a. (attacker_object_id a, a)) as) i"

lemma committed_attack_simps:
  "committed_attack [] i = None"
  "committed_attack (a # as) i = (if attacker_object_id a = i then Some a else committed_attack as i)"
  by (simp_all add: committed_attack_def)

lemma committed_attack_None: "committed_attack as i = None \<longleftrightarrow> i \<notin> attacker_object_id ` set as"
  by (simp add: committed_attack_def map_of_None_key image_image)

lemma write_attacks:
  assumes "distinct (map attacker_object_id as)"
    and "\<forall>a \<in> set as. map_of (snd st) (attacker_object_id a) \<noteq> None"
  shows "map_of (attackers (fst (foldl write_attack st as))) i
      = (case committed_attack as i of Some a \<Rightarrow> Some (attack_target a)
         | None \<Rightarrow> map_of (attackers (fst st)) i)
    \<and> map_of (attack_target_context (fst (foldl write_attack st as))) i
      = (case committed_attack as i of Some a \<Rightarrow> Some (target_context a)
         | None \<Rightarrow> map_of (attack_target_context (fst st)) i)
    \<and> map_of (snd (foldl write_attack st as)) i
      = (case committed_attack as i of
           Some a \<Rightarrow> map_option (\<lambda>c. c\<lparr>attacking := Some (attack_target a)\<rparr>) (map_of (snd st) i)
         | None \<Rightarrow> map_of (snd st) i)
    \<and> blockers (fst (foldl write_attack st as)) = blockers (fst st)"
  using assms
proof (induction as arbitrary: st)
  case (Cons a as)
  let ?st = "write_attack st a"
  have known: "\<forall>x \<in> set as. map_of (snd ?st) (attacker_object_id x) \<noteq> None"
    using Cons.prems by (auto simp: write_attack_def Let_def)
  have new: "committed_attack as (attacker_object_id a) = None"
    using Cons.prems by (simp add: committed_attack_None)
  have step: "map_of (attackers (fst ?st)) i
      = (if attacker_object_id a = i then Some (attack_target a) else map_of (attackers (fst st)) i)"
    "map_of (attack_target_context (fst ?st)) i
      = (if attacker_object_id a = i then Some (target_context a)
         else map_of (attack_target_context (fst st)) i)"
    "map_of (snd ?st) i = (if attacker_object_id a = i
        then map_option (\<lambda>c. c\<lparr>attacking := Some (attack_target a)\<rparr>) (map_of (snd st) i)
        else map_of (snd st) i)"
    "blockers (fst ?st) = blockers (fst st)"
    using Cons.prems(2) by (auto simp: write_attack_def Let_def)
  have "distinct (map attacker_object_id as)" using Cons.prems(1) by simp
  note IH = Cons.IH [OF this known]
  show ?case
  proof (cases "attacker_object_id a = i")
    case True
    then have "committed_attack as i = None" using new by simp
    with IH True step show ?thesis by (simp add: committed_attack_simps)
  next
    case False
    with IH step show ?thesis by (cases "committed_attack as i") (simp_all add: committed_attack_simps)
  qed
qed (simp add: committed_attack_simps)

text \<open>
  C35. Committing an attack is all or nothing: when it raises, nothing has changed; otherwise it
  commits exactly the attackers that still are on the battlefield under the declaring player's
  control and phased in, records for each its target, its context and the attacking creature, and
  leaves every other attacker, every block and every other card alone.
\<close>

theorem attack_commit_transactional:
  "case commit_attack_declaration st who as of
     (st', Inl e) \<Rightarrow> st' = st
   | (st', Inr committed) \<Rightarrow>
       committed = filter (\<lambda>a. stays st who (attacker_object_id a)) as
       \<and> map_of (attackers (fst st')) i
           = (case committed_attack committed i of Some a \<Rightarrow> Some (attack_target a)
              | None \<Rightarrow> map_of (attackers (fst st)) i)
       \<and> map_of (attack_target_context (fst st')) i
           = (case committed_attack committed i of Some a \<Rightarrow> Some (target_context a)
              | None \<Rightarrow> map_of (attack_target_context (fst st)) i)
       \<and> map_of (snd st') i
           = (case committed_attack committed i of
                Some a \<Rightarrow> map_option (\<lambda>c. c\<lparr>attacking := Some (attack_target a)\<rparr>) (map_of (snd st) i)
              | None \<Rightarrow> map_of (snd st) i)
       \<and> blockers (fst st') = blockers (fst st)"
proof (cases "snd (commit_attack_declaration st who as)")
  case (Inl e)
  then show ?thesis by (auto simp: commit_attack_declaration_def split: sum.splits)
next
  case (Inr committed)
  then have sel: "select_attackers st who as = Inr committed" and d: "distinct (map attacker_object_id as)"
    and st': "commit_attack_declaration st who as = (foldl write_attack st committed, Inr committed)"
    by (auto simp: commit_attack_declaration_def ebind_eq_Inr ebind_eq_Inl split: sum.splits)
  note eq = select_attackers_eq [OF sel, THEN conjunct1]
  have "distinct (map attacker_object_id committed)" using d by (simp add: eq distinct_map_filter)
  moreover have "\<forall>a \<in> set committed. map_of (snd st) (attacker_object_id a) \<noteq> None"
    by (auto simp: eq stays_def split: option.splits)
  ultimately show ?thesis using write_attacks [of committed st i] st' eq by simp
qed

lemma commit_blocks_eq:
  assumes "commit_blocks st who as = (st', Inr committed)" and "distinct (map blocker_object_id as)"
  shows "committed = filter (\<lambda>a. stays st who (blocker_object_id a)) as
    \<and> dict_get [] (blockers (fst st')) x
        = dict_get [] (blockers (fst st)) x
          @ map blocker_object_id (filter (\<lambda>a. blocked_object_id a = x) committed)
    \<and> map_of (snd st') y
        = (case map_of (map (\<lambda>a. (blocker_object_id a, blocked_object_id a)) committed) y of
             Some a \<Rightarrow> map_option (\<lambda>c. c\<lparr>blocking := Some a\<rparr>) (map_of (snd st) y)
           | None \<Rightarrow> map_of (snd st) y)
    \<and> attackers (fst st') = attackers (fst st)
    \<and> attack_target_context (fst st') = attack_target_context (fst st)"
  using assms
proof (induction as arbitrary: st committed)
  case (Cons a as)
  from Cons.prems(1) obtain b where b: "map_of (snd st) (blocker_object_id a) = Some b"
    by (auto simp: Let_def split: if_splits option.splits)
  show ?case
  proof (cases "can_fight who b")
    case False
    then have "commit_blocks st who as = (st', Inr committed)"
      using Cons.prems(1) b by (auto simp: Let_def split: if_splits)
    with Cons.IH [OF this] Cons.prems(2) False b show ?thesis by (simp add: stays_def)
  next
    case True
    let ?old = "dict_get [] (blockers (fst st)) (blocked_object_id a)"
    let ?st = "((fst st)\<lparr>blockers := AList.update (blocked_object_id a)
          (?old @ [blocker_object_id a]) (blockers (fst st))\<rparr>,
        AList.update (blocker_object_id a) (b\<lparr>blocking := Some (blocked_object_id a)\<rparr>) (snd st))"
    from Cons.prems(1) True b obtain rest where rest: "commit_blocks ?st who as = (st', Inr rest)"
      and committed: "committed = a # rest"
      by (auto simp: Let_def split: if_splits prod.splits sum.splits)
    have fresh: "blocker_object_id a \<notin> blocker_object_id ` set as" using Cons.prems(2) by simp
    have same: "filter (\<lambda>c. stays ?st who (blocker_object_id c)) as
        = filter (\<lambda>c. stays st who (blocker_object_id c)) as"
      using fresh by (intro filter_cong) (auto simp: stays_def image_iff)
    note IH = Cons.IH [OF rest] Cons.prems(2)
    have "map_of (map (\<lambda>a. (blocker_object_id a, blocked_object_id a)) rest) (blocker_object_id a) = None"
    proof -
      have "set rest \<subseteq> set as" using IH by auto
      with fresh show ?thesis by (auto simp: map_of_None_key image_image)
    qed
    with IH True b same show ?thesis
      by (auto simp: committed stays_def split: option.splits)
  qed
qed simp

text \<open>
  A block commit that succeeds records exactly the blockers that can still block: each
  attacker's blocker list grows by its new blockers in declaration order, each new blocker is
  marked as blocking its attacker, and attackers, contexts and other cards are untouched.
\<close>

theorem block_commit_exact:
  assumes "commit_block_declaration st who as = (st', Inr committed)"
  shows "committed = filter (\<lambda>a. stays st who (blocker_object_id a)) as
    \<and> dict_get [] (blockers (fst st')) x
        = dict_get [] (blockers (fst st)) x
          @ map blocker_object_id (filter (\<lambda>a. blocked_object_id a = x) committed)
    \<and> map_of (snd st') y
        = (case map_of (map (\<lambda>a. (blocker_object_id a, blocked_object_id a)) committed) y of
             Some a \<Rightarrow> map_option (\<lambda>c. c\<lparr>blocking := Some a\<rparr>) (map_of (snd st) y)
           | None \<Rightarrow> map_of (snd st) y)
    \<and> attackers (fst st') = attackers (fst st)
    \<and> attack_target_context (fst st') = attack_target_context (fst st)"
  using assms
  by (intro commit_blocks_eq) (simp_all add: commit_block_declaration_def split: if_splits)

text \<open>
  Removing an object from combat removes every role it has and nothing else: it attacks no
  more, blocks nothing, every other attacker keeps its target and context, the creatures that
  blocked it stay recorded, and other blockers stay in order. The answer reports the roles it had.
\<close>

theorem removal_exact:
  assumes "remove_combat_relationships c i = Inr (c', r)"
  shows "map_of (attackers c') = (map_of (attackers c))(i := None)
    \<and> (\<forall>j. j \<noteq> i \<or> was_attacker r \<longrightarrow>
         map_of (attack_target_context c') j
           = (if j = i then None else map_of (attack_target_context c) j))
    \<and> (\<forall>a. map_of (blockers c') a = map_option (filter (\<lambda>b. b \<noteq> i)) (map_of (blockers c) a))
    \<and> was_attacker r = (map_of (attackers c) i \<noteq> None)
    \<and> removed_as_blocker r = (\<exists>p \<in> set (blockers c). i \<in> set (snd p))"
proof -
  have drop: "map_of (map (\<lambda>(a, bs). (a, if i \<in> set bs then filter (\<lambda>b. b \<noteq> i) bs else bs)) xs) a
      = map_option (filter (\<lambda>b. b \<noteq> i)) (map_of xs a)" for xs a
  proof (induction xs)
    case (Cons x xs)
    obtain k bs where "x = (k, bs)" by (cases x)
    moreover have "i \<notin> set bs \<Longrightarrow> filter (\<lambda>b. b \<noteq> i) bs = bs" by (auto simp: filter_id_conv)
    ultimately show ?case using Cons by auto
  qed simp
  have ex: "list_ex (\<lambda>(_, bs). i \<in> set bs) xs = (\<exists>p \<in> set xs. i \<in> set (snd p))"
    for xs :: "(string, string list) dict"
    by (induction xs) auto
  show ?thesis
  proof (cases "map_of (attackers c) i")
    case None
    with assms show ?thesis
      by (auto simp: remove_combat_relationships_def ebind_ensure_Inr Let_def drop simp flip: ex)
  next
    case (Some t)
    with assms show ?thesis
      by (auto simp: remove_combat_relationships_def ebind_ensure_Inr Let_def drop simp flip: ex)
  qed
qed

text \<open>
  A block commit that raises is not undone: the declaration below has a valid first block and an
  unknown second attacker; it raises after the first block has been recorded.
\<close>

definition fight_state :: combat_cards where
  "fight_state = (new_combat\<lparr>attackers := [(''wolf'', ''B'')],
      attack_target_context := [(''wolf'', [(''target'', ''B'')])]\<rparr>,
    [(''wolf'', new_card ''wolf'' ''A'' ''battlefield''),
     (''bear'', new_card ''bear'' ''B'' ''battlefield''),
     (''elf'', new_card ''elf'' ''B'' ''battlefield'')])"

lemma block_commit_not_atomic:
  "let bs = [\<lparr>blocker_object_id = ''bear'', blocked_object_id = ''wolf''\<rparr>,
             \<lparr>blocker_object_id = ''elf'', blocked_object_id = ''ghost''\<rparr>];
       r = commit_block_declaration fight_state ''B'' bs in
   snd r = Inl NoCurrentAttacker \<and> blockers (fst (fst r)) = [(''wolf'', [''bear''])]
   \<and> fst r \<noteq> fight_state"
  by code_simp

section \<open>Concrete combats\<close>

lemma relations_stay_ok_witness:
  "relations_ok (fst (fst (commit_block_declaration fight_state ''B''
     [\<lparr>blocker_object_id = ''bear'', blocked_object_id = ''wolf''\<rparr>])))"
  using relations_stay_ok [of fight_state "''B''" "[]"
      "[\<lparr>blocker_object_id = ''bear'', blocked_object_id = ''wolf''\<rparr>]"]
  by (simp add: fight_state_def relations_ok_def new_combat_def)

lemma block_commit_exact_witness:
  "let r = commit_block_declaration fight_state ''B''
       [\<lparr>blocker_object_id = ''bear'', blocked_object_id = ''wolf''\<rparr>] in
   attackers (fst (fst r)) = [(''wolf'', ''B'')] \<and> dict_get [] (blockers (fst (fst r))) ''wolf'' = [''bear'']"
proof -
  let ?bs = "[\<lparr>blocker_object_id = ''bear'', blocked_object_id = ''wolf''\<rparr>]"
  have "snd (commit_block_declaration fight_state ''B'' ?bs) = Inr ?bs" by code_simp
  then obtain st' where st': "commit_block_declaration fight_state ''B'' ?bs = (st', Inr ?bs)"
    by (metis prod.collapse)
  have "attackers (fst fight_state) = [(''wolf'', ''B'')]" "blockers (fst fight_state) = []"
    by (simp_all add: fight_state_def new_combat_def)
  with block_commit_exact [OF st', of "''wolf''"] st' show ?thesis by simp
qed

lemma removal_exact_witness:
  "\<exists>c r. remove_combat_relationships (fst fight_state) ''wolf'' = Inr (c, r)
     \<and> was_attacker r \<and> map_of (attackers c) ''wolf'' = None"
proof -
  obtain c r where cr: "remove_combat_relationships (fst fight_state) ''wolf'' = Inr (c, r)"
    by (cases "remove_combat_relationships (fst fight_state) ''wolf''")
      (auto simp: remove_combat_relationships_def Let_def)
  have "attackers (fst fight_state) = [(''wolf'', ''B'')]" by (simp add: fight_state_def)
  with removal_exact [OF cr] have "was_attacker r \<and> map_of (attackers c) ''wolf'' = None" by simp
  with cr show ?thesis by blast
qed

end
