(* ===== verification/Commander_Identity.thy ===== *)
theory Commander_Identity imports Game_Model
begin

text \<open>
  Identity of commanders and the loss conditions of players (\<open>quorune/commander.py\<close> without the
  game set-up, and \<open>player_loss_seats\<close> of \<open>quorune/state_based_actions.py\<close>): designations, the key
  of the commander-damage ledger, resolving a key to its card, and who has lost.
\<close>

datatype commander_error =
    BadDesignation
  | LegacyIdentityLost
  | UnsupportedIdentityVersion int
  | DesignationLost

definition COMMANDER_DAMAGE_IDENTITY_VERSION :: int where
  "COMMANDER_DAMAGE_IDENTITY_VERSION = 2"

record commander_damage_source =
  source_damage_key :: string
  source_designation :: "string option"
  source_oracle_id :: string
  source_printed_name :: string
  source_owner :: string
  legacy_oracle_identity :: bool

definition commander_designation :: "string \<Rightarrow> int \<Rightarrow> commander_error + string" where
  "commander_designation who ordinal =
     (let normalized = py_strip who in
      if normalized = [] \<or> ordinal < 1 then Inl BadDesignation
      else Inr (''commander:'' @ normalized @ '':'' @ show_int ordinal))"

definition commander_damage_key ::
  "bool \<Rightarrow> string option \<Rightarrow> string option \<Rightarrow> int option \<Rightarrow> commander_error + string option" where
  "commander_damage_key is_cmd designation oracle version =
     (if \<not> is_cmd then Inr None
      else case version of
        None \<Rightarrow>
          (let legacy = (case oracle of None \<Rightarrow> [] | Some x \<Rightarrow> x) in
           if legacy = [] then Inl LegacyIdentityLost else Inr (Some legacy))
      | Some v \<Rightarrow>
          if v \<noteq> COMMANDER_DAMAGE_IDENTITY_VERSION then Inl (UnsupportedIdentityVersion v)
          else
            (let d = (case designation of None \<Rightarrow> [] | Some x \<Rightarrow> x) in
             if d = [] then Inl DesignationLost else Inr (Some d)))"

fun find_commander ::
  "bool \<Rightarrow> string \<Rightarrow> (string, card_instance) dict \<Rightarrow> commander_damage_source option" where
  "find_commander legacy key [] = None"
| "find_commander legacy key ((_, c) # cs) =
     (if \<not> is_commander c then find_commander legacy key cs
      else if (if legacy then Some (oracle_id c) else commander_designation_id c) \<noteq> Some key
      then find_commander legacy key cs
      else Some \<lparr>source_damage_key = key, source_designation = commander_designation_id c,
                 source_oracle_id = oracle_id c, source_printed_name = printed_name c,
                 source_owner = owner c, legacy_oracle_identity = legacy\<rparr>)"

definition find_commander_source :: "game_state \<Rightarrow> string \<Rightarrow> commander_damage_source option" where
  "find_commander_source state key =
     find_commander (commander_damage_identity_version state = None) key (cards state)"

section \<open>Losing the game\<close>

definition lost_by_commander :: "game_state \<Rightarrow> player_state \<Rightarrow> bool" where
  "lost_by_commander state p \<longleftrightarrow>
     list_ex (\<lambda>(_, amount). amount \<ge> commander_damage_to_lose (config state))
       (commander_damage_received p)"

definition commander_damage_losers :: "game_state \<Rightarrow> model_error + string list" where
  "commander_damage_losers state =
     ebind (active_seats state) (\<lambda>seats.
     Inr (filter (\<lambda>s. case map_of (players state) s of
                        None \<Rightarrow> False | Some p \<Rightarrow> lost_by_commander state p) seats))"

fun loss_filter :: "game_state \<Rightarrow> string list \<Rightarrow> string list \<Rightarrow> model_error + string list" where
  "loss_filter state losers [] = Inr []"
| "loss_filter state losers (s # seats) =
     ebind (option_raise (MissingSeat s) (map_of (players state) s)) (\<lambda>p.
     ebind (loss_filter state losers seats) (\<lambda>rest.
     Inr (if life p \<le> 0 \<or> poison p \<ge> poison_to_lose (config state) \<or> attempted_empty_draw p
             \<or> s \<in> set losers then s # rest else rest)))"

definition player_loss_seats :: "game_state \<Rightarrow> string list \<Rightarrow> model_error + string list" where
  "player_loss_seats state seats =
     ebind (commander_damage_losers state) (\<lambda>losers. loss_filter state losers seats)"

section \<open>Designations identify the physical card\<close>

lemma colon_not_in_show_nat: "CHR '':'' \<notin> set (show_nat n)"
  using show_nat_digits [of n] by (auto simp: is_digit_def)

lemma split_last_separator:
  assumes "a @ x # s = b @ x # t" and "x \<notin> set s" and "x \<notin> set t"
  shows "a = b \<and> s = t"
  using assms by (auto simp: append_eq_append_conv2 Cons_eq_append_conv append_eq_Cons_conv)

lemma commander_designation_eq:
  "commander_designation s m = Inr d
     \<longleftrightarrow> py_strip s \<noteq> [] \<and> m \<ge> 1 \<and> d = ''commander:'' @ py_strip s @ CHR '':'' # show_int m"
  by (auto simp only: commander_designation_def Let_def not_le not_less append_Cons append_Nil split: if_splits)

text \<open>
  Two commanders have the same designation only if they belong to the same seat (up to
  surrounding blanks) and are the same ordinal of it, whatever characters the seat name contains.
\<close>

theorem designation_injective:
  assumes "commander_designation s m = Inr d" and "commander_designation t n = Inr d"
  shows "py_strip s = py_strip t \<and> m = n"
proof -
  from assms have d: "d = ''commander:'' @ py_strip s @ CHR '':'' # show_int m" and m: "m \<ge> 1"
    and e: "d = ''commander:'' @ py_strip t @ CHR '':'' # show_int n" and n: "n \<ge> 1"
    by (simp_all only: commander_designation_eq)
  have "py_strip s @ CHR '':'' # show_int m = py_strip t @ CHR '':'' # show_int n"
    using d e by (simp only: same_append_eq)
  moreover have "CHR '':'' \<notin> set (show_int m)" "CHR '':'' \<notin> set (show_int n)"
    using m n colon_not_in_show_nat by (simp_all add: show_int_def)
  ultimately have "py_strip s = py_strip t" and "show_int m = show_int n"
    using split_last_separator by metis+
  then show ?thesis by (simp only: show_int_inject)
qed

text \<open>\<open>designated\<close>: commanders have nonempty designations and no two cards share one.\<close>

definition designated :: "game_state \<Rightarrow> bool" where
  "designated state \<longleftrightarrow>
     (\<forall>(i, c) \<in> set (cards state). is_commander c \<longrightarrow>
        (case commander_designation_id c of None \<Rightarrow> False | Some d \<Rightarrow> d \<noteq> []))
     \<and> distinct (map (\<lambda>(i, c). commander_designation_id c)
          (filter (\<lambda>(i, c). is_commander c) (cards state)))"

lemma find_commander_complete:
  assumes "distinct (map (\<lambda>(i, c). commander_designation_id c) (filter (\<lambda>(i, c). is_commander c) cs))"
    and "(i, c) \<in> set cs" and "is_commander c" and "commander_designation_id c = Some d"
  shows "find_commander False d cs = Some \<lparr>source_damage_key = d, source_designation = Some d,
           source_oracle_id = oracle_id c, source_printed_name = printed_name c,
           source_owner = owner c, legacy_oracle_identity = False\<rparr>"
  using assms
proof (induction cs)
  case (Cons x cs)
  obtain j e where x: "x = (j, e)" by (cases x)
  show ?case
  proof (cases "(i, c) = x")
    case True
    with Cons.prems x show ?thesis by simp
  next
    case False
    then have later: "(i, c) \<in> set cs" using Cons.prems(2) by simp
    then have "is_commander e \<Longrightarrow> commander_designation_id e \<noteq> Some d"
      using Cons.prems x by (force simp: image_iff)
    with Cons later x show ?thesis by (auto split: if_splits)
  qed
qed simp

text \<open>
  The ledger key of a commander's damage resolves to that commander: in a game with the current
  identity version whose commanders carry pairwise different designations, the key of a designated
  card exists and looks up exactly its names and owner.
\<close>

theorem damage_key_resolves:
  assumes "designated state" and "(i, c) \<in> set (cards state)" and "is_commander c"
    and "commander_damage_identity_version state = Some COMMANDER_DAMAGE_IDENTITY_VERSION"
  shows "\<exists>key. commander_damage_key (is_commander c) (commander_designation_id c)
             (Some (oracle_id c)) (commander_damage_identity_version state) = Inr (Some key)
           \<and> find_commander_source state key = Some \<lparr>source_damage_key = key,
               source_designation = commander_designation_id c, source_oracle_id = oracle_id c,
               source_printed_name = printed_name c, source_owner = owner c,
               legacy_oracle_identity = False\<rparr>"
proof -
  from assms(1-3) obtain d where d: "commander_designation_id c = Some d" "d \<noteq> []"
    by (auto simp: designated_def split: option.splits)
  with assms find_commander_complete [OF _ assms(2,3) d(1)]
  show ?thesis by (auto simp: designated_def commander_damage_key_def find_commander_source_def)
qed

section \<open>Who has lost\<close>

lemma loss_filter_eq:
  assumes "loss_filter state losers seats = Inr lost"
  shows "lost = filter (\<lambda>s. \<exists>p. map_of (players state) s = Some p
      \<and> (life p \<le> 0 \<or> poison p \<ge> poison_to_lose (config state) \<or> attempted_empty_draw p
         \<or> s \<in> set losers)) seats"
  using assms
  by (induction seats arbitrary: lost) (auto simp: ebind_eq_Inr option_raise_eq_Inr)

text \<open>
  The players who lose are exactly the active ones with no life left, with enough poison, who
  drew from an empty library, or who took enough damage from a single commander; they come in turn
  order. Damage of two commanders is not added together.
\<close>

theorem losing_players:
  assumes "active_seats state = Inr seats" and "player_loss_seats state seats = Inr lost"
  shows "lost = filter (\<lambda>s. \<exists>p. map_of (players state) s = Some p \<and> in_game p
      \<and> (life p \<le> 0 \<or> poison p \<ge> poison_to_lose (config state) \<or> attempted_empty_draw p
         \<or> (\<exists>amount \<in> snd ` set (commander_damage_received p).
              amount \<ge> commander_damage_to_lose (config state)))) (turn_order state)"
proof -
  let ?losers = "filter (\<lambda>s. case map_of (players state) s of
      None \<Rightarrow> False | Some p \<Rightarrow> lost_by_commander state p) seats"
  have "loss_filter state ?losers seats = Inr lost"
    using assms by (simp add: player_loss_seats_def commander_damage_losers_def)
  note lost = loss_filter_eq [OF this]
  have seats: "seats = filter (\<lambda>x. case map_of (players state) x of
      Some p \<Rightarrow> in_game p | None \<Rightarrow> False) (turn_order state)"
    by (rule active_seats_eq [OF assms(1)])
  have spec: "(\<exists>amount \<in> snd ` set (commander_damage_received p).
      amount \<ge> commander_damage_to_lose (config state)) \<longleftrightarrow> lost_by_commander state p" for p
    by (force simp: lost_by_commander_def list_ex_iff)
  show ?thesis
    unfolding lost seats spec filter_filter by (auto intro!: filter_cong split: option.splits)
qed

section \<open>A concrete game\<close>

definition commander_game :: game_state where
  "commander_game = (new_game [''A'', ''B''])\<lparr>
     commander_damage_identity_version := Some 2,
     players := [(''A'', (new_player ''A'')\<lparr>commander_damage_received :=
                    [(''commander:B:1'', 20), (''commander:B:2'', 3)]\<rparr>),
                 (''B'', (new_player ''B'')\<lparr>commander_damage_received := [(''commander:A:1'', 21)]\<rparr>)],
     cards := [(''c1'', (new_card ''c1'' ''A'' ''command'')\<lparr>is_commander := True,
                  commander_designation_id := Some ''commander:A:1''\<rparr>),
               (''c2'', new_card ''c2'' ''A'' ''library'')]\<rparr>"

lemma designation_injective_witness:
  "\<exists>d. commander_designation ''A:1'' 2 = Inr d \<and> commander_designation '' A:1 '' 2 = Inr d
     \<and> py_strip ''A:1'' = py_strip '' A:1 ''"
proof -
  have d: "commander_designation ''A:1'' 2 = Inr ''commander:A:1:2''"
    "commander_designation '' A:1 '' 2 = Inr ''commander:A:1:2''" by code_simp+
  with designation_injective [OF d] show ?thesis by blast
qed

lemma damage_key_resolves_witness:
  "\<exists>key. find_commander_source commander_game key \<noteq> None"
  using damage_key_resolves [of commander_game "''c1''"
      "(new_card ''c1'' ''A'' ''command'')\<lparr>is_commander := True,
         commander_designation_id := Some ''commander:A:1''\<rparr>"]
  by (auto simp: commander_game_def designated_def new_card_def COMMANDER_DAMAGE_IDENTITY_VERSION_def)

lemma losing_players_witness: "player_loss_seats commander_game [''A'', ''B''] = Inr [''B'']"
proof -
  have "active_seats commander_game = Inr [''A'', ''B'']" by code_simp
  moreover obtain lost where "player_loss_seats commander_game [''A'', ''B''] = Inr lost"
    by (cases "player_loss_seats commander_game [''A'', ''B'']") (code_simp, blast)
  moreover have "map_of (players commander_game) ''A'' = Some p \<Longrightarrow> life p = 40" for p
    by (auto simp: commander_game_def new_player_def)
  ultimately show ?thesis using losing_players
    by (fastforce simp: commander_game_def new_game_def default_config_def new_player_def)
qed

end
