(* ===== verification/State_Based_Actions.thy ===== *)
theory State_Based_Actions imports Counter_State
begin

text \<open>
  State-based actions on permanents and objects (\<open>quorune/state_based_actions.py\<close>), with the Saga
  snapshot (\<open>quorune/saga_lifecycle.py\<close>) and the counter maximums (\<open>quorune/counter_maximums.py\<close>)
  it reads.  The evaluator runs over the snapshots of one check, collects what each asks for, and
  sorts the result into a batch.  Frozen sets of names are lists here; the accumulated Python sets
  are lists that are made unique and sorted at the end, as the code does.
\<close>

datatype sba_error =
    SagaIdentity
  | SagaLore
  | SagaChapters
  | SagaMismatch
  | WorldTimestampMissing
  | SagaOverlap
  | MaximumSchema
  | MaximumName
  | MaximumNegative

section \<open>Sagas\<close>

record saga_snapshot =
  saga_object_id :: string
  saga_logical_id :: string
  saga_controller :: string
  lore_counters :: int
  chapter_numbers :: "int list"
  chapter_trigger_pending :: bool

definition saga_init :: "saga_snapshot \<Rightarrow> sba_error + saga_snapshot" where
  "saga_init s =
     ebind (emap (\<lambda>v. ensure (v \<noteq> [] \<and> v = py_strip v) SagaIdentity)
              [saga_object_id s, saga_logical_id s, saga_controller s]) (\<lambda>_.
     ebind (ensure (lore_counters s \<ge> 0) SagaLore) (\<lambda>_.
     ebind (ensure (chapter_numbers s \<noteq> [] \<and> list_all (\<lambda>n. n \<ge> 1) (chapter_numbers s)
                    \<and> chapter_numbers s = sorted_unique (chapter_numbers s)) SagaChapters) (\<lambda>_.
     Inr s)))"

definition final_chapter_number :: "saga_snapshot \<Rightarrow> int" where
  "final_chapter_number s = last (chapter_numbers s)"

definition requires_sacrifice :: "saga_snapshot \<Rightarrow> bool" where
  "requires_sacrifice s \<longleftrightarrow>
     lore_counters s \<ge> final_chapter_number s \<and> \<not> chapter_trigger_pending s"

section \<open>Counter maximums\<close>

record counter_maximum =
  maximum_counter :: string
  maximum_amount :: int
  maximum_schema :: int

definition counter_maximum_init :: "counter_maximum \<Rightarrow> sba_error + counter_maximum" where
  "counter_maximum_init m =
     ebind (ensure (maximum_schema m = 1) MaximumSchema) (\<lambda>_.
     ebind (reraise (\<lambda>_. MaximumName) (normalized_counter_name (maximum_counter m))) (\<lambda>name.
     ebind (ensure (maximum_amount m \<ge> 0) MaximumNegative) (\<lambda>_.
     Inr (m\<lparr>maximum_counter := name\<rparr>))))"

definition lower_maximum :: "(string, int) dict \<Rightarrow> counter_maximum \<Rightarrow> (string, int) dict" where
  "lower_maximum d m =
     AList.update (maximum_counter m)
       (min (dict_get (maximum_amount m) d (maximum_counter m)) (maximum_amount m)) d"

definition effective_counter_maximums :: "counter_maximum list \<Rightarrow> (string, int) dict" where
  "effective_counter_maximums fragments = sort (foldl lower_maximum [] fragments)"

definition validated_maximum :: "string \<times> int \<Rightarrow> sba_error + string \<times> int" where
  "validated_maximum r =
     ebind (reraise (\<lambda>_. MaximumName) (normalized_counter_name (fst r))) (\<lambda>kind.
     ebind (ensure (snd r \<ge> 0) MaximumNegative) (\<lambda>_.
     Inr (kind, snd r)))"

definition validated_counter_maximums ::
  "(string, int) dict \<Rightarrow> sba_error + (string \<times> int) list" where
  "validated_counter_maximums maxs = ebind (emap validated_maximum maxs) (\<lambda>ms. Inr (sort ms))"

section \<open>Snapshots and batches\<close>

record permanent_snapshot =
  perm_id :: string
  perm_types :: "string list"
  perm_subtypes :: "string list"
  toughness :: "int option"
  perm_damage :: int
  perm_deathtouch :: bool
  perm_phased_out :: bool
  indestructible :: bool
  loyalty :: "int option"
  defense :: "int option"
  battle_trigger_pending :: bool
  perm_saga :: "saga_snapshot option"
  world :: bool
  world_timestamp :: "int option"
  perm_attached_to :: "string option"
  attachment_legal :: "bool option"
  perm_counters :: "(string, int) dict"
  perm_maximums :: "(string, int) dict"

record object_snapshot =
  obj_id :: string
  obj_zone :: string
  obj_token :: bool
  obj_spell_copy :: bool
  obj_card_copy :: bool

record sba_batch =
  put_in_graveyard :: "string list"
  destroy :: "string list"
  detach :: "string list"
  counter_pairs_to_remove :: "(string \<times> int) list"
  counter_maximums_to_remove :: "(string \<times> string \<times> int) list"
  cease :: "string list"
  world_rule :: "string list"
  saga_sacrifices :: "saga_snapshot list"
  deathtouch_checks :: "string list"

definition sba_changed :: "sba_batch \<Rightarrow> bool" where
  "sba_changed b \<longleftrightarrow> put_in_graveyard b \<noteq> [] \<or> destroy b \<noteq> [] \<or> detach b \<noteq> []
     \<or> counter_pairs_to_remove b \<noteq> [] \<or> counter_maximums_to_remove b \<noteq> [] \<or> cease b \<noteq> []
     \<or> world_rule b \<noteq> [] \<or> saga_sacrifices b \<noteq> []"

definition completed_saga :: "permanent_snapshot \<Rightarrow> sba_error + saga_snapshot list" where
  "completed_saga p =
     (case perm_saga p of
        None \<Rightarrow> Inr []
      | Some s \<Rightarrow>
          if saga_object_id s \<noteq> perm_id p \<or> ''saga'' \<notin> set (map casefold (perm_subtypes p))
          then Inl SagaMismatch
          else Inr (if requires_sacrifice s then [s] else []))"

section \<open>What one permanent asks for\<close>

definition has_type :: "string \<Rightarrow> permanent_snapshot \<Rightarrow> bool" where
  "has_type t p \<longleftrightarrow> t \<in> set (map casefold (perm_types p))"

definition has_subtype :: "string \<Rightarrow> permanent_snapshot \<Rightarrow> bool" where
  "has_subtype t p \<longleftrightarrow> t \<in> set (map casefold (perm_subtypes p))"

definition dies_of_toughness :: "permanent_snapshot \<Rightarrow> bool" where
  "dies_of_toughness p \<longleftrightarrow> has_type ''creature'' p \<and>
     (case toughness p of None \<Rightarrow> False | Some t \<Rightarrow> t \<le> 0)"

definition lethally_damaged :: "permanent_snapshot \<Rightarrow> bool" where
  "lethally_damaged p \<longleftrightarrow> has_type ''creature'' p \<and>
     (case toughness p of
        None \<Rightarrow> False
      | Some t \<Rightarrow> \<not> t \<le> 0 \<and> (perm_damage p \<ge> t \<or> perm_deathtouch p))"

definition loses_loyalty :: "permanent_snapshot \<Rightarrow> bool" where
  "loses_loyalty p \<longleftrightarrow> has_type ''planeswalker'' p \<and>
     (case loyalty p of None \<Rightarrow> False | Some l \<Rightarrow> l \<le> 0)"

definition loses_defense :: "permanent_snapshot \<Rightarrow> bool" where
  "loses_defense p \<longleftrightarrow> has_type ''battle'' p \<and>
     (case defense p of None \<Rightarrow> False | Some d \<Rightarrow> d \<le> 0) \<and> \<not> battle_trigger_pending p"

definition unattached_aura :: "permanent_snapshot \<Rightarrow> bool" where
  "unattached_aura p \<longleftrightarrow> has_subtype ''aura'' p \<and>
     (perm_attached_to p = None \<or> attachment_legal p = Some False
      \<or> (has_type ''battle'' p \<or> has_type ''creature'' p))"

definition must_detach :: "permanent_snapshot \<Rightarrow> bool" where
  "must_detach p \<longleftrightarrow> perm_attached_to p \<noteq> None \<and>
     ((has_subtype ''equipment'' p \<or> has_subtype ''fortification'' p)
        \<and> attachment_legal p = Some False
      \<or> (has_type ''battle'' p \<or> has_type ''creature'' p
         \<or> \<not> (has_subtype ''aura'' p \<or> has_subtype ''equipment'' p \<or> has_subtype ''fortification'' p)))"

definition counter_pair :: "permanent_snapshot \<Rightarrow> int" where
  "counter_pair p =
     (let positive = max 0 (dict_get 0 (perm_counters p) ''+1/+1'');
          negative = max 0 (dict_get 0 (perm_counters p) ''-1/-1'') in
      if positive \<noteq> 0 \<and> negative \<noteq> 0 then min positive negative else 0)"

definition excess_counter ::
  "permanent_snapshot \<Rightarrow> (string \<times> string, int) dict \<Rightarrow> string \<times> int \<Rightarrow> (string \<times> string, int) dict" where
  "excess_counter p d m =
     (let current = max 0 (dict_get 0 (perm_counters p) (fst m)) in
      if current > snd m then AList.update (perm_id p, fst m) (current - snd m) d else d)"

section \<open>One check\<close>

record sba_state =
  to_graveyard :: "string list"
  to_destroy :: "string list"
  to_detach :: "string list"
  pairs :: "(string, int) dict"
  excess :: "(string \<times> string, int) dict"
  worlds :: "permanent_snapshot list"
  touched :: "string list"
  sagas :: "saga_snapshot list"

definition sba_start :: sba_state where
  "sba_start = \<lparr>to_graveyard = [], to_destroy = [], to_detach = [], pairs = [], excess = [],
     worlds = [], touched = [], sagas = []\<rparr>"

definition collect_permanent ::
  "sba_state \<Rightarrow> permanent_snapshot \<Rightarrow> saga_snapshot list \<Rightarrow> (string \<times> int) list \<Rightarrow> sba_state" where
  "collect_permanent s p done_sagas maxs =
     (let i = perm_id p in
      s\<lparr>sagas := sagas s @ done_sagas,
        worlds := worlds s @ (if world p then [p] else []),
        to_graveyard := to_graveyard s
          @ (if dies_of_toughness p then [i] else []) @ (if loses_loyalty p then [i] else [])
          @ (if loses_defense p then [i] else []) @ (if unattached_aura p then [i] else []),
        to_destroy := to_destroy s @ (if lethally_damaged p then [i] else []),
        to_detach := to_detach s @ (if must_detach p then [i] else []),
        pairs := (if counter_pair p \<noteq> 0 then AList.update i (counter_pair p) (pairs s) else pairs s),
        excess := foldl (excess_counter p) (excess s) maxs\<rparr>)"

definition sba_step :: "sba_state \<Rightarrow> permanent_snapshot \<Rightarrow> sba_error + sba_state" where
  "sba_step s p =
     (let s0 = s\<lparr>touched := touched s @ (if perm_deathtouch p then [perm_id p] else [])\<rparr> in
      if perm_phased_out p then Inr s0
      else
        ebind (completed_saga p) (\<lambda>done_sagas.
        ebind (ensure (world p \<longrightarrow> world_timestamp p \<noteq> None) WorldTimestampMissing) (\<lambda>_.
        ebind (validated_counter_maximums (perm_maximums p)) (\<lambda>maxs.
        Inr (collect_permanent s0 p done_sagas maxs)))))"

definition world_since :: "permanent_snapshot \<Rightarrow> int" where
  "world_since p = (case world_timestamp p of None \<Rightarrow> 0 | Some t \<Rightarrow> t)"

definition world_rule_losers :: "permanent_snapshot list \<Rightarrow> string list" where
  "world_rule_losers ps =
     (if length ps \<ge> 2 then
        (let newest_timestamp = Max (set (map world_since ps));
             newest = filter (\<lambda>p. world_since p = newest_timestamp) ps in
         if length newest = 1
         then map perm_id (filter (\<lambda>p. world_since p \<noteq> newest_timestamp) ps)
         else map perm_id ps)
      else [])"

definition minus_ids :: "string list \<Rightarrow> string list \<Rightarrow> string list" where
  "minus_ids xs ys = filter (\<lambda>x. x \<notin> set ys) xs"

definition sba_finish :: "sba_state \<Rightarrow> sba_error + sba_batch" where
  "sba_finish s =
     (let losers = world_rule_losers (worlds s);
          saga_ids = map saga_object_id (sagas s);
          moving = to_graveyard s @ to_destroy s @ losers in
      ebind (ensure (set saga_ids \<inter> set moving = {}) SagaOverlap) (\<lambda>_.
      Inr \<lparr>put_in_graveyard = sorted_unique (minus_ids (to_graveyard s) saga_ids),
           destroy = sorted_unique (minus_ids (minus_ids (to_destroy s) (to_graveyard s)) saga_ids),
           detach = sorted_unique (minus_ids (to_detach s) (moving @ saga_ids)),
           counter_pairs_to_remove = sort (pairs s),
           counter_maximums_to_remove = map (\<lambda>((i, k), n). (i, k, n)) (sort (excess s)),
           cease = [],
           world_rule = sorted_unique losers,
           saga_sacrifices = sort_key saga_object_id (sagas s),
           deathtouch_checks = sorted_unique (touched s)\<rparr>))"

definition evaluate_permanents :: "permanent_snapshot list \<Rightarrow> sba_error + sba_batch" where
  "evaluate_permanents ps = ebind (efold sba_step sba_start ps) sba_finish"

definition ceases :: "object_snapshot \<Rightarrow> bool" where
  "ceases v \<longleftrightarrow> (let z = casefold (obj_zone v) in
     z \<noteq> ''outside'' \<and>
     (obj_token v \<and> z \<noteq> ''battlefield'' \<or> obj_spell_copy v \<and> z \<noteq> ''stack''
      \<or> obj_card_copy v \<and> z \<notin> {''stack'', ''battlefield''}))"

definition evaluate_state_based_actions ::
  "permanent_snapshot list \<Rightarrow> object_snapshot list \<Rightarrow> sba_error + sba_batch" where
  "evaluate_state_based_actions ps objs =
     ebind (evaluate_permanents ps) (\<lambda>b.
     Inr (b\<lparr>cease := sorted_unique (map obj_id (filter ceases objs))\<rparr>))"

section \<open>What the loop collects\<close>

definition graveyard_bound :: "permanent_snapshot \<Rightarrow> bool" where
  "graveyard_bound p \<longleftrightarrow> dies_of_toughness p \<or> loses_loyalty p \<or> loses_defense p \<or> unattached_aura p"

definition checks :: "permanent_snapshot \<Rightarrow> bool" where
  "checks p \<longleftrightarrow> perm_phased_out p
     \<or> \<not> isl (completed_saga p) \<and> (world p \<longrightarrow> world_timestamp p \<noteq> None)
       \<and> \<not> isl (validated_counter_maximums (perm_maximums p))"

definition finished_sagas :: "permanent_snapshot \<Rightarrow> saga_snapshot list" where
  "finished_sagas p = (case perm_saga p of None \<Rightarrow> [] | Some s \<Rightarrow> if requires_sacrifice s then [s] else [])"

definition excesses :: "permanent_snapshot \<Rightarrow> (string \<times> string, int) dict" where
  "excesses p = foldl (excess_counter p) [] (projr (validated_counter_maximums (perm_maximums p)))"

definition live :: "permanent_snapshot list \<Rightarrow> permanent_snapshot list" where
  "live ps = filter (\<lambda>p. \<not> perm_phased_out p) ps"

lemma live_simps [simp]:
  "live [] = []"
  "live (p # ps) = (if perm_phased_out p then live ps else p # live ps)"
  by (simp_all add: live_def)

lemma live_mset: "mset ps = mset qs \<Longrightarrow> mset (live ps) = mset (live qs)"
  by (simp add: live_def)

lemma set_live: "set (live ps) = {p \<in> set ps. \<not> perm_phased_out p}"
  by (simp add: live_def)

lemma distinct_live: "distinct (map f ps) \<Longrightarrow> distinct (map f (live ps))"
  by (simp add: live_def distinct_map_filter)

lemma completed_saga_Inr:
  "completed_saga p = Inr ss \<Longrightarrow> ss = finished_sagas p \<and> (\<forall>s \<in> set ss. saga_object_id s = perm_id p)"
  by (auto simp: completed_saga_def finished_sagas_def split: option.splits if_splits)

lemma step_total: "(\<exists>t. sba_step s p = Inr t) \<longleftrightarrow> checks p"
  by (cases "completed_saga p"; cases "validated_counter_maximums (perm_maximums p)")
    (auto simp: sba_step_def checks_def Let_def ebind_ensure_Inr)

lemma steps_total: "(\<exists>t. efold sba_step s ps = Inr t) \<longleftrightarrow> (\<forall>p \<in> set ps. checks p)"
proof (induction ps arbitrary: s)
  case (Cons p ps)
  show ?case
  proof (cases "sba_step s p")
    case (Inl e)
    then have "\<not> checks p" using step_total [of s p] by simp
    with Inl show ?thesis by simp
  next
    case (Inr t)
    then have "checks p" using step_total [of s p] by blast
    with Inr Cons show ?thesis by simp
  qed
qed simp

lemma step_collects:
  assumes "sba_step s p = Inr t"
  shows "set (to_graveyard t) = set (to_graveyard s)
        \<union> (if \<not> perm_phased_out p \<and> graveyard_bound p then {perm_id p} else {})"
    and "to_destroy t = to_destroy s
        @ (if \<not> perm_phased_out p \<and> lethally_damaged p then [perm_id p] else [])"
    and "to_detach t = to_detach s @ (if \<not> perm_phased_out p \<and> must_detach p then [perm_id p] else [])"
    and "worlds t = worlds s @ (if \<not> perm_phased_out p \<and> world p then [p] else [])"
    and "touched t = touched s @ (if perm_deathtouch p then [perm_id p] else [])"
    and "sagas t = sagas s @ (if perm_phased_out p then [] else finished_sagas p)"
    and "pairs t = (if \<not> perm_phased_out p \<and> counter_pair p \<noteq> 0
        then AList.update (perm_id p) (counter_pair p) (pairs s) else pairs s)"
    and "excess t = (if perm_phased_out p then excess s
        else foldl (excess_counter p) (excess s) (projr (validated_counter_maximums (perm_maximums p))))"
proof -
  let ?s = "s\<lparr>touched := touched s @ (if perm_deathtouch p then [perm_id p] else [])\<rparr>"
  have t: "t = (if perm_phased_out p then ?s else collect_permanent ?s p (finished_sagas p)
      (projr (validated_counter_maximums (perm_maximums p))))"
  proof (cases "perm_phased_out p")
    case False
    with assms obtain ss ms where "completed_saga p = Inr ss"
      "validated_counter_maximums (perm_maximums p) = Inr ms" "collect_permanent ?s p ss ms = t"
      unfolding sba_step_def Let_def by (auto simp only: ebind_eq_Inr ensure_eq_Inr if_False sum.inject)
    with False completed_saga_Inr show ?thesis by simp
  qed (use assms in \<open>simp add: sba_step_def\<close>)
  show "set (to_graveyard t) = set (to_graveyard s)
      \<union> (if \<not> perm_phased_out p \<and> graveyard_bound p then {perm_id p} else {})"
    by (auto simp: t collect_permanent_def Let_def graveyard_bound_def)
  show "to_destroy t = to_destroy s
      @ (if \<not> perm_phased_out p \<and> lethally_damaged p then [perm_id p] else [])"
    by (simp add: t collect_permanent_def Let_def)
  show "to_detach t = to_detach s @ (if \<not> perm_phased_out p \<and> must_detach p then [perm_id p] else [])"
    by (simp add: t collect_permanent_def Let_def)
  show "worlds t = worlds s @ (if \<not> perm_phased_out p \<and> world p then [p] else [])"
    by (simp add: t collect_permanent_def Let_def)
  show "touched t = touched s @ (if perm_deathtouch p then [perm_id p] else [])"
    by (simp add: t collect_permanent_def Let_def)
  show "sagas t = sagas s @ (if perm_phased_out p then [] else finished_sagas p)"
    by (simp add: t collect_permanent_def Let_def)
  show "pairs t = (if \<not> perm_phased_out p \<and> counter_pair p \<noteq> 0
      then AList.update (perm_id p) (counter_pair p) (pairs s) else pairs s)"
    by (simp add: t collect_permanent_def Let_def)
  show "excess t = (if perm_phased_out p then excess s
      else foldl (excess_counter p) (excess s) (projr (validated_counter_maximums (perm_maximums p))))"
    by (simp add: t collect_permanent_def Let_def)
qed

lemma steps_collect:
  assumes "efold sba_step s ps = Inr t"
  shows "set (to_graveyard t) = set (to_graveyard s) \<union> perm_id ` {p \<in> set (live ps). graveyard_bound p}"
    and "to_destroy t = to_destroy s @ map perm_id (filter lethally_damaged (live ps))"
    and "to_detach t = to_detach s @ map perm_id (filter must_detach (live ps))"
    and "worlds t = worlds s @ filter world (live ps)"
    and "touched t = touched s @ map perm_id (filter perm_deathtouch ps)"
    and "sagas t = sagas s @ concat (map finished_sagas (live ps))"
proof -
  have "set (to_graveyard t) = set (to_graveyard s) \<union> perm_id ` {p \<in> set (live ps). graveyard_bound p}
    \<and> to_destroy t = to_destroy s @ map perm_id (filter lethally_damaged (live ps))
    \<and> to_detach t = to_detach s @ map perm_id (filter must_detach (live ps))
    \<and> worlds t = worlds s @ filter world (live ps)
    \<and> touched t = touched s @ map perm_id (filter perm_deathtouch ps)
    \<and> sagas t = sagas s @ concat (map finished_sagas (live ps))"
    using assms
  proof (induction ps arbitrary: s)
    case (Cons p ps)
    from Cons.prems obtain u where u: "sba_step s p = Inr u" and rest: "efold sba_step u ps = Inr t"
      by (auto simp: ebind_eq_Inr)
    from Cons.IH [OF rest] step_collects(1-6) [OF u] show ?case by auto
  qed simp
  then show "set (to_graveyard t) = set (to_graveyard s) \<union> perm_id ` {p \<in> set (live ps). graveyard_bound p}"
    and "to_destroy t = to_destroy s @ map perm_id (filter lethally_damaged (live ps))"
    and "to_detach t = to_detach s @ map perm_id (filter must_detach (live ps))"
    and "worlds t = worlds s @ filter world (live ps)"
    and "touched t = touched s @ map perm_id (filter perm_deathtouch ps)"
    and "sagas t = sagas s @ concat (map finished_sagas (live ps))"
    by blast+
qed

lemma excess_keys: "fst ` set (foldl (excess_counter p) d ms) \<subseteq> fst ` set d \<union> {perm_id p} \<times> fst ` set ms"
proof (induction ms arbitrary: d)
  case (Cons m ms)
  from Cons [of "excess_counter p d m"] show ?case
    by (auto simp: excess_counter_def Let_def split: if_splits)
qed simp

lemma update_append: "k \<notin> fst ` set d \<Longrightarrow> AList.update k v (d @ e) = d @ AList.update k v e"
  by (induction d) auto

lemma excess_append:
  assumes "\<forall>k \<in> fst ` set d. fst k \<noteq> perm_id p"
  shows "foldl (excess_counter p) (d @ e) ms = d @ foldl (excess_counter p) e ms"
proof (induction ms arbitrary: e)
  case (Cons m ms)
  have "(perm_id p, fst m) \<notin> fst ` set d" using assms by force
  then have "excess_counter p (d @ e) m = d @ excess_counter p e m"
    by (simp add: excess_counter_def Let_def update_append)
  with Cons show ?case by simp
qed simp

text \<open>When no identity occurs twice, the dictionaries are concatenations as well.\<close>

lemma steps_collect_dicts:
  assumes "efold sba_step s ps = Inr t" and "distinct (map perm_id ps)"
    and "\<forall>p \<in> set ps. perm_id p \<notin> fst ` set (pairs s) \<and> perm_id p \<notin> fst ` fst ` set (excess s)"
  shows "pairs t = pairs s @ map (\<lambda>p. (perm_id p, counter_pair p)) (filter (\<lambda>p. counter_pair p \<noteq> 0) (live ps))
    \<and> excess t = excess s @ concat (map excesses (live ps))"
  using assms
proof (induction ps arbitrary: s)
  case (Cons p ps)
  from Cons.prems(1) obtain u where u: "sba_step s p = Inr u" and rest: "efold sba_step u ps = Inr t"
    by (auto simp: ebind_eq_Inr)
  have new: "perm_id p \<notin> fst ` set (pairs s)" "perm_id p \<notin> fst ` fst ` set (excess s)"
    using Cons.prems(3) by simp_all
  have d: "pairs u = pairs s @ (if \<not> perm_phased_out p \<and> counter_pair p \<noteq> 0
      then [(perm_id p, counter_pair p)] else [])"
    using step_collects(7) [OF u] dict_set_new [OF new(1)] by simp
  have e: "excess u = excess s @ (if perm_phased_out p then [] else excesses p)"
  proof -
    have "\<forall>k \<in> fst ` set (excess s). fst k \<noteq> perm_id p" using new(2) by force
    from excess_append [OF this, of "[]"] step_collects(8) [OF u] show ?thesis
      by (simp add: excesses_def)
  qed
  have "fst ` fst ` set (excesses p) \<subseteq> {perm_id p}"
    using excess_keys [of p "[]"] by (fastforce simp: excesses_def)
  then have keys: "fst ` set (pairs u) \<subseteq> insert (perm_id p) (fst ` set (pairs s))"
    "fst ` fst ` set (excess u) \<subseteq> insert (perm_id p) (fst ` fst ` set (excess s))"
    by (auto simp: d e)
  have "\<forall>q \<in> set ps. perm_id q \<notin> fst ` set (pairs u) \<and> perm_id q \<notin> fst ` fst ` set (excess u)"
  proof
    fix q assume q: "q \<in> set ps"
    then have "perm_id q \<noteq> perm_id p" using Cons.prems(2) by (metis distinct.simps(2) image_eqI list.set_map list.simps(9))
    moreover have "perm_id q \<notin> fst ` set (pairs s) \<and> perm_id q \<notin> fst ` fst ` set (excess s)"
      using q Cons.prems(3) by simp
    ultimately show "perm_id q \<notin> fst ` set (pairs u) \<and> perm_id q \<notin> fst ` fst ` set (excess u)"
      using keys by blast
  qed
  from Cons.IH [OF rest _ this] Cons.prems(2)
  show ?case
    by (simp add: d e)
qed simp

section \<open>The batch\<close>

lemma evaluate_collects:
  assumes "evaluate_permanents ps = Inr b"
  obtains t where "efold sba_step sba_start ps = Inr t" and "sba_finish t = Inr b"
    and "\<forall>p \<in> set ps. checks p"
proof -
  from assms obtain t where t: "efold sba_step sba_start ps = Inr t" and fin: "sba_finish t = Inr b"
    by (auto simp: evaluate_permanents_def ebind_eq_Inr)
  from t steps_total [of sba_start ps] have "\<forall>p \<in> set ps. checks p" by blast
  with t fin show thesis by (rule that)
qed

lemma start_simps [simp]:
  "to_graveyard sba_start = []" "to_destroy sba_start = []" "to_detach sba_start = []"
  "pairs sba_start = []" "excess sba_start = []" "worlds sba_start = []"
  "touched sba_start = []" "sagas sba_start = []"
  by (simp_all add: sba_start_def)

lemma set_minus_ids [simp]: "set (minus_ids xs ys) = set xs - set ys"
  by (auto simp: minus_ids_def)

lemma finished_saga_ids:
  assumes "\<forall>p \<in> set ps. checks p"
  shows "\<forall>p \<in> set (live ps). \<forall>s \<in> set (finished_sagas p). saga_object_id s = perm_id p"
proof (intro ballI)
  fix p s
  assume p: "p \<in> set (live ps)" and s: "s \<in> set (finished_sagas p)"
  then have "\<not> isl (completed_saga p)" using assms by (auto simp: set_live checks_def)
  then obtain ss where ss: "completed_saga p = Inr ss" by (cases "completed_saga p") simp_all
  with completed_saga_Inr [OF ss] s show "saga_object_id s = perm_id p" by simp
qed

lemma finished_saga_list:
  assumes "\<forall>p \<in> set ps. \<forall>s \<in> set (finished_sagas p). saga_object_id s = perm_id p"
  shows "map saga_object_id (concat (map finished_sagas ps))
    = map perm_id (filter (\<lambda>p. finished_sagas p \<noteq> []) ps)"
  using assms by (induction ps) (auto simp: finished_sagas_def split: option.splits)

lemma finish_simps:
  assumes "sba_finish t = Inr b"
  shows "put_in_graveyard b = sorted_unique (to_graveyard t)"
    and "destroy b = sorted_unique (minus_ids (to_destroy t) (to_graveyard t))"
    and "detach b = sorted_unique (minus_ids (to_detach t)
      (to_graveyard t @ to_destroy t @ world_rule_losers (worlds t) @ map saga_object_id (sagas t)))"
    and "counter_pairs_to_remove b = sort (pairs t)"
    and "counter_maximums_to_remove b = map (\<lambda>((i, k), n). (i, k, n)) (sort (excess t))"
    and "world_rule b = sorted_unique (world_rule_losers (worlds t))"
    and "saga_sacrifices b = sort_key saga_object_id (sagas t)"
    and "deathtouch_checks b = sorted_unique (touched t)"
    and "cease b = []"
    and "saga_object_id ` set (sagas t)
      \<inter> (set (to_graveyard t) \<union> set (to_destroy t) \<union> set (world_rule_losers (worlds t))) = {}"
proof -
  from assms have disj: "saga_object_id ` set (sagas t)
      \<inter> (set (to_graveyard t) \<union> set (to_destroy t) \<union> set (world_rule_losers (worlds t))) = {}"
    by (simp add: sba_finish_def Let_def ebind_ensure_Inr Un_assoc)
  have keep: "minus_ids xs (map saga_object_id (sagas t)) = xs"
    if "set xs \<inter> saga_object_id ` set (sagas t) = {}" for xs
    using that by (auto simp: minus_ids_def filter_id_conv)
  have "minus_ids (to_graveyard t) (map saga_object_id (sagas t)) = to_graveyard t"
    and "minus_ids (minus_ids (to_destroy t) (to_graveyard t)) (map saga_object_id (sagas t))
      = minus_ids (to_destroy t) (to_graveyard t)"
    using disj by (intro keep; auto)+
  note simps = this
  show "put_in_graveyard b = sorted_unique (to_graveyard t)"
    and "destroy b = sorted_unique (minus_ids (to_destroy t) (to_graveyard t))"
    and "detach b = sorted_unique (minus_ids (to_detach t)
      (to_graveyard t @ to_destroy t @ world_rule_losers (worlds t) @ map saga_object_id (sagas t)))"
    and "counter_pairs_to_remove b = sort (pairs t)"
    and "counter_maximums_to_remove b = map (\<lambda>((i, k), n). (i, k, n)) (sort (excess t))"
    and "world_rule b = sorted_unique (world_rule_losers (worlds t))"
    and "saga_sacrifices b = sort_key saga_object_id (sagas t)"
    and "deathtouch_checks b = sorted_unique (touched t)"
    and "cease b = []"
    using assms by (auto simp: sba_finish_def Let_def ebind_ensure_Inr simps)
  show "saga_object_id ` set (sagas t)
      \<inter> (set (to_graveyard t) \<union> set (to_destroy t) \<union> set (world_rule_losers (worlds t))) = {}"
    by (rule disj)
qed

section \<open>The World rule\<close>

lemma world_losers_iff:
  assumes "distinct (map perm_id ws)" and "p \<in> set ws"
  shows "perm_id p \<notin> set (world_rule_losers ws)
    \<longleftrightarrow> (\<forall>q \<in> set ws. q \<noteq> p \<longrightarrow> world_since q < world_since p)"
proof (cases "length ws \<ge> 2")
  case False
  with assms(2) have "ws = [p]" by (cases ws) (auto simp: not_le Suc_le_eq)
  then show ?thesis by (simp add: world_rule_losers_def)
next
  case True
  let ?M = "Max (set (map world_since ws))"
  let ?new = "filter (\<lambda>q. world_since q = ?M) ws"
  have le: "world_since q \<le> ?M" if "q \<in> set ws" for q using that by simp
  have inj: "inj_on perm_id (set ws)" and d: "distinct ws" using assms(1) by (simp_all add: distinct_map)
  have "?M \<in> world_since ` set ws" using assms(2) by (simp only: list.set_map) (rule Max_in, auto)
  then obtain m where m: "m \<in> set ws" "world_since m = ?M" by force
  show ?thesis
  proof (cases "length ?new = 1")
    case one: True
    then obtain n where n: "?new = [n]" by (auto simp: length_Suc_conv)
    then have top: "q \<in> set ws \<and> world_since q = ?M \<longleftrightarrow> q = n" for q
    proof -
      have "q \<in> set ?new \<longleftrightarrow> q = n" unfolding n by simp
      then show ?thesis by simp
    qed
    have "set (world_rule_losers ws) = perm_id ` (set ws - {n})"
      using True one top by (auto simp: world_rule_losers_def)
    then have "perm_id p \<notin> set (world_rule_losers ws) \<longleftrightarrow> p = n"
      using inj assms(2) by (auto simp: inj_on_eq_iff)
    moreover have "p = n \<longleftrightarrow> (\<forall>q \<in> set ws. q \<noteq> p \<longrightarrow> world_since q < world_since p)"
      using top le assms(2) m by (metis le_less not_less)
    ultimately show ?thesis by simp
  next
    case False
    then have "set (world_rule_losers ws) = perm_id ` set ws"
      using True by (simp add: world_rule_losers_def)
    moreover have "\<not> (\<forall>q \<in> set ws. q \<noteq> p \<longrightarrow> world_since q < world_since p)"
    proof
      assume top: "\<forall>q \<in> set ws. q \<noteq> p \<longrightarrow> world_since q < world_since p"
      then have "world_since q = ?M \<longleftrightarrow> q = p" if "q \<in> set ws" for q
        using that m le assms(2) by (metis le_less not_less)
      then have "set ?new = {p}" using assms(2) by auto
      with d have "?new = [p]" by (intro distinct_singleton) simp_all
      with False show False by simp
    qed
    ultimately show ?thesis using assms(2) by auto
  qed
qed

text \<open>
  Of the World permanents in play one survives the check exactly when it became a World
  permanent strictly later than every other; so at most one is left, and none when the newest tie.
\<close>

theorem world_rule_exact:
  assumes "evaluate_permanents ps = Inr b" and "distinct (map perm_id ps)"
    and "p \<in> set ps" and "world p" and "\<not> perm_phased_out p"
  shows "perm_id p \<notin> set (world_rule b)
    \<longleftrightarrow> (\<forall>q \<in> set ps. world q \<and> \<not> perm_phased_out q \<and> q \<noteq> p \<longrightarrow> world_since q < world_since p)"
proof -
  obtain t where run: "efold sba_step sba_start ps = Inr t" and fin: "sba_finish t = Inr b"
    by (rule evaluate_collects [OF assms(1)])
  have "set (world_rule b) = set (world_rule_losers (filter world (live ps)))"
    by (simp add: finish_simps(6) [OF fin] steps_collect(4) [OF run])
  moreover have "distinct (map perm_id (filter world (live ps)))"
    by (intro distinct_map_filter distinct_live assms(2))
  moreover have "p \<in> set (filter world (live ps))" using assms(3-5) by (simp add: set_live)
  ultimately show ?thesis using world_losers_iff by (auto simp: set_live)
qed

section \<open>Order independence\<close>

lemma world_losers_mset:
  assumes "mset ws = mset vs"
  shows "set (world_rule_losers ws) = set (world_rule_losers vs)"
proof -
  have "set ws = set vs" and "length ws = length vs"
    using assms by (auto dest: mset_eq_setD mset_eq_length)
  moreover have "length (filter P ws) = length (filter P vs)" for P
    using assms by (metis mset_eq_length mset_filter)
  ultimately show ?thesis by (simp add: world_rule_losers_def)
qed

lemma sort_mset_cong: "mset xs = mset ys \<Longrightarrow> sort xs = sort (ys :: 'a::linorder list)"
  by (metis sorted_list_of_multiset_mset)

lemma mset_concat_map: "mset xs = mset ys \<Longrightarrow> mset (concat (map f xs)) = mset (concat (map f ys))"
  by (metis (no_types, lifting) map_map mset_concat mset_map sum_mset_sum_list)

lemma finish_cong:
  assumes "set (to_graveyard u) = set (to_graveyard t)" and "set (to_destroy u) = set (to_destroy t)"
    and "set (to_detach u) = set (to_detach t)" and "set (touched u) = set (touched t)"
    and "set (world_rule_losers (worlds u)) = set (world_rule_losers (worlds t))"
    and "sort (pairs u) = sort (pairs t)" and "sort (excess u) = sort (excess t)"
    and "set (sagas u) = set (sagas t)"
    and "sort_key saga_object_id (sagas u) = sort_key saga_object_id (sagas t)"
  shows "sba_finish u = sba_finish t"
proof -
  let ?ids = "\<lambda>s. map saga_object_id (sagas s)"
  let ?moving = "\<lambda>s. to_graveyard s @ to_destroy s @ world_rule_losers (worlds s)"
  have ids: "set (?ids u) = set (?ids t)" and moving: "set (?moving u) = set (?moving t)"
    using assms by simp_all
  have "sorted_unique (minus_ids (to_graveyard u) (?ids u)) = sorted_unique (minus_ids (to_graveyard t) (?ids t))"
    "sorted_unique (minus_ids (minus_ids (to_destroy u) (to_graveyard u)) (?ids u))
      = sorted_unique (minus_ids (minus_ids (to_destroy t) (to_graveyard t)) (?ids t))"
    "sorted_unique (minus_ids (to_detach u) (?moving u @ ?ids u))
      = sorted_unique (minus_ids (to_detach t) (?moving t @ ?ids t))"
    "sorted_unique (world_rule_losers (worlds u)) = sorted_unique (world_rule_losers (worlds t))"
    "sorted_unique (touched u) = sorted_unique (touched t)"
    by (intro sorted_unique_cong; simp only: set_minus_ids set_append ids moving assms)+
  then show ?thesis by (simp only: sba_finish_def Let_def ids moving assms(6,7,9))
qed

text \<open>
  C34. The batch does not depend on the order in which the battlefield is scanned: with one snapshot
  for each object, any other order gives the same batch, and fails only if this one fails.
\<close>

theorem sba_order_independent:
  assumes "evaluate_permanents ps = Inr b" and "distinct (map perm_id ps)" and "mset qs = mset ps"
  shows "evaluate_permanents qs = Inr b"
proof -
  obtain t where run: "efold sba_step sba_start ps = Inr t" and fin: "sba_finish t = Inr b"
    and ok: "\<forall>p \<in> set ps. checks p" by (rule evaluate_collects [OF assms(1)])
  have "set qs = set ps" using assms(3) by (rule mset_eq_setD)
  with ok have "\<forall>q \<in> set qs. checks q" by simp
  then obtain u where run': "efold sba_step sba_start qs = Inr u" using steps_total by blast
  have dq: "distinct (map perm_id qs)" using assms(2,3) by (metis mset_eq_imp_distinct_iff mset_map)
  have L: "mset (live qs) = mset (live ps)" by (rule live_mset [OF assms(3)])
  note Ls = mset_eq_setD [OF L]
  have F: "mset (filter P (live qs)) = mset (filter P (live ps))" for P
    using L by (simp add: mset_filter)
  have dicts: "pairs t = map (\<lambda>p. (perm_id p, counter_pair p)) (filter (\<lambda>p. counter_pair p \<noteq> 0) (live ps))
      \<and> excess t = concat (map excesses (live ps))"
    "pairs u = map (\<lambda>p. (perm_id p, counter_pair p)) (filter (\<lambda>p. counter_pair p \<noteq> 0) (live qs))
      \<and> excess u = concat (map excesses (live qs))"
    using steps_collect_dicts [OF run assms(2)] steps_collect_dicts [OF run' dq] by simp_all
  have sets: "set (to_graveyard u) = set (to_graveyard t)" "set (to_destroy u) = set (to_destroy t)"
    "set (to_detach u) = set (to_detach t)" "set (touched u) = set (touched t)"
    "set (world_rule_losers (worlds u)) = set (world_rule_losers (worlds t))"
    "sort (pairs u) = sort (pairs t)" "sort (excess u) = sort (excess t)"
    "mset (sagas u) = mset (sagas t)"
    using dicts F world_losers_mset [OF F] \<open>set qs = set ps\<close>
      mset_concat_map [OF L]
    by (auto simp: steps_collect [OF run] steps_collect [OF run'] Ls intro!: sort_mset_cong)
  note sagas = mset_eq_setD [OF sets(8)]
  have "distinct (map saga_object_id (sagas t))"
  proof -
    have "map saga_object_id (concat (map finished_sagas (live ps)))
        = map perm_id (filter (\<lambda>p. finished_sagas p \<noteq> []) (live ps))"
      by (rule finished_saga_list [OF finished_saga_ids [OF ok]])
    then show ?thesis
      by (simp add: steps_collect(6) [OF run] distinct_map_filter distinct_live assms(2))
  qed
  then have "distinct (sagas t)" and "inj_on saga_object_id (set (sagas t))"
    by (simp_all add: distinct_map)
  then have "sort_key saga_object_id (sagas u) = sort_key saga_object_id (sagas t)"
    by (intro sort_key_permutation [OF sets(8) [symmetric], symmetric])
  then have "sba_finish u = sba_finish t" by (intro finish_cong sets(1-7) sagas)
  with run' fin show ?thesis by (simp add: evaluate_permanents_def)
qed

section \<open>Counter maximums\<close>

definition strictest :: "counter_maximum list \<Rightarrow> string \<Rightarrow> int \<Rightarrow> bool" where
  "strictest fs k n \<longleftrightarrow> (\<exists>f \<in> set fs. maximum_counter f = k \<and> maximum_amount f = n
     \<and> (\<forall>g \<in> set fs. maximum_counter g = k \<longrightarrow> n \<le> maximum_amount g))"

definition fragment_ok :: "counter_maximum \<Rightarrow> bool" where
  "fragment_ok f \<longleftrightarrow> counter_maximum_init f = Inr f"

lemma fragment_okD:
  assumes "fragment_ok f"
  shows "normalized_counter_name (maximum_counter f) = Inr (maximum_counter f)" and "maximum_amount f \<ge> 0"
proof -
  from assms obtain name where n: "normalized_counter_name (maximum_counter f) = Inr name"
    and m: "maximum_amount f \<ge> 0" and f: "f\<lparr>maximum_counter := name\<rparr> = f"
    by (auto simp: fragment_ok_def counter_maximum_init_def ebind_eq_Inr)
  from arg_cong [OF f, of maximum_counter] n
  show "normalized_counter_name (maximum_counter f) = Inr (maximum_counter f)" by simp
  show "maximum_amount f \<ge> 0" by (rule m)
qed

lemma lowered_maximums:
  "map_of (foldl lower_maximum d fs) k = Some n \<longleftrightarrow>
     (map_of d k = Some n \<and> (\<forall>g \<in> set fs. maximum_counter g = k \<longrightarrow> n \<le> maximum_amount g))
     \<or> (strictest fs k n \<and> (case map_of d k of None \<Rightarrow> True | Some m \<Rightarrow> n \<le> m))"
proof (induction fs arbitrary: d)
  case Nil
  then show ?case by (simp add: strictest_def)
next
  case (Cons f fs)
  show ?case
  proof (cases "maximum_counter f = k")
    case True
    then show ?thesis using Cons [of "lower_maximum d f"]
      by (cases "map_of d k") (auto simp: lower_maximum_def dict_get_def strictest_def min_def)
  next
    case False
    then show ?thesis using Cons [of "lower_maximum d f"]
      by (auto simp: lower_maximum_def strictest_def)
  qed
qed

lemma lowered_distinct: "distinct (map fst d) \<Longrightarrow> distinct (map fst (foldl lower_maximum d fs))"
  by (induction fs arbitrary: d) (simp_all add: lower_maximum_def distinct_dict_set)

lemma effective_maximums:
  shows "distinct (map fst (effective_counter_maximums fs))"
    and "(k, n) \<in> set (effective_counter_maximums fs) \<longleftrightarrow> strictest fs k n"
proof -
  let ?d = "foldl lower_maximum [] fs"
  have d: "distinct (map fst ?d)" by (rule lowered_distinct) simp
  have "mset (map fst (sort ?d)) = mset (map fst ?d)" by simp
  with d show "distinct (map fst (effective_counter_maximums fs))"
    by (metis effective_counter_maximums_def mset_eq_imp_distinct_iff)
  have "(k, n) \<in> set ?d \<longleftrightarrow> map_of ?d k = Some n" using d by simp
  then show "(k, n) \<in> set (effective_counter_maximums fs) \<longleftrightarrow> strictest fs k n"
    using lowered_maximums [of "[]" fs k n] by (simp add: effective_counter_maximums_def)
qed

lemma validated_effective:
  assumes "\<forall>f \<in> set fs. fragment_ok f"
  shows "validated_counter_maximums (effective_counter_maximums fs) = Inr (effective_counter_maximums fs)"
proof -
  have "validated_maximum r = Inr r" if r: "r \<in> set (effective_counter_maximums fs)" for r
  proof -
    obtain k n where kn: "r = (k, n)" by (cases r)
    then obtain f where "f \<in> set fs" "maximum_counter f = k" "maximum_amount f = n"
      using r effective_maximums(2) by (auto simp: strictest_def)
    with assms fragment_okD [of f] kn show ?thesis by (simp add: validated_maximum_def)
  qed
  then have "emap validated_maximum (effective_counter_maximums fs)
      = Inr (map (\<lambda>r. r) (effective_counter_maximums fs))"
    by (intro emap_total) simp
  then show ?thesis
    by (simp add: validated_counter_maximums_def effective_counter_maximums_def sort_key_id_if_sorted)
qed

lemma excess_distinct:
  assumes "distinct (map fst ms)"
  shows "((i, k), n) \<in> set (foldl (excess_counter p) [] ms) \<longleftrightarrow>
    i = perm_id p \<and> (\<exists>m. (k, m) \<in> set ms \<and> n = max 0 (dict_get 0 (perm_counters p) k) - m \<and> n > 0)"
proof -
  have "distinct (map fst ms) \<Longrightarrow> (\<forall>m \<in> set ms. (perm_id p, fst m) \<notin> fst ` set d) \<Longrightarrow>
    ((i, k), n) \<in> set (foldl (excess_counter p) d ms) \<longleftrightarrow> ((i, k), n) \<in> set d \<or>
      i = perm_id p \<and> (\<exists>m. (k, m) \<in> set ms \<and> n = max 0 (dict_get 0 (perm_counters p) k) - m \<and> n > 0)"
    for d ms
  proof (induction ms arbitrary: d)
    case (Cons m ms)
    let ?cur = "max 0 (dict_get 0 (perm_counters p) (fst m))"
    have d: "excess_counter p d m
        = d @ (if ?cur > snd m then [((perm_id p, fst m), ?cur - snd m)] else [])"
      using Cons.prems(2) by (simp add: excess_counter_def Let_def dict_set_new)
    have fresh: "\<forall>x \<in> set ms. (perm_id p, fst x) \<notin> fst ` set (excess_counter p d m)"
    proof
      fix x assume x: "x \<in> set ms"
      then have "fst x \<noteq> fst m" using Cons.prems(1) by (metis distinct.simps(2) image_eqI list.set_map list.simps(9))
      with x Cons.prems(2) show "(perm_id p, fst x) \<notin> fst ` set (excess_counter p d m)" by (auto simp: d)
    qed
    have "distinct (map fst ms)" using Cons.prems(1) by simp
    note IH = Cons.IH [OF this fresh]
    have "((i, k), n) \<in> set (excess_counter p d m) \<longleftrightarrow> ((i, k), n) \<in> set d \<or>
        i = perm_id p \<and> k = fst m \<and> n = ?cur - snd m \<and> n > 0"
      by (auto simp: d)
    then show ?case using IH by (cases m) auto
  qed simp
  from this [of ms "[]"] assms show ?thesis by simp
qed

text \<open>
  A permanent with printed counter maximums loses, of each kind it has too many of, exactly the
  excess over the strictest of its maximums for that kind; no other kind is touched.
\<close>

theorem strictest_maximum_enforced:
  assumes "evaluate_permanents ps = Inr b" and "distinct (map perm_id ps)"
    and "p \<in> set ps" and "\<not> perm_phased_out p"
    and "perm_maximums p = effective_counter_maximums fs" and "\<forall>f \<in> set fs. fragment_ok f"
  shows "(perm_id p, k, n) \<in> set (counter_maximums_to_remove b)
    \<longleftrightarrow> (\<exists>m. strictest fs k m \<and> n = max 0 (dict_get 0 (perm_counters p) k) - m \<and> n > 0)"
proof -
  obtain t where run: "efold sba_step sba_start ps = Inr t" and fin: "sba_finish t = Inr b"
    by (rule evaluate_collects [OF assms(1)])
  have ex: "excess t = concat (map excesses (live ps))"
    using steps_collect_dicts [OF run assms(2)] by simp
  have own: "q = p" if "q \<in> set ps" "((perm_id p, k), n) \<in> set (excesses q)" for q
  proof -
    have "perm_id q = perm_id p" using that(2) excess_keys [of q "[]"] by (force simp: excesses_def)
    with assms(2,3) that(1) show ?thesis by (auto simp: distinct_map dest: inj_onD)
  qed
  have "(perm_id p, k, n) \<in> set (counter_maximums_to_remove b) \<longleftrightarrow> ((perm_id p, k), n) \<in> set (excess t)"
    by (force simp: finish_simps(5) [OF fin])
  also have "\<dots> \<longleftrightarrow> ((perm_id p, k), n) \<in> set (excesses p)"
    using own assms(3,4) by (auto simp: ex set_live)
  also have "\<dots> \<longleftrightarrow> (\<exists>m. strictest fs k m \<and> n = max 0 (dict_get 0 (perm_counters p) k) - m \<and> n > 0)"
    using excess_distinct [OF effective_maximums(1)]
    by (simp add: excesses_def assms(5) validated_effective [OF assms(6)] effective_maximums(2))
  finally show ?thesis .
qed

section \<open>The rules\<close>

text \<open>
  What CR 704.5 asks of one permanent and one object, rule by rule: it goes to its owner's graveyard (f, i,
  v, m), is destroyed (g, h), is unattached (n, p), is sacrificed as a finished Saga (s), ceases to exist
  (d, e).  The model above does not use these.
\<close>

definition is_a :: "permanent_snapshot \<Rightarrow> string \<Rightarrow> bool" where
  "is_a p t \<longleftrightarrow> (\<exists>x \<in> set (perm_types p). casefold x = t)"

definition is_sub :: "permanent_snapshot \<Rightarrow> string \<Rightarrow> bool" where
  "is_sub p t \<longleftrightarrow> (\<exists>x \<in> set (perm_subtypes p). casefold x = t)"

inductive rule_graveyard :: "permanent_snapshot \<Rightarrow> bool" where
  no_toughness: "is_a p ''creature'' \<Longrightarrow> toughness p = Some n \<Longrightarrow> n \<le> 0 \<Longrightarrow> rule_graveyard p"
| no_loyalty: "is_a p ''planeswalker'' \<Longrightarrow> loyalty p = Some n \<Longrightarrow> n \<le> 0 \<Longrightarrow> rule_graveyard p"
| no_defense: "is_a p ''battle'' \<Longrightarrow> defense p = Some n \<Longrightarrow> n \<le> 0 \<Longrightarrow> \<not> battle_trigger_pending p \<Longrightarrow> rule_graveyard p"
| aura_alone: "is_sub p ''aura'' \<Longrightarrow> perm_attached_to p = None \<Longrightarrow> rule_graveyard p"
| aura_illegal: "is_sub p ''aura'' \<Longrightarrow> attachment_legal p = Some False \<Longrightarrow> rule_graveyard p"
| aura_creature: "is_sub p ''aura'' \<Longrightarrow> is_a p ''creature'' \<or> is_a p ''battle'' \<Longrightarrow> rule_graveyard p"

inductive rule_destroy :: "permanent_snapshot \<Rightarrow> bool" where
  lethal_damage: "is_a p ''creature'' \<Longrightarrow> toughness p = Some n \<Longrightarrow> 0 < n \<Longrightarrow> n \<le> perm_damage p \<Longrightarrow> rule_destroy p"
| deathtouched: "is_a p ''creature'' \<Longrightarrow> toughness p = Some n \<Longrightarrow> 0 < n \<Longrightarrow> perm_deathtouch p \<Longrightarrow> rule_destroy p"

inductive rule_detach :: "permanent_snapshot \<Rightarrow> bool" where
  illegal: "perm_attached_to p = Some h \<Longrightarrow> is_sub p ''equipment'' \<or> is_sub p ''fortification''
    \<Longrightarrow> attachment_legal p = Some False \<Longrightarrow> rule_detach p"
| creature: "perm_attached_to p = Some h \<Longrightarrow> is_a p ''creature'' \<or> is_a p ''battle'' \<Longrightarrow> rule_detach p"
| other: "perm_attached_to p = Some h \<Longrightarrow>
    \<not> is_sub p ''aura'' \<Longrightarrow> \<not> is_sub p ''equipment'' \<Longrightarrow> \<not> is_sub p ''fortification'' \<Longrightarrow> rule_detach p"

inductive rule_sacrifice :: "permanent_snapshot \<Rightarrow> bool" where
  last_chapter: "perm_saga p = Some s \<Longrightarrow> last (chapter_numbers s) \<le> lore_counters s
    \<Longrightarrow> \<not> chapter_trigger_pending s \<Longrightarrow> rule_sacrifice p"

inductive rule_cease :: "object_snapshot \<Rightarrow> bool" where
  token: "obj_token v \<Longrightarrow> casefold (obj_zone v) \<notin> {''outside'', ''battlefield''} \<Longrightarrow> rule_cease v"
| spell_copy: "obj_spell_copy v \<Longrightarrow> casefold (obj_zone v) \<notin> {''outside'', ''stack''} \<Longrightarrow> rule_cease v"
| card_copy: "obj_card_copy v \<Longrightarrow> casefold (obj_zone v) \<notin> {''outside'', ''stack'', ''battlefield''} \<Longrightarrow> rule_cease v"

lemma rules_decided:
  "rule_graveyard p \<longleftrightarrow> graveyard_bound p" "rule_destroy p \<longleftrightarrow> lethally_damaged p"
  "rule_detach p \<longleftrightarrow> must_detach p" "rule_sacrifice p \<longleftrightarrow> finished_sagas p \<noteq> []" "rule_cease v \<longleftrightarrow> ceases v"
proof -
  have types: "is_a q t \<longleftrightarrow> has_type t q" "is_sub q t \<longleftrightarrow> has_subtype t q" for q t
    by (auto simp: is_a_def is_sub_def has_type_def has_subtype_def)
  show "rule_graveyard p \<longleftrightarrow> graveyard_bound p"
    unfolding rule_graveyard.simps graveyard_bound_def dies_of_toughness_def loses_loyalty_def loses_defense_def
      unattached_aura_def types by (cases "toughness p"; cases "loyalty p"; cases "defense p"; simp) blast+
  show "rule_destroy p \<longleftrightarrow> lethally_damaged p"
    unfolding rule_destroy.simps lethally_damaged_def types by (cases "toughness p") auto
  show "rule_detach p \<longleftrightarrow> must_detach p"
    unfolding rule_detach.simps must_detach_def types by (cases "perm_attached_to p") auto
  show "rule_sacrifice p \<longleftrightarrow> finished_sagas p \<noteq> []"
    by (cases "perm_saga p") (auto simp: rule_sacrifice.simps finished_sagas_def requires_sacrifice_def final_chapter_number_def)
  show "rule_cease v \<longleftrightarrow> ceases v"
    by (auto simp: rule_cease.simps ceases_def Let_def)
qed

text \<open>Counter maximums as the fragments give them: normal names, one maximum for a name.\<close>

definition maximums_ok :: "permanent_snapshot \<Rightarrow> bool" where
  "maximums_ok p \<longleftrightarrow> distinct (map fst (perm_maximums p))
     \<and> (\<forall>r \<in> set (perm_maximums p). normalized_counter_name (fst r) = Inr (fst r))"

lemma validated_ok:
  assumes "validated_counter_maximums (perm_maximums p) = Inr ms" and "maximums_ok p"
  shows "set ms = set (perm_maximums p)" and "distinct (map fst ms)"
proof -
  from assms(1) obtain rs where rs: "emap validated_maximum (perm_maximums p) = Inr rs" and ms: "ms = sort rs"
    by (auto simp: validated_counter_maximums_def ebind_eq_Inr)
  have one: "r = x" if "validated_maximum x = Inr r" "normalized_counter_name (fst x) = Inr (fst x)" for x r
    using that by (simp add: validated_maximum_def ebind_ensure_Inr)
  have "\<forall>r \<in> set xs. normalized_counter_name (fst r) = Inr (fst r) \<Longrightarrow> emap validated_maximum xs = Inr rs \<Longrightarrow> rs = xs" for xs
  proof (induction xs arbitrary: rs)
    case (Cons x xs)
    from Cons.prems(2) obtain r rs' where "validated_maximum x = Inr r" "emap validated_maximum xs = Inr rs'" "rs = r # rs'"
      by (auto simp only: emap.simps ebind_eq_Inr sum.inject)
    with Cons one show ?case by simp
  qed simp
  with rs assms(2) have "rs = perm_maximums p" by (simp add: maximums_ok_def)
  with ms show "set ms = set (perm_maximums p)" by simp
  have "mset (map fst ms) = mset (map fst (perm_maximums p))" using ms \<open>rs = perm_maximums p\<close> by simp
  with assms(2) show "distinct (map fst ms)" unfolding maximums_ok_def by (metis mset_eq_imp_distinct_iff)
qed

lemma excesses_exact:
  assumes "checks p" and "\<not> perm_phased_out p" and "maximums_ok p"
  shows "((i, k), n) \<in> set (excesses p) \<longleftrightarrow>
    i = perm_id p \<and> (\<exists>m. (k, m) \<in> set (perm_maximums p) \<and> n = max 0 (dict_get 0 (perm_counters p) k) - m \<and> 0 < n)"
proof -
  from assms(1,2) obtain ms where ms: "validated_counter_maximums (perm_maximums p) = Inr ms"
    by (cases "validated_counter_maximums (perm_maximums p)") (auto simp: checks_def)
  from excess_distinct [OF validated_ok(2) [OF this assms(3)]] validated_ok(1) [OF ms assms(3)] show ?thesis
    by (simp add: excesses_def ms)
qed

lemma counter_pair_exact:
  "counter_pair p = n \<and> n \<noteq> 0 \<longleftrightarrow>
     n = min (dict_get 0 (perm_counters p) ''+1/+1'') (dict_get 0 (perm_counters p) ''-1/-1'') \<and> 0 < n"
  by (auto simp: counter_pair_def Let_def)

abbreviation in_play :: "permanent_snapshot list \<Rightarrow> permanent_snapshot set" where
  "in_play ps \<equiv> {p \<in> set ps. \<not> perm_phased_out p}"

lemma permanents_batch:
  assumes "evaluate_permanents ps = Inr b" and "distinct (map perm_id ps)" and "\<forall>p \<in> set ps. maximums_ok p"
  shows "set (put_in_graveyard b) = perm_id ` {p \<in> in_play ps. rule_graveyard p}"
    and "set (destroy b) = perm_id ` {p \<in> in_play ps. rule_destroy p \<and> \<not> rule_graveyard p}"
    and "set (world_rule b) = perm_id ` {p \<in> in_play ps. world p
      \<and> (\<exists>q \<in> in_play ps. world q \<and> q \<noteq> p \<and> the (world_timestamp p) \<le> the (world_timestamp q))}"
    and "saga_object_id ` set (saga_sacrifices b) = perm_id ` {p \<in> in_play ps. rule_sacrifice p}"
    and "set (detach b) = perm_id ` {p \<in> in_play ps. rule_detach p \<and> \<not> rule_graveyard p \<and> \<not> rule_destroy p
      \<and> \<not> rule_sacrifice p \<and> perm_id p \<notin> set (world_rule b)}"
    and "set (counter_pairs_to_remove b) = {(perm_id p, n) | p n. p \<in> in_play ps
      \<and> n = min (dict_get 0 (perm_counters p) ''+1/+1'') (dict_get 0 (perm_counters p) ''-1/-1'') \<and> 0 < n}"
    and "set (counter_maximums_to_remove b) = {(perm_id p, k, n) | p k n. p \<in> in_play ps
      \<and> (\<exists>m. (k, m) \<in> set (perm_maximums p) \<and> n = max 0 (dict_get 0 (perm_counters p) k) - m \<and> 0 < n)}"
    and "set (deathtouch_checks b) = perm_id ` {p \<in> set ps. perm_deathtouch p}"
    and "saga_object_id ` set (saga_sacrifices b)
      \<inter> (set (put_in_graveyard b) \<union> set (destroy b) \<union> set (world_rule b)) = {}"
proof -
  obtain t where run: "efold sba_step sba_start ps = Inr t" and fin: "sba_finish t = Inr b"
    and ok: "\<forall>p \<in> set ps. checks p" by (rule evaluate_collects [OF assms(1)])
  note facts = finish_simps(1-9) [OF fin] steps_collect [OF run]
  have inj: "perm_id p = perm_id q \<longleftrightarrow> p = q" if "p \<in> set ps" "q \<in> set ps" for p q
    using assms(2) that by (auto simp: distinct_map inj_on_eq_iff)
  show grave: "set (put_in_graveyard b) = perm_id ` {p \<in> in_play ps. rule_graveyard p}"
    by (simp add: facts rules_decided set_live)
  show destr: "set (destroy b) = perm_id ` {p \<in> in_play ps. rule_destroy p \<and> \<not> rule_graveyard p}"
    using inj by (auto simp: facts rules_decided set_live)
  show disjoint: "saga_object_id ` set (saga_sacrifices b)
      \<inter> (set (put_in_graveyard b) \<union> set (destroy b) \<union> set (world_rule b)) = {}"
    using finish_simps(10) [OF fin] by (auto simp: finish_simps(1-9) [OF fin])
  have "map saga_object_id (sagas t) = map perm_id (filter (\<lambda>p. finished_sagas p \<noteq> []) (live ps))"
    by (simp add: steps_collect(6) [OF run] finished_saga_list [OF finished_saga_ids [OF ok]])
  from arg_cong [OF this, of set]
  show sagas: "saga_object_id ` set (saga_sacrifices b) = perm_id ` {p \<in> in_play ps. rule_sacrifice p}"
    by (simp add: finish_simps(7) [OF fin] rules_decided set_live)
  have since: "world_since p = the (world_timestamp p)" if "p \<in> in_play ps" "world p" for p
    using ok that by (auto simp: checks_def world_since_def split: option.split)
  have losers: "set (world_rule b) = set (world_rule_losers (filter world (live ps)))"
    by (simp add: finish_simps(6) [OF fin] steps_collect(4) [OF run])
  have "set (world_rule_losers ws) \<subseteq> perm_id ` set ws" for ws by (auto simp: world_rule_losers_def Let_def)
  then have among: "set (world_rule b) \<subseteq> perm_id ` {p \<in> in_play ps. world p}"
    using losers by (force simp: set_live)
  have worlds: "perm_id p \<in> set (world_rule b) \<longleftrightarrow>
      (\<exists>q \<in> in_play ps. world q \<and> q \<noteq> p \<and> the (world_timestamp p) \<le> the (world_timestamp q))"
    if p: "p \<in> in_play ps" "world p" for p
  proof -
    have "distinct (map perm_id (filter world (live ps)))" by (intro distinct_map_filter distinct_live assms(2))
    moreover have "p \<in> set (filter world (live ps))" using p by (simp add: set_live)
    ultimately have "perm_id p \<notin> set (world_rule b) \<longleftrightarrow>
        (\<forall>q \<in> set (filter world (live ps)). q \<noteq> p \<longrightarrow> world_since q < world_since p)"
      unfolding losers by (rule world_losers_iff)
    then show ?thesis using since p by (auto simp: set_live not_less)
  qed
  show "set (world_rule b) = perm_id ` {p \<in> in_play ps. world p
      \<and> (\<exists>q \<in> in_play ps. world q \<and> q \<noteq> p \<and> the (world_timestamp p) \<le> the (world_timestamp q))}"
    using among worlds by blast
  have "set (detach b) = perm_id ` {p \<in> in_play ps. rule_detach p}
      - (set (put_in_graveyard b) \<union> perm_id ` {p \<in> in_play ps. rule_destroy p} \<union> set (world_rule b)
         \<union> saga_object_id ` set (saga_sacrifices b))"
    by (auto simp: facts rules_decided set_live)
  then show "set (detach b) = perm_id ` {p \<in> in_play ps. rule_detach p \<and> \<not> rule_graveyard p \<and> \<not> rule_destroy p
      \<and> \<not> rule_sacrifice p \<and> perm_id p \<notin> set (world_rule b)}"
    unfolding grave sagas using inj by auto
  have dicts: "pairs t = map (\<lambda>p. (perm_id p, counter_pair p)) (filter (\<lambda>p. counter_pair p \<noteq> 0) (live ps))"
      "excess t = concat (map excesses (live ps))"
    using steps_collect_dicts [OF run assms(2)] by simp_all
  show "set (counter_pairs_to_remove b) = {(perm_id p, n) | p n. p \<in> in_play ps
      \<and> n = min (dict_get 0 (perm_counters p) ''+1/+1'') (dict_get 0 (perm_counters p) ''-1/-1'') \<and> 0 < n}"
    unfolding counter_pair_exact [symmetric] by (auto simp: finish_simps(4) [OF fin] dicts set_live)
  have each: "((i, k), n) \<in> set (excess t) \<longleftrightarrow> (\<exists>p. p \<in> in_play ps \<and> i = perm_id p
      \<and> (\<exists>m. (k, m) \<in> set (perm_maximums p) \<and> n = max 0 (dict_get 0 (perm_counters p) k) - m \<and> 0 < n))" for i k n
    using excesses_exact ok assms(3) by (auto simp: dicts set_live)
  have "(i, k, n) \<in> set (counter_maximums_to_remove b) \<longleftrightarrow> ((i, k), n) \<in> set (excess t)" for i k n
    by (force simp: finish_simps(5) [OF fin])
  with each show "set (counter_maximums_to_remove b) = {(perm_id p, k, n) | p k n. p \<in> in_play ps
      \<and> (\<exists>m. (k, m) \<in> set (perm_maximums p) \<and> n = max 0 (dict_get 0 (perm_counters p) k) - m \<and> 0 < n)}"
    by (intro set_eqI) (simp only: split_paired_all mem_Collect_eq prod.inject, blast)
  show "set (deathtouch_checks b) = perm_id ` {p \<in> set ps. perm_deathtouch p}"
    by (simp add: finish_simps(8) [OF fin] steps_collect(5) [OF run])
qed

text \<open>
  C24. The batch of one check is exactly what the rules ask of the permanents that are phased in, each object
  having one snapshot.  To the graveyard go creatures with toughness 0 or less, planeswalkers with loyalty 0 or
  less, battles with defense 0 or less whose trigger has resolved, and Auras that are unattached, illegally
  attached, or creatures or battles.  Destroyed are creatures with positive toughness that have lethal damage or
  damage from a source with deathtouch and do not go to the graveyard anyway.  The World rule takes each World
  permanent but one strictly newer than all others.  Sagas past their last chapter with no chapter ability
  pending are sacrificed, and a Saga is never in another action.  Unattached are Equipment and Fortifications
  attached illegally, and attached creatures, battles and permanents that are no attachment, if they stay in
  play.  Counters go in +1/+1 and -1/-1 pairs, as many as the lesser number, and above a maximum of their kind.
  The damage of all permanents touched by deathtouch is noted.  Tokens and copies outside their zones cease.
\<close>

theorem sba_batch_exact:
  assumes "evaluate_state_based_actions ps objs = Inr b"
    and "distinct (map perm_id ps)" and "\<forall>p \<in> set ps. maximums_ok p"
  shows "set (put_in_graveyard b) = perm_id ` {p \<in> in_play ps. rule_graveyard p}
    \<and> set (destroy b) = perm_id ` {p \<in> in_play ps. rule_destroy p \<and> \<not> rule_graveyard p}
    \<and> set (world_rule b) = perm_id ` {p \<in> in_play ps. world p
        \<and> (\<exists>q \<in> in_play ps. world q \<and> q \<noteq> p \<and> the (world_timestamp p) \<le> the (world_timestamp q))}
    \<and> saga_object_id ` set (saga_sacrifices b) = perm_id ` {p \<in> in_play ps. rule_sacrifice p}
    \<and> saga_object_id ` set (saga_sacrifices b)
        \<inter> (set (put_in_graveyard b) \<union> set (destroy b) \<union> set (world_rule b)) = {}
    \<and> set (detach b) = perm_id ` {p \<in> in_play ps. rule_detach p \<and> \<not> rule_graveyard p \<and> \<not> rule_destroy p
        \<and> \<not> rule_sacrifice p \<and> perm_id p \<notin> set (world_rule b)}
    \<and> set (counter_pairs_to_remove b) = {(perm_id p, n) | p n. p \<in> in_play ps
        \<and> n = min (dict_get 0 (perm_counters p) ''+1/+1'') (dict_get 0 (perm_counters p) ''-1/-1'') \<and> 0 < n}
    \<and> set (counter_maximums_to_remove b) = {(perm_id p, k, n) | p k n. p \<in> in_play ps
        \<and> (\<exists>m. (k, m) \<in> set (perm_maximums p) \<and> n = max 0 (dict_get 0 (perm_counters p) k) - m \<and> 0 < n)}
    \<and> set (deathtouch_checks b) = perm_id ` {p \<in> set ps. perm_deathtouch p}
    \<and> set (cease b) = obj_id ` {v \<in> set objs. rule_cease v}"
proof -
  from assms(1) obtain b0 where b0: "evaluate_permanents ps = Inr b0"
    and b: "b = b0\<lparr>cease := sorted_unique (map obj_id (filter ceases objs))\<rparr>"
    by (auto simp: evaluate_state_based_actions_def ebind_eq_Inr)
  have "set (cease b) = obj_id ` {v \<in> set objs. rule_cease v}" by (simp add: b rules_decided)
  then show ?thesis using permanents_batch [OF b0 assms(2,3)] by (simp add: b)
qed

section \<open>Errors\<close>

text \<open>
  The check fails exactly when a permanent in play carries a Saga snapshot that is not its own, a
  World permanent has no timestamp, a maximum is malformed, or a completed Saga would leave the
  battlefield for another reason as well; phased-out permanents never make it fail.
\<close>

theorem sba_fails_iff:
  "isl (evaluate_permanents ps) \<longleftrightarrow>
     (\<exists>p \<in> set (live ps). isl (completed_saga p) \<or> world p \<and> world_timestamp p = None
        \<or> isl (validated_counter_maximums (perm_maximums p)))
     \<or> (\<exists>p \<in> set (live ps). finished_sagas p \<noteq> [] \<and>
          ((\<exists>q \<in> set (live ps). perm_id q = perm_id p \<and> (graveyard_bound q \<or> lethally_damaged q))
           \<or> perm_id p \<in> set (world_rule_losers (filter world (live ps)))))"
proof (cases "\<forall>p \<in> set ps. checks p")
  case False
  then have "\<nexists>t. efold sba_step sba_start ps = Inr t" using steps_total by blast
  then have bad: "isl (evaluate_permanents ps)"
    by (cases "efold sba_step sba_start ps") (simp_all add: evaluate_permanents_def)
  from False obtain p where "p \<in> set ps" "\<not> checks p" by blast
  then have "p \<in> set (live ps)" and "isl (completed_saga p) \<or> world p \<and> world_timestamp p = None
      \<or> isl (validated_counter_maximums (perm_maximums p))"
    by (simp_all add: checks_def set_live)
  with bad show ?thesis by blast
next
  case ok: True
  then obtain t where run: "efold sba_step sba_start ps = Inr t" using steps_total by blast
  have "map saga_object_id (sagas t) = map perm_id (filter (\<lambda>p. finished_sagas p \<noteq> []) (live ps))"
    by (simp add: steps_collect(6) [OF run] finished_saga_list [OF finished_saga_ids [OF ok]])
  note ids = arg_cong [OF this, of set]
  have "isl (evaluate_permanents ps) \<longleftrightarrow> set (map saga_object_id (sagas t))
      \<inter> (set (to_graveyard t) \<union> set (to_destroy t) \<union> set (world_rule_losers (worlds t))) \<noteq> {}"
    by (simp add: evaluate_permanents_def run sba_finish_def Let_def ensure_def Un_assoc)
  also have "\<dots> \<longleftrightarrow> (\<exists>p \<in> set (live ps). finished_sagas p \<noteq> [] \<and>
      (perm_id p \<in> perm_id ` {q \<in> set (live ps). graveyard_bound q \<or> lethally_damaged q}
       \<or> perm_id p \<in> set (world_rule_losers (filter world (live ps)))))"
    unfolding ids by (simp only: steps_collect(1,2,4) [OF run] start_simps) auto
  also have "\<dots> \<longleftrightarrow> (\<exists>p \<in> set (live ps). finished_sagas p \<noteq> [] \<and>
      ((\<exists>q \<in> set (live ps). perm_id q = perm_id p \<and> (graveyard_bound q \<or> lethally_damaged q))
       \<or> perm_id p \<in> set (world_rule_losers (filter world (live ps)))))"
    by (intro bex_cong refl conj_cong disj_cong) (auto simp: image_iff)
  finally have eq: "isl (evaluate_permanents ps) \<longleftrightarrow> \<dots>" .
  have "\<not> (\<exists>p \<in> set (live ps). isl (completed_saga p) \<or> world p \<and> world_timestamp p = None
      \<or> isl (validated_counter_maximums (perm_maximums p)))"
    using ok by (auto simp: checks_def set_live)
  with eq show ?thesis by blast
qed

section \<open>A concrete battlefield\<close>

definition new_permanent :: "string \<Rightarrow> permanent_snapshot" where
  "new_permanent i =
     \<lparr>perm_id = i, perm_types = [], perm_subtypes = [], toughness = None, perm_damage = 0,
      perm_deathtouch = False, perm_phased_out = False, indestructible = False, loyalty = None,
      defense = None, battle_trigger_pending = False, perm_saga = None, world = False,
      world_timestamp = None, perm_attached_to = None, attachment_legal = None,
      perm_counters = [], perm_maximums = []\<rparr>"

definition old_world :: permanent_snapshot where
  "old_world = (new_permanent ''w1'')\<lparr>world := True, world_timestamp := Some 3\<rparr>"

definition wounded :: permanent_snapshot where
  "wounded = (new_permanent ''c1'')\<lparr>perm_types := [''Creature''], toughness := Some 2, perm_damage := 2\<rparr>"

definition capped :: permanent_snapshot where
  "capped = (new_permanent ''k1'')\<lparr>perm_types := [''Artifact''], perm_counters := [(''charge'', 9)],
     perm_maximums := effective_counter_maximums
       [\<lparr>maximum_counter = ''charge'', maximum_amount = 7, maximum_schema = 1\<rparr>,
        \<lparr>maximum_counter = ''charge'', maximum_amount = 5, maximum_schema = 1\<rparr>]\<rparr>"

definition sample_field :: "permanent_snapshot list" where
  "sample_field = [wounded, old_world, capped,
     (new_permanent ''w2'')\<lparr>world := True, world_timestamp := Some 8\<rparr>]"

definition sample_batch :: sba_batch where
  "sample_batch = \<lparr>put_in_graveyard = [], destroy = [''c1''], detach = [], counter_pairs_to_remove = [],
     counter_maximums_to_remove = [(''k1'', ''charge'', 4)], cease = [], world_rule = [''w1''],
     saga_sacrifices = [], deathtouch_checks = []\<rparr>"

lemma sample_evaluated: "evaluate_permanents sample_field = Inr sample_batch"
  by code_simp

lemma sample_distinct: "distinct (map perm_id sample_field)"
  by code_simp

definition sample_objects :: "object_snapshot list" where
  "sample_objects = [\<lparr>obj_id = ''t1'', obj_zone = ''graveyard'', obj_token = True, obj_spell_copy = False,
     obj_card_copy = False\<rparr>]"

lemma sample_checked:
  "evaluate_state_based_actions sample_field sample_objects = Inr (sample_batch\<lparr>cease := [''t1'']\<rparr>)"
  by (simp add: evaluate_state_based_actions_def sample_evaluated) code_simp

lemma sba_batch_exact_witness:
  "''c1'' \<in> set (destroy (sample_batch\<lparr>cease := [''t1'']\<rparr>))
   \<and> set (cease (sample_batch\<lparr>cease := [''t1'']\<rparr>)) = obj_id ` {v \<in> set sample_objects. rule_cease v}"
proof -
  have "list_all maximums_ok sample_field" by code_simp
  then have ok: "\<forall>p \<in> set sample_field. maximums_ok p" by (simp only: list_all_iff)
  note facts = sba_batch_exact [OF sample_checked sample_distinct ok]
  have "lethally_damaged wounded" "\<not> graveyard_bound wounded" by code_simp+
  then have "wounded \<in> {p \<in> in_play sample_field. rule_destroy p \<and> \<not> rule_graveyard p}" "perm_id wounded = ''c1''"
    by (simp_all add: rules_decided sample_field_def wounded_def new_permanent_def)
  then have "''c1'' \<in> perm_id ` {p \<in> in_play sample_field. rule_destroy p \<and> \<not> rule_graveyard p}"
    by (intro image_eqI [of _ _ wounded]) (simp_all only:)
  moreover have "set (cease (sample_batch\<lparr>cease := [''t1'']\<rparr>)) = obj_id ` {v \<in> set sample_objects. rule_cease v}"
    by (rule facts [THEN conjunct2, THEN conjunct2, THEN conjunct2, THEN conjunct2, THEN conjunct2,
          THEN conjunct2, THEN conjunct2, THEN conjunct2, THEN conjunct2])
  moreover note facts [THEN conjunct2, THEN conjunct1]
  ultimately show ?thesis by (simp only: sba_batch.simps)
qed

lemma world_rule_exact_witness: "''w1'' \<in> set (world_rule sample_batch)"
  using world_rule_exact [OF sample_evaluated sample_distinct, of old_world]
  by (simp add: sample_field_def old_world_def wounded_def capped_def new_permanent_def world_since_def)

lemma sba_order_independent_witness: "evaluate_permanents (rev sample_field) = Inr sample_batch"
  by (rule sba_order_independent [OF sample_evaluated sample_distinct]) simp

lemma strictest_maximum_enforced_witness:
  "(''k1'', ''charge'', 4) \<in> set (counter_maximums_to_remove sample_batch)"
proof -
  let ?fs = "[\<lparr>maximum_counter = ''charge'', maximum_amount = 7, maximum_schema = 1\<rparr>,
        \<lparr>maximum_counter = ''charge'', maximum_amount = 5, maximum_schema = 1\<rparr>] :: counter_maximum list"
  have "list_all fragment_ok ?fs" by code_simp
  then have ok: "\<forall>f \<in> set ?fs. fragment_ok f" by (simp only: list_all_iff)
  have k: "capped \<in> set sample_field" "\<not> perm_phased_out capped"
    "perm_maximums capped = effective_counter_maximums ?fs" "perm_id capped = ''k1''"
    "perm_counters capped = [(''charge'', 9)]"
    by (simp_all add: sample_field_def capped_def new_permanent_def)
  have "strictest ?fs ''charge'' 5" by (simp add: strictest_def)
  with strictest_maximum_enforced [OF sample_evaluated sample_distinct k(1-3) ok, of "''charge''" 4] k
  show ?thesis by (force simp: dict_get_def)
qed

end
