(* ===== verification/Engine_Core.thy ===== *)
theory Engine_Core imports Game_Model
begin

text \<open>
  The small operations of the engine that every owner goes through (\<open>quorune/engine.py\<close>: seats,
  references, turn order, the event log, emptying mana pools, goad and the end of combat) and the
  yield-change epochs that logging an event advances
  (\<open>TurnPriorityDecisionOwner.update_yield_change_epochs\<close>).
\<close>

datatype engine_error =
    EngineModel model_error
  | NoActivePlayers
  | UnknownSeat string
  | SeatLeftGame string
  | SkippedSteps
  | UnknownTurnPlayer string
  | InvalidStepIndex int
  | TurnWithoutPlayer
  | UnknownActivePlayer string
  | GrantSeatInactive
  | GrantPlanStale
  | CleanupFrameGone
  | NoPriority string
  | DuplicatePasses
  | PassPlanStale
  | PlanShape
  | GrantValue
  | PassValue
  | UnknownYieldMode string
  | SpecialSeatInactive
  | HostRefused string

section \<open>Seats and references\<close>

definition require_seat :: "game_state \<Rightarrow> string \<Rightarrow> bool \<Rightarrow> engine_error + unit" where
  "require_seat g s must_play =
     (case map_of (players g) s of
        None \<Rightarrow> Inl (UnknownSeat s)
      | Some p \<Rightarrow> if must_play \<and> \<not> in_game p then Inl (SeatLeftGame s) else Inr ())"

definition next_ref :: "string \<Rightarrow> game_state \<Rightarrow> game_state \<times> string" where
  "next_ref prefix g =
     (let n = dict_get 0 (ref_counters g) prefix + 1 in
      (g\<lparr>ref_counters := AList.update prefix n (ref_counters g)\<rparr>, prefix @ show_int n))"

definition active :: "game_state \<Rightarrow> engine_error + string list" where
  "active g = reraise EngineModel (active_seats g)"

definition seat_in_game :: "game_state \<Rightarrow> string \<Rightarrow> bool" where
  "seat_in_game g s = (case map_of (players g) s of None \<Rightarrow> False | Some p \<Rightarrow> in_game p)"

fun index_of :: "'a \<Rightarrow> 'a list \<Rightarrow> nat" where
  "index_of x [] = 0"
| "index_of x (y # ys) = (if x = y then 0 else Suc (index_of x ys))"

definition next_active_after :: "game_state \<Rightarrow> string \<Rightarrow> engine_error + string" where
  "next_active_after g s =
     ebind (active g) (\<lambda>seats.
     ebind (ensure (seats \<noteq> []) NoActivePlayers) (\<lambda>_.
     let order = turn_order g; n = length order in
     if s \<notin> set order then Inr (hd seats)
     else
       (let i = index_of s order in
        case find (seat_in_game g) (map (\<lambda>offset. order ! ((i + offset) mod n)) [1..<n + 1]) of
          Some candidate \<Rightarrow> Inr candidate
        | None \<Rightarrow> Inr (hd seats))))"

function apnap_loop :: "game_state \<Rightarrow> nat \<Rightarrow> string list \<Rightarrow> engine_error + string list" where
  "apnap_loop g n result =
     (if length result < n then
        (case next_active_after g (last result) of
           Inl e \<Rightarrow> Inl e
         | Inr nxt \<Rightarrow> if nxt \<in> set result then Inr result else apnap_loop g n (result @ [nxt]))
      else Inr result)"
  by auto

termination
  by (relation "measure (\<lambda>(g, n, result). n - length result)") auto

declare apnap_loop.simps [simp del]

definition apnap_order :: "game_state \<Rightarrow> engine_error + string list" where
  "apnap_order g =
     ebind (active g) (\<lambda>seats.
     if seats = [] then Inr []
     else
       let start = (case active_player g of
                      Some a \<Rightarrow> if a \<in> set seats then a else hd seats
                    | None \<Rightarrow> hd seats) in
       apnap_loop g (length seats) [start])"

section \<open>The event log and the yield epochs\<close>

definition yield_key :: "string \<Rightarrow> string option \<Rightarrow> string" where
  "yield_key kind who =
     ''yield_change:'' @ kind @ (case who of None \<Rightarrow> [] | Some s \<Rightarrow> '':'' @ s)"

definition yield_change_epoch :: "game_state \<Rightarrow> string \<Rightarrow> string option \<Rightarrow> int" where
  "yield_change_epoch g kind who = dict_get 0 (ref_counters g) (yield_key kind who)"

definition increment_yield_change_epoch :: "string \<Rightarrow> string option \<Rightarrow> game_state \<Rightarrow> game_state" where
  "increment_yield_change_epoch kind who g =
     g\<lparr>ref_counters := AList.update (yield_key kind who) (yield_change_epoch g kind who + 1)
                        (ref_counters g)\<rparr>"

definition bump_seats :: "string \<Rightarrow> string list \<Rightarrow> game_state \<Rightarrow> game_state" where
  "bump_seats kind seats g = foldl (\<lambda>h s. increment_yield_change_epoch kind (Some s) h) g seats"

definition STACK_CODES :: "string list" where
  "STACK_CODES = [''stack.cast'', ''stack.activate'', ''stack.trigger'', ''stack.resolve'', ''stack.counter'']"

definition PUBLIC_CODES :: "string list" where
  "PUBLIC_CODES = [''land.play'', ''monarch.change'', ''token.create'', ''control.change'',
     ''permanent.goad'', ''permanent.goad.expire'', ''player.eliminated'']"

definition update_yield_change_epochs :: "event \<Rightarrow> game_state \<Rightarrow> game_state" where
  "update_yield_change_epochs e g =
     (if event_code e \<in> set STACK_CODES then increment_yield_change_epoch ''stack'' None g
      else if event_code e = ''card.draw.private'' then
        bump_seats ''draw'' (filter (\<lambda>s. s \<in> set (event_visibility e)) (map fst (players g))) g
      else if event_code e = ''zone.move'' then
        increment_yield_change_epoch ''public'' None
          (if map_of (event_details e) ''from'' = Some (PStr ''hand'')
              \<or> map_of (event_details e) ''to'' = Some (PStr ''hand'')
           then bump_seats ''action''
                  (filter (\<lambda>s. s \<in> fst ` set (players g)) (changed_players e)) g
           else g)
      else if event_code e = ''permanent.untap'' then
        increment_yield_change_epoch ''public'' None
          (bump_seats ''action'' (filter (\<lambda>s. s \<in> fst ` set (players g)) (changed_players e)) g)
      else if event_code e \<in> set PUBLIC_CODES then increment_yield_change_epoch ''public'' None g
      else g)"

record log_entry =
  log_actor :: "string option"
  log_code :: string
  log_summary :: string
  log_details :: "(string, pyval) dict"
  log_visibility :: "string list"
  log_importance :: int
  log_objects :: "string list"
  log_players :: "string list"

definition new_entry :: "string option \<Rightarrow> string \<Rightarrow> string \<Rightarrow> int \<Rightarrow> log_entry" where
  "new_entry who code summary importance =
     \<lparr>log_actor = who, log_code = code, log_summary = summary, log_details = [],
      log_visibility = [], log_importance = importance, log_objects = [], log_players = []\<rparr>"

definition log_event :: "log_entry \<Rightarrow> game_state \<Rightarrow> game_state" where
  "log_event l g =
     (let g1 = g\<lparr>event_sequence := event_sequence g + 1\<rparr>;
          e = \<lparr>event_id = event_sequence g1, event_revision = revision g1,
               event_turn_sequence = turn_sequence g1, event_active_player = active_player g1,
               event_phase = game_phase g1, event_step = game_step g1, event_actor = log_actor l,
               event_code = log_code l, event_summary = log_summary l,
               event_details = log_details l,
               event_visibility =
                 (if log_visibility l = []
                  then turn_order g1 @ [''arbiter'', ''analyst'', ''spectator''] else log_visibility l),
               event_importance = log_importance l, changed_objects = log_objects l,
               changed_players = log_players l\<rparr> in
      update_yield_change_epochs e (g1\<lparr>events := events g1 @ [e]\<rparr>))"

text \<open>Logging an event touches the journal and the epoch counters only.\<close>

lemma bump_seats_frame: "\<exists>r. bump_seats kind seats g = g\<lparr>ref_counters := r\<rparr>"
proof (induction seats arbitrary: g)
  case Nil
  show ?case by (rule exI [of _ "ref_counters g"]) (simp add: bump_seats_def)
next
  case (Cons s seats)
  from Cons [of "increment_yield_change_epoch kind (Some s) g"] show ?case
    by (auto simp: bump_seats_def increment_yield_change_epoch_def)
qed

lemma update_epochs_frame: "\<exists>r. update_yield_change_epochs e g = g\<lparr>ref_counters := r\<rparr>"
proof -
  have id: "\<exists>r. g = g\<lparr>ref_counters := r\<rparr>" by (rule exI [of _ "ref_counters g"]) simp
  have inc: "\<exists>r. increment_yield_change_epoch k w h = g\<lparr>ref_counters := r\<rparr>"
    if "\<exists>r. h = g\<lparr>ref_counters := r\<rparr>" for k w h
    using that by (auto simp: increment_yield_change_epoch_def)
  show ?thesis
    unfolding update_yield_change_epochs_def by (auto intro!: inc id bump_seats_frame)
qed

lemma log_event_frame:
  obtains n es r where "log_event l g = g\<lparr>event_sequence := n, events := es, ref_counters := r\<rparr>"
proof -
  obtain n e where "log_event l g
      = update_yield_change_epochs e (g\<lparr>event_sequence := n, events := events g @ [e]\<rparr>)"
    by (simp add: log_event_def Let_def)
  moreover from update_epochs_frame obtain r where
    "update_yield_change_epochs e (g\<lparr>event_sequence := n, events := events g @ [e]\<rparr>)
      = g\<lparr>event_sequence := n, events := events g @ [e], ref_counters := r\<rparr>"
    by fastforce
  ultimately show thesis using that by simp
qed

lemma log_event_simps [simp]:
  "players (log_event l g) = players g" "cards (log_event l g) = cards g"
  "turn_order (log_event l g) = turn_order g" "active_player (log_event l g) = active_player g"
  "current_turn (log_event l g) = current_turn g"
  "last_normal_turn_player (log_event l g) = last_normal_turn_player g"
  "extra_turns (log_event l g) = extra_turns g" "priority_player (log_event l g) = priority_player g"
  "priority_passes (log_event l g) = priority_passes g" "priority_epoch (log_event l g) = priority_epoch g"
  "turn_sequence (log_event l g) = turn_sequence g" "phase_index (log_event l g) = phase_index g"
  "game_phase (log_event l g) = game_phase g" "game_step (log_event l g) = game_step g"
  "stack_items (log_event l g) = stack_items g" "combat (log_event l g) = combat g"
  "config (log_event l g) = config g" "game_turn_history (log_event l g) = game_turn_history g"
  "game_annotations (log_event l g) = game_annotations g" "revision (log_event l g) = revision g"
  "pending_trigger_batches (log_event l g) = pending_trigger_batches g"
  "delayed_triggers (log_event l g) = delayed_triggers g" "capabilities (log_event l g) = capabilities g"
  "pending_decision (log_event l g) = pending_decision g" "game_over (log_event l g) = game_over g"
  "game_started (log_event l g) = game_started g" "action_opportunities (log_event l g) = action_opportunities g"
  by (rule log_event_frame [of l g], simp)+

lemma next_ref_simps [simp]:
  "fst (next_ref p g) = g\<lparr>ref_counters := AList.update p (dict_get 0 (ref_counters g) p + 1) (ref_counters g)\<rparr>"
  by (simp add: next_ref_def Let_def)

lemma active_cong: "players h = players g \<Longrightarrow> turn_order h = turn_order g \<Longrightarrow> active h = active g"
  by (simp add: active_def active_seats_def)

lemma seat_in_game_cong: "players h = players g \<Longrightarrow> seat_in_game h = seat_in_game g"
  by (simp add: seat_in_game_def fun_eq_iff)

lemma next_active_cong:
  assumes "players h = players g" and "turn_order h = turn_order g"
  shows "next_active_after h = next_active_after g"
  by (rule ext) (simp only: next_active_after_def active_cong [OF assms] seat_in_game_cong [OF assms(1)] assms(2))

section \<open>Housekeeping at the boundaries\<close>

definition opt_str :: "string option \<Rightarrow> pyval" where
  "opt_str s = (case s of None \<Rightarrow> PNone | Some x \<Rightarrow> PStr x)"

definition clear_mana_of :: "string \<Rightarrow> game_state \<Rightarrow> string \<times> player_state \<Rightarrow> game_state" where
  "clear_mana_of reason g sp =
     (let s = fst sp;
          p = (snd sp)\<lparr>stats := AList.delete ''reversible_mana_activations'' (stats (snd sp))\<rparr> in
      if list_ex (\<lambda>v. v \<noteq> 0) (map snd (mana_pool p)) then
        log_event ((new_entry (Some s) ''mana.empty'' (s @ CHR 0x27 # ''s mana pool emptied.'') 0)
            \<lparr>log_details := [(''lost'', PDict (map (\<lambda>(k, v). (k, PInt v)) (mana_pool p))),
                             (''reason'', PStr reason)],
             log_players := [s]\<rparr>)
          (g\<lparr>players := AList.update s
               (p\<lparr>mana_pool := zero_bundle, stats := AList.delete ''restricted_mana'' (stats p)\<rparr>)
               (players g)\<rparr>)
      else g\<lparr>players := AList.update s p (players g)\<rparr>)"

definition clear_mana :: "string \<Rightarrow> game_state \<Rightarrow> game_state" where
  "clear_mana reason g = foldl (clear_mana_of reason) g (players g)"

definition goad_expired :: "string \<Rightarrow> int \<Rightarrow> goad_designation \<Rightarrow> bool" where
  "goad_expired who begun d \<longleftrightarrow> goad_player d = who \<and> expires_at_turns_begun d \<le> begun"

definition expire_goad_designations :: "string \<Rightarrow> game_state \<Rightarrow> engine_error + game_state" where
  "expire_goad_designations who g =
     ebind (option_raise (UnknownSeat who) (map_of (players g) who)) (\<lambda>p.
     let keep = (\<lambda>c. filter (\<lambda>d. \<not> goad_expired who (turns_begun p) d) (goaded_by c));
         hit = filter (\<lambda>c. length (keep c) \<noteq> length (goaded_by c)) (map snd (cards g));
         ids = map object_id hit;
         g1 = g\<lparr>cards := map (\<lambda>(i, c). (i, c\<lparr>goaded_by := keep c\<rparr>)) (cards g)\<rparr> in
     if ids = [] then Inr g1
     else Inr (log_event
       ((new_entry (Some who) ''permanent.goad.expire''
           (show_nat (length ids) @ '' goad designation(s) expired as '' @ who @ CHR 0x27 # ''s turn began.'') 1)
          \<lparr>log_details := [(''player'', PStr who), (''turns_begun'', PInt (turns_begun p)),
             (''objects'', PList (map (\<lambda>c. PStr (card_ref c)) hit))],
           log_objects := ids\<rparr>) g1))"

definition finish_combat_phase :: "game_state \<Rightarrow> game_state" where
  "finish_combat_phase g =
     (let fighting = filter (\<lambda>c. attacking c \<noteq> None \<or> blocking c \<noteq> None)
            (sort_key (\<lambda>c. (card_ref c, object_id c)) (map snd (cards g)));
          previous = combat g in
      log_event
        ((new_entry None ''combat.end'' ''The combat phase ended and all objects were removed from combat.'' 0)
           \<lparr>log_details := [(''attackers'', PInt (int (length (attackers previous)))),
              (''blockers'', PInt (int (sum_list (map (length \<circ> snd) (blockers previous))))),
              (''defending_players'', PList (map PStr (defending_players previous)))],
            log_objects := map object_id fighting\<rparr>)
        (g\<lparr>cards := map (\<lambda>(i, c). (i, c\<lparr>attacking := None, blocking := None\<rparr>)) (cards g),
           combat := new_combat\<rparr>))"

section \<open>Turn order\<close>

lemma nth_index_of: "x \<in> set xs \<Longrightarrow> xs ! index_of x xs = x \<and> index_of x xs < length xs"
  by (induction xs) auto

lemma offsets_rotate:
  assumes "i < length xs"
  shows "map (\<lambda>offset. xs ! ((i + offset) mod length xs)) [1..<length xs + 1] = rotate (Suc i) xs"
proof -
  have "[1..<length xs + 1] = map Suc [0..<length xs]" by (simp add: map_Suc_upt del: upt_Suc)
  then show ?thesis
    by (intro nth_equalityI) (simp_all add: nth_rotate add.commute del: upt_Suc rotate_Suc)
qed

lemma active_eq:
  assumes "active g = Inr seats"
  shows "seats = filter (seat_in_game g) (turn_order g)"
proof -
  have "active_seats g = Inr seats" using assms by (simp add: active_def)
  from active_seats_eq [OF this] show ?thesis by (auto simp: seat_in_game_def intro!: filter_cong split: option.splits)
qed

lemma rotate_at:
  assumes "distinct xs" and "rotate k xs = as @ x # bs"
  shows "rotate (Suc (index_of x xs)) xs = bs @ as @ [x]"
proof -
  let ?n = "length xs"
  have len: "?n = length as + Suc (length bs)" using arg_cong [OF assms(2), of length] by simp
  have x: "x \<in> set xs" using arg_cong [OF assms(2), of set] by auto
  have "xs ! ((k + length as) mod ?n) = x"
    using arg_cong [OF assms(2), of "\<lambda>l. l ! length as"] len by (simp add: nth_rotate add.commute)
  moreover have "(k + length as) mod ?n < ?n" using len by simp
  ultimately have i: "index_of x xs = (k + length as) mod ?n"
    using nth_index_of [OF x] assms(1) by (metis nth_eq_iff_index_eq)
  have "rotate (Suc (index_of x xs)) xs = rotate (Suc (k + length as)) xs"
    unfolding i by (metis mod_Suc_eq rotate_conv_mod)
  also have "\<dots> = rotate (Suc (length as)) (rotate k xs)" by (simp add: rotate_rotate add.commute)
  also have "\<dots> = bs @ as @ [x]"
    unfolding assms(2) using rotate_append [of "as @ [x]" bs] by simp
  finally show ?thesis .
qed

lemma filter_split:
  "filter P zs = as @ x # bs
     \<Longrightarrow> \<exists>us vs. zs = us @ x # vs \<and> filter P us = as \<and> filter P vs = bs \<and> P x"
proof (induction zs arbitrary: as)
  case (Cons z zs)
  show ?case
  proof (cases "P z \<and> as = []")
    case True
    with Cons.prems show ?thesis by (intro exI [of _ "[]"] exI [of _ zs]) auto
  next
    case False
    with Cons.prems have "filter P zs = (if P z then tl as else as) @ x # bs" "P z \<Longrightarrow> hd as = z \<and> as \<noteq> []"
      by (cases as; auto)+
    from Cons.IH [OF this(1)] obtain us vs where "zs = us @ x # vs"
      "filter P us = (if P z then tl as else as)" "filter P vs = bs" "P x" by blast
    with \<open>P z \<Longrightarrow> hd as = z \<and> as \<noteq> []\<close> show ?thesis
      by (intro exI [of _ "z # us"] exI [of _ vs]) (auto split: if_splits)
  qed
qed simp

text \<open>The next active seat, read off any rotation of the turn order.\<close>

lemma next_active_rotation:
  assumes "active g = Inr seats" and "distinct (turn_order g)"
    and "filter (seat_in_game g) (rotate k (turn_order g)) = as @ x # bs"
  shows "next_active_after g x = Inr (hd (bs @ as @ [x]))"
proof -
  let ?P = "seat_in_game g"
  obtain us vs where uv: "rotate k (turn_order g) = us @ x # vs" "filter ?P us = as" "filter ?P vs = bs"
    and x: "?P x"
    using filter_split [OF assms(3)] by blast
  have rot: "rotate (Suc (index_of x (turn_order g))) (turn_order g) = vs @ us @ [x]"
    by (rule rotate_at [OF assms(2) uv(1)])
  have xin: "x \<in> set (turn_order g)" using arg_cong [OF uv(1), of set] by auto
  have seats: "seats \<noteq> []" using active_eq [OF assms(1)] xin x by (auto simp: filter_empty_conv)
  have found: "find ?P ys = (case filter ?P ys of [] \<Rightarrow> None | y # _ \<Rightarrow> Some y)" for ys
    by (induction ys) auto
  have "filter ?P (vs @ us @ [x]) = bs @ as @ [x]" using uv x by simp
  then have "find ?P (vs @ us @ [x]) = Some (hd (bs @ as @ [x]))"
    by (simp add: found split: list.splits)
  then show ?thesis
    using xin seats nth_index_of [OF xin] offsets_rotate [of "index_of x (turn_order g)" "turn_order g"] rot
    by (simp add: next_active_after_def assms(1) Let_def)
qed

lemma apnap_loop_rotation:
  assumes "active g = Inr seats" and "distinct (turn_order g)"
    and "filter (seat_in_game g) (rotate k (turn_order g)) = result @ rest" and "result \<noteq> []"
  shows "apnap_loop g (length (result @ rest)) result = Inr (result @ rest)"
  using assms(3,4)
proof (induction rest arbitrary: result)
  case Nil
  then show ?case by (simp add: apnap_loop.simps)
next
  case (Cons r rest)
  obtain as x where result: "result = as @ [x]" using Cons.prems(2) by (metis append_butlast_last_id)
  have "distinct (result @ r # rest)"
    using assms(2) Cons.prems(1) by (metis distinct_filter distinct_rotate)
  moreover have "next_active_after g x = Inr r"
    using next_active_rotation [OF assms(1,2), of k as x "r # rest"] Cons.prems(1) result by simp
  ultimately have "next_active_after g (last result) = Inr r" and "r \<notin> set result"
    using result by auto
  then show ?case
    using Cons.IH [of "result @ [r]"] Cons.prems by (subst apnap_loop.simps) simp
qed

text \<open>
  In a game without repeated seats the APNAP order is the turn order of the players still in the
  game, rotated to begin with the active player (or with the first player still in the game when the
  active player has left): every such player comes exactly once.
\<close>

theorem apnap_order_exact:
  assumes "active g = Inr seats" and "distinct (turn_order g)" and "seats \<noteq> []"
  shows "\<exists>k start. k < length (turn_order g) \<and> turn_order g ! k = start
    \<and> start = (case active_player g of
                 Some a \<Rightarrow> if seat_in_game g a \<and> a \<in> set (turn_order g) then a else hd seats
               | None \<Rightarrow> hd seats)
    \<and> apnap_order g = Inr (filter (seat_in_game g) (rotate k (turn_order g)))"
proof -
  let ?start = "case active_player g of
      Some a \<Rightarrow> if seat_in_game g a \<and> a \<in> set (turn_order g) then a else hd seats
    | None \<Rightarrow> hd seats"
  let ?P = "seat_in_game g"
  note seats = active_eq [OF assms(1)]
  have "hd seats \<in> set seats" using assms(3) by simp
  moreover have "a \<in> set seats \<longleftrightarrow> seat_in_game g a \<and> a \<in> set (turn_order g)" for a
    by (simp add: seats conj_commute)
  ultimately have start: "?start \<in> set seats"
    and pick: "?start = (case active_player g of Some a \<Rightarrow> if a \<in> set seats then a else hd seats
        | None \<Rightarrow> hd seats)"
    by (auto split: option.splits)
  define st where "st = ?start"
  note start = start [folded st_def]
  have stin: "st \<in> set (turn_order g)" and P: "?P st" using start by (simp_all add: seats)
  let ?k = "index_of st (turn_order g)"
  have k: "turn_order g ! ?k = st" "?k < length (turn_order g)"
    using nth_index_of [OF stin] by simp_all
  let ?R = "rotate ?k (turn_order g)"
  have ne: "turn_order g \<noteq> []" using stin by auto
  then obtain r R where "?R = r # R" by (cases ?R) simp_all
  moreover have "hd ?R = st" using ne k by (simp add: hd_rotate_conv_nth)
  ultimately have R: "?R = st # R" by simp
  have all: "filter ?P ?R = [st] @ filter ?P R" using R P by simp
  have len: "length seats = length (filter ?P ?R)"
    unfolding seats by (metis distinct_filter assms(2) distinct_card distinct_rotate set_filter set_rotate)
  have "apnap_order g = apnap_loop g (length seats) [st]"
    using assms(1,3) unfolding st_def pick by (simp add: apnap_order_def Let_def)
  also have "\<dots> = Inr (filter ?P ?R)"
    using apnap_loop_rotation [OF assms(1,2) all] unfolding len all by simp
  finally show ?thesis using k st_def by blast
qed

text \<open>A game of three in which the active player has lost.\<close>

definition three_players :: game_state where
  "three_players = (new_game [''A'', ''B'', ''C''])\<lparr>active_player := Some ''B'',
     players := [(''A'', new_player ''A''), (''B'', new_player ''B''),
                 (''C'', (new_player ''C'')\<lparr>in_game := False\<rparr>)]\<rparr>"

lemma apnap_order_exact_witness:
  "\<exists>k. apnap_order three_players
     = Inr (filter (seat_in_game three_players) (rotate k [''A'', ''B'', ''C'']))"
proof -
  have "active three_players = Inr [''A'', ''B'']" by code_simp
  moreover have "turn_order three_players = [''A'', ''B'', ''C'']" by code_simp
  ultimately show ?thesis using apnap_order_exact [of three_players "[''A'', ''B'']"] by auto
qed

end
