(* ===== verification/Turn_Steps.thy ===== *)
theory Turn_Steps imports Engine_Core
begin

text \<open>
  Turns and steps (\<open>quorune/turn_step_owner.py\<close>): the start of the game, extra turns, selecting and
  beginning a turn, entering a step and advancing to the next, with the journal of the current turn
  (\<open>Engine._record_turn_history\<close>, \<open>quorune/turn_history.py\<close>).  What the engine does inside a step
  once it has been entered (untapping, drawing, combat decisions, the finishing of cleanup) is the
  argument \<open>step_host\<close>, the callback of the Python protocol.
\<close>

section \<open>Statistics and the turn journal\<close>

definition OPTIMIZATION_KEYS :: "string list" where
  "OPTIMIZATION_KEYS =
     [''priority_windows_considered'', ''pass_only_windows_skipped'', ''yield_covered_windows'',
      ''suppressed_empty_windows'', ''suppressed_meaningful_windows'', ''yields_invalidated_by_phase'',
      ''yields_invalidated_by_draw'', ''yields_invalidated_by_action_change'',
      ''yields_invalidated_by_stack'', ''yields_invalidated_by_public_change'',
      ''illegal_target_actions_prevented'', ''illegal_target_actions_advertised'',
      ''actions_removed_for_no_targets'', ''actions_removed_for_mode_target_failure'',
      ''target_candidates_generated'', ''target_submissions_rejected'',
      ''targets_became_illegal_on_resolution'', ''spells_countered_by_rules'',
      ''spells_countered_by_effect'', ''stack_interaction_windows_created'',
      ''stack_interaction_windows_auto_passed'']"

definition set_default :: "'v \<Rightarrow> ('k, 'v) dict \<Rightarrow> 'k \<Rightarrow> ('k, 'v) dict" where
  "set_default v d k = (case map_of d k of None \<Rightarrow> AList.update k v d | Some _ \<Rightarrow> d)"

fun as_dict :: "pyval \<Rightarrow> (string, pyval) dict" where
  "as_dict (PDict d) = d"
| "as_dict _ = []"

definition optimization_stats :: "player_state \<Rightarrow> (string, pyval) dict" where
  "optimization_stats p =
     foldl (set_default (PInt 0)) (as_dict (dict_get (PDict []) (stats p) ''decision_optimization''))
       OPTIMIZATION_KEYS"

definition increment_optimization :: "string \<Rightarrow> player_state \<Rightarrow> player_state" where
  "increment_optimization key p =
     (let telemetry = optimization_stats p;
          n = (case exact_int (dict_get (PInt 0) telemetry key) of None \<Rightarrow> 0 | Some i \<Rightarrow> i) in
      p\<lparr>stats := AList.update ''decision_optimization''
                  (PDict (AList.update key (PInt (n + 1)) telemetry)) (stats p)\<rparr>)"

definition new_history :: "int \<Rightarrow> turn_history" where
  "new_history n = \<lparr>history_version = 1, history_turn_sequence = n, history_events = []\<rparr>"

definition record_turn_history :: "turn_history_event \<Rightarrow> game_state \<Rightarrow> game_state" where
  "record_turn_history e g =
     (case game_turn_history g of
        None \<Rightarrow> g
      | Some h \<Rightarrow>
          let h1 = (if history_turn_sequence h \<noteq> turn_sequence g then new_history (turn_sequence g) else h) in
          g\<lparr>game_turn_history := Some (h1\<lparr>history_events := history_events h1 @ [e]\<rparr>)\<rparr>)"

definition current_turn_history_events ::
  "turn_history option \<Rightarrow> int \<Rightarrow> string \<Rightarrow> turn_history_event list" where
  "current_turn_history_events history sequence kind =
     (case history of
        None \<Rightarrow> []
      | Some h \<Rightarrow> if history_version h \<noteq> 1 \<or> history_turn_sequence h \<noteq> sequence then []
                  else filter (\<lambda>e. history_kind e = kind) (history_events h))"

definition opponent_was_dealt_damage ::
  "turn_history option \<Rightarrow> int \<Rightarrow> string \<Rightarrow> string list \<Rightarrow> bool" where
  "opponent_was_dealt_damage history sequence who seats =
     list_ex (\<lambda>e. (case history_target e of None \<Rightarrow> False | Some t \<Rightarrow> t \<in> set seats \<and> t \<noteq> who)
                  \<and> history_amount e > 0)
       (current_turn_history_events history sequence ''player_damaged'')"

section \<open>The order of steps\<close>

definition TURN_STEPS :: "(string \<times> string) list" where
  "TURN_STEPS =
     [(''beginning'', ''untap''), (''beginning'', ''upkeep''), (''beginning'', ''draw''),
      (''precombat_main'', ''main''), (''combat'', ''beginning_combat''),
      (''combat'', ''declare_attackers''), (''combat'', ''declare_blockers''),
      (''combat'', ''combat_damage''), (''combat'', ''end_combat''), (''postcombat_main'', ''main''),
      (''ending'', ''end_step''), (''ending'', ''cleanup'')]"

text \<open>The engine's callbacks: performing an entered step, and finishing a cleanup.\<close>

record step_host =
  on_step :: "stack_item list \<Rightarrow> string \<Rightarrow> string \<Rightarrow> string \<Rightarrow> game_state \<Rightarrow> engine_error + game_state"
  on_cleanup :: "game_state \<Rightarrow> engine_error + game_state"

definition announce_step :: "string \<Rightarrow> string \<Rightarrow> game_state \<Rightarrow> game_state" where
  "announce_step ph st g =
     log_event (new_entry None ''step.begin''
         (show_int (turn_sequence g) @ '':'' @ ph @ ''/'' @ st @ ''.'') 0)
       (g\<lparr>game_phase := ph, game_step := st, priority_player := None, priority_passes := []\<rparr>)"

definition open_combat :: "string \<Rightarrow> game_state \<Rightarrow> engine_error + game_state" where
  "open_combat who g =
     (let (g1, ref) = next_ref ''CD'' g in
      ebind (active g1) (\<lambda>seats.
      Inr (g1\<lparr>combat := new_combat\<lparr>damage_sequence_id := Some ref,
               defending_players := filter (\<lambda>s. s \<noteq> who) seats\<rparr>\<rparr>)))"

definition enter_step :: "step_host \<Rightarrow> stack_item list \<Rightarrow> game_state \<Rightarrow> engine_error + game_state" where
  "enter_step host held g =
     ebind (ensure (0 \<le> phase_index g \<and> phase_index g < int (length TURN_STEPS))
              (InvalidStepIndex (phase_index g))) (\<lambda>_.
     let (ph, st) = TURN_STEPS ! nat (phase_index g) in
     ebind (option_raise TurnWithoutPlayer (active_player g)) (\<lambda>who.
     ebind (ensure (map_of (players g) who \<noteq> None) (UnknownActivePlayer who)) (\<lambda>_.
     let g1 = announce_step ph st g in
     ebind (if st = ''beginning_combat'' then open_combat who g1 else Inr g1) (\<lambda>g2.
     on_step host held ph st who g2))))"

definition advance_step :: "step_host \<Rightarrow> stack_item list \<Rightarrow> game_state \<Rightarrow> engine_error + game_state" where
  "advance_step host held g =
     (let here = (game_phase g, game_step g);
          g1 = clear_mana ''step or phase ended'' g;
          g2 = (if here = (''combat'', ''end_combat'') then finish_combat_phase g1 else g1);
          next_index = phase_index g2 + 1 in
      if here = (''combat'', ''declare_attackers'')
         \<and> \<not> (had_attacking_creature (combat g2) \<or> attackers (combat g2) \<noteq> [])
      then enter_step host [] (g2\<lparr>phase_index := 8\<rparr>)
      else if here = (''combat'', ''combat_damage'') \<and> first_strike_step (combat g2)
              \<and> damage_step_index (combat g2) = 0
      then enter_step host held (g2\<lparr>combat := (combat g2)\<lparr>damage_step_index := 1\<rparr>\<rparr>)
      else if next_index \<ge> int (length TURN_STEPS) then
        (if here = (''ending'', ''cleanup'') then enter_step host [] (g2\<lparr>phase_index := 11\<rparr>)
         else on_cleanup host (g2\<lparr>phase_index := next_index\<rparr>))
      else enter_step host held (g2\<lparr>phase_index := next_index\<rparr>))"

fun last_active_frame :: "pyval list \<Rightarrow> (string, pyval) dict option" where
  "last_active_frame [] = None"
| "last_active_frame (v # vs) =
     (if dict_get PNone (as_dict v) ''kind'' = PStr ''cleanup_exception_frame''
         \<and> truthy (dict_get (PBool False) (as_dict v) ''active'')
      then Some (as_dict v) else last_active_frame vs)"

definition active_cleanup_frame :: "game_state \<Rightarrow> (string, pyval) dict option" where
  "active_cleanup_frame g = last_active_frame (rev (game_annotations g))"

definition remove_cleanup_frames :: "game_state \<Rightarrow> game_state" where
  "remove_cleanup_frames g =
     g\<lparr>game_annotations := filter
         (\<lambda>v. dict_get PNone (as_dict v) ''kind'' \<noteq> PStr ''cleanup_exception_frame'') (game_annotations g)\<rparr>"

section \<open>Turns\<close>

definition schedule_extra_turn ::
  "string \<Rightarrow> string option \<Rightarrow> game_state \<Rightarrow> engine_error + game_state \<times> turn_entry" where
  "schedule_extra_turn who source g =
     ebind (require_seat g who True) (\<lambda>_.
     let (g1, ref) = next_ref ''X'' g;
         e = \<lparr>turn_id = ref, turn_player = who, extra = True, turn_source = source,
              turn_created_sequence = turn_sequence g1, skip_steps = []\<rparr> in
     Inr (log_event ((new_entry (Some who) ''turn.extra.scheduled''
                (who @ '' received an extra turn after this one.'') 2)
              \<lparr>log_details := [(''turn'', PStr ref), (''source'', opt_str source)], log_players := [who]\<rparr>)
            (g1\<lparr>extra_turns := e # extra_turns g1\<rparr>), e))"

definition next_normal_player :: "game_state \<Rightarrow> engine_error + string" where
  "next_normal_player g =
     (case last_normal_turn_player g of
        Some a \<Rightarrow> if a \<noteq> [] then next_active_after g a
                  else if turn_order g = [] then Inl NoActivePlayers else next_active_after g (hd (turn_order g))
      | None \<Rightarrow> if turn_order g = [] then Inl NoActivePlayers else next_active_after g (hd (turn_order g)))"

fun pop_extra_turns ::
  "game_state \<Rightarrow> turn_entry list \<Rightarrow> engine_error + turn_entry option \<times> turn_entry list" where
  "pop_extra_turns g [] = Inr (None, [])"
| "pop_extra_turns g (e # es) =
     ebind (option_raise (EngineModel (MissingSeat (turn_player e)))
              (map_of (players g) (turn_player e))) (\<lambda>p.
     if in_game p then Inr (Some e, es) else pop_extra_turns g es)"

definition select_next_turn :: "game_state \<Rightarrow> engine_error + game_state \<times> turn_entry" where
  "select_next_turn g =
     ebind (pop_extra_turns g (extra_turns g)) (\<lambda>(chosen, rest).
     let g1 = g\<lparr>extra_turns := rest\<rparr> in
     case chosen of
       Some e \<Rightarrow> Inr (g1, e)
     | None \<Rightarrow>
         ebind (next_normal_player g1) (\<lambda>who.
         let (g2, ref) = next_ref ''N'' g1 in
         Inr (g2, \<lparr>turn_id = ref, turn_player = who, extra = False, turn_source = None,
                   turn_created_sequence = turn_sequence g2, skip_steps = []\<rparr>)))"

definition turn_control :: "string \<Rightarrow> string list \<Rightarrow> (string, pyval) dict \<Rightarrow> (string, pyval) dict" where
  "turn_control who seats st =
     (let st1 = AList.delete ''protection_from_everything_until_next_turn'' st;
          controller = map_of st1 ''next_turn_controlled_by'';
          st2 = AList.delete ''next_turn_controlled_by'' st1 in
      case controller of
        Some (PStr c) \<Rightarrow>
          if c \<in> set seats \<and> c \<noteq> who then AList.update ''turn_controlled_by'' (PStr c) st2
          else AList.delete ''turn_controlled_by'' st2
      | _ \<Rightarrow> AList.delete ''turn_controlled_by'' st2)"

definition open_turn :: "turn_entry \<Rightarrow> game_state \<Rightarrow> game_state" where
  "open_turn e g =
     g\<lparr>current_turn := Some e, active_player := Some (turn_player e),
       last_normal_turn_player := (if extra e then last_normal_turn_player g else Some (turn_player e)),
       turn_sequence := turn_sequence g + 1,
       game_turn_history := map_option (\<lambda>_. new_history (turn_sequence g + 1)) (game_turn_history g)\<rparr>"

definition reset_turn_player :: "player_state \<Rightarrow> player_state" where
  "reset_turn_player p =
     (let p1 = p\<lparr>land_plays_remaining := 1\<rparr>;
          p2 = (if yield_mode (player_yield p1) \<noteq> ''none''
                then increment_optimization ''yields_invalidated_by_phase'' p1 else p1) in
      p2\<lparr>player_yield := default_yield_policy\<rparr>)"

definition start_turn :: "step_host \<Rightarrow> turn_entry \<Rightarrow> player_state \<Rightarrow> game_state \<Rightarrow> engine_error + game_state" where
  "start_turn host e p g =
     (let who = turn_player e; g1 = open_turn e g in
      ebind (active g1) (\<lambda>seats.
      ebind (expire_goad_designations who
               (g1\<lparr>players := AList.update who
                    (p\<lparr>stats := turn_control who seats (stats p), turns_begun := turns_begun p + 1\<rparr>)
                    (players g1)\<rparr>)) (\<lambda>g2.
      ebind (option_raise (UnknownSeat who) (map_of (players g2) who)) (\<lambda>p2.
      let g3 = g2\<lparr>players := AList.update who (reset_turn_player p2) (players g2),
                  combat := new_combat, phase_index := 0, priority_player := None,
                  priority_passes := []\<rparr> in
      enter_step host []
        (log_event ((new_entry (Some who) ''turn.begin''
             (''Turn '' @ show_int (turn_sequence g3) @ '' began for '' @ who
              @ (if extra e then '' (extra)'' else []) @ ''.'') 2)
           \<lparr>log_details := [(''turn_id'', PStr (turn_id e)), (''extra'', PBool (extra e)),
                            (''source'', opt_str (turn_source e))],
            log_players := [who]\<rparr>) g3)))))"

text \<open>A turn of a player who has left is replaced by the next one; \<open>fuel\<close> bounds the replacements.\<close>

fun begin_turn_within :: "nat \<Rightarrow> step_host \<Rightarrow> turn_entry \<Rightarrow> game_state \<Rightarrow> engine_error + game_state" where
  "begin_turn_within 0 host e g = Inl (HostRefused ''recursion'')"
| "begin_turn_within (Suc fuel) host e g =
     ebind (ensure (skip_steps e = []) SkippedSteps) (\<lambda>_.
     ebind (option_raise (UnknownTurnPlayer (turn_player e)) (map_of (players g) (turn_player e))) (\<lambda>p.
     if \<not> in_game p then
       ebind (select_next_turn g) (\<lambda>(g1, e1). begin_turn_within fuel host e1 g1)
     else start_turn host e p g))"

definition begin_turn :: "step_host \<Rightarrow> turn_entry \<Rightarrow> game_state \<Rightarrow> engine_error + game_state" where
  "begin_turn = begin_turn_within 2"

definition start_game :: "step_host \<Rightarrow> game_state \<Rightarrow> engine_error + game_state" where
  "start_game host g =
     (if turn_order g = [] then Inl NoActivePlayers
      else
        (let who = hd (turn_order g);
             (g1, ref) = next_ref ''N'' (g\<lparr>game_started := True\<rparr>);
             e = \<lparr>turn_id = ref, turn_player = who, extra = False, turn_source = None,
                  turn_created_sequence = turn_sequence g1, skip_steps = []\<rparr> in
         begin_turn host e
           (log_event (new_entry None ''game.start'' (''The game began; '' @ who @ '' takes the first turn.'') 3)
              g1)))"

section \<open>Selecting the next turn\<close>

lemma pop_extra_turns_eq:
  assumes "pop_extra_turns g es = Inr (chosen, rest)"
  shows "case chosen of
      Some e \<Rightarrow> seat_in_game g (turn_player e)
        \<and> (\<exists>dropped. es = dropped @ e # rest \<and> (\<forall>d \<in> set dropped. \<not> seat_in_game g (turn_player d)))
    | None \<Rightarrow> rest = [] \<and> (\<forall>d \<in> set es. \<not> seat_in_game g (turn_player d))"
  using assms
proof (induction es)
  case (Cons e es)
  then obtain p where p: "map_of (players g) (turn_player e) = Some p"
    by (auto simp: ebind_eq_Inr option_raise_eq_Inr)
  show ?case
  proof (cases "in_game p")
    case True
    with Cons.prems p show ?thesis by (auto simp: seat_in_game_def intro!: exI [of _ "[]"])
  next
    case False
    with Cons.prems p have "pop_extra_turns g es = Inr (chosen, rest)" by simp
    from Cons.IH [OF this] False p show ?thesis
      by (cases chosen) (auto simp: seat_in_game_def intro: exI [of _ "e # _"])
  qed
qed simp

lemma next_normal_cong:
  assumes "players h = players g" and "turn_order h = turn_order g"
    and "last_normal_turn_player h = last_normal_turn_player g"
  shows "next_normal_player h = next_normal_player g"
  by (simp only: next_normal_player_def next_active_cong [OF assms(1,2)] assms)

lemma find_member: "find P xs = Some x \<Longrightarrow> P x \<and> x \<in> set xs"
  by (auto simp: find_Some_iff)

lemma next_active_in_game:
  assumes "next_active_after g s = Inr x"
  shows "seat_in_game g x \<and> x \<in> set (turn_order g)"
proof -
  obtain seats where seats: "active g = Inr seats" "seats \<noteq> []"
    using assms by (auto simp: next_active_after_def ebind_eq_Inr)
  have hd: "seat_in_game g (hd seats) \<and> hd seats \<in> set (turn_order g)"
    using hd_in_set [OF seats(2)] by (simp add: active_eq [OF seats(1)])
  show ?thesis
  proof (cases "s \<in> set (turn_order g)")
    case False
    with assms seats hd show ?thesis by (simp add: next_active_after_def)
  next
    case True
    let ?i = "index_of s (turn_order g)"
    have i: "?i < length (turn_order g)" using nth_index_of [OF True] by simp
    have "find (seat_in_game g) (rotate (Suc ?i) (turn_order g)) = Some x
        \<or> x = hd seats"
      using assms seats True offsets_rotate [OF i]
      by (auto simp: next_active_after_def Let_def split: option.splits)
    then show ?thesis using hd find_member [of "seat_in_game g" "rotate (Suc ?i) (turn_order g)" x]
      by (auto simp only: set_rotate)
  qed
qed

text \<open>
  The next turn is the most recent extra turn whose player is still in the game, after dropping
  those of players who have left; only without one is it a normal turn, of the next player in turn
  order after the last normal turn. Its player is in the game, and selecting it moves nobody.
\<close>

theorem next_turn_choice:
  assumes "select_next_turn g = Inr (g', e)"
  shows "seat_in_game g (turn_player e) \<and> players g' = players g \<and> turn_order g' = turn_order g
    \<and> last_normal_turn_player g' = last_normal_turn_player g \<and> turn_sequence g' = turn_sequence g
    \<and> ((\<exists>dropped. extra_turns g = dropped @ e # extra_turns g'
           \<and> (\<forall>d \<in> set dropped. \<not> seat_in_game g (turn_player d)))
       \<or> (\<forall>d \<in> set (extra_turns g). \<not> seat_in_game g (turn_player d)) \<and> extra_turns g' = []
         \<and> \<not> extra e \<and> skip_steps e = [] \<and> next_normal_player g = Inr (turn_player e))"
proof -
  obtain chosen rest where pop: "pop_extra_turns g (extra_turns g) = Inr (chosen, rest)"
    and sel: "(case chosen of Some e \<Rightarrow> Inr (g\<lparr>extra_turns := rest\<rparr>, e)
       | None \<Rightarrow> ebind (next_normal_player (g\<lparr>extra_turns := rest\<rparr>)) (\<lambda>who.
           let (g2, ref) = next_ref ''N'' (g\<lparr>extra_turns := rest\<rparr>) in
           Inr (g2, \<lparr>turn_id = ref, turn_player = who, extra = False, turn_source = None,
                   turn_created_sequence = turn_sequence g2, skip_steps = []\<rparr>))) = Inr (g', e)"
    using assms by (auto simp: select_next_turn_def ebind_eq_Inr Let_def)
  show ?thesis
  proof (cases chosen)
    case (Some e1)
    with sel have "g' = g\<lparr>extra_turns := rest\<rparr>" "e1 = e" by simp_all
    with pop_extra_turns_eq [OF pop] Some show ?thesis by auto
  next
    case None
    have same: "next_normal_player (g\<lparr>extra_turns := rest\<rparr>) = next_normal_player g"
      by (rule next_normal_cong) simp_all
    let ?h = "g\<lparr>extra_turns := rest\<rparr>"
    from None sel obtain who where who: "next_normal_player g = Inr who"
      and made: "(let (g2, ref) = next_ref ''N'' ?h in
           Inr (g2, \<lparr>turn_id = ref, turn_player = who, extra = False, turn_source = None,
                   turn_created_sequence = turn_sequence g2, skip_steps = []\<rparr>)) = (Inr (g', e) :: engine_error + _)"
      unfolding same by (auto simp only: ebind_eq_Inr option.case)
    have g': "g' = g\<lparr>extra_turns := rest,
        ref_counters := AList.update ''N'' (dict_get 0 (ref_counters ?h) ''N'' + 1) (ref_counters ?h)\<rparr>"
      using made by (simp only: Let_def case_prod_beta sum.inject prod.inject next_ref_simps)
    from conjunct2 [OF made [unfolded Let_def case_prod_beta sum.inject prod.inject]]
    have e: "turn_player e = who" "\<not> extra e" "skip_steps e = []" by auto
    have "seat_in_game g who" using who next_active_in_game
      by (auto simp: next_normal_player_def split: option.splits if_splits)
    with pop_extra_turns_eq [OF pop] None who e g' show ?thesis by auto
  qed
qed

text \<open>
  Extra turns are taken in the reverse of the order in which they were created, and do not move
  the player whose normal turn is next: after scheduling one for a and then one for b, the next
  turn is b's, the one after it a's, and the state is then the one before but for the log.
\<close>

theorem extra_turns_lifo:
  assumes "schedule_extra_turn a x g = Inr (g1, e1)" and "schedule_extra_turn b y g1 = Inr (g2, e2)"
  shows "\<exists>g3 g4. select_next_turn g2 = Inr (g3, e2) \<and> turn_player e2 = b
    \<and> select_next_turn g3 = Inr (g4, e1) \<and> turn_player e1 = a
    \<and> extra_turns g4 = extra_turns g \<and> next_normal_player g4 = next_normal_player g"
proof -
  have facts: "\<exists>g' e. schedule_extra_turn w z h = Inr (g', e) \<and> seat_in_game h w \<and> turn_player e = w
      \<and> players g' = players h \<and> turn_order g' = turn_order h
      \<and> last_normal_turn_player g' = last_normal_turn_player h \<and> extra_turns g' = e # extra_turns h"
    if "schedule_extra_turn w z h = Inr r" for w z h r
    using that by (auto simp: schedule_extra_turn_def require_seat_def ebind_eq_Inr Let_def next_ref_def
        seat_in_game_def split: option.splits if_splits)
  have 1: "seat_in_game g a" "turn_player e1 = a" "players g1 = players g" "turn_order g1 = turn_order g"
    "last_normal_turn_player g1 = last_normal_turn_player g" "extra_turns g1 = e1 # extra_turns g"
    using facts [OF assms(1)] assms(1) by auto
  have 2: "seat_in_game g1 b" "turn_player e2 = b" "players g2 = players g1" "turn_order g2 = turn_order g1"
    "last_normal_turn_player g2 = last_normal_turn_player g1" "extra_turns g2 = e2 # extra_turns g1"
    using facts [OF assms(2)] assms(2) by auto
  let ?g3 = "g2\<lparr>extra_turns := e1 # extra_turns g\<rparr>" and ?g4 = "g2\<lparr>extra_turns := extra_turns g\<rparr>"
  have "select_next_turn g2 = Inr (?g3, e2)" "select_next_turn ?g3 = Inr (?g4, e1)"
    using 1 2 by (auto simp: select_next_turn_def seat_in_game_def split: option.splits)
  moreover have "next_normal_player ?g4 = next_normal_player g"
    using 1 2 by (intro next_normal_cong) simp_all
  ultimately show ?thesis using 1(2) 2(2) by (intro exI [of _ ?g3] exI [of _ ?g4]) simp
qed

section \<open>Beginning a turn\<close>

lemma expire_goad_total:
  assumes "map_of (players g) who \<noteq> None"
  shows "\<exists>h. expire_goad_designations who g = Inr h \<and> players h = players g
    \<and> turn_order h = turn_order g \<and> active_player h = active_player g
    \<and> current_turn h = current_turn g \<and> last_normal_turn_player h = last_normal_turn_player g
    \<and> extra_turns h = extra_turns g \<and> turn_sequence h = turn_sequence g"
  using assms by (auto simp: expire_goad_designations_def Let_def)

lemma enter_first_step:
  assumes "phase_index g = 0" and "active_player g = Some who" and "map_of (players g) who \<noteq> None"
  obtains l where "enter_step host held g = on_step host held ''beginning'' ''untap'' who
    (log_event l (g\<lparr>game_phase := ''beginning'', game_step := ''untap'', priority_player := None,
       priority_passes := []\<rparr>))"
  using assms that by (simp add: enter_step_def announce_step_def TURN_STEPS_def)

text \<open>The state handed to the untap step.\<close>

definition turn_opened :: "game_state \<Rightarrow> turn_entry \<Rightarrow> game_state \<Rightarrow> bool" where
  "turn_opened g e g' \<longleftrightarrow>
     current_turn g' = Some e \<and> active_player g' = Some (turn_player e)
     \<and> last_normal_turn_player g' = (if extra e then last_normal_turn_player g else Some (turn_player e))
     \<and> turn_sequence g' = turn_sequence g + 1 \<and> phase_index g' = 0
     \<and> game_phase g' = ''beginning'' \<and> game_step g' = ''untap''
     \<and> priority_player g' = None \<and> priority_passes g' = [] \<and> combat g' = new_combat
     \<and> (case (map_of (players g) (turn_player e), map_of (players g') (turn_player e)) of
          (Some p, Some q) \<Rightarrow>
            in_game p \<and> in_game q \<and> turns_begun q = turns_begun p + 1 \<and> land_plays_remaining q = 1
            \<and> player_yield q = default_yield_policy \<and> life q = life p \<and> zones q = zones p
            \<and> mana_pool q = mana_pool p \<and> player_counters q = player_counters p
        | _ \<Rightarrow> False)
     \<and> map_of (players g') |` (- {turn_player e}) = map_of (players g) |` (- {turn_player e})"

lemma reset_turn_player_simps [simp]:
  "in_game (reset_turn_player p) = in_game p" "turns_begun (reset_turn_player p) = turns_begun p"
  "land_plays_remaining (reset_turn_player p) = 1" "player_yield (reset_turn_player p) = default_yield_policy"
  "life (reset_turn_player p) = life p" "zones (reset_turn_player p) = zones p"
  "mana_pool (reset_turn_player p) = mana_pool p" "player_counters (reset_turn_player p) = player_counters p"
  by (simp_all add: reset_turn_player_def increment_optimization_def Let_def)

lemma start_turn_opens:
  assumes "map_of (players g) (turn_player e) = Some p" and "in_game p" and "active g = Inr seats"
  shows "\<exists>g'. start_turn host e p g = on_step host [] ''beginning'' ''untap'' (turn_player e) g'
    \<and> turn_opened g e g'"
proof -
  let ?who = "turn_player e"
  let ?g1 = "open_turn e g"
  let ?p1 = "p\<lparr>stats := turn_control ?who seats (stats p), turns_begun := turns_begun p + 1\<rparr>"
  let ?g2 = "?g1\<lparr>players := AList.update ?who ?p1 (players ?g1)\<rparr>"
  have act: "active ?g1 = Inr seats"
    using assms(3) active_cong [of ?g1 g] by (simp add: open_turn_def)
  obtain h where h: "expire_goad_designations ?who ?g2 = Inr h" "players h = players ?g2"
    "turn_order h = turn_order ?g2" "active_player h = active_player ?g2"
    "current_turn h = current_turn ?g2" "last_normal_turn_player h = last_normal_turn_player ?g2"
    "extra_turns h = extra_turns ?g2" "turn_sequence h = turn_sequence ?g2"
    using expire_goad_total [of ?g2 ?who] by auto
  let ?g3 = "h\<lparr>players := AList.update ?who (reset_turn_player ?p1) (players h),
      combat := new_combat, phase_index := 0, priority_player := None, priority_passes := []\<rparr>"
  obtain l where l: "start_turn host e p g = enter_step host [] (log_event l ?g3)"
    using act h by (simp add: start_turn_def Let_def)
  let ?g4 = "log_event l ?g3"
  have "phase_index ?g4 = 0" "active_player ?g4 = Some ?who" "map_of (players ?g4) ?who \<noteq> None"
    using h by (simp_all add: open_turn_def)
  then obtain m where m: "enter_step host [] ?g4 = on_step host [] ''beginning'' ''untap'' ?who
      (log_event m (?g4\<lparr>game_phase := ''beginning'', game_step := ''untap'', priority_player := None,
         priority_passes := []\<rparr>))" by (rule enter_first_step)
  have "turn_opened g e (log_event m (?g4\<lparr>game_phase := ''beginning'', game_step := ''untap'',
      priority_player := None, priority_passes := []\<rparr>))"
    using assms h by (auto simp: turn_opened_def open_turn_def restrict_map_def fun_eq_iff)
  with l m show ?thesis by (intro exI) (rule conjI, simp, assumption)
qed

lemma select_total:
  assumes "active g = Inr seats" and "seats \<noteq> []"
    and "\<forall>x \<in> set (extra_turns g). map_of (players g) (turn_player x) \<noteq> None"
  obtains g1 e1 where "select_next_turn g = Inr (g1, e1)"
proof -
  have "\<exists>r. pop_extra_turns g es = Inr r" if "\<forall>x \<in> set es. map_of (players g) (turn_player x) \<noteq> None" for es
    using that
  proof (induction es)
    case (Cons x es)
    then obtain p where "map_of (players g) (turn_player x) = Some p" by auto
    with Cons show ?case by (cases "in_game p") simp_all
  qed simp
  from this [of "extra_turns g"] assms(3) obtain chosen rest where
    pop: "pop_extra_turns g (extra_turns g) = Inr (chosen, rest)" by (metis surj_pair)
  have "turn_order g \<noteq> []" using assms(1,2) active_eq by fastforce
  moreover have "\<exists>x. next_active_after g s = Inr x" for s
    using assms(1,2) by (auto simp: next_active_after_def Let_def split: option.splits)
  ultimately have "\<exists>who. next_normal_player g = Inr who"
    by (auto simp: next_normal_player_def split: option.splits)
  moreover have "next_normal_player (g\<lparr>extra_turns := rest\<rparr>) = next_normal_player g"
    by (rule next_normal_cong) simp_all
  ultimately obtain r where sel: "select_next_turn g = Inr r"
    using pop by (cases chosen) (auto simp: select_next_turn_def Let_def next_ref_def)
  obtain g1 e1 where r: "r = (g1, e1)" by (cases r)
  with sel that show thesis by blast
qed

lemma begin_turn_cases:
  assumes "active g = Inr seats" and "seats \<noteq> []"
    and "\<forall>x \<in> set (extra_turns g). map_of (players g) (turn_player x) \<noteq> None"
    and "skip_steps e = []" and "map_of (players g) (turn_player e) = Some p"
  shows "\<exists>e' g1. (if seat_in_game g (turn_player e) then e' = e \<and> g1 = g else select_next_turn g = Inr (g1, e'))
      \<and> (if skip_steps e' \<noteq> [] then begin_turn host e g = Inl SkippedSteps
          else \<exists>g'. begin_turn host e g = on_step host [] ''beginning'' ''untap'' (turn_player e') g'
            \<and> turn_opened g1 e' g')"
proof (cases "in_game p")
  case True
  have "\<exists>g'. begin_turn host e g = on_step host [] ''beginning'' ''untap'' (turn_player e) g' \<and> turn_opened g e g'"
    using start_turn_opens [OF assms(5) True assms(1), of host] True assms(4,5)
    by (simp add: begin_turn_def numeral_2_eq_2)
  then show ?thesis using True assms(4,5) by (intro exI [of _ e] exI [of _ g]) (simp add: seat_in_game_def)
next
  case False
  obtain g1 e1 where sel: "select_next_turn g = Inr (g1, e1)" by (rule select_total [OF assms(1-3)])
  note chosen = next_turn_choice [OF sel]
  then obtain p1 where p1: "map_of (players g1) (turn_player e1) = Some p1" "in_game p1"
    by (auto simp: seat_in_game_def split: option.splits)
  have "active g1 = Inr seats" using chosen assms(1) active_cong [of g1 g] by simp
  note opens = start_turn_opens [OF p1 this, of host]
  have run: "begin_turn host e g = (if skip_steps e1 \<noteq> [] then Inl SkippedSteps else start_turn host e1 p1 g1)"
    using assms(4,5) False sel p1 by (simp add: begin_turn_def numeral_2_eq_2 ensure_def)
  have "\<not> seat_in_game g (turn_player e)" using False assms(5) by (simp add: seat_in_game_def)
  then show ?thesis using opens sel by (intro exI [of _ e1] exI [of _ g1]) (simp add: run)
qed

text \<open>
  C28. As long as somebody is in the game, and extra turns name players of the game, a turn begins unless its
  entry skips steps, which is refused.  The entry's own player, or if that player has left the player of the
  next turn, begins: the untap step is entered in a state with the next turn number, no priority, no
  combat and that player's land plays, yield and turn counter set for the new turn.  One replacement is
  enough, and the replacing entry is refused as well when it skips steps.
\<close>

theorem turn_begins:
  assumes "active g = Inr seats" and "seats \<noteq> []"
    and "\<forall>x \<in> set (extra_turns g). map_of (players g) (turn_player x) \<noteq> None"
  shows "if skip_steps e \<noteq> [] then begin_turn host e g = Inl SkippedSteps
    else if map_of (players g) (turn_player e) = None
      then begin_turn host e g = Inl (UnknownTurnPlayer (turn_player e))
    else \<exists>e' g1. (if seat_in_game g (turn_player e) then e' = e \<and> g1 = g else select_next_turn g = Inr (g1, e'))
      \<and> (if skip_steps e' \<noteq> [] then begin_turn host e g = Inl SkippedSteps
          else \<exists>g'. begin_turn host e g = on_step host [] ''beginning'' ''untap'' (turn_player e') g'
            \<and> turn_opened g1 e' g')"
proof (cases "skip_steps e = []")
  case False
  then show ?thesis by (simp add: begin_turn_def numeral_2_eq_2 ensure_def)
next
  case plain: True
  show ?thesis
  proof (cases "map_of (players g) (turn_player e)")
    case None
    with plain show ?thesis by (simp add: begin_turn_def numeral_2_eq_2)
  next
    case (Some p)
    with begin_turn_cases [OF assms plain Some, of host] plain show ?thesis by simp
  qed
qed

section \<open>Advancing through a turn\<close>

definition emptied :: "player_state \<Rightarrow> player_state" where
  "emptied p =
     (let p1 = p\<lparr>stats := AList.delete ''reversible_mana_activations'' (stats p)\<rparr> in
      if list_ex (\<lambda>v. v \<noteq> 0) (map snd (mana_pool p1))
      then p1\<lparr>mana_pool := zero_bundle, stats := AList.delete ''restricted_mana'' (stats p1)\<rparr> else p1)"

lemma emptied_simps:
  "in_game (emptied p) = in_game p" "\<forall>v \<in> snd ` set (mana_pool (emptied p)). v = 0"
  by (auto simp: emptied_def Let_def zero_bundle_def list_ex_iff split: if_splits)

lemma clear_mana_of_players:
  "players (clear_mana_of r g (s, p)) = AList.update s (emptied p) (players g)"
  by (simp add: clear_mana_of_def emptied_def Let_def)

lemma clear_mana_of_simps [simp]:
  "turn_order (clear_mana_of r g sp) = turn_order g" "active_player (clear_mana_of r g sp) = active_player g"
  "phase_index (clear_mana_of r g sp) = phase_index g" "game_phase (clear_mana_of r g sp) = game_phase g"
  "game_step (clear_mana_of r g sp) = game_step g" "combat (clear_mana_of r g sp) = combat g"
  "turn_sequence (clear_mana_of r g sp) = turn_sequence g"
  by (simp_all add: clear_mana_of_def Let_def)

lemma clear_mana_simps [simp]:
  "turn_order (clear_mana r g) = turn_order g" "active_player (clear_mana r g) = active_player g"
  "phase_index (clear_mana r g) = phase_index g" "game_phase (clear_mana r g) = game_phase g"
  "game_step (clear_mana r g) = game_step g" "combat (clear_mana r g) = combat g"
  "turn_sequence (clear_mana r g) = turn_sequence g"
proof -
  have "turn_order (foldl (clear_mana_of r) h ps) = turn_order h
    \<and> active_player (foldl (clear_mana_of r) h ps) = active_player h
    \<and> phase_index (foldl (clear_mana_of r) h ps) = phase_index h
    \<and> game_phase (foldl (clear_mana_of r) h ps) = game_phase h
    \<and> game_step (foldl (clear_mana_of r) h ps) = game_step h
    \<and> combat (foldl (clear_mana_of r) h ps) = combat h
    \<and> turn_sequence (foldl (clear_mana_of r) h ps) = turn_sequence h" for h ps
    by (induction ps arbitrary: h) simp_all
  then show "turn_order (clear_mana r g) = turn_order g" "active_player (clear_mana r g) = active_player g"
    "phase_index (clear_mana r g) = phase_index g" "game_phase (clear_mana r g) = game_phase g"
    "game_step (clear_mana r g) = game_step g" "combat (clear_mana r g) = combat g"
    "turn_sequence (clear_mana r g) = turn_sequence g"
    by (simp_all add: clear_mana_def)
qed

lemma clear_mana_players:
  assumes "distinct (map fst (players g))"
  shows "map_of (players (clear_mana r g)) s = map_option emptied (map_of (players g) s)"
proof -
  have "distinct (map fst ps) \<Longrightarrow> map_of (players (foldl (clear_mana_of r) h ps)) s
      = (case map_of ps s of Some p \<Rightarrow> Some (emptied p) | None \<Rightarrow> map_of (players h) s)" for h ps
  proof (induction ps arbitrary: h)
    case (Cons sp ps)
    obtain t p where sp: "sp = (t, p)" by (cases sp)
    with Cons.prems have "map_of ps t = None" by (simp add: map_of_None_key)
    with Cons sp show ?case by (cases "map_of ps s") (auto simp: clear_mana_of_players)
  qed simp
  from this [of "players g" g] assms show ?thesis
    by (cases "map_of (players g) s") (simp_all add: clear_mana_def)
qed

lemma active_same:
  assumes "turn_order h = turn_order g"
    and "\<forall>s. map_option in_game (map_of (players h) s) = map_option in_game (map_of (players g) s)"
  shows "active h = active g"
proof -
  have "active_seats_loop (players h) order = active_seats_loop (players g) order" for order
  proof (induction order)
    case (Cons s order)
    from assms(2) have "map_option in_game (map_of (players h) s) = map_option in_game (map_of (players g) s)"
      by blast
    with Cons show ?case
      by (cases "map_of (players h) s"; cases "map_of (players g) s") simp_all
  qed simp
  with assms(1) show ?thesis by (simp add: active_def active_seats_def)
qed

definition step_coherent :: "game_state \<Rightarrow> bool" where
  "step_coherent g \<longleftrightarrow> 0 \<le> phase_index g \<and> phase_index g < 12
     \<and> (game_phase g, game_step g) = TURN_STEPS ! nat (phase_index g)"

lemma announce_step_simps [simp]:
  "players (announce_step ph st g) = players g" "turn_order (announce_step ph st g) = turn_order g"
  "phase_index (announce_step ph st g) = phase_index g" "game_phase (announce_step ph st g) = ph"
  "game_step (announce_step ph st g) = st" "priority_player (announce_step ph st g) = None"
  "priority_passes (announce_step ph st g) = []" "combat (announce_step ph st g) = combat g"
  by (simp_all add: announce_step_def)

lemma open_combat_opens:
  assumes "active g = Inr seats"
  shows "\<exists>h. open_combat who g = Inr h \<and> phase_index h = phase_index g \<and> players h = players g
    \<and> game_phase h = game_phase g \<and> game_step h = game_step g \<and> priority_player h = priority_player g
    \<and> priority_passes h = priority_passes g \<and> damage_step_index (combat h) = 0"
proof -
  have "active (fst (next_ref ''CD'' g)) = Inr seats"
    using assms active_cong [of "fst (next_ref ''CD'' g)" g] by simp
  then show ?thesis by (simp add: open_combat_def case_prod_beta new_combat_def)
qed

lemma enter_step_enters:
  assumes "0 \<le> phase_index g" and "phase_index g < 12" and "active_player g = Some who"
    and "map_of (players g) who \<noteq> None" and "active g = Inr seats"
  shows "\<exists>g'. enter_step host held g = on_step host held (game_phase g') (game_step g') who g'
    \<and> step_coherent g' \<and> phase_index g' = phase_index g \<and> players g' = players g
    \<and> priority_player g' = None \<and> priority_passes g' = []
    \<and> damage_step_index (combat g') = (if phase_index g = 4 then 0 else damage_step_index (combat g))"
proof -
  obtain ph st where ps: "TURN_STEPS ! nat (phase_index g) = (ph, st)" by (cases "TURN_STEPS ! nat (phase_index g)")
  have len: "length TURN_STEPS = 12" by (simp add: TURN_STEPS_def)
  have all: "\<forall>i < 12. snd (TURN_STEPS ! i) = ''beginning_combat'' \<longleftrightarrow> i = 4" by code_simp
  have st4: "st = ''beginning_combat'' \<longleftrightarrow> phase_index g = 4"
    using all [rule_format, of "nat (phase_index g)"] ps assms(1,2) by auto
  let ?g1 = "announce_step ph st g"
  have act: "active ?g1 = Inr seats"
    using assms(5) active_cong [of ?g1 g] by simp
  obtain g3 where g3: "(if st = ''beginning_combat'' then open_combat who ?g1 else Inr ?g1) = Inr g3"
    "phase_index g3 = phase_index g" "players g3 = players g" "game_phase g3 = ph" "game_step g3 = st"
    "priority_player g3 = None" "priority_passes g3 = []"
    "damage_step_index (combat g3) = (if phase_index g = 4 then 0 else damage_step_index (combat g))"
  proof (cases "st = ''beginning_combat''")
    case True
    from open_combat_opens [OF act, of who] obtain h where "open_combat who ?g1 = Inr h"
      "phase_index h = phase_index g" "players h = players g" "game_phase h = ph" "game_step h = st"
      "priority_player h = None" "priority_passes h = []" "damage_step_index (combat h) = 0" by auto
    with True st4 that show thesis by metis
  next
    case False
    with st4 show thesis by (intro that [of ?g1]) simp_all
  qed
  moreover have "enter_step host held g = on_step host held ph st who g3"
    using assms g3(1) by (simp add: enter_step_def ps len)
  ultimately show ?thesis using assms(1,2) ps by (intro exI [of _ g3]) (simp add: step_coherent_def)
qed

text \<open>Where a state stands in its turn; the second combat damage step comes after the first.\<close>

definition turn_position :: "game_state \<Rightarrow> int" where
  "turn_position g = 2 * phase_index g + (if phase_index g = 7 then damage_step_index (combat g) else 0)"

definition next_phase_index :: "game_state \<Rightarrow> int" where
  "next_phase_index g =
     (if phase_index g = 11 then 11
      else if phase_index g = 5 \<and> \<not> had_attacking_creature (combat g) \<and> attackers (combat g) = [] then 8
      else if phase_index g = 7 \<and> first_strike_step (combat g) \<and> damage_step_index (combat g) = 0 then 7
      else phase_index g + 1)"

text \<open>The triggers held back for the step are handed to it, except where a step is skipped or repeated.\<close>

definition handed_on :: "stack_item list \<Rightarrow> game_state \<Rightarrow> stack_item list" where
  "handed_on held g =
     (if phase_index g = 11 \<or> phase_index g = 5 \<and> next_phase_index g = 8 then [] else held)"

text \<open>
  C29. Advancing from any step before cleanup goes on: the engine enters the next step of the fixed order,
  skipping from the declaration of attackers to the end of combat when nothing attacked and repeating combat
  damage once for first strike.  So a turn comes to its cleanup step after at most twelve others.  Advancing
  from cleanup enters the same cleanup step again; the turn ends elsewhere.  In every case phase, step and index
  agree in the step entered, nobody holds priority and every mana pool is empty.
\<close>

theorem advance_moves_on:
  assumes "step_coherent g" and "active_player g = Some who"
    and "map_of (players g) who \<noteq> None" and "active g = Inr seats"
    and "distinct (map fst (players g))" and "damage_step_index (combat g) \<in> {0, 1}"
  shows "\<exists>g'. advance_step host held g = on_step host (handed_on held g) (game_phase g') (game_step g') who g'
    \<and> step_coherent g' \<and> phase_index g' = next_phase_index g
    \<and> (if phase_index g = 11 then game_phase g' = ''ending'' \<and> game_step g' = ''cleanup''
        else turn_position g < turn_position g')
    \<and> priority_player g' = None \<and> priority_passes g' = []
    \<and> (\<forall>s p. map_of (players g') s = Some p \<longrightarrow> (\<forall>v \<in> snd ` set (mana_pool p). v = 0))"
proof -
  define g1 where "g1 = clear_mana ''step or phase ended'' g"
  define g2 where "g2 = (if phase_index g = 8 then finish_combat_phase g1 else g1)"
  have all: "\<forall>i < 12. (TURN_STEPS ! i = (''combat'', ''end_combat'') \<longleftrightarrow> i = 8)
      \<and> (TURN_STEPS ! i = (''combat'', ''declare_attackers'') \<longleftrightarrow> i = 5)
      \<and> (TURN_STEPS ! i = (''combat'', ''combat_damage'') \<longleftrightarrow> i = 7)
      \<and> (TURN_STEPS ! i = (''ending'', ''cleanup'') \<longleftrightarrow> i = 11)" by code_simp
  have i: "0 \<le> phase_index g" "phase_index g < 12" using assms(1) by (simp_all add: step_coherent_def)
  have at: "(game_phase g, game_step g) = (''combat'', ''end_combat'') \<longleftrightarrow> phase_index g = 8"
    "(game_phase g, game_step g) = (''combat'', ''declare_attackers'') \<longleftrightarrow> phase_index g = 5"
    "(game_phase g, game_step g) = (''combat'', ''combat_damage'') \<longleftrightarrow> phase_index g = 7"
    "(game_phase g, game_step g) = (''ending'', ''cleanup'') \<longleftrightarrow> phase_index g = 11"
    using assms(1) i all [rule_format, of "nat (phase_index g)"] by (auto simp: step_coherent_def)
  have g2: "phase_index g2 = phase_index g" "active_player g2 = Some who"
    "players g2 = players g1" "turn_order g2 = turn_order g"
    "phase_index g \<noteq> 8 \<Longrightarrow> combat g2 = combat g"
    by (simp_all add: g2_def g1_def finish_combat_phase_def Let_def assms(2))
  have known: "map_of (players g2) who \<noteq> None"
    using assms(3) clear_mana_players [OF assms(5)] by (simp add: g2 g1_def)
  have act: "active g2 = Inr seats"
    using assms(4) active_same [of g2 g] clear_mana_players [OF assms(5)]
    by (simp add: g2 g1_def option.map_comp comp_def emptied_simps)
  have pools: "map_of (players g2) s = Some p \<Longrightarrow> \<forall>v \<in> snd ` set (mana_pool p). v = 0" for s p
    using clear_mana_players [OF assms(5), of _ s] emptied_simps(2) by (auto simp: g2 g1_def)
  define h where "h = (if phase_index g = 7 \<and> next_phase_index g = 7
      then g2\<lparr>combat := (combat g2)\<lparr>damage_step_index := 1\<rparr>\<rparr>
      else g2\<lparr>phase_index := next_phase_index g\<rparr>)"
  have len: "int (length TURN_STEPS) = 12" by (simp add: TURN_STEPS_def)
  have run: "advance_step host held g =
      (if phase_index g = 5 \<and> \<not> (had_attacking_creature (combat g2) \<or> attackers (combat g2) \<noteq> [])
       then enter_step host [] (g2\<lparr>phase_index := 8\<rparr>)
       else if phase_index g = 7 \<and> first_strike_step (combat g2) \<and> damage_step_index (combat g2) = 0
       then enter_step host held (g2\<lparr>combat := (combat g2)\<lparr>damage_step_index := 1\<rparr>\<rparr>)
       else if phase_index g2 + 1 \<ge> 12 then
         (if phase_index g = 11 then enter_step host [] (g2\<lparr>phase_index := 11\<rparr>)
          else on_cleanup host (g2\<lparr>phase_index := phase_index g2 + 1\<rparr>))
       else enter_step host held (g2\<lparr>phase_index := phase_index g2 + 1\<rparr>))"
    unfolding advance_step_def Let_def at g2_def g1_def len by (rule refl)
  have adv: "advance_step host held g = enter_step host (handed_on held g) h"
  proof -
    consider (cleanup) "phase_index g = 11"
      | (skip) "phase_index g = 5" "\<not> had_attacking_creature (combat g) \<and> attackers (combat g) = []"
      | (again) "phase_index g = 7" "first_strike_step (combat g) \<and> damage_step_index (combat g) = 0"
      | (plain) "phase_index g \<noteq> 11" "phase_index g = 5 \<Longrightarrow> had_attacking_creature (combat g) \<or> attackers (combat g) \<noteq> []"
          "phase_index g = 7 \<Longrightarrow> \<not> (first_strike_step (combat g) \<and> damage_step_index (combat g) = 0)"
      by blast
    then show ?thesis
    proof cases
      case cleanup
      then show ?thesis unfolding run h_def by (simp add: g2 next_phase_index_def handed_on_def)
    next
      case skip
      then show ?thesis unfolding run h_def by (simp add: g2 next_phase_index_def handed_on_def)
    next
      case again
      then show ?thesis unfolding run h_def by (simp add: g2 next_phase_index_def handed_on_def)
    next
      case plain
      have next_: "next_phase_index g = phase_index g + 1"
        using plain by (simp only: next_phase_index_def) auto
      then have "handed_on held g = held" using plain(1) by (auto simp: handed_on_def)
      moreover have "\<not> phase_index g + 1 \<ge> 12" using i plain(1) by simp
      moreover have "phase_index g = 5 \<Longrightarrow> combat g2 = combat g" "phase_index g = 7 \<Longrightarrow> combat g2 = combat g"
        using g2(5) by simp_all
      ultimately show ?thesis
        unfolding run h_def g2(1) next_ using plain by auto
    qed
  qed
  have "active h = active g2" by (rule active_cong) (simp_all add: h_def)
  with act known have h: "active h = Inr seats" "active_player h = Some who" "map_of (players h) who \<noteq> None"
    "0 \<le> phase_index h" "phase_index h < 12"
    using i by (simp_all add: h_def g2 next_phase_index_def)
  from enter_step_enters [OF h(4,5,2,3,1)] obtain g' where
    g': "enter_step host (handed_on held g) h = on_step host (handed_on held g) (game_phase g') (game_step g') who g'"
      "step_coherent g'" "phase_index g' = phase_index h" "players g' = players h"
      "priority_player g' = None" "priority_passes g' = []"
      "damage_step_index (combat g') = (if phase_index h = 4 then 0 else damage_step_index (combat h))"
    by blast
  have index: "phase_index g' = next_phase_index g" using g'(3) by (auto simp: h_def g2(1))
  have "game_phase g' = ''ending'' \<and> game_step g' = ''cleanup''" if "phase_index g = 11"
  proof -
    have "(game_phase g', game_step g') = TURN_STEPS ! 11"
      using g'(2) index that by (simp add: step_coherent_def next_phase_index_def)
    then show ?thesis using all [rule_format, of 11] by simp
  qed
  moreover have "turn_position g < turn_position g'" if "phase_index g \<noteq> 11"
    using that assms(6) i g' g2(1,5) by (auto simp: turn_position_def h_def next_phase_index_def)
  moreover have "\<forall>s p. map_of (players g') s = Some p \<longrightarrow> (\<forall>v \<in> snd ` set (mana_pool p). v = 0)"
    using pools g'(4) by (auto simp: h_def)
  ultimately show ?thesis using adv g'(1,2,5,6) index by (intro exI [of _ g']) simp
qed

section \<open>A concrete game\<close>

definition quiet_host :: step_host where
  "quiet_host = \<lparr>on_step = (\<lambda>_ _ _ _ g. Inr g), on_cleanup = Inr\<rparr>"

definition first_turn :: turn_entry where
  "first_turn = \<lparr>turn_id = ''N1'', turn_player = ''A'', extra = False, turn_source = None,
     turn_created_sequence = 0, skip_steps = []\<rparr>"

definition duel :: game_state where "duel = new_game [''A'', ''B'']"

lemma duel_facts: "active duel = Inr [''A'', ''B'']" "map_of (players duel) ''A'' \<noteq> None"
  "extra_turns duel = []" "distinct (map fst (players duel))"
  by code_simp+

lemma next_turn_choice_witness:
  "\<exists>g e. select_next_turn duel = Inr (g, e) \<and> seat_in_game duel (turn_player e)"
proof -
  obtain g e where "select_next_turn duel = Inr (g, e)"
    by (rule select_total [of duel "[''A'', ''B'']"]) (simp_all add: duel_facts)
  with next_turn_choice [OF this] show ?thesis by blast
qed

lemma extra_turns_lifo_witness:
  "\<exists>g1 e1 g2 e2 g3. schedule_extra_turn ''A'' None duel = Inr (g1, e1)
     \<and> schedule_extra_turn ''B'' None g1 = Inr (g2, e2) \<and> select_next_turn g2 = Inr (g3, e2)"
proof -
  have ready: "\<exists>g' e. schedule_extra_turn w z h = Inr (g', e) \<and> players g' = players h"
    if "seat_in_game h w" for w z h
    using that by (auto simp: schedule_extra_turn_def require_seat_def Let_def next_ref_def seat_in_game_def
        split: option.splits)
  have "seat_in_game duel ''A''" "seat_in_game duel ''B''" by code_simp+
  with ready [of duel "''A''" None] obtain g1 e1 where 1: "schedule_extra_turn ''A'' None duel = Inr (g1, e1)"
    "players g1 = players duel" by blast
  with seat_in_game_cong [OF 1(2)] \<open>seat_in_game duel ''B''\<close> ready [of g1 "''B''" None]
  obtain g2 e2 where 2: "schedule_extra_turn ''B'' None g1 = Inr (g2, e2)" by auto
  from extra_turns_lifo [OF 1(1) 2] 1(1) 2 show ?thesis by blast
qed

lemma turn_begins_witness:
  "(\<exists>g'. begin_turn quiet_host first_turn duel = Inr g' \<and> active_player g' = Some ''A'')
   \<and> begin_turn quiet_host (first_turn\<lparr>skip_steps := [''draw'']\<rparr>) duel = Inl SkippedSteps"
proof -
  have "turn_player first_turn = ''A''" "skip_steps first_turn = []" "seat_in_game duel ''A''"
    by code_simp+
  with turn_begins [of duel "[''A'', ''B'']" first_turn quiet_host] duel_facts
  have "\<exists>g'. begin_turn quiet_host first_turn duel = Inr g' \<and> active_player g' = Some ''A''"
    by (auto simp: turn_opened_def quiet_host_def)
  moreover have "begin_turn quiet_host (first_turn\<lparr>skip_steps := [''draw'']\<rparr>) duel = Inl SkippedSteps"
    using turn_begins [of duel "[''A'', ''B'']" "first_turn\<lparr>skip_steps := [''draw'']\<rparr>" quiet_host] duel_facts by simp
  ultimately show ?thesis by blast
qed

definition in_main :: game_state where
  "in_main = duel\<lparr>active_player := Some ''A'', phase_index := 3, game_phase := ''precombat_main'',
     game_step := ''main''\<rparr>"

definition at_cleanup :: game_state where
  "at_cleanup = duel\<lparr>active_player := Some ''A'', phase_index := 11, game_phase := ''ending'',
     game_step := ''cleanup''\<rparr>"

lemma advance_moves_on_witness:
  "(\<exists>g'. advance_step quiet_host [] in_main = Inr g' \<and> phase_index g' = 4 \<and> game_step g' = ''beginning_combat'')
   \<and> (\<exists>g'. advance_step quiet_host [] at_cleanup = Inr g' \<and> phase_index g' = 11 \<and> game_step g' = ''cleanup'')"
proof -
  have facts: "step_coherent in_main" "active_player in_main = Some ''A''"
    "map_of (players in_main) ''A'' \<noteq> None" "active in_main = Inr [''A'', ''B'']"
    "distinct (map fst (players in_main))" "damage_step_index (combat in_main) = 0"
    by code_simp+
  then obtain g' where "advance_step quiet_host [] in_main = Inr g'" "step_coherent g'"
    "phase_index g' = next_phase_index in_main"
    using advance_moves_on [of in_main "''A''" "[''A'', ''B'']" quiet_host "[]"] by (auto simp: quiet_host_def)
  moreover have "next_phase_index in_main = 4" by code_simp
  moreover have "TURN_STEPS ! 4 = (''combat'', ''beginning_combat'')" by code_simp
  ultimately have main: "\<exists>g'. advance_step quiet_host [] in_main = Inr g' \<and> phase_index g' = 4
      \<and> game_step g' = ''beginning_combat''" by (auto simp: step_coherent_def)
  have "step_coherent at_cleanup" "phase_index at_cleanup = 11" "active_player at_cleanup = Some ''A''"
    "map_of (players at_cleanup) ''A'' \<noteq> None" "active at_cleanup = Inr [''A'', ''B'']"
    "distinct (map fst (players at_cleanup))" "damage_step_index (combat at_cleanup) = 0"
    by code_simp+
  with advance_moves_on [of at_cleanup "''A''" "[''A'', ''B'']" quiet_host "[]"]
  have "\<exists>g'. advance_step quiet_host [] at_cleanup = Inr g' \<and> phase_index g' = 11 \<and> game_step g' = ''cleanup''"
    by (auto simp: quiet_host_def next_phase_index_def)
  with main show ?thesis by blast
qed

end
