(* ===== verification/Turn_Priority.thy ===== *)
theory Turn_Priority imports Turn_Steps
begin

text \<open>
  Priority and yields (\<open>quorune/turn_priority_model.py\<close>, \<open>quorune/turn_priority_owner.py\<close>): validated
  grants and passes of priority, the round of passes that ends in resolving the stack or advancing
  the step, and the yields that let a player pass automatically until something changes.  The
  engine behind the owner is the record \<open>priority_host\<close>, the callbacks of the Python protocol; the
  hash of signatures is one of them.
\<close>

section \<open>Plans\<close>

record grant_plan =
  grant_seat :: string
  grant_epoch :: int
  grant_cleanup :: bool

definition grant_init :: "grant_plan \<Rightarrow> engine_error + grant_plan" where
  "grant_init p =
     ebind (ensure (grant_seat p \<noteq> []) GrantValue) (\<lambda>_.
     ebind (ensure (grant_epoch p \<ge> 1) GrantValue) (\<lambda>_. Inr p))"

definition grant_to_dict :: "grant_plan \<Rightarrow> (string, pyval) dict" where
  "grant_to_dict p =
     [(''seat'', PStr (grant_seat p)), (''priority_epoch'', PInt (grant_epoch p)),
      (''cleanup_frame'', PBool (grant_cleanup p))]"

fun exact_bool :: "pyval \<Rightarrow> bool option" where
  "exact_bool (PBool b) = Some b"
| "exact_bool _ = None"

definition grant_from_dict :: "(string, pyval) dict \<Rightarrow> engine_error + grant_plan" where
  "grant_from_dict d =
     ebind (ensure (fst ` set d = {''seat'', ''priority_epoch'', ''cleanup_frame''}) PlanShape) (\<lambda>_.
     ebind (option_raise GrantValue (nonempty_str (dict_get PNone d ''seat''))) (\<lambda>s.
     ebind (option_raise GrantValue (exact_int (dict_get PNone d ''priority_epoch''))) (\<lambda>n.
     ebind (option_raise GrantValue (exact_bool (dict_get PNone d ''cleanup_frame''))) (\<lambda>c.
     grant_init \<lparr>grant_seat = s, grant_epoch = n, grant_cleanup = c\<rparr>))))"

record pass_plan =
  pass_seat :: string
  pass_passes :: "string list"
  pass_next :: "string option"
  round_complete :: bool
  stack_waiting :: bool

definition pass_init :: "pass_plan \<Rightarrow> engine_error + pass_plan" where
  "pass_init p =
     ebind (ensure (pass_seat p \<noteq> []) PassValue) (\<lambda>_.
     ebind (ensure (list_all (\<lambda>s. s \<noteq> []) (pass_passes p)) PassValue) (\<lambda>_.
     ebind (ensure (distinct (pass_passes p)) PassValue) (\<lambda>_.
     ebind (ensure (pass_next p \<noteq> Some []) PassValue) (\<lambda>_.
     ebind (ensure (round_complete p = (pass_next p = None)) PassValue) (\<lambda>_. Inr p)))))"

definition pass_to_dict :: "pass_plan \<Rightarrow> (string, pyval) dict" where
  "pass_to_dict p =
     [(''seat'', PStr (pass_seat p)), (''passes'', PList (map PStr (pass_passes p))),
      (''next_seat'', opt_str (pass_next p)), (''round_complete'', PBool (round_complete p)),
      (''stack_waiting'', PBool (stack_waiting p))]"

fun read_optional :: "pyval \<Rightarrow> engine_error + string option" where
  "read_optional PNone = Inr None"
| "read_optional (PStr s) = (if s = [] then Inl PassValue else Inr (Some s))"
| "read_optional _ = Inl PassValue"

fun read_strings :: "pyval \<Rightarrow> engine_error + string list" where
  "read_strings (PList vs) = emap (\<lambda>v. option_raise PassValue (nonempty_str v)) vs"
| "read_strings _ = Inl PlanShape"

definition pass_from_dict :: "(string, pyval) dict \<Rightarrow> engine_error + pass_plan" where
  "pass_from_dict d =
     ebind (ensure (fst ` set d = {''seat'', ''passes'', ''next_seat'', ''round_complete'', ''stack_waiting''})
              PlanShape) (\<lambda>_.
     ebind (read_strings (dict_get PNone d ''passes'')) (\<lambda>passes.
     ebind (option_raise PassValue (nonempty_str (dict_get PNone d ''seat''))) (\<lambda>s.
     ebind (read_optional (dict_get PNone d ''next_seat'')) (\<lambda>nxt.
     ebind (option_raise PassValue (exact_bool (dict_get PNone d ''round_complete''))) (\<lambda>complete.
     ebind (option_raise PassValue (exact_bool (dict_get PNone d ''stack_waiting''))) (\<lambda>waiting.
     pass_init \<lparr>pass_seat = s, pass_passes = passes, pass_next = nxt, round_complete = complete,
                stack_waiting = waiting\<rparr>))))))"

section \<open>The host\<close>

type_synonym stack_fact =
  "string \<times> string \<times> string \<times> string option \<times> string option \<times> string option \<times> pyval list
     \<times> string list \<times> int option"

record priority_host =
  stabilize :: "game_state \<Rightarrow> engine_error + game_state \<times> bool"
  prepare_stack_resolution :: "game_state \<Rightarrow> engine_error + game_state"
  host_advance_step :: "game_state \<Rightarrow> engine_error + game_state"
  start_delayed_batch :: "delayed_trigger list \<Rightarrow> game_state \<Rightarrow> engine_error + game_state"
  action_hints :: "game_state \<Rightarrow> string \<Rightarrow> (string, pyval) dict"
  meaningful_signature :: "game_state \<Rightarrow> string \<Rightarrow> string"
  hash_stack :: "stack_fact list \<Rightarrow> string"

section \<open>Granting priority\<close>

definition prepare_priority_grant ::
  "game_state \<Rightarrow> string option \<Rightarrow> bool \<Rightarrow> engine_error + grant_plan option" where
  "prepare_priority_grant g who in_cleanup =
     ebind (active g) (\<lambda>seats.
     if seats = [] then Inr None
     else
       ebind (if \<exists>s \<in> set seats. who = Some s then Inr (the who)
              else
                let anchor = (case who of
                    Some s \<Rightarrow> if s \<noteq> [] then s
                              else (case active_player g of Some a \<Rightarrow> if a \<noteq> [] then a else hd seats
                                    | None \<Rightarrow> hd seats)
                  | None \<Rightarrow> (case active_player g of Some a \<Rightarrow> if a \<noteq> [] then a else hd seats
                             | None \<Rightarrow> hd seats)) in
                next_active_after g anchor) (\<lambda>resolved.
       ebind (grant_init \<lparr>grant_seat = resolved, grant_epoch = priority_epoch g + 1,
                         grant_cleanup = in_cleanup\<rparr>) (\<lambda>p. Inr (Some p))))"

definition is_active_frame :: "pyval \<Rightarrow> bool" where
  "is_active_frame v \<longleftrightarrow>
     dict_get PNone (as_dict v) ''kind'' = PStr ''cleanup_exception_frame''
     \<and> truthy (dict_get (PBool False) (as_dict v) ''active'')"

fun set_first_frame :: "string \<Rightarrow> pyval list \<Rightarrow> pyval list" where
  "set_first_frame key [] = []"
| "set_first_frame key (v # vs) =
     (if is_active_frame v then PDict (AList.update key (PBool True) (as_dict v)) # vs
      else v # set_first_frame key vs)"

definition flag_cleanup_frame :: "string \<Rightarrow> game_state \<Rightarrow> game_state" where
  "flag_cleanup_frame key g =
     g\<lparr>game_annotations := rev (set_first_frame key (rev (game_annotations g)))\<rparr>"

definition commit_priority_grant :: "grant_plan \<Rightarrow> game_state \<Rightarrow> engine_error + game_state" where
  "commit_priority_grant p g =
     ebind (active g) (\<lambda>seats.
     ebind (ensure (grant_seat p \<in> set seats) GrantSeatInactive) (\<lambda>_.
     ebind (ensure (grant_epoch p = priority_epoch g + 1) GrantPlanStale) (\<lambda>_.
     let g1 = g\<lparr>priority_player := Some (grant_seat p), priority_passes := [],
                priority_epoch := grant_epoch p\<rparr> in
     if grant_cleanup p then
       (if active_cleanup_frame g1 = None then Inl CleanupFrameGone
        else Inr (flag_cleanup_frame ''priority_granted'' g1))
     else Inr g1)))"

definition delayed_ids :: "(string, pyval) dict \<Rightarrow> string list" where
  "delayed_ids frame =
     (case dict_get (PList []) frame ''delayed_trigger_ids'' of
        PList vs \<Rightarrow> map py_text vs
      | _ \<Rightarrow> [])"

definition grant_priority :: "priority_host \<Rightarrow> string option \<Rightarrow> game_state \<Rightarrow> engine_error + game_state" where
  "grant_priority host who g =
     ebind (stabilize host g) (\<lambda>(g1, waiting).
     if waiting then Inr g1
     else ebind (active g1) (\<lambda>seats.
       if seats = [] then Inr g1
       else
         let frame = active_cleanup_frame g1;
             queue = (case frame of
                 None \<Rightarrow> False
               | Some f \<Rightarrow> \<not> truthy (dict_get (PBool False) f ''delayed_triggers_queued''));
             g2 = (if queue then flag_cleanup_frame ''delayed_triggers_queued'' g1 else g1);
             delayed = (case frame of
                 None \<Rightarrow> []
               | Some f \<Rightarrow> filter (\<lambda>t. trigger_id t \<in> set (delayed_ids f)) (delayed_triggers g2)) in
         if queue \<and> delayed \<noteq> [] then start_delayed_batch host delayed g2
         else ebind (prepare_priority_grant g2 who (frame \<noteq> None)) (\<lambda>plan.
           case plan of None \<Rightarrow> Inr g2 | Some p \<Rightarrow> commit_priority_grant p g2)))"

section \<open>Passing priority\<close>

definition prepare_priority_pass :: "game_state \<Rightarrow> string \<Rightarrow> engine_error + pass_plan" where
  "prepare_priority_pass g who =
     ebind (ensure (priority_player g = Some who) (NoPriority who)) (\<lambda>_.
     let passes = priority_passes g @ [who] in
     ebind (ensure (distinct passes) DuplicatePasses) (\<lambda>_.
     ebind (active g) (\<lambda>seats.
     let complete = (length passes \<ge> length seats) in
     ebind (if complete then Inr None else ebind (next_active_after g who) (\<lambda>s. Inr (Some s))) (\<lambda>nxt.
     pass_init \<lparr>pass_seat = who, pass_passes = passes, pass_next = nxt, round_complete = complete,
                stack_waiting = (stack_items g \<noteq> [])\<rparr>))))"

definition commit_priority_pass ::
  "priority_host \<Rightarrow> pass_plan \<Rightarrow> bool \<Rightarrow> game_state \<Rightarrow> engine_error + game_state" where
  "commit_priority_pass host p automatic g =
     ebind (ensure (priority_player g = Some (pass_seat p)) PassPlanStale) (\<lambda>_.
     let g1 = g\<lparr>priority_passes := pass_passes p\<rparr>;
         g2 = (if automatic then g1
               else log_event (new_entry (Some (pass_seat p)) ''priority.pass''
                      (pass_seat p @ '' passed priority.'') 0) g1) in
     if round_complete p then
       (let g3 = g2\<lparr>priority_player := None, priority_passes := []\<rparr> in
        if stack_waiting p then prepare_stack_resolution host g3 else host_advance_step host g3)
     else Inr (g2\<lparr>priority_player := pass_next p\<rparr>))"

definition pass_priority :: "priority_host \<Rightarrow> string \<Rightarrow> bool \<Rightarrow> game_state \<Rightarrow> engine_error + game_state" where
  "pass_priority host who automatic g =
     ebind (prepare_priority_pass g who) (\<lambda>p. commit_priority_pass host p automatic g)"

definition complete_special_action :: "priority_host \<Rightarrow> string \<Rightarrow> game_state \<Rightarrow> engine_error + game_state" where
  "complete_special_action host who g =
     ebind (active g) (\<lambda>seats.
     ebind (ensure (who \<in> set seats) SpecialSeatInactive) (\<lambda>_.
     ebind (stabilize host (g\<lparr>priority_player := None, priority_passes := []\<rparr>)) (\<lambda>(g1, waiting).
     Inr (if waiting then g1 else g1\<lparr>priority_player := Some who\<rparr>))))"

section \<open>Yields\<close>

definition YIELD_MODES :: "string list" where
  "YIELD_MODES = [''until_public_change'', ''until_my_turn'', ''auto_if_no_response'']"

definition stack_signature_of :: "priority_host \<Rightarrow> game_state \<Rightarrow> string" where
  "stack_signature_of host g =
     hash_stack host (map (\<lambda>i. (stack_ref i, stack_kind i, stack_controller i, source_object_id i,
       card_object_id i, semantic_key i, targets i, modes i, x_value i)) (stack_items g))"

definition put_policy :: "string \<Rightarrow> yield_policy \<Rightarrow> game_state \<Rightarrow> engine_error + game_state" where
  "put_policy who policy g =
     ebind (option_raise (UnknownSeat who) (map_of (players g) who)) (\<lambda>p.
     Inr (g\<lparr>players := AList.update who (p\<lparr>player_yield := policy\<rparr>) (players g)\<rparr>))"

definition new_yield :: "priority_host \<Rightarrow> string \<Rightarrow> string \<Rightarrow> player_state \<Rightarrow> game_state \<Rightarrow> yield_policy" where
  "new_yield host who mode p g =
     default_yield_policy\<lparr>
       yield_mode := mode, created_revision := revision g, created_event_sequence := event_sequence g,
       created_stack_change_epoch := yield_change_epoch g ''stack'' None,
       created_public_change_epoch := yield_change_epoch g ''public'' None,
       created_draw_epoch := yield_change_epoch g ''draw'' (Some who),
       created_action_change_epoch := yield_change_epoch g ''action'' (Some who),
       created_turn_sequence := turn_sequence g, created_priority_epoch := priority_epoch g,
       created_active_player := active_player g, created_phase := Some (game_phase g),
       created_step := Some (game_step g),
       created_land_plays_remaining := Some (land_plays_remaining p),
       action_signature := Some (meaningful_signature host g who),
       stack_signature := Some (stack_signature_of host g),
       yield_note := ''Pilot-issued priority yield''\<rparr>"

definition set_yield ::
  "priority_host \<Rightarrow> string \<Rightarrow> string option \<Rightarrow> game_state \<Rightarrow> engine_error + game_state" where
  "set_yield host who requested g =
     (let mode = (case requested of Some m \<Rightarrow> if m \<noteq> [] then m else ''none'' | None \<Rightarrow> ''none'') in
      if mode = ''none'' then put_policy who default_yield_policy g
      else
        ebind (ensure (mode \<in> set YIELD_MODES) (UnknownYieldMode mode)) (\<lambda>_.
        ebind (option_raise (UnknownSeat who) (map_of (players g) who)) (\<lambda>p.
        put_policy who (new_yield host who mode p g) g)))"

definition signature_has_actions :: "priority_host \<Rightarrow> game_state \<Rightarrow> string \<Rightarrow> bool" where
  "signature_has_actions host g who =
     list_ex (\<lambda>k. truthy (dict_get PNone (action_hints host g who) k)) [''cast'', ''lands'', ''abilities'']"

definition own_turn_moved :: "game_state \<Rightarrow> string \<Rightarrow> yield_policy \<Rightarrow> bool" where
  "own_turn_moved g who y \<longleftrightarrow> active_player g = Some who \<and>
     (created_active_player y \<noteq> Some who \<or> created_turn_sequence y \<noteq> turn_sequence g
      \<or> created_priority_epoch y \<noteq> priority_epoch g
      \<or> game_phase g \<in> {''precombat_main'', ''postcombat_main''}
        \<and> (created_phase y \<noteq> Some (game_phase g) \<or> created_step y \<noteq> Some ''main''))"

definition yield_stop_reason ::
  "priority_host \<Rightarrow> game_state \<Rightarrow> string \<Rightarrow> string option \<Rightarrow> engine_error + string option" where
  "yield_stop_reason host g who signature =
     ebind (option_raise (UnknownSeat who) (map_of (players g) who)) (\<lambda>p.
     let y = player_yield p in
     Inr (if yield_mode y = ''none'' then Some ''none''
          else if stop_phase y \<noteq> None \<and> stop_phase y = Some (game_phase g)
                  \<and> (stop_step y = None \<or> stop_step y = Some (game_step g)) then Some ''phase''
          else if own_turn_moved g who y then Some ''phase''
          else if yield_mode y = ''until_my_turn'' \<and> active_player g = Some who then Some ''phase''
          else if stack_signature y \<noteq> Some (stack_signature_of host g) then Some ''stack''
          else if created_stack_change_epoch y \<noteq> yield_change_epoch g ''stack'' None then Some ''stack''
          else if created_draw_epoch y \<noteq> yield_change_epoch g ''draw'' (Some who) then Some ''draw''
          else if created_action_change_epoch y \<noteq> yield_change_epoch g ''action'' (Some who)
          then Some ''action_change''
          else if created_public_change_epoch y \<noteq> yield_change_epoch g ''public'' None
          then Some ''public_change''
          else if created_land_plays_remaining y \<noteq> Some (land_plays_remaining p)
          then Some ''action_change''
          else
            let current = (case signature of
                Some s \<Rightarrow> if s \<noteq> [] then s else meaningful_signature host g who
              | None \<Rightarrow> meaningful_signature host g who) in
            if action_signature y \<noteq> Some current then Some ''action_change''
            else if yield_mode y = ''auto_if_no_response'' \<and> signature_has_actions host g who
            then Some ''action_change''
            else None))"

definition drop_yield :: "string \<Rightarrow> string option \<Rightarrow> game_state \<Rightarrow> engine_error + game_state" where
  "drop_yield who telemetry g =
     ebind (option_raise (UnknownSeat who) (map_of (players g) who)) (\<lambda>p.
     let p1 = p\<lparr>player_yield := default_yield_policy\<rparr>;
         p2 = (case telemetry of None \<Rightarrow> p1 | Some key \<Rightarrow> increment_optimization key p1) in
     Inr (g\<lparr>players := AList.update who p2 (players g)\<rparr>))"

definition can_auto_pass ::
  "priority_host \<Rightarrow> string \<Rightarrow> string \<Rightarrow> bool \<Rightarrow> game_state
     \<Rightarrow> engine_error + game_state \<times> bool \<times> string option" where
  "can_auto_pass host who signature meaningful g =
     ebind (option_raise (UnknownSeat who) (map_of (players g) who)) (\<lambda>p.
     let y = player_yield p in
     if yield_mode y = ''none'' then Inr (g, False, None)
     else
       ebind (yield_stop_reason host g who (Some signature)) (\<lambda>reason.
       case reason of
         Some r \<Rightarrow>
           ebind (drop_yield who (if r \<noteq> ''none'' then Some (''yields_invalidated_by_'' @ r) else None) g)
             (\<lambda>g1. Inr (g1, False, Some r))
       | None \<Rightarrow>
           if yield_mode y = ''auto_if_no_response'' \<and> meaningful then
             ebind (drop_yield who (Some ''yields_invalidated_by_action_change'') g)
               (\<lambda>g1. Inr (g1, False, Some ''action_change''))
           else Inr (g, True, None)))"

definition manual_active_main_phase_window :: "game_state \<Rightarrow> string \<Rightarrow> bool" where
  "manual_active_main_phase_window g who \<longleftrightarrow>
     manual_active_main_phase (config g) \<and> active_player g = Some who \<and> stack_items g = []
     \<and> (game_phase g, game_step g) \<in> {(''precombat_main'', ''main''), (''postcombat_main'', ''main'')}"

section \<open>Plans survive serialisation\<close>

lemma grant_plan_roundtrip: "grant_init p = Inr p \<Longrightarrow> grant_from_dict (grant_to_dict p) = Inr p"
  by (cases p) (auto simp: grant_init_def grant_to_dict_def grant_from_dict_def dict_get_def ebind_ensure_Inr)

lemma pass_plan_roundtrip:
  assumes "pass_init p = Inr p"
  shows "pass_from_dict (pass_to_dict p) = Inr p"
proof -
  have ok: "pass_seat p \<noteq> []" "\<forall>s \<in> set (pass_passes p). s \<noteq> []" "pass_next p \<noteq> Some []"
    using assms by (auto simp: pass_init_def ebind_ensure_Inr list_all_iff)
  have "emap (\<lambda>v. option_raise PassValue (nonempty_str v)) (map PStr (pass_passes p))
      = (Inr (pass_passes p) :: engine_error + _)"
    using ok(2) by (intro emap_inverse) simp
  moreover have "read_optional (opt_str (pass_next p)) = Inr (pass_next p)"
    using ok(3) by (cases "pass_next p") (simp_all add: opt_str_def)
  moreover have "pass_init \<lparr>pass_seat = pass_seat p, pass_passes = pass_passes p, pass_next = pass_next p,
      round_complete = round_complete p, stack_waiting = stack_waiting p\<rparr> = Inr p"
    using assms by (cases p) simp
  ultimately show ?thesis
    using ok(1) by (simp add: pass_to_dict_def pass_from_dict_def dict_get_def insert_commute)
qed

section \<open>Granting and passing\<close>

lemma seats_in_game: "active g = Inr seats \<Longrightarrow> s \<in> set seats \<longleftrightarrow> seat_in_game g s \<and> s \<in> set (turn_order g)"
  using active_eq [of g seats] by auto

text \<open>
  Outside cleanup a prepared grant can be committed, once: it gives priority to a player in the
  game (to the requested one whenever that player is in the game), clears the passes of the last
  round and opens the next epoch, and committing the same plan again is refused as stale.
\<close>

theorem grant_gives_priority:
  assumes "prepare_priority_grant g who False = Inr (Some p)"
  shows "\<exists>g'. commit_priority_grant p g = Inr g' \<and> priority_player g' = Some (grant_seat p)
    \<and> seat_in_game g (grant_seat p) \<and> (case who of
         Some s \<Rightarrow> seat_in_game g s \<and> s \<in> set (turn_order g) \<longrightarrow> grant_seat p = s | None \<Rightarrow> True)
    \<and> priority_passes g' = [] \<and> priority_epoch g' = priority_epoch g + 1
    \<and> players g' = players g \<and> stack_items g' = stack_items g
    \<and> commit_priority_grant p g' = Inl GrantPlanStale"
proof -
  obtain seats resolved where seats: "active g = Inr seats" "seats \<noteq> []"
    and p: "p = \<lparr>grant_seat = resolved, grant_epoch = priority_epoch g + 1, grant_cleanup = False\<rparr>"
    and r: "(\<exists>s \<in> set seats. who = Some s) \<and> resolved = the who
      \<or> \<not> (\<exists>s \<in> set seats. who = Some s) \<and> (\<exists>a. next_active_after g a = Inr resolved)"
    using assms by (auto simp: prepare_priority_grant_def grant_init_def ebind_eq_Inr Let_def split: if_splits)
  have res: "resolved \<in> set seats"
    using r next_active_in_game seats_in_game [OF seats(1)] by auto
  have same: "active (g\<lparr>priority_player := x, priority_passes := y, priority_epoch := z\<rparr>) = Inr seats" for x y z
    using seats(1) active_cong [of "g\<lparr>priority_player := x, priority_passes := y, priority_epoch := z\<rparr>" g] by simp
  have "commit_priority_grant p g = Inr (g\<lparr>priority_player := Some resolved, priority_passes := [],
      priority_epoch := priority_epoch g + 1\<rparr>)"
    using seats res by (simp add: commit_priority_grant_def p)
  moreover have "commit_priority_grant p (g\<lparr>priority_player := Some resolved, priority_passes := [],
      priority_epoch := priority_epoch g + 1\<rparr>) = Inl GrantPlanStale"
    using same res by (simp add: commit_priority_grant_def p ensure_def)
  moreover have "case who of Some s \<Rightarrow> seat_in_game g s \<and> s \<in> set (turn_order g) \<longrightarrow> resolved = s | None \<Rightarrow> True"
    using r seats_in_game [OF seats(1)] by (auto split: option.splits)
  ultimately show ?thesis using res seats_in_game [OF seats(1)] unfolding p
    by (intro exI [of _ "g\<lparr>priority_player := Some resolved, priority_passes := [],
        priority_epoch := priority_epoch g + 1\<rparr>"]) (cases who; simp)
qed

lemma pass_prepared:
  assumes "active g = Inr seats" and "distinct (turn_order g)" and "[] \<notin> set (turn_order g)"
    and round: "filter (seat_in_game g) (rotate k (turn_order g)) = as @ x # bs"
    and "priority_player g = Some x" and "priority_passes g = as"
  shows "prepare_priority_pass g x = Inr \<lparr>pass_seat = x, pass_passes = as @ [x],
    pass_next = (if bs = [] then None else Some (hd bs)), round_complete = (bs = []),
    stack_waiting = (stack_items g \<noteq> [])\<rparr>"
proof -
  have d: "distinct (as @ x # bs)" using assms(2) round by (metis distinct_filter distinct_rotate)
  have len: "length seats = length (as @ x # bs)"
    using active_eq [OF assms(1)] assms(2) round
    by (metis distinct_card distinct_filter distinct_rotate set_filter set_rotate)
  have "set (as @ x # bs) \<subseteq> set (turn_order g)" using arg_cong [OF round, of set] by auto
  then have ne: "\<forall>s \<in> set (as @ x # bs). s \<noteq> []" using assms(3) by blast
  have nxt: "next_active_after g x = Inr (hd (bs @ as @ [x]))"
    by (rule next_active_rotation [OF assms(1,2) round])
  show ?thesis
    using assms(1,5,6) d ne len nxt
    by (cases bs) (auto simp: prepare_priority_pass_def pass_init_def list_all_iff)
qed

lemma pass_step:
  assumes "active g = Inr seats" and "distinct (turn_order g)" and "[] \<notin> set (turn_order g)"
    and round: "filter (seat_in_game g) (rotate k (turn_order g)) = as @ x # bs"
    and "priority_player g = Some x" and "priority_passes g = as"
  shows "\<exists>h. pass_priority host x automatic g =
      (if bs = [] then (if stack_items g = [] then host_advance_step host h else prepare_stack_resolution host h)
       else Inr h)
    \<and> priority_player h = (if bs = [] then None else Some (hd bs))
    \<and> priority_passes h = (if bs = [] then [] else as @ [x])
    \<and> players h = players g \<and> turn_order h = turn_order g \<and> stack_items h = stack_items g"
proof -
  define p where "p = \<lparr>pass_seat = x, pass_passes = as @ [x],
    pass_next = (if bs = [] then None else Some (hd bs)), round_complete = (bs = []),
    stack_waiting = (stack_items g \<noteq> [])\<rparr>"
  have prep: "prepare_priority_pass g x = Inr p"
    unfolding p_def by (rule pass_prepared [OF assms])
  define g2 where "g2 = (if automatic then g\<lparr>priority_passes := as @ [x]\<rparr>
    else log_event (new_entry (Some x) ''priority.pass'' (x @ '' passed priority.'') 0)
      (g\<lparr>priority_passes := as @ [x]\<rparr>))"
  have "pass_priority host x automatic g = (if bs = [] then
      (let g3 = g2\<lparr>priority_player := None, priority_passes := []\<rparr> in
       if stack_items g = [] then host_advance_step host g3 else prepare_stack_resolution host g3)
      else Inr (g2\<lparr>priority_player := Some (hd bs)\<rparr>))"
    unfolding pass_priority_def prep ebind_simps
    by (simp add: commit_priority_pass_def p_def assms(5) Let_def g2_def)
  moreover have "priority_passes g2 = as @ [x]" "players g2 = players g" "turn_order g2 = turn_order g"
    "stack_items g2 = stack_items g"
    by (simp_all add: g2_def)
  ultimately show ?thesis
    by (intro exI [of _ "if bs = [] then g2\<lparr>priority_player := None, priority_passes := []\<rparr>
        else g2\<lparr>priority_player := Some (hd bs)\<rparr>"]) simp
qed

definition pass_all :: "priority_host \<Rightarrow> bool \<Rightarrow> game_state \<Rightarrow> string list \<Rightarrow> engine_error + game_state" where
  "pass_all host automatic g xs = efold (\<lambda>h s. pass_priority host s automatic h) g xs"

lemma pass_prefix:
  assumes "active g = Inr seats" and "distinct (turn_order g)" and "[] \<notin> set (turn_order g)"
    and "filter (seat_in_game g) (rotate k (turn_order g)) = as @ bs" and "bs \<noteq> []"
    and "priority_player g = Some (hd (as @ bs))" and "priority_passes g = []"
  shows "\<exists>h. pass_all host automatic g as = Inr h \<and> priority_player h = Some (hd bs)
    \<and> priority_passes h = as \<and> players h = players g \<and> turn_order h = turn_order g
    \<and> stack_items h = stack_items g"
  using assms(4-6)
proof (induction as arbitrary: bs rule: rev_induct)
  case Nil
  then show ?case using assms(7) by (simp add: pass_all_def)
next
  case (snoc x as)
  from snoc.IH [of "x # bs"] snoc.prems obtain h where
    h: "pass_all host automatic g as = Inr h" "priority_player h = Some x" "priority_passes h = as"
      "players h = players g" "turn_order h = turn_order g" "stack_items h = stack_items g"
    by (cases as) auto
  have "active h = Inr seats" using assms(1) active_cong [OF h(4,5)] by simp
  moreover have "filter (seat_in_game h) (rotate k (turn_order h)) = as @ x # bs"
    using snoc.prems(1) h seat_in_game_cong [OF h(4)] by simp
  ultimately obtain h' where "pass_priority host x automatic h = Inr h'" "priority_player h' = Some (hd bs)"
    "priority_passes h' = as @ [x]" "players h' = players h" "turn_order h' = turn_order h"
    "stack_items h' = stack_items h"
    using pass_step [of h seats k as x bs host automatic] assms(2,3) h snoc.prems(2) by auto
  with h show ?case by (simp add: pass_all_def efold_append)
qed

text \<open>
  C6. A round of passes: when the player with priority and then each other player in the game passes,
  in turn order, priority moves from one to the next and everybody's pass is recorded; the pass of the
  last one, and no earlier one, ends the round, takes priority from everybody and resolves the top of
  the stack, or advances the step when the stack is empty. Nobody else can pass in between.
\<close>

theorem priority_round:
  assumes "active g = Inr seats" and "distinct (turn_order g)" and "[] \<notin> set (turn_order g)"
    and "filter (seat_in_game g) (rotate k (turn_order g)) = as @ bs" and "as @ bs \<noteq> []"
    and "priority_player g = Some (hd (as @ bs))" and "priority_passes g = []"
  shows "\<exists>h. priority_passes h = (if bs = [] then [] else as)
    \<and> priority_player h = (if bs = [] then None else Some (hd bs))
    \<and> players h = players g \<and> stack_items h = stack_items g
    \<and> pass_all host automatic g as =
        (if bs = [] then (if stack_items g = [] then host_advance_step host h else prepare_stack_resolution host h)
         else Inr h)
    \<and> (\<forall>s. Some s \<noteq> priority_player h \<longrightarrow> pass_priority host s automatic h = Inl (NoPriority s))"
proof -
  have other: "\<forall>s. Some s \<noteq> priority_player h \<longrightarrow> pass_priority host s automatic h = Inl (NoPriority s)" for h
    by (auto simp: pass_priority_def prepare_priority_pass_def ensure_def)
  show ?thesis
  proof (cases "bs = []")
    case False
    from pass_prefix [OF assms(1-4) False assms(6,7), of host automatic] other False show ?thesis by auto
  next
    case True
    then obtain cs x where as: "as = cs @ [x]" using assms(5) by (metis append_butlast_last_id append_Nil2)
    have split: "filter (seat_in_game g) (rotate k (turn_order g)) = cs @ [x]" using assms(4) True as by simp
    have start: "priority_player g = Some (hd (cs @ [x]))" using assms(6) True as by simp
    from pass_prefix [OF assms(1-3) split _ start assms(7), of host automatic] obtain h where
      h: "pass_all host automatic g cs = Inr h" "priority_player h = Some x" "priority_passes h = cs"
        "players h = players g" "turn_order h = turn_order g" "stack_items h = stack_items g"
      by auto
    have "active h = Inr seats" using assms(1) active_cong [OF h(4,5)] by simp
    moreover have "filter (seat_in_game h) (rotate k (turn_order h)) = cs @ x # []"
      using split h seat_in_game_cong [OF h(4)] by simp
    ultimately obtain h' where "pass_priority host x automatic h =
        (if stack_items h = [] then host_advance_step host h' else prepare_stack_resolution host h')"
      "priority_player h' = None" "priority_passes h' = []" "players h' = players h" "stack_items h' = stack_items h"
      using pass_step [of h seats k cs x "[]" host automatic] assms(2,3) h by auto
    with h True other as show ?thesis
      by (intro exI [of _ h']) (simp add: pass_all_def efold_append)
  qed
qed

section \<open>Yields stop at changes\<close>

lemma epoch_increment:
  "yield_change_epoch (increment_yield_change_epoch k w g) k' w'
     = yield_change_epoch g k' w' + (if yield_key k w = yield_key k' w' then 1 else 0)"
  by (simp add: yield_change_epoch_def increment_yield_change_epoch_def)

lemma epoch_bump:
  "yield_change_epoch (bump_seats kind seats g) k w \<ge> yield_change_epoch g k w
   \<and> (s \<in> set seats \<longrightarrow> yield_change_epoch (bump_seats kind seats g) kind (Some s)
        > yield_change_epoch g kind (Some s))"
proof (induction seats arbitrary: g)
  case (Cons t seats)
  let ?g = "increment_yield_change_epoch kind (Some t) g"
  have step: "bump_seats kind (t # seats) g = bump_seats kind seats ?g" by (simp add: bump_seats_def)
  have up: "yield_change_epoch ?g k w \<ge> yield_change_epoch g k w" for k w by (simp add: epoch_increment)
  have more: "yield_change_epoch (bump_seats kind seats ?g) k w \<ge> yield_change_epoch ?g k w" for k w
  proof -
    have "yield_change_epoch (bump_seats kind xs h) k w \<ge> yield_change_epoch h k w" for xs h
    proof (induction xs arbitrary: h)
      case (Cons x xs)
      from Cons [of "increment_yield_change_epoch kind (Some x) h"] show ?case
        by (auto simp: bump_seats_def epoch_increment split: if_splits)
    qed (simp add: bump_seats_def)
    then show ?thesis .
  qed
  have "s \<in> set (t # seats) \<Longrightarrow> yield_change_epoch (bump_seats kind seats ?g) kind (Some s)
      > yield_change_epoch g kind (Some s)"
  proof (cases "s = t")
    case True
    have "yield_change_epoch ?g kind (Some s) = yield_change_epoch g kind (Some s) + 1"
      using True by (simp add: epoch_increment)
    with more [of kind "Some s"] show ?thesis by linarith
  next
    case False
    assume "s \<in> set (t # seats)"
    with False Cons [of ?g] up [of kind "Some s"] show ?thesis by fastforce
  qed
  with step more [of k w] up [of k w] show ?case by (metis order_trans)
qed (simp add: bump_seats_def)

text \<open>The events that end a yield of \<open>who\<close>, whatever else happens.\<close>

definition disturbs :: "game_state \<Rightarrow> string \<Rightarrow> log_entry \<Rightarrow> bool" where
  "disturbs g who l \<longleftrightarrow>
     log_code l \<in> set STACK_CODES \<union> set PUBLIC_CODES \<union> {''zone.move'', ''permanent.untap''}
     \<or> log_code l = ''card.draw.private'' \<and> who \<in> fst ` set (players g) \<and> who \<in> set (log_visibility l)"

definition epoch_total :: "game_state \<Rightarrow> string \<Rightarrow> int" where
  "epoch_total g who = yield_change_epoch g ''stack'' None + yield_change_epoch g ''public'' None
     + yield_change_epoch g ''draw'' (Some who)"

lemma epoch_log:
  "epoch_total (log_event l g) who \<ge> epoch_total g who
   \<and> (disturbs g who l \<longrightarrow> epoch_total (log_event l g) who > epoch_total g who)"
proof -
  obtain e h where log: "log_event l g = update_yield_change_epochs e h"
    and h: "ref_counters h = ref_counters g" "players h = players g" and code: "event_code e = log_code l"
    and vis: "log_visibility l \<noteq> [] \<Longrightarrow> event_visibility e = log_visibility l"
    by (auto simp: log_event_def Let_def)
  have same: "yield_change_epoch h k w = yield_change_epoch g k w" for k w
    by (simp add: yield_change_epoch_def h)
  note up = epoch_bump [THEN conjunct1]
  have public_step: "\<exists>h1. log_event l g = increment_yield_change_epoch ''public'' None h1
      \<and> (\<forall>k w. yield_change_epoch h1 k w \<ge> yield_change_epoch h k w)"
    if "log_code l \<notin> set STACK_CODES" "log_code l \<noteq> ''card.draw.private''"
    "log_code l \<in> set PUBLIC_CODES \<union> {''zone.move'', ''permanent.untap''}"
  proof (cases "log_code l = ''zone.move'' \<or> log_code l = ''permanent.untap''")
    case True
    let ?seats = "filter (\<lambda>s. s \<in> fst ` set (players h)) (changed_players e)"
    have "log_event l g = increment_yield_change_epoch ''public'' None (bump_seats ''action'' ?seats h)
        \<or> log_event l g = increment_yield_change_epoch ''public'' None h"
      using True that(1,2) unfolding log update_yield_change_epochs_def code by auto
    then show ?thesis using up by blast
  next
    case False
    then have "log_event l g = increment_yield_change_epoch ''public'' None h"
      using that(1-3) unfolding log update_yield_change_epochs_def code by auto
    then show ?thesis by blast
  qed
  consider (stack) "log_code l \<in> set STACK_CODES"
    | (draw) "log_code l \<notin> set STACK_CODES" "log_code l = ''card.draw.private''"
    | (move) "log_code l \<notin> set STACK_CODES" "log_code l \<noteq> ''card.draw.private''"
        "log_code l \<in> set PUBLIC_CODES \<union> {''zone.move'', ''permanent.untap''}"
    | (none) "log_code l \<notin> set STACK_CODES \<union> set PUBLIC_CODES \<union> {''zone.move'', ''permanent.untap'', ''card.draw.private''}"
    by blast
  then show ?thesis
  proof cases
    case stack
    then show ?thesis by (simp add: log update_yield_change_epochs_def code epoch_total_def epoch_increment same)
  next
    case draw
    let ?seats = "filter (\<lambda>s. s \<in> set (event_visibility e)) (map fst (players h))"
    have eq: "log_event l g = bump_seats ''draw'' ?seats h"
      using draw by (simp add: log update_yield_change_epochs_def code)
    have "who \<in> set (log_visibility l) \<Longrightarrow> event_visibility e = log_visibility l"
      using vis by (cases "log_visibility l") simp_all
    then have "disturbs g who l \<Longrightarrow> who \<in> set ?seats"
      using draw h(2) by (auto simp: disturbs_def STACK_CODES_def PUBLIC_CODES_def)
    then have s: "disturbs g who l \<Longrightarrow> yield_change_epoch (log_event l g) ''draw'' (Some who)
        > yield_change_epoch g ''draw'' (Some who)"
      using epoch_bump [where s = who and seats = ?seats and kind = "''draw''" and g = h, THEN conjunct2] by (simp only: eq same)
    have u: "yield_change_epoch (log_event l g) k w \<ge> yield_change_epoch g k w" for k w
      using epoch_bump [where g = h and k = k and w = w and kind = "''draw''" and seats = ?seats, THEN conjunct1] by (simp only: eq same)
    from u [of "''stack''" None] u [of "''public''" None] u [of "''draw''" "Some who"] s show ?thesis
      by (auto simp: epoch_total_def)
  next
    case move
    obtain h1 where eq: "log_event l g = increment_yield_change_epoch ''public'' None h1"
      and h1: "\<And>k w. yield_change_epoch h1 k w \<ge> yield_change_epoch h k w"
      using public_step [OF move] by blast
    from h1 [of "''stack''" None] h1 [of "''public''" None] h1 [of "''draw''" "Some who"] show ?thesis
      by (simp add: eq epoch_total_def epoch_increment same)
  next
    case none
    then have "\<not> disturbs g who l" by (auto simp: disturbs_def)
    with none show ?thesis by (simp add: log update_yield_change_epochs_def code epoch_total_def same)
  qed
qed

lemma epoch_logs:
  "epoch_total (foldl (\<lambda>h l. log_event l h) g ls) who \<ge> epoch_total g who
   \<and> ((\<exists>l \<in> set ls. disturbs g who l) \<longrightarrow>
        epoch_total (foldl (\<lambda>h l. log_event l h) g ls) who > epoch_total g who)"
proof (induction ls arbitrary: g)
  case (Cons l ls)
  have same: "disturbs (log_event l g) who m = disturbs g who m" for m by (simp add: disturbs_def)
  from Cons [of "log_event l g"] epoch_log [of g who l] show ?case by (auto simp: same)
qed simp

lemma logs_players: "players (foldl (\<lambda>h l. log_event l h) g ls) = players g"
  by (induction ls arbitrary: g) simp_all

text \<open>
  C26. A yield never covers a change its player has not seen: if it is set and events are then logged
  one after the other, automatic passing is refused as soon as any of them puts something on or takes
  something off the stack, moves a card between zones, untaps a permanent, plays a land, creates a
  token, changes control, the monarch, goad or the players in the game, or lets its player draw.
\<close>

theorem yield_covers_no_change:
  assumes "set_yield host who (Some mode) g = Inr g1" and "mode \<noteq> ''none''" and "mode \<noteq> []"
    and "can_auto_pass host who signature meaningful (foldl (\<lambda>h l. log_event l h) g1 ls) = Inr (g2, covered, reason)"
    and "\<exists>l \<in> set ls. disturbs g who l"
  shows "\<not> covered \<and> reason \<noteq> None"
proof (rule ccontr)
  assume contra: "\<not> (\<not> covered \<and> reason \<noteq> None)"
  let ?h = "foldl (\<lambda>h l. log_event l h) g1 ls"
  obtain p where p: "map_of (players g) who = Some p"
    and g1: "g1 = g\<lparr>players := AList.update who (p\<lparr>player_yield := new_yield host who mode p g\<rparr>) (players g)\<rparr>"
    using assms(1-3)
    by (auto simp: set_yield_def put_policy_def ebind_eq_Inr option_raise_eq_Inr)
  let ?y = "new_yield host who mode p g"
  have y: "yield_mode ?y = mode"
    "created_stack_change_epoch ?y = yield_change_epoch g ''stack'' None"
    "created_public_change_epoch ?y = yield_change_epoch g ''public'' None"
    "created_draw_epoch ?y = yield_change_epoch g ''draw'' (Some who)"
    by (simp_all add: new_yield_def)
  have now: "map_of (players ?h) who = Some (p\<lparr>player_yield := ?y\<rparr>)" by (simp add: logs_players g1)
  have "yield_stop_reason host ?h who (Some signature) = Inr None"
  proof -
    obtain why where why: "yield_stop_reason host ?h who (Some signature) = Inr why"
      using assms(2,4) y(1) now by (auto simp: can_auto_pass_def ebind_eq_Inr split: option.splits)
    show ?thesis
    proof (cases why)
      case (Some w)
      then show ?thesis using assms(2,4) contra y(1) now why
        by (auto simp: can_auto_pass_def ebind_eq_Inr)
    qed (simp add: why)
  qed
  then have "epoch_total ?h who = epoch_total g who"
    using now y by (auto simp: yield_stop_reason_def Let_def epoch_total_def split: if_splits)
  moreover have "epoch_total g1 who = epoch_total g who"
    by (simp add: g1 epoch_total_def yield_change_epoch_def)
  moreover have "\<exists>l \<in> set ls. disturbs g1 who l"
  proof -
    have "disturbs g1 who l = disturbs g who l" for l
      using map_of_Some_key [OF p] by (auto simp: g1 disturbs_def)
    with assms(5) show ?thesis by blast
  qed
  ultimately show False using epoch_logs [of g1 who ls] by auto
qed

section \<open>A concrete round\<close>

definition priority_duel :: game_state where
  "priority_duel = duel\<lparr>active_player := Some ''A'', priority_player := Some ''A'', priority_epoch := 4\<rparr>"

definition quiet_priority :: priority_host where
  "quiet_priority = \<lparr>stabilize = (\<lambda>g. Inr (g, False)), prepare_stack_resolution = Inr,
     host_advance_step = (\<lambda>g. Inr (g\<lparr>phase_index := phase_index g + 1\<rparr>)),
     start_delayed_batch = (\<lambda>_. Inr), action_hints = (\<lambda>_ _. []),
     meaningful_signature = (\<lambda>_ _. ''s''), hash_stack = (\<lambda>xs. show_nat (length xs))\<rparr>"

lemma grant_gives_priority_witness:
  "\<exists>p g'. prepare_priority_grant duel (Some ''B'') False = Inr (Some p)
     \<and> commit_priority_grant p duel = Inr g' \<and> priority_player g' = Some ''B''"
proof -
  have "prepare_priority_grant duel (Some ''B'') False
      = Inr (Some \<lparr>grant_seat = ''B'', grant_epoch = 1, grant_cleanup = False\<rparr>)" by code_simp
  from grant_gives_priority [OF this] this show ?thesis by auto
qed

lemma priority_round_witness:
  "\<exists>h. pass_all quiet_priority True priority_duel [''A'', ''B''] = host_advance_step quiet_priority h
     \<and> priority_player h = None"
proof -
  have facts: "active priority_duel = Inr [''A'', ''B'']" "distinct (turn_order priority_duel)"
    "[] \<notin> set (turn_order priority_duel)" "priority_player priority_duel = Some ''A''"
    "filter (seat_in_game priority_duel) (rotate 0 (turn_order priority_duel)) = [''A'', ''B'']"
    "priority_passes priority_duel = []" "stack_items priority_duel = []"
    by code_simp+
  have "filter (seat_in_game priority_duel) (rotate 0 (turn_order priority_duel)) = [''A'', ''B''] @ []"
    using facts(5) by (simp only: append_Nil2)
  moreover have "[''A'', ''B''] @ [] \<noteq> ([] :: string list)" by simp
  moreover have "priority_player priority_duel = Some (hd ([''A'', ''B''] @ []))"
    using facts(4) by (simp only: append_Nil2 list.sel)
  ultimately have ready: "filter (seat_in_game priority_duel) (rotate 0 (turn_order priority_duel)) = [''A'', ''B''] @ []"
    "[''A'', ''B''] @ [] \<noteq> ([] :: string list)"
    "priority_player priority_duel = Some (hd ([''A'', ''B''] @ []))" .
  from priority_round [OF facts(1-3) ready facts(6), of quiet_priority True]
  obtain h where h: "priority_player h = (if [] = ([] :: string list) then None else Some (hd []))"
      "stack_items h = stack_items priority_duel"
      "pass_all quiet_priority True priority_duel [''A'', ''B''] =
        (if [] = ([] :: string list) then (if stack_items priority_duel = [] then host_advance_step quiet_priority h
           else prepare_stack_resolution quiet_priority h) else Inr h)"
    by (elim exE conjE)
  have "stack_items h = []" using h(2) facts(7) by simp
  then show ?thesis using h(1,3) facts(7)
    by (intro exI [of _ h]) (simp only: if_True refl conj_absorb simp_thms)
qed

lemma yield_covers_no_change_witness:
  "\<exists>g1 g2 r. set_yield quiet_priority ''A'' (Some ''until_my_turn'') priority_duel = Inr g1
     \<and> can_auto_pass quiet_priority ''A'' ''s'' False
         (foldl (\<lambda>h l. log_event l h) g1 [new_entry (Some ''B'') ''stack.cast'' [] 1]) = Inr (g2, False, r)"
proof -
  let ?l = "new_entry (Some ''B'') ''stack.cast'' [] 1"
  obtain g1 where g1: "set_yield quiet_priority ''A'' (Some ''until_my_turn'') priority_duel = Inr g1"
    "map_of (players g1) ''A'' \<noteq> None"
    by (simp add: set_yield_def put_policy_def priority_duel_def duel_def new_game_def YIELD_MODES_def)
  let ?h = "foldl (\<lambda>h l. log_event l h) g1 [?l]"
  have total: "\<exists>r. can_auto_pass host who s m h = Inr r" if "map_of (players h) who \<noteq> None" for host who s m h
  proof -
    from that obtain p where p: "map_of (players h) who = Some p" by blast
    have drop: "\<exists>r. drop_yield who k h = Inr r" for k by (cases k) (simp_all add: drop_yield_def p)
    then obtain d where "\<And>k. drop_yield who k h = Inr (d k)" by metis
    moreover obtain why where "yield_stop_reason host h who (Some s) = Inr why"
      by (simp add: yield_stop_reason_def p Let_def)
    ultimately show ?thesis by (cases why) (auto simp: can_auto_pass_def p Let_def)
  qed
  have "map_of (players ?h) ''A'' \<noteq> None" using g1(2) by simp
  from total [OF this] obtain g2 c r where run: "can_auto_pass quiet_priority ''A'' ''s'' False ?h = Inr (g2, c, r)"
    by (metis prod_cases3)
  have "disturbs priority_duel ''A'' ?l" by (simp add: disturbs_def new_entry_def STACK_CODES_def)
  with yield_covers_no_change [OF g1(1) _ _ run] have "\<not> c" by simp
  with g1(1) run show ?thesis by auto
qed

end
