(* ===== verification/Permissions.thy ===== *)
theory Permissions imports Game_Model
begin

text \<open>
  Decision capabilities (\<open>quorune/permissions.py\<close>): issuing a decision to its actors, authorising a
  command against the single-use capability it presents, recording answers, and closing, dropping
  or reissuing the pending decision.

  The random source of \<open>secrets.token_urlsafe\<close> is the list \<open>draws\<close> of the values it will return;
  \<open>_new_token\<close> takes the first one that is not in use, and a list that runs out is the error
  \<open>OutOfTokens\<close>.  \<open>AuthorizedCommand.decision\<close> is the pending decision object itself, so recording
  an answer updates the pending decision of the state.
\<close>

datatype permission_error =
    DecisionPending
  | NoDecision
  | UnknownActor string
  | OutOfTokens
  | UnknownToken
  | AlreadyConsumed
  | ExpiredDecision
  | WrongPrincipal
  | ActionOutsideScope string

section \<open>Issuing\<close>

definition pilot_principal :: "string \<Rightarrow> string" where
  "pilot_principal s = ''pilot:'' @ s"

fun new_token :: "string list \<Rightarrow> (string, capability) dict \<Rightarrow> permission_error + string \<times> string list" where
  "new_token [] caps = Inl OutOfTokens"
| "new_token (d # ds) caps =
     (let t = ''c_'' @ d in if map_of caps t = None then Inr (t, ds) else new_token ds caps)"

definition strategic_controller :: "player_state \<Rightarrow> string \<Rightarrow> string" where
  "strategic_controller p actor =
     (case map_of (stats p) ''turn_controlled_by'' of
        Some (PStr c) \<Rightarrow> if c \<noteq> [] then c else actor
      | _ \<Rightarrow> actor)"

definition principal_of :: "game_state \<Rightarrow> string \<Rightarrow> string \<Rightarrow> permission_error + string" where
  "principal_of g role actor =
     (if role = ''pilot'' then
        ebind (option_raise (UnknownActor actor) (map_of (players g) actor)) (\<lambda>p.
        Inr (pilot_principal (strategic_controller p actor)))
      else Inr role)"

definition new_capability :: "game_state \<Rightarrow> decision_group \<Rightarrow> string \<Rightarrow> string \<Rightarrow> string \<Rightarrow> capability" where
  "new_capability g d actor prin t =
     \<lparr>token = t, cap_decision_id = decision_id d, principal = prin, cap_role = decision_role d,
      cap_actor = (if decision_role d = ''pilot'' then Some actor
                   else if actor = decision_role d then None else Some actor),
      allowed_actions = decision_actions d, cap_revision = revision g, consumed = False\<rparr>"

definition grant_capability ::
  "game_state \<Rightarrow> decision_group \<Rightarrow> (string, capability) dict \<times> string list \<Rightarrow> string
     \<Rightarrow> permission_error + (string, capability) dict \<times> string list" where
  "grant_capability g d acc actor =
     ebind (principal_of g (decision_role d) actor) (\<lambda>prin.
     ebind (new_token (snd acc) (fst acc)) (\<lambda>(t, rest).
     Inr (AList.update t (new_capability g d actor prin t) (fst acc), rest)))"

definition decision_counter :: "game_state \<Rightarrow> int" where
  "decision_counter g = dict_get 0 (ref_counters g) ''decision''"

definition issue ::
  "string \<Rightarrow> string \<Rightarrow> string list \<Rightarrow> string list \<Rightarrow> (string, (string, pyval) dict) dict \<Rightarrow> bool
     \<Rightarrow> (string, pyval) dict \<Rightarrow> string list \<Rightarrow> game_state
     \<Rightarrow> permission_error + game_state \<times> decision_group \<times> string list" where
  "issue kind role who acts payloads together cont draws g =
     ebind (ensure (pending_decision g = None) DecisionPending) (\<lambda>_.
     let n = decision_counter g + 1;
         d = \<lparr>decision_id = ''D'' @ show_int n, decision_kind = kind, decision_role = role, actors = who,
              decision_actions = acts, payload_by_actor = payloads, simultaneous = together,
              responses = [], continuation = cont, decision_revision = revision g\<rparr>;
         g1 = g\<lparr>ref_counters := AList.update ''decision'' n (ref_counters g), pending_decision := Some d\<rparr> in
     ebind (efold (grant_capability g1 d) (capabilities g1, draws) who) (\<lambda>(caps, rest).
     Inr (g1\<lparr>capabilities := caps\<rparr>, d, rest)))"

section \<open>Authorising and answering\<close>

record authorized_command =
  command_capability :: capability
  command_decision :: decision_group
  command_action :: string
  command_payload :: "(string, pyval) dict"

definition capability_for :: "game_state \<Rightarrow> string \<Rightarrow> capability option" where
  "capability_for g prin =
     (case pending_decision g of
        None \<Rightarrow> None
      | Some d \<Rightarrow> find (\<lambda>c. cap_decision_id c = decision_id d \<and> principal c = prin \<and> \<not> consumed c)
                   (map snd (capabilities g)))"

definition authorize ::
  "string \<Rightarrow> string \<Rightarrow> string \<Rightarrow> (string, pyval) dict \<Rightarrow> game_state
     \<Rightarrow> permission_error + game_state \<times> authorized_command" where
  "authorize t prin act body g =
     ebind (option_raise NoDecision (pending_decision g)) (\<lambda>d.
     ebind (option_raise UnknownToken (map_of (capabilities g) t)) (\<lambda>c.
     ebind (ensure (\<not> consumed c) AlreadyConsumed) (\<lambda>_.
     ebind (ensure (cap_decision_id c = decision_id d) ExpiredDecision) (\<lambda>_.
     ebind (ensure (principal c = prin) WrongPrincipal) (\<lambda>_.
     ebind (ensure (act \<in> set (allowed_actions c)) (ActionOutsideScope act)) (\<lambda>_.
     let c1 = c\<lparr>consumed := True\<rparr> in
     Inr (g\<lparr>capabilities := AList.update t c1 (capabilities g)\<rparr>,
          \<lparr>command_capability = c1, command_decision = d, command_action = act,
           command_payload = body\<rparr>)))))))"

definition actor_key :: "capability \<Rightarrow> string" where
  "actor_key c = (case cap_actor c of Some a \<Rightarrow> if a \<noteq> [] then a else principal c | None \<Rightarrow> principal c)"

text \<open>The dictionary display \<open>{"action": action, **payload}\<close>: a later key wins.\<close>

definition answer_of :: "string \<Rightarrow> (string, pyval) dict \<Rightarrow> (string, pyval) dict" where
  "answer_of act body = foldl (\<lambda>d (k, v). AList.update k v d) [(''action'', PStr act)] body"

definition record_response :: "authorized_command \<Rightarrow> game_state \<Rightarrow> game_state" where
  "record_response cmd g =
     g\<lparr>pending_decision := map_option
         (\<lambda>d. d\<lparr>responses := AList.update (actor_key (command_capability cmd))
                  (answer_of (command_action cmd) (command_payload cmd)) (responses d)\<rparr>)
         (pending_decision g)\<rparr>"

definition expected_answers :: "game_state \<Rightarrow> decision_group \<Rightarrow> string list" where
  "expected_answers g d =
     (if decision_role d \<noteq> ''pilot'' then
        map actor_key (filter (\<lambda>c. cap_decision_id c = decision_id d) (map snd (capabilities g)))
      else actors d)"

definition decision_complete :: "game_state \<Rightarrow> bool" where
  "decision_complete g =
     (case pending_decision g of
        None \<Rightarrow> False
      | Some d \<Rightarrow> list_all (\<lambda>k. map_of (responses d) k \<noteq> None) (expected_answers g d))"

section \<open>Closing and reissuing\<close>

definition consume_decision :: "string \<Rightarrow> (string, capability) dict \<Rightarrow> (string, capability) dict" where
  "consume_decision i caps =
     map (\<lambda>(t, c). (t, if cap_decision_id c = i then c\<lparr>consumed := True\<rparr> else c)) caps"

definition close_decision :: "game_state \<Rightarrow> permission_error + game_state \<times> decision_group" where
  "close_decision g =
     ebind (option_raise NoDecision (pending_decision g)) (\<lambda>d.
     Inr (g\<lparr>capabilities := consume_decision (decision_id d) (capabilities g), pending_decision := None\<rparr>, d))"

definition invalidate_current :: "game_state \<Rightarrow> game_state" where
  "invalidate_current g =
     (case pending_decision g of
        None \<Rightarrow> g
      | Some d \<Rightarrow> g\<lparr>capabilities := consume_decision (decision_id d) (capabilities g),
                    pending_decision := None\<rparr>)"

definition reissue_pending :: "string list \<Rightarrow> game_state \<Rightarrow> permission_error + game_state" where
  "reissue_pending draws g =
     (let g1 = g\<lparr>capabilities := []\<rparr> in
      case pending_decision g1 of
        None \<Rightarrow> Inr g1
      | Some d \<Rightarrow>
          ebind (efold (grant_capability g1 d) ([], draws)
                   (filter (\<lambda>a. map_of (responses d) a = None) (actors d))) (\<lambda>(caps, rest).
          Inr (g1\<lparr>capabilities := caps\<rparr>)))"

section \<open>Loops over capabilities\<close>

lemma new_token_fresh: "new_token draws caps = Inr (t, rest) \<Longrightarrow> map_of caps t = None"
  by (induction draws caps rule: new_token.induct) (auto simp: Let_def split: if_splits)

lemma grant_step:
  assumes "grant_capability g d acc actor = Inr acc'"
  shows "\<exists>t prin. principal_of g (decision_role d) actor = Inr prin
    \<and> map_of (fst acc) t = None \<and> fst acc' = fst acc @ [(t, new_capability g d actor prin t)]"
proof -
  obtain prin t rest where "principal_of g (decision_role d) actor = Inr prin"
    and tok: "new_token (snd acc) (fst acc) = Inr (t, rest)"
    and acc': "acc' = (AList.update t (new_capability g d actor prin t) (fst acc), rest)"
    using assms by (auto simp: grant_capability_def ebind_eq_Inr)
  moreover have "map_of (fst acc) t = None" by (rule new_token_fresh [OF tok])
  ultimately show ?thesis using dict_set_new [of t "fst acc"] by (auto simp: map_of_None_key)
qed

text \<open>The capabilities a decision adds: fresh tokens, one per actor, in order.\<close>

lemma grant_all:
  assumes "efold (grant_capability g d) acc who = Inr acc'"
  shows "\<exists>toks prins. length toks = length who \<and> length prins = length who \<and> distinct toks
    \<and> set toks \<inter> fst ` set (fst acc) = {} \<and> map (principal_of g (decision_role d)) who = map Inr prins
    \<and> fst acc' = fst acc @ map (\<lambda>(t, a, p). (t, new_capability g d a p t)) (zip toks (zip who prins))"
  using assms
proof (induction who arbitrary: acc)
  case (Cons a who)
  then obtain acc1 where one: "grant_capability g d acc a = Inr acc1"
    and rest: "efold (grant_capability g d) acc1 who = Inr acc'"
    by (auto simp: ebind_eq_Inr)
  from grant_step [OF one] obtain t prin where t: "map_of (fst acc) t = None"
    "fst acc1 = fst acc @ [(t, new_capability g d a prin t)]" "principal_of g (decision_role d) a = Inr prin" by auto
  from Cons.IH [OF rest] obtain toks prins where IH: "length toks = length who" "length prins = length who"
    "distinct toks" "set toks \<inter> fst ` set (fst acc1) = {}" "map (principal_of g (decision_role d)) who = map Inr prins"
    "fst acc' = fst acc1 @ map (\<lambda>(t, a, p). (t, new_capability g d a p t)) (zip toks (zip who prins))"
    by auto
  show ?case
  proof (intro exI conjI)
    show "length (t # toks) = length (a # who)" "length (prin # prins) = length (a # who)"
      using IH(1,2) by simp_all
    show "distinct (t # toks)" "set (t # toks) \<inter> fst ` set (fst acc) = {}"
      using IH(3,4) t by (auto simp: map_of_None_key)
    show "map (principal_of g (decision_role d)) (a # who) = map Inr (prin # prins)" using IH(5) t(3) by simp
    show "fst acc' = fst acc @ map (\<lambda>(t, a, p). (t, new_capability g d a p t)) (zip (t # toks) (zip (a # who) (prin # prins)))"
      using IH(6) t(2) by simp
  qed
qed auto


section \<open>The life of the capabilities\<close>

text \<open>
  What may happen to the capabilities of a game, between commands and inside one: a decision is
  issued, a presented token is accepted and its answer recorded, the decision is closed or dropped,
  the engine does anything else that leaves decisions alone, or a loaded game gets new tokens.  Where tokens
  are made, the event carries the values the random source has to return.
\<close>

datatype perm_event =
    Issued string "string list"
  | Answered string
  | Closed
  | Dropped
  | Engine
  | Reissued "string list"

inductive perm_step :: "game_state \<Rightarrow> perm_event \<Rightarrow> game_state \<Rightarrow> bool" where
  issued: "issue kind role who acts payloads together cont draws g = Inr (h, d, rest)
     \<Longrightarrow> perm_step g (Issued (decision_id d) draws) h"
| answered: "authorize t prin act body g = Inr (h, cmd) \<Longrightarrow> perm_step g (Answered t) (record_response cmd h)"
| closed: "close_decision g = Inr (h, d) \<Longrightarrow> perm_step g Closed h"
| dropped: "perm_step g Dropped (invalidate_current g)"
| engine: "capabilities h = capabilities g \<Longrightarrow> pending_decision h = pending_decision g
     \<Longrightarrow> decision_counter h = decision_counter g \<Longrightarrow> perm_step g Engine h"
| reissued: "reissue_pending draws g = Inr h \<Longrightarrow> perm_step g (Reissued draws) h"

inductive perm_run :: "game_state \<Rightarrow> perm_event list \<Rightarrow> game_state \<Rightarrow> bool" where
  stop: "perm_run g [] g"
| step: "perm_step g e h \<Longrightarrow> perm_run h es k \<Longrightarrow> perm_run g (e # es) k"

inductive_cases perm_run_Nil: "perm_run g [] h"
inductive_cases perm_run_Cons: "perm_run g (e # es) h"
inductive_cases perm_step_Answered: "perm_step g (Answered t) h"

definition decision_name :: "int \<Rightarrow> string" where
  "decision_name n = ''D'' @ show_int n"

lemma decision_name_inject [simp]: "decision_name m = decision_name n \<longleftrightarrow> m = n"
  by (simp add: decision_name_def)

text \<open>
  The invariant: tokens name their capabilities, every capability belongs to a decision already
  issued, only those of the pending decision are still live, and the pending decision is the
  latest one.
\<close>

definition cap_ok :: "int \<Rightarrow> decision_group option \<Rightarrow> string \<times> capability \<Rightarrow> bool" where
  "cap_ok n pending p \<longleftrightarrow>
     token (snd p) = fst p
     \<and> (\<exists>m. cap_decision_id (snd p) = decision_name m \<and> m \<le> n)
     \<and> (consumed (snd p) \<or> map_option decision_id pending = Some (cap_decision_id (snd p)))"

definition caps_ok :: "int \<Rightarrow> decision_group option \<Rightarrow> (string, capability) dict \<Rightarrow> bool" where
  "caps_ok n pending caps \<longleftrightarrow> distinct (map fst caps) \<and> (\<forall>p \<in> set caps. cap_ok n pending p)"

definition perm_ok :: "game_state \<Rightarrow> bool" where
  "perm_ok g \<longleftrightarrow> caps_ok (decision_counter g) (pending_decision g) (capabilities g)
     \<and> (\<forall>d. pending_decision g = Some d \<longrightarrow> decision_id d = decision_name (decision_counter g))"

lemma caps_ok_append:
  "caps_ok n pending (xs @ ys) \<longleftrightarrow>
     caps_ok n pending xs \<and> caps_ok n pending ys \<and> fst ` set xs \<inter> fst ` set ys = {}"
  by (auto simp: caps_ok_def)

lemma caps_ok_mono:
  assumes "caps_ok n None caps" and "n \<le> m"
  shows "caps_ok m pending caps"
proof -
  have "cap_ok n None p \<Longrightarrow> cap_ok m pending p" for p
    using assms(2) by (auto simp: cap_ok_def intro: order_trans)
  with assms(1) show ?thesis by (simp add: caps_ok_def)
qed

lemma map_fst_zip_granted:
  "length toks = length who \<Longrightarrow> length prins = length who \<Longrightarrow>
     map fst (map (\<lambda>(t, a, p). (t, new_capability g d a p t)) (zip toks (zip who prins))) = toks"
  by (simp add: case_prod_beta o_def)

lemma caps_ok_granted:
  assumes "length toks = length who" and "length prins = length who" and "distinct toks"
    and "decision_id d = decision_name n"
  shows "caps_ok n (Some d) (map (\<lambda>(t, a, p). (t, new_capability g d a p t)) (zip toks (zip who prins)))"
  unfolding caps_ok_def map_fst_zip_granted [OF assms(1,2)]
  using assms(3,4) by (auto simp: new_capability_def cap_ok_def)

lemma consume_decision_keys [simp]: "map fst (consume_decision i caps) = map fst caps"
  by (simp add: consume_decision_def case_prod_beta)

lemma consume_decision_eq:
  "consume_decision i caps =
     map (\<lambda>p. (fst p, if cap_decision_id (snd p) = i then (snd p)\<lparr>consumed := True\<rparr> else snd p)) caps"
  by (simp add: consume_decision_def case_prod_beta)

lemma caps_ok_consume:
  assumes "caps_ok n (Some d) caps" and "decision_id d = i"
  shows "caps_ok n None (consume_decision i caps)"
proof -
  have "cap_ok n (Some d) p \<Longrightarrow>
      cap_ok n None (fst p, if cap_decision_id (snd p) = i then (snd p)\<lparr>consumed := True\<rparr> else snd p)" for p
    by (cases "cap_decision_id (snd p) = i") (simp_all add: cap_ok_def assms(2))
  with assms(1) show ?thesis
    unfolding caps_ok_def consume_decision_keys by (simp add: consume_decision_eq)
qed

lemma caps_ok_update:
  assumes "caps_ok n pending caps" and "map_of caps t = Some c"
  shows "caps_ok n pending (AList.update t (c\<lparr>consumed := True\<rparr>) caps)"
proof -
  from assms have "cap_ok n pending (t, c)" by (auto simp: caps_ok_def dest: map_of_SomeD)
  then have "cap_ok n pending (t, c\<lparr>consumed := True\<rparr>)" by (simp add: cap_ok_def)
  with assms(1) show ?thesis
    using set_dict_set [of t "c\<lparr>consumed := True\<rparr>" caps]
    by (auto simp: caps_ok_def distinct_dict_set)
qed

lemma caps_ok_pending:
  assumes "caps_ok n (Some d) caps" and "decision_id e = decision_id d"
  shows "caps_ok n (Some e) caps"
proof -
  have "cap_ok n (Some e) p = cap_ok n (Some d) p" for p by (simp add: cap_ok_def assms(2))
  with assms(1) show ?thesis by (simp add: caps_ok_def)
qed

lemma perm_step_ok:
  assumes "perm_step g e h" and "perm_ok g"
  shows "perm_ok h"
  using assms
proof (induction rule: perm_step.induct)
  case (issued kind role who acts payloads together cont draws g h d rest)
  then obtain g1 caps where none: "pending_decision g = None" and d: "decision_id d = decision_name (decision_counter g + 1)"
    and all: "efold (grant_capability g1 d) (capabilities g, draws) who = Inr (caps, rest)"
    and h: "capabilities h = caps" "pending_decision h = Some d" "decision_counter h = decision_counter g + 1"
    by (auto simp: issue_def Let_def ebind_eq_Inr decision_counter_def decision_name_def)
  from grant_all [OF all] obtain toks prins where
    new: "length toks = length who" "length prins = length who" "distinct toks" "set toks \<inter> fst ` set (capabilities g) = {}"
      "caps = capabilities g @ map (\<lambda>(t, a, p). (t, new_capability g1 d a p t)) (zip toks (zip who prins))"
    by auto
  have "fst ` set (map (\<lambda>(t, a, p). (t, new_capability g1 d a p t)) (zip toks (zip who prins))) = set toks"
    using map_fst_zip_granted [OF new(1,2)] by (metis set_map)
  moreover have "caps_ok (decision_counter g + 1) (Some d) (capabilities g)"
    using issued(2) none caps_ok_mono [of "decision_counter g"] by (simp add: perm_ok_def)
  ultimately show ?case
    using caps_ok_granted [OF new(1-3) d] new(4) d
    by (auto simp: perm_ok_def h new(5) caps_ok_append)
next
  case (answered t prin act body g h cmd)
  then obtain d c where a: "pending_decision g = Some d" "map_of (capabilities g) t = Some c"
    "h = g\<lparr>capabilities := AList.update t (c\<lparr>consumed := True\<rparr>) (capabilities g)\<rparr>"
    by (auto simp: authorize_def Let_def ebind_eq_Inr option_raise_eq_Inr)
  then show ?case using answered(2) caps_ok_update [of _ "Some d" "capabilities g" t c]
    by (auto simp: perm_ok_def record_response_def decision_counter_def intro: caps_ok_pending [of _ d])
next
  case (closed g h d)
  then show ?case
    by (auto simp: close_decision_def perm_ok_def decision_counter_def ebind_eq_Inr option_raise_eq_Inr
      intro: caps_ok_consume)
next
  case (dropped g)
  then show ?case
    by (auto simp: invalidate_current_def perm_ok_def decision_counter_def
      split: option.splits intro: caps_ok_consume)
next
  case (engine h g)
  then show ?case by (simp add: perm_ok_def)
next
  case (reissued draws g h)
  show ?case
  proof (cases "pending_decision g")
    case None
    with reissued show ?thesis
      by (auto simp: reissue_pending_def perm_ok_def decision_counter_def caps_ok_def)
  next
    case (Some d)
    with reissued obtain g1 who caps rest where
      all: "efold (grant_capability g1 d) ([], draws) who = Inr (caps, rest)"
      and h: "capabilities h = caps" "pending_decision h = Some d" "decision_counter h = decision_counter g"
      by (auto simp: reissue_pending_def Let_def ebind_eq_Inr decision_counter_def)
    from grant_all [OF all] obtain toks prins where "length toks = length who" "length prins = length who" "distinct toks"
      "caps = map (\<lambda>(t, a, p). (t, new_capability g1 d a p t)) (zip toks (zip who prins))"
      by auto
    with reissued(2) Some show ?thesis by (simp add: perm_ok_def h caps_ok_granted)
  qed
qed

lemma perm_run_ok: "perm_run g es h \<Longrightarrow> perm_ok g \<Longrightarrow> perm_ok h"
  by (induction rule: perm_run.induct) (auto intro: perm_step_ok)


section \<open>A token is accepted once\<close>

definition answers :: "perm_event list \<Rightarrow> string list" where
  "answers es = List.map_filter (\<lambda>e. case e of Answered t \<Rightarrow> Some t | _ \<Rightarrow> None) es"

definition spent :: "game_state \<Rightarrow> string \<Rightarrow> bool" where
  "spent g t \<longleftrightarrow> (\<exists>c. map_of (capabilities g) t = Some c \<and> consumed c)"

lemma map_of_consume_decision:
  "map_of (consume_decision i caps) t =
     map_option (\<lambda>c. if cap_decision_id c = i then c\<lparr>consumed := True\<rparr> else c) (map_of caps t)"
  by (induction caps) (auto simp: consume_decision_eq)

lemma consumed_stays:
  assumes "map_of caps t = Some c" and "consumed c"
  shows "\<exists>c'. map_of (consume_decision i caps) t = Some c' \<and> consumed c'"
  using assms by (simp add: map_of_consume_decision)

lemma authorize_spends:
  "authorize t prin act body g = Inr (h, cmd) \<Longrightarrow> \<not> spent g t \<and> spent (record_response cmd h) t"
  by (auto simp: authorize_def Let_def ebind_eq_Inr option_raise_eq_Inr spent_def record_response_def)

text \<open>
  A token is dead when no live capability has it.  Only making tokens can bring a dead one back, and only
  if the random source returns its value once more: before a reissue the spent tokens are still known and
  are not taken again, a reissue forgets them.
\<close>

definition dead :: "game_state \<Rightarrow> string \<Rightarrow> bool" where
  "dead g t \<longleftrightarrow> (\<forall>c. map_of (capabilities g) t = Some c \<longrightarrow> consumed c)"

fun drawn_tokens :: "perm_event \<Rightarrow> string set" where
  "drawn_tokens (Issued i draws) = (\<lambda>d. ''c_'' @ d) ` set draws"
| "drawn_tokens (Reissued draws) = (\<lambda>d. ''c_'' @ d) ` set draws"
| "drawn_tokens e = {}"

fun is_reissue :: "perm_event \<Rightarrow> bool" where
  "is_reissue (Reissued draws) = True"
| "is_reissue e = False"

definition redrawn :: "string \<Rightarrow> perm_event list \<Rightarrow> bool" where
  "redrawn t es \<longleftrightarrow> (\<exists>e \<in> set (dropWhile (\<lambda>e. \<not> is_reissue e) es). t \<in> drawn_tokens e)"

lemma redrawn_Cons:
  "redrawn t (e # es) \<longleftrightarrow> (if is_reissue e then \<exists>e \<in> set (e # es). t \<in> drawn_tokens e else redrawn t es)"
  by (simp add: redrawn_def)

lemma new_token_drawn: "new_token draws caps = Inr (t, rest) \<Longrightarrow> \<exists>d ds. draws = ds @ d # rest \<and> t = ''c_'' @ d"
proof (induction draws caps rule: new_token.induct)
  case (2 d ds caps)
  then show ?case
  proof (cases "map_of caps (''c_'' @ d) = None")
    case False
    with 2 obtain d' ds' where "ds = ds' @ d' # rest" "t = ''c_'' @ d'" by (auto simp: Let_def)
    then show ?thesis by (intro exI [of _ d'] exI [of _ "d # ds'"]) simp
  qed (force simp: Let_def)
qed simp

lemma grant_drawn:
  assumes "grant_capability g d acc actor = Inr acc'"
  shows "fst ` set (fst acc') \<subseteq> fst ` set (fst acc) \<union> (\<lambda>d. ''c_'' @ d) ` set (snd acc)"
    and "set (snd acc') \<subseteq> set (snd acc)"
proof -
  obtain prin t rest where "new_token (snd acc) (fst acc) = Inr (t, rest)"
    and acc': "acc' = (AList.update t (new_capability g d actor prin t) (fst acc), rest)"
    using assms by (auto simp: grant_capability_def ebind_eq_Inr)
  with new_token_drawn obtain e ds where "snd acc = ds @ e # rest" "t = ''c_'' @ e" by blast
  then show "fst ` set (fst acc') \<subseteq> fst ` set (fst acc) \<union> (\<lambda>d. ''c_'' @ d) ` set (snd acc)"
    and "set (snd acc') \<subseteq> set (snd acc)" by (auto simp: acc')
qed

lemma grants_drawn:
  assumes "efold (grant_capability g d) acc who = Inr acc'"
  shows "fst ` set (fst acc') \<subseteq> fst ` set (fst acc) \<union> (\<lambda>d. ''c_'' @ d) ` set (snd acc)"
  using assms
proof (induction who arbitrary: acc)
  case (Cons a who)
  then obtain acc1 where one: "grant_capability g d acc a = Inr acc1"
    and rest: "efold (grant_capability g d) acc1 who = Inr acc'"
    by (auto simp: ebind_eq_Inr)
  from Cons.IH [OF rest] grant_drawn [OF one] show ?case by blast
qed auto

lemma perm_step_spent:
  assumes "perm_step g e h" and "\<not> is_reissue e" and "spent g t"
  shows "spent h t"
  using assms
proof (induction rule: perm_step.induct)
  case (issued kind role who acts payloads together cont draws g h d rest)
  then obtain g1 caps where all: "efold (grant_capability g1 d) (capabilities g, draws) who = Inr (caps, rest)"
    and h: "capabilities h = caps"
    by (auto simp: issue_def Let_def ebind_eq_Inr)
  from grant_all [OF all] obtain ys where "caps = capabilities g @ ys" by auto
  with issued(3) h show ?case by (auto simp: spent_def)
next
  case (answered u prin act body g h cmd)
  then show ?case
    by (auto simp: authorize_def Let_def ebind_eq_Inr option_raise_eq_Inr spent_def record_response_def)
next
  case (closed g h d)
  then show ?case
    by (auto simp: close_decision_def ebind_eq_Inr spent_def intro: consumed_stays)
next
  case (dropped g)
  then show ?case by (auto simp: invalidate_current_def spent_def split: option.splits intro: consumed_stays)
qed (simp_all add: spent_def)

lemma perm_step_dead:
  assumes "perm_step g e h" and "dead g t \<or> is_reissue e" and "t \<notin> drawn_tokens e"
  shows "dead h t"
  using assms
proof (induction rule: perm_step.induct)
  case (issued kind role who acts payloads together cont draws g h d rest)
  then obtain g1 caps where all: "efold (grant_capability g1 d) (capabilities g, draws) who = Inr (caps, rest)"
    and h: "capabilities h = caps"
    by (auto simp: issue_def Let_def ebind_eq_Inr)
  from grant_all [OF all] obtain ys where ys: "caps = capabilities g @ ys" by auto
  show ?case
  proof (cases "map_of (capabilities g) t")
    case None
    with grants_drawn [OF all] issued(3) have "t \<notin> fst ` set caps" by (auto simp: map_of_None_key)
    then have "map_of caps t = None" by (simp add: map_of_None_key)
    then show ?thesis by (simp add: dead_def h)
  next
    case (Some c)
    with issued(2) show ?thesis by (simp add: dead_def h ys)
  qed
next
  case (answered u prin act body g h cmd)
  then show ?case
    by (auto simp: authorize_def Let_def ebind_eq_Inr option_raise_eq_Inr dead_def record_response_def split: if_splits)
next
  case (closed g h d)
  then show ?case by (auto simp: close_decision_def ebind_eq_Inr dead_def map_of_consume_decision)
next
  case (dropped g)
  then show ?case by (auto simp: invalidate_current_def dead_def map_of_consume_decision split: option.splits)
next
  case (reissued draws g h)
  show ?case
  proof (cases "pending_decision g")
    case None
    with reissued(1) show ?thesis by (auto simp: reissue_pending_def dead_def)
  next
    case (Some d)
    with reissued(1) obtain g1 who caps rest where
      all: "efold (grant_capability g1 d) ([], draws) who = Inr (caps, rest)" and h: "capabilities h = caps"
      by (auto simp: reissue_pending_def Let_def ebind_eq_Inr)
    from grants_drawn [OF all] reissued(3) have "t \<notin> fst ` set caps" by auto
    then have "map_of caps t = None" by (simp add: map_of_None_key)
    then show ?thesis by (simp add: dead_def h)
  qed
qed (simp_all add: dead_def)

lemma dead_not_answered: "perm_step g (Answered t) h \<Longrightarrow> \<not> dead g t"
  by (auto elim!: perm_step_Answered simp: authorize_def Let_def ebind_eq_Inr option_raise_eq_Inr dead_def)

lemma answers_Cons: "answers (e # es) = (case e of Answered t \<Rightarrow> [t] | _ \<Rightarrow> []) @ answers es"
  by (simp add: answers_def map_filter_simps split: perm_event.split)

lemma dead_stays:
  assumes "perm_run g es h" and "dead g t" and "\<forall>e \<in> set es. t \<notin> drawn_tokens e"
  shows "t \<notin> set (answers es) \<and> dead h t"
  using assms
proof (induction rule: perm_run.induct)
  case (step g e h es k)
  have "dead h t" using step by (auto intro: perm_step_dead)
  moreover have "e \<noteq> Answered t" using step(1,4) dead_not_answered by blast
  ultimately show ?case using step(3,5) by (auto simp: answers_Cons split: perm_event.split)
qed (simp add: answers_def map_filter_simps)

lemma spent_stays:
  assumes "perm_run g es h" and "spent g t" and "\<not> redrawn t es"
  shows "t \<notin> set (answers es) \<and> dead h t"
  using assms
proof (induction rule: perm_run.induct)
  case (stop g)
  then show ?case by (auto simp: answers_def map_filter_simps dead_def spent_def)
next
  case (step g e h es k)
  show ?case
  proof (cases "is_reissue e")
    case True
    with step(5) have none: "\<forall>e \<in> set (e # es). t \<notin> drawn_tokens e" by (simp add: redrawn_Cons)
    have "dead h t" by (rule perm_step_dead [OF step(1)]) (use True none in simp_all)
    from dead_stays [OF step(2) this] none True show ?thesis by (cases e) (simp_all add: answers_Cons)
  next
    case False
    have "dead g t" using step(4) by (auto simp: dead_def spent_def)
    with step(1) dead_not_answered have "e \<noteq> Answered t" by blast
    with step(3) perm_step_spent [OF step(1) False step(4)] step(5) False show ?thesis
      by (auto simp: redrawn_Cons answers_Cons split: perm_event.split)
  qed
qed

text \<open>
  The events that end a token: it is accepted, its decision is closed or dropped, or the tokens are replaced.
\<close>

definition ends :: "string \<Rightarrow> perm_event \<Rightarrow> bool" where
  "ends t e \<longleftrightarrow> e = Answered t \<or> e = Closed \<or> e = Dropped \<or> is_reissue e"

lemma ended_spent:
  assumes "perm_step g e h" and "perm_ok g" and "ends t e" and "\<not> is_reissue e"
    and "map_of (capabilities g) t = Some c"
  shows "spent h t"
proof -
  have old: "consumed c \<or> map_option decision_id (pending_decision g) = Some (cap_decision_id c)"
    using assms(2) map_of_SomeD [OF assms(5)] by (auto simp: perm_ok_def caps_ok_def cap_ok_def)
  from assms(1,3,4,5) old show ?thesis
  proof (induction rule: perm_step.induct)
    case (answered u prin act body g h cmd)
    then have "u = t" by (simp add: ends_def)
    with answered(1) authorize_spends show ?case by blast
  next
    case (closed g h d)
    then show ?case
      by (auto simp: close_decision_def ebind_eq_Inr option_raise_eq_Inr spent_def map_of_consume_decision)
  next
    case (dropped g)
    then show ?case by (auto simp: invalidate_current_def spent_def map_of_consume_decision split: option.splits)
  qed (simp_all add: ends_def)
qed

text \<open>
  C20. A token is accepted at most once, and never after its decision was closed or dropped or the tokens were
  replaced: in every history of issuing, answering, closing, dropping and reissuing decisions, with the engine
  running in between, a token that has been accepted, or was known when a decision was closed or dropped or
  the tokens were reissued, is not accepted again and is refused in the state reached.  A reissue
  forgets the old tokens, so from the first reissue on the random source must not return the value of that
  token again; without a reissue nothing is asked of it.  And in every state reached only
  capabilities of the pending decision are live.
\<close>

theorem tokens_single_use:
  assumes "perm_ok g0" and "perm_run g0 past g" and "map_of (capabilities g) t = Some c"
    and "perm_run g (e # es) h" and "ends t e" and "\<not> redrawn t (e # es)"
  shows "t \<notin> set (answers es) \<and> (\<forall>prin act body. \<exists>err. authorize t prin act body h = Inl err)
    \<and> (\<forall>(u, c) \<in> set (capabilities h). \<not> consumed c \<longrightarrow>
         (\<exists>d. pending_decision h = Some d \<and> decision_id d = cap_decision_id c))"
proof -
  have ok: "perm_ok g" by (rule perm_run_ok [OF assms(2,1)])
  from assms(4) obtain g1 where first: "perm_step g e g1" and rest: "perm_run g1 es h" by (elim perm_run_Cons)
  have over: "t \<notin> set (answers es) \<and> dead h t"
  proof (cases "is_reissue e")
    case True
    with assms(6) have none: "\<forall>e \<in> set (e # es). t \<notin> drawn_tokens e" by (simp add: redrawn_Cons)
    have "dead g1 t" by (rule perm_step_dead [OF first]) (use True none in simp_all)
    with none show ?thesis by (intro dead_stays [OF rest]) simp_all
  next
    case False
    with assms(6) have "\<not> redrawn t es" by (simp add: redrawn_Cons)
    with ended_spent [OF first ok assms(5) False assms(3)] show ?thesis by (intro spent_stays [OF rest])
  qed
  have "authorize t prin act body h \<noteq> Inr r" for prin act body r
    using over by (auto simp: authorize_def Let_def ebind_eq_Inr option_raise_eq_Inr dead_def)
  then have refused: "\<exists>err. authorize t prin act body h = Inl err" for prin act body
    by (cases "authorize t prin act body h") auto
  from perm_run_ok [OF assms(4) ok] have "\<forall>(u, c) \<in> set (capabilities h). \<not> consumed c \<longrightarrow>
         (\<exists>d. pending_decision h = Some d \<and> decision_id d = cap_decision_id c)"
    by (fastforce simp: perm_ok_def caps_ok_def cap_ok_def)
  with over refused show ?thesis by blast
qed

section \<open>A decision completes when everybody has answered\<close>

definition answer_command ::
  "game_state \<Rightarrow> string \<times> string \<times> string \<times> (string, pyval) dict \<Rightarrow> permission_error + game_state" where
  "answer_command g cmd =
     (case cmd of (t, prin, act, body) \<Rightarrow>
        ebind (authorize t prin act body g) (\<lambda>(h, c). Inr (record_response c h)))"

text \<open>
  While a decision is open: the \<open>j\<close>-th actor's token is \<open>toks ! j\<close>, made out to its own principal, and it is
  consumed and the actor's answer recorded exactly when the token is among the used ones.
\<close>

definition awaiting ::
  "game_state \<Rightarrow> string list \<Rightarrow> string list \<Rightarrow> string \<Rightarrow> string list \<Rightarrow> string set \<Rightarrow> game_state \<Rightarrow> bool" where
  "awaiting g0 who acts i toks used g \<longleftrightarrow>
     (\<exists>d. pending_decision g = Some d \<and> decision_id d = i \<and> decision_role d = ''pilot'' \<and> actors d = who
        \<and> (\<forall>j < length who. \<exists>c. map_of (capabilities g) (toks ! j) = Some c \<and> cap_decision_id c = i
              \<and> cap_actor c = Some (who ! j) \<and> allowed_actions c = acts
              \<and> principal_of g0 ''pilot'' (who ! j) = Inr (principal c)
              \<and> (consumed c \<longleftrightarrow> toks ! j \<in> used)
              \<and> (map_of (responses d) (who ! j) \<noteq> None \<longleftrightarrow> toks ! j \<in> used))
        \<and> (\<forall>t c. map_of (capabilities g) t = Some c \<longrightarrow> cap_decision_id c = i \<longrightarrow> t \<in> set toks))"

lemma principal_of_players: "players g = players h \<Longrightarrow> principal_of g role a = principal_of h role a"
  by (simp add: principal_of_def)

lemma issue_awaits:
  assumes "issue kind ''pilot'' who acts payloads together cont draws g = Inr (h, d, rest)" and "perm_ok g"
  shows "\<exists>toks. length toks = length who \<and> distinct toks \<and> awaiting g who acts (decision_id d) toks {} h"
proof -
  from assms(1) obtain g1 caps where g: "pending_decision g = None"
    and d: "decision_id d = decision_name (decision_counter g + 1)" "decision_role d = ''pilot''"
      "actors d = who" "decision_actions d = acts" "responses d = []"
    and all: "efold (grant_capability g1 d) (capabilities g, draws) who = Inr (caps, rest)"
    and g1: "players g1 = players g"
    and h: "capabilities h = caps" "pending_decision h = Some d"
    by (auto simp: issue_def Let_def ebind_eq_Inr decision_counter_def decision_name_def)
  from grant_all [OF all] obtain toks prins where
    new: "length toks = length who" "length prins = length who" "distinct toks" "set toks \<inter> fst ` set (capabilities g) = {}"
      "map (principal_of g1 ''pilot'') who = map Inr prins"
      "caps = capabilities g @ map (\<lambda>(t, a, p). (t, new_capability g1 d a p t)) (zip toks (zip who prins))"
    by (auto simp: d(2))
  let ?new = "map (\<lambda>(t, a, p). (t, new_capability g1 d a p t)) (zip toks (zip who prins))"
  have old: "cap_decision_id c \<noteq> decision_id d" if "map_of (capabilities g) t = Some c" for t c
  proof -
    from that have "(t, c) \<in> set (capabilities g)" by (rule map_of_SomeD)
    with assms(2) have "cap_ok (decision_counter g) (pending_decision g) (t, c)"
      by (simp add: perm_ok_def caps_ok_def)
    then show ?thesis by (auto simp: cap_ok_def d)
  qed
  have at: "map_of caps (toks ! j) = Some (new_capability g1 d (who ! j) (prins ! j) (toks ! j))"
    if "j < length who" for j
  proof -
    from that new(1) have "toks ! j \<in> set toks" by simp
    with new(4) have "toks ! j \<notin> fst ` set (capabilities g)" by blast
    then have "map_of (capabilities g) (toks ! j) = None" by (simp add: map_of_None_key)
    moreover have "(toks ! j, new_capability g1 d (who ! j) (prins ! j) (toks ! j)) \<in> set ?new"
      using that new(1,2) by (force simp: set_zip)
    moreover have "distinct (map fst ?new)" using map_fst_zip_granted [OF new(1,2)] new(3) by simp
    ultimately show ?thesis by (simp add: new(6) map_add_def)
  qed
  have prin: "principal_of g ''pilot'' (who ! j) = Inr (prins ! j)" if "j < length who" for j
    using arg_cong [OF new(5), of "\<lambda>xs. xs ! j"] that new(2) principal_of_players [OF g1] by simp
  have "t \<in> set toks" if "map_of caps t = Some c" "cap_decision_id c = decision_id d" for t c
  proof -
    from that old have "map_of ?new t = Some c" by (auto simp: new(6) map_add_def split: option.splits)
    then have "t \<in> fst ` set ?new" by (rule map_of_Some_key)
    then show ?thesis using map_fst_zip_granted [OF new(1,2)] by (metis set_map)
  qed
  with at prin have "awaiting g who acts (decision_id d) toks {} h"
    using d h by (auto simp: awaiting_def new_capability_def)
  with new(1,3) show ?thesis by blast
qed

lemma answerable:
  assumes "awaiting g0 who acts i toks used g" and "length toks = length who"
  shows "(\<exists>h. answer_command g (t, prin, act, body) = Inr h) \<longleftrightarrow>
    (\<exists>j < length who. t = toks ! j \<and> t \<notin> used \<and> principal_of g0 ''pilot'' (who ! j) = Inr prin \<and> act \<in> set acts)"
proof -
  from assms(1) obtain d where d: "pending_decision g = Some d" "decision_id d = i"
    and at: "\<And>j. j < length who \<Longrightarrow> \<exists>c. map_of (capabilities g) (toks ! j) = Some c \<and> cap_decision_id c = i
              \<and> allowed_actions c = acts \<and> principal_of g0 ''pilot'' (who ! j) = Inr (principal c)
              \<and> (consumed c \<longleftrightarrow> toks ! j \<in> used)"
    and own: "\<And>t c. map_of (capabilities g) t = Some c \<Longrightarrow> cap_decision_id c = i \<Longrightarrow> t \<in> set toks"
    unfolding awaiting_def by blast
  have "(\<exists>h. answer_command g (t, prin, act, body) = Inr h) \<longleftrightarrow>
      (\<exists>c. map_of (capabilities g) t = Some c \<and> \<not> consumed c \<and> cap_decision_id c = i \<and> principal c = prin
         \<and> act \<in> set (allowed_actions c))"
    using d by (auto simp: answer_command_def authorize_def Let_def ebind_eq_Inr option_raise_eq_Inr)
  also have "\<dots> \<longleftrightarrow> (\<exists>j < length who. t = toks ! j \<and> t \<notin> used
      \<and> principal_of g0 ''pilot'' (who ! j) = Inr prin \<and> act \<in> set acts)"
  proof
    assume "\<exists>c. map_of (capabilities g) t = Some c \<and> \<not> consumed c \<and> cap_decision_id c = i \<and> principal c = prin
         \<and> act \<in> set (allowed_actions c)"
    then obtain c where c: "map_of (capabilities g) t = Some c" "\<not> consumed c" "cap_decision_id c = i"
        "principal c = prin" "act \<in> set (allowed_actions c)" by blast
    from own [OF c(1,3)] obtain j where j: "j < length who" "t = toks ! j" by (auto simp: in_set_conv_nth assms(2))
    from at [OF j(1)] c j show "\<exists>j < length who. t = toks ! j \<and> t \<notin> used
      \<and> principal_of g0 ''pilot'' (who ! j) = Inr prin \<and> act \<in> set acts" by auto
  next
    assume "\<exists>j < length who. t = toks ! j \<and> t \<notin> used
      \<and> principal_of g0 ''pilot'' (who ! j) = Inr prin \<and> act \<in> set acts"
    with at show "\<exists>c. map_of (capabilities g) t = Some c \<and> \<not> consumed c \<and> cap_decision_id c = i \<and> principal c = prin
         \<and> act \<in> set (allowed_actions c)" by fastforce
  qed
  finally show ?thesis .
qed

lemma answer_advances:
  assumes "awaiting g0 who acts i toks used g" and "answer_command g (t, prin, act, body) = Inr h"
    and "length toks = length who" and "distinct toks" and "distinct who" and "[] \<notin> set who"
  shows "awaiting g0 who acts i toks (insert t used) h"
proof -
  from answerable [OF assms(1,3), of t prin act body] assms(2) obtain j where
    j: "j < length who" "t = toks ! j" by blast
  from assms(1) obtain d where d: "pending_decision g = Some d" "decision_id d = i" "decision_role d = ''pilot''"
    "actors d = who"
    and at: "\<And>j. j < length who \<Longrightarrow> \<exists>c. map_of (capabilities g) (toks ! j) = Some c \<and> cap_decision_id c = i
              \<and> cap_actor c = Some (who ! j) \<and> allowed_actions c = acts
              \<and> principal_of g0 ''pilot'' (who ! j) = Inr (principal c)
              \<and> (consumed c \<longleftrightarrow> toks ! j \<in> used)
              \<and> (map_of (responses d) (who ! j) \<noteq> None \<longleftrightarrow> toks ! j \<in> used)"
    and own: "\<And>t c. map_of (capabilities g) t = Some c \<Longrightarrow> cap_decision_id c = i \<Longrightarrow> t \<in> set toks"
    unfolding awaiting_def by blast
  from assms(2) d(1) obtain c where c: "map_of (capabilities g) t = Some c"
    and h: "h = record_response \<lparr>command_capability = c\<lparr>consumed := True\<rparr>, command_decision = d, command_action = act,
           command_payload = body\<rparr> (g\<lparr>capabilities := AList.update t (c\<lparr>consumed := True\<rparr>) (capabilities g)\<rparr>)"
    by (auto simp: answer_command_def authorize_def Let_def ebind_eq_Inr option_raise_eq_Inr)
  from at [OF j(1)] c j(2) have actor: "cap_actor c = Some (who ! j)" "allowed_actions c = acts"
    and mine: "cap_decision_id c = i" "principal_of g0 ''pilot'' (who ! j) = Inr (principal c)"
    by auto
  from j(1) assms(6) have "who ! j \<noteq> []" by (metis nth_mem)
  then have key: "actor_key (c\<lparr>consumed := True\<rparr>) = who ! j" by (simp add: actor_key_def actor)
  let ?d = "d\<lparr>responses := AList.update (who ! j) (answer_of act body) (responses d)\<rparr>"
  have pend: "pending_decision h = Some ?d" by (simp add: h record_response_def d(1) key)
  have caps: "capabilities h = AList.update t (c\<lparr>consumed := True\<rparr>) (capabilities g)"
    by (simp add: h record_response_def)
  have each: "\<exists>c'. map_of (capabilities h) (toks ! k) = Some c' \<and> cap_decision_id c' = i
              \<and> cap_actor c' = Some (who ! k) \<and> allowed_actions c' = acts
              \<and> principal_of g0 ''pilot'' (who ! k) = Inr (principal c')
              \<and> (consumed c' \<longleftrightarrow> toks ! k \<in> insert t used)
              \<and> (map_of (responses ?d) (who ! k) \<noteq> None \<longleftrightarrow> toks ! k \<in> insert t used)" if k: "k < length who" for k
  proof (cases "k = j")
    case True
    then show ?thesis using mine actor by (simp add: caps j(2))
  next
    case False
    then have "toks ! k \<noteq> t" "who ! k \<noteq> who ! j"
      using k j assms(3-5) by (simp_all add: nth_eq_iff_index_eq)
    then show ?thesis using at [OF k] by (simp add: caps)
  qed
  have "u \<in> set toks" if "map_of (capabilities h) u = Some c'" "cap_decision_id c' = i" for u c'
    using that own [of u c'] j(1) by (auto simp: caps j(2) assms(3) split: if_splits)
  with pend each d(2-4) show ?thesis unfolding awaiting_def by fastforce
qed

lemma answers_accumulate:
  assumes "efold answer_command g cmds = Inr k" and "awaiting g0 who acts i toks used g"
    and "length toks = length who" and "distinct toks" and "distinct who" and "[] \<notin> set who"
  shows "awaiting g0 who acts i toks (used \<union> fst ` set cmds) k
    \<and> distinct (map fst cmds) \<and> fst ` set cmds \<subseteq> set toks \<and> fst ` set cmds \<inter> used = {}"
  using assms(1,2)
proof (induction cmds arbitrary: g used)
  case (Cons c cmds)
  obtain t prin act body where c: "c = (t, prin, act, body)" by (cases c)
  from Cons.prems(1) obtain g1 where g1: "answer_command g (t, prin, act, body) = Inr g1" "efold answer_command g1 cmds = Inr k"
    by (auto simp: c ebind_eq_Inr)
  from answerable [OF Cons.prems(2) assms(3), of t prin act body] g1(1)
  have t: "t \<in> set toks" "t \<notin> used" using assms(3) by auto
  from Cons.IH [OF g1(2) answer_advances [OF Cons.prems(2) g1(1) assms(3-6)]] t show ?case
    by (auto simp: c image_iff)
qed simp

text \<open>The principal that answers for an actor: the pilot of the player who controls its turn, or its own.\<close>

definition decides_for :: "game_state \<Rightarrow> string \<Rightarrow> string \<Rightarrow> bool" where
  "decides_for g actor prin \<longleftrightarrow> (\<exists>p. map_of (players g) actor = Some p \<and>
     prin = ''pilot:'' @ (case map_of (stats p) ''turn_controlled_by'' of
       Some (PStr c) \<Rightarrow> if c = [] then actor else c | _ \<Rightarrow> actor))"

lemma principal_of_pilot: "principal_of g ''pilot'' actor = Inr prin \<longleftrightarrow> decides_for g actor prin"
proof (cases "map_of (players g) actor")
  case None
  then show ?thesis by (simp add: principal_of_def decides_for_def)
next
  case (Some p)
  have "strategic_controller p actor = (case map_of (stats p) ''turn_controlled_by'' of
      Some (PStr c) \<Rightarrow> if c = [] then actor else c | _ \<Rightarrow> actor)"
    by (simp add: strategic_controller_def split: option.split pyval.split)
  with Some show ?thesis by (auto simp: principal_of_def decides_for_def pilot_principal_def)
qed

text \<open>
  C30. A decision issued to pilots gives each actor one token, made out to the principal that decides for that
  actor.  In whatever order commands have been accepted since, a command is accepted exactly when it presents
  one of these tokens that has not been used yet, by its own principal, with an action on offer and any payload;
  so every actor who has not answered can still answer, and nobody can answer for another.  The actors whose
  tokens have been used are the ones whose answers are recorded, and the decision is complete exactly when
  all of them are, after as many commands as there are actors.
\<close>

theorem decision_completes:
  assumes "issue kind ''pilot'' who acts payloads together cont draws g = Inr (h, d, rest)"
    and "perm_ok g" and "distinct who" and "[] \<notin> set who"
  shows "\<exists>toks. length toks = length who \<and> distinct toks
    \<and> (\<forall>j < length who. \<exists>c. map_of (capabilities h) (toks ! j) = Some c \<and> cap_actor c = Some (who ! j)
         \<and> decides_for g (who ! j) (principal c))
    \<and> (\<forall>cmds k. efold answer_command h cmds = Inr k \<longrightarrow>
         (\<forall>t prin act body. (\<exists>k'. answer_command k (t, prin, act, body) = Inr k') \<longleftrightarrow>
            (\<exists>j < length who. t = toks ! j \<and> t \<notin> fst ` set cmds
               \<and> decides_for g (who ! j) prin \<and> act \<in> set acts))
       \<and> (\<exists>e. pending_decision k = Some e \<and>
            (\<forall>j < length who. map_of (responses e) (who ! j) \<noteq> None \<longleftrightarrow> toks ! j \<in> fst ` set cmds))
       \<and> (decision_complete k \<longleftrightarrow> set toks \<subseteq> fst ` set cmds)
       \<and> length cmds \<le> length who \<and> (decision_complete k \<longleftrightarrow> length cmds = length who))"
proof -
  from issue_awaits [OF assms(1,2)] obtain toks where toks: "length toks = length who" "distinct toks"
    and start: "awaiting g who acts (decision_id d) toks {} h" by blast
  have granted: "\<forall>j < length who. \<exists>c. map_of (capabilities h) (toks ! j) = Some c \<and> cap_actor c = Some (who ! j)
         \<and> decides_for g (who ! j) (principal c)"
    using start unfolding awaiting_def principal_of_pilot by blast
  have "(\<forall>t prin act body. (\<exists>k'. answer_command k (t, prin, act, body) = Inr k') \<longleftrightarrow>
            (\<exists>j < length who. t = toks ! j \<and> t \<notin> fst ` set cmds
               \<and> decides_for g (who ! j) prin \<and> act \<in> set acts))
       \<and> (\<exists>e. pending_decision k = Some e \<and>
            (\<forall>j < length who. map_of (responses e) (who ! j) \<noteq> None \<longleftrightarrow> toks ! j \<in> fst ` set cmds))
       \<and> (decision_complete k \<longleftrightarrow> set toks \<subseteq> fst ` set cmds)
       \<and> length cmds \<le> length who \<and> (decision_complete k \<longleftrightarrow> length cmds = length who)"
    if run: "efold answer_command h cmds = Inr k" for cmds k
  proof -
    let ?used = "fst ` set cmds"
    from answers_accumulate [OF run start toks assms(3,4)]
    have now: "awaiting g who acts (decision_id d) toks ?used k"
      and cmds: "distinct (map fst cmds)" "?used \<subseteq> set toks" by simp_all
    from now obtain e where e: "pending_decision k = Some e" "decision_role e = ''pilot''" "actors e = who"
      and recorded: "\<forall>j < length who. map_of (responses e) (who ! j) \<noteq> None \<longleftrightarrow> toks ! j \<in> ?used"
      unfolding awaiting_def by blast
    have "decision_complete k \<longleftrightarrow> (\<forall>j < length who. toks ! j \<in> ?used)"
      using recorded by (simp add: decision_complete_def expected_answers_def e list_all_length)
    also have "\<dots> \<longleftrightarrow> set toks \<subseteq> ?used" by (auto simp: subset_eq all_set_conv_all_nth toks(1))
    finally have complete: "decision_complete k \<longleftrightarrow> set toks \<subseteq> ?used" .
    have size: "card ?used = length cmds" using distinct_card [OF cmds(1)] by simp
    have all: "card (set toks) = length who" using distinct_card [OF toks(2)] toks(1) by simp
    have "length cmds \<le> length who" using card_mono [OF _ cmds(2)] size all by simp
    moreover have "set toks \<subseteq> ?used \<longleftrightarrow> length cmds = length who"
    proof
      assume "set toks \<subseteq> ?used"
      with cmds(2) have "?used = set toks" by blast
      then show "length cmds = length who" using size all by simp
    next
      assume "length cmds = length who"
      then show "set toks \<subseteq> ?used" using card_subset_eq [OF _ cmds(2)] size all by simp
    qed
    ultimately show ?thesis using answerable [OF now toks(1), unfolded principal_of_pilot] e(1) recorded complete by blast
  qed
  with toks granted show ?thesis by blast
qed

text \<open>
  What a player may do is what the capability allows, as long as the payload does not name an
  action of its own: the recorded answer carries the authorised action exactly when the payload has
  no other action entry, and an entry of the payload otherwise takes its place.
\<close>

theorem recorded_action:
  assumes "authorize t prin act body g = Inr (h, cmd)" and "distinct (map fst body)"
  shows "\<exists>d answer. pending_decision (record_response cmd h) = Some d
    \<and> map_of (responses d) (actor_key (command_capability cmd)) = Some answer
    \<and> act \<in> set (allowed_actions (command_capability cmd))
    \<and> map_of answer ''action'' = Some (dict_get (PStr act) body ''action'')"
proof -
  have merged: "map_of (foldl (\<lambda>d (k, v). AList.update k v d) d0 body) = map_of d0 ++ map_of body" for d0
    using assms(2)
  proof (induction body arbitrary: d0)
    case (Cons p body)
    obtain x v where p: "p = (x, v)" by (cases p)
    with Cons.prems have "x \<notin> dom (map_of body)" by (simp add: dom_map_of_conv_image_fst)
    then have none: "map_of body x = None" by blast
    have IH: "map_of (foldl (\<lambda>d (k, v). AList.update k v d) (AList.update x v d0) body)
        = map_of (AList.update x v d0) ++ map_of body"
      using Cons by simp
    show ?case
    proof (rule ext)
      fix y
      show "map_of (foldl (\<lambda>d (k, v). AList.update k v d) d0 (p # body)) y = (map_of d0 ++ map_of (p # body)) y"
        by (cases "y = x"; cases "map_of body y") (simp_all add: p IH map_add_def none)
    qed
  qed simp
  from assms(1) show ?thesis
    by (auto simp: authorize_def Let_def ebind_eq_Inr option_raise_eq_Inr record_response_def answer_of_def
        merged map_add_def dict_get_def split: option.splits)
qed


section \<open>A concrete decision\<close>

definition two_seats :: game_state where
  "two_seats = new_game [''A'', ''B'']"

definition two_asked :: "permission_error + game_state \<times> decision_group \<times> string list" where
  "two_asked = issue ''mulligan.declare'' ''pilot'' [''A'', ''B''] [''keep'', ''mulligan''] [] True [] [''x'', ''x'', ''y''] two_seats"

lemma two_seats_ok: "perm_ok two_seats"
  by (simp add: two_seats_def perm_ok_def caps_ok_def new_game_def)

definition both_keep :: "(string \<times> string \<times> string \<times> (string, pyval) dict) list" where
  "both_keep = [(''c_y'', ''pilot:B'', ''keep'', []), (''c_x'', ''pilot:A'', ''keep'', [])]"

lemma asked_runs:
  "\<exists>h d rest g1 k. two_asked = Inr (h, d, rest) \<and> answer_command h (hd both_keep) = Inr g1
     \<and> answer_command g1 (both_keep ! 1) = Inr k"
proof -
  have "(case two_asked of Inl e \<Rightarrow> False | Inr (h, d, rest) \<Rightarrow>
      (case answer_command h (hd both_keep) of Inl e \<Rightarrow> False | Inr g1 \<Rightarrow>
        (case answer_command g1 (both_keep ! 1) of Inl e \<Rightarrow> False | Inr k \<Rightarrow> True)))"
    by code_simp
  then show ?thesis by (simp only: case_sum_False split_paired_Ex prod.case) blast
qed

lemma tokens_single_use_witness:
  "\<exists>h d rest k1 k. two_asked = Inr (h, d, rest)
     \<and> perm_run two_seats [Issued (decision_id d) [''x'', ''x'', ''y''], Answered ''c_y'', Reissued [''z'']] k
     \<and> (\<exists>e. authorize ''c_y'' ''pilot:B'' ''keep'' [] k = Inl e)"
proof -
  have "(case two_asked of Inl e \<Rightarrow> False | Inr (h, d, rest) \<Rightarrow>
      (case answer_command h (hd both_keep) of Inl e \<Rightarrow> False | Inr k \<Rightarrow>
        (case reissue_pending [''z''] k of Inl e \<Rightarrow> False | Inr k \<Rightarrow> True)))" by code_simp
  then obtain h d rest k1 k where run: "two_asked = Inr (h, d, rest)" "answer_command h (hd both_keep) = Inr k1"
    and third: "reissue_pending [''z''] k1 = Inr k"
    by (simp only: case_sum_False split_paired_Ex prod.case) blast
  from run(2) obtain h1 cmd where a: "authorize ''c_y'' ''pilot:B'' ''keep'' [] h = Inr (h1, cmd)" "k1 = record_response cmd h1"
    by (auto simp: answer_command_def both_keep_def ebind_eq_Inr)
  then have second: "perm_step h (Answered ''c_y'') k1" using perm_step.answered by blast
  have first: "perm_run two_seats [Issued (decision_id d) [''x'', ''x'', ''y'']] h"
    using run(1) unfolding two_asked_def by (blast intro: perm_run.intros perm_step.issued)
  have later: "perm_run h [Answered ''c_y'', Reissued [''z'']] k"
    using second third by (blast intro: perm_run.intros perm_step.reissued)
  from a(1) obtain c where "map_of (capabilities h) ''c_y'' = Some c"
    by (auto simp: authorize_def ebind_eq_Inr option_raise_eq_Inr)
  from tokens_single_use [OF two_seats_ok first this later]
  have "\<exists>e. authorize ''c_y'' ''pilot:B'' ''keep'' [] k = Inl e"
    by (simp add: ends_def redrawn_def)
  moreover have "perm_run two_seats [Issued (decision_id d) [''x'', ''x'', ''y''], Answered ''c_y'', Reissued [''z'']] k"
    using first later by (blast elim: perm_run_Cons perm_run_Nil intro: perm_run.intros)
  ultimately show ?thesis using run(1) by blast
qed

lemma decision_completes_witness:
  "\<exists>h d rest k. two_asked = Inr (h, d, rest) \<and> efold answer_command h both_keep = Inr k \<and> decision_complete k"
proof -
  from asked_runs obtain h d rest g1 k where run: "two_asked = Inr (h, d, rest)"
    "answer_command h (hd both_keep) = Inr g1" "answer_command g1 (both_keep ! 1) = Inr k"
    by blast
  then have all: "efold answer_command h both_keep = Inr k" by (simp add: both_keep_def)
  have who: "distinct [''A'', ''B'']" "[] \<notin> set [''A'', ''B'']" by simp_all
  from decision_completes [OF run(1) [unfolded two_asked_def] two_seats_ok who] all
  have "decision_complete k \<longleftrightarrow> length both_keep = length [''A'', ''B'']" by blast
  then have "decision_complete k" by (simp add: both_keep_def)
  with run(1) all show ?thesis by blast
qed

lemma recorded_action_witness:
  "\<exists>h d rest h1 cmd. two_asked = Inr (h, d, rest)
     \<and> authorize ''c_x'' ''pilot:A'' ''keep'' [(''action'', PStr ''concede'')] h = Inr (h1, cmd)
     \<and> (\<exists>e answer. pending_decision (record_response cmd h1) = Some e
          \<and> map_of (responses e) ''A'' = Some answer \<and> map_of answer ''action'' = Some (PStr ''concede''))"
proof -
  have "(case two_asked of Inl e \<Rightarrow> False | Inr (h, d, rest) \<Rightarrow>
      (case authorize ''c_x'' ''pilot:A'' ''keep'' [(''action'', PStr ''concede'')] h of
         Inl e \<Rightarrow> False | Inr (h1, cmd) \<Rightarrow> actor_key (command_capability cmd) = ''A''))"
    by code_simp
  then obtain h d rest h1 cmd where run: "two_asked = Inr (h, d, rest)"
      "authorize ''c_x'' ''pilot:A'' ''keep'' [(''action'', PStr ''concede'')] h = Inr (h1, cmd)"
    and key: "actor_key (command_capability cmd) = ''A''"
    by (simp only: case_sum_False split_paired_Ex prod.case) blast
  from recorded_action [OF run(2)] key obtain e answer where
    "pending_decision (record_response cmd h1) = Some e" "map_of (responses e) ''A'' = Some answer"
    "map_of answer ''action'' = Some (PStr ''concede'')"
    by (auto simp: dict_get_def)
  with run show ?thesis by blast
qed

end
