(* ===== verification/Delayed_Triggers.thy ===== *)
theory Delayed_Triggers imports Permissions Engine_Core
begin

text \<open>
  Triggered abilities before they are queued: stack items as dictionaries (\<open>StackItem.to_dict\<close> and
  \<open>from_dict\<close> of \<open>quorune/model.py\<close>), and delayed triggers, how they are scheduled, matched against
  an event and turned into stack items (\<open>TriggerProcessingOwner\<close> of \<open>quorune/trigger_processing.py\<close>,
  \<open>quorune/delayed_triggers.py\<close>).

  The deterministic identifiers of \<open>uuid.uuid5\<close>, the engine's \<open>_grant_priority\<close> and the
  compatibility path for historical order frames are the fields of \<open>trigger_host\<close>.
\<close>

datatype processing_error =
    BatchFault trigger_error
  | BatchRefused trigger_error
  | OccurrenceFault trigger_error
  | StackFault model_error
  | StackShape string
  | IssueFault permission_error
  | CoreFault engine_error
  | ConditionNotNumber string
  | ConditionUnhashable
  | UnsupportedContinuation
  | OrderMalformed
  | BatchGone
  | OrderStale
  | NoResponse

record trigger_host =
  stable_id :: "string \<Rightarrow> string \<Rightarrow> string"
  give_priority :: "string option \<Rightarrow> game_state \<Rightarrow> processing_error + game_state"
  historical_order :: "string \<Rightarrow> pyval list \<Rightarrow> (string, pyval) dict \<Rightarrow> game_state \<Rightarrow> processing_error + game_state"

section \<open>Stack items as dictionaries\<close>

definition strs :: "string list \<Rightarrow> pyval" where
  "strs xs = PList (map PStr xs)"

definition opt_num :: "int option \<Rightarrow> pyval" where
  "opt_num n = (case n of None \<Rightarrow> PNone | Some i \<Rightarrow> PInt i)"

definition stack_item_to_dict :: "stack_item \<Rightarrow> (string, pyval) dict" where
  "stack_item_to_dict s =
     [(''stack_id'', PStr (stack_id s)), (''ref'', PStr (stack_ref s)), (''kind'', PStr (stack_kind s)),
      (''controller'', PStr (stack_controller s)), (''label'', PStr (stack_label s)),
      (''card_object_id'', opt_str (card_object_id s)), (''source_object_id'', opt_str (source_object_id s)),
      (''semantic_key'', opt_str (semantic_key s)), (''targets'', PList (targets s)),
      (''modes'', strs (modes s)), (''x_value'', opt_num (x_value s)),
      (''chosen_face'', opt_str (chosen_face s)), (''notes'', PStr (stack_notes s)),
      (''default_destination'', opt_str (default_destination s)), (''visibility'', strs (stack_visibility s)),
      (''context'', PDict (stack_context s))]
     @ (if mana_colors_spent s = [] then [] else [(''mana_colors_spent'', strs (mana_colors_spent s))])
     @ (if referred_object_ids s = [] then [] else [(''referred_object_ids'', strs (referred_object_ids s))])"

text \<open>
  Reading a stack item from the payload of an occurrence: the closed schema of the occurrence has
  already fixed the types of the fields.
\<close>

fun read_text :: "string \<Rightarrow> pyval \<Rightarrow> processing_error + string" where
  "read_text k (PStr s) = Inr s"
| "read_text k _ = Inl (StackShape k)"

fun read_text_option :: "string \<Rightarrow> pyval \<Rightarrow> processing_error + string option" where
  "read_text_option k PNone = Inr None"
| "read_text_option k (PStr s) = Inr (Some s)"
| "read_text_option k _ = Inl (StackShape k)"

fun read_int_option :: "string \<Rightarrow> pyval \<Rightarrow> processing_error + int option" where
  "read_int_option k PNone = Inr None"
| "read_int_option k (PInt i) = Inr (Some i)"
| "read_int_option k _ = Inl (StackShape k)"

fun read_values :: "string \<Rightarrow> pyval \<Rightarrow> processing_error + pyval list" where
  "read_values k (PList vs) = Inr vs"
| "read_values k _ = Inl (StackShape k)"

definition read_texts :: "string \<Rightarrow> pyval \<Rightarrow> processing_error + string list" where
  "read_texts k v = ebind (read_values k v) (emap (read_text k))"

fun read_mapping :: "string \<Rightarrow> pyval \<Rightarrow> processing_error + (string, pyval) dict" where
  "read_mapping k (PDict d) = Inr d"
| "read_mapping k _ = Inl (StackShape k)"

definition required :: "string \<Rightarrow> (string, pyval) dict \<Rightarrow> processing_error + string" where
  "required k d = ebind (option_raise (StackShape k) (map_of d k)) (read_text k)"

definition STACK_FIELDS :: "string list" where
  "STACK_FIELDS = STACK_ITEM_FIELDS @ [''mana_colors_spent'']"

definition stack_item_from_dict :: "(string, pyval) dict \<Rightarrow> processing_error + stack_item" where
  "stack_item_from_dict d =
     ebind (ensure (list_all (\<lambda>p. fst p \<in> set STACK_FIELDS) d) (StackShape ''unexpected'')) (\<lambda>_.
     ebind (required ''stack_id'' d) (\<lambda>i.
     ebind (required ''ref'' d) (\<lambda>ref.
     ebind (required ''kind'' d) (\<lambda>kind.
     ebind (required ''controller'' d) (\<lambda>who.
     ebind (required ''label'' d) (\<lambda>label.
     ebind (read_text_option ''card_object_id'' (dict_get PNone d ''card_object_id'')) (\<lambda>card.
     ebind (read_text_option ''source_object_id'' (dict_get PNone d ''source_object_id'')) (\<lambda>source.
     ebind (read_text_option ''semantic_key'' (dict_get PNone d ''semantic_key'')) (\<lambda>key.
     ebind (read_values ''targets'' (dict_get (PList []) d ''targets'')) (\<lambda>ts.
     ebind (read_texts ''modes'' (dict_get (PList []) d ''modes'')) (\<lambda>ms.
     ebind (read_int_option ''x_value'' (dict_get PNone d ''x_value'')) (\<lambda>x.
     ebind (read_text_option ''chosen_face'' (dict_get PNone d ''chosen_face'')) (\<lambda>face.
     ebind (read_text ''notes'' (dict_get (PStr []) d ''notes'')) (\<lambda>notes.
     ebind (read_text_option ''default_destination'' (dict_get PNone d ''default_destination'')) (\<lambda>dest.
     ebind (read_texts ''visibility'' (dict_get (PList []) d ''visibility'')) (\<lambda>vis.
     ebind (read_mapping ''context'' (dict_get (PDict []) d ''context'')) (\<lambda>ctxt.
     ebind (read_texts ''mana_colors_spent'' (dict_get (PList []) d ''mana_colors_spent'')) (\<lambda>spent.
     ebind (read_texts ''referred_object_ids'' (dict_get (PList []) d ''referred_object_ids'')) (\<lambda>ids.
     reraise StackFault (stack_item_init
       \<lparr>stack_id = i, stack_ref = ref, stack_kind = kind, stack_controller = who, stack_label = label,
        card_object_id = card, source_object_id = source, semantic_key = key, targets = ts, modes = ms,
        x_value = x, chosen_face = face, stack_notes = notes, default_destination = dest,
        stack_visibility = vis, stack_context = ctxt, mana_colors_spent = spent,
        referred_object_ids = ids\<rparr>))))))))))))))))))))"

section \<open>Delayed triggers\<close>

record delayed_spec =
  spec_controller :: string
  spec_label :: string
  spec_event :: string
  spec_condition :: "(string, pyval) dict"
  spec_template :: "(string, pyval) dict"
  spec_source :: "string option"
  spec_referred :: "string list"
  spec_once :: bool
  spec_expires :: "int option"

definition schedule_delayed_trigger ::
  "trigger_host \<Rightarrow> delayed_spec \<Rightarrow> game_state \<Rightarrow> processing_error + game_state \<times> delayed_trigger" where
  "schedule_delayed_trigger host spec g =
     (let (g1, ref) = next_ref ''DT'' g;
          source = (case spec_source spec of None \<Rightarrow> None | Some i \<Rightarrow> map_of (cards g1) i) in
      ebind (reraise StackFault (delayed_trigger_init
        \<lparr>trigger_id = stable_id host ''delayed-trigger'' ref, trigger_ref = ref,
         trigger_controller = spec_controller spec, trigger_label = spec_label spec,
         trigger_source_object_id = spec_source spec, event_kind = spec_event spec,
         condition = spec_condition spec, stack_template = spec_template spec,
         source_logical_object_id = map_option logical_object_id source,
         trigger_once = spec_once spec, trigger_turn_sequence = turn_sequence g1,
         trigger_expires_turn_sequence = spec_expires spec, trigger_active = True,
         trigger_referred_ids = spec_referred spec\<rparr>)) (\<lambda>t.
      Inr (log_event ((new_entry (Some (spec_controller spec)) ''trigger.delayed.created''
               (''Created delayed trigger '' @ ref @ '': '' @ spec_label spec @ ''.'') 1)
             \<lparr>log_details := [(''trigger'', PStr ref), (''condition'', PDict (spec_condition spec))]\<rparr>)
             (g1\<lparr>delayed_triggers := delayed_triggers g1 @ [t]\<rparr>), t)))"

text \<open>
  Equality of dynamic values as Python has it between booleans, integers and strings: \<open>True == 1\<close>.
\<close>

fun as_number :: "pyval \<Rightarrow> pyval" where
  "as_number (PBool b) = PInt (if b then 1 else 0)"
| "as_number v = v"

definition py_equal :: "pyval \<Rightarrow> pyval \<Rightarrow> bool" where
  "py_equal v w \<longleftrightarrow> as_number v = as_number w"

definition expected_value :: "delayed_trigger \<Rightarrow> string \<Rightarrow> pyval \<Rightarrow> processing_error + pyval" where
  "expected_value t key v =
     (if key = ''player'' then
        (case v of
           PList _ \<Rightarrow> Inl ConditionUnhashable
         | PDict _ \<Rightarrow> Inl ConditionUnhashable
         | _ \<Rightarrow> Inr (if v = PStr ''controller'' \<or> v = PStr ''$controller'' then PStr (trigger_controller t) else v))
      else Inr v)"

fun value_matches :: "pyval \<Rightarrow> pyval \<Rightarrow> bool" where
  "value_matches actual (PList vs) = list_ex (py_equal actual) vs"
| "value_matches actual v = py_equal actual v"

text \<open>
  The conditions of a trigger in order, from the trigger as it is: whether it matches, and the
  trigger afterwards, which a missed turn deactivates.
\<close>

fun conditions_match ::
  "int \<Rightarrow> (string, pyval) dict \<Rightarrow> delayed_trigger \<Rightarrow> (string, pyval) dict
     \<Rightarrow> processing_error + bool \<times> delayed_trigger" where
  "conditions_match now ctxt t [] = Inr (True, t)"
| "conditions_match now ctxt t ((key, v) # rest) =
     (if key = ''after_turn_sequence'' then
        ebind (option_raise (ConditionNotNumber key) (exact_int v)) (\<lambda>n.
        if now \<le> n then Inr (False, t) else conditions_match now ctxt t rest)
      else if key = ''next_turn_after_sequence'' then
        ebind (option_raise (ConditionNotNumber key) (exact_int v)) (\<lambda>n.
        if now > n + 1 then Inr (False, t\<lparr>trigger_active := False\<rparr>)
        else if now \<noteq> n + 1 then Inr (False, t)
        else conditions_match now ctxt t rest)
      else
        ebind (expected_value t key v) (\<lambda>w.
        if value_matches (dict_get PNone ctxt key) w then conditions_match now ctxt t rest
        else Inr (False, t)))"

definition trigger_matches ::
  "int \<Rightarrow> string \<Rightarrow> (string, pyval) dict \<Rightarrow> delayed_trigger \<Rightarrow> processing_error + bool \<times> delayed_trigger" where
  "trigger_matches now kind ctxt t =
     (if \<not> trigger_active t \<or> event_kind t \<noteq> kind then Inr (False, t)
      else if (case trigger_expires_turn_sequence t of None \<Rightarrow> False | Some n \<Rightarrow> now > n)
      then Inr (False, t\<lparr>trigger_active := False\<rparr>)
      else conditions_match now ctxt t (condition t))"

definition matching_delayed_triggers ::
  "string \<Rightarrow> (string, pyval) dict \<Rightarrow> game_state \<Rightarrow> processing_error + game_state \<times> delayed_trigger list" where
  "matching_delayed_triggers kind ctxt g =
     ebind (emap (trigger_matches (turn_sequence g) kind ctxt) (delayed_triggers g)) (\<lambda>rs.
     let after = map (\<lambda>(hit, t). (hit, if hit \<and> trigger_once t then t\<lparr>trigger_active := False\<rparr> else t)) rs in
     Inr (g\<lparr>delayed_triggers := map snd after\<rparr>, map snd (filter fst after)))"

definition template_text :: "(string, pyval) dict \<Rightarrow> string \<Rightarrow> string \<Rightarrow> string" where
  "template_text d key z =
     (case dict_get PNone d key of PStr s \<Rightarrow> if s \<noteq> [] then s else z | _ \<Rightarrow> z)"

definition materialize_delayed_trigger ::
  "delayed_trigger \<Rightarrow> string \<Rightarrow> string \<Rightarrow> string list \<Rightarrow> processing_error + stack_item" where
  "materialize_delayed_trigger t ref i vis =
     (let d = stack_template t in
      ebind (read_text_option ''semantic_key'' (dict_get PNone d ''semantic_key'')) (\<lambda>key.
      reraise StackFault (stack_item_init
        \<lparr>stack_id = i, stack_ref = ref, stack_kind = ''triggered_ability'',
         stack_controller = trigger_controller t, stack_label = template_text d ''label'' (trigger_label t),
         card_object_id = None, source_object_id = trigger_source_object_id t, semantic_key = key,
         targets = (case dict_get PNone d ''targets'' of PList vs \<Rightarrow> vs | _ \<Rightarrow> []), modes = [],
         x_value = None, chosen_face = None, stack_notes = template_text d ''note'' [],
         default_destination = None, stack_visibility = vis,
         stack_context =
           (let base = (case dict_get PNone d ''context'' of PDict c \<Rightarrow> c | _ \<Rightarrow> []);
                c1 = AList.update ''event'' (PStr (event_kind t)) base;
                c2 = (case source_logical_object_id t of
                        None \<Rightarrow> c1 | Some l \<Rightarrow> AList.update ''source_logical_object_id'' (PStr l) c1) in
            AList.update ''delayed_trigger_ref'' (PStr (trigger_ref t)) c2),
         mana_colors_spent = [], referred_object_ids = trigger_referred_ids t\<rparr>)))"

definition materialize ::
  "trigger_host \<Rightarrow> delayed_trigger \<Rightarrow> game_state \<Rightarrow> processing_error + game_state \<times> stack_item" where
  "materialize host t g =
     (let (g1, ref) = next_ref ''S'' g in
      ebind (materialize_delayed_trigger t ref (stable_id host ''stack'' ref) (turn_order g1)) (\<lambda>s.
      Inr (g1, s)))"

fun materialize_all ::
  "trigger_host \<Rightarrow> delayed_trigger list \<Rightarrow> game_state \<Rightarrow> processing_error + game_state \<times> stack_item list" where
  "materialize_all host [] g = Inr (g, [])"
| "materialize_all host (t # ts) g =
     ebind (materialize host t g) (\<lambda>(g1, s).
     ebind (materialize_all host ts g1) (\<lambda>(g2, ss). Inr (g2, s # ss)))"


section \<open>A delayed trigger fires once\<close>

text \<open>The triggers fired by a sequence of events, each at its turn.\<close>

fun event_run ::
  "(int \<times> string \<times> (string, pyval) dict) list \<Rightarrow> game_state \<Rightarrow> processing_error + game_state \<times> string list" where
  "event_run [] g = Inr (g, [])"
| "event_run ((now, kind, ctxt) # es) g =
     ebind (matching_delayed_triggers kind ctxt (g\<lparr>turn_sequence := now\<rparr>)) (\<lambda>(h, ts).
     ebind (event_run es h) (\<lambda>(k, ids). Inr (k, map trigger_id ts @ ids)))"

lemma conditions_match_frame:
  "conditions_match now ctxt t cs = Inr (hit, t') \<Longrightarrow>
     (t' = t \<or> t' = t\<lparr>trigger_active := False\<rparr>) \<and> (hit \<longrightarrow> t' = t)"
  by (induction cs) (auto simp: ebind_eq_Inr split: if_splits)

lemma trigger_matches_frame:
  assumes "trigger_matches now kind ctxt t = Inr (hit, t')"
  shows "(t' = t \<or> t' = t\<lparr>trigger_active := False\<rparr>)
    \<and> (hit \<longrightarrow> t' = t \<and> trigger_active t \<and> event_kind t = kind
         \<and> (\<forall>n. trigger_expires_turn_sequence t = Some n \<longrightarrow> now \<le> n))"
proof (cases "\<not> trigger_active t \<or> event_kind t \<noteq> kind
    \<or> (case trigger_expires_turn_sequence t of None \<Rightarrow> False | Some n \<Rightarrow> now > n)")
  case True
  with assms show ?thesis by (auto simp: trigger_matches_def split: if_splits)
next
  case False
  with assms have "conditions_match now ctxt t (condition t) = Inr (hit, t')"
    by (simp add: trigger_matches_def)
  from conditions_match_frame [OF this] False show ?thesis by (auto split: option.splits)
qed

definition settled :: "bool \<times> delayed_trigger \<Rightarrow> delayed_trigger" where
  "settled p = (if fst p \<and> trigger_once (snd p) then (snd p)\<lparr>trigger_active := False\<rparr> else snd p)"

lemma matching_eq:
  assumes "matching_delayed_triggers kind ctxt g = Inr (h, ts)"
  obtains rs where "list_all2 (\<lambda>t r. trigger_matches (turn_sequence g) kind ctxt t = Inr r) (delayed_triggers g) rs"
    and "delayed_triggers h = map settled rs" and "ts = map settled (filter fst rs)"
proof -
  from assms obtain rs where rs: "emap (trigger_matches (turn_sequence g) kind ctxt) (delayed_triggers g) = Inr rs"
    and h: "delayed_triggers h = map snd (map (\<lambda>(hit, t). (hit, if hit \<and> trigger_once t then t\<lparr>trigger_active := False\<rparr> else t)) rs)"
    and ts: "ts = map snd (filter fst (map (\<lambda>(hit, t). (hit, if hit \<and> trigger_once t then t\<lparr>trigger_active := False\<rparr> else t)) rs))"
    by (auto simp: matching_delayed_triggers_def Let_def ebind_eq_Inr)
  show thesis
  proof (rule that)
    show "list_all2 (\<lambda>t r. trigger_matches (turn_sequence g) kind ctxt t = Inr r) (delayed_triggers g) rs"
      using rs by (simp add: emap_Inr_iff)
    show "delayed_triggers h = map settled rs" by (simp add: h settled_def case_prod_beta o_def)
    show "ts = map settled (filter fst rs)"
      by (simp add: ts filter_map o_def case_prod_beta settled_def)
  qed
qed

lemma settled_simps [simp]:
  "trigger_id (settled p) = trigger_id (snd p)" "trigger_once (settled p) = trigger_once (snd p)"
  "event_kind (settled p) = event_kind (snd p)"
  "trigger_expires_turn_sequence (settled p) = trigger_expires_turn_sequence (snd p)"
  by (simp_all add: settled_def)

lemma matched_ids:
  assumes "list_all2 (\<lambda>t r. trigger_matches now kind ctxt t = Inr r) ts rs"
  shows "map (trigger_id \<circ> snd) rs = map trigger_id ts"
  using assms
proof (induction rule: list_all2_induct)
  case (Cons t ts r rs)
  from Cons(1) trigger_matches_frame [of now kind ctxt t "fst r" "snd r"]
  have "trigger_id (snd r) = trigger_id t" by auto
  with Cons show ?case by simp
qed simp

lemma matched_trigger:
  assumes "list_all2 (\<lambda>t r. trigger_matches now kind ctxt t = Inr r) ts rs"
    and "distinct (map trigger_id ts)" and "t \<in> set ts"
  obtains r where "r \<in> set rs" and "trigger_matches now kind ctxt t = Inr r"
    and "trigger_id t \<in> set (map trigger_id (map settled (filter fst rs))) \<longleftrightarrow> fst r"
proof -
  from assms(3) obtain i where i: "i < length ts" "t = ts ! i" by (auto simp: in_set_conv_nth)
  with assms(1) have r: "trigger_matches now kind ctxt t = Inr (rs ! i)" "i < length rs"
    by (auto simp: list_all2_conv_all_nth)
  have ids: "map (trigger_id \<circ> snd) rs = map trigger_id ts" by (rule matched_ids [OF assms(1)])
  have only: "j = i" if "j < length rs" "trigger_id (snd (rs ! j)) = trigger_id t" for j
  proof -
    have len: "length rs = length ts" using ids by (metis length_map)
    have "trigger_id (ts ! j) = trigger_id (snd (rs ! j))"
      using ids that(1) len by (metis comp_apply nth_map)
    with that assms(2) i len show ?thesis
      by (metis distinct_conv_nth length_map nth_map)
  qed
  have same: "trigger_id (snd (rs ! i)) = trigger_id t"
    using ids r(2) i by (metis comp_apply length_map nth_map)
  have "trigger_id t \<in> set (map trigger_id (map settled (filter fst rs))) \<longleftrightarrow> fst (rs ! i)"
  proof
    assume "trigger_id t \<in> set (map trigger_id (map settled (filter fst rs)))"
    then obtain p where "p \<in> set rs" "fst p" "trigger_id (snd p) = trigger_id t" by auto
    then show "fst (rs ! i)" using only by (metis in_set_conv_nth)
  next
    assume "fst (rs ! i)"
    then have "rs ! i \<in> set (filter fst rs)" using r(2) by simp
    then show "trigger_id t \<in> set (map trigger_id (map settled (filter fst rs)))"
      using same by (metis (no_types, lifting) image_eqI list.set_map settled_simps(1))
  qed
  with that [of "rs ! i"] r show thesis by simp
qed

lemma count_list_distinct: "distinct xs \<Longrightarrow> count_list xs x = (if x \<in> set xs then 1 else 0)"
  by (induction xs) auto

text \<open>
  C36. A delayed trigger that is to fire once fires at most once, whatever events happen in whatever
  turns afterwards; a trigger fires only at an event of its own kind, not after the turn in which it
  expires, and never once it has become inactive.
\<close>

theorem delayed_fires_once:
  assumes "event_run es g = Inr (h, ids)" and "distinct (map trigger_id (delayed_triggers g))"
    and "t \<in> set (delayed_triggers g)"
  shows "(trigger_once t \<longrightarrow> count_list ids (trigger_id t) \<le> 1)
    \<and> (\<not> trigger_active t \<longrightarrow> trigger_id t \<notin> set ids)
    \<and> (trigger_id t \<in> set ids \<longrightarrow> (\<exists>(now, kind, ctxt) \<in> set es. kind = event_kind t
          \<and> (\<forall>n. trigger_expires_turn_sequence t = Some n \<longrightarrow> now \<le> n)))"
  using assms
proof (induction es arbitrary: g ids t)
  case (Cons e es)
  obtain now kind ctxt where e: "e = (now, kind, ctxt)" by (cases e)
  from Cons.prems(1) obtain g1 ts rest where
    match: "matching_delayed_triggers kind ctxt (g\<lparr>turn_sequence := now\<rparr>) = Inr (g1, ts)"
    and run: "event_run es g1 = Inr (h, rest)" and ids: "ids = map trigger_id ts @ rest"
    by (auto simp: e ebind_eq_Inr)
  from matching_eq [OF match] obtain rs where
    rs: "list_all2 (\<lambda>t r. trigger_matches now kind ctxt t = Inr r) (delayed_triggers g) rs"
    and g1: "delayed_triggers g1 = map settled rs" and ts: "ts = map settled (filter fst rs)" by auto
  from matched_trigger [OF rs Cons.prems(2,3)] obtain r where r: "r \<in> set rs"
    "trigger_matches now kind ctxt t = Inr r" "trigger_id t \<in> set (map trigger_id ts) \<longleftrightarrow> fst r"
    unfolding ts by blast
  have "trigger_matches now kind ctxt t = Inr (fst r, snd r)" using r(2) by simp
  from trigger_matches_frame [OF this]
  have frame: "snd r = t \<or> snd r = t\<lparr>trigger_active := False\<rparr>"
    and hit: "fst r \<Longrightarrow> snd r = t \<and> trigger_active t \<and> event_kind t = kind
         \<and> (\<forall>n. trigger_expires_turn_sequence t = Some n \<longrightarrow> now \<le> n)"
    by auto
  have all: "map (trigger_id \<circ> snd) rs = map trigger_id (delayed_triggers g)" by (rule matched_ids [OF rs])
  have mem: "settled r \<in> set (delayed_triggers g1)" using r(1) by (simp add: g1)
  have dist: "distinct (map trigger_id (delayed_triggers g1))"
    using all Cons.prems(2) by (simp add: g1 comp_def)
  from Cons.IH [OF run dist mem] frame have later:
    "trigger_once t \<Longrightarrow> count_list rest (trigger_id t) \<le> 1"
    "\<not> trigger_active (settled r) \<Longrightarrow> trigger_id t \<notin> set rest"
    "trigger_id t \<in> set rest \<Longrightarrow> \<exists>(now, kind, ctxt) \<in> set es. kind = event_kind t
          \<and> (\<forall>n. trigger_expires_turn_sequence t = Some n \<longrightarrow> now \<le> n)"
    by auto
  have "distinct (map (trigger_id \<circ> snd) (filter fst rs))"
    using all Cons.prems(2) by (metis distinct_map_filter)
  then have "distinct (map trigger_id ts)" by (simp add: ts comp_def)
  then have count: "count_list ids (trigger_id t) = (if fst r then 1 else 0) + count_list rest (trigger_id t)"
    using r(3) by (simp add: ids count_list_distinct)
  have once: "trigger_once t \<Longrightarrow> count_list ids (trigger_id t) \<le> 1"
  proof (cases "fst r")
    case True
    assume "trigger_once t"
    with True hit later(2) have "trigger_id t \<notin> set rest" by (auto simp: settled_def)
    with count True show ?thesis by (simp add: count_list_0_iff)
  next
    case False
    assume "trigger_once t"
    with count later(1) False show ?thesis by simp
  qed
  have idle: "\<not> trigger_active t \<Longrightarrow> trigger_id t \<notin> set ids"
    using hit later(2) frame r(3) by (auto simp: ids settled_def split: if_splits)
  have "\<exists>(now, kind, ctxt) \<in> set (e # es). kind = event_kind t
          \<and> (\<forall>n. trigger_expires_turn_sequence t = Some n \<longrightarrow> now \<le> n)" if "trigger_id t \<in> set ids"
  proof (cases "fst r")
    case True
    with hit show ?thesis by (simp add: e)
  next
    case False
    with that r(3) later(3) show ?thesis by (auto simp: ids)
  qed
  with once idle show ?case by blast
qed simp

section \<open>A concrete delayed trigger\<close>

definition upkeep_trigger :: delayed_trigger where
  "upkeep_trigger =
     \<lparr>trigger_id = ''t'', trigger_ref = ''DT1'', trigger_controller = ''A'', trigger_label = ''draw'',
      trigger_source_object_id = None, event_kind = ''step.begin'',
      condition = [(''step'', PStr ''upkeep''), (''player'', PStr ''controller'')], stack_template = [],
      source_logical_object_id = None, trigger_once = True, trigger_turn_sequence = 1,
      trigger_expires_turn_sequence = Some 5, trigger_active = True, trigger_referred_ids = []\<rparr>"

definition upkeeps :: "(int \<times> string \<times> (string, pyval) dict) list" where
  "upkeeps = map (\<lambda>(n, who). (n, ''step.begin'', [(''step'', PStr ''upkeep''), (''player'', PStr who)]))
     [(2, ''B''), (3, ''A''), (5, ''A'')]"

lemma delayed_fires_once_witness:
  "\<exists>h ids. event_run upkeeps (new_game [''A'', ''B'']\<lparr>delayed_triggers := [upkeep_trigger]\<rparr>) = Inr (h, ids)
     \<and> ''t'' \<in> set ids \<and> count_list ids ''t'' \<le> 1"
proof -
  let ?g = "new_game [''A'', ''B'']\<lparr>delayed_triggers := [upkeep_trigger]\<rparr>"
  have "(case event_run upkeeps ?g of Inl e \<Rightarrow> False | Inr (h, ids) \<Rightarrow> ''t'' \<in> set ids)" by code_simp
  then obtain h ids where run: "event_run upkeeps ?g = Inr (h, ids)" "''t'' \<in> set ids"
    by (simp only: case_sum_False split_paired_Ex prod.case) blast
  from delayed_fires_once [OF run(1), of upkeep_trigger] have "count_list ids ''t'' \<le> 1"
    by (simp add: upkeep_trigger_def)
  with run show ?thesis by blast
qed

end
