(* ===== verification/Trigger_Processing.thy ===== *)
theory Trigger_Processing imports Delayed_Triggers
begin

text \<open>
  Putting triggered abilities on the stack (\<open>quorune/trigger_processing.py\<close>): queueing detected
  triggers into the pending batches of the game, the placement loop that puts them on the stack or
  asks their controller for an order, and the completion of that order.  The theory composes the
  batches of \<open>Trigger_Batches\<close>, the capabilities of \<open>Permissions\<close> and the log and APNAP
  order of \<open>Engine_Core\<close>.  An issuing operation takes the values \<open>draws\<close> the random source
  returns from then on.
\<close>

section \<open>Pending batches\<close>

definition enqueue_trigger_batch ::
  "trigger_host \<Rightarrow> stack_item list \<Rightarrow> game_state \<Rightarrow> processing_error + game_state" where
  "enqueue_trigger_batch host items g =
     (if items = [] then Inr g
      else
        ebind (reraise CoreFault (active g)) (\<lambda>seats.
        ebind (emap (\<lambda>s. reraise OccurrenceFault (occurrence_from_dict (PDict (stack_item_to_dict s))))
                 (filter (\<lambda>s. stack_controller s \<in> set seats) items)) (\<lambda>waiting.
        if waiting = [] then Inr g
        else
          ebind (reraise CoreFault (apnap_order g)) (\<lambda>order.
          ebind (if pending_trigger_batches g = [] then Inr None
                 else reraise BatchFault (merge_pending_trigger_batch (last (pending_trigger_batches g))
                        (map Occurrence waiting) order (priority_epoch g))) (\<lambda>merged.
          case merged of
            Some b \<Rightarrow> Inr (g\<lparr>pending_trigger_batches := butlast (pending_trigger_batches g) @ [b]\<rparr>)
          | None \<Rightarrow>
              let (g1, ref) = next_ref ''TB'' g in
              ebind (reraise BatchFault (create_pending_trigger_batch (stable_id host ''trigger-batch'' ref) ref
                       (map Occurrence waiting) order (turn_sequence g1) (priority_epoch g1))) (\<lambda>b.
              Inr (g1\<lparr>pending_trigger_batches := pending_trigger_batches g1 @ [b]\<rparr>)))))))"

definition source_card :: "game_state \<Rightarrow> stack_item \<Rightarrow> card_instance option" where
  "source_card g s =
     (case source_object_id s of
        None \<Rightarrow> None
      | Some i \<Rightarrow> if i = [] then None else map_of (cards g) i)"

definition trigger_entry :: "game_state \<Rightarrow> stack_item \<Rightarrow> log_entry" where
  "trigger_entry g s =
     (new_entry (Some (stack_controller s)) ''stack.trigger''
        (''Queued '' @ stack_ref s @ '': '' @ stack_label s @ ''.'') 2)
     \<lparr>log_details := [(''stack'', PStr (stack_ref s)),
        (''source'', opt_str (map_option card_ref (source_card g s))),
        (''semantic_program'', opt_str (semantic_key s)),
        (''event'', dict_get PNone (stack_context s) ''event''),
        (''trigger'', dict_get PNone (stack_context s) ''delayed_trigger_ref'')],
      log_objects := (case source_card g s of None \<Rightarrow> [] | Some c \<Rightarrow> [object_id c])\<rparr>"

definition place_trigger_item :: "game_state \<Rightarrow> trigger_occurrence \<Rightarrow> processing_error + game_state" where
  "place_trigger_item g occ =
     ebind (stack_item_from_dict (payload occ)) (\<lambda>s.
     Inr (log_event (trigger_entry g s) (g\<lparr>stack_items := stack_items g @ [s]\<rparr>)))"

definition place_trigger_items ::
  "trigger_occurrence list \<Rightarrow> game_state \<Rightarrow> processing_error + game_state" where
  "place_trigger_items occs g = efold place_trigger_item g occs"

definition issue_trigger_order ::
  "string list \<Rightarrow> string \<Rightarrow> (string \<times> string) list \<Rightarrow> (string, pyval) dict \<Rightarrow> game_state
     \<Rightarrow> processing_error + game_state" where
  "issue_trigger_order draws who choices cont g =
     ebind (reraise IssueFault (issue ''trigger.order'' ''pilot'' [who] [''order'']
              [(who, [(''triggers'', PList (map (\<lambda>(ref, label).
                   PDict [(''id'', PStr ref), (''label'', PStr label)]) choices)),
                 (''instruction'', PStr ''Order bottom-to-top on the stack.'')])]
              False cont draws g)) (\<lambda>(h, d, rest). Inr h)"

datatype placement = Finished | Asked | Placed

definition place_group ::
  "string list \<Rightarrow> trigger_batch \<Rightarrow> trigger_batch list \<Rightarrow> game_state \<Rightarrow> processing_error + game_state \<times> placement" where
  "place_group draws b later g =
     (case groups b of
        [] \<Rightarrow> Inl (BatchFault EmptyGroups)
      | grp # _ \<Rightarrow>
          (case group_items grp of
             [] \<Rightarrow> Inl (BatchFault EmptyGroup)
           | [item] \<Rightarrow>
               ebind (reraise BatchFault (complete_pending_trigger_group b (group_controller grp) [item_ref item]))
                 (\<lambda>(ordered, remaining).
               ebind (place_trigger_items ordered (g\<lparr>pending_trigger_batches := b # later\<rparr>)) (\<lambda>g1.
               Inr (g1\<lparr>pending_trigger_batches := (case remaining of None \<Rightarrow> later | Some r \<Rightarrow> r # later)\<rparr>,
                    Placed)))
           | items \<Rightarrow>
               ebind (issue_trigger_order draws (group_controller grp)
                        (map (\<lambda>i. (item_ref i, item_label i)) items)
                        [(''trigger_batch_id'', PStr (batch_id b)), (''trigger_refs'', strs (map item_ref items))]
                        (g\<lparr>pending_trigger_batches := b # later\<rparr>)) (\<lambda>g1. Inr (g1, Asked))))"

definition placement_step :: "string list \<Rightarrow> game_state \<Rightarrow> processing_error + game_state \<times> placement" where
  "placement_step draws g =
     (case pending_trigger_batches g of
        [] \<Rightarrow> Inr (g, Finished)
      | b # later \<Rightarrow>
          ebind (reraise CoreFault (apnap_order g)) (\<lambda>order.
          ebind (reraise BatchFault (begin_pending_trigger_placement b order)) (\<lambda>started.
          case started of
            None \<Rightarrow> Inr (g\<lparr>pending_trigger_batches := later\<rparr>, Placed)
          | Some b1 \<Rightarrow> place_group draws b1 later g)))"

text \<open>
  The loop ends because every turn of it drops a batch, starts one or places one of its groups:
  a batch not yet started counts one more than its triggers, a started one its groups.
\<close>

definition batch_weight :: "trigger_batch \<Rightarrow> nat" where
  "batch_weight b = Suc (if placement_started b then length (groups b) else Suc (length (batch_items b)))"

definition pending_weight :: "game_state \<Rightarrow> nat" where
  "pending_weight g = sum_list (map batch_weight (pending_trigger_batches g))"

lemma place_trigger_items_pending:
  "place_trigger_items occs g = Inr h \<Longrightarrow> pending_trigger_batches h = pending_trigger_batches g"
proof (induction occs arbitrary: g)
  case (Cons o' occs)
  then obtain g1 where "place_trigger_item g o' = Inr g1" "place_trigger_items occs g1 = Inr h"
    by (auto simp: place_trigger_items_def ebind_eq_Inr)
  moreover have "pending_trigger_batches g1 = pending_trigger_batches g"
    using calculation(1) by (auto simp: place_trigger_item_def ebind_eq_Inr)
  ultimately show ?case using Cons.IH by simp
qed (simp add: place_trigger_items_def)

lemma complete_shrinks:
  assumes "complete_pending_trigger_group b c refs = Inr (ordered, Some r)"
  shows "length (groups r) < length (groups b) \<and> placement_started r \<and> placement_started b"
  using assms
  by (auto simp: complete_pending_trigger_group_def Let_def ebind_eq_Inr batch_init_eq
      split: list.splits if_splits simp del: string_tuple.simps)

lemma emap_group_items:
  assumes "emap (\<lambda>c. group_init c (filter (\<lambda>i. item_controller i = c) is)) cs = Inr gs" and "distinct cs"
  shows "length gs = length cs \<and> length cs \<le> length is"
proof -
  have "\<forall>c \<in> set cs. \<exists>i \<in> set is. item_controller i = c"
  proof
    fix c assume "c \<in> set cs"
    then obtain k where k: "k < length cs" "cs ! k = c" by (auto simp: in_set_conv_nth)
    from assms(1) have "group_init c (filter (\<lambda>i. item_controller i = c) is) = Inr (gs ! k)"
      using k by (auto simp: emap_Inr_iff list_all2_conv_all_nth)
    then have "filter (\<lambda>i. item_controller i = c) is \<noteq> []" by (simp add: group_init_eq)
    then show "\<exists>i \<in> set is. item_controller i = c" by (auto simp: filter_empty_conv)
  qed
  then have "set cs \<subseteq> item_controller ` set is" by (auto simp: image_iff)
  then have "card (set cs) \<le> card (set is)"
    using surj_card_le [of "set is" "set cs" item_controller] by simp
  also have "\<dots> \<le> length is" by (rule card_length)
  finally show ?thesis using emap_length [OF assms(1)] distinct_card [OF assms(2)] by simp
qed

lemma begin_weighs_less:
  assumes "begin_pending_trigger_placement b order = Inr (Some b1)"
  shows "placement_started b1 \<and> length (groups b1) < batch_weight b"
proof (cases "placement_started b")
  case True
  with assms show ?thesis by (simp add: begin_pending_trigger_placement_def batch_weight_def)
next
  case False
  then obtain gs where gs: "group_pending_trigger_items (map Occurrence (batch_items b)) order True = Inr gs"
    and b1: "groups b1 = gs" "placement_started b1"
    using assms by (auto simp: begin_pending_trigger_placement_def ebind_eq_Inr batch_init_eq split: if_splits)
  from gs have ord: "distinct order"
    and groups: "emap (\<lambda>c. group_init c (filter (\<lambda>i. item_controller i = c) (batch_items b)))
      (filter (\<lambda>c. list_ex (\<lambda>i. item_controller i = c) (batch_items b)) order) = Inr gs"
    by (auto simp: group_pending_trigger_items_def ebind_eq_Inr string_tuple_strings normalize_occurrences Let_def
        simp del: string_tuple.simps)
  from emap_group_items [OF groups distinct_filter [OF ord]] b1 False show ?thesis
    by (simp add: batch_weight_def)
qed

lemma place_group_weight:
  assumes "place_group draws b1 later g = Inr (h, Placed)"
  shows "\<exists>r. pending_trigger_batches h = r @ later
    \<and> (r = [] \<or> (\<exists>b2. r = [b2] \<and> placement_started b2 \<and> length (groups b2) < length (groups b1)))"
proof -
  from assms obtain grp rest item ordered remaining g1 where
    "groups b1 = grp # rest" "group_items grp = [item]"
    and fin: "complete_pending_trigger_group b1 (group_controller grp) [item_ref item] = Inr (ordered, remaining)"
    and "place_trigger_items ordered (g\<lparr>pending_trigger_batches := b1 # later\<rparr>) = Inr g1"
    and h: "h = g1\<lparr>pending_trigger_batches := (case remaining of None \<Rightarrow> later | Some r \<Rightarrow> r # later)\<rparr>"
    by (auto simp: place_group_def ebind_eq_Inr split: list.splits)
  with complete_shrinks [of b1 "group_controller grp" "[item_ref item]" ordered] show ?thesis
    by (cases remaining) auto
qed

lemma placement_step_weight:
  assumes "placement_step draws g = Inr (h, Placed)"
  shows "pending_weight h < pending_weight g"
proof -
  obtain b later where g: "pending_trigger_batches g = b # later"
    using assms by (cases "pending_trigger_batches g") (auto simp: placement_step_def)
  with assms obtain order started where
    started: "begin_pending_trigger_placement b order = Inr started"
    and after: "(case started of None \<Rightarrow> Inr (g\<lparr>pending_trigger_batches := later\<rparr>, Placed)
          | Some b1 \<Rightarrow> place_group draws b1 later g) = Inr (h, Placed)"
    by (auto simp: placement_step_def ebind_eq_Inr)
  show ?thesis
  proof (cases started)
    case None
    with after g show ?thesis by (auto simp: pending_weight_def batch_weight_def)
  next
    case (Some b1)
    with started have less: "placement_started b1" "length (groups b1) < batch_weight b"
      using begin_weighs_less by auto
    from after Some place_group_weight obtain r where "pending_trigger_batches h = r @ later"
      "r = [] \<or> (\<exists>b2. r = [b2] \<and> placement_started b2 \<and> length (groups b2) < length (groups b1))"
      by fastforce
    with less g show ?thesis by (auto simp: pending_weight_def batch_weight_def)
  qed
qed

function begin_pending_trigger_batch :: "string list \<Rightarrow> game_state \<Rightarrow> processing_error + game_state \<times> bool" where
  "begin_pending_trigger_batch draws g =
     (case placement_step draws g of
        Inl e \<Rightarrow> Inl e
      | Inr (h, Finished) \<Rightarrow> Inr (h, False)
      | Inr (h, Asked) \<Rightarrow> Inr (h, True)
      | Inr (h, Placed) \<Rightarrow> begin_pending_trigger_batch draws h)"
  by pat_completeness auto
termination
  by (relation "measure (\<lambda>(draws, g). pending_weight g)") (auto dest: placement_step_weight)

declare begin_pending_trigger_batch.simps [simp del]


section \<open>Entry points\<close>

definition start_delayed_trigger_batch ::
  "trigger_host \<Rightarrow> string list \<Rightarrow> delayed_trigger list \<Rightarrow> string \<Rightarrow> game_state \<Rightarrow> processing_error + game_state" where
  "start_delayed_trigger_batch host draws triggers after g =
     ebind (ensure (after = ''grant_priority'') UnsupportedContinuation) (\<lambda>_.
     ebind (materialize_all host triggers g) (\<lambda>(g1, items).
     ebind (enqueue_trigger_batch host items g1) (\<lambda>g2.
     ebind (begin_pending_trigger_batch draws g2) (\<lambda>(g3, asked).
     if asked then Inr g3 else give_priority host (active_player g3) g3))))"

definition clear_pending_batches :: "game_state \<Rightarrow> game_state" where
  "clear_pending_batches g = g\<lparr>pending_trigger_batches := []\<rparr>"

fun first_batch :: "string \<Rightarrow> trigger_batch list \<Rightarrow> (trigger_batch list \<times> trigger_batch \<times> trigger_batch list) option" where
  "first_batch i [] = None"
| "first_batch i (b # bs) =
     (if batch_id b = i then Some ([], b, bs)
      else case first_batch i bs of None \<Rightarrow> None | Some (xs, c, ys) \<Rightarrow> Some (b # xs, c, ys))"

definition continuation_batch :: "(string, pyval) dict \<Rightarrow> pyval" where
  "continuation_batch cont =
     (let v = dict_get PNone cont ''trigger_batch_id'' in
      if truthy v then v else dict_get PNone cont ''semantic_trigger_batch_id'')"

fun order_refs :: "pyval \<Rightarrow> string list option" where
  "order_refs (PList vs) =
     (if vs \<noteq> [] \<and> list_all (\<lambda>v. nonempty_str v \<noteq> None) vs \<and> distinct vs
      then Some (List.map_filter nonempty_str vs) else None)"
| "order_refs _ = None"

definition complete_trigger_order ::
  "trigger_host \<Rightarrow> string list \<Rightarrow> string \<Rightarrow> pyval list \<Rightarrow> (string, pyval) dict \<Rightarrow> game_state
     \<Rightarrow> processing_error + game_state" where
  "complete_trigger_order host draws who values cont g =
     (if continuation_batch cont = PNone \<and> map_of cont ''trigger_ids'' \<noteq> None
      then historical_order host who values cont g
      else
     ebind (option_raise OrderMalformed (nonempty_str (continuation_batch cont))) (\<lambda>i.
     let key = (if map_of cont ''trigger_batch_id'' \<noteq> None then ''trigger_batch_id''
                else ''semantic_trigger_batch_id'') in
     ebind (ensure (fst ` set cont = {key, ''trigger_refs''}) OrderMalformed) (\<lambda>_.
     ebind (option_raise OrderMalformed (order_refs (dict_get PNone cont ''trigger_refs''))) (\<lambda>refs.
     ebind (option_raise BatchGone (first_batch i (pending_trigger_batches g))) (\<lambda>(earlier, b, later).
     ebind (ensure (groups b \<noteq> [] \<and> sort refs = sort (map item_ref (group_items (hd (groups b))))) OrderStale) (\<lambda>_.
     ebind (reraise BatchRefused (emap (exact_string ''trigger_order'') values)) (\<lambda>chosen.
     ebind (reraise BatchRefused (complete_pending_trigger_group b who chosen)) (\<lambda>(ordered, remaining).
     ebind (place_trigger_items ordered g) (\<lambda>g1.
     let g2 = g1\<lparr>pending_trigger_batches :=
                   earlier @ (case remaining of None \<Rightarrow> later | Some r \<Rightarrow> r # later)\<rparr> in
     ebind (begin_pending_trigger_batch draws g2) (\<lambda>(g3, asked).
     if asked then Inr g3 else give_priority host (active_player g3) g3))))))))))"

definition answered_order :: "(string, pyval) dict \<Rightarrow> pyval list" where
  "answered_order response =
     (case dict_get PNone response ''triggers'' of
        PList vs \<Rightarrow> if vs \<noteq> [] then vs
          else (case dict_get PNone response ''order'' of PList ws \<Rightarrow> ws | _ \<Rightarrow> [])
      | _ \<Rightarrow> (case dict_get PNone response ''order'' of PList ws \<Rightarrow> ws | _ \<Rightarrow> []))"

definition complete_trigger_order_decision ::
  "trigger_host \<Rightarrow> string list \<Rightarrow> decision_group \<Rightarrow> game_state \<Rightarrow> processing_error + game_state" where
  "complete_trigger_order_decision host draws d g =
     (case actors d of
        [] \<Rightarrow> Inl NoResponse
      | who # _ \<Rightarrow>
          ebind (option_raise NoResponse (map_of (responses d) who)) (\<lambda>response.
          complete_trigger_order host draws who (answered_order response) (continuation d) g))"

section \<open>From a queued trigger to the stack\<close>

lemma map_of_sort_key:
  assumes "distinct (map fst xs)"
  shows "map_of (sort_key fst xs) = map_of xs"
proof -
  have "mset (sort_key fst xs) = mset xs" by simp
  then have "set (sort_key fst xs) = set xs" by simp
  moreover have "distinct (map fst (sort_key fst xs))"
    using assms by (metis mset_eq_imp_distinct_iff mset_map mset_sort)
  ultimately show ?thesis using assms by (metis map_of_inject_set)
qed

lemma freeze_items_map_of:
  "freeze_items kvs = Inr kws \<Longrightarrow> map fst kws = map fst kvs
   \<and> (\<forall>k. rel_option (\<lambda>v w. freeze_value v = Inr w) (map_of kvs k) (map_of kws k))"
  by (induction kvs arbitrary: kws) (auto simp: ebind_eq_Inr)

lemma freeze_strs [simp]: "freeze_list (map PStr xs) = Inr (map PStr xs)"
  by (induction xs) simp_all

lemma freeze_opt [simp]: "freeze_value (opt_str x) = Inr (opt_str x)" "freeze_value (opt_num n) = Inr (opt_num n)"
  by (cases x; cases n; simp add: opt_str_def opt_num_def)+

lemma read_opt [simp]:
  "read_text_option k (opt_str x) = Inr x" "read_int_option k (opt_num n) = Inr n"
  by (cases x; cases n; simp add: opt_str_def opt_num_def)+

lemma read_texts_strs [simp]: "read_texts k (strs xs) = Inr xs" "read_texts k (PList []) = Inr []"
proof -
  have "emap (read_text k) (map PStr xs) = Inr xs" by (induction xs) simp_all
  then show "read_texts k (strs xs) = Inr xs" "read_texts k (PList []) = Inr []"
    by (simp_all add: read_texts_def strs_def)
qed


lemma freeze_is_str: "freeze_value v = Inr (PStr x) \<longleftrightarrow> v = PStr x"
  by (cases v) (auto simp: ebind_eq_Inr)

lemma freeze_all_str: "freeze_list vs = Inr (map PStr xs) \<longleftrightarrow> vs = map PStr xs"
proof
  show "freeze_list vs = Inr (map PStr xs) \<Longrightarrow> vs = map PStr xs"
    by (induction vs arbitrary: xs) (auto simp: ebind_eq_Inr freeze_is_str Cons_eq_map_conv)
qed simp

lemma exact_strings_are_str: "emap (exact_string f) ws = Inr xs \<Longrightarrow> ws = map PStr xs"
proof (induction ws arbitrary: xs)
  case (Cons w ws)
  then show ?case by (auto simp: ebind_eq_Inr exact_string_def option_raise_eq_Inr nonempty_str_Some)
qed simp

lemma string_items_str: "string_items f (PList ws) = Inr u \<Longrightarrow> \<exists>xs. ws = map PStr xs"
  by (auto simp: ebind_eq_Inr dest: exact_strings_are_str)

definition frozen_context :: "stack_item \<Rightarrow> (string, pyval) dict \<Rightarrow> bool" where
  "frozen_context s c \<longleftrightarrow> freeze_value (PDict (stack_context s)) = Inr (PDict c)"

lemma stack_item_keys: "distinct (map fst (stack_item_to_dict s))"
  by (simp add: stack_item_to_dict_def)

text \<open>The payload of a queued stack item holds its fields, the context with its keys sorted.\<close>

lemma queued_payload:
  assumes "occurrence_from_dict (PDict (stack_item_to_dict s)) = Inr occ"
  obtains c where "frozen_context s c" and "mana_colors_spent s = []"
    and "map_of (payload occ) = map_of (stack_item_to_dict (s\<lparr>stack_context := c\<rparr>))"
    and "check_payload (payload occ) = Inr ()"
proof -
  obtain frozen where frozen: "freeze_items (stack_item_to_dict s) = Inr frozen"
    using assms by (cases "freeze_items (stack_item_to_dict s)")
      (simp_all add: occurrence_from_dict_def occurrence_init_def)
  with assms have init: "ebind (check_payload (sort_key fst frozen)) (\<lambda>_. Inr \<lparr>payload = sort_key fst frozen\<rparr>) = Inr occ"
    by (simp add: occurrence_from_dict_def occurrence_init_def)
  have occ: "payload occ = sort_key fst frozen" and check: "check_payload (payload occ) = Inr ()"
    using init by (cases "check_payload (sort_key fst frozen)"; force)+
  from freeze_items_map_of [OF frozen] have keys: "map fst frozen = map fst (stack_item_to_dict s)" by simp
  from check have "list_all (\<lambda>(k, _). k \<in> set STACK_ITEM_FIELDS) (payload occ)"
    by (auto simp: check_payload_def ebind_ensure_Inr)
  then have "fst ` set frozen \<subseteq> set STACK_ITEM_FIELDS" by (auto simp: occ list_all_iff)
  then have "fst ` set (stack_item_to_dict s) \<subseteq> set STACK_ITEM_FIELDS" using keys by (metis set_map)
  then have colors: "mana_colors_spent s = []"
    by (auto simp: stack_item_to_dict_def STACK_ITEM_FIELDS_def split: if_splits)
  from frozen obtain c ts where c: "freeze_items (stack_context s) = Inr c" and ts: "freeze_list (targets s) = Inr ts"
    and entries: "frozen = stack_item_to_dict (s\<lparr>stack_context := sort_key fst c, targets := ts\<rparr>)"
    by (auto simp: stack_item_to_dict_def colors ebind_eq_Inr strs_def split: if_splits)
  have map: "map_of (payload occ) = map_of frozen"
    unfolding occ by (rule map_of_sort_key) (simp add: keys stack_item_keys)
  have "dict_get (PList []) (payload occ) ''targets'' = PList ts"
    by (simp add: dict_get_def map entries stack_item_to_dict_def)
  with check have "string_items ''targets'' (PList ts) = Inr ()"
    by (auto simp: check_payload_def ebind_eq_Inr simp del: string_items.simps)
  then obtain xs where "ts = map PStr xs" using string_items_str by blast
  with ts have "targets s = ts" by (simp add: freeze_all_str)
  with entries have "frozen = stack_item_to_dict (s\<lparr>stack_context := sort_key fst c\<rparr>)"
    by (cases s) simp
  with that [of "sort_key fst c"] map colors check c show thesis by (simp add: frozen_context_def)
qed

text \<open>
  A queued trigger is put on the stack as it was detected: reading the stored occurrence back gives
  the same stack item, its context with the keys in order.
\<close>

lemma queued_item_is_placed:
  assumes "occurrence_from_dict (PDict (stack_item_to_dict s)) = Inr occ" and "frozen_context s c"
  shows "stack_item_from_dict (payload occ) = Inr (s\<lparr>stack_context := c\<rparr>)
    \<and> item_ref occ = stack_ref s \<and> item_controller occ = stack_controller s"
proof -
  from queued_payload [OF assms(1)] obtain c' where "frozen_context s c'" and colors: "mana_colors_spent s = []"
    and map': "map_of (payload occ) = map_of (stack_item_to_dict (s\<lparr>stack_context := c'\<rparr>))"
    and check: "check_payload (payload occ) = Inr ()" .
  with assms(2) have map: "map_of (payload occ) = map_of (stack_item_to_dict (s\<lparr>stack_context := c\<rparr>))"
    by (simp add: frozen_context_def)
  from check have fields: "list_all (\<lambda>p. fst p \<in> set STACK_FIELDS) (payload occ)"
    by (auto simp: check_payload_def ebind_ensure_Inr list_all_iff STACK_FIELDS_def)
  have ids: "dict_get (PList []) (payload occ) ''referred_object_ids'' = strs (referred_object_ids s)"
    by (simp add: dict_get_def map stack_item_to_dict_def colors strs_def)
  from check have "\<exists>xs. string_tuple ''referred_object_ids'' (strs (referred_object_ids s)) = Inr xs"
    by (auto simp: check_payload_def ebind_eq_Inr ids simp del: string_tuple.simps)
  then have distinct: "distinct (referred_object_ids s)" "\<forall>i \<in> set (referred_object_ids s). i \<noteq> []"
    by (simp_all add: strs_def string_tuple_strings del: string_tuple.simps)
  then have init: "stack_item_init (s\<lparr>stack_context := c\<rparr>) = Inr (s\<lparr>stack_context := c\<rparr>)"
    using colors by (cases s) (simp add: stack_item_init_def list_all_iff
        unique_preserving_order_def unique_loop_id [of _ "[]"])
  have "stack_item_from_dict (payload occ) = reraise StackFault (stack_item_init (s\<lparr>stack_context := c\<rparr>))"
    using colors by (cases s) (simp add: stack_item_from_dict_def fields required_def dict_get_def map
        stack_item_to_dict_def)
  with init show ?thesis
    by (simp add: item_ref_def item_controller_def dict_get_def map stack_item_to_dict_def)
qed


section \<open>No trigger is lost or invented\<close>

lemma apnap_loop_cong:
  assumes "next_active_after h = next_active_after g"
  shows "apnap_loop h n result = apnap_loop g n result"
proof (induction "n - length result" arbitrary: result rule: less_induct)
  case less
  show ?case
    by (subst (1 2) apnap_loop.simps) (auto simp: assms less split: sum.splits)
qed

lemma apnap_order_cong:
  assumes "players h = players g" and "turn_order h = turn_order g" and "active_player h = active_player g"
  shows "apnap_order h = apnap_order g"
  by (simp only: apnap_order_def active_cong [OF assms(1,2)] assms(3)
      apnap_loop_cong [OF next_active_cong [OF assms(1,2)]])

definition due_items :: "string list \<Rightarrow> trigger_batch \<Rightarrow> trigger_occurrence list" where
  "due_items order b =
     (if placement_started b then batch_items b
      else filter (\<lambda>i. item_controller i \<in> set order) (batch_items b))"

definition due :: "string list \<Rightarrow> game_state \<Rightarrow> trigger_occurrence multiset" where
  "due order g = mset (concat (map (due_items order) (pending_trigger_batches g)))"

definition placed_as :: "trigger_occurrence list \<Rightarrow> stack_item list \<Rightarrow> bool" where
  "placed_as occs items \<longleftrightarrow> list_all2 (\<lambda>i s. stack_item_from_dict (payload i) = Inr s) occs items"

lemma place_items_effect:
  assumes "place_trigger_items occs g = Inr h"
  shows "\<exists>items. placed_as occs items \<and> stack_items h = stack_items g @ items
    \<and> pending_trigger_batches h = pending_trigger_batches g \<and> apnap_order h = apnap_order g"
  using assms
proof (induction occs arbitrary: g)
  case Nil
  then show ?case by (simp add: place_trigger_items_def placed_as_def)
next
  case (Cons i occs)
  define put where "put s = g\<lparr>stack_items := stack_items g @ [s]\<rparr>" for s
  from Cons.prems obtain s where s: "stack_item_from_dict (payload i) = Inr s"
    and rest: "place_trigger_items occs (log_event (trigger_entry g s) (put s)) = Inr h"
    by (auto simp: place_trigger_items_def place_trigger_item_def ebind_eq_Inr put_def)
  from Cons.IH [OF rest] obtain items where IH: "placed_as occs items"
    "stack_items h = stack_items g @ [s] @ items" "pending_trigger_batches h = pending_trigger_batches g"
    "apnap_order h = apnap_order (log_event (trigger_entry g s) (put s))"
    by (auto simp: put_def)
  have "apnap_order h = apnap_order g" unfolding IH(4) by (rule apnap_order_cong) (simp_all add: put_def)
  with IH(1-3) s show ?case by (intro exI [of _ "s # items"]) (simp add: placed_as_def)
qed

lemma begin_placement_due:
  assumes "begin_pending_trigger_placement b order = Inr started" and "batch_valid b"
  shows "case started of
      None \<Rightarrow> due_items order b = []
    | Some b1 \<Rightarrow> placement_started b1 \<and> batch_valid b1 \<and> mset (batch_items b1) = mset (due_items order b)"
proof (cases "placement_started b")
  case True
  with assms show ?thesis by (auto simp: begin_pending_trigger_placement_def due_items_def)
next
  case False
  with assms(1) obtain gs where
    gs: "group_pending_trigger_items (map Occurrence (batch_items b)) order True = Inr gs"
    and started: "(if gs = [] then Inr None
        else ebind (batch_init (b\<lparr>trigger_batch.apnap_order := order, groups := gs, placement_started := True\<rparr>))
               (\<lambda>b. Inr (Some b))) = Inr started"
    by (auto simp: begin_pending_trigger_placement_def ebind_eq_Inr)
  from gs have eq: "distinct order"
    "gs = map (group_of (batch_items b)) (filter (\<lambda>c. \<exists>i \<in> set (batch_items b). item_controller i = c) order)"
    by (auto simp: group_items_eq normalize_occurrences)
  have items: "mset (concat (map group_items gs)) = mset (due_items order b)"
    using items_of_groups [OF eq(1), of "batch_items b"] False by (simp add: eq(2) due_items_def)
  show ?thesis
  proof (cases "gs = []")
    case True
    with started items show ?thesis by auto
  next
    case nonempty: False
    with started obtain b1 where
      init: "batch_init (b\<lparr>trigger_batch.apnap_order := order, groups := gs, placement_started := True\<rparr>) = Inr b1"
      and b1: "started = Some b1" by (auto simp: ebind_eq_Inr)
    have "batch_valid b1" by (rule batch_of_groups_valid [OF gs init]) simp
    moreover have "groups b1 = gs" "placement_started b1" using init by (auto simp: batch_init_eq)
    ultimately show ?thesis using items by (simp add: b1 batch_items_def)
  qed
qed

lemma place_group_effect:
  assumes "place_group draws b1 later g = Inr (h, r)" and "batch_valid b1" and "placement_started b1"
  shows "case r of
      Placed \<Rightarrow> (\<exists>occs items rest. placed_as occs items \<and> stack_items h = stack_items g @ items
          \<and> pending_trigger_batches h = rest @ later \<and> mset occs + mset (concat (map batch_items rest)) = mset (batch_items b1)
          \<and> (\<forall>b \<in> set rest. batch_valid b \<and> placement_started b) \<and> apnap_order h = apnap_order g)
    | Asked \<Rightarrow> stack_items h = stack_items g \<and> pending_trigger_batches h = b1 # later
          \<and> 2 \<le> length (group_items (hd (groups b1)))
          \<and> (\<exists>d. pending_decision h = Some d \<and> decision_kind d = ''trigger.order''
                \<and> actors d = [group_controller (hd (groups b1))])
    | Finished \<Rightarrow> False"
proof -
  obtain grp gs where grp: "groups b1 = grp # gs" using assms(1)
    by (cases "groups b1") (auto simp: place_group_def)
  have "group_valid grp" using assms(2) grp by (simp add: batch_valid_def)
  then have "group_items grp \<noteq> []" by (auto simp: group_valid_def group_init_eq)
  then consider (one) item where "group_items grp = [item]"
    | (more) i j rs where "group_items grp = i # j # rs"
    by (metis list.exhaust)
  then show ?thesis
  proof cases
    case one
    from assms(1) grp one obtain ordered remaining g1 where
      fin: "complete_pending_trigger_group b1 (group_controller grp) [item_ref item] = Inr (ordered, remaining)"
      and put: "place_trigger_items ordered (g\<lparr>pending_trigger_batches := b1 # later\<rparr>) = Inr g1"
      and h: "h = g1\<lparr>pending_trigger_batches := (case remaining of None \<Rightarrow> later | Some r \<Rightarrow> r # later)\<rparr>"
      and r: "r = Placed"
      by (auto simp: place_group_def ebind_eq_Inr)
    from fin [unfolded complete_group [OF assms(2)]] grp one have ordered: "ordered = [item]"
      and rem: "remaining = (if gs = [] then None else Some (b1\<lparr>groups := gs\<rparr>))"
      by auto
    from place_items_effect [OF put] obtain items where items: "placed_as ordered items"
      "stack_items g1 = stack_items g @ items" "apnap_order g1 = apnap_order (g\<lparr>pending_trigger_batches := b1 # later\<rparr>)"
      by auto
    define rest where "rest = (if gs = [] then [] else [b1\<lparr>groups := gs\<rparr>])"
    have "apnap_order h = apnap_order g1" unfolding h by (rule apnap_order_cong) simp_all
    also have "\<dots> = apnap_order g" unfolding items(3) by (rule apnap_order_cong) simp_all
    finally have order: "apnap_order h = apnap_order g" .
    have pending: "pending_trigger_batches h = rest @ later" by (simp add: h rem rest_def)
    have count: "mset ordered + mset (concat (map batch_items rest)) = mset (batch_items b1)"
      by (simp add: ordered batch_items_def grp one rest_def)
    have valid: "\<forall>b \<in> set rest. batch_valid b \<and> placement_started b"
      using batch_tail_init(2) [OF assms(2) grp] assms(3) by (simp add: rest_def)
    have "stack_items h = stack_items g @ items" by (simp add: h items(2))
    with items(1) pending count valid order show ?thesis unfolding r placement.case by blast
  next
    case more
    from assms(1) grp more have
      ask: "issue_trigger_order draws (group_controller grp) (map (\<lambda>i. (item_ref i, item_label i)) (group_items grp))
          [(''trigger_batch_id'', PStr (batch_id b1)), (''trigger_refs'', strs (map item_ref (group_items grp)))]
          (g\<lparr>pending_trigger_batches := b1 # later\<rparr>) = Inr h" and r: "r = Asked"
      by (auto simp: place_group_def ebind_eq_Inr)
    from ask have "stack_items h = stack_items g \<and> pending_trigger_batches h = b1 # later
        \<and> (\<exists>d. pending_decision h = Some d \<and> decision_kind d = ''trigger.order''
             \<and> actors d = [group_controller grp])"
      by (auto simp: issue_trigger_order_def issue_def Let_def ebind_eq_Inr)
    then show ?thesis by (simp add: r grp more)
  qed
qed

lemma due_Cons: "pending_trigger_batches g = b # bs \<Longrightarrow>
    due order g = mset (due_items order b) + mset (concat (map (due_items order) bs))"
  by (simp add: due_def)

lemma due_started: "\<forall>b \<in> set bs. placement_started b \<Longrightarrow> map (due_items order) bs = map batch_items bs"
  by (simp add: due_items_def)

text \<open>One turn of the placement loop moves the triggers it places, and only those, to the stack.\<close>

lemma placement_step_effect:
  assumes "placement_step draws g = Inr (h, r)" and "apnap_order g = Inr order"
    and "\<forall>b \<in> set (pending_trigger_batches g). batch_valid b"
  shows "\<exists>occs items. placed_as occs items \<and> stack_items h = stack_items g @ items
    \<and> mset occs + due order h = due order g
    \<and> (\<forall>b \<in> set (pending_trigger_batches h). batch_valid b)
    \<and> (case r of
         Placed \<Rightarrow> apnap_order h = Inr order
       | Asked \<Rightarrow> (\<exists>b bs d. pending_trigger_batches h = b # bs \<and> 2 \<le> length (group_items (hd (groups b)))
              \<and> pending_decision h = Some d \<and> decision_kind d = ''trigger.order''
              \<and> actors d = [group_controller (hd (groups b))])
       | Finished \<Rightarrow> pending_trigger_batches h = [])"
proof (cases "pending_trigger_batches g")
  case Nil
  with assms(1) have "h = g" "r = Finished" by (simp_all add: placement_step_def)
  with Nil show ?thesis by (intro exI [of _ "[]"]) (simp add: placed_as_def)
next
  case (Cons b later)
  with assms(1,2) obtain started where opens: "begin_pending_trigger_placement b order = Inr started"
    and after: "(case started of None \<Rightarrow> Inr (g\<lparr>pending_trigger_batches := later\<rparr>, Placed)
          | Some b1 \<Rightarrow> place_group draws b1 later g) = Inr (h, r)"
    by (auto simp: placement_step_def ebind_eq_Inr)
  have valid: "batch_valid b" "\<forall>b \<in> set later. batch_valid b" using assms(3) Cons by simp_all
  show ?thesis
  proof (cases started)
    case None
    with after have h: "h = g\<lparr>pending_trigger_batches := later\<rparr>" and r: "r = Placed" by simp_all
    have "apnap_order h = apnap_order g" unfolding h by (rule apnap_order_cong) simp_all
    moreover have "due order h = due order g"
      using begin_placement_due [OF opens valid(1)] None by (simp add: due_def h Cons)
    ultimately show ?thesis using assms(2) valid(2)
      by (intro exI [of _ "[]"]) (simp add: placed_as_def h r)
  next
    case (Some b1)
    from begin_placement_due [OF opens valid(1)] Some have b1: "placement_started b1" "batch_valid b1"
      "mset (batch_items b1) = mset (due_items order b)" by simp_all
    from after Some have group: "place_group draws b1 later g = Inr (h, r)" by simp
    show ?thesis
    proof (cases r)
      case Placed
      with place_group_effect [OF group b1(2,1)] obtain occs items rest where
        e: "placed_as occs items" "stack_items h = stack_items g @ items" "pending_trigger_batches h = rest @ later"
          "mset occs + mset (concat (map batch_items rest)) = mset (batch_items b1)"
          "\<forall>b \<in> set rest. batch_valid b \<and> placement_started b" "apnap_order h = apnap_order g"
        by auto
      have "map (due_items order) rest = map batch_items rest" by (rule due_started) (use e(5) in simp)
      then have "mset (concat (map (due_items order) rest)) = mset (concat (map batch_items rest))"
        by (simp only:)
      then have "mset occs + due order h = due order g"
        using e(4) b1(3) by (simp add: due_def e(3) Cons add.assoc [symmetric])
      with e assms(2) valid(2) Placed show ?thesis by auto
    next
      case Asked
      with place_group_effect [OF group b1(2,1)] have e: "stack_items h = stack_items g"
        "pending_trigger_batches h = b1 # later" "2 \<le> length (group_items (hd (groups b1)))"
        "\<exists>d. pending_decision h = Some d \<and> decision_kind d = ''trigger.order''
                \<and> actors d = [group_controller (hd (groups b1))]" by simp_all
      have "due order h = due order g" using b1 by (simp add: due_def e(2) Cons due_items_def)
      with e valid(2) b1(2) Asked show ?thesis
        by (intro exI [of _ "[]"]) (simp add: placed_as_def)
    next
      case Finished
      with place_group_effect [OF group b1(2,1)] show ?thesis by simp
    qed
  qed
qed

text \<open>
  C21. Putting triggers on the stack loses and invents nothing: the loop only appends to the stack,
  the triggers put there together with those still waiting are exactly the triggers that were due
  (those of players who have left are dropped from batches not yet started), and it ends either
  with no trigger waiting or by asking the controller of the first group, which holds at least two
  triggers, for their order.
\<close>

theorem placement_conserves:
  assumes "begin_pending_trigger_batch draws g = Inr (h, asked)" and "apnap_order g = Inr order"
    and "\<forall>b \<in> set (pending_trigger_batches g). batch_valid b"
  shows "\<exists>occs items. placed_as occs items \<and> stack_items h = stack_items g @ items
    \<and> mset occs + due order h = due order g
    \<and> (if asked then (\<exists>b bs d. pending_trigger_batches h = b # bs \<and> 2 \<le> length (group_items (hd (groups b)))
              \<and> pending_decision h = Some d \<and> decision_kind d = ''trigger.order''
              \<and> actors d = [group_controller (hd (groups b))])
       else pending_trigger_batches h = [])"
  using assms
proof (induction draws g rule: begin_pending_trigger_batch.induct)
  case (1 draws g)
  obtain g1 r where step: "placement_step draws g = Inr (g1, r)"
    using "1.prems"(1) by (subst (asm) begin_pending_trigger_batch.simps) (auto split: sum.splits)
  from placement_step_effect [OF step "1.prems"(2,3)] obtain occs items where
    e: "placed_as occs items" "stack_items g1 = stack_items g @ items" "mset occs + due order g1 = due order g"
      "\<forall>b \<in> set (pending_trigger_batches g1). batch_valid b"
    and r: "case r of
         Placed \<Rightarrow> apnap_order g1 = Inr order
       | Asked \<Rightarrow> (\<exists>b bs d. pending_trigger_batches g1 = b # bs \<and> 2 \<le> length (group_items (hd (groups b)))
              \<and> pending_decision g1 = Some d \<and> decision_kind d = ''trigger.order''
              \<and> actors d = [group_controller (hd (groups b))])
       | Finished \<Rightarrow> pending_trigger_batches g1 = []"
    by blast
  note run = "1.prems"(1) [unfolded begin_pending_trigger_batch.simps [of draws g] step sum.case prod.case]
  show ?case
  proof (cases r)
    case Placed
    with run have more: "begin_pending_trigger_batch draws g1 = Inr (h, asked)" by simp
    from Placed r have "apnap_order g1 = Inr order" by simp
    from "1.IH" [OF step refl Placed more this e(4)] obtain occs' items' where
      e': "placed_as occs' items'" "stack_items h = stack_items g1 @ items'" "mset occs' + due order h = due order g1"
      and last: "if asked then (\<exists>b bs d. pending_trigger_batches h = b # bs \<and> 2 \<le> length (group_items (hd (groups b)))
              \<and> pending_decision h = Some d \<and> decision_kind d = ''trigger.order''
              \<and> actors d = [group_controller (hd (groups b))])
       else pending_trigger_batches h = []"
      by blast
    have "placed_as (occs @ occs') (items @ items')"
      using e(1) e'(1) unfolding placed_as_def by (rule list_all2_appendI)
    moreover have "stack_items h = stack_items g @ items @ items'" by (simp add: e(2) e'(2))
    moreover have "mset (occs @ occs') + due order h = due order g"
      using e(3) e'(3) by (metis mset_append union_assoc)
    ultimately show ?thesis using last by blast
  next
    case Asked
    with run have "h = g1" "asked" by simp_all
    with e r Asked show ?thesis by auto
  next
    case Finished
    with run have "h = g1" "\<not> asked" by simp_all
    with e r Finished show ?thesis by auto
  qed
qed

section \<open>Simultaneous triggers go on the stack in APNAP order\<close>

definition frozen_item :: "stack_item \<Rightarrow> stack_item" where
  "frozen_item s =
     s\<lparr>stack_context := (case freeze_value (PDict (stack_context s)) of Inr (PDict c) \<Rightarrow> c | _ \<Rightarrow> [])\<rparr>"

definition stack_of :: "trigger_occurrence \<Rightarrow> stack_item" where
  "stack_of i = projr (stack_item_from_dict (payload i))"

definition ready :: "trigger_occurrence \<Rightarrow> bool" where
  "ready i \<longleftrightarrow> item_ref i \<noteq> [] \<and> stack_item_from_dict (payload i) = Inr (stack_of i)"

lemma queued_ready:
  assumes "occurrence_from_dict (PDict (stack_item_to_dict s)) = Inr i"
  shows "ready i \<and> stack_of i = frozen_item s \<and> item_controller i = stack_controller s"
proof -
  from queued_payload [OF assms] obtain c where c: "frozen_context s c"
    and check: "check_payload (payload i) = Inr ()" .
  from queued_item_is_placed [OF assms c] have i: "stack_item_from_dict (payload i) = Inr (s\<lparr>stack_context := c\<rparr>)"
    "item_controller i = stack_controller s" by auto
  from check have "\<exists>x. exact_string ''ref'' (dict_get PNone (payload i) ''ref'') = Inr x"
    by (auto simp: check_payload_def ebind_eq_Inr REQUIRED_STACK_ITEM_FIELDS_def)
  then have "item_ref i \<noteq> []"
    by (auto simp: exact_string_def option_raise_eq_Inr nonempty_str_Some item_ref_def)
  moreover have "frozen_item s = s\<lparr>stack_context := c\<rparr>"
    using c by (simp add: frozen_item_def frozen_context_def)
  ultimately show ?thesis using i by (simp add: ready_def stack_of_def)
qed

lemma place_one:
  assumes "batch_valid b" and "placement_started b" and "groups b = grp # gs" and "group_items grp = [i]" and "ready i"
  shows "\<exists>h. place_group draws b later g = Inr (h, Placed) \<and> stack_items h = stack_items g @ [stack_of i]
    \<and> pending_trigger_batches h = (if gs = [] then later else b\<lparr>groups := gs\<rparr> # later)
    \<and> apnap_order h = apnap_order g"
proof -
  let ?rest = "if gs = [] then None else Some (b\<lparr>groups := gs\<rparr>)"
  have "complete_pending_trigger_group b (group_controller grp) [item_ref i] = Inr ([i], ?rest)"
    unfolding complete_group [OF assms(1)] using assms by (auto simp: ready_def)
  moreover obtain g1 where g1: "place_trigger_items [i] (g\<lparr>pending_trigger_batches := b # later\<rparr>) = Inr g1"
    using assms(5) by (simp add: place_trigger_items_def place_trigger_item_def ready_def)
  moreover from place_items_effect [OF g1] assms(5) have "stack_items g1 = stack_items g @ [stack_of i]"
    "apnap_order g1 = apnap_order (g\<lparr>pending_trigger_batches := b # later\<rparr>)"
    by (auto simp: placed_as_def ready_def list_all2_Cons1)
  moreover have "apnap_order (g\<lparr>pending_trigger_batches := b # later\<rparr>) = apnap_order g"
    by (rule apnap_order_cong) simp_all
  moreover have "apnap_order (g1\<lparr>pending_trigger_batches := bs\<rparr>) = apnap_order g1" for bs
    by (rule apnap_order_cong) simp_all
  ultimately show ?thesis using assms(3,4) by (simp add: place_group_def)
qed

lemma place_singletons:
  assumes "batch_valid b" and "placement_started b" and "\<forall>grp \<in> set (groups b). length (group_items grp) = 1"
    and "\<forall>i \<in> set (batch_items b). ready i" and "apnap_order g = Inr order"
    and "pending_trigger_batches g = [b]"
  shows "\<exists>h. begin_pending_trigger_batch draws g = Inr (h, False) \<and> pending_trigger_batches h = []
    \<and> stack_items h = stack_items g @ map stack_of (batch_items b)"
  using assms
proof (induction "groups b" arbitrary: b g)
  case Nil
  then show ?case by (simp add: batch_valid_def batch_init_eq)
next
  case (Cons grp gs)
  from Cons(2) have grp: "groups b = grp # gs" by simp
  with Cons.prems(3) have "length (group_items grp) = 1" by simp
  then obtain i where i: "group_items grp = [i]" by (auto simp: length_Suc_conv)
  have items: "batch_items b = i # batch_items (b\<lparr>groups := gs\<rparr>)" by (simp add: batch_items_def grp i)
  with Cons.prems(4) have "ready i" by simp
  from place_one [OF Cons.prems(1,2) grp i this, of draws "[]" g] obtain g1 where
    g1: "place_group draws b [] g = Inr (g1, Placed)" "stack_items g1 = stack_items g @ [stack_of i]"
      "pending_trigger_batches g1 = (if gs = [] then [] else [b\<lparr>groups := gs\<rparr>])" "apnap_order g1 = Inr order"
    using Cons.prems(5) by auto
  have "placement_step draws g = Inr (g1, Placed)"
    using Cons.prems(2,5,6) g1(1) by (simp add: placement_step_def begin_pending_trigger_placement_def)
  then have run: "begin_pending_trigger_batch draws g = begin_pending_trigger_batch draws g1"
    by (subst begin_pending_trigger_batch.simps) simp
  show ?case
  proof (cases "gs = []")
    case True
    have "begin_pending_trigger_batch draws g1 = Inr (g1, False)"
      using g1(3) True by (subst begin_pending_trigger_batch.simps) (simp add: placement_step_def)
    with run g1 True show ?thesis by (simp add: batch_items_def grp i)
  next
    case False
    have "batch_valid (b\<lparr>groups := gs\<rparr>)" by (rule batch_tail_init(2) [OF Cons.prems(1) grp False])
    from Cons(1) [of "b\<lparr>groups := gs\<rparr>" g1] this Cons.prems(2-4) g1(3,4) False grp items
    obtain h where "begin_pending_trigger_batch draws g1 = Inr (h, False)" "pending_trigger_batches h = []"
      "stack_items h = stack_items g1 @ map stack_of (batch_items (b\<lparr>groups := gs\<rparr>))" by auto
    with run g1(2) items show ?thesis by simp
  qed
qed

lemma filter_concat_groups:
  assumes "distinct cs"
  shows "filter (\<lambda>i. f i = c) (concat (map (\<lambda>c. filter (\<lambda>i. f i = c) xs) cs))
    = (if c \<in> set cs then filter (\<lambda>i. f i = c) xs else [])"
  using assms
proof (induction cs)
  case (Cons d cs)
  have "filter (\<lambda>i. f i = c) (filter (\<lambda>i. f i = d) xs) = (if c = d then filter (\<lambda>i. f i = c) xs else [])"
    by (auto simp: filter_empty_conv)
  with Cons show ?case by auto
qed simp

lemma place_group_pending:
  "place_group draws b later (g\<lparr>pending_trigger_batches := x\<rparr>) = place_group draws b later (g\<lparr>pending_trigger_batches := y\<rparr>)"
proof -
  have same: "g\<lparr>pending_trigger_batches := v, pending_trigger_batches := z\<rparr> = g\<lparr>pending_trigger_batches := z\<rparr>" for v z
    by simp
  show ?thesis unfolding place_group_def same ..
qed

lemma filter_unique: "distinct (map f xs) \<Longrightarrow> x \<in> set xs \<Longrightarrow> filter (\<lambda>y. f y = f x) xs = [x]"
  by (induction xs) (auto simp: filter_empty_conv image_iff)

lemma regroup_same:
  assumes "distinct order" and "cs = filter (\<lambda>c. \<exists>i \<in> set ns. item_controller i = c) order"
    and "items = concat (map group_items (map (group_of ns) cs))"
  shows "map (group_of items) (filter (\<lambda>c. \<exists>i \<in> set items. item_controller i = c) order) = map (group_of ns) cs"
proof -
  have dist: "distinct cs" by (simp add: assms(1,2))
  have items: "items = concat (map (\<lambda>c. filter (\<lambda>i. item_controller i = c) ns) cs)"
    by (simp add: assms(3) comp_def)
  have "filter (\<lambda>c. \<exists>i \<in> set items. item_controller i = c) order = cs"
    unfolding assms(2) by (rule filter_cong) (auto simp: items assms(2))
  moreover have "group_of items c = group_of ns c" if "c \<in> set cs" for c
    using filter_concat_groups [OF dist, of item_controller c ns] that by (simp add: group_of_def items)
  ultimately show ?thesis by simp
qed

lemma start_created:
  assumes "create_pending_trigger_batch bid ref items order turn epoch = Inr b"
  shows "begin_pending_trigger_placement b order = Inr (Some (b\<lparr>placement_started := True\<rparr>))
    \<and> batch_valid (b\<lparr>placement_started := True\<rparr>)
    \<and> (\<exists>ns. emap normalize_item items = Inr ns \<and> distinct order
        \<and> (\<forall>i \<in> set ns. item_controller i \<in> set order)
        \<and> groups b = map (group_of ns) (filter (\<lambda>c. \<exists>i \<in> set ns. item_controller i = c) order))"
proof -
  from assms obtain gs where gs: "group_pending_trigger_items items order False = Inr gs" and ne: "gs \<noteq> []"
    and init: "batch_init \<lparr>batch_id = bid, batch_ref = ref, trigger_batch.apnap_order = order, groups = gs,
        batch_turn_sequence = turn, batch_priority_epoch = epoch, placement_started = False,
        schema_version = 1\<rparr> = Inr b"
    by (auto simp: create_pending_trigger_batch_def ebind_eq_Inr)
  from gs obtain ns where ns: "emap normalize_item items = Inr ns" "distinct order" "\<forall>s \<in> set order. s \<noteq> []"
    "\<forall>i \<in> set ns. item_controller i \<in> set order" "distinct (map item_ref ns)"
    and groups: "gs = map (group_of ns) (filter (\<lambda>c. \<exists>i \<in> set ns. item_controller i = c) order)"
    by (auto simp: group_items_eq)
  have valid: "batch_valid b" by (rule batch_of_groups_valid [OF gs init]) simp
  have b: "b = \<lparr>batch_id = bid, batch_ref = ref, trigger_batch.apnap_order = order, groups = gs,
        batch_turn_sequence = turn, batch_priority_epoch = epoch, placement_started = False,
        schema_version = 1\<rparr>" using init by (simp add: batch_init_eq)
  have again: "b\<lparr>trigger_batch.apnap_order := order, groups := gs, placement_started := True\<rparr> = b\<lparr>placement_started := True\<rparr>"
    by (simp add: b)
  have init1: "batch_init (b\<lparr>placement_started := True\<rparr>) = Inr (b\<lparr>placement_started := True\<rparr>)"
    using init unfolding b batch_init_eq by (simp add: batch_items_def) (rule filter_cong; simp)
  have refs: "distinct (map item_ref (batch_items b))"
    using valid unfolding batch_valid_def batch_init_eq by blast
  have "map (group_of (batch_items b)) (filter (\<lambda>c. \<exists>i \<in> set (batch_items b). item_controller i = c) order) = gs"
    unfolding groups by (rule regroup_same [OF ns(2) refl]) (simp only: batch_items_def b trigger_batch.simps groups)
  then have "group_pending_trigger_items (map Occurrence (batch_items b)) order True = Inr gs"
    using ns(2,3) refs by (auto simp: group_items_eq normalize_occurrences)
  then have "begin_pending_trigger_placement b order = Inr (Some (b\<lparr>placement_started := True\<rparr>))"
    using ne init1 again by (simp add: begin_pending_trigger_placement_def b)
  moreover have "batch_valid (b\<lparr>placement_started := True\<rparr>)"
    using valid init1 by (simp add: batch_valid_def)
  ultimately show ?thesis using ns groups by (auto simp: b)
qed

text \<open>
  C22. Triggers detected at the same time go on the stack in APNAP order: when nothing is waiting and
  each player controls at most one of them, queueing them and starting placement asks nobody, leaves
  nothing waiting and puts every one of them on top of the stack as it was detected (its context
  with the keys in order), the active player's first.
\<close>

theorem simultaneous_triggers:
  assumes "enqueue_trigger_batch host items g = Inr g1" and "pending_trigger_batches g = []"
    and "active g = Inr seats" and "\<forall>s \<in> set items. stack_controller s \<in> set seats"
    and "apnap_order g = Inr order" and "distinct (map stack_controller items)"
  shows "\<exists>h. begin_pending_trigger_batch draws g1 = Inr (h, False) \<and> pending_trigger_batches h = []
    \<and> stack_items h = stack_items g
        @ map frozen_item (concat (map (\<lambda>c. filter (\<lambda>s. stack_controller s = c) items) order))"
proof (cases "items = []")
  case True
  with assms(1,2) show ?thesis
    by (subst begin_pending_trigger_batch.simps)
      (simp add: enqueue_trigger_batch_def placement_step_def)
next
  case False
  have all: "filter (\<lambda>s. stack_controller s \<in> set seats) items = items" using assms(4) by (simp add: filter_id_conv)
  obtain ns where
    ns: "emap (\<lambda>s. reraise OccurrenceFault (occurrence_from_dict (PDict (stack_item_to_dict s)))) items = Inr ns"
    using assms(1-3) False all
    by (cases "emap (\<lambda>s. reraise OccurrenceFault (occurrence_from_dict (PDict (stack_item_to_dict s)))) items")
      (simp_all add: enqueue_trigger_batch_def)
  from emap_length [OF ns] False have "ns \<noteq> []" by auto
  define ref where "ref = ''TB'' @ show_int (dict_get 0 (ref_counters g) ''TB'' + 1)"
  let ?made = "create_pending_trigger_batch (stable_id host ''trigger-batch'' ref) ref (map Occurrence ns) order
              (turn_sequence g) (priority_epoch g)"
  have "ebind (reraise BatchFault ?made) (\<lambda>b. Inr (g\<lparr>ref_counters := AList.update ''TB'' (dict_get 0 (ref_counters g) ''TB'' + 1) (ref_counters g),
                   pending_trigger_batches := [b]\<rparr>)) = Inr g1"
    using assms(1-3,5) False all ns \<open>ns \<noteq> []\<close>
    by (simp add: enqueue_trigger_batch_def next_ref_def Let_def ref_def)
  then obtain b where b: "?made = Inr b"
    and g1: "g1 = g\<lparr>ref_counters := AList.update ''TB'' (dict_get 0 (ref_counters g) ''TB'' + 1) (ref_counters g),
                   pending_trigger_batches := [b]\<rparr>"
    by (cases ?made) simp_all
  from ns have each: "list_all2 (\<lambda>s i. occurrence_from_dict (PDict (stack_item_to_dict s)) = Inr i) items ns"
    by (simp add: emap_Inr_iff)
  then have same: "list_all2 (\<lambda>s i. ready i \<and> stack_of i = frozen_item s \<and> item_controller i = stack_controller s) items ns"
    by (rule list_all2_mono) (rule queued_ready)
  then have pick: "map stack_of (filter (\<lambda>i. item_controller i = c) ns)
      = map frozen_item (filter (\<lambda>s. stack_controller s = c) items)" for c
    by (induction rule: list_all2_induct) auto
  have rdy: "\<forall>i \<in> set ns. ready i"
    using same by (induction rule: list_all2_induct) auto
  have ctrl: "map item_controller ns = map stack_controller items"
    using same by (induction rule: list_all2_induct) auto
  let ?b = "b\<lparr>placement_started := True\<rparr>" and ?cs = "filter (\<lambda>c. \<exists>i \<in> set ns. item_controller i = c) order"
  from start_created [OF b] have opens: "begin_pending_trigger_placement b order = Inr (Some ?b)"
    and valid: "batch_valid ?b" and groups: "groups b = map (group_of ns) ?cs"
    by (auto simp: normalize_occurrences)
  have one: "length (group_items grp) = 1" if "grp \<in> set (groups ?b)" for grp
  proof -
    from that obtain c where c: "c \<in> set ?cs" "grp = group_of ns c" by (auto simp: groups)
    then obtain i where "i \<in> set ns" "item_controller i = c" by auto
    moreover have "distinct (map item_controller ns)" using ctrl assms(6) by simp
    ultimately show ?thesis unfolding c(2)
      using filter_unique by fastforce
  qed
  let ?g = "g1\<lparr>pending_trigger_batches := [?b]\<rparr>"
  have order: "apnap_order g1 = Inr order" "apnap_order ?g = Inr order"
    unfolding assms(5) [symmetric] g1 by (rule apnap_order_cong; simp)+
  have "begin_pending_trigger_placement ?b order = Inr (Some ?b)"
    by (simp add: begin_pending_trigger_placement_def)
  then have "placement_step draws ?g = place_group draws ?b [] (g1\<lparr>pending_trigger_batches := [?b]\<rparr>)"
    using order by (simp add: placement_step_def)
  moreover have "placement_step draws g1 = place_group draws ?b [] (g1\<lparr>pending_trigger_batches := [b]\<rparr>)"
    using opens order by (simp add: placement_step_def g1)
  ultimately have "placement_step draws g1 = placement_step draws ?g"
    using place_group_pending by metis
  then have run: "begin_pending_trigger_batch draws g1 = begin_pending_trigger_batch draws ?g"
    by (simp add: begin_pending_trigger_batch.simps)
  have items: "batch_items ?b = concat (map (\<lambda>c. filter (\<lambda>i. item_controller i = c) ns) ?cs)"
    by (simp add: batch_items_def groups comp_def)
  then have "\<forall>i \<in> set (batch_items ?b). ready i" using rdy by auto
  from place_singletons [OF valid _ _ this order(2), of draws] one obtain h where
    h: "begin_pending_trigger_batch draws ?g = Inr (h, False)" "pending_trigger_batches h = []"
      "stack_items h = stack_items ?g @ map stack_of (batch_items ?b)"
    by auto
  have picked: "map stack_of (concat (map (\<lambda>c. filter (\<lambda>i. item_controller i = c) ns) cs))
      = map frozen_item (concat (map (\<lambda>c. filter (\<lambda>s. stack_controller s = c) items) cs))" for cs
    by (induction cs) (simp_all add: pick)
  have skip: "concat (map (\<lambda>c. filter (\<lambda>i. item_controller i = c) ns) (filter P cs))
      = concat (map (\<lambda>c. filter (\<lambda>i. item_controller i = c) ns) cs)"
    if "\<forall>c. (\<exists>i \<in> set ns. item_controller i = c) \<longrightarrow> P c" for P cs
    using that by (induction cs) (auto simp: filter_empty_conv)
  have "batch_items ?b = concat (map (\<lambda>c. filter (\<lambda>i. item_controller i = c) ns) order)"
    unfolding items by (rule skip) simp
  then have "map stack_of (batch_items ?b)
      = map frozen_item (concat (map (\<lambda>c. filter (\<lambda>s. stack_controller s = c) items) order))"
    by (simp only: picked)
  with run h show ?thesis by (simp add: g1)
qed

section \<open>A concrete batch of triggers\<close>

definition simple_trigger :: "string \<Rightarrow> string \<Rightarrow> stack_item" where
  "simple_trigger ref who =
     \<lparr>stack_id = ref, stack_ref = ref, stack_kind = ''triggered_ability'', stack_controller = who,
      stack_label = ''life'', card_object_id = None, source_object_id = None, semantic_key = None,
      targets = [], modes = [], x_value = None, chosen_face = None, stack_notes = [],
      default_destination = None, stack_visibility = [], stack_context = [(''event'', PStr ''x'')],
      mana_colors_spent = [], referred_object_ids = []\<rparr>"

definition calm_host :: trigger_host where
  "calm_host = \<lparr>stable_id = (\<lambda>kind ref. kind @ ref), give_priority = (\<lambda>_ g. Inr g),
     historical_order = (\<lambda>_ _ _ g. Inr g)\<rparr>"

definition table_of_two :: game_state where
  "table_of_two = new_game [''A'', ''B'']\<lparr>active_player := Some ''B''\<rparr>"

lemma simultaneous_triggers_witness:
  "\<exists>g1 h. enqueue_trigger_batch calm_host [simple_trigger ''S1'' ''A'', simple_trigger ''S2'' ''B''] table_of_two = Inr g1
     \<and> begin_pending_trigger_batch [] g1 = Inr (h, False) \<and> map stack_ref (stack_items h) = [''S2'', ''S1'']"
proof -
  let ?items = "[simple_trigger ''S1'' ''A'', simple_trigger ''S2'' ''B'']"
  have "(case enqueue_trigger_batch calm_host ?items table_of_two of Inl e \<Rightarrow> False | Inr g1 \<Rightarrow> True)" by code_simp
  then obtain g1 where g1: "enqueue_trigger_batch calm_host ?items table_of_two = Inr g1"
    by (simp only: case_sum_False) blast
  have facts: "pending_trigger_batches table_of_two = []" "active table_of_two = Inr [''A'', ''B'']"
    "\<forall>s \<in> set ?items. stack_controller s \<in> set [''A'', ''B'']" "apnap_order table_of_two = Inr [''B'', ''A'']"
    "distinct (map stack_controller ?items)" "stack_items table_of_two = []"
    by code_simp+
  from simultaneous_triggers [OF g1 facts(1-5), of "[]"] obtain h where
    "begin_pending_trigger_batch [] g1 = Inr (h, False)"
    "stack_items h = stack_items table_of_two
        @ map frozen_item (concat (map (\<lambda>c. filter (\<lambda>s. stack_controller s = c) ?items) [''B'', ''A'']))"
    by blast
  with g1 facts(6) show ?thesis by (auto simp: frozen_item_def simple_trigger_def)
qed

lemma placement_conserves_witness:
  "\<exists>h. begin_pending_trigger_batch [''x''] (table_of_two\<lparr>pending_trigger_batches := [sample_batch]\<rparr>) = Inr (h, True)
     \<and> (\<exists>b bs. pending_trigger_batches h = b # bs \<and> 2 \<le> length (group_items (hd (groups b))))"
proof -
  let ?g = "table_of_two\<lparr>pending_trigger_batches := [sample_batch]\<rparr>"
  have "(case begin_pending_trigger_batch [''x''] ?g of Inl e \<Rightarrow> False | Inr (h, b) \<Rightarrow> b)" by code_simp
  then obtain h where h: "begin_pending_trigger_batch [''x''] ?g = Inr (h, True)"
    by (simp only: case_sum_False split_paired_Ex prod.case) auto
  have "apnap_order ?g = Inr [''B'', ''A'']" by code_simp
  moreover have "\<forall>b \<in> set (pending_trigger_batches ?g). batch_valid b" using sample_batch_valid by simp
  ultimately obtain b bs where "pending_trigger_batches h = b # bs" "2 \<le> length (group_items (hd (groups b)))"
    using placement_conserves [OF h] by auto
  with h show ?thesis by blast
qed

end
