(* ===== verification/Turn_Cleanup.thy ===== *)
theory Turn_Cleanup imports Turn_Steps Permissions
begin

text \<open>
  The cleanup step and ending a turn early (\<open>TurnStepOwner.finish_cleanup\<close> and
  \<open>TurnStepOwner.end_turn_now\<close> of \<open>quorune/turn_step_owner.py\<close>): damage and until-end-of-turn effects
  wear off, the mana pools empty, and either the next turn begins or, when cleanup caused a state
  action or a trigger, the active player receives priority in another cleanup step.

  What the engine does for this owner is the record \<open>cleanup_host\<close>: the step callbacks, matching
  delayed triggers, handing back control, moving a card, expiring the two effect journals,
  stabilising and granting priority.
\<close>

record cleanup_host =
  cleanup_steps :: step_host
  match_cleanup_triggers :: "string option \<Rightarrow> game_state \<Rightarrow> engine_error + game_state \<times> string list"
  hand_back :: "string \<Rightarrow> string \<Rightarrow> game_state \<Rightarrow> engine_error + game_state"
  expire_damage_modifiers :: "game_state \<Rightarrow> game_state"
  expire_continuous_effects :: "game_state \<Rightarrow> game_state"
  settle :: "game_state \<Rightarrow> engine_error + game_state \<times> bool"
  give_active_priority :: "string option \<Rightarrow> game_state \<Rightarrow> engine_error + game_state"
  exile_spell :: "string \<Rightarrow> string \<Rightarrow> game_state \<Rightarrow> engine_error + game_state"

section \<open>Wearing off\<close>

definition end_of_turn_notes :: "card_instance \<Rightarrow> (string, pyval) dict" where
  "end_of_turn_notes c = as_dict (dict_get (PDict []) (card_annotations c) ''until_end_of_turn'')"

definition wear_off :: "card_instance \<Rightarrow> card_instance" where
  "wear_off c =
     c\<lparr>marked_damage := 0, deathtouch_damage := False, regeneration_shields := 0,
       temporary_keywords := [], attacking := None, blocking := None,
       card_annotations :=
         (case map_of (end_of_turn_notes c) ''copy_overrides_previous'' of
            None \<Rightarrow> card_annotations c
          | Some v \<Rightarrow> if v = PNone then AList.delete ''copy_overrides'' (card_annotations c)
                      else AList.update ''copy_overrides'' v (card_annotations c))\<rparr>"

definition previous_controller :: "game_state \<Rightarrow> card_instance \<Rightarrow> string option" where
  "previous_controller g c =
     (case dict_get PNone (end_of_turn_notes c) ''control_previous'' of
        PStr p \<Rightarrow> if map_of (players g) p \<noteq> None \<and> zone c = ''battlefield'' \<and> controller c \<noteq> p
                  then Some p else None
      | _ \<Rightarrow> None)"

definition forget_turn :: "string \<Rightarrow> game_state \<Rightarrow> game_state" where
  "forget_turn i g =
     (case map_of (cards g) i of
        None \<Rightarrow> g
      | Some c \<Rightarrow> g\<lparr>cards := AList.update i
                    (c\<lparr>card_annotations := AList.delete ''until_end_of_turn'' (card_annotations c)\<rparr>) (cards g)\<rparr>)"

definition wear_off_card :: "cleanup_host \<Rightarrow> game_state \<Rightarrow> string \<Rightarrow> engine_error + game_state" where
  "wear_off_card host g i =
     (case map_of (cards g) i of
        None \<Rightarrow> Inr g
      | Some c \<Rightarrow>
          let g1 = g\<lparr>cards := AList.update i (wear_off c) (cards g)\<rparr> in
          ebind (case previous_controller g c of None \<Rightarrow> Inr g1 | Some p \<Rightarrow> hand_back host i p g1) (\<lambda>g2.
          Inr (forget_turn i g2)))"

definition END_OF_TURN_STATS :: "string list" where
  "END_OF_TURN_STATS = [''next_spell_improvise'', ''next_spell_uncounterable'',
     ''spells_cant_be_countered_until_end'', ''hexproof_from_colors_until_end'']"

definition pop_stats :: "string list \<Rightarrow> player_state \<Rightarrow> player_state" where
  "pop_stats keys p = p\<lparr>stats := fold AList.delete keys (stats p)\<rparr>"

definition turn_wears_off :: "cleanup_host \<Rightarrow> game_state \<Rightarrow> engine_error + game_state" where
  "turn_wears_off host g =
     ebind (efold (wear_off_card host) g (map fst (cards g))) (\<lambda>g1.
     let g2 = g1\<lparr>players := map (\<lambda>(s, p). (s, pop_stats END_OF_TURN_STATS p)) (players g1)\<rparr>;
         g3 = expire_continuous_effects host (expire_damage_modifiers host g2) in
     Inr (clear_mana ''cleanup'' g3))"

section \<open>Cleanup\<close>

definition cleanup_iteration :: "game_state \<Rightarrow> int" where
  "cleanup_iteration g =
     1 + int (length (filter (\<lambda>e. event_code e = ''turn.cleanup'' \<and> event_turn_sequence e = turn_sequence g)
                        (events g)))"

definition cleanup_frame :: "game_state \<Rightarrow> int \<Rightarrow> string list \<Rightarrow> pyval" where
  "cleanup_frame g n delayed =
     PDict [(''kind'', PStr ''cleanup_exception_frame''), (''active'', PBool True),
       (''turn_sequence'', PInt (turn_sequence g)), (''active_player'', opt_str (active_player g)),
       (''iteration'', PInt n), (''delayed_trigger_ids'', PList (map PStr delayed)),
       (''delayed_triggers_queued'', PBool False), (''priority_granted'', PBool False),
       (''exception_reasons'', PList [])]"

text \<open>
  The frame stays the same object in the annotations while the game stabilises: recording the
  reasons changes it in place.
\<close>

definition record_reasons :: "string list \<Rightarrow> game_state \<Rightarrow> game_state" where
  "record_reasons reasons g =
     g\<lparr>game_annotations := map (\<lambda>v.
         if dict_get PNone (as_dict v) ''kind'' = PStr ''cleanup_exception_frame''
         then PDict (AList.update ''exception_reasons'' (PList (map PStr reasons)) (as_dict v)) else v)
       (game_annotations g)\<rparr>"

definition exception_reasons :: "string list \<Rightarrow> bool \<Rightarrow> int \<Rightarrow> game_state \<Rightarrow> string list" where
  "exception_reasons delayed waiting before g =
     (let new = map event_code (filter (\<lambda>e. event_id e > before) (events g)) in
      unique_preserving_order
        ((if delayed \<noteq> [] then [''cleanup_trigger''] else [])
         @ (if waiting then [''state_or_trigger_choice''] else [])
         @ (if list_ex (\<lambda>c. starts_with ''state.'' c \<or> c = ''player.eliminated'') new
            then [''state_based_action''] else [])
         @ (if stack_items g \<noteq> [] \<or> pending_trigger_batches g \<noteq> [] \<or> ''stack.trigger'' \<in> set new
            then [''trigger_waiting''] else [])))"

definition priority_required :: "string option \<Rightarrow> int \<Rightarrow> string list \<Rightarrow> game_state \<Rightarrow> game_state" where
  "priority_required who n reasons g =
     log_event ((new_entry who ''cleanup.priority_required''
          ''Cleanup created a state action or waiting trigger; the active player receives priority.'' 2)
        \<lparr>log_details := [(''iteration'', PInt n), (''reasons'', PList (map PStr reasons))],
         log_players := (case who of Some a \<Rightarrow> if a \<noteq> [] then [a] else [] | None \<Rightarrow> [])\<rparr>) g"

definition next_turn :: "cleanup_host \<Rightarrow> game_state \<Rightarrow> engine_error + game_state" where
  "next_turn host g = ebind (select_next_turn g) (\<lambda>(h, e). begin_turn (cleanup_steps host) e h)"

definition drop_turn_controller :: "string option \<Rightarrow> game_state \<Rightarrow> game_state" where
  "drop_turn_controller who g =
     (case who of
        None \<Rightarrow> g
      | Some a \<Rightarrow> (case map_of (players g) a of
          None \<Rightarrow> g
        | Some p \<Rightarrow> g\<lparr>players := AList.update a (pop_stats [''turn_controlled_by''] p) (players g)\<rparr>))"

definition complete_cleanup_step ::
  "cleanup_host \<Rightarrow> string option \<Rightarrow> int \<Rightarrow> string list \<Rightarrow> game_state \<Rightarrow> engine_error + game_state" where
  "complete_cleanup_step host who n delayed g =
     ebind (settle host g) (\<lambda>(g1, waiting).
     let reasons = exception_reasons delayed waiting (event_sequence g) g1;
         g2 = record_reasons reasons g1 in
     if reasons \<noteq> [] then
       (let g3 = priority_required who n reasons g2 in
        if waiting then Inr g3 else give_active_priority host who g3)
     else next_turn host (remove_cleanup_frames g2))"

definition finish_cleanup :: "cleanup_host \<Rightarrow> game_state \<Rightarrow> engine_error + game_state" where
  "finish_cleanup host g =
     (let who = active_player g;
          in_step = ((game_phase g, game_step g) = (''ending'', ''cleanup''));
          g1 = remove_cleanup_frames g;
          n = cleanup_iteration g1 in
      ebind (if in_step then match_cleanup_triggers host who g1 else Inr (g1, [])) (\<lambda>(g2, delayed).
      let g3 = (if in_step then g2\<lparr>game_annotations := game_annotations g2 @ [cleanup_frame g2 n delayed]\<rparr>
                else g2) in
      ebind (turn_wears_off host g3) (\<lambda>g4.
      let g5 = drop_turn_controller who
                 (log_event (new_entry who ''turn.cleanup''
                    ((case who of Some a \<Rightarrow> a | None \<Rightarrow> ''None'') @ '' completed cleanup.'') 0) g4) in
      if game_over g5 then Inr (remove_cleanup_frames g5)
      else if in_step then complete_cleanup_step host who n delayed g5
      else next_turn host g5)))"

definition step_owner :: "cleanup_host \<Rightarrow> step_host" where
  "step_owner host = (cleanup_steps host)\<lparr>on_cleanup := finish_cleanup host\<rparr>"

section \<open>Ending the turn\<close>

definition spell_to_exile :: "game_state \<Rightarrow> stack_item \<Rightarrow> string option" where
  "spell_to_exile g s =
     (case card_object_id s of
        None \<Rightarrow> None
      | Some i \<Rightarrow> if i = [] then None
          else (case map_of (cards g) i of
                  None \<Rightarrow> None
                | Some c \<Rightarrow> if zone c \<noteq> ''stack'' then None else Some i))"

fun exile_stack ::
  "cleanup_host \<Rightarrow> string \<Rightarrow> stack_item list \<Rightarrow> game_state \<Rightarrow> engine_error + game_state \<times> string list" where
  "exile_stack host reason [] g = Inr (g, [])"
| "exile_stack host reason (s # ss) g =
     (case spell_to_exile g s of
        None \<Rightarrow> exile_stack host reason ss g
      | Some i \<Rightarrow>
          ebind (exile_spell host i reason g) (\<lambda>g1.
          ebind (exile_stack host reason ss g1) (\<lambda>(g2, is). Inr (g2, i # is))))"

definition end_turn_now :: "cleanup_host \<Rightarrow> string \<Rightarrow> string \<Rightarrow> game_state \<Rightarrow> engine_error + game_state" where
  "end_turn_now host who reason g =
     ebind (exile_stack host reason (stack_items g) g) (\<lambda>(g1, exiled).
     let removed = map stack_ref (stack_items g1);
         g2 = (invalidate_current (g1\<lparr>stack_items := [], pending_trigger_batches := []\<rparr>))
                \<lparr>priority_player := None, priority_passes := [], combat := new_combat\<rparr>;
         refs = List.map_filter (\<lambda>i. map_option card_ref (map_of (cards g2) i)) exiled;
         g3 = log_event ((new_entry (Some who) ''turn.ended'' (who @ '' ended the turn.'') 3)
                \<lparr>log_details := [(''stack_objects_exiled'', PList (map PStr removed)),
                                 (''cards_exiled'', PList (map PStr refs)), (''reason'', PStr reason)],
                 log_objects := exiled\<rparr>) g2 in
     enter_step (step_owner host) [] (g3\<lparr>phase_index := 11\<rparr>))"

section \<open>Nothing of the turn stays on a card\<close>

definition unmarked :: "card_instance \<Rightarrow> bool" where
  "unmarked c \<longleftrightarrow> marked_damage c = 0 \<and> \<not> deathtouch_damage c \<and> regeneration_shields c = 0
     \<and> temporary_keywords c = [] \<and> attacking c = None \<and> blocking c = None"

definition rested :: "card_instance \<Rightarrow> bool" where
  "rested c \<longleftrightarrow> unmarked c \<and> map_of (card_annotations c) ''until_end_of_turn'' = None"

lemma unmarked_wear_off [simp]: "unmarked (wear_off c)"
  by (simp add: unmarked_def wear_off_def)

text \<open>Giving control back keeps every card and what has worn off of it.\<close>

definition respects_cleanup :: "cleanup_host \<Rightarrow> bool" where
  "respects_cleanup host \<longleftrightarrow>
     (\<forall>i p g h. hand_back host i p g = Inr h \<longrightarrow>
        fst ` set (cards h) = fst ` set (cards g)
        \<and> (\<forall>j c c'. map_of (cards g) j = Some c \<longrightarrow> map_of (cards h) j = Some c' \<longrightarrow>
             (unmarked c \<longrightarrow> unmarked c') \<and> (rested c \<longrightarrow> rested c')))
     \<and> (\<forall>g. cards (expire_damage_modifiers host g) = cards g)
     \<and> (\<forall>g. cards (expire_continuous_effects host g) = cards g)"

lemma forget_turn_cards:
  "map_of (cards (forget_turn i g)) j =
     (if j = i then map_option (\<lambda>c. c\<lparr>card_annotations := AList.delete ''until_end_of_turn'' (card_annotations c)\<rparr>)
        (map_of (cards g) i) else map_of (cards g) j)"
  by (cases "map_of (cards g) i") (simp_all add: forget_turn_def)

lemma rested_forget [simp]:
  "rested (c\<lparr>card_annotations := AList.delete ''until_end_of_turn'' (card_annotations c)\<rparr>) = unmarked c"
  by (simp add: rested_def unmarked_def)

lemma wear_off_card_rests:
  assumes "wear_off_card host g i = Inr h" and "respects_cleanup host"
  shows "fst ` set (cards h) = fst ` set (cards g)
    \<and> (\<forall>j c. map_of (cards h) j = Some c \<longrightarrow>
         j = i \<or> (\<exists>c0. map_of (cards g) j = Some c0 \<and> rested c0) \<longrightarrow> rested c)"
proof (cases "map_of (cards g) i")
  case None
  with assms(1) show ?thesis by (auto simp: wear_off_card_def)
next
  case (Some c)
  let ?g1 = "g\<lparr>cards := AList.update i (wear_off c) (cards g)\<rparr>"
  from assms(1) Some obtain g2 where
    given: "(case previous_controller g c of None \<Rightarrow> Inr ?g1 | Some p \<Rightarrow> hand_back host i p ?g1) = Inr g2"
    and h: "h = forget_turn i g2"
    by (auto simp: wear_off_card_def Let_def ebind_eq_Inr)
  have i: "i \<in> fst ` set (cards g)" by (rule map_of_Some_key [OF Some])
  have keep: "fst ` set (cards g2) = fst ` set (cards ?g1)
      \<and> (\<forall>j c c'. map_of (cards ?g1) j = Some c \<longrightarrow> map_of (cards g2) j = Some c' \<longrightarrow>
           (unmarked c \<longrightarrow> unmarked c') \<and> (rested c \<longrightarrow> rested c'))"
  proof (cases "previous_controller g c")
    case None
    with given show ?thesis by auto
  next
    case (Some p)
    with given assms(2) show ?thesis unfolding respects_cleanup_def by simp
  qed
  have keys: "fst ` set (cards h) = fst ` set (cards g2)"
    by (cases "map_of (cards g2) i") (auto simp: h forget_turn_def dest: map_of_Some_key)
  have "rested d" if d: "map_of (cards h) j = Some d"
    and j: "j = i \<or> (\<exists>c0. map_of (cards g) j = Some c0 \<and> rested c0)" for j d
  proof (cases "j = i")
    case True
    with d obtain c2 where c2: "map_of (cards g2) i = Some c2"
      "d = c2\<lparr>card_annotations := AList.delete ''until_end_of_turn'' (card_annotations c2)\<rparr>"
      by (auto simp: h forget_turn_cards)
    have "map_of (cards ?g1) i = Some (wear_off c)" by simp
    with keep c2(1) have "unmarked c2" using unmarked_wear_off by blast
    then show ?thesis by (simp add: c2(2))
  next
    case False
    with d have d2: "map_of (cards g2) j = Some d" by (simp add: h forget_turn_cards)
    from j False obtain c0 where c0: "map_of (cards g) j = Some c0" "rested c0" by blast
    then have "map_of (cards ?g1) j = Some c0" using False by simp
    with keep d2 c0(2) show ?thesis by blast
  qed
  moreover have "fst ` set (cards h) = fst ` set (cards g)"
    using keep keys i by (simp add: insert_absorb)
  ultimately show ?thesis by blast
qed

lemma wear_off_cards_rest:
  assumes "efold (wear_off_card host) g ids = Inr h" and "respects_cleanup host"
  shows "fst ` set (cards h) = fst ` set (cards g)
    \<and> (\<forall>j c. map_of (cards h) j = Some c \<longrightarrow>
         j \<in> set ids \<or> (\<exists>c0. map_of (cards g) j = Some c0 \<and> rested c0) \<longrightarrow> rested c)"
  using assms(1)
proof (induction ids arbitrary: g)
  case (Cons i ids)
  then obtain g1 where one: "wear_off_card host g i = Inr g1" and more: "efold (wear_off_card host) g1 ids = Inr h"
    by (auto simp: ebind_eq_Inr)
  note first = wear_off_card_rests [OF one assms(2)] and rest = Cons.IH [OF more]
  have "rested c" if c: "map_of (cards h) j = Some c"
    and j: "j \<in> set (i # ids) \<or> (\<exists>c0. map_of (cards g) j = Some c0 \<and> rested c0)" for j c
  proof (cases "j \<in> set ids")
    case True
    with rest c show ?thesis by blast
  next
    case False
    have "j \<in> fst ` set (cards g1)" using rest map_of_Some_key [OF c] by simp
    then obtain c1 where c1: "map_of (cards g1) j = Some c1"
      by (cases "map_of (cards g1) j") (auto simp: map_of_None_key)
    with first j False have "rested c1" by auto
    with rest c c1 show ?thesis by blast
  qed
  moreover have "fst ` set (cards h) = fst ` set (cards g)" using first rest by simp
  ultimately show ?case by blast
qed auto

lemma clear_mana_cards [simp]: "cards (clear_mana r g) = cards g"
proof -
  have "cards (foldl (clear_mana_of r) g ps) = cards g" for ps
    by (induction ps arbitrary: g) (simp_all add: clear_mana_of_def Let_def)
  then show ?thesis by (simp add: clear_mana_def)
qed

lemma clear_mana_empties:
  assumes "map_of (players (clear_mana r g)) s = Some p" and "distinct (map fst (players g))"
  shows "\<forall>v \<in> snd ` set (mana_pool p). v = 0"
  using assms(1) emptied_simps(2) by (auto simp: clear_mana_players [OF assms(2)])

text \<open>
  C27. Nothing of a turn stays on a card: after the wearing-off of cleanup, whatever control was
  handed back in between, every card of the game is still there and none has damage, deathtouch
  damage, a regeneration shield, a temporary keyword, a place in combat or an effect until end of
  turn.
\<close>

theorem turn_wears_off_everything:
  assumes "turn_wears_off host g = Inr h" and "respects_cleanup host"
  shows "fst ` set (cards h) = fst ` set (cards g)
    \<and> (\<forall>i c. map_of (cards h) i = Some c \<longrightarrow> rested c)"
proof -
  from assms(1) obtain g1 where worn: "efold (wear_off_card host) g (map fst (cards g)) = Inr g1"
    and h: "cards h = cards g1"
    using assms(2) by (auto simp: turn_wears_off_def Let_def ebind_eq_Inr respects_cleanup_def)
  note all = wear_off_cards_rest [OF worn assms(2)]
  have "rested c" if "map_of (cards h) i = Some c" for i c
  proof -
    have "i \<in> set (map fst (cards g))"
      using all map_of_Some_key [OF that] h by auto
    with all that h show ?thesis by metis
  qed
  with all h show ?thesis by auto
qed

section \<open>How cleanup ends\<close>

lemma frame_recorded:
  assumes "active_cleanup_frame g \<noteq> None"
  shows "\<exists>f. active_cleanup_frame (record_reasons rs g) = Some f
    \<and> map_of f ''exception_reasons'' = Some (PList (map PStr rs))"
proof -
  let ?u = "\<lambda>v. if dict_get PNone (as_dict v) ''kind'' = PStr ''cleanup_exception_frame''
         then PDict (AList.update ''exception_reasons'' (PList (map PStr rs)) (as_dict v)) else v"
  have "last_active_frame vs \<noteq> None \<Longrightarrow> \<exists>f. last_active_frame (map ?u vs) = Some f
      \<and> map_of f ''exception_reasons'' = Some (PList (map PStr rs))" for vs
    by (induction vs) (auto simp: dict_get_def split: if_splits)
  from this [of "rev (game_annotations g)"] assms show ?thesis
    by (simp add: active_cleanup_frame_def record_reasons_def rev_map)
qed

definition cleanup_disturbed :: "string list \<Rightarrow> bool \<Rightarrow> int \<Rightarrow> game_state \<Rightarrow> bool" where
  "cleanup_disturbed delayed waiting before g \<longleftrightarrow>
     delayed \<noteq> [] \<or> waiting \<or> stack_items g \<noteq> [] \<or> pending_trigger_batches g \<noteq> []
     \<or> (\<exists>e \<in> set (events g). event_id e > before
          \<and> (starts_with ''state.'' (event_code e) \<or> event_code e \<in> {''player.eliminated'', ''stack.trigger''}))"

lemma exception_reasons_iff: "exception_reasons delayed waiting before g = [] \<longleftrightarrow> \<not> cleanup_disturbed delayed waiting before g"
proof -
  have "unique_preserving_order xs = [] \<longleftrightarrow> xs = []" for xs :: "string list"
    using unique_preserving_order_result(2) [of xs] by (metis set_empty)
  then show ?thesis
    by (auto simp: exception_reasons_def cleanup_disturbed_def Let_def list_ex_iff) (metis (mono_tags, lifting) imageI mem_Collect_eq)
qed

text \<open>The reasons a cleanup step may keep the turn open, and when each is given.\<close>

definition cleanup_causes :: "string list \<Rightarrow> bool \<Rightarrow> int \<Rightarrow> game_state \<Rightarrow> string set" where
  "cleanup_causes delayed waiting before g =
     {r. r = ''cleanup_trigger'' \<and> delayed \<noteq> []
       \<or> r = ''state_or_trigger_choice'' \<and> waiting
       \<or> r = ''state_based_action'' \<and> (\<exists>e \<in> set (events g). event_id e > before
            \<and> (starts_with ''state.'' (event_code e) \<or> event_code e = ''player.eliminated''))
       \<or> r = ''trigger_waiting'' \<and> (stack_items g \<noteq> [] \<or> pending_trigger_batches g \<noteq> []
            \<or> (\<exists>e \<in> set (events g). event_id e > before \<and> event_code e = ''stack.trigger''))}"

lemma exception_reasons_set: "set (exception_reasons delayed waiting before g) = cleanup_causes delayed waiting before g"
proof -
  have one: "set (if P then [x] else []) = {r. r = x \<and> P}" for P and x :: string by auto
  have new: "list_ex P (map event_code (filter Q es)) \<longleftrightarrow> (\<exists>e \<in> set es. Q e \<and> P (event_code e))"
    "c \<in> set (map event_code (filter Q es)) \<longleftrightarrow> (\<exists>e \<in> set es. Q e \<and> event_code e = c)" for P Q es c
    by (auto simp: list_ex_iff)
  show ?thesis
    unfolding exception_reasons_def cleanup_causes_def Let_def unique_preserving_order_result(2) set_append one new
    by (intro set_eqI) (simp only: Un_iff mem_Collect_eq)
qed

lemma no_frame_left:
  "last_active_frame (filter (\<lambda>v. dict_get PNone (as_dict v) ''kind'' \<noteq> PStr ''cleanup_exception_frame'') vs) = None"
  by (induction vs) auto

text \<open>
  C25. The turn ends with its cleanup step exactly when nothing happened in it: then the cleanup frames are
  gone and the next turn is selected and begun.  If a delayed trigger of the step fired, a choice is waiting,
  the stack or a trigger is not empty or a state action or elimination was logged, the turn stays open and
  the cleanup frame records which of these it was.  The active player then gets priority, except when a choice
  is waiting: then cleanup returns at once with the priority as it was, for the choice to be made first.
\<close>

theorem cleanup_outcome:
  assumes "settle host g = Inr (g1, waiting)" and "active_cleanup_frame g1 \<noteq> None"
  shows "if cleanup_disturbed delayed waiting (event_sequence g) g1 then
      (\<exists>h f rs. complete_cleanup_step host who n delayed g
              = (if waiting then Inr h else give_active_priority host who h)
         \<and> priority_player h = priority_player g1 \<and> priority_passes h = priority_passes g1
         \<and> active_cleanup_frame h = Some f \<and> map_of f ''exception_reasons'' = Some (PList (map PStr rs))
         \<and> rs \<noteq> [] \<and> set rs = cleanup_causes delayed waiting (event_sequence g) g1
         \<and> turn_sequence h = turn_sequence g1 \<and> game_step h = game_step g1 \<and> cards h = cards g1 \<and> players h = players g1)
    else
      (\<exists>h. complete_cleanup_step host who n delayed g = next_turn host h
         \<and> active_cleanup_frame h = None \<and> players h = players g1 \<and> extra_turns h = extra_turns g1
         \<and> turn_order h = turn_order g1 \<and> last_normal_turn_player h = last_normal_turn_player g1)"
proof -
  define rs where "rs = exception_reasons delayed waiting (event_sequence g) g1"
  have run: "complete_cleanup_step host who n delayed g =
      (if rs \<noteq> [] then
         (if waiting then Inr (priority_required who n rs (record_reasons rs g1))
          else give_active_priority host who (priority_required who n rs (record_reasons rs g1)))
       else next_turn host (remove_cleanup_frames (record_reasons rs g1)))"
    by (simp add: complete_cleanup_step_def assms(1) rs_def Let_def)
  show ?thesis
  proof (cases "cleanup_disturbed delayed waiting (event_sequence g) g1")
    case True
    then have rs: "rs \<noteq> []" by (simp add: rs_def exception_reasons_iff)
    let ?h = "priority_required who n rs (record_reasons rs g1)"
    have ann: "active_cleanup_frame ?h = active_cleanup_frame (record_reasons rs g1)"
      by (simp add: active_cleanup_frame_def priority_required_def)
    from frame_recorded [OF assms(2), of rs] obtain f where
      "active_cleanup_frame ?h = Some f" "map_of f ''exception_reasons'' = Some (PList (map PStr rs))"
      unfolding ann by blast
    moreover have "turn_sequence ?h = turn_sequence g1" "game_step ?h = game_step g1" "cards ?h = cards g1"
      "players ?h = players g1" "priority_player ?h = priority_player g1" "priority_passes ?h = priority_passes g1"
      by (simp_all add: priority_required_def record_reasons_def)
    moreover have "set rs = cleanup_causes delayed waiting (event_sequence g) g1"
      by (simp add: rs_def exception_reasons_set)
    ultimately show ?thesis using rs unfolding run if_P [OF True] if_P [OF rs] by blast
  next
    case False
    then have "rs = []" by (simp add: rs_def exception_reasons_iff)
    let ?h = "remove_cleanup_frames (record_reasons rs g1)"
    have "active_cleanup_frame ?h = None"
      by (simp add: active_cleanup_frame_def remove_cleanup_frames_def rev_filter no_frame_left)
    moreover have "players ?h = players g1" "extra_turns ?h = extra_turns g1" "turn_order ?h = turn_order g1"
      "last_normal_turn_player ?h = last_normal_turn_player g1"
      by (simp_all add: remove_cleanup_frames_def record_reasons_def)
    ultimately show ?thesis using False run \<open>rs = []\<close> by auto
  qed
qed

section \<open>A concrete cleanup\<close>

text \<open>
  A stolen and damaged bear goes back to its owner; a trigger put on the stack while the game
  settles keeps the turn open, and without one the next turn begins.
\<close>

definition quiet_cleanup :: cleanup_host where
  "quiet_cleanup =
     \<lparr>cleanup_steps = quiet_host, match_cleanup_triggers = (\<lambda>_ g. Inr (g, [])),
      hand_back = (\<lambda>i p g. Inr (case map_of (cards g) i of None \<Rightarrow> g
        | Some c \<Rightarrow> g\<lparr>cards := AList.update i (c\<lparr>controller := p\<rparr>) (cards g)\<rparr>)),
      expire_damage_modifiers = (\<lambda>g. g), expire_continuous_effects = (\<lambda>g. g),
      settle = (\<lambda>g. Inr (g, False)), give_active_priority = (\<lambda>_. Inr), exile_spell = (\<lambda>_ _. Inr)\<rparr>"

definition stolen_bear :: game_state where
  "stolen_bear = duel\<lparr>cards := [(''bear'', (new_card ''bear'' ''A'' ''battlefield'')
     \<lparr>controller := ''B'', marked_damage := 1, temporary_keywords := [''haste''],
      card_annotations := [(''until_end_of_turn'', PDict [(''control_previous'', PStr ''A'')])]\<rparr>)]\<rparr>"

lemma quiet_cleanup_respects: "respects_cleanup quiet_cleanup"
  unfolding respects_cleanup_def
proof (intro conjI allI impI)
  fix i p g h assume "hand_back quiet_cleanup i p g = Inr h"
  then have h: "h = (case map_of (cards g) i of None \<Rightarrow> g
        | Some c \<Rightarrow> g\<lparr>cards := AList.update i (c\<lparr>controller := p\<rparr>) (cards g)\<rparr>)"
    by (simp add: quiet_cleanup_def)
  show "fst ` set (cards h) = fst ` set (cards g)"
    by (cases "map_of (cards g) i") (auto simp: h dest: map_of_Some_key)
  fix j c c' assume "map_of (cards g) j = Some c" "map_of (cards h) j = Some c'"
  then have "c' = c \<or> c' = c\<lparr>controller := p\<rparr>"
    by (cases "map_of (cards g) i") (auto simp: h split: if_splits)
  then show "unmarked c \<Longrightarrow> unmarked c'" "rested c \<Longrightarrow> rested c'"
    by (auto simp: rested_def unmarked_def)
qed (simp_all add: quiet_cleanup_def)

lemma turn_wears_off_everything_witness:
  "\<exists>h c. turn_wears_off quiet_cleanup stolen_bear = Inr h
     \<and> map_of (cards h) ''bear'' = Some c \<and> controller c = ''A'' \<and> rested c"
proof -
  have "(case turn_wears_off quiet_cleanup stolen_bear of Inl e \<Rightarrow> False
         | Inr h \<Rightarrow> map_option controller (map_of (cards h) ''bear'') = Some ''A'')" by code_simp
  then obtain h c where h: "turn_wears_off quiet_cleanup stolen_bear = Inr h"
    "map_of (cards h) ''bear'' = Some c" "controller c = ''A''"
    by (cases "turn_wears_off quiet_cleanup stolen_bear") auto
  with turn_wears_off_everything [OF h(1) quiet_cleanup_respects] show ?thesis by blast
qed

definition framed :: game_state where
  "framed = duel\<lparr>game_annotations := [cleanup_frame duel 1 []]\<rparr>"

definition choosing_cleanup :: cleanup_host where
  "choosing_cleanup = quiet_cleanup\<lparr>settle := (\<lambda>g. Inr (g, True))\<rparr>"

definition granting_cleanup :: cleanup_host where
  "granting_cleanup = quiet_cleanup\<lparr>give_active_priority := (\<lambda>who g. Inr (g\<lparr>priority_player := who\<rparr>))\<rparr>"

text \<open>A waiting choice, a delayed trigger that fired, and a cleanup in which nothing happened.\<close>

lemma cleanup_outcome_witness:
  "(\<exists>h f. complete_cleanup_step choosing_cleanup (Some ''A'') 1 [] framed = Inr h
      \<and> active_cleanup_frame h = Some f \<and> priority_player h = None)
   \<and> (\<exists>h f. complete_cleanup_step granting_cleanup (Some ''A'') 1 [''DT1''] framed = Inr h
      \<and> active_cleanup_frame h = Some f \<and> priority_player h = Some ''A'')
   \<and> (\<exists>h. complete_cleanup_step quiet_cleanup (Some ''A'') 1 [] framed = next_turn quiet_cleanup h
      \<and> active_cleanup_frame h = None)"
proof -
  have settled: "settle choosing_cleanup framed = Inr (framed, True)" "settle granting_cleanup framed = Inr (framed, False)"
      "settle quiet_cleanup framed = Inr (framed, False)"
    by (simp_all add: choosing_cleanup_def granting_cleanup_def quiet_cleanup_def)
  have "exception_reasons [] False (event_sequence framed) framed = []" by code_simp
  then have dist: "cleanup_disturbed [] True (event_sequence framed) framed"
      "cleanup_disturbed [''DT1''] False (event_sequence framed) framed"
      "\<not> cleanup_disturbed [] False (event_sequence framed) framed"
    unfolding exception_reasons_iff by (simp_all add: cleanup_disturbed_def)
  have frame: "active_cleanup_frame framed \<noteq> None" by code_simp
  have prio: "priority_player framed = None" by code_simp
  have keep: "active_cleanup_frame (h\<lparr>priority_player := p\<rparr>) = active_cleanup_frame h" for h p
    by (simp add: active_cleanup_frame_def)
  note outcome = cleanup_outcome [OF settled(1) frame, of "[]" "Some ''A''" 1]
    cleanup_outcome [OF settled(2) frame, of "[''DT1'']" "Some ''A''" 1]
    cleanup_outcome [OF settled(3) frame, of "[]" "Some ''A''" 1]
  from outcome(1) dist(1) prio have "\<exists>h f. complete_cleanup_step choosing_cleanup (Some ''A'') 1 [] framed = Inr h
      \<and> active_cleanup_frame h = Some f \<and> priority_player h = None" by auto
  moreover from outcome(2) dist(2) obtain h f where
    "complete_cleanup_step granting_cleanup (Some ''A'') 1 [''DT1''] framed = give_active_priority granting_cleanup (Some ''A'') h"
    "active_cleanup_frame h = Some f" by auto
  then have "\<exists>h f. complete_cleanup_step granting_cleanup (Some ''A'') 1 [''DT1''] framed = Inr h
      \<and> active_cleanup_frame h = Some f \<and> priority_player h = Some ''A''"
    by (simp add: granting_cleanup_def keep)
  moreover from outcome(3) dist(3) have
    "\<exists>h. complete_cleanup_step quiet_cleanup (Some ''A'') 1 [] framed = next_turn quiet_cleanup h
      \<and> active_cleanup_frame h = None" by auto
  ultimately show ?thesis by blast
qed

end
