(* ===== verification/Object_Store.thy ===== *)
theory Object_Store imports Game_Model
begin

text \<open>
  Objects and players as a store: the code changes a card or a player in place through the object
  it holds, which here is an update of the entry of the game's dictionary.  \<open>edit_card i f\<close> and
  \<open>edit_player s f\<close> are such updates; a key the dictionary does not have changes nothing.
\<close>

abbreviation card_at :: "game_state \<Rightarrow> string \<Rightarrow> card_instance option" where
  "card_at g \<equiv> map_of (cards g)"

abbreviation player_at :: "game_state \<Rightarrow> string \<Rightarrow> player_state option" where
  "player_at g \<equiv> map_of (players g)"

definition edit_card :: "string \<Rightarrow> (card_instance \<Rightarrow> card_instance) \<Rightarrow> game_state \<Rightarrow> game_state" where
  "edit_card i f g =
     (case card_at g i of None \<Rightarrow> g | Some c \<Rightarrow> g\<lparr>cards := AList.update i (f c) (cards g)\<rparr>)"

definition edit_player :: "string \<Rightarrow> (player_state \<Rightarrow> player_state) \<Rightarrow> game_state \<Rightarrow> game_state" where
  "edit_player s f g =
     (case player_at g s of None \<Rightarrow> g | Some p \<Rightarrow> g\<lparr>players := AList.update s (f p) (players g)\<rparr>)"

section \<open>Reading an edited store\<close>

named_theorems store_simps \<open>reading the game after an edit of one card or player\<close>

lemma update_keys: "map_of d k \<noteq> None \<Longrightarrow> map fst (AList.update k v d) = map fst d"
  by (induction d) (auto split: if_splits)

lemma edit_card_at [simp, store_simps]:
  "card_at (edit_card i f g) j = (if j = i then map_option f (card_at g i) else card_at g j)"
  by (cases "card_at g i") (simp_all add: edit_card_def)

lemma edit_player_at [simp, store_simps]:
  "player_at (edit_player s f g) t = (if t = s then map_option f (player_at g s) else player_at g t)"
  by (cases "player_at g s") (simp_all add: edit_player_def)

lemma edit_card_keys [simp, store_simps]: "map fst (cards (edit_card i f g)) = map fst (cards g)"
  by (cases "card_at g i") (simp_all add: edit_card_def update_keys)

lemma edit_player_keys [simp, store_simps]: "map fst (players (edit_player s f g)) = map fst (players g)"
  by (cases "player_at g s") (simp_all add: edit_player_def update_keys)

lemma edit_card_frame [simp, store_simps]:
  "players (edit_card i f g) = players g" "stack_items (edit_card i f g) = stack_items g"
  "combat (edit_card i f g) = combat g" "turn_order (edit_card i f g) = turn_order g"
  "timestamp_sequence (edit_card i f g) = timestamp_sequence g"
  "turn_sequence (edit_card i f g) = turn_sequence g" "monarch (edit_card i f g) = monarch g"
  "priority_player (edit_card i f g) = priority_player g"
  "game_turn_history (edit_card i f g) = game_turn_history g"
  "control_history_version (edit_card i f g) = control_history_version g"
  by (cases "card_at g i"; simp add: edit_card_def)+

lemma edit_player_frame [simp, store_simps]:
  "cards (edit_player s f g) = cards g" "stack_items (edit_player s f g) = stack_items g"
  "combat (edit_player s f g) = combat g" "turn_order (edit_player s f g) = turn_order g"
  "timestamp_sequence (edit_player s f g) = timestamp_sequence g"
  "turn_sequence (edit_player s f g) = turn_sequence g" "monarch (edit_player s f g) = monarch g"
  "priority_player (edit_player s f g) = priority_player g"
  "game_turn_history (edit_player s f g) = game_turn_history g"
  "control_history_version (edit_player s f g) = control_history_version g"
  by (cases "player_at g s"; simp add: edit_player_def)+

text \<open>The keys of the object dictionary are the identities of its objects.\<close>

definition keyed :: "game_state \<Rightarrow> bool" where
  "keyed g \<longleftrightarrow> (\<forall>i c. card_at g i = Some c \<longrightarrow> object_id c = i)"

lemma keyed_edit [simp]:
  assumes "keyed g" and "\<And>c. object_id (f c) = object_id c"
  shows "keyed (edit_card i f g)"
  using assms by (auto simp: keyed_def)

lemma keyed_cong: "cards h = cards g \<Longrightarrow> keyed h = keyed g"
  by (simp add: keyed_def)

lemma keyed_edit_player [simp]: "keyed (edit_player s f g) = keyed g"
  by (rule keyed_cong) simp

end
