(* ===== verification/Attachments.thy ===== *)
theory Attachments imports Object_Store
begin

text \<open>
  Attachment relations (\<open>quorune/attachments.py\<close>): an attached object names its target and the
  target lists its attachments.  The relation is stored on both ends, so attaching, detaching and
  clearing change two records; the code checks that both ends agree before it changes either.

  A function that takes the object \<open>source\<close> takes its key here; "the source is authoritative" is
  the check that the entry of that key is the object itself.  \<open>seats_known\<close> says whether the caller
  passed the players.
\<close>

datatype attachment_error =
    BadPlayerTarget
  | NotReciprocal
  | MissingPrevious
  | SelfAttachment
  | SourceNotAuthoritative
  | TargetNotAuthoritative
  | NegativeTimestamp
  | PlayerNotAuthoritative
  | UnrelatedRelation

record attachment_transition =
  moved_source :: string
  previous_target_id :: "string option"
  new_target_id :: "string option"
  relation_changed :: bool
  relation_timestamp :: int

record pending_attachment =
  pending_ref :: string
  pending_zone :: string

section \<open>Targets\<close>

definition PLAYER_ATTACHMENT_PREFIX :: string where
  "PLAYER_ATTACHMENT_PREFIX = ''player:''"

definition player_attachment_target_id :: "string \<Rightarrow> attachment_error + string" where
  "player_attachment_target_id s =
     ebind (ensure (s \<noteq> [] \<and> \<not> starts_with PLAYER_ATTACHMENT_PREFIX s) BadPlayerTarget) (\<lambda>_.
     Inr (PLAYER_ATTACHMENT_PREFIX @ s))"

definition target_seat :: "string \<Rightarrow> string option" where
  "target_seat t =
     (if starts_with PLAYER_ATTACHMENT_PREFIX t
      then (let s = drop (length PLAYER_ATTACHMENT_PREFIX) t in if s \<noteq> [] then Some s else None)
      else None)"

definition attached_player_seat :: "card_instance \<Rightarrow> string option" where
  "attached_player_seat source = Option.bind (attached_to source) target_seat"

definition attachment_target_ref :: "game_state \<Rightarrow> card_instance \<Rightarrow> string option" where
  "attachment_target_ref g source =
     (let by_player = (case player_at g (case attached_player_seat source of None \<Rightarrow> [] | Some s \<Rightarrow> s) of
            Some p \<Rightarrow> if object_id source \<in> set (player_attachments p) then Some (seat p) else None
          | None \<Rightarrow> None) in
      case card_at g (case attached_to source of None \<Rightarrow> [] | Some t \<Rightarrow> t) of
        Some target \<Rightarrow> if object_id source \<in> set (attachments target) then Some (card_ref target) else by_player
      | None \<Rightarrow> by_player)"

datatype attachment_end = NoTarget | CardTarget string | SeatTarget string

definition previous_target :: "game_state \<Rightarrow> bool \<Rightarrow> card_instance \<Rightarrow> attachment_error + attachment_end" where
  "previous_target g seats_known source =
     (case attached_to source of
        None \<Rightarrow> Inr NoTarget
      | Some t \<Rightarrow>
          (case card_at g t of
             Some previous \<Rightarrow>
               ebind (ensure (object_id source \<in> set (attachments previous)) NotReciprocal) (\<lambda>_. Inr (CardTarget t))
           | None \<Rightarrow>
               let s = (case attached_player_seat source of None \<Rightarrow> [] | Some s \<Rightarrow> s) in
               (case if seats_known then player_at g s else None of
                  None \<Rightarrow> Inl MissingPrevious
                | Some p \<Rightarrow>
                    ebind (ensure (object_id source \<in> set (player_attachments p)) MissingPrevious) (\<lambda>_.
                    Inr (SeatTarget s)))))"

fun remove_previous :: "string \<Rightarrow> attachment_end \<Rightarrow> game_state \<Rightarrow> game_state" where
  "remove_previous i NoTarget g = g"
| "remove_previous i (CardTarget t) g = edit_card t (\<lambda>c. c\<lparr>attachments := remove1 i (attachments c)\<rparr>) g"
| "remove_previous i (SeatTarget s) g =
     edit_player s (\<lambda>p. p\<lparr>player_attachments := remove1 i (player_attachments p)\<rparr>) g"

definition take_pending_attachment :: "card_instance \<Rightarrow> card_instance \<times> pending_attachment option" where
  "take_pending_attachment source =
     (let v = dict_get PNone (card_annotations source) ''pending_aura_target'';
          c1 = source\<lparr>card_annotations := AList.delete ''pending_aura_target'' (card_annotations source)\<rparr> in
      if \<not> truthy v then (c1, None)
      else (c1\<lparr>card_annotations := AList.delete ''pending_aura_zone'' (card_annotations c1)\<rparr>,
            Some \<lparr>pending_ref = py_text v,
                  pending_zone = py_text (dict_get (PStr ''graveyard'') (card_annotations c1) ''pending_aura_zone'')\<rparr>))"

definition attached_object_identity :: "game_state \<Rightarrow> card_instance \<Rightarrow> (string \<times> string) option" where
  "attached_object_identity g source =
     (if zone source \<noteq> ''battlefield'' \<or> phased_out source then None
      else case attached_to source of
        None \<Rightarrow> None
      | Some t \<Rightarrow> if t = [] then None
          else (case card_at g t of
                  None \<Rightarrow> None
                | Some target \<Rightarrow>
                    if zone target \<noteq> ''battlefield'' \<or> phased_out target
                       \<or> object_id source \<notin> set (attachments target) then None
                    else Some (object_id target, logical_object_id target)))"

section \<open>Attaching and detaching\<close>

definition relate :: "string \<Rightarrow> string \<Rightarrow> int \<Rightarrow> game_state \<Rightarrow> game_state" where
  "relate i t ts g = edit_card i (\<lambda>c. c\<lparr>attached_to := Some t, zone_timestamp := ts\<rparr>) g"

definition unchanged_relation :: "string \<Rightarrow> string \<Rightarrow> card_instance \<Rightarrow> attachment_transition" where
  "unchanged_relation i t source =
     \<lparr>moved_source = i, previous_target_id = Some t, new_target_id = Some t, relation_changed = False,
      relation_timestamp = zone_timestamp source\<rparr>"

definition attach_objects ::
  "bool \<Rightarrow> string \<Rightarrow> string \<Rightarrow> int \<Rightarrow> game_state \<Rightarrow> attachment_error + game_state \<times> attachment_transition" where
  "attach_objects seats_known i t ts g =
     ebind (ensure (i \<noteq> t) SelfAttachment) (\<lambda>_.
     ebind (option_raise SourceNotAuthoritative (card_at g i)) (\<lambda>source.
     ebind (ensure (object_id source = i) SourceNotAuthoritative) (\<lambda>_.
     ebind (option_raise TargetNotAuthoritative (card_at g t)) (\<lambda>target.
     ebind (ensure (object_id target = t) TargetNotAuthoritative) (\<lambda>_.
     ebind (ensure (0 \<le> ts) NegativeTimestamp) (\<lambda>_.
     ebind (previous_target g seats_known source) (\<lambda>previous.
     if attached_to source = Some t then
       ebind (ensure (i \<in> set (attachments target)) NotReciprocal) (\<lambda>_. Inr (g, unchanged_relation i t source))
     else
       ebind (ensure (i \<notin> set (attachments target)) UnrelatedRelation) (\<lambda>_.
       Inr (relate i t ts (edit_card t (\<lambda>c. c\<lparr>attachments := attachments c @ [i]\<rparr>)
                             (remove_previous i previous g)),
            \<lparr>moved_source = i, previous_target_id = attached_to source, new_target_id = Some t,
             relation_changed = True, relation_timestamp = ts\<rparr>)))))))))"

definition attach_to_player ::
  "string \<Rightarrow> string \<Rightarrow> int \<Rightarrow> game_state \<Rightarrow> attachment_error + game_state \<times> attachment_transition" where
  "attach_to_player i s ts g =
     ebind (option_raise SourceNotAuthoritative (card_at g i)) (\<lambda>source.
     ebind (ensure (object_id source = i) SourceNotAuthoritative) (\<lambda>_.
     ebind (option_raise PlayerNotAuthoritative (player_at g s)) (\<lambda>target.
     ebind (ensure (0 \<le> ts) NegativeTimestamp) (\<lambda>_.
     ebind (player_attachment_target_id s) (\<lambda>t.
     ebind (previous_target g True source) (\<lambda>previous.
     if attached_to source = Some t then
       ebind (ensure (i \<in> set (player_attachments target)) NotReciprocal) (\<lambda>_.
       Inr (g, unchanged_relation i t source))
     else
       ebind (ensure (i \<notin> set (player_attachments target)) UnrelatedRelation) (\<lambda>_.
       Inr (relate i t ts (edit_player s (\<lambda>p. p\<lparr>player_attachments := player_attachments p @ [i]\<rparr>)
                             (remove_previous i previous g)),
            \<lparr>moved_source = i, previous_target_id = attached_to source, new_target_id = Some t,
             relation_changed = True, relation_timestamp = ts\<rparr>))))))))"

definition detach_object ::
  "bool \<Rightarrow> string \<Rightarrow> game_state \<Rightarrow> attachment_error + game_state \<times> attachment_transition" where
  "detach_object seats_known i g =
     ebind (option_raise SourceNotAuthoritative (card_at g i)) (\<lambda>source.
     ebind (ensure (object_id source = i) SourceNotAuthoritative) (\<lambda>_.
     if attached_to source = None then
       Inr (g, \<lparr>moved_source = i, previous_target_id = None, new_target_id = None,
                relation_changed = False, relation_timestamp = zone_timestamp source\<rparr>)
     else
       ebind (previous_target g seats_known source) (\<lambda>previous.
       Inr (edit_card i (\<lambda>c. c\<lparr>attached_to := None\<rparr>) (remove_previous i previous g),
            \<lparr>moved_source = i, previous_target_id = attached_to source, new_target_id = None,
             relation_changed = True, relation_timestamp = zone_timestamp source\<rparr>))))"

text \<open>\<open>clear_object_attachment_relations\<close>: the card itself, then everything attached to it.\<close>

fun detach_all ::
  "bool \<Rightarrow> string \<Rightarrow> string list \<Rightarrow> game_state
     \<Rightarrow> attachment_error + game_state \<times> attachment_transition list" where
  "detach_all seats_known t [] g = Inr (g, [])"
| "detach_all seats_known t (j # js) g =
     (case card_at g j of
        None \<Rightarrow> Inl NotReciprocal
      | Some source \<Rightarrow>
          ebind (ensure (attached_to source = Some t) NotReciprocal) (\<lambda>_.
          ebind (detach_object seats_known j g) (\<lambda>(g1, x).
          ebind (detach_all seats_known t js g1) (\<lambda>(g2, xs). Inr (g2, x # xs)))))"

definition clear_object_attachment_relations ::
  "bool \<Rightarrow> string \<Rightarrow> game_state \<Rightarrow> attachment_error + game_state \<times> attachment_transition list" where
  "clear_object_attachment_relations seats_known i g =
     ebind (option_raise SourceNotAuthoritative (card_at g i)) (\<lambda>card.
     ebind (if attached_to card = None then Inr (g, [])
            else ebind (detach_object seats_known i g) (\<lambda>(g1, x). Inr (g1, [x]))) (\<lambda>(g1, xs).
     ebind (option_raise SourceNotAuthoritative (card_at g1 i)) (\<lambda>card1.
     ebind (detach_all seats_known (object_id card1) (attachments card1) g1) (\<lambda>(g2, ys).
     Inr (g2, xs @ ys)))))"

section \<open>The relation the two ends describe\<close>

text \<open>
  Abstractly the attachments of a game are a partial function from attached objects to targets:
  \<open>relation\<close> reads it from the objects, \<open>held\<close> from the targets.  In a linked game both agree.
\<close>

definition relation :: "game_state \<Rightarrow> string \<Rightarrow> string option" where
  "relation g j = Option.bind (card_at g j) attached_to"

definition held :: "game_state \<Rightarrow> string \<Rightarrow> string list" where
  "held g t =
     (case card_at g t of
        Some c \<Rightarrow> attachments c
      | None \<Rightarrow> (case Option.bind (target_seat t) (player_at g) of
                  Some p \<Rightarrow> player_attachments p | None \<Rightarrow> []))"

definition linked :: "game_state \<Rightarrow> bool" where
  "linked g \<longleftrightarrow> keyed g \<and> (\<forall>i. card_at g i \<noteq> None \<longrightarrow> target_seat i = None)
     \<and> (\<forall>t. distinct (held g t) \<and> set (held g t) = {j. relation g j = Some t})"

definition edit_held :: "string \<Rightarrow> (string list \<Rightarrow> string list) \<Rightarrow> game_state \<Rightarrow> game_state" where
  "edit_held t f g =
     (if card_at g t \<noteq> None then edit_card t (\<lambda>c. c\<lparr>attachments := f (attachments c)\<rparr>) g
      else case target_seat t of
          Some s \<Rightarrow> edit_player s (\<lambda>p. p\<lparr>player_attachments := f (player_attachments p)\<rparr>) g
        | None \<Rightarrow> g)"

definition end_at :: "game_state \<Rightarrow> string \<Rightarrow> attachment_end" where
  "end_at g t = (if card_at g t \<noteq> None then CardTarget t else SeatTarget (the (target_seat t)))"

lemma target_seat_eq: "target_seat t = Some s \<longleftrightarrow> t = PLAYER_ATTACHMENT_PREFIX @ s \<and> s \<noteq> []"
  by (auto simp: target_seat_def starts_with_def Let_def split: if_splits) (metis append_take_drop_id)

lemma target_seat_prefix: "player_attachment_target_id s = Inr t \<longleftrightarrow>
    t = PLAYER_ATTACHMENT_PREFIX @ s \<and> s \<noteq> [] \<and> \<not> starts_with PLAYER_ATTACHMENT_PREFIX s"
  by (auto simp: player_attachment_target_id_def ebind_ensure_Inr)

lemma edit_held_simps [simp]:
  "relation (edit_held t f g) = relation g" "keyed g \<Longrightarrow> keyed (edit_held t f g)"
  "map fst (cards (edit_held t f g)) = map fst (cards g)"
  by (auto simp: edit_held_def relation_def fun_eq_iff split: option.splits)

lemma held_relate [simp]:
  "(\<And>c. attachments (f c) = attachments c) \<Longrightarrow> held (edit_card i f g) t = held g t"
  by (auto simp: held_def split: option.splits)

lemma held_edit_held:
  assumes "held g t \<noteq> [] \<or> card_at g t \<noteq> None \<or> Option.bind (target_seat t) (player_at g) \<noteq> None"
  shows "held (edit_held t f g) u = (if u = t then f (held g t) else held g u)"
proof (cases "card_at g t")
  case None
  with assms obtain s p where s: "target_seat t = Some s" "player_at g s = Some p"
    by (cases "target_seat t") (auto simp: held_def split: option.splits)
  have "u = t" if "target_seat u = Some s"
    using that s(1) unfolding target_seat_eq by simp
  with None s show ?thesis
    by (cases "target_seat u") (auto simp: held_def edit_held_def split: option.splits)
next
  case (Some c)
  then show ?thesis by (cases "card_at g u") (auto simp: held_def edit_held_def)
qed

lemma edited_key [simp]: "card_at (edit_held t f g) i = None \<longleftrightarrow> card_at g i = None"
  by (auto simp: edit_held_def split: option.splits)

lemma previous_linked:
  assumes "linked g" and "card_at g i = Some c" and "attached_to c = Some t"
    and "seats_known \<or> card_at g t \<noteq> None"
  shows "previous_target g seats_known c = Inr (end_at g t)" and "i \<in> set (held g t)"
    and "remove_previous i (end_at g t) g = edit_held t (remove1 i) g"
proof -
  show i: "i \<in> set (held g t)" using assms(1-3) by (auto simp: linked_def relation_def)
  have oid: "object_id c = i" using assms(1,2) by (simp add: linked_def keyed_def)
  show "previous_target g seats_known c = Inr (end_at g t)"
  proof (cases "card_at g t")
    case None
    with i obtain s p where "target_seat t = Some s" "player_at g s = Some p" "i \<in> set (player_attachments p)"
      by (cases "target_seat t"; cases "player_at g (the (target_seat t))") (auto simp: held_def)
    with None assms(3,4) oid show ?thesis
      by (simp add: previous_target_def end_at_def attached_player_seat_def)
  next
    case (Some d)
    with i oid assms(3) show ?thesis by (simp add: previous_target_def end_at_def held_def)
  qed
  show "remove_previous i (end_at g t) g = edit_held t (remove1 i) g"
  proof (cases "card_at g t")
    case None
    with i obtain s where "target_seat t = Some s" by (cases "target_seat t") (auto simp: held_def)
    with None show ?thesis by (simp add: end_at_def edit_held_def)
  qed (simp add: end_at_def edit_held_def)
qed

text \<open>Taking an object off its target, and putting it on another one.\<close>

definition taken_off :: "string \<Rightarrow> game_state \<Rightarrow> game_state" where
  "taken_off i g = (case relation g i of None \<Rightarrow> g | Some t \<Rightarrow> edit_held t (remove1 i) g)"

lemma taken_off_simps [simp]:
  "relation (taken_off i g) = relation g" "keyed g \<Longrightarrow> keyed (taken_off i g)"
  "card_at (taken_off i g) j = None \<longleftrightarrow> card_at g j = None"
  by (cases "relation g i"; simp add: taken_off_def)+

lemma held_taken_off:
  assumes "linked g"
  shows "held (taken_off i g) u = remove1 i (held g u)"
proof (cases "relation g i")
  case None
  then have "i \<notin> set (held g u)" using assms by (auto simp: linked_def)
  with None show ?thesis by (simp add: taken_off_def remove1_idem)
next
  case (Some t)
  then have i: "i \<in> set (held g t)" "u \<noteq> t \<Longrightarrow> i \<notin> set (held g u)" using assms by (auto simp: linked_def)
  then have "held g t \<noteq> []" by auto
  from held_edit_held [OF disjI1 [OF this], of "remove1 i" u] Some i show ?thesis
    by (auto simp: taken_off_def remove1_idem)
qed

lemma linked_retarget:
  assumes "linked g" and "keyed h" and "\<And>j. card_at h j = None \<longleftrightarrow> card_at g j = None"
    and "relation h = (relation g)(i := new)"
    and "\<And>u. held h u = (if new = Some u then remove1 i (held g u) @ [i] else remove1 i (held g u))"
  shows "linked h"
proof -
  have "distinct (held h u) \<and> set (held h u) = {j. relation h j = Some u}" for u
    using assms(1) by (auto simp: assms(4,5) linked_def)
  moreover have "target_seat j = None" if "card_at h j \<noteq> None" for j
  proof -
    have "card_at g j \<noteq> None" using that assms(3) [of j] by simp
    with assms(1) show ?thesis by (simp add: linked_def)
  qed
  ultimately show ?thesis using assms(2) unfolding linked_def by blast
qed

lemma previous_taken_off:
  assumes "linked g" and "card_at g i = Some c"
  shows "\<exists>e. previous_target g True c = Inr e \<and> remove_previous i e g = taken_off i g"
proof (cases "attached_to c")
  case None
  with assms(2) show ?thesis by (intro exI [of _ NoTarget]) (simp add: previous_target_def taken_off_def relation_def)
next
  case (Some t)
  with assms have "relation g i = Some t" by (simp add: relation_def)
  with previous_linked [OF assms Some, of True] show ?thesis by (simp add: taken_off_def)
qed

lemma linked_held: "linked g \<Longrightarrow> set (held g t) = {j. relation g j = Some t}"
  by (simp add: linked_def)

lemma relation_relate:
  "card_at g i \<noteq> None \<Longrightarrow> relation (relate i t ts g) = (relation g)(i \<mapsto> t)"
  by (auto simp: relate_def relation_def fun_eq_iff)

lemma relation_unrelate:
  "relation (edit_card i (\<lambda>c. c\<lparr>attached_to := None\<rparr>) g) = (relation g)(i := None)"
  by (cases "card_at g i") (auto simp: relation_def fun_eq_iff)

lemma attach_end:
  assumes "linked g" and "card_at g i = Some c" and "relation g i \<noteq> Some t"
    and "card_at g t \<noteq> None \<or> Option.bind (target_seat t) (player_at g) \<noteq> None"
  shows "linked (relate i t ts (edit_held t (\<lambda>xs. xs @ [i]) (taken_off i g)))"
    and "relation (relate i t ts (edit_held t (\<lambda>xs. xs @ [i]) (taken_off i g))) = (relation g)(i \<mapsto> t)"
proof -
  let ?g1 = "taken_off i g"
  let ?h = "relate i t ts (edit_held t (\<lambda>xs. xs @ [i]) ?g1)"
  have seats: "map fst (players ?g1) = map fst (players g)"
    by (cases "relation g i") (auto simp: taken_off_def edit_held_def split: option.splits)
  have at: "card_at ?g1 t \<noteq> None \<or> Option.bind (target_seat t) (player_at ?g1) \<noteq> None"
  proof (cases "target_seat t")
    case (Some s)
    have "player_at ?g1 s = None \<longleftrightarrow> player_at g s = None"
      using arg_cong [OF seats, of set] by (simp add: map_of_eq_None_iff)
    with Some assms(4) show ?thesis by simp
  qed (use assms(4) in simp)
  have rel: "relation ?h = (relation g)(i \<mapsto> t)"
    using relation_relate [of "edit_held t (\<lambda>xs. xs @ [i]) ?g1" i] assms(2) by simp
  then show "relation ?h = (relation g)(i \<mapsto> t)" .
  have "keyed g" using assms(1) by (simp add: linked_def)
  show "linked ?h"
  proof (rule linked_retarget [OF assms(1)])
    show "keyed ?h" unfolding relate_def by (intro keyed_edit) (simp_all add: \<open>keyed g\<close>)
    show "card_at ?h j = None \<longleftrightarrow> card_at g j = None" for j by (simp add: relate_def)
    show "relation ?h = (relation g)(i := Some t)" by (rule rel)
    show "held ?h u = (if Some t = Some u then remove1 i (held g u) @ [i] else remove1 i (held g u))" for u
      using held_edit_held [of ?g1 t "\<lambda>xs. xs @ [i]" u] at held_taken_off [OF assms(1), of i]
      by (auto simp: relate_def)
  qed
qed

lemma attach_objects_refines:
  assumes "linked g"
  shows "case attach_objects True i t ts g of
      Inr (h, x) \<Rightarrow> linked h \<and> relation h = (relation g)(i \<mapsto> t)
    | Inl e \<Rightarrow> i = t \<or> card_at g i = None \<or> card_at g t = None \<or> ts < 0"
proof (cases "i = t \<or> card_at g i = None \<or> card_at g t = None \<or> ts < 0")
  case False
  then obtain c d where c: "card_at g i = Some c" "card_at g t = Some d" "i \<noteq> t" "0 \<le> ts" by auto
  have oid: "object_id c = i" "object_id d = t" using assms c by (simp_all add: linked_def keyed_def)
  have held: "held g t = attachments d" using c by (simp add: held_def)
  have rel: "relation g i = attached_to c" using c by (simp add: relation_def)
  from previous_taken_off [OF assms c(1)] obtain e where
    e: "previous_target g True c = Inr e" "remove_previous i e g = taken_off i g" by blast
  show ?thesis
  proof (cases "attached_to c = Some t")
    case True
    then have "i \<in> set (attachments d)" using linked_held [OF assms, of t] held rel by simp
    moreover have "(relation g)(i \<mapsto> t) = relation g" using True rel by (simp add: fun_upd_idem)
    ultimately show ?thesis using c oid e True assms by (simp add: attach_objects_def)
  next
    case False
    have "edit_held t (\<lambda>xs. xs @ [i]) (taken_off i g)
        = edit_card t (\<lambda>c. c\<lparr>attachments := attachments c @ [i]\<rparr>) (taken_off i g)"
      using c(2) by (simp add: edit_held_def)
    moreover have "i \<notin> set (attachments d)" using linked_held [OF assms, of t] False rel held by simp
    ultimately show ?thesis using attach_end [OF assms c(1), of t ts] c oid e False rel
      by (simp add: attach_objects_def)
  qed
qed (auto split: sum.split simp: attach_objects_def ebind_eq_Inr option_raise_eq_Inr)

lemma attach_to_player_refines:
  assumes "linked g"
  shows "case attach_to_player i s ts g of
      Inr (h, x) \<Rightarrow> linked h \<and> relation h = (relation g)(i \<mapsto> PLAYER_ATTACHMENT_PREFIX @ s)
    | Inl e \<Rightarrow> card_at g i = None \<or> player_at g s = None \<or> ts < 0 \<or> s = []
        \<or> starts_with PLAYER_ATTACHMENT_PREFIX s"
proof (cases "card_at g i = None \<or> player_at g s = None \<or> ts < 0 \<or> s = [] \<or> starts_with PLAYER_ATTACHMENT_PREFIX s")
  case False
  let ?t = "PLAYER_ATTACHMENT_PREFIX @ s"
  from False obtain c p where c: "card_at g i = Some c" "player_at g s = Some p" "0 \<le> ts"
    and t: "player_attachment_target_id s = Inr ?t" "target_seat ?t = Some s"
    by (auto simp: target_seat_prefix target_seat_eq)
  have oid: "object_id c = i" using assms c by (simp add: linked_def keyed_def)
  have none: "card_at g ?t = None" using assms t(2) by (auto simp: linked_def)
  have held: "held g ?t = player_attachments p" using c t none by (simp add: held_def)
  have rel: "relation g i = attached_to c" using c by (simp add: relation_def)
  from previous_taken_off [OF assms c(1)] obtain e where
    e: "previous_target g True c = Inr e" "remove_previous i e g = taken_off i g" by blast
  show ?thesis
  proof (cases "attached_to c = Some ?t")
    case True
    then have "i \<in> set (player_attachments p)" using linked_held [OF assms, of ?t] held rel by simp
    moreover have "(relation g)(i \<mapsto> ?t) = relation g" using True rel by (simp add: fun_upd_idem)
    ultimately show ?thesis using c oid e t True assms by (simp add: attach_to_player_def)
  next
    case False
    have "edit_held ?t (\<lambda>xs. xs @ [i]) (taken_off i g)
        = edit_player s (\<lambda>p. p\<lparr>player_attachments := player_attachments p @ [i]\<rparr>) (taken_off i g)"
      using none t(2) by (simp add: edit_held_def)
    moreover have "i \<notin> set (player_attachments p)" using linked_held [OF assms, of ?t] False rel held by simp
    ultimately show ?thesis using attach_end [OF assms c(1), of ?t ts] c oid e t False rel
      by (simp add: attach_to_player_def)
  qed
qed (auto split: sum.split simp: attach_to_player_def ebind_eq_Inr option_raise_eq_Inr target_seat_prefix)

lemma detach_object_refines:
  assumes "linked g" and "card_at g i = Some c"
  shows "\<exists>h x. detach_object True i g = Inr (h, x) \<and> linked h \<and> relation h = (relation g)(i := None)
    \<and> map fst (cards h) = map fst (cards g)"
proof (cases "attached_to c")
  case None
  moreover have "(relation g)(i := None) = relation g" using None assms(2) by (simp add: relation_def fun_upd_idem)
  ultimately show ?thesis using assms by (simp add: detach_object_def linked_def keyed_def)
next
  case (Some t)
  have oid: "object_id c = i" "keyed g" using assms by (simp_all add: linked_def keyed_def)
  from previous_taken_off [OF assms] obtain e where
    e: "previous_target g True c = Inr e" "remove_previous i e g = taken_off i g" by blast
  let ?h = "edit_card i (\<lambda>c. c\<lparr>attached_to := None\<rparr>) (taken_off i g)"
  have rel: "relation ?h = (relation g)(i := None)"
    by (simp add: relation_unrelate)
  have "linked ?h"
  proof (rule linked_retarget [OF assms(1)])
    show "keyed ?h" by (intro keyed_edit) (simp_all add: oid)
    show "relation ?h = (relation g)(i := None)" by (rule rel)
    show "held ?h u = (if None = Some u then remove1 i (held g u) @ [i] else remove1 i (held g u))" for u
      using held_taken_off [OF assms(1), of i] by simp
  qed simp
  moreover have "map fst (cards ?h) = map fst (cards g)"
    by (cases "relation g i") (simp_all add: taken_off_def)
  ultimately show ?thesis using rel assms oid e Some by (simp add: detach_object_def)
qed

lemma detach_all_refines:
  assumes "linked g" and "\<forall>j \<in> set js. relation g j = Some t" and "distinct js"
  shows "\<exists>h xs. detach_all True t js g = Inr (h, xs) \<and> linked h
    \<and> relation h = (\<lambda>j. if j \<in> set js then None else relation g j)
    \<and> map fst (cards h) = map fst (cards g)"
  using assms
proof (induction js arbitrary: g)
  case (Cons j js)
  then obtain c where c: "card_at g j = Some c" "attached_to c = Some t"
    by (cases "card_at g j") (auto simp: relation_def)
  from detach_object_refines [OF Cons.prems(1) c(1)] obtain g1 x where
    g1: "detach_object True j g = Inr (g1, x)" "linked g1" "relation g1 = (relation g)(j := None)"
      "map fst (cards g1) = map fst (cards g)" by blast
  have "\<forall>i \<in> set js. relation g1 i = Some t" using Cons.prems(2,3) g1(3) by auto
  from Cons.IH [OF g1(2) this] Cons.prems(3) obtain h xs where
    h: "detach_all True t js g1 = Inr (h, xs)" "linked h"
      "relation h = (\<lambda>i. if i \<in> set js then None else relation g1 i)" "map fst (cards h) = map fst (cards g1)"
    by auto
  from c g1 h show ?case by auto
qed simp

lemma clear_refines:
  assumes "linked g" and "card_at g i = Some c"
  shows "\<exists>h xs. clear_object_attachment_relations True i g = Inr (h, xs) \<and> linked h
    \<and> relation h = (\<lambda>j. if j = i \<or> relation g j = Some i then None else relation g j)
    \<and> map fst (cards h) = map fst (cards g)"
proof -
  obtain g1 xs where first: "(if attached_to c = None then Inr (g, [])
      else ebind (detach_object True i g) (\<lambda>(g1, x). Inr (g1, [x]))) = (Inr (g1, xs) :: attachment_error + _)"
    "linked g1" "relation g1 = (relation g)(i := None)" "map fst (cards g1) = map fst (cards g)"
  proof (cases "attached_to c")
    case None
    moreover have "(relation g)(i := None) = relation g" using None assms(2) by (simp add: relation_def fun_upd_idem)
    ultimately show ?thesis using that [of g "[]"] assms(1) by simp
  next
    case (Some t)
    with detach_object_refines [OF assms] that show ?thesis by auto
  qed
  have "i \<in> set (map fst (cards g1))" using assms(2) map_of_Some_key [of "cards g" i c] first(4) by simp
  then obtain c1 where c1: "card_at g1 i = Some c1" by (cases "card_at g1 i") (auto simp: map_of_eq_None_iff)
  have oid: "object_id c1 = i" using first(2) c1 by (simp add: linked_def keyed_def)
  have held: "attachments c1 = held g1 i" using c1 by (simp add: held_def)
  have "\<forall>j \<in> set (attachments c1). relation g1 j = Some i" "distinct (attachments c1)"
    using first(2) unfolding held linked_def by auto
  from detach_all_refines [OF first(2) this] obtain h ys where
    h: "detach_all True i (attachments c1) g1 = Inr (h, ys)" "linked h"
      "relation h = (\<lambda>j. if j \<in> set (attachments c1) then None else relation g1 j)"
      "map fst (cards h) = map fst (cards g1)" by blast
  have "relation h = (\<lambda>j. if j = i \<or> relation g j = Some i then None else relation g j)"
    unfolding h(3) held linked_held [OF first(2)] first(3) by auto
  with h(1,2,4) first(1,4) c1 oid assms(2) show ?thesis
    by (simp add: clear_object_attachment_relations_def)
qed

text \<open>
  C11. The attachments kept at both ends are one partial function from objects to targets: in a game
  whose ends agree, attaching to an object or a player sets the value of the source, detaching
  clears it and clearing an object removes its own value and every value that names it, the ends
  agree again afterwards, and nothing but a missing object, a missing or ill-named player, a
  negative timestamp or an object attached to itself makes the operations raise.
\<close>

theorem attachments_refine:
  assumes "linked g"
  shows "(case attach_objects True i t ts g of
        Inr (h, x) \<Rightarrow> linked h \<and> relation h = (relation g)(i \<mapsto> t)
      | Inl e \<Rightarrow> i = t \<or> card_at g i = None \<or> card_at g t = None \<or> ts < 0)
    \<and> (case attach_to_player i s ts g of
        Inr (h, x) \<Rightarrow> linked h \<and> relation h = (relation g)(i \<mapsto> PLAYER_ATTACHMENT_PREFIX @ s)
      | Inl e \<Rightarrow> card_at g i = None \<or> player_at g s = None \<or> ts < 0 \<or> s = []
          \<or> starts_with PLAYER_ATTACHMENT_PREFIX s)
    \<and> (case detach_object True i g of
        Inr (h, x) \<Rightarrow> linked h \<and> relation h = (relation g)(i := None)
      | Inl e \<Rightarrow> card_at g i = None)
    \<and> (case clear_object_attachment_relations True i g of
        Inr (h, xs) \<Rightarrow> linked h
          \<and> relation h = (\<lambda>j. if j = i \<or> relation g j = Some i then None else relation g j)
      | Inl e \<Rightarrow> card_at g i = None)"
proof (intro conjI)
  show "case detach_object True i g of
        Inr (h, x) \<Rightarrow> linked h \<and> relation h = (relation g)(i := None)
      | Inl e \<Rightarrow> card_at g i = None"
    using detach_object_refines [OF assms, of i]
    by (cases "card_at g i") (auto simp: detach_object_def)
  show "case clear_object_attachment_relations True i g of
        Inr (h, xs) \<Rightarrow> linked h
          \<and> relation h = (\<lambda>j. if j = i \<or> relation g j = Some i then None else relation g j)
      | Inl e \<Rightarrow> card_at g i = None"
    using clear_refines [OF assms, of i]
    by (cases "card_at g i") (auto simp: clear_object_attachment_relations_def)
qed (rule attach_objects_refines [OF assms], rule attach_to_player_refines [OF assms])

section \<open>A concrete equipment\<close>

definition equipped :: game_state where
  "equipped = new_game [''A'', ''B'']\<lparr>cards :=
     [(''sword'', (new_card ''sword'' ''A'' ''battlefield'')\<lparr>attached_to := Some ''bear''\<rparr>),
      (''bear'', (new_card ''bear'' ''A'' ''battlefield'')\<lparr>attachments := [''sword'']\<rparr>),
      (''elf'', new_card ''elf'' ''B'' ''battlefield'')]\<rparr>"

lemma equipped_linked: "linked equipped"
proof -
  have "relation equipped j = (if j = ''sword'' then Some ''bear'' else None)" for j
    by (simp add: relation_def equipped_def new_card_def)
  moreover have "held equipped t = (if t = ''bear'' then [''sword''] else [])" for t
    by (cases "target_seat t") (simp_all add: held_def equipped_def new_card_def new_game_def new_player_def)
  moreover have "keyed equipped" by (simp add: keyed_def equipped_def new_card_def)
  moreover have "target_seat i = None" if "card_at equipped i \<noteq> None" for i
    using that by (auto simp: equipped_def target_seat_def starts_with_def PLAYER_ATTACHMENT_PREFIX_def split: if_splits)
  ultimately show ?thesis by (simp add: linked_def)
qed

lemma attachments_refine_witness:
  "\<exists>h x. attach_objects True ''sword'' ''elf'' 3 equipped = Inr (h, x) \<and> linked h
     \<and> relation h ''sword'' = Some ''elf''"
proof -
  have "\<not> (''sword'' = ''elf'' \<or> card_at equipped ''sword'' = None \<or> card_at equipped ''elf'' = None \<or> (3::int) < 0)"
    by (simp add: equipped_def)
  with attachments_refine [OF equipped_linked, of "''sword''" "''elf''" 3] show ?thesis
    by (cases "attach_objects True ''sword'' ''elf'' 3 equipped") auto
qed

end
