(* ===== verification/Zone_Objects.thy ===== *)
theory Zone_Objects imports Attachments
begin

text \<open>
  The state stored on one object: the designations of \<open>quorune/zone_object_state.py\<close> and the reset
  that a new object gets when a card changes zones, and the control history of
  \<open>quorune/control_history.py\<close> (when its controller acquired a permanent, and the upkeep epoch of a
  player).  The fingerprint of a Morph descriptor is a SHA-256 value and an argument here.
\<close>

datatype object_error =
    KickerMalformed
  | UnearthMalformed
  | FlashbackMalformed
  | MorphMalformed
  | FaceUpMalformed
  | NoDestination
  | NegativeTurns
  | NegativeControlTime
  | NegativeUpkeepTime
  | UnsupportedHistory
  | NoCurrentController
  | NoCurrentPlayer
  | BadPreviousUpkeep
  | UpkeepBackwards

section \<open>Designations\<close>

definition KICKER_ANNOTATION :: string where
  "KICKER_ANNOTATION = ''kicker_paid''"

definition FLASHBACK_CAST_ANNOTATION :: string where
  "FLASHBACK_CAST_ANNOTATION = ''cast_via_flashback''"

definition mark_card_kicked :: "card_instance \<Rightarrow> object_error + card_instance" where
  "mark_card_kicked c =
     ebind (ensure (zone c = ''stack'' \<and> object_kind c = ''card''
              \<and> dict_get PNone (card_annotations c) KICKER_ANNOTATION = PNone) KickerMalformed) (\<lambda>_.
     Inr (c\<lparr>card_annotations := AList.update KICKER_ANNOTATION (PBool True) (card_annotations c)\<rparr>))"

definition mark_card_unearthed :: "card_instance \<Rightarrow> object_error + card_instance" where
  "mark_card_unearthed c =
     ebind (ensure (zone c = ''battlefield'' \<and> object_kind c = ''card'' \<and> \<not> phased_out c
              \<and> \<not> unearthed c) UnearthMalformed) (\<lambda>_.
     Inr (c\<lparr>unearthed := True\<rparr>))"

definition mark_card_flashed_back :: "card_instance \<Rightarrow> object_error + card_instance" where
  "mark_card_flashed_back c =
     ebind (ensure (zone c = ''stack'' \<and> object_kind c = ''card''
              \<and> dict_get PNone (card_annotations c) FLASHBACK_CAST_ANNOTATION = PNone) FlashbackMalformed) (\<lambda>_.
     Inr (c\<lparr>card_annotations := AList.update FLASHBACK_CAST_ANNOTATION (PBool True) (card_annotations c)\<rparr>))"

definition MORPH_FACE_DOWN_ANNOTATION :: string where
  "MORPH_FACE_DOWN_ANNOTATION = ''face_down_characteristics''"

definition MORPH_METHOD_ANNOTATION :: string where
  "MORPH_METHOD_ANNOTATION = ''face_down_method''"

definition MORPH_FACE_DOWN_VALUES :: pyval where
  "MORPH_FACE_DOWN_VALUES = PDict [(''name'', PStr []), (''mana_cost'', PStr []), (''mana_value'', PInt 0),
     (''text'', PStr []), (''supertypes'', PList []), (''card_types'', PList [PStr ''Creature'']),
     (''subtypes'', PList []), (''colors'', PList []), (''abilities'', PList []), (''power'', PInt 2),
     (''toughness'', PInt 2)]"

definition morph_face_down_annotation :: "string \<Rightarrow> pyval" where
  "morph_face_down_annotation fingerprint =
     PDict [(''schema_version'', PInt 1), (''kind'', PStr ''morph''), (''spec_fingerprint'', PStr fingerprint)]"

definition mark_card_face_down_for_morph ::
  "string \<Rightarrow> string \<Rightarrow> card_instance \<Rightarrow> object_error + card_instance" where
  "mark_card_face_down_for_morph who fingerprint c =
     ebind (ensure (zone c = ''stack'' \<and> object_kind c = ''card'' \<and> who \<noteq> []) MorphMalformed) (\<lambda>_.
     Inr (c\<lparr>face_down := True,
        card_annotations :=
          AList.update MORPH_METHOD_ANNOTATION (morph_face_down_annotation fingerprint)
            (AList.update MORPH_FACE_DOWN_ANNOTATION MORPH_FACE_DOWN_VALUES (card_annotations c)),
        known_to := sorted_unique (owner c # who # known_to c), revealed_to := []\<rparr>))"

definition turn_card_face_up :: "string list \<Rightarrow> card_instance \<Rightarrow> object_error + card_instance" where
  "turn_card_face_up viewers c =
     ebind (ensure (zone c = ''battlefield'' \<and> face_down c \<and> list_all (\<lambda>v. v \<noteq> []) viewers
              \<and> distinct viewers) FaceUpMalformed) (\<lambda>_.
     Inr (c\<lparr>face_down := False,
        card_annotations := AList.delete MORPH_METHOD_ANNOTATION
          (AList.delete MORPH_FACE_DOWN_ANNOTATION (card_annotations c)),
        known_to := viewers, revealed_to := viewers\<rparr>))"

section \<open>A new object\<close>

definition retained_annotations :: "card_instance \<Rightarrow> bool \<Rightarrow> string list" where
  "retained_annotations c stack_to_battlefield =
     [''object_characteristics'', ''token_characteristics'']
     @ (if is_token c \<or> object_kind c \<in> {''spell_copy'', ''card_copy''} then [''copied_from'', ''copy_overrides''] else [])
     @ (if stack_to_battlefield
        then [''bestowed'', ''chosen_creature_type'', ''chosen_creature_type_adds_subtype'', ''chosen_name'',
              ''copy_overrides'', ''evoked'', ''pending_aura_target'', ''pending_aura_zone'',
              ''face_down_characteristics'', ''face_down_method'']
        else [])"

definition reset_card_after_zone_change ::
  "string \<Rightarrow> bool \<Rightarrow> card_instance \<Rightarrow> object_error + card_instance" where
  "reset_card_after_zone_change dest stack_to_battlefield c =
     ebind (ensure (dest \<noteq> []) NoDestination) (\<lambda>_.
     let c1 = c\<lparr>tapped := False, marked_damage := 0, deathtouch_damage := False,
           regeneration_shields := 0, temporary_keywords := [], goaded_by := [], monstrous_value := None,
           renowned := False, unearthed := False, attacking := None, blocking := None,
           attached_to := None, attachments := [], phased_out := False\<rparr>;
         c2 = (if stack_to_battlefield then c1 else c1\<lparr>battle_protector := None\<rparr>);
         c3 = c2\<lparr>card_annotations :=
                  filter (\<lambda>e. fst e \<in> set (retained_annotations c stack_to_battlefield)) (card_annotations c2),
                 card_counters := []\<rparr>;
         c4 = (if stack_to_battlefield then c3 else c3\<lparr>active_face := None, face_down := False\<rparr>) in
     Inr (if dest \<noteq> ''battlefield'' then c4\<lparr>controller := owner c4\<rparr> else c4))"

section \<open>Control history\<close>

definition CONTROL_HISTORY_VERSION :: int where
  "CONTROL_HISTORY_VERSION = 1"

definition supported_history :: "int option \<Rightarrow> bool" where
  "supported_history v \<longleftrightarrow> v = None \<or> v = Some CONTROL_HISTORY_VERSION"

definition record_control_acquisition ::
  "int \<Rightarrow> int \<Rightarrow> int option \<Rightarrow> card_instance \<Rightarrow> object_error + card_instance" where
  "record_control_acquisition turns timestamp version c =
     ebind (ensure (0 \<le> turns) NegativeTurns) (\<lambda>_.
     ebind (ensure (0 \<le> timestamp) NegativeControlTime) (\<lambda>_.
     ebind (ensure (supported_history version) UnsupportedHistory) (\<lambda>_.
     let c1 = c\<lparr>acquired_control_turn_count := turns\<rparr> in
     Inr (if version \<noteq> None then c1\<lparr>acquired_control_timestamp := timestamp\<rparr> else c1))))"

definition record_battlefield_acquisition ::
  "game_state \<Rightarrow> int \<Rightarrow> card_instance \<Rightarrow> object_error + card_instance" where
  "record_battlefield_acquisition g timestamp c =
     ebind (option_raise NoCurrentController (player_at g (controller c))) (\<lambda>p.
     record_control_acquisition (turns_begun p) timestamp (control_history_version g) c)"

definition next_timestamp :: "game_state \<Rightarrow> game_state \<times> int" where
  "next_timestamp g = (g\<lparr>timestamp_sequence := timestamp_sequence g + 1\<rparr>, timestamp_sequence g + 1)"

definition record_control_change :: "string \<Rightarrow> game_state \<Rightarrow> object_error + game_state" where
  "record_control_change i g =
     (let (g1, timestamp) = (if control_history_version g \<noteq> None then next_timestamp g else (g, 0)) in
      case card_at g1 i of
        None \<Rightarrow> Inl NoCurrentController
      | Some c \<Rightarrow> ebind (record_battlefield_acquisition g1 timestamp c) (\<lambda>c1. Inr (edit_card i (\<lambda>_. c1) g1)))"

definition begin_upkeep_control_epoch ::
  "int \<Rightarrow> int option \<Rightarrow> player_state \<Rightarrow> object_error + player_state \<times> int" where
  "begin_upkeep_control_epoch timestamp version p =
     ebind (ensure (0 \<le> timestamp) NegativeUpkeepTime) (\<lambda>_.
     ebind (ensure (supported_history version) UnsupportedHistory) (\<lambda>_.
     if version = None then Inr (p, 0)
     else
       let previous = last_upkeep_timestamp p in
       ebind (ensure (0 \<le> previous) BadPreviousUpkeep) (\<lambda>_.
       ebind (ensure (previous \<le> timestamp) UpkeepBackwards) (\<lambda>_.
       Inr (p\<lparr>last_upkeep_timestamp := timestamp\<rparr>, previous)))))"

definition begin_upkeep_epoch :: "string \<Rightarrow> game_state \<Rightarrow> object_error + game_state \<times> int" where
  "begin_upkeep_epoch s g =
     ebind (option_raise NoCurrentPlayer (player_at g s)) (\<lambda>p.
     ebind (begin_upkeep_control_epoch (timestamp_sequence g) (control_history_version g) p) (\<lambda>(p1, previous).
     Inr (edit_player s (\<lambda>_. p1) g, previous)))"

definition upkeep_trigger_context ::
  "string \<Rightarrow> string \<Rightarrow> string \<Rightarrow> game_state \<Rightarrow> object_error + game_state \<times> (string, pyval) dict" where
  "upkeep_trigger_context ph st who g =
     ebind (begin_upkeep_epoch who g) (\<lambda>(h, previous).
     Inr (h, [(''phase'', PStr ph), (''step'', PStr st), (''player'', PStr who),
              (''previous_upkeep_timestamp'', PInt previous)]))"

end
