(* ===== verification/Game_Invariants.thy ===== *)
theory Game_Invariants imports Object_Store Engine_Core
begin

text \<open>
  The invariants the engine asserts at the end of every transaction
  (\<open>CommanderEngine._assert_invariants\<close> of \<open>quorune/engine.py\<close>): the zones of the players index
  the objects of the game, the stack names objects on the stack, goad designations, priority and
  monarch belong to players, the turn journal belongs to the turn and no mana pool is negative.
  \<open>well_formed\<close> states the same declaratively, and the checks decide it.
\<close>

datatype invariant_error =
    DuplicateObject string string
  | UnknownObject string string string
  | StackNonstack string
  | GoadedElsewhere string
  | DuplicateGoad string
  | GoadUnknownPlayer string
  | BadStackMembership string
  | OutsideInZone string
  | NotInOneZone string
  | ZoneMismatch string
  | WrongController string
  | WrongOwner string
  | PriorityOutside
  | MonarchOutside
  | HistorySchema int
  | HistoryTurn
  | HistoryActor string
  | HistoryTarget
  | NegativeMana string
  | SeatsUnknown engine_error

section \<open>The checks\<close>

text \<open>\<open>membership\<close>: every object identity with the places that list it, in order.\<close>

definition zone_places :: "string \<Rightarrow> string \<times> string list \<Rightarrow> (string \<times> string \<times> string) list" where
  "zone_places s zi = map (\<lambda>i. (i, s, fst zi)) (snd zi)"

definition membership :: "game_state \<Rightarrow> (string \<times> string \<times> string) list" where
  "membership g = concat (map (\<lambda>(s, p). concat (map (zone_places s) (zones p))) (players g))"

definition places_of :: "game_state \<Rightarrow> string \<Rightarrow> (string \<times> string) list" where
  "places_of g i = map snd (filter (\<lambda>m. fst m = i) (membership g))"

definition check_zone :: "game_state \<Rightarrow> string \<Rightarrow> unit \<Rightarrow> string \<times> string list \<Rightarrow> invariant_error + unit" where
  "check_zone g s u zi =
     ebind (ensure (distinct (snd zi)) (DuplicateObject s (fst zi))) (\<lambda>_.
     efold (\<lambda>_ i. ensure (card_at g i \<noteq> None) (UnknownObject i s (fst zi))) () (snd zi))"

definition check_zones :: "game_state \<Rightarrow> invariant_error + unit" where
  "check_zones g = efold (\<lambda>u (s, p). efold (check_zone g s) () (zones p)) () (players g)"

definition named_card :: "stack_item \<Rightarrow> string option" where
  "named_card s = (case card_object_id s of None \<Rightarrow> None | Some i \<Rightarrow> if i = [] then None else Some i)"

definition stack_cards :: "game_state \<Rightarrow> string list" where
  "stack_cards g = List.map_filter named_card (stack_items g)"

definition check_stack_item :: "game_state \<Rightarrow> unit \<Rightarrow> stack_item \<Rightarrow> invariant_error + unit" where
  "check_stack_item g u s =
     (case named_card s of
        None \<Rightarrow> Inr ()
      | Some i \<Rightarrow>
          (case card_at g i of
             None \<Rightarrow> Inl (StackNonstack i)
           | Some c \<Rightarrow> ensure (zone c = ''stack''
                 \<or> truthy (dict_get PNone (stack_context s) ''currently_resolving'')) (StackNonstack i)))"

definition OWNER_ZONES :: "string list" where
  "OWNER_ZONES = [''library'', ''hand'', ''graveyard'', ''exile'', ''command'']"

definition check_place :: "game_state \<Rightarrow> string \<times> card_instance \<Rightarrow> invariant_error + unit" where
  "check_place g ic =
     (let c = snd ic; at = places_of g (fst ic) in
      if zone c = ''stack'' then
        ensure (fst ic \<in> set (stack_cards g) \<and> at = []) (BadStackMembership (card_ref c))
      else if zone c = ''outside'' then ensure (at = []) (OutsideInZone (card_ref c))
      else case at of
        [(s, z)] \<Rightarrow>
          if z \<noteq> zone c then Inl (ZoneMismatch (card_ref c))
          else if zone c = ''battlefield'' \<and> s \<noteq> controller c then Inl (WrongController (card_ref c))
          else if zone c \<in> set OWNER_ZONES \<and> s \<noteq> owner c then Inl (WrongOwner (card_ref c))
          else Inr ()
      | _ \<Rightarrow> Inl (NotInOneZone (card_ref c)))"

definition check_goad :: "game_state \<Rightarrow> card_instance \<Rightarrow> invariant_error + unit" where
  "check_goad g c =
     ebind (ensure (goaded_by c = [] \<or> zone c = ''battlefield'') (GoadedElsewhere (card_ref c))) (\<lambda>_.
     ebind (ensure (distinct (map goad_player (goaded_by c))) (DuplicateGoad (card_ref c))) (\<lambda>_.
     ensure (list_all (\<lambda>d. player_at g (goad_player d) \<noteq> None) (goaded_by c)) (GoadUnknownPlayer (card_ref c))))"

definition check_card :: "game_state \<Rightarrow> unit \<Rightarrow> string \<times> card_instance \<Rightarrow> invariant_error + unit" where
  "check_card g u ic = ebind (check_goad g (snd ic)) (\<lambda>_. check_place g ic)"

definition check_seat :: "game_state \<Rightarrow> invariant_error \<Rightarrow> string option \<Rightarrow> invariant_error + unit" where
  "check_seat g e who =
     (case who of
        None \<Rightarrow> Inr ()
      | Some s \<Rightarrow> ebind (reraise SeatsUnknown (active g)) (\<lambda>seats. ensure (s \<in> set seats) e))"

definition check_history_event :: "game_state \<Rightarrow> unit \<Rightarrow> turn_history_event \<Rightarrow> invariant_error + unit" where
  "check_history_event g u e =
     ebind (case history_actor e of
              None \<Rightarrow> Inr ()
            | Some a \<Rightarrow> ensure (player_at g a \<noteq> None) (HistoryActor a)) (\<lambda>_.
     ensure (target_kind e = Some ''player'' \<longrightarrow>
               (case history_target e of None \<Rightarrow> False | Some t \<Rightarrow> player_at g t \<noteq> None)) HistoryTarget)"

definition check_history :: "game_state \<Rightarrow> invariant_error + unit" where
  "check_history g =
     (case game_turn_history g of
        None \<Rightarrow> Inr ()
      | Some h \<Rightarrow>
          ebind (ensure (history_version h = 1) (HistorySchema (history_version h))) (\<lambda>_.
          ebind (ensure (history_events h = [] \<or> history_turn_sequence h = turn_sequence g) HistoryTurn) (\<lambda>_.
          efold (check_history_event g) () (history_events h))))"

definition check_mana :: "unit \<Rightarrow> string \<times> player_state \<Rightarrow> invariant_error + unit" where
  "check_mana u sp = ensure (list_all (\<lambda>v. 0 \<le> v) (map snd (mana_pool (snd sp)))) (NegativeMana (seat (snd sp)))"

definition assert_invariants :: "game_state \<Rightarrow> invariant_error + unit" where
  "assert_invariants g =
     ebind (check_zones g) (\<lambda>_.
     ebind (efold (check_stack_item g) () (stack_items g)) (\<lambda>_.
     ebind (efold (check_card g) () (cards g)) (\<lambda>_.
     ebind (check_seat g PriorityOutside (priority_player g)) (\<lambda>_.
     ebind (check_seat g MonarchOutside (monarch g)) (\<lambda>_.
     ebind (check_history g) (\<lambda>_.
     efold check_mana () (players g)))))))"

section \<open>What they decide\<close>

text \<open>The dictionaries of the game have distinct keys, as Python's have.\<close>

definition dicts_ok :: "game_state \<Rightarrow> bool" where
  "dicts_ok g \<longleftrightarrow> distinct (map fst (players g)) \<and> distinct (map fst (cards g))
     \<and> (\<forall>s p. player_at g s = Some p \<longrightarrow> distinct (map fst (zones p)))"

definition zone_of :: "game_state \<Rightarrow> string \<Rightarrow> string \<Rightarrow> string list" where
  "zone_of g s z = (case player_at g s of None \<Rightarrow> [] | Some p \<Rightarrow> dict_get [] (zones p) z)"

definition placed :: "game_state \<Rightarrow> string \<Rightarrow> card_instance \<Rightarrow> bool" where
  "placed g i c \<longleftrightarrow>
     (if zone c = ''stack'' \<or> zone c = ''outside'' then
        (\<forall>s z. i \<notin> set (zone_of g s z)) \<and> (zone c = ''stack'' \<longrightarrow> i \<in> set (stack_cards g))
      else \<exists>s. (\<forall>t z. i \<in> set (zone_of g t z) \<longleftrightarrow> t = s \<and> z = zone c)
        \<and> (zone c = ''battlefield'' \<longrightarrow> s = controller c) \<and> (zone c \<in> set OWNER_ZONES \<longrightarrow> s = owner c))"

definition zones_ok :: "game_state \<Rightarrow> bool" where
  "zones_ok g \<longleftrightarrow>
     (\<forall>s z. distinct (zone_of g s z) \<and> (\<forall>i \<in> set (zone_of g s z). card_at g i \<noteq> None))
     \<and> (\<forall>i c. card_at g i = Some c \<longrightarrow> placed g i c)"

definition stack_ok :: "game_state \<Rightarrow> bool" where
  "stack_ok g \<longleftrightarrow> (\<forall>s \<in> set (stack_items g). \<forall>i. named_card s = Some i \<longrightarrow>
     (\<exists>c. card_at g i = Some c \<and> (zone c = ''stack''
        \<or> truthy (dict_get PNone (stack_context s) ''currently_resolving''))))"

definition goads_ok :: "game_state \<Rightarrow> bool" where
  "goads_ok g \<longleftrightarrow> (\<forall>i c. card_at g i = Some c \<longrightarrow>
     (goaded_by c \<noteq> [] \<longrightarrow> zone c = ''battlefield'') \<and> distinct (map goad_player (goaded_by c))
     \<and> (\<forall>d \<in> set (goaded_by c). player_at g (goad_player d) \<noteq> None))"

definition seats_ok :: "game_state \<Rightarrow> bool" where
  "seats_ok g \<longleftrightarrow> (\<forall>s \<in> set_option (priority_player g) \<union> set_option (monarch g).
     \<exists>seats. active g = Inr seats \<and> s \<in> set seats)"

definition history_ok :: "game_state \<Rightarrow> bool" where
  "history_ok g \<longleftrightarrow> (\<forall>h. game_turn_history g = Some h \<longrightarrow>
     history_version h = 1 \<and> (history_events h \<noteq> [] \<longrightarrow> history_turn_sequence h = turn_sequence g)
     \<and> (\<forall>e \<in> set (history_events h).
          (\<forall>a. history_actor e = Some a \<longrightarrow> player_at g a \<noteq> None)
          \<and> (target_kind e = Some ''player'' \<longrightarrow> (\<exists>t. history_target e = Some t \<and> player_at g t \<noteq> None))))"

definition mana_ok :: "game_state \<Rightarrow> bool" where
  "mana_ok g \<longleftrightarrow> (\<forall>s p. player_at g s = Some p \<longrightarrow> (\<forall>v \<in> snd ` set (mana_pool p). 0 \<le> v))"

definition well_formed :: "game_state \<Rightarrow> bool" where
  "well_formed g \<longleftrightarrow> zones_ok g \<and> stack_ok g \<and> goads_ok g \<and> seats_ok g \<and> history_ok g \<and> mana_ok g"

lemma check_all: "efold (\<lambda>u x. f u x) () xs = Inr () \<longleftrightarrow> (\<forall>x \<in> set xs. f () x = Inr ())"
  for f :: "unit \<Rightarrow> 'a \<Rightarrow> 'e + unit"
  by (induction xs) (auto simp: ebind_eq_Inr)

text \<open>Lists collected from the entries of a dictionary, each tagged with its key.\<close>

lemma distinct_collected:
  assumes "distinct (map fst d)" and "\<And>e. e \<in> set d \<Longrightarrow> distinct (f e) \<and> (\<forall>m \<in> set (f e). tag m = fst e)"
  shows "distinct (concat (map f d))"
  using assms
proof (induction d)
  case (Cons e d)
  have "tag m = fst e" if "m \<in> set (f e)" for m using that Cons.prems(2) [of e] by simp
  moreover have "tag m \<in> fst ` set d" if "m \<in> set (concat (map f d))" for m
  proof -
    from that obtain e' where "e' \<in> set d" "m \<in> set (f e')" by auto
    with Cons.prems(2) [of e'] show ?thesis by auto
  qed
  moreover have "fst e \<notin> fst ` set d" using Cons.prems(1) by simp
  ultimately have "m \<notin> set (concat (map f d))" if "m \<in> set (f e)" for m using that by metis
  then have "set (f e) \<inter> set (concat (map f d)) = {}" by blast
  moreover have "distinct (concat (map f d))" using Cons by simp
  moreover have "distinct (f e)" using Cons.prems(2) [of e] by simp
  ultimately show ?case by simp
qed simp

lemma map_of_entry: "distinct (map fst d) \<Longrightarrow> (k, v) \<in> set d \<longleftrightarrow> map_of d k = Some v"
  by (simp add: map_of_eq_Some_iff)

lemma player_entry: "dicts_ok g \<Longrightarrow> (s, p) \<in> set (players g) \<longleftrightarrow> player_at g s = Some p"
  by (simp add: dicts_ok_def)

lemma zone_entry:
  assumes "dicts_ok g" and "player_at g s = Some p"
  shows "(z, ids) \<in> set (zones p) \<longleftrightarrow> map_of (zones p) z = Some ids"
  using assms by (simp add: dicts_ok_def)

lemma zone_of_listed: "i \<in> set (zone_of g s z) \<longleftrightarrow>
    (\<exists>p ids. player_at g s = Some p \<and> map_of (zones p) z = Some ids \<and> i \<in> set ids)"
proof (cases "player_at g s")
  case (Some p)
  then show ?thesis by (cases "map_of (zones p) z") (simp_all add: zone_of_def dict_get_def)
qed (simp add: zone_of_def)

lemma zone_places_set: "(i, s, z) \<in> set (concat (map (zone_places t) zs)) \<longleftrightarrow>
    t = s \<and> (\<exists>ids. (z, ids) \<in> set zs \<and> i \<in> set ids)"
  by (induction zs) (auto simp: zone_places_def)

lemma member_places: "(i, s, z) \<in> set (concat (map (\<lambda>(s, p). concat (map (zone_places s) (zones p))) d)) \<longleftrightarrow>
    (\<exists>p ids. (s, p) \<in> set d \<and> (z, ids) \<in> set (zones p) \<and> i \<in> set ids)"
proof (induction d)
  case (Cons e d)
  then show ?case by (cases e) (simp only: list.map concat.simps prod.case set_append Un_iff zone_places_set; auto)
qed simp

lemma member_place:
  assumes "dicts_ok g"
  shows "(i, s, z) \<in> set (membership g) \<longleftrightarrow> i \<in> set (zone_of g s z)"
proof -
  have "(i, s, z) \<in> set (membership g) \<longleftrightarrow>
      (\<exists>p ids. (s, p) \<in> set (players g) \<and> (z, ids) \<in> set (zones p) \<and> i \<in> set ids)"
    unfolding membership_def by (rule member_places)
  also have "\<dots> \<longleftrightarrow> (\<exists>p ids. player_at g s = Some p \<and> map_of (zones p) z = Some ids \<and> i \<in> set ids)"
    using zone_entry [OF assms] by (simp add: player_entry [OF assms] cong: conj_cong)
  finally show ?thesis by (simp only: zone_of_listed)
qed

lemma place_iff:
  assumes "dicts_ok g"
  shows "(s, z) \<in> set (places_of g i) \<longleftrightarrow> i \<in> set (zone_of g s z)"
  unfolding places_of_def using member_place [OF assms, of i s z] by force

lemma check_zone_iff: "check_zone g s u (z, ids) = Inr () \<longleftrightarrow>
    distinct ids \<and> (\<forall>i \<in> set ids. card_at g i \<noteq> None)"
  by (simp add: check_zone_def ebind_ensure_Inr check_all)

lemma check_zones_iff:
  assumes "dicts_ok g"
  shows "check_zones g = Inr () \<longleftrightarrow>
     (\<forall>s z. distinct (zone_of g s z) \<and> (\<forall>i \<in> set (zone_of g s z). card_at g i \<noteq> None))"
proof -
  let ?P = "\<lambda>ids. distinct ids \<and> (\<forall>i \<in> set ids. card_at g i \<noteq> None)"
  have "check_zones g = Inr () \<longleftrightarrow>
      (\<forall>s p. (s, p) \<in> set (players g) \<longrightarrow> (\<forall>z ids. (z, ids) \<in> set (zones p) \<longrightarrow> ?P ids))"
    unfolding check_zones_def check_all split_paired_Ball_Sigma
    by (simp only: split_paired_all Ball_def split_paired_All prod.case check_all check_zone_iff)
  also have "\<dots> \<longleftrightarrow> (\<forall>s p. player_at g s = Some p \<longrightarrow> (\<forall>z ids. map_of (zones p) z = Some ids \<longrightarrow> ?P ids))"
    using zone_entry [OF assms] by (simp add: player_entry [OF assms])
  also have "\<dots> \<longleftrightarrow> (\<forall>s z. ?P (zone_of g s z))"
    by (simp add: zone_of_def dict_get_def split: option.splits) blast
  finally show ?thesis .
qed

lemma places_distinct:
  assumes "dicts_ok g" and "\<And>s z. distinct (zone_of g s z)"
  shows "distinct (places_of g i)"
proof -
  have zone: "distinct (concat (map (zone_places s) (zones p)))" if p: "player_at g s = Some p" for s p
  proof (rule distinct_collected [where tag = "\<lambda>m. snd (snd m)"])
    show keys: "distinct (map fst (zones p))" using assms(1) p by (simp add: dicts_ok_def)
    fix e assume "e \<in> set (zones p)"
    then have "map_of (zones p) (fst e) = Some (snd e)"
      using zone_entry [OF assms(1) p, of "fst e" "snd e"] by simp
    then have "zone_of g s (fst e) = snd e" using p by (simp add: zone_of_def dict_get_def)
    with assms(2) [of s "fst e"] show "distinct (zone_places s e) \<and> (\<forall>m \<in> set (zone_places s e). snd (snd m) = fst e)"
      by (auto simp: zone_places_def distinct_map inj_on_def)
  qed
  have "distinct (membership g)"
    unfolding membership_def
  proof (rule distinct_collected [where tag = "\<lambda>m. fst (snd m)"])
    show "distinct (map fst (players g))" using assms(1) by (simp add: dicts_ok_def)
    fix e assume "e \<in> set (players g)"
    with zone [of "fst e" "snd e"] show "distinct ((\<lambda>(s, p). concat (map (zone_places s) (zones p))) e)
        \<and> (\<forall>m \<in> set ((\<lambda>(s, p). concat (map (zone_places s) (zones p))) e). fst (snd m) = fst e)"
      by (cases e) (auto simp: player_entry [OF assms(1)] zone_places_def)
  qed
  then show ?thesis unfolding places_of_def
    by (auto simp: distinct_map inj_on_def prod_eq_iff)
qed

lemma check_place_iff:
  assumes "dicts_ok g" and "\<And>s z. distinct (zone_of g s z)"
  shows "check_place g (i, c) = Inr () \<longleftrightarrow> placed g i c"
proof -
  note at = place_iff [OF assms(1), of _ _ i]
  have none: "places_of g i = [] \<longleftrightarrow> (\<forall>s z. i \<notin> set (zone_of g s z))"
    unfolding at [symmetric] by (cases "places_of g i") (auto simp: split_paired_all)
  have one: "places_of g i = [(s, z)] \<longleftrightarrow> (\<forall>t y. i \<in> set (zone_of g t y) \<longleftrightarrow> t = s \<and> y = z)" for s z
  proof
    assume "places_of g i = [(s, z)]"
    then show "\<forall>t y. i \<in> set (zone_of g t y) \<longleftrightarrow> t = s \<and> y = z" unfolding at [symmetric] by simp
  next
    assume "\<forall>t y. i \<in> set (zone_of g t y) \<longleftrightarrow> t = s \<and> y = z"
    then have "set (places_of g i) = {(s, z)}" unfolding at [symmetric] by auto
    with places_distinct [OF assms] show "places_of g i = [(s, z)]" by (intro distinct_singleton) simp_all
  qed
  show ?thesis
  proof (cases "zone c = ''stack'' \<or> zone c = ''outside''")
    case True
    then show ?thesis by (auto simp: check_place_def placed_def none Let_def)
  next
    case False
    have "check_place g (i, c) = Inr () \<longleftrightarrow> (\<exists>s. places_of g i = [(s, zone c)]
        \<and> (zone c = ''battlefield'' \<longrightarrow> s = controller c) \<and> (zone c \<in> set OWNER_ZONES \<longrightarrow> s = owner c))"
      using False by (auto simp: check_place_def Let_def split: list.splits if_splits)
    with False show ?thesis by (simp add: one placed_def)
  qed
qed

text \<open>
  C10. The invariant check decides well-formedness: it passes exactly in the games in which every
  listed object is an object of the game, listed once, every object is in the one place its zone,
  controller and owner name (or in none while it is on the stack or outside), every stack item
  that names a card names one on the stack or resolving, and goads, priority, monarch, journal and
  mana are sound.
\<close>

theorem invariants_decide:
  assumes "dicts_ok g"
  shows "assert_invariants g = Inr () \<longleftrightarrow> well_formed g"
proof -
  have stack: "efold (check_stack_item g) () (stack_items g) = Inr () \<longleftrightarrow> stack_ok g"
    unfolding check_all [of "check_stack_item g"] stack_ok_def check_stack_item_def
    by (intro ball_cong refl) (simp split: option.splits)
  have cards: "efold (check_card g) () (cards g) = Inr () \<longleftrightarrow>
      goads_ok g \<and> (\<forall>i c. card_at g i = Some c \<longrightarrow> check_place g (i, c) = Inr ())"
  proof -
    have "efold (check_card g) () (cards g) = Inr () \<longleftrightarrow> (\<forall>i c. card_at g i = Some c \<longrightarrow>
        check_goad g c = Inr () \<and> check_place g (i, c) = Inr ())"
      using assms unfolding check_all [of "check_card g"]
      by (simp add: Ball_def split_paired_All check_card_def ebind_eq_Inr dicts_ok_def)
    then show ?thesis by (auto simp: goads_ok_def check_goad_def ebind_ensure_Inr list_all_iff)
  qed
  have seats: "check_seat g e who = Inr () \<longleftrightarrow> (\<forall>s \<in> set_option who. \<exists>seats. active g = Inr seats \<and> s \<in> set seats)"
    for e who by (cases who) (auto simp: check_seat_def ebind_eq_Inr)
  have history: "check_history g = Inr () \<longleftrightarrow> history_ok g"
  proof -
    have entry: "check_history_event g u e = Inr () \<longleftrightarrow>
        (\<forall>a. history_actor e = Some a \<longrightarrow> player_at g a \<noteq> None)
        \<and> (target_kind e = Some ''player'' \<longrightarrow> (\<exists>t. history_target e = Some t \<and> player_at g t \<noteq> None))" for u e
      by (cases "history_actor e"; cases "history_target e") (auto simp: check_history_event_def ebind_ensure_Inr)
    then show ?thesis
      by (cases "game_turn_history g") (auto simp: check_history_def history_ok_def ebind_ensure_Inr check_all)
  qed
  have mana: "efold check_mana () (players g) = Inr () \<longleftrightarrow> mana_ok g"
    unfolding check_all [of check_mana]
    by (simp add: check_mana_def mana_ok_def list_all_iff player_entry [OF assms, symmetric] Ball_def split_paired_All)
  have "assert_invariants g = Inr () \<longleftrightarrow> check_zones g = Inr ()
      \<and> stack_ok g \<and> goads_ok g \<and> (\<forall>i c. card_at g i = Some c \<longrightarrow> check_place g (i, c) = Inr ())
      \<and> seats_ok g \<and> history_ok g \<and> mana_ok g"
    by (auto simp: assert_invariants_def ebind_eq_Inr stack cards seats history mana seats_ok_def)
  then show ?thesis
    using check_zones_iff [OF assms] check_place_iff [OF assms] by (auto simp: well_formed_def zones_ok_def)
qed

section \<open>A concrete table\<close>

definition with_zone :: "string \<Rightarrow> string list \<Rightarrow> player_state \<Rightarrow> player_state" where
  "with_zone z ids p = p\<lparr>zones := AList.update z ids (zones p)\<rparr>"

definition small_table :: game_state where
  "small_table = new_game [''A'', ''B'']\<lparr>
     players := [(''A'', with_zone ''battlefield'' [''bear''] (with_zone ''library'' [''elf'', ''ox''] (new_player ''A''))),
                 (''B'', with_zone ''hand'' [''imp''] (new_player ''B''))],
     cards := [(''bear'', (new_card ''bear'' ''B'' ''battlefield'')\<lparr>controller := ''A''\<rparr>),
               (''elf'', new_card ''elf'' ''A'' ''library''), (''ox'', new_card ''ox'' ''A'' ''library''),
               (''imp'', new_card ''imp'' ''B'' ''hand''), (''gone'', new_card ''gone'' ''B'' ''outside'')]\<rparr>"

lemma small_table_dicts: "dicts_ok small_table"
  by (auto simp: dicts_ok_def small_table_def with_zone_def new_player_def split: if_splits)

lemma invariants_decide_witness: "well_formed small_table"
proof -
  have "assert_invariants small_table = Inr ()" by code_simp
  with invariants_decide [OF small_table_dicts] show ?thesis by simp
qed

end
