(* ===== verification/Zone_Transitions.thy ===== *)
theory Zone_Transitions imports Zone_Objects Game_Invariants Combat_Relations Life_State
begin

text \<open>
  Moving objects between zones (\<open>quorune/zone_transitions.py\<close>, \<open>quorune/zone_transition_journal.py\<close>,
  the request checks of \<open>quorune/zone_trigger_events.py\<close>, and of \<open>quorune/engine.py\<close> removal from
  combat and changing control): taking an object out of the zone that lists it, giving it the state
  of a new object, listing it in its destination and journalling the move.

  The services the owner calls are the record \<open>zone_host\<close>: card characteristics, replacement
  effects, the Aura rules, entry results and event dispatch.  An object is passed by its key.  The
  arrow in the summary of a move is written \<open>->\<close>.
\<close>

datatype zone_error =
    UnsupportedDestination string
  | NoSuchObject string
  | OnlyStackCountered
  | OnlyBattlefieldSacrificed
  | BadLibraryPosition
  | NotInZone string
  | CombatFault relation_error
  | AttachmentFault attachment_error
  | ObjectFault object_error
  | LifeFault life_error
  | ZoneSeat engine_error
  | NoOwnerZone string string
  | LibraryAbsent
  | EntryNeedsController
  | OnlyBattlefieldControlled
  | AuraIdentityChanged
  | AuraTargetLeft
  | HostRaised string

datatype zone_transition_kind = Ordinary | CounteredSpell | Sacrifice

datatype library_position = LibraryTop | LibraryBottom | FromTop int

definition PUBLIC_ZONES :: "string list" where
  "PUBLIC_ZONES = [''battlefield'', ''graveyard'', ''exile'', ''command'', ''stack'']"

definition HIDDEN_ZONES :: "string list" where
  "HIDDEN_ZONES = [''hand'', ''library'']"

definition ZONE_CHANGE_DESTINATIONS :: "string list" where
  "ZONE_CHANGE_DESTINATIONS =
     [''library'', ''hand'', ''battlefield'', ''graveyard'', ''exile'', ''command'', ''outside'']"

section \<open>Plans and services\<close>

record aura_entry_plan =
  enters_attached :: bool
  aura_object_id :: string
  aura_source_zone :: string
  aura_logical_id :: string
  aura_controller :: string
  aura_target_ref :: string
  legal_target_refs :: "string list"

record replaced_move =
  replaced_destination :: string
  replaced_controller :: "string option"
  entry_tapped :: bool
  entry_life_payment :: int

record zone_move_plan =
  plan_object :: string
  requested_destination :: string
  plan_destination :: string
  plan_origin :: string
  origin_identity_public :: bool
  plan_position :: "library_position option"
  plan_tapped :: bool
  plan_life_payment :: "prepared_life_payment option"
  plan_protector :: "string option"
  plan_aura :: "aura_entry_plan option"

record move_request =
  request_controller :: "string option"
  request_tapped :: bool
  request_face :: "string option"
  request_protector :: "string option"
  request_timestamp :: "int option"
  request_position :: pyval
  request_reveal :: "string list"
  request_reason :: string
  request_log :: bool
  request_kind :: zone_transition_kind

record zone_host =
  enters_as_spell_card :: "game_state \<Rightarrow> card_instance \<Rightarrow> string option \<Rightarrow> zone_error + bool"
  replace_move :: "game_state \<Rightarrow> card_instance \<Rightarrow> string \<Rightarrow> move_request \<Rightarrow> zone_error + replaced_move"
  entry_protector :: "game_state \<Rightarrow> card_instance \<Rightarrow> string \<Rightarrow> string \<Rightarrow> string option \<Rightarrow> zone_error + string option"
  aura_preflight ::
    "game_state \<Rightarrow> card_instance \<Rightarrow> string \<Rightarrow> string \<Rightarrow> move_request
       \<Rightarrow> zone_error + (string \<times> aura_entry_plan option) option"
  resolve_attachment :: "game_state \<Rightarrow> string \<Rightarrow> pending_attachment \<Rightarrow> string option"
  has_world_supertype :: "game_state \<Rightarrow> card_instance \<Rightarrow> bool"
  pin_departure :: "string \<Rightarrow> game_state \<Rightarrow> zone_error + game_state"
  finish_entry :: "zone_move_plan \<Rightarrow> game_state \<Rightarrow> zone_error + game_state"

section \<open>Requests\<close>

definition validate_zone_transition_request ::
  "game_state \<Rightarrow> string \<Rightarrow> string \<Rightarrow> zone_transition_kind \<Rightarrow> zone_error + card_instance" where
  "validate_zone_transition_request g i dest kind =
     ebind (ensure (dest \<in> set ZONE_CHANGE_DESTINATIONS) (UnsupportedDestination dest)) (\<lambda>_.
     ebind (option_raise (NoSuchObject i) (card_at g i)) (\<lambda>c.
     ebind (ensure (kind = CounteredSpell \<longrightarrow> zone c = ''stack'') OnlyStackCountered) (\<lambda>_.
     ebind (ensure (kind = Sacrifice \<longrightarrow> zone c = ''battlefield'') OnlyBattlefieldSacrificed) (\<lambda>_.
     Inr c))))"

fun normalized_position :: "pyval \<Rightarrow> zone_error + library_position" where
  "normalized_position (PInt n) = (if n < 1 then Inl BadLibraryPosition else Inr (FromTop n))"
| "normalized_position (PStr s) =
     (let n = casefold (py_strip s) in
      if n = ''top'' then Inr LibraryTop else if n = ''bottom'' then Inr LibraryBottom
      else Inl BadLibraryPosition)"
| "normalized_position _ = Inl BadLibraryPosition"

definition normalized_library_position :: "string \<Rightarrow> pyval \<Rightarrow> zone_error + library_position option" where
  "normalized_library_position dest position =
     (if dest \<noteq> ''library'' then Inr None
      else ebind (normalized_position position) (\<lambda>p. Inr (Some p)))"

definition library_insertion_index :: "int \<Rightarrow> library_position option \<Rightarrow> zone_error + int" where
  "library_insertion_index length_now position =
     (case position of
        Some LibraryTop \<Rightarrow> Inr length_now
      | Some LibraryBottom \<Rightarrow> Inr 0
      | Some (FromTop n) \<Rightarrow> Inr (max 0 (length_now - n + 1))
      | None \<Rightarrow> Inl BadLibraryPosition)"

text \<open>\<open>list.insert(index, x)\<close> for an index that is not negative.\<close>

definition list_insert :: "int \<Rightarrow> 'a \<Rightarrow> 'a list \<Rightarrow> 'a list" where
  "list_insert n x xs = take (nat n) xs @ x # drop (nat n) xs"

section \<open>Taking an object out of its zone\<close>

definition edit_zone :: "string \<Rightarrow> string \<Rightarrow> (string list \<Rightarrow> string list) \<Rightarrow> game_state \<Rightarrow> game_state" where
  "edit_zone s z f g =
     edit_player s (\<lambda>p. p\<lparr>zones := AList.update z (f (dict_get [] (zones p) z)) (zones p)\<rparr>) g"

definition lists_object :: "string \<Rightarrow> string \<Rightarrow> player_state \<Rightarrow> bool" where
  "lists_object i z p = (case map_of (zones p) z of None \<Rightarrow> False | Some ids \<Rightarrow> i \<in> set ids)"

definition remove_from_zone :: "string \<Rightarrow> game_state \<Rightarrow> zone_error + game_state" where
  "remove_from_zone i g =
     ebind (option_raise (NoSuchObject i) (card_at g i)) (\<lambda>c.
     if zone c = ''stack'' then Inr g
     else case find (\<lambda>sp. lists_object (object_id c) (zone c) (snd sp)) (players g) of
         Some (s, p) \<Rightarrow> Inr (edit_zone s (zone c) (remove1 (object_id c)) g)
       | None \<Rightarrow> if zone c = ''outside'' then Inr g else Inl (NotInZone (card_ref c)))"

definition combat_removal_entry :: "card_instance \<Rightarrow> bool \<Rightarrow> bool \<Rightarrow> string \<Rightarrow> log_entry" where
  "combat_removal_entry c attacked blocked reason =
     (new_entry (Some (controller c)) ''combat.remove'' (card_ref c @ '' was removed from combat.'') 1)
       \<lparr>log_details := [(''object'', PStr (card_ref c)), (''was_attacking'', PBool attacked),
          (''was_blocking'', PBool blocked), (''reason'', PStr reason)],
        log_objects := [object_id c], log_players := [controller c]\<rparr>"

definition remove_object_from_combat :: "string \<Rightarrow> string \<Rightarrow> game_state \<Rightarrow> zone_error + game_state" where
  "remove_object_from_combat i reason g =
     ebind (option_raise (NoSuchObject i) (card_at g i)) (\<lambda>c.
     ebind (reraise CombatFault (remove_combat_relationships (combat g) (object_id c))) (\<lambda>(fight, r).
     let attacked = (attacking c \<noteq> None \<or> was_attacker r);
         blocked = (blocking c \<noteq> None);
         g1 = g\<lparr>combat := fight\<rparr> in
     if \<not> (attacked \<or> blocked \<or> removed_as_blocker r) then Inr g1
     else Inr (log_event (combat_removal_entry c attacked (blocked \<or> removed_as_blocker r) reason)
       (edit_card i (\<lambda>c. c\<lparr>attacking := None, blocking := None\<rparr>) g1))))"

definition take_timestamp :: "int option \<Rightarrow> game_state \<Rightarrow> game_state \<times> int" where
  "take_timestamp given g = (case given of Some t \<Rightarrow> (g, t) | None \<Rightarrow> next_timestamp g)"

definition reset_object :: "string \<Rightarrow> bool \<Rightarrow> string \<Rightarrow> game_state \<Rightarrow> zone_error + game_state" where
  "reset_object dest stack_to_battlefield i g =
     ebind (option_raise (NoSuchObject i) (card_at g i)) (\<lambda>c.
     ebind (reraise ObjectFault (reset_card_after_zone_change dest stack_to_battlefield c)) (\<lambda>c1.
     Inr (edit_card i (\<lambda>_. c1) g)))"

definition renewed :: "string \<Rightarrow> bool \<Rightarrow> int \<Rightarrow> card_instance \<Rightarrow> card_instance" where
  "renewed dest to_battlefield ts c =
     c\<lparr>zone_change_counter := zone_change_counter c + (if to_battlefield then 0 else 1),
       zone_timestamp := ts, world_supertype_timestamp := None,
       has_left_battlefield := has_left_battlefield c
         \<or> is_token c \<and> zone c = ''battlefield'' \<and> dest \<noteq> ''battlefield''\<rparr>"

definition renew_object ::
  "string \<Rightarrow> string \<Rightarrow> bool \<Rightarrow> int option \<Rightarrow> game_state \<Rightarrow> zone_error + game_state" where
  "renew_object i dest to_battlefield given g =
     ebind (remove_object_from_combat i (''zone change to '' @ dest) g) (\<lambda>g1.
     case take_timestamp given g1 of (g2, ts) \<Rightarrow>
       ebind (reraise AttachmentFault (clear_object_attachment_relations True i
                (edit_card i (renewed dest to_battlefield ts) g2))) (\<lambda>(g3, _).
       reset_object dest to_battlefield i g3))"

definition creates_new_object :: "string \<Rightarrow> string \<Rightarrow> bool" where
  "creates_new_object origin dest \<longleftrightarrow> origin \<noteq> dest \<or> origin \<in> {''exile'', ''command''}"

definition reset_zone_change :: "string \<Rightarrow> string \<Rightarrow> int option \<Rightarrow> game_state \<Rightarrow> zone_error + game_state" where
  "reset_zone_change i dest given g =
     ebind (option_raise (NoSuchObject i) (card_at g i)) (\<lambda>c.
     if \<not> creates_new_object (zone c) dest then Inr g
     else renew_object i dest (zone c = ''stack'' \<and> dest = ''battlefield'') given g)"

section \<open>Entering a zone\<close>

definition commit_aura_entry_attachment :: "string \<Rightarrow> aura_entry_plan \<Rightarrow> game_state \<Rightarrow> zone_error + game_state" where
  "commit_aura_entry_attachment i plan g =
     ebind (option_raise (NoSuchObject i) (card_at g i)) (\<lambda>aura.
     if object_id aura \<noteq> aura_object_id plan \<or> zone aura \<noteq> ''battlefield''
        \<or> controller aura \<noteq> aura_controller plan
        \<or> aura_source_zone plan = ''stack'' \<and> logical_object_id aura \<noteq> aura_logical_id plan
     then Inl AuraIdentityChanged
     else
       let found = find (\<lambda>(j, c). card_ref c = aura_target_ref plan) (cards g);
           legal = (aura_target_ref plan \<in> set (legal_target_refs plan)) in
       case (if legal then found else None) of
         Some (j, target) \<Rightarrow>
           let (g1, ts) = next_timestamp g in
           ebind (reraise AttachmentFault (attach_objects True i j ts g1)) (\<lambda>(h, _). Inr h)
       | None \<Rightarrow>
           if player_at g (aura_target_ref plan) \<noteq> None \<and> legal then
             (let (g1, ts) = next_timestamp g in
              ebind (reraise AttachmentFault (attach_to_player i (aura_target_ref plan) ts g1)) (\<lambda>(h, _). Inr h))
           else Inl AuraTargetLeft)"

definition commit_aura_zone_move :: "string \<Rightarrow> aura_entry_plan option \<Rightarrow> game_state \<Rightarrow> zone_error + game_state" where
  "commit_aura_zone_move i plan g =
     (case plan of
        None \<Rightarrow> Inr g
      | Some p \<Rightarrow> if enters_attached p then commit_aura_entry_attachment i p g else Inr g)"

definition attach_pending :: "zone_host \<Rightarrow> string \<Rightarrow> game_state \<Rightarrow> zone_error + game_state" where
  "attach_pending host i g =
     ebind (option_raise (NoSuchObject i) (card_at g i)) (\<lambda>c.
     let (c1, pending) = take_pending_attachment c; g1 = edit_card i (\<lambda>_. c1) g in
     case pending of
       None \<Rightarrow> Inr g1
     | Some p \<Rightarrow>
         (case resolve_attachment host g1 (controller c1) p of
            None \<Rightarrow> Inr g1
          | Some t \<Rightarrow>
              let (g2, ts) = next_timestamp g1 in
              ebind (reraise AttachmentFault (attach_objects True i t ts g2)) (\<lambda>(h, _). Inr h)))"

definition refresh_world_supertype_timestamp ::
  "zone_host \<Rightarrow> string \<Rightarrow> int option \<Rightarrow> game_state \<Rightarrow> zone_error + game_state" where
  "refresh_world_supertype_timestamp host i gained g =
     ebind (option_raise (NoSuchObject i) (card_at g i)) (\<lambda>c.
     if zone c \<noteq> ''battlefield'' \<or> \<not> has_world_supertype host g c
     then Inr (edit_card i (\<lambda>c. c\<lparr>world_supertype_timestamp := None\<rparr>) g)
     else if world_supertype_timestamp c = None then
       (let (g1, ts) = take_timestamp gained g in
        Inr (edit_card i (\<lambda>c. c\<lparr>world_supertype_timestamp := Some ts\<rparr>) g1))
     else Inr g)"

definition shown_to :: "string list \<Rightarrow> card_instance \<Rightarrow> card_instance" where
  "shown_to seats c =
     (if face_down c then
        (let known = sorted_unique (known_to c @ [controller c]) in
         c\<lparr>known_to := known, revealed_to := sorted_unique (filter (\<lambda>s. s \<in> set known) (revealed_to c))\<rparr>)
      else c\<lparr>known_to := seats, revealed_to := seats\<rparr>)"

text \<open>\<open>_enter_battlefield\<close>: the seat check comes after the controller is written.\<close>

definition entering_card ::
  "zone_move_plan \<Rightarrow> string \<Rightarrow> game_state \<Rightarrow> card_instance \<Rightarrow> zone_error + card_instance" where
  "entering_card plan s g c =
     ebind (reraise ZoneSeat (require_seat g s False)) (\<lambda>_.
     ebind (reraise ObjectFault (record_battlefield_acquisition g (zone_timestamp c)
              (c\<lparr>controller := s, tapped := plan_tapped plan\<rparr>))) (\<lambda>c1.
     Inr (c1\<lparr>entered_battlefield_turn_sequence := turn_sequence g, battle_protector := plan_protector plan\<rparr>)))"

definition zone_exists :: "game_state \<Rightarrow> string \<Rightarrow> string \<Rightarrow> bool" where
  "zone_exists g s z = (case player_at g s of None \<Rightarrow> False | Some p \<Rightarrow> map_of (zones p) z \<noteq> None)"

definition attach_entering :: "zone_host \<Rightarrow> aura_entry_plan option \<Rightarrow> string \<Rightarrow> game_state \<Rightarrow> zone_error + game_state" where
  "attach_entering host entry i g = ebind (commit_aura_zone_move i entry g) (attach_pending host i)"

definition show_entered :: "zone_host \<Rightarrow> string \<Rightarrow> game_state \<Rightarrow> zone_error + game_state" where
  "show_entered host i g =
     (let h = edit_card i (shown_to (turn_order g)) g in
      refresh_world_supertype_timestamp host i (map_option zone_timestamp (card_at h i)) h)"

definition enter_battlefield ::
  "zone_host \<Rightarrow> zone_move_plan \<Rightarrow> string option \<Rightarrow> game_state \<Rightarrow> zone_error + game_state" where
  "enter_battlefield host plan who g =
     (let i = plan_object plan in
      ebind (option_raise (NoSuchObject i) (card_at g i)) (\<lambda>c.
      let s = (case who of Some s \<Rightarrow> if s \<noteq> [] then s else owner c | None \<Rightarrow> owner c) in
      ebind (entering_card plan s g c) (\<lambda>d.
      ebind (ensure (zone_exists g s ''battlefield'') (NoOwnerZone s ''battlefield'')) (\<lambda>_.
      ebind (attach_entering host (plan_aura plan) i
               (edit_zone s ''battlefield'' (\<lambda>ids. ids @ [object_id c]) (edit_card i (\<lambda>_. d) g)))
        (show_entered host i)))))"

definition seen_by :: "string list \<Rightarrow> string list \<Rightarrow> card_instance \<Rightarrow> card_instance" where
  "seen_by known revealed c = c\<lparr>known_to := known, revealed_to := revealed\<rparr>"

definition enter_owner_zone ::
  "zone_move_plan \<Rightarrow> string list \<Rightarrow> game_state \<Rightarrow> zone_error + game_state" where
  "enter_owner_zone plan reveal g =
     (let i = plan_object plan; dest = plan_destination plan in
      ebind (option_raise (NoSuchObject i) (card_at g i)) (\<lambda>c.
      ebind (ensure (zone_exists g (owner c) dest) (NoOwnerZone (owner c) dest)) (\<lambda>_.
      if dest = ''library'' then
        ebind (library_insertion_index (int (length (zone_of g (owner c) dest))) (plan_position plan)) (\<lambda>n.
        Inr (edit_card i (seen_by [owner c] []) (edit_zone (owner c) dest (list_insert n (object_id c)) g)))
      else
        Inr (edit_card i
               (if dest \<in> set PUBLIC_ZONES then seen_by (turn_order g) (turn_order g)
                else seen_by (sorted_unique (owner c # reveal
                         @ (if dest = ''hand'' \<and> origin_identity_public plan then turn_order g else [])))
                       (sorted_unique reveal))
               (edit_zone (owner c) dest (\<lambda>ids. ids @ [object_id c]) g)))))"

definition leave_game :: "card_instance \<Rightarrow> card_instance" where
  "leave_game c =
     (let known = known_to c @ [owner c] in
      c\<lparr>known_to := sorted_unique known,
        revealed_to := sorted_unique (filter (\<lambda>s. s \<in> set known) (revealed_to c))\<rparr>)"

section \<open>Committing a move\<close>

definition resolving_item :: "string \<Rightarrow> stack_item \<Rightarrow> bool" where
  "resolving_item i s \<longleftrightarrow> card_object_id s = Some i
     \<and> truthy (dict_get PNone (stack_context s) ''currently_resolving'')"

definition leave_origin :: "string \<Rightarrow> game_state \<Rightarrow> zone_error + game_state" where
  "leave_origin i g =
     ebind (option_raise (NoSuchObject i) (card_at g i)) (\<lambda>c.
     if zone c = ''stack'' then
       Inr (if list_ex (resolving_item (object_id c)) (stack_items g) then g
            else g\<lparr>stack_items := filter (\<lambda>s. card_object_id s \<noteq> Some (object_id c)) (stack_items g)\<rparr>)
     else remove_from_zone i g)"

definition commit_move ::
  "zone_host \<Rightarrow> zone_move_plan \<Rightarrow> move_request \<Rightarrow> game_state \<Rightarrow> zone_error + game_state" where
  "commit_move host plan req g =
     (let i = plan_object plan; dest = plan_destination plan in
      ebind (case plan_life_payment plan of
               None \<Rightarrow> Inr g
             | Some p \<Rightarrow> ebind (reraise LifeFault (commit_life_payment g p)) (\<lambda>(h, _). Inr h)) (\<lambda>g1.
      ebind (leave_origin i g1) (\<lambda>g2.
      ebind (reset_zone_change i dest (request_timestamp req) g2) (\<lambda>g3.
      let g4 = edit_card i (\<lambda>c. c\<lparr>zone := dest,
                 active_face := (case request_face req of None \<Rightarrow> active_face c | Some f \<Rightarrow> Some f)\<rparr>) g3 in
      if dest = ''battlefield'' then enter_battlefield host plan (request_controller req) g4
      else if dest = ''outside'' then Inr (edit_card i leave_game g4)
      else enter_owner_zone plan (request_reveal req) g4))))"

section \<open>The journal\<close>

definition move_summary :: "string \<Rightarrow> string \<Rightarrow> string \<Rightarrow> string" where
  "move_summary what from to_zone = what @ '': '' @ from @ '' -> '' @ to_zone @ ''.''"

definition journal_zone_move ::
  "zone_move_plan \<Rightarrow> string list \<Rightarrow> string \<Rightarrow> game_state \<Rightarrow> zone_error + game_state" where
  "journal_zone_move plan reveal reason g =
     ebind (option_raise (NoSuchObject (plan_object plan)) (card_at g (plan_object plan))) (\<lambda>c.
     let from = plan_origin plan;
         hidden = (zone c \<in> set HIDDEN_ZONES \<and> \<not> origin_identity_public plan);
         down = (face_down c \<and> zone c \<in> {''battlefield'', ''exile'', ''stack'', ''command''}
                 \<and> \<not> origin_identity_public plan);
         moved = [(''from'', PStr from), (''to'', PStr (zone c)), (''reason'', PStr reason)];
         named = (''object'', PStr (card_ref c)) # moved @ [(''tapped'', PBool (tapped c))];
         touch = (\<lambda>l. l\<lparr>log_objects := [object_id c], log_players := [owner c, controller c]\<rparr>);
         identity = card_ref c @ '' '' @ printed_name c in
     Inr (if hidden \<or> down then
        log_event (touch ((new_entry None ''zone.move.private'' (move_summary identity from (zone c)) 1)
            \<lparr>log_details := named,
             log_visibility := sorted_unique ([owner c, controller c, ''analyst''] @ known_to c @ reveal)\<rparr>))
          (log_event (touch ((new_entry None ''zone.move''
              (move_summary (owner c @ '' moved a card'') from (zone c)) 1)\<lparr>log_details := moved\<rparr>)) g)
      else
        log_event (touch ((new_entry None ''zone.move'' (move_summary identity from (zone c)) 1)
            \<lparr>log_details := named\<rparr>)) g))"


section \<open>Preparing and moving\<close>

definition prevented :: "card_instance \<Rightarrow> string \<Rightarrow> string \<Rightarrow> string \<Rightarrow> bool \<Rightarrow> game_state \<Rightarrow> game_state" where
  "prevented c dest why rule log g =
     (if \<not> log then g
      else log_event
        ((new_entry None ''zone.move.prevented'' (card_ref c @ '' remained in '' @ zone c @ why) 2)
           \<lparr>log_details := [(''object'', PStr (card_ref c)), (''from'', PStr (zone c)),
              (''requested_destination'', PStr dest), (''rule'', PStr rule)],
            log_objects := [object_id c], log_players := [owner c]\<rparr>) g)"

fun position_value :: "library_position option \<Rightarrow> pyval" where
  "position_value None = PNone"
| "position_value (Some LibraryTop) = PStr ''top''"
| "position_value (Some LibraryBottom) = PStr ''bottom''"
| "position_value (Some (FromTop n)) = PInt n"

definition reorder_library_card ::
  "card_instance \<Rightarrow> library_position option \<Rightarrow> string \<Rightarrow> bool \<Rightarrow> game_state \<Rightarrow> zone_error + game_state" where
  "reorder_library_card c position reason log g =
     ebind (option_raise (NoOwnerZone (owner c) ''library'')
              (Option.bind (player_at g (owner c)) (\<lambda>p. map_of (zones p) ''library''))) (\<lambda>ids.
     ebind (ensure (object_id c \<in> set ids) LibraryAbsent) (\<lambda>_.
     let rest = remove1 (object_id c) ids in
     ebind (library_insertion_index (int (length rest)) position) (\<lambda>n.
     let g1 = edit_zone (owner c) ''library'' (\<lambda>_. list_insert n (object_id c) rest) g in
     Inr (if \<not> log then g1
          else log_event
            ((new_entry (Some (owner c)) ''library.reorder'' (owner c @ '' changed a card'' @ CHR 0x27 # ''s library position.'') 1)
               \<lparr>log_details := [(''position'', position_value position), (''reason'', PStr reason)],
                log_visibility := [owner c, ''analyst''], log_objects := [object_id c],
                log_players := [owner c]\<rparr>) g1))))"

definition prepare_entry_payment :: "replaced_move \<Rightarrow> game_state \<Rightarrow> zone_error + prepared_life_payment option" where
  "prepare_entry_payment r g =
     (if entry_life_payment r = 0 then Inr None
      else if replaced_destination r \<noteq> ''battlefield'' then Inl EntryNeedsController
      else case replaced_controller r of
          None \<Rightarrow> Inl EntryNeedsController
        | Some s \<Rightarrow> ebind (reraise LifeFault (prepare_life_payment g s (entry_life_payment r))) (\<lambda>p. Inr (Some p)))"

definition requested_controller :: "move_request \<Rightarrow> card_instance \<Rightarrow> string" where
  "requested_controller req c =
     (case request_controller req of Some s \<Rightarrow> if s \<noteq> [] then s else owner c | None \<Rightarrow> owner c)"

definition prepare_move ::
  "zone_host \<Rightarrow> string \<Rightarrow> card_instance \<Rightarrow> string \<Rightarrow> move_request \<Rightarrow> game_state
     \<Rightarrow> zone_error + game_state \<times> zone_move_plan option" where
  "prepare_move host i c dest req g =
     ebind (normalized_library_position dest (request_position req)) (\<lambda>position.
     if zone c = dest \<and> zone c \<notin> {''library'', ''exile'', ''command''} then Inr (g, None)
     else if is_token c \<and> has_left_battlefield c \<and> zone c \<notin> {''battlefield'', ''outside''}
             \<and> dest \<notin> {zone c, ''outside''}
     then Inr (prevented c dest ''; a token that left the battlefield cannot move again.'' ''111.8''
                 (request_log req) g, None)
     else
       ebind (enters_as_spell_card host g c (request_face req)) (\<lambda>nonpermanent.
       if dest = ''battlefield'' \<and> is_card_object c \<and> nonpermanent
       then Inr (prevented c dest ''; an instant or sorcery card cannot enter the battlefield.'' ''400.4a''
                   (request_log req) g, None)
       else if zone c = ''library'' \<and> dest = ''library'' then
         ebind (reorder_library_card c position (request_reason req) (request_log req) g) (\<lambda>h. Inr (h, None))
       else
         ebind (replace_move host g c dest req) (\<lambda>r.
         ebind (entry_protector host g c (replaced_destination r) (requested_controller req c)
                  (case request_protector req of Some s \<Rightarrow> Some s | None \<Rightarrow> battle_protector c)) (\<lambda>protector.
         ebind (aura_preflight host g c dest (replaced_destination r) req) (\<lambda>aura.
         case aura of
           None \<Rightarrow> Inr (g, None)
         | Some (final, entry) \<Rightarrow>
             ebind (prepare_entry_payment r g) (\<lambda>payment.
             Inr (g, Some \<lparr>plan_object = i, requested_destination = dest, plan_destination = final,
                plan_origin = zone c,
                origin_identity_public = (zone c \<in> set PUBLIC_ZONES \<and> \<not> face_down c),
                plan_position = position, plan_tapped = entry_tapped r, plan_life_payment = payment,
                plan_protector = protector, plan_aura = entry\<rparr>)))))))"

definition move_card ::
  "zone_host \<Rightarrow> string \<Rightarrow> string \<Rightarrow> move_request \<Rightarrow> game_state \<Rightarrow> zone_error + game_state" where
  "move_card host i dest req g =
     ebind (validate_zone_transition_request g i dest (request_kind req)) (\<lambda>c.
     ebind (prepare_move host i c dest req g) (\<lambda>(g1, plan).
     case plan of
       None \<Rightarrow> Inr g1
     | Some p \<Rightarrow>
         ebind (if plan_origin p = ''battlefield'' then pin_departure host i g1 else Inr g1) (\<lambda>g2.
         ebind (commit_move host p req g2) (\<lambda>g3.
         ebind (if request_log req then journal_zone_move p (request_reveal req) (request_reason req) g3
                else Inr g3) (\<lambda>g4.
         finish_entry host p g4)))))"

section \<open>Control and shuffling\<close>

definition change_control :: "string \<Rightarrow> string \<Rightarrow> string \<Rightarrow> game_state \<Rightarrow> zone_error + game_state" where
  "change_control i new reason g =
     ebind (reraise ZoneSeat (require_seat g new True)) (\<lambda>_.
     ebind (option_raise (NoSuchObject i) (card_at g i)) (\<lambda>c.
     ebind (ensure (zone c = ''battlefield'') OnlyBattlefieldControlled) (\<lambda>_.
     let old = controller c in
     ebind (remove_object_from_combat i ''control changed'' g) (\<lambda>g1.
     ebind (option_raise (NoOwnerZone old ''battlefield'')
              (Option.bind (player_at g1 old) (\<lambda>p. map_of (zones p) ''battlefield''))) (\<lambda>ids.
     ebind (ensure (i \<in> set ids) (NotInZone (card_ref c))) (\<lambda>_.
     let g2 = edit_zone old ''battlefield'' (remove1 i) g1 in
     ebind (option_raise (NoOwnerZone new ''battlefield'')
              (Option.bind (player_at g2 new) (\<lambda>p. map_of (zones p) ''battlefield''))) (\<lambda>_.
     let g3 = edit_card i (\<lambda>c. c\<lparr>controller := new\<rparr>) (edit_zone new ''battlefield'' (\<lambda>ids. ids @ [i]) g2) in
     ebind (reraise ObjectFault (record_control_change i g3)) (\<lambda>g4.
     Inr (log_event ((new_entry None ''control.change''
            (''Control of '' @ card_ref c @ '' changed '' @ old @ '' -> '' @ new @ ''.'') 2)
          \<lparr>log_details := [(''object'', PStr (card_ref c)), (''from'', PStr old), (''to'', PStr new),
             (''reason'', PStr reason)],
           log_objects := [i], log_players := [old, new]\<rparr>) g4)))))))))"

definition stat_number :: "string \<Rightarrow> player_state \<Rightarrow> int" where
  "stat_number key p = (case dict_get (PInt 0) (stats p) key of PInt n \<Rightarrow> n | _ \<Rightarrow> 0)"

text \<open>
  \<open>random.Random(text).shuffle(ids)\<close> is the argument \<open>shuffled\<close>, a function of the seed text and
  the list.
\<close>

definition shuffle_library ::
  "(string \<Rightarrow> string list \<Rightarrow> string list) \<Rightarrow> string \<Rightarrow> string \<Rightarrow> string \<Rightarrow> game_state \<Rightarrow> zone_error + game_state" where
  "shuffle_library shuffled seed s reason g =
     ebind (reraise ZoneSeat (require_seat g s False)) (\<lambda>_.
     ebind (option_raise (ZoneSeat (UnknownSeat s)) (player_at g s)) (\<lambda>p.
     ebind (option_raise (NoOwnerZone s ''library'') (map_of (zones p) ''library'')) (\<lambda>ids.
     let n = stat_number ''shuffle_count'' p + 1;
         order = shuffled (seed @ ''|'' @ s @ ''|shuffle|'' @ show_int n) ids;
         g1 = edit_player s (\<lambda>p. p\<lparr>stats := AList.update ''shuffle_count'' (PInt n) (stats p),
                zones := AList.update ''library'' order (zones p)\<rparr>) g in
     ebind (efold (\<lambda>h i. ebind (option_raise (NoSuchObject i) (card_at h i)) (\<lambda>_.
              Inr (edit_card i (\<lambda>c. c\<lparr>known_to := [], revealed_to := []\<rparr>) h))) g1 order) (\<lambda>g2.
     Inr (log_event ((new_entry (Some s) ''library.shuffle'' (s @ '' shuffled.'') 0)
            \<lparr>log_details := [(''reason'', PStr reason), (''count'', PInt n)], log_players := [s]\<rparr>) g2)))))"

section \<open>What the other operations leave in place\<close>

text \<open>
  \<open>steady i g h\<close>: between the two states no zone list, no stack item and no object's identity,
  owner, zone or incarnation has changed, nor the controller of an object other than \<open>i\<close>.
\<close>

definition place_key :: "card_instance \<Rightarrow> string \<times> string \<times> string \<times> int" where
  "place_key c = (object_id c, owner c, zone c, zone_change_counter c)"

definition steady :: "string \<Rightarrow> game_state \<Rightarrow> game_state \<Rightarrow> bool" where
  "steady i g h \<longleftrightarrow>
     stack_items h = stack_items g \<and> map fst (cards h) = map fst (cards g)
     \<and> map fst (players h) = map fst (players g)
     \<and> (\<forall>s. map_option zones (player_at h s) = map_option zones (player_at g s))
     \<and> (\<forall>j. map_option place_key (card_at h j) = map_option place_key (card_at g j))
     \<and> (\<forall>j. j \<noteq> i \<longrightarrow> map_option controller (card_at h j) = map_option controller (card_at g j))"

named_theorems steady_intros \<open>steps that keep every object in its place\<close>

lemma steady_refl [steady_intros]: "steady i g g"
  by (simp add: steady_def)

lemma steady_trans: "steady i g h \<Longrightarrow> steady i h k \<Longrightarrow> steady i g k"
  by (simp add: steady_def)

lemma steady_same [steady_intros]:
  "players h = players g \<Longrightarrow> cards h = cards g \<Longrightarrow> stack_items h = stack_items g \<Longrightarrow> steady i g h"
  by (simp add: steady_def)

lemma steady_log [steady_intros]: "steady i g (log_event l g)"
  by (rule steady_same) simp_all

lemma steady_edit_card [steady_intros]:
  "(\<And>c. card_at g j = Some c \<Longrightarrow> place_key (f c) = place_key c \<and> (j \<noteq> i \<longrightarrow> controller (f c) = controller c))
    \<Longrightarrow> steady i g (edit_card j f g)"
  by (auto simp: steady_def option.map_comp comp_def split: option.splits intro!: option.map_cong0)

lemma steady_edit_player [steady_intros]:
  "(\<And>p. zones (f p) = zones p) \<Longrightarrow> steady i g (edit_player s f g)"
  by (auto simp: steady_def option.map_comp comp_def)

lemma zone_of_cong:
  "map_option zones (player_at h s) = map_option zones (player_at g s) \<Longrightarrow> zone_of h s z = zone_of g s z"
  by (cases "player_at h s"; cases "player_at g s") (auto simp: zone_of_def)

lemma steady_zone_of: "steady i g h \<Longrightarrow> zone_of h s z = zone_of g s z"
  by (intro zone_of_cong) (simp add: steady_def)

lemma steady_keyed:
  assumes "steady i g h" and "keyed g"
  shows "keyed h"
  unfolding keyed_def
proof (intro allI impI)
  fix j d assume d: "card_at h j = Some d"
  have "map_option place_key (card_at h j) = map_option place_key (card_at g j)"
    using assms(1) unfolding steady_def by blast
  with d obtain c where "card_at g j = Some c" "place_key d = place_key c" by (cases "card_at g j") auto
  with assms(2) show "object_id d = j" by (simp add: keyed_def place_key_def)
qed

lemma steady_card:
  assumes "steady i g h" and "card_at g j = Some c"
  obtains d where "card_at h j = Some d" "place_key d = place_key c" "j \<noteq> i \<Longrightarrow> controller d = controller c"
proof -
  have "map_option place_key (card_at h j) = map_option place_key (card_at g j)"
    "j \<noteq> i \<longrightarrow> map_option controller (card_at h j) = map_option controller (card_at g j)"
    using assms(1) unfolding steady_def by blast+
  with assms(2) that show ?thesis by (cases "card_at h j") auto
qed

lemma steady_next_timestamp [steady_intros]: "steady i g (fst (next_timestamp g))"
  by (rule steady_same) (simp_all add: next_timestamp_def)

lemma steady_take_timestamp: "take_timestamp t g = (h, ts) \<Longrightarrow> steady i g h"
  by (auto simp: take_timestamp_def next_timestamp_def split: option.splits intro: steady_same)

lemma steady_remove_previous [steady_intros]: "steady i g (remove_previous j e g)"
  by (cases e) (auto intro!: steady_intros simp: place_key_def)

lemma steady_unlink:
  "steady i g (edit_card j (\<lambda>c. c\<lparr>attached_to := None\<rparr>) (remove_previous j e g))"
  by (rule steady_trans [OF steady_remove_previous], rule steady_edit_card) (simp add: place_key_def)

lemma steady_detach:
  assumes "detach_object k j g = Inr (h, x)"
  shows "steady i g h"
proof -
  from assms have "h = g \<or> (\<exists>e. h = edit_card j (\<lambda>c. c\<lparr>attached_to := None\<rparr>) (remove_previous j e g))"
    by (auto simp: detach_object_def ebind_eq_Inr ebind_ensure_Inr option_raise_eq_Inr split: if_splits)
  then show ?thesis using steady_refl steady_unlink by blast
qed

lemma steady_detach_all: "detach_all k t js g = Inr (h, xs) \<Longrightarrow> steady i g h"
proof (induction js arbitrary: g xs)
  case (Cons j js)
  then show ?case
    by (auto simp: ebind_eq_Inr ebind_ensure_Inr split: option.splits intro: steady_trans dest: steady_detach)
qed (simp add: steady_refl)

lemma steady_clear: "clear_object_attachment_relations k j g = Inr (h, xs) \<Longrightarrow> steady i g h"
  by (auto simp: clear_object_attachment_relations_def ebind_eq_Inr option_raise_eq_Inr
      split: if_splits intro: steady_trans dest: steady_detach steady_detach_all)

lemma steady_relate: "steady i g g' \<Longrightarrow> steady i g (relate j t ts g')"
  unfolding relate_def by (rule steady_trans, assumption) (auto intro!: steady_intros simp: place_key_def)

lemma steady_attach_objects:
  assumes "attach_objects k j t ts g = Inr (h, x)"
  shows "steady i g h"
proof -
  let ?add = "edit_card t (\<lambda>c. c\<lparr>attachments := attachments c @ [j]\<rparr>)"
  from assms have "h = g \<or> (\<exists>e. h = relate j t ts (?add (remove_previous j e g)))"
    by (auto simp: attach_objects_def ebind_eq_Inr ebind_ensure_Inr option_raise_eq_Inr split: if_splits)
  moreover have "steady i g (relate j t ts (?add (remove_previous j e g)))" for e
    by (intro steady_relate, rule steady_trans [OF steady_remove_previous], rule steady_edit_card)
      (simp add: place_key_def)
  ultimately show ?thesis using steady_refl by blast
qed

lemma steady_attach_to_player:
  assumes "attach_to_player j s ts g = Inr (h, x)"
  shows "steady i g h"
proof -
  let ?add = "edit_player s (\<lambda>p. p\<lparr>player_attachments := player_attachments p @ [j]\<rparr>)"
  from assms have "h = g \<or> (\<exists>t e. h = relate j t ts (?add (remove_previous j e g)))"
    by (auto simp: attach_to_player_def ebind_eq_Inr ebind_ensure_Inr option_raise_eq_Inr split: if_splits)
  moreover have "steady i g (relate j t ts (?add (remove_previous j e g)))" for t e
    by (intro steady_relate, rule steady_trans [OF steady_remove_previous], rule steady_edit_player) simp
  ultimately show ?thesis using steady_refl by blast
qed

lemma if_Inr: "(if P then Inr a else Inr b) = Inr h \<Longrightarrow> h = a \<or> h = b"
  by (simp split: if_splits)

lemma steady_combat:
  assumes "remove_object_from_combat j reason g = Inr h"
  shows "steady i g h"
proof -
  obtain c where c: "card_at g j = Some c"
    using assms by (cases "card_at g j") (simp_all add: remove_object_from_combat_def)
  obtain fight r where fight: "remove_combat_relationships (combat g) (object_id c) = Inr (fight, r)"
    using assms c by (cases "remove_combat_relationships (combat g) (object_id c)")
      (auto simp: remove_object_from_combat_def)
  let ?g1 = "g\<lparr>combat := fight\<rparr>"
  let ?out = "edit_card j (\<lambda>c. c\<lparr>attacking := None, blocking := None\<rparr>) ?g1"
  have run: "remove_object_from_combat j reason g =
      (if \<not> ((attacking c \<noteq> None \<or> was_attacker r) \<or> blocking c \<noteq> None \<or> removed_as_blocker r) then Inr ?g1
       else Inr (log_event (combat_removal_entry c (attacking c \<noteq> None \<or> was_attacker r)
              (blocking c \<noteq> None \<or> removed_as_blocker r) reason) ?out))"
    unfolding remove_object_from_combat_def c option_raise_simps ebind_simps fight reraise_simps prod.case Let_def
    by (rule refl)
  have "h = ?g1 \<or> (\<exists>l. h = log_event l ?out)"
    using if_Inr [OF trans [OF run [symmetric] assms]] by blast
  moreover have "steady i g ?g1" by (rule steady_same) simp_all
  moreover have "steady i ?g1 ?out" by (rule steady_edit_card) (simp add: place_key_def)
  ultimately show ?thesis using steady_log steady_trans by blast
qed

lemma life_keys:
  assumes "apply_life_changes g ts = Inr (h, ts')"
  shows "map fst (players h) = map fst (players g)"
proof -
  have one: "map fst (players k) = map fst (players j)" if "apply_final_life j t = Inr k" for j k t
    using that by (auto simp: apply_final_life_def update_keys split: option.splits)
  from assms obtain final :: "(string \<times> life_transition) list" where "efold (\<lambda>h entry. apply_final_life h (snd entry)) g final = Inr h"
    by (auto simp: apply_life_changes_def apply_state_plan_def ebind_eq_Inr)
  then show ?thesis
    by (rule efold_invariant [where P = "\<lambda>k. map fst (players k) = map fst (players g)"]) (auto dest: one)
qed

lemma steady_life: "commit_life_payment g p = Inr (h, t) \<Longrightarrow> steady i g h"
proof -
  assume "commit_life_payment g p = Inr (h, t)"
  then obtain ts where done_life: "apply_life_changes g (payment_plan p) = Inr (h, ts)"
    by (auto simp: commit_life_payment_def ebind_eq_Inr)
  from life_frame [OF this] have frame: "h\<lparr>players := players g\<rparr> = g"
    and lives: "\<And>s. map_option (\<lambda>p. p\<lparr>life := 0\<rparr>) (player_at h s) = map_option (\<lambda>p. p\<lparr>life := 0\<rparr>) (player_at g s)"
    by (auto simp: only_lives_def)
  have same: "cards h = cards g" "stack_items h = stack_items g"
    using arg_cong [OF frame, of cards] arg_cong [OF frame, of stack_items] by simp_all
  have "map_option zones (player_at h s) = map_option zones (player_at g s)" for s
    using arg_cong [OF lives [of s], of "map_option zones"] by (simp add: option.map_comp comp_def)
  with same life_keys [OF done_life] show ?thesis by (simp add: steady_def)
qed

section \<open>Where a moved object is\<close>

lemma edit_zone_lists:
  assumes "player_at g s \<noteq> None"
  shows "zone_of (edit_zone s z f g) t y = (if t = s \<and> y = z then f (zone_of g s z) else zone_of g t y)"
  using assms by (auto simp: edit_zone_def zone_of_def)

lemma edit_zone_frame [simp]:
  "cards (edit_zone s z f g) = cards g" "stack_items (edit_zone s z f g) = stack_items g"
  "map fst (players (edit_zone s z f g)) = map fst (players g)"
  by (simp_all add: edit_zone_def)

definition without :: "string \<Rightarrow> string list \<Rightarrow> string list" where
  "without i ids = filter (\<lambda>j. j \<noteq> i) ids"

lemma without_set [simp]: "set (without i ids) = set ids - {i}"
  by (auto simp: without_def)

lemma without_idle: "i \<notin> set ids \<Longrightarrow> without i ids = ids"
  by (auto simp: without_def filter_id_conv)

lemma without_remove1: "distinct ids \<Longrightarrow> remove1 i ids = without i ids"
  by (induction ids) (auto simp: without_def intro: filter_True [symmetric])

text \<open>Taken out of its origin, an object is in no zone list; the lists are otherwise as before.\<close>

lemma leave_origin_lists:
  assumes "zones_ok g" and "keyed g" and "distinct (map fst (players g))" and "card_at g i = Some c"
    and "leave_origin i g = Inr h"
  shows "zone_of h s z = without i (zone_of g s z)" and "cards h = cards g"
    and "map fst (players h) = map fst (players g)"
    and "set (stack_cards g) - {i} \<subseteq> set (stack_cards h)"
proof -
  have oid: "object_id c = i" using assms(2,4) by (simp add: keyed_def)
  have dist: "distinct (zone_of g t y)" for t y using assms(1) by (simp add: zones_ok_def)
  have place: "placed g i c" using assms(1,4) by (simp add: zones_ok_def)
  have all: "zone_of h s z = without i (zone_of g s z) \<and> cards h = cards g
      \<and> map fst (players h) = map fst (players g) \<and> set (stack_cards g) - {i} \<subseteq> set (stack_cards h)"
  proof (cases "zone c = ''stack''")
    case True
    with place have none: "i \<notin> set (zone_of g s z)" by (simp add: placed_def)
    define k where "k = (if list_ex (resolving_item i) (stack_items g) then g
        else g\<lparr>stack_items := filter (\<lambda>s. card_object_id s \<noteq> Some i) (stack_items g)\<rparr>)"
    have h: "h = k" using assms(4,5) True by (auto simp: leave_origin_def k_def oid split: if_splits)
    have k: "players k = players g" "cards k = cards g" by (simp_all add: k_def)
    have "set (stack_cards g) - {i} \<subseteq> set (stack_cards k)"
      by (force simp: k_def stack_cards_def List.map_filter_def named_card_def split: if_splits option.splits)
    with none k show ?thesis by (simp add: h without_idle zone_of_def)
  next
    case False
    have run: "remove_from_zone i g = Inr h" using assms(4,5) False by (simp add: leave_origin_def)
    show ?thesis
    proof (cases "find (\<lambda>sp. lists_object i (zone c) (snd sp)) (players g)")
      case None
      then have "i \<notin> set (zone_of g t (zone c))" for t
        using assms(3) by (auto simp: find_None_iff lists_object_def zone_of_def dict_get_def
            split: option.splits dest: map_of_SomeD)
      with place False have "i \<notin> set (zone_of g s z)"
        by (auto simp: placed_def split: if_splits)
      moreover have "h = g" using run None assms(4) False oid
        by (auto simp: remove_from_zone_def split: if_splits)
      ultimately show ?thesis by (simp add: without_idle)
    next
      case (Some sp)
      then have "sp \<in> set (players g) \<and> lists_object i (zone c) (snd sp)"
        by (auto simp: find_Some_iff)
      then obtain t p where sp: "sp = (t, p)" "(t, p) \<in> set (players g)" "lists_object i (zone c) p"
        by (cases sp) simp
      with assms(3) have p: "player_at g t = Some p" by simp
      have mem: "i \<in> set (zone_of g t (zone c))"
        using sp(3) p by (auto simp: lists_object_def zone_of_def dict_get_def split: option.splits)
      with place False have only: "i \<in> set (zone_of g u y) \<longleftrightarrow> u = t \<and> y = zone c" for u y
        by (auto simp: placed_def split: if_splits)
      have h: "h = edit_zone t (zone c) (remove1 i) g"
        using run Some sp(1) assms(4) False oid by (simp add: remove_from_zone_def)
      have "zone_of h s z = without i (zone_of g s z)"
        using edit_zone_lists [of g t "zone c" "remove1 i" s z] p only [of s z] dist
        by (auto simp: h without_remove1 without_idle)
      then show ?thesis by (simp add: h stack_cards_def)
    qed
  qed
  then show "zone_of h s z = without i (zone_of g s z)" "cards h = cards g"
    "map fst (players h) = map fst (players g)" "set (stack_cards g) - {i} \<subseteq> set (stack_cards h)" by simp_all
qed

text \<open>The new object: the incarnation advances unless the rules keep it.\<close>

definition keeps_incarnation :: "string \<Rightarrow> string \<Rightarrow> bool" where
  "keeps_incarnation origin dest \<longleftrightarrow> \<not> creates_new_object origin dest \<or> origin = ''stack'' \<and> dest = ''battlefield''"

definition reincarnate :: "string \<Rightarrow> card_instance \<Rightarrow> card_instance" where
  "reincarnate dest c =
     c\<lparr>zone_change_counter := zone_change_counter c + (if keeps_incarnation (zone c) dest then 0 else 1)\<rparr>"

lemma place_key_reset:
  "reset_card_after_zone_change dest b c = Inr d \<Longrightarrow> place_key d = place_key c"
  by (auto simp: reset_card_after_zone_change_def ebind_ensure_Inr Let_def place_key_def)

lemma reset_object_steady:
  assumes "reset_object dest b i g = Inr h"
  shows "steady i g h"
proof -
  from assms obtain c d where "card_at g i = Some c" "reset_card_after_zone_change dest b c = Inr d"
      "h = edit_card i (\<lambda>_. d) g"
    by (auto simp: reset_object_def ebind_eq_Inr option_raise_eq_Inr)
  then show ?thesis by (auto intro!: steady_edit_card simp: place_key_reset)
qed

lemma renew_steady:
  assumes "renew_object i dest b given g = Inr h" and c: "card_at g i = Some c"
    and b: "b \<longleftrightarrow> keeps_incarnation (zone c) dest"
  shows "steady i (edit_card i (reincarnate dest) g) h"
proof -
  from assms(1) obtain g1 where g1: "remove_object_from_combat i (''zone change to '' @ dest) g = Inr g1"
    and rest: "(case take_timestamp given g1 of (g2, ts) \<Rightarrow>
       ebind (reraise AttachmentFault (clear_object_attachment_relations True i
                (edit_card i (renewed dest b ts) g2))) (\<lambda>(g3, _). reset_object dest b i g3)) = Inr h"
    unfolding renew_object_def ebind_eq_Inr by blast
  obtain g2 ts where g2: "take_timestamp given g1 = (g2, ts)" by (cases "take_timestamp given g1")
  from rest obtain g3 xs where
    g3: "clear_object_attachment_relations True i (edit_card i (renewed dest b ts) g2) = Inr (g3, xs)"
    and last: "reset_object dest b i g3 = Inr h"
    unfolding g2 by (auto simp: ebind_eq_Inr)
  have s2: "steady i g g2" by (rule steady_trans [OF steady_combat [OF g1] steady_take_timestamp [OF g2]])
  from steady_card [OF s2 c] obtain c2 where c2: "card_at g2 i = Some c2" "place_key c2 = place_key c" by blast
  have "map_option place_key (card_at (edit_card i (renewed dest b ts) g2) j)
      = map_option place_key (card_at (edit_card i (reincarnate dest) g) j)" for j
    using s2 c c2 b by (auto simp: steady_def renewed_def reincarnate_def place_key_def)
  with s2 have "steady i (edit_card i (reincarnate dest) g) (edit_card i (renewed dest b ts) g2)"
    by (simp add: steady_def)
  with steady_clear [OF g3] reset_object_steady [OF last] show ?thesis using steady_trans by blast
qed

lemma reset_steady:
  assumes "reset_zone_change i dest given g = Inr h" and c: "card_at g i = Some c"
  shows "steady i (edit_card i (reincarnate dest) g) h"
proof (cases "creates_new_object (zone c) dest")
  case True
  then have "renew_object i dest (zone c = ''stack'' \<and> dest = ''battlefield'') given g = Inr h"
    using assms by (simp add: reset_zone_change_def)
  from renew_steady [OF this c] True show ?thesis by (simp add: keeps_incarnation_def)
next
  case False
  then have "h = g" using assms by (simp add: reset_zone_change_def)
  moreover have "reincarnate dest c = c" using False by (simp add: reincarnate_def keeps_incarnation_def)
  ultimately show ?thesis using c by (auto simp: steady_def place_key_def)
qed

definition inserts :: "string \<Rightarrow> (string list \<Rightarrow> string list) \<Rightarrow> bool" where
  "inserts i f \<longleftrightarrow> (\<forall>ids. \<exists>as bs. ids = as @ bs \<and> f ids = as @ i # bs)"

lemma inserts_end: "inserts i (\<lambda>ids. ids @ [i])"
  by (auto simp: inserts_def)

lemma inserts_list_insert: "inserts i (list_insert n i)"
  unfolding inserts_def
proof
  fix ids show "\<exists>as bs. ids = as @ bs \<and> list_insert n i ids = as @ i # bs"
    by (intro exI [of _ "take (nat n) ids"] exI [of _ "drop (nat n) ids"]) (simp add: list_insert_def)
qed

lemma inserted:
  assumes "inserts i f" and "i \<notin> set ids"
  shows "set (f ids) = insert i (set ids)" and "distinct ids \<Longrightarrow> distinct (f ids)" and "without i (f ids) = ids"
proof -
  from assms(1) obtain as bs where "ids = as @ bs" "f ids = as @ i # bs" unfolding inserts_def by blast
  with assms(2) show "set (f ids) = insert i (set ids)" "distinct ids \<Longrightarrow> distinct (f ids)" "without i (f ids) = ids"
    using without_idle [of i as] without_idle [of i bs] by (auto simp: without_def)
qed

lemma steady_attach:
  assumes "next_timestamp g = (g', ts)"
    and "ebind (reraise AttachmentFault (attach_objects True i t ts g')) (\<lambda>(h, _). Inr h) = Inr h"
  shows "steady k g h"
proof -
  from assms(2) obtain x where "attach_objects True i t ts g' = Inr (h, x)" by (auto simp: ebind_eq_Inr)
  with steady_next_timestamp [of k g] assms(1) show ?thesis
    using steady_attach_objects steady_trans by fastforce
qed

lemma steady_attach_player:
  assumes "next_timestamp g = (g', ts)"
    and "ebind (reraise AttachmentFault (attach_to_player i s ts g')) (\<lambda>(h, _). Inr h) = Inr h"
  shows "steady k g h"
proof -
  from assms(2) obtain x where "attach_to_player i s ts g' = Inr (h, x)" by (auto simp: ebind_eq_Inr)
  with steady_next_timestamp [of k g] assms(1) show ?thesis
    using steady_attach_to_player steady_trans by fastforce
qed

lemma steady_aura_attachment:
  assumes "commit_aura_entry_attachment i p g = Inr h"
  shows "steady k g h"
proof -
  obtain g' ts where stamp: "next_timestamp g = (g', ts)" by (cases "next_timestamp g")
  obtain c where c: "card_at g i = Some c"
    using assms by (cases "card_at g i") (simp_all add: commit_aura_entry_attachment_def)
  from assms show ?thesis
    unfolding commit_aura_entry_attachment_def c option_raise_simps ebind_simps stamp Let_def prod.case
    by (auto split: if_splits option.splits intro: steady_attach [OF stamp] steady_attach_player [OF stamp])
qed

lemma steady_pending:
  assumes "attach_pending host i g = Inr h"
  shows "steady k g h"
proof -
  obtain c where c: "card_at g i = Some c"
    using assms by (cases "card_at g i") (simp_all add: attach_pending_def)
  obtain d p where d: "take_pending_attachment c = (d, p)" by (cases "take_pending_attachment c")
  then have "place_key d = place_key c \<and> controller d = controller c"
    by (auto simp: take_pending_attachment_def place_key_def Let_def split: pyval.splits if_splits)
  then have first: "steady k g (edit_card i (\<lambda>_. d) g)" using c by (intro steady_edit_card) auto
  obtain g' ts where stamp: "next_timestamp (edit_card i (\<lambda>_. d) g) = (g', ts)"
    by (cases "next_timestamp (edit_card i (\<lambda>_. d) g)")
  have "steady k (edit_card i (\<lambda>_. d) g) h"
    using assms unfolding attach_pending_def c option_raise_simps ebind_simps d Let_def prod.case stamp
    by (auto simp: steady_refl split: option.splits intro: steady_attach [OF stamp])
  with first show ?thesis by (rule steady_trans)
qed

lemma steady_show:
  assumes "show_entered host i g = Inr h"
  shows "steady k g h"
proof -
  let ?g1 = "edit_card i (shown_to (turn_order g)) g"
  obtain ts where run: "refresh_world_supertype_timestamp host i ts ?g1 = Inr h"
    using assms by (simp add: show_entered_def)
  obtain c where c: "card_at ?g1 i = Some c"
    using run by (cases "card_at ?g1 i") (simp_all add: refresh_world_supertype_timestamp_def)
  obtain g2 t where g2: "take_timestamp ts ?g1 = (g2, t)" by (cases "take_timestamp ts ?g1")
  have "h = ?g1 \<or> h = edit_card i (\<lambda>c. c\<lparr>world_supertype_timestamp := None\<rparr>) ?g1
      \<or> h = edit_card i (\<lambda>c. c\<lparr>world_supertype_timestamp := Some t\<rparr>) g2"
    using run unfolding refresh_world_supertype_timestamp_def c option_raise_simps ebind_simps g2 prod.case
    by (simp split: if_splits)
  moreover have "steady k ?g1 (edit_card i (\<lambda>c. c\<lparr>world_supertype_timestamp := None\<rparr>) ?g1)"
    by (rule steady_edit_card) (simp add: place_key_def)
  moreover have "steady k ?g1 (edit_card i (\<lambda>c. c\<lparr>world_supertype_timestamp := Some t\<rparr>) g2)"
    by (rule steady_trans [OF steady_take_timestamp [OF g2]], rule steady_edit_card) (simp add: place_key_def)
  moreover have "steady k g ?g1" by (rule steady_edit_card) (simp add: shown_to_def place_key_def Let_def)
  ultimately show ?thesis using steady_trans by blast
qed

lemma entering_card_key:
  "entering_card plan s g c = Inr d \<Longrightarrow> place_key d = place_key c \<and> controller d = s"
  by (auto simp: entering_card_def record_battlefield_acquisition_def record_control_acquisition_def
      place_key_def ebind_eq_Inr Let_def)

lemma zone_exists_player: "zone_exists g s z \<Longrightarrow> player_at g s \<noteq> None"
  by (auto simp: zone_exists_def split: option.splits)

lemma enter_battlefield_places:
  assumes "enter_battlefield host plan who g = Inr h" and "plan_object plan = i"
    and "card_at g i = Some c" and "object_id c = i"
  shows "\<exists>d. place_key d = place_key c \<and> player_at g (controller d) \<noteq> None
    \<and> (\<forall>k. steady k (edit_zone (controller d) ''battlefield'' (\<lambda>ids. ids @ [i]) (edit_card i (\<lambda>_. d) g)) h)"
proof -
  define s where "s = (case who of Some s \<Rightarrow> if s \<noteq> [] then s else owner c | None \<Rightarrow> owner c)"
  have run: "ebind (entering_card plan s g c) (\<lambda>d.
      ebind (ensure (zone_exists g s ''battlefield'') (NoOwnerZone s ''battlefield'')) (\<lambda>_.
      ebind (attach_entering host (plan_aura plan) i
        (edit_zone s ''battlefield'' (\<lambda>ids. ids @ [i]) (edit_card i (\<lambda>_. d) g))) (show_entered host i))) = Inr h"
    using assms(1) unfolding enter_battlefield_def assms(2,3) Let_def option_raise_simps ebind_simps
      s_def [symmetric] assms(4) .
  then obtain d where d: "entering_card plan s g c = Inr d" by (cases "entering_card plan s g c") simp_all
  from run have bf: "zone_exists g s ''battlefield''"
    and rest: "ebind (attach_entering host (plan_aura plan) i
        (edit_zone s ''battlefield'' (\<lambda>ids. ids @ [i]) (edit_card i (\<lambda>_. d) g))) (show_entered host i) = Inr h"
    unfolding d ebind_simps ebind_ensure_Inr by blast+
  let ?g2 = "edit_zone s ''battlefield'' (\<lambda>ids. ids @ [i]) (edit_card i (\<lambda>_. d) g)"
  from rest obtain g3 g4 where g3: "commit_aura_zone_move i (plan_aura plan) ?g2 = Inr g3"
    and g4: "attach_pending host i g3 = Inr g4" and last: "show_entered host i g4 = Inr h"
    by (auto simp: attach_entering_def ebind_eq_Inr)
  have "steady k ?g2 g3" for k
    using g3 by (auto simp: commit_aura_zone_move_def steady_refl split: option.splits if_splits
        intro: steady_aura_attachment)
  then have "steady k ?g2 h" for k
    using steady_pending [OF g4] steady_show [OF last] steady_trans by blast
  then show ?thesis using entering_card_key [OF d] zone_exists_player [OF bf] by blast
qed

lemma enter_owner_zone_places:
  assumes "enter_owner_zone plan reveal g = Inr h" and "plan_object plan = i"
    and "card_at g i = Some c" and "object_id c = i"
  shows "\<exists>f. inserts i f \<and> player_at g (owner c) \<noteq> None
    \<and> (\<forall>k. steady k (edit_zone (owner c) (plan_destination plan) f g) h)"
proof -
  have seen: "steady k a (edit_card i (seen_by x y) a)" for k a x y
    by (rule steady_edit_card) (simp add: seen_by_def place_key_def)
  have known: "player_at g (owner c) \<noteq> None"
    using assms by (auto simp: enter_owner_zone_def ebind_ensure_Inr Let_def dest: zone_exists_player)
  have "\<exists>f x y. inserts i f \<and> h = edit_card i (seen_by x y) (edit_zone (owner c) (plan_destination plan) f g)"
  proof (cases "plan_destination plan = ''library''")
    case True
    then obtain n where "h = edit_card i (seen_by [owner c] []) (edit_zone (owner c) ''library'' (list_insert n i) g)"
      using assms by (auto simp: enter_owner_zone_def ebind_ensure_Inr ebind_eq_Inr Let_def)
    with True inserts_list_insert show ?thesis by metis
  next
    case False
    then have "\<exists>x y. h = edit_card i (seen_by x y) (edit_zone (owner c) (plan_destination plan) (\<lambda>ids. ids @ [i]) g)"
      using assms by (auto simp: enter_owner_zone_def ebind_ensure_Inr Let_def split: if_splits)
    with inserts_end show ?thesis by blast
  qed
  with known seen show ?thesis by blast
qed

section \<open>Positions in a library\<close>

definition depth_from_top :: "library_position \<Rightarrow> 'a list \<Rightarrow> nat" where
  "depth_from_top p ids =
     (case p of LibraryTop \<Rightarrow> 0 | LibraryBottom \<Rightarrow> length ids | FromTop n \<Rightarrow> min (nat (n - 1)) (length ids))"

lemma rev_list_insert: "0 \<le> k \<Longrightarrow> k \<le> int (length ids) \<Longrightarrow> rev (list_insert k i ids) =
    take (length ids - nat k) (rev ids) @ i # drop (length ids - nat k) (rev ids)"
  by (simp add: list_insert_def rev_take rev_drop)

text \<open>
  C40. A library position a request accepts is always inside the library: the insertion index lies
  between 0 and the number of cards, however deep the position asked for, and the card read from the
  top of the library (the end of the list) is at the depth asked for, or at the bottom when the
  library is shorter; the other cards keep their order.
\<close>

theorem library_placement:
  assumes "normalized_position v = Inr p"
  shows "\<exists>k. library_insertion_index (int (length ids)) (Some p) = Inr k \<and> 0 \<le> k \<and> k \<le> int (length ids)
    \<and> rev (list_insert k i ids)
        = take (depth_from_top p ids) (rev ids) @ i # drop (depth_from_top p ids) (rev ids)"
proof (cases p)
  case (FromTop n)
  then have n: "1 \<le> n" using assms by (cases v) (auto simp: Let_def split: if_splits)
  then have "0 \<le> max 0 (int (length ids) - n + 1)" "max 0 (int (length ids) - n + 1) \<le> int (length ids)" by simp_all
  moreover have "length ids - nat (max 0 (int (length ids) - n + 1)) = depth_from_top p ids"
    using n FromTop by (auto simp: depth_from_top_def)
  ultimately show ?thesis
    using rev_list_insert [of "max 0 (int (length ids) - n + 1)" ids i] FromTop
    by (simp add: library_insertion_index_def)
qed (simp_all add: library_insertion_index_def depth_from_top_def list_insert_def)

lemma library_placement_witness:
  "library_insertion_index (int (length [''elf'', ''ox''])) (Some (FromTop 2)) = Inr 1
   \<and> rev (list_insert 1 ''imp'' [''elf'', ''ox'']) = [''ox'', ''imp'', ''elf'']"
proof -
  have "normalized_position (PInt 2) = Inr (FromTop 2)" by simp
  from library_placement [OF this, of "[''elf'', ''ox'']" "''imp''"]
  show ?thesis by (simp add: library_insertion_index_def depth_from_top_def)
qed

end
