(* ===== verification/Zone_Moves.thy ===== *)
theory Zone_Moves imports Zone_Transitions
begin

text \<open>
  Where objects are after zone moves and changes of control.  \<open>table_ok\<close> is the part of the
  engine's invariants that concerns dictionaries and zones; \<open>apart i\<close> relates two states that
  agree on every object but \<open>i\<close>; \<open>moves_only i\<close> adds that the zone lists agree once \<open>i\<close> is left
  out.  A committed move and a change of control are each shown to move only their object and to
  put it where they should; the locale \<open>table_steps\<close> then speaks about any sequence of operations
  with that law, and is interpreted for the sequences of the two.
\<close>

text \<open>Taking an object out of every list and inserting it into one keeps the zones sound.\<close>

definition others_kept :: "string \<Rightarrow> game_state \<Rightarrow> game_state \<Rightarrow> bool" where
  "others_kept i g h \<longleftrightarrow> map fst (cards h) = map fst (cards g)
     \<and> (\<forall>j. j \<noteq> i \<longrightarrow> map_option place_key (card_at h j) = map_option place_key (card_at g j)
          \<and> map_option controller (card_at h j) = map_option controller (card_at g j))"

lemma others_kept_card:
  assumes "others_kept i g h" and "j \<noteq> i" and "card_at h j = Some d"
  obtains c where "card_at g j = Some c" "zone d = zone c" "owner d = owner c" "controller d = controller c"
proof -
  have "map_option place_key (card_at h j) = map_option place_key (card_at g j)"
    "map_option controller (card_at h j) = map_option controller (card_at g j)"
    using assms(1,2) unfolding others_kept_def by blast+
  with assms(3) that show ?thesis by (cases "card_at g j") (auto simp: place_key_def)
qed

lemma card_keys: "map fst (cards h) = map fst (cards g) \<Longrightarrow> card_at h j = None \<longleftrightarrow> card_at g j = None"
  by (metis list.set_map map_of_None_key)

definition zone_keys_ok :: "game_state \<Rightarrow> bool" where
  "zone_keys_ok g \<longleftrightarrow> (\<forall>s p. player_at g s = Some p \<longrightarrow> distinct (map fst (zones p)))"

definition apart :: "string \<Rightarrow> game_state \<Rightarrow> game_state \<Rightarrow> bool" where
  "apart i g h \<longleftrightarrow> others_kept i g h \<and> set (stack_cards g) - {i} \<subseteq> set (stack_cards h)
     \<and> map fst (players h) = map fst (players g) \<and> (zone_keys_ok g \<longrightarrow> zone_keys_ok h)"

lemma dicts_ok_iff: "dicts_ok g \<longleftrightarrow>
    distinct (map fst (players g)) \<and> distinct (map fst (cards g)) \<and> zone_keys_ok g"
  by (simp add: dicts_ok_def zone_keys_ok_def)

lemma apart_trans: "apart i g h \<Longrightarrow> apart i h k \<Longrightarrow> apart i g k"
  unfolding apart_def others_kept_def by (simp, blast)

lemma apart_dicts: "apart i g h \<Longrightarrow> dicts_ok g \<Longrightarrow> dicts_ok h"
  by (simp add: apart_def others_kept_def dicts_ok_iff)

lemma zone_keys_cong:
  assumes "\<And>s. map_option zones (player_at h s) = map_option zones (player_at g s)" and "zone_keys_ok g"
  shows "zone_keys_ok h"
  unfolding zone_keys_ok_def
proof (intro allI impI)
  fix s p assume "player_at h s = Some p"
  with assms(1) [of s] obtain q where "player_at g s = Some q" "zones p = zones q"
    by (cases "player_at g s") auto
  with assms(2) show "distinct (map fst (zones p))" by (auto simp: zone_keys_ok_def)
qed

lemma zone_keys_edit_zone: "zone_keys_ok g \<Longrightarrow> zone_keys_ok (edit_zone s z f g)"
  by (auto simp: zone_keys_ok_def edit_zone_def distinct_update split: if_splits)

lemma steady_apart: "steady i g h \<Longrightarrow> apart i g h"
  using zone_keys_cong [of h g] by (simp add: steady_def apart_def others_kept_def stack_cards_def)

lemma apart_edit: "apart i g (edit_card i f g)"
  by (simp add: apart_def others_kept_def stack_cards_def zone_keys_ok_def)

lemma apart_edit_zone: "apart i g (edit_zone s z f g)"
  by (simp add: apart_def others_kept_def stack_cards_def zone_keys_edit_zone)

definition table_ok :: "game_state \<Rightarrow> bool" where
  "table_ok g \<longleftrightarrow> dicts_ok g \<and> keyed g \<and> zones_ok g"

definition moves_only :: "string \<Rightarrow> game_state \<Rightarrow> game_state \<Rightarrow> bool" where
  "moves_only i g h \<longleftrightarrow> table_ok h \<and> others_kept i g h
     \<and> (\<forall>s z. without i (zone_of h s z) = without i (zone_of g s z))"

lemma leave_origin_keys:
  assumes "leave_origin i g = Inr h"
  shows "zone_keys_ok g \<longrightarrow> zone_keys_ok h"
proof -
  obtain c where "card_at g i = Some c"
    using assms by (cases "card_at g i") (simp_all add: leave_origin_def)
  with assms have "players h = players g \<or> (\<exists>s z f. h = edit_zone s z f g)"
    by (auto simp: leave_origin_def remove_from_zone_def split: if_splits option.splits)
  then show ?thesis by (auto simp: zone_keys_edit_zone) (simp add: zone_keys_ok_def)
qed

lemma apart_keyed:
  assumes "apart i g h" and "keyed g" and "card_at h i = Some d" and "object_id d = i"
  shows "keyed h"
  unfolding keyed_def
proof (intro allI impI)
  fix j e assume e: "card_at h j = Some e"
  show "object_id e = j"
  proof (cases "j = i")
    case True then show ?thesis using e assms(3,4) by simp
  next
    case False
    then have "map_option place_key (card_at h j) = map_option place_key (card_at g j)"
      using assms(1) by (simp add: apart_def others_kept_def)
    with e assms(2) show ?thesis by (cases "card_at g j") (auto simp: keyed_def place_key_def)
  qed
qed

lemma steady_zones_ok:
  assumes "\<And>k. steady k g h" and "zones_ok g"
  shows "zones_ok h"
proof -
  have lists: "zone_of h s z = zone_of g s z" for s z using assms(1) by (rule steady_zone_of)
  have stack: "stack_cards h = stack_cards g" using assms(1) by (simp add: steady_def stack_cards_def)
  have none: "card_at h j = None \<longleftrightarrow> card_at g j = None" for j
    using assms(1) [of j] by (intro card_keys) (simp add: steady_def)
  have "placed h j d" if d: "card_at h j = Some d" for j d
  proof -
    have "map_option place_key (card_at h j) = map_option place_key (card_at g j)"
      "map_option controller (card_at h j) = map_option controller (card_at g j)"
      using assms(1) [of "CHR ''x'' # j"] by (simp_all add: steady_def)
    with d obtain c where "card_at g j = Some c" "place_key d = place_key c" "controller d = controller c"
      by (cases "card_at g j") auto
    then have "placed g j c" "zone d = zone c" "owner d = owner c" "controller d = controller c"
      using assms(2) by (simp_all add: zones_ok_def place_key_def)
    then show ?thesis by (simp only: placed_def lists stack)
  qed
  with assms(2) show ?thesis by (simp add: zones_ok_def lists none)
qed

lemma moved_zones_ok:
  assumes ok: "zones_ok g" and apart: "apart i g h"
    and lists: "\<And>s z. zone_of h s z =
      (if listed \<and> s = S \<and> z = zone d then f (without i (zone_of g s z)) else without i (zone_of g s z))"
    and f: "inserts i f" and card: "card_at h i = Some d"
    and dest: "zone d \<noteq> ''stack''" "listed \<longleftrightarrow> zone d \<noteq> ''outside''"
    and place: "zone d = ''battlefield'' \<Longrightarrow> S = controller d" "zone d \<in> set OWNER_ZONES \<Longrightarrow> S = owner d"
  shows "zones_ok h" and "i \<in> set (zone_of h s z) \<longleftrightarrow> listed \<and> s = S \<and> z = zone d"
    and "without i (zone_of h s z) = without i (zone_of g s z)"
proof -
  have kept: "others_kept i g h" and stack: "set (stack_cards g) - {i} \<subseteq> set (stack_cards h)"
    using apart by (simp_all add: apart_def)
  have fresh: "i \<notin> set (without i ids)" for ids by simp
  have member: "j \<in> set (zone_of h s z) \<longleftrightarrow>
      (if j = i then listed \<and> s = S \<and> z = zone d else j \<in> set (zone_of g s z))" for j s z
    using inserted(1) [OF f fresh] by (auto simp: lists)
  have "distinct (without i (zone_of g s z))" for s z
    using ok by (simp add: zones_ok_def without_def)
  then have "distinct (zone_of h s z)" for s z
    using inserted(2) [OF f fresh] by (simp add: lists)
  moreover have "card_at h j \<noteq> None" if "j \<in> set (zone_of h s z)" for j s z
  proof (cases "j = i")
    case False
    then have "card_at g j \<noteq> None" using ok that member by (simp add: zones_ok_def)
    moreover have "card_at h j = None \<longleftrightarrow> card_at g j = None"
      using kept by (intro card_keys) (simp add: others_kept_def)
    ultimately show ?thesis by simp
  qed (simp add: card)
  moreover have "placed h j c" if c: "card_at h j = Some c" for j c
  proof (cases "j = i")
    case True
    then have "c = d" using c card by simp
    with True dest place member show ?thesis by (auto simp: placed_def)
  next
    case False
    from others_kept_card [OF kept False c] obtain c0 where c0: "card_at g j = Some c0" "zone c = zone c0"
      "owner c = owner c0" "controller c = controller c0" by blast
    then have "placed g j c0" using ok by (simp add: zones_ok_def)
    with c0 False member stack show ?thesis by (auto simp: placed_def split: if_splits)
  qed
  ultimately show "zones_ok h" by (simp add: zones_ok_def)
  show "i \<in> set (zone_of h s z) \<longleftrightarrow> listed \<and> s = S \<and> z = zone d" using member by simp
  show "without i (zone_of h s z) = without i (zone_of g s z)"
    using inserted(3) [OF f fresh] without_idle [OF fresh] by (simp add: lists)
qed

lemma commit_move_steps:
  assumes "commit_move host plan req g = Inr h" and "plan_object plan = i"
  obtains g1 g2 g3 where "\<And>k. steady k g g1" "leave_origin i g1 = Inr g2"
    "reset_zone_change i (plan_destination plan) (request_timestamp req) g2 = Inr g3"
    "(let g4 = edit_card i (\<lambda>c. c\<lparr>zone := plan_destination plan,
        active_face := (case request_face req of None \<Rightarrow> active_face c | Some f \<Rightarrow> Some f)\<rparr>) g3 in
      if plan_destination plan = ''battlefield'' then enter_battlefield host plan (request_controller req) g4
      else if plan_destination plan = ''outside'' then Inr (edit_card i leave_game g4)
      else enter_owner_zone plan (request_reveal req) g4) = Inr h"
proof -
  from assms(1) obtain g1 where
    pay: "(case plan_life_payment plan of None \<Rightarrow> Inr g
      | Some p \<Rightarrow> ebind (reraise LifeFault (commit_life_payment g p)) (\<lambda>(h, _). Inr h)) = Inr g1"
    and rest: "ebind (leave_origin i g1) (\<lambda>g2.
      ebind (reset_zone_change i (plan_destination plan) (request_timestamp req) g2) (\<lambda>g3.
      let g4 = edit_card i (\<lambda>c. c\<lparr>zone := plan_destination plan,
        active_face := (case request_face req of None \<Rightarrow> active_face c | Some f \<Rightarrow> Some f)\<rparr>) g3 in
      if plan_destination plan = ''battlefield'' then enter_battlefield host plan (request_controller req) g4
      else if plan_destination plan = ''outside'' then Inr (edit_card i leave_game g4)
      else enter_owner_zone plan (request_reveal req) g4)) = Inr h"
    unfolding commit_move_def assms(2) Let_def [of i] Let_def [of "plan_destination plan"] ebind_eq_Inr [of _ _ h]
    by blast
  have "steady k g g1" for k
    using pay by (auto simp: steady_refl ebind_eq_Inr split: option.splits intro: steady_life)
  with that rest show ?thesis unfolding ebind_eq_Inr [of _ _ h] by blast
qed

text \<open>The state in which the object has left its origin and is to enter its destination.\<close>

lemma between_zones:
  assumes ok: "zones_ok g" "keyed g" "distinct (map fst (players g))" and c: "card_at g i = Some c"
    and s1: "\<And>k. steady k g g1" and g2: "leave_origin i g1 = Inr g2"
    and g3: "reset_zone_change i dest given g2 = Inr g3"
    and g4: "g4 = edit_card i (\<lambda>c. c\<lparr>zone := dest, active_face := F c\<rparr>) g3"
  shows "zone_of g4 s z = without i (zone_of g s z)" and "apart i g g4"
    and "\<exists>d. card_at g4 i = Some d \<and> place_key d =
      (i, owner c, dest, zone_change_counter c + (if keeps_incarnation (zone c) dest then 0 else 1))"
proof -
  from steady_card [OF s1 c] obtain c1 where c1: "card_at g1 i = Some c1" "place_key c1 = place_key c" by blast
  have keys: "distinct (map fst (players g1))" using s1 [of i] ok(3) by (simp add: steady_def)
  note left = leave_origin_lists [OF steady_zones_ok [OF s1 ok(1)] steady_keyed [OF s1 ok(2)] keys c1(1) g2]
  have c2: "card_at g2 i = Some c1" using c1(1) left(2) by simp
  have s3: "steady i (edit_card i (reincarnate dest) g2) g3" by (rule reset_steady [OF g3 c2])
  have "zone_of g4 s z = zone_of g3 s z" by (simp add: g4 zone_of_def)
  also have "\<dots> = zone_of g2 s z" using steady_zone_of [OF s3] by (simp add: zone_of_def)
  finally show "zone_of g4 s z = without i (zone_of g s z)" using left(1) steady_zone_of [OF s1] by simp
  have "apart i g g1" by (rule steady_apart) (rule s1)
  moreover have "apart i g1 g2" using left(2,3,4) leave_origin_keys [OF g2] by (simp add: apart_def others_kept_def)
  moreover have "apart i g2 g3" using apart_edit steady_apart [OF s3] apart_trans by blast
  moreover have "apart i g3 g4" by (simp add: g4 apart_edit)
  ultimately show "apart i g g4" using apart_trans by blast
  have "card_at (edit_card i (reincarnate dest) g2) i = Some (reincarnate dest c1)" using c2 by simp
  from steady_card [OF s3 this] obtain c3 where
    c3: "card_at g3 i = Some c3" "place_key c3 = place_key (reincarnate dest c1)" by blast
  have "object_id c = i" using ok(2) c by (simp add: keyed_def)
  with c1(2) c3 show "\<exists>d. card_at g4 i = Some d \<and> place_key d =
      (i, owner c, dest, zone_change_counter c + (if keeps_incarnation (zone c) dest then 0 else 1))"
    by (simp add: g4 place_key_def reincarnate_def)
qed

text \<open>The object inserted at its destination, and the steps after it that move nothing.\<close>

lemma arrives:
  assumes ok: "zones_ok g" "keyed g" and apart: "apart i g g4"
    and lists: "\<And>s z. zone_of g4 s z = without i (zone_of g s z)"
    and mid: "mid = edit_zone S (zone d) f (edit_card i (\<lambda>_. d) g4)" and at: "card_at g4 i \<noteq> None"
    and S: "player_at g4 S \<noteq> None" and f: "inserts i f" and end_steady: "\<And>k. steady k mid h"
    and key: "place_key d = (i, w, dest, n)"
    and dest: "zone d \<noteq> ''stack''" "zone d \<noteq> ''outside''"
    and place: "zone d = ''battlefield'' \<Longrightarrow> S = controller d" "zone d \<in> set OWNER_ZONES \<Longrightarrow> S = owner d"
  shows "zones_ok h" and "keyed h" and "apart i g h"
    and "without i (zone_of h s z) = without i (zone_of g s z)"
    and "i \<in> set (zone_of h s z) \<longleftrightarrow> s = S \<and> z = dest"
    and "\<exists>e. card_at h i = Some e \<and> place_key e = (i, w, dest, n) \<and> controller e = controller d"
proof -
  have m: "card_at mid i = Some d" using at by (auto simp: mid)
  have zd: "zone d = dest" "object_id d = i" using key by (simp_all add: place_key_def)
  have "zone_of (edit_card i (\<lambda>_. d) g4) s z = zone_of g4 s z" for s z by (simp add: zone_of_def)
  then have mid_lists: "zone_of mid s z =
      (if True \<and> s = S \<and> z = zone d then f (without i (zone_of g s z)) else without i (zone_of g s z))" for s z
    using edit_zone_lists [of "edit_card i (\<lambda>_. d) g4" S "zone d" f s z] S by (simp add: mid lists)
  have "apart i (edit_card i (\<lambda>_. d) g4) mid" unfolding mid by (rule apart_edit_zone)
  with apart apart_edit have am: "apart i g mid" using apart_trans by blast
  note moved = moved_zones_ok [OF ok(1) am mid_lists f m dest(1) _ place]
  have here: "True \<longleftrightarrow> zone d \<noteq> ''outside''" using dest(2) by simp
  show "zones_ok h" using end_steady moved(1) [OF here] steady_zones_ok by blast
  show "keyed h" using steady_keyed [OF end_steady apart_keyed [OF am ok(2) m zd(2)]] .
  show "apart i g h" using apart_trans [OF am steady_apart [OF end_steady]] .
  show "without i (zone_of h s z) = without i (zone_of g s z)"
    using moved(3) [OF here] steady_zone_of [OF end_steady] by simp
  show "i \<in> set (zone_of h s z) \<longleftrightarrow> s = S \<and> z = dest"
    using moved(2) [OF here] steady_zone_of [OF end_steady] zd(1) by simp
  have "i \<noteq> CHR ''x'' # i" by simp
  with steady_card [OF end_steady [of "CHR ''x'' # i"] m] key
  show "\<exists>e. card_at h i = Some e \<and> place_key e = (i, w, dest, n) \<and> controller e = controller d" by metis
qed

lemma update_same: "map_of al k = Some v \<Longrightarrow> AList.update k v al = al"
  by (induction al) (auto split: if_splits)

lemma edit_card_same: "card_at g i = Some c \<Longrightarrow> edit_card i (\<lambda>_. c) g = g"
  by (simp add: edit_card_def update_same)

lemma commit_move_places:
  assumes "table_ok g" and "card_at g i = Some c"
    and "commit_move host plan req g = Inr h" and "plan_object plan = i"
    and "plan_destination plan \<in> set ZONE_CHANGE_DESTINATIONS"
  shows "moves_only i g h
    \<and> (\<exists>d. card_at h i = Some d \<and> zone d = plan_destination plan \<and> owner d = owner c
         \<and> zone_change_counter d = zone_change_counter c
             + (if keeps_incarnation (zone c) (plan_destination plan) then 0 else 1)
         \<and> (\<forall>s z. i \<in> set (zone_of h s z) \<longleftrightarrow> zone d \<noteq> ''outside'' \<and> z = zone d
              \<and> s = (if zone d = ''battlefield'' then controller d else owner d)))"
proof -
  let ?n = "zone_change_counter c + (if keeps_incarnation (zone c) (plan_destination plan) then 0 else 1)"
  have ok: "zones_ok g" "keyed g" "distinct (map fst (players g))" and dicts: "dicts_ok g"
    using assms(1) by (simp_all add: table_ok_def dicts_ok_def)
  have dest: "plan_destination plan \<noteq> ''stack''" using assms(5) by (auto simp: ZONE_CHANGE_DESTINATIONS_def)
  obtain g1 g2 g3 where s1: "\<And>k. steady k g g1" and g2: "leave_origin i g1 = Inr g2"
    and g3: "reset_zone_change i (plan_destination plan) (request_timestamp req) g2 = Inr g3"
    and end_of: "(let g4 = edit_card i (\<lambda>c. c\<lparr>zone := plan_destination plan,
        active_face := (case request_face req of None \<Rightarrow> active_face c | Some f \<Rightarrow> Some f)\<rparr>) g3 in
      if plan_destination plan = ''battlefield'' then enter_battlefield host plan (request_controller req) g4
      else if plan_destination plan = ''outside'' then Inr (edit_card i leave_game g4)
      else enter_owner_zone plan (request_reveal req) g4) = Inr h"
    by (rule commit_move_steps [OF assms(3,4)]) (rule that; blast)
  define g4 where g4: "g4 = edit_card i (\<lambda>c. c\<lparr>zone := plan_destination plan,
      active_face := (case request_face req of None \<Rightarrow> active_face c | Some f \<Rightarrow> Some f)\<rparr>) g3"
  have last: "(if plan_destination plan = ''battlefield'' then enter_battlefield host plan (request_controller req) g4
      else if plan_destination plan = ''outside'' then Inr (edit_card i leave_game g4)
      else enter_owner_zone plan (request_reveal req) g4) = Inr h"
    using end_of unfolding Let_def g4 .
  note between = between_zones [OF ok assms(2) s1 g2 g3 g4]
  obtain c4 where c4: "card_at g4 i = Some c4" and key: "place_key c4 = (i, owner c, plan_destination plan, ?n)"
    using between(3) by blast
  have oid: "object_id c4 = i" and z4: "zone c4 = plan_destination plan" and o4: "owner c4 = owner c"
    using key by (simp_all add: place_key_def)
  consider (field) "plan_destination plan = ''battlefield''" | (out) "plan_destination plan = ''outside''"
    | (own) "plan_destination plan \<noteq> ''battlefield''" "plan_destination plan \<noteq> ''outside''" by blast
  then show ?thesis
  proof cases
    case field
    with last have "enter_battlefield host plan (request_controller req) g4 = Inr h" by simp
    from enter_battlefield_places [OF this assms(4) c4 oid] obtain d where
      d: "place_key d = place_key c4" "player_at g4 (controller d) \<noteq> None"
        "\<And>k. steady k (edit_zone (controller d) ''battlefield'' (\<lambda>ids. ids @ [i]) (edit_card i (\<lambda>_. d) g4)) h"
      by blast
    have zd: "zone d = ''battlefield''" using d(1) z4 field by (simp add: place_key_def)
    have kd: "place_key d = (i, owner c, plan_destination plan, ?n)" using d(1) key by simp
    have steps: "steady k (edit_zone (controller d) (zone d) (\<lambda>ids. ids @ [i]) (edit_card i (\<lambda>_. d) g4)) h" for k
      using d(3) zd by simp
    have own: "zone d \<in> set OWNER_ZONES \<Longrightarrow> controller d = owner d" using zd by (simp add: OWNER_ZONES_def)
    have stays: "zone d \<noteq> ''stack''" "zone d \<noteq> ''outside''" using zd by simp_all
    have at: "card_at g4 i \<noteq> None" using c4 by simp
    note fin = arrives [OF ok(1,2) between(2,1) refl at d(2) inserts_end steps kd stays refl own]
    from fin(6) obtain e where "card_at h i = Some e" "place_key e = (i, owner c, plan_destination plan, ?n)"
      "controller e = controller d" by blast
    with fin(1-5) field apart_dicts [OF fin(3) dicts] show ?thesis
      by (auto simp: place_key_def moves_only_def table_ok_def apart_def)
  next
    case own
    with last have "enter_owner_zone plan (request_reveal req) g4 = Inr h" by simp
    from enter_owner_zone_places [OF this assms(4) c4 oid] obtain f where
      f: "inserts i f" "player_at g4 (owner c4) \<noteq> None"
        "\<And>k. steady k (edit_zone (owner c4) (plan_destination plan) f g4) h" by blast
    have steps: "steady k (edit_zone (owner c4) (zone c4) f (edit_card i (\<lambda>_. c4) g4)) h" for k
      using f(3) z4 c4 by (simp add: edit_card_same)
    have ctl: "zone c4 = ''battlefield'' \<Longrightarrow> owner c4 = controller c4" using own z4 by simp
    have stays: "zone c4 \<noteq> ''stack''" "zone c4 \<noteq> ''outside''" using own z4 dest by simp_all
    have at: "card_at g4 i \<noteq> None" using c4 by simp
    note fin = arrives [OF ok(1,2) between(2,1) refl at f(2,1) steps key stays ctl refl]
    from fin(6) obtain e where "card_at h i = Some e" "place_key e = (i, owner c, plan_destination plan, ?n)" by blast
    with fin(1-5) own o4 apart_dicts [OF fin(3) dicts] show ?thesis
      by (auto simp: place_key_def moves_only_def table_ok_def apart_def)
  next
    case out
    with last have h: "h = edit_card i leave_game g4" by simp
    have lists: "zone_of h s z = (if False \<and> s = [] \<and> z = zone (leave_game c4) then without i (zone_of g s z) @ [i]
        else without i (zone_of g s z))" for s z
      using between(1) by (simp add: h zone_of_def)
    have same: "place_key (leave_game c4) = place_key c4" by (simp add: leave_game_def place_key_def Let_def)
    have zd: "zone (leave_game c4) = ''outside''" using same z4 out by (simp add: place_key_def)
    have away: "apart i g h" unfolding h using between(2) apart_edit apart_trans by blast
    have at: "card_at h i = Some (leave_game c4)" using c4 by (simp add: h)
    have stays: "zone (leave_game c4) \<noteq> ''stack''" "False \<longleftrightarrow> zone (leave_game c4) \<noteq> ''outside''" using zd by simp_all
    note fin = moved_zones_ok [OF ok(1) away lists inserts_end at stays]
    have free: "zone (leave_game c4) = ''battlefield'' \<Longrightarrow> [] = controller (leave_game c4)"
      "zone (leave_game c4) \<in> set OWNER_ZONES \<Longrightarrow> [] = owner (leave_game c4)"
      using zd by (simp_all add: OWNER_ZONES_def)
    have "object_id (leave_game c4) = i" using same oid by (simp add: place_key_def)
    from apart_keyed [OF away ok(2) at this] fin [OF free] away at same key out apart_dicts [OF away dicts]
    show ?thesis by (simp add: place_key_def apart_def moves_only_def table_ok_def)
  qed
qed


text \<open>
  C1. A committed move puts the object where the plan says and leaves every other object where it
  is: in a game whose zones are sound, a move that succeeds ends in one whose zones are sound, the
  object lies in the one list its destination names (its controller's battlefield, a zone of its
  owner, or none outside the game), it is a new incarnation unless a spell became a permanent or the
  move was none, and the other objects keep their zones, owners, controllers and their order.
\<close>

theorem committed_move:
  assumes "table_ok g" and "card_at g i = Some c"
    and "commit_move host plan req g = Inr h" and "plan_object plan = i"
    and "plan_destination plan \<in> set ZONE_CHANGE_DESTINATIONS"
  shows "table_ok h \<and> others_kept i g h
    \<and> (\<forall>s z. without i (zone_of h s z) = without i (zone_of g s z))
    \<and> (\<exists>d. card_at h i = Some d \<and> zone d = plan_destination plan \<and> owner d = owner c
         \<and> zone_change_counter d = zone_change_counter c
             + (if keeps_incarnation (zone c) (plan_destination plan) then 0 else 1)
         \<and> (\<forall>s z. i \<in> set (zone_of h s z) \<longleftrightarrow> zone d \<noteq> ''outside'' \<and> z = zone d
              \<and> s = (if zone d = ''battlefield'' then controller d else owner d)))"
  using commit_move_places [OF assms] by (simp add: moves_only_def)

definition plain_host :: zone_host where
  "plain_host = \<lparr>enters_as_spell_card = (\<lambda>_ _ _. Inr False),
     replace_move = (\<lambda>_ c d req. Inr \<lparr>replaced_destination = d, replaced_controller = request_controller req,
        entry_tapped = request_tapped req, entry_life_payment = 0\<rparr>),
     entry_protector = (\<lambda>_ _ _ _ p. Inr p), aura_preflight = (\<lambda>_ _ _ d _. Inr (Some (d, None))),
     resolve_attachment = (\<lambda>_ _ _. None), has_world_supertype = (\<lambda>_ _. False),
     pin_departure = (\<lambda>_ g. Inr g), finish_entry = (\<lambda>_ g. Inr g)\<rparr>"

definition plain_request :: move_request where
  "plain_request = \<lparr>request_controller = None, request_tapped = False, request_face = None,
     request_protector = None, request_timestamp = None, request_position = PNone, request_reveal = [],
     request_reason = ''rule'', request_log = True, request_kind = Ordinary\<rparr>"

definition dying_bear :: zone_move_plan where
  "dying_bear = \<lparr>plan_object = ''bear'', requested_destination = ''graveyard'', plan_destination = ''graveyard'',
     plan_origin = ''battlefield'', origin_identity_public = True, plan_position = None, plan_tapped = False,
     plan_life_payment = None, plan_protector = None, plan_aura = None\<rparr>"

lemma small_table_keyed: "keyed small_table"
  by (auto simp: keyed_def small_table_def new_card_def split: if_splits)

lemma small_table_zones: "zones_ok small_table"
proof -
  have listed: "check_zones small_table = Inr ()" by code_simp
  have "list_all (\<lambda>ic. check_place small_table ic = Inr ()) (cards small_table)" by code_simp
  then have "check_place small_table (i, c) = Inr ()" if "card_at small_table i = Some c" for i c
    using that by (auto simp: list_all_iff dest: map_of_SomeD)
  with listed show ?thesis
    using check_zones_iff [OF small_table_dicts] check_place_iff [OF small_table_dicts] by (auto simp: zones_ok_def)
qed

lemma small_table_ok: "table_ok small_table"
  by (simp add: table_ok_def small_table_dicts small_table_keyed small_table_zones)

lemma committed_move_witness:
  "(case commit_move plain_host dying_bear plain_request small_table of
      Inl _ \<Rightarrow> False
    | Inr h \<Rightarrow> zones_ok h \<and> (\<exists>d. card_at h ''bear'' = Some d \<and> zone d = ''graveyard'' \<and> zone_change_counter d = 1))"
proof -
  have dest: "plan_destination dying_bear \<in> set ZONE_CHANGE_DESTINATIONS" by code_simp
  have runs: "(case commit_move plain_host dying_bear plain_request small_table of Inl _ \<Rightarrow> False | Inr _ \<Rightarrow> True)"
    by code_simp
  have obj: "plan_object dying_bear = ''bear''" by code_simp
  show ?thesis
  proof (cases "commit_move plain_host dying_bear plain_request small_table")
    case (Inl e)
    with runs show ?thesis by simp
  next
    case (Inr h)
    have at: "card_at small_table ''bear'' = Some ((new_card ''bear'' ''B'' ''battlefield'')\<lparr>controller := ''A''\<rparr>)"
      by (simp add: small_table_def)
    have moved: "keeps_incarnation ''battlefield'' ''graveyard'' = False" by code_simp
    have card: "zone (new_card ''bear'' ''B'' ''battlefield'') = ''battlefield''"
      "zone_change_counter (new_card ''bear'' ''B'' ''battlefield'') = 0" by code_simp+
    have grave: "plan_destination dying_bear = ''graveyard''" by code_simp
    show ?thesis unfolding Inr sum.case
      using committed_move [OF small_table_ok at Inr obj dest]
      by (auto simp: moved card grave table_ok_def)
  qed
qed

section \<open>A change of control\<close>

lemma change_control_steps:
  assumes "change_control i new reason g = Inr h" and "card_at g i = Some c"
  obtains g1 where "zone c = ''battlefield''" "\<And>k. steady k g g1" "player_at g1 (controller c) \<noteq> None"
    "player_at g1 new \<noteq> None"
    "steady i (edit_card i (\<lambda>c. c\<lparr>controller := new\<rparr>) (edit_zone new ''battlefield'' (\<lambda>ids. ids @ [i])
       (edit_zone (controller c) ''battlefield'' (remove1 i) g1))) h"
    "map_option controller (card_at h i) = Some new"
proof -
  from assms obtain g1 where bf: "zone c = ''battlefield''"
    and g1: "remove_object_from_combat i ''control changed'' g = Inr g1"
    and rest: "ebind (option_raise (NoOwnerZone (controller c) ''battlefield'')
              (Option.bind (player_at g1 (controller c)) (\<lambda>p. map_of (zones p) ''battlefield''))) (\<lambda>ids.
     ebind (ensure (i \<in> set ids) (NotInZone (card_ref c))) (\<lambda>_.
     let g2 = edit_zone (controller c) ''battlefield'' (remove1 i) g1 in
     ebind (option_raise (NoOwnerZone new ''battlefield'')
              (Option.bind (player_at g2 new) (\<lambda>p. map_of (zones p) ''battlefield''))) (\<lambda>_.
     let g3 = edit_card i (\<lambda>c. c\<lparr>controller := new\<rparr>) (edit_zone new ''battlefield'' (\<lambda>ids. ids @ [i]) g2) in
     ebind (reraise ObjectFault (record_control_change i g3)) (\<lambda>g4.
     Inr (log_event ((new_entry None ''control.change''
            (''Control of '' @ card_ref c @ '' changed '' @ controller c @ '' -> '' @ new @ ''.'') 2)
          \<lparr>log_details := [(''object'', PStr (card_ref c)), (''from'', PStr (controller c)), (''to'', PStr new),
             (''reason'', PStr reason)],
           log_objects := [i], log_players := [controller c, new]\<rparr>) g4))))) = Inr h"
    unfolding change_control_def Let_def [of "controller _"] ebind_eq_Inr [of _ _ h]
    by (auto simp: option_raise_eq_Inr ebind_ensure_Inr ebind_eq_Inr)
  let ?g2 = "edit_zone (controller c) ''battlefield'' (remove1 i) g1"
  let ?g3 = "edit_card i (\<lambda>c. c\<lparr>controller := new\<rparr>) (edit_zone new ''battlefield'' (\<lambda>ids. ids @ [i]) ?g2)"
  from rest obtain p q where p: "player_at g1 (controller c) = Some p" and q: "player_at ?g2 new = Some q"
    by (auto simp: ebind_eq_Inr option_raise_eq_Inr Let_def bind_eq_Some_conv)
  from rest obtain g4 l where g4: "record_control_change i ?g3 = Inr g4" and h: "h = log_event l g4"
    by (auto simp: ebind_eq_Inr option_raise_eq_Inr Let_def bind_eq_Some_conv)
  obtain g5 ts where g5: "(if control_history_version ?g3 \<noteq> None then next_timestamp ?g3 else (?g3, 0)) = (g5, ts)"
    by (cases "if control_history_version ?g3 \<noteq> None then next_timestamp ?g3 else (?g3, 0)")
  from g4 obtain d e where d: "card_at g5 i = Some d" and e: "record_battlefield_acquisition g5 ts d = Inr e"
    and out: "g4 = edit_card i (\<lambda>_. e) g5"
    unfolding record_control_change_def g5 prod.case by (auto simp: ebind_eq_Inr split: option.splits)
  have key: "place_key e = place_key d \<and> controller e = controller d"
    using e by (auto simp: record_battlefield_acquisition_def record_control_acquisition_def place_key_def
        ebind_eq_Inr Let_def)
  have s5: "steady k ?g3 g5" for k
    using g5 by (auto simp: next_timestamp_def steady_refl split: if_splits intro: steady_same)
  have s4: "steady k g5 g4" for k unfolding out using key d by (intro steady_edit_card) auto
  have s: "steady k ?g3 h" for k unfolding h by (rule steady_trans [OF steady_trans [OF s5 s4] steady_log])
  have at: "\<And>k. steady k g g1" by (rule steady_combat [OF g1])
  have "player_at g1 new \<noteq> None" using q by (auto simp: edit_zone_def split: if_splits)
  moreover have "map_option controller (card_at h i) = Some new"
  proof -
    from steady_card [OF at assms(2)] obtain c1 where "card_at g1 i = Some c1" by blast
    then have "card_at ?g3 i = Some (c1\<lparr>controller := new\<rparr>)" by simp
    from steady_card [OF s [of "CHR ''x'' # i"] this] show ?thesis by fastforce
  qed
  ultimately show ?thesis using that [OF bf at _ _ s] p by simp
qed

lemma change_control_places:
  assumes "table_ok g" and "card_at g i = Some c" and "change_control i new reason g = Inr h"
  shows "moves_only i g h \<and> (\<forall>s z. i \<in> set (zone_of h s z) \<longleftrightarrow> s = new \<and> z = ''battlefield'')
    \<and> (\<exists>d. card_at h i = Some d \<and> place_key d = place_key c \<and> controller d = new)"
proof -
  let ?bf = "''battlefield''"
  have ok: "zones_ok g" "keyed g" "dicts_ok g" using assms(1) by (simp_all add: table_ok_def)
  from change_control_steps [OF assms(3,2)] obtain g1 where bf: "zone c = ?bf" and s1: "\<And>k. steady k g g1"
    and seats: "player_at g1 (controller c) \<noteq> None" "player_at g1 new \<noteq> None"
    and s: "steady i (edit_card i (\<lambda>c. c\<lparr>controller := new\<rparr>) (edit_zone new ?bf (\<lambda>ids. ids @ [i])
       (edit_zone (controller c) ?bf (remove1 i) g1))) h"
    and ctl: "map_option controller (card_at h i) = Some new" by blast
  let ?g2 = "edit_zone (controller c) ?bf (remove1 i) g1"
  let ?g3 = "edit_card i (\<lambda>c. c\<lparr>controller := new\<rparr>) (edit_zone new ?bf (\<lambda>ids. ids @ [i]) ?g2)"
  have placed: "placed g i c" and dist: "distinct (zone_of g u y)" for u y
    using ok assms(2) by (simp_all add: zones_ok_def)
  with bf have only: "i \<in> set (zone_of g u y) \<longleftrightarrow> u = controller c \<and> y = ?bf" for u y
    by (auto simp: placed_def)
  have g2: "zone_of ?g2 u y = without i (zone_of g u y)" for u y
    using edit_zone_lists [of g1 "controller c" ?bf "remove1 i" u y] seats(1) only [of u y] dist
      steady_zone_of [OF s1]
    by (auto simp: without_remove1 without_idle)
  have known: "player_at ?g2 new \<noteq> None" using seats by (simp add: edit_zone_def)
  have "zone_of ?g3 u y = zone_of (edit_zone new ?bf (\<lambda>ids. ids @ [i]) ?g2) u y" for u y
    by (simp add: zone_of_def)
  then have "zone_of ?g3 u y = (if u = new \<and> y = ?bf then without i (zone_of g u y) @ [i]
      else without i (zone_of g u y))" for u y
    using edit_zone_lists [OF known, of ?bf "\<lambda>ids. ids @ [i]" u y] g2 by simp
  then have lists: "zone_of h u y = (if True \<and> u = new \<and> y = ?bf then without i (zone_of g u y) @ [i]
      else without i (zone_of g u y))" for u y
    using steady_zone_of [OF s] by simp
  from steady_card [OF s1 assms(2)] obtain c1 where "card_at g1 i = Some c1" "place_key c1 = place_key c" by blast
  then have "card_at ?g3 i = Some (c1\<lparr>controller := new\<rparr>)" "place_key (c1\<lparr>controller := new\<rparr>) = place_key c"
    by (simp_all add: place_key_def)
  with steady_card [OF s] obtain d where d: "card_at h i = Some d" "place_key d = place_key c" by metis
  with ctl have cd: "controller d = new" by simp
  have zd: "zone d = ?bf" "object_id d = i" using d(2) bf ok(2) assms(2) by (auto simp: place_key_def keyed_def)
  have "apart i g1 ?g3" by (rule apart_trans [OF apart_trans [OF apart_edit_zone apart_edit_zone] apart_edit])
  with steady_apart [OF s1] steady_apart [OF s] have away: "apart i g h" using apart_trans by blast
  have place: "zone d = ?bf \<Longrightarrow> new = controller d" "zone d \<in> set OWNER_ZONES \<Longrightarrow> new = owner d"
    "zone d \<noteq> ''stack''" "True \<longleftrightarrow> zone d \<noteq> ''outside''"
    using zd cd by (simp_all add: OWNER_ZONES_def)
  note fin = moved_zones_ok [OF ok(1) away lists [folded zd(1)] inserts_end d(1) place(3,4,1,2)]
  from fin apart_keyed [OF away ok(2) d(1) zd(2)] away d cd zd(1) apart_dicts [OF away ok(3)]
  show ?thesis by (auto simp: apart_def moves_only_def table_ok_def)
qed

text \<open>
  C19. A change of control moves a permanent from its old controller's battlefield to the end of the
  new controller's, and nothing else: in a game whose zones are sound, a change that succeeds ends
  in one whose zones are sound, the permanent keeps its identity, owner, zone and incarnation and is
  controlled by the new seat, it is listed on that seat's battlefield only, and the other objects
  keep their zones, owners, controllers and their order.
\<close>

theorem control_changed:
  assumes "table_ok g" and "card_at g i = Some c" and "change_control i new reason g = Inr h"
  shows "table_ok h \<and> others_kept i g h
    \<and> (\<forall>s z. without i (zone_of h s z) = without i (zone_of g s z))
    \<and> (\<forall>s z. i \<in> set (zone_of h s z) \<longleftrightarrow> s = new \<and> z = ''battlefield'')
    \<and> (\<exists>d. card_at h i = Some d \<and> place_key d = place_key c \<and> controller d = new)"
  using change_control_places [OF assms] by (simp add: moves_only_def)

lemma control_changed_witness:
  "(case change_control ''bear'' ''B'' ''exchange'' small_table of
      Inl _ \<Rightarrow> False
    | Inr h \<Rightarrow> zones_ok h \<and> ''bear'' \<in> set (zone_of h ''B'' ''battlefield'')
        \<and> ''bear'' \<notin> set (zone_of h ''A'' ''battlefield''))"
proof (cases "change_control ''bear'' ''B'' ''exchange'' small_table")
  case (Inl e)
  have "(case change_control ''bear'' ''B'' ''exchange'' small_table of Inl _ \<Rightarrow> False | Inr _ \<Rightarrow> True)"
    by code_simp
  with Inl show ?thesis by simp
next
  case (Inr h)
  have at: "card_at small_table ''bear'' = Some ((new_card ''bear'' ''B'' ''battlefield'')\<lparr>controller := ''A''\<rparr>)"
    by (simp add: small_table_def)
  show ?thesis unfolding Inr sum.case
    using control_changed [OF small_table_ok at Inr] by (simp add: table_ok_def)
qed

section \<open>Sequences of zone operations\<close>

text \<open>
  Operations that move only the object they are about, whatever they are: over a sequence of them
  the table stays sound and the objects that no operation is about keep their place and their
  order.
\<close>

locale table_steps =
  fixes step :: "'op \<Rightarrow> game_state \<Rightarrow> 'e + game_state" and about :: "'op \<Rightarrow> string"
    and allowed :: "'op \<Rightarrow> bool"
  assumes moves: "table_ok g \<Longrightarrow> allowed c \<Longrightarrow> step c g = Inr h \<Longrightarrow> moves_only (about c) g h"
begin

lemma run_ok:
  assumes "efold (\<lambda>g c. step c g) g cs = Inr h" and "table_ok g" and "list_all allowed cs"
  shows "table_ok h"
  using assms
proof (induction cs arbitrary: g)
  case (Cons c cs)
  then obtain k where "step c g = Inr k" "efold (\<lambda>g c. step c g) k cs = Inr h" by (auto simp: ebind_eq_Inr)
  with Cons moves [of g c k] show ?case by (simp add: moves_only_def)
qed simp

lemma run_keeps:
  assumes "efold (\<lambda>g c. step c g) g cs = Inr h" and "table_ok g" and "list_all allowed cs"
    and "j \<notin> about ` set cs"
  shows "map_option place_key (card_at h j) = map_option place_key (card_at g j)
    \<and> map_option controller (card_at h j) = map_option controller (card_at g j)
    \<and> (j \<in> set (zone_of h s z) \<longleftrightarrow> j \<in> set (zone_of g s z))"
  using assms
proof (induction cs arbitrary: g)
  case (Cons c cs)
  then obtain k where k: "step c g = Inr k" "efold (\<lambda>g c. step c g) k cs = Inr h" by (auto simp: ebind_eq_Inr)
  have one: "moves_only (about c) g k" using moves [of g c k] Cons.prems k(1) by simp
  have j: "j \<noteq> about c" using Cons.prems(4) by auto
  have "set (without (about c) (zone_of k s z)) = set (without (about c) (zone_of g s z))"
    using one by (simp add: moves_only_def)
  with j have "j \<in> set (zone_of k s z) \<longleftrightarrow> j \<in> set (zone_of g s z)" by auto
  moreover have "map_option place_key (card_at k j) = map_option place_key (card_at g j)
      \<and> map_option controller (card_at k j) = map_option controller (card_at g j)"
    using one j by (simp add: moves_only_def others_kept_def)
  ultimately show ?case
    using Cons.IH [OF k(2)] Cons.prems one by (simp add: moves_only_def)
qed simp

lemma run_order:
  assumes "efold (\<lambda>g c. step c g) g cs = Inr h" and "table_ok g" and "list_all allowed cs"
  shows "filter (\<lambda>j. j \<notin> about ` set cs) (zone_of h s z) = filter (\<lambda>j. j \<notin> about ` set cs) (zone_of g s z)"
  using assms
proof (induction cs arbitrary: g)
  case (Cons c cs)
  then obtain k where k: "step c g = Inr k" "efold (\<lambda>g c. step c g) k cs = Inr h" by (auto simp: ebind_eq_Inr)
  have one: "moves_only (about c) g k" using moves [of g c k] Cons.prems k(1) by simp
  let ?rest = "\<lambda>j. j \<notin> about ` set cs"
  have split: "filter (\<lambda>j. j \<notin> about ` set (c # cs)) ids = without (about c) (filter ?rest ids)"
    "without (about c) (filter ?rest ids) = filter ?rest (without (about c) ids)" for ids
    by (simp_all add: without_def conj_commute)
  have "filter ?rest (zone_of h s z) = filter ?rest (zone_of k s z)"
    using Cons.IH [OF k(2)] Cons.prems one by (simp add: moves_only_def)
  moreover have "without (about c) (zone_of k s z) = without (about c) (zone_of g s z)"
    using one by (simp add: moves_only_def)
  ultimately show ?case unfolding split(1) by (metis split(2))
qed simp

end

datatype zone_step = MoveStep zone_move_plan move_request | ControlStep string string string

fun zone_step_run :: "zone_host \<Rightarrow> zone_step \<Rightarrow> game_state \<Rightarrow> zone_error + game_state" where
  "zone_step_run host (MoveStep plan req) g = commit_move host plan req g"
| "zone_step_run host (ControlStep i new reason) g = change_control i new reason g"

fun zone_step_object :: "zone_step \<Rightarrow> string" where
  "zone_step_object (MoveStep plan req) = plan_object plan"
| "zone_step_object (ControlStep i new reason) = i"

fun zone_step_allowed :: "zone_step \<Rightarrow> bool" where
  "zone_step_allowed (MoveStep plan req) \<longleftrightarrow> plan_destination plan \<in> set ZONE_CHANGE_DESTINATIONS"
| "zone_step_allowed (ControlStep i new reason) \<longleftrightarrow> True"

lemma zone_step_card:
  assumes "zone_step_run host c g = Inr h"
  obtains d where "card_at g (zone_step_object c) = Some d"
proof (cases c)
  case (MoveStep plan req)
  with assms have "commit_move host plan req g = Inr h" by simp
  from commit_move_steps [OF this refl] obtain g1 g2 where
    g1: "steady [] g g1" "leave_origin (plan_object plan) g1 = Inr g2" by metis
  then obtain d1 where "card_at g1 (plan_object plan) = Some d1"
    by (cases "card_at g1 (plan_object plan)") (simp_all add: leave_origin_def)
  moreover have "card_at g1 (plan_object plan) = None \<longleftrightarrow> card_at g (plan_object plan) = None"
    using g1(1) by (intro card_keys) (simp add: steady_def)
  ultimately show ?thesis using that MoveStep by auto
next
  case (ControlStep i new reason)
  with assms that show ?thesis by (auto simp: change_control_def ebind_eq_Inr option_raise_eq_Inr)
qed

interpretation zone_steps: table_steps "zone_step_run host" zone_step_object zone_step_allowed for host
proof unfold_locales
  fix g c h
  assume g: "table_ok g" and c: "zone_step_allowed c" and run: "zone_step_run host c g = Inr h"
  from zone_step_card [OF run] obtain d where d: "card_at g (zone_step_object c) = Some d" .
  show "moves_only (zone_step_object c) g h"
  proof (cases c)
    case (MoveStep plan req)
    with commit_move_places [OF g d, of host plan req h] c run show ?thesis by simp
  next
    case (ControlStep i new reason)
    with change_control_places [OF g d, of new reason h] run show ?thesis by simp
  qed
qed

text \<open>
  C2. The engine's own zone checks pass after any sequence of committed moves and control changes,
  and what the sequence is not about stays: starting from a sound table, however the steps are
  ordered, no object is lost, duplicated or listed in a zone it is not in, and every object that no
  step is about keeps its zone, owner, controller and incarnation; those objects also keep their
  order in every zone list.
\<close>

theorem zone_history_sound:
  assumes "table_ok g" and "list_all zone_step_allowed steps"
    and "efold (\<lambda>g c. zone_step_run host c g) g steps = Inr h"
  shows "check_zones h = Inr () \<and> (\<forall>i c. card_at h i = Some c \<longrightarrow> check_place h (i, c) = Inr ())
    \<and> (\<forall>j. j \<notin> zone_step_object ` set steps \<longrightarrow>
         map_option place_key (card_at h j) = map_option place_key (card_at g j)
         \<and> map_option controller (card_at h j) = map_option controller (card_at g j))
    \<and> (\<forall>s z. filter (\<lambda>j. j \<notin> zone_step_object ` set steps) (zone_of h s z)
         = filter (\<lambda>j. j \<notin> zone_step_object ` set steps) (zone_of g s z))"
proof -
  have "table_ok h" by (rule zone_steps.run_ok [OF assms(3,1,2)])
  then have dicts: "dicts_ok h" and zones: "zones_ok h" by (simp_all add: table_ok_def)
  have "check_zones h = Inr ()" using zones check_zones_iff [OF dicts] by (simp add: zones_ok_def)
  moreover have "check_place h (i, c) = Inr ()" if "card_at h i = Some c" for i c
    using zones that check_place_iff [OF dicts] by (simp add: zones_ok_def)
  ultimately show ?thesis
    using zone_steps.run_keeps [OF assms(3,1,2)] zone_steps.run_order [OF assms(3,1,2)] by blast
qed

lemma zone_history_sound_witness:
  "(case efold (\<lambda>g c. zone_step_run plain_host c g) small_table
        [ControlStep ''bear'' ''B'' ''exchange'', MoveStep dying_bear plain_request] of
      Inl _ \<Rightarrow> False
    | Inr h \<Rightarrow> check_zones h = Inr () \<and> filter (\<lambda>j. j \<noteq> ''bear'') (zone_of h ''A'' ''library'') = [''elf'', ''ox''])"
proof (cases "efold (\<lambda>g c. zone_step_run plain_host c g) small_table
    [ControlStep ''bear'' ''B'' ''exchange'', MoveStep dying_bear plain_request]")
  case (Inl e)
  have "(case efold (\<lambda>g c. zone_step_run plain_host c g) small_table
      [ControlStep ''bear'' ''B'' ''exchange'', MoveStep dying_bear plain_request] of Inl _ \<Rightarrow> False | Inr _ \<Rightarrow> True)"
    by code_simp
  with Inl show ?thesis by simp
next
  case (Inr h)
  have allowed: "list_all zone_step_allowed [ControlStep ''bear'' ''B'' ''exchange'', MoveStep dying_bear plain_request]"
    by code_simp
  have obj: "zone_step_object ` set [ControlStep ''bear'' ''B'' ''exchange'', MoveStep dying_bear plain_request] = {''bear''}"
    by (simp add: dying_bear_def)
  have lib: "filter (\<lambda>j. j \<notin> {''bear''}) (zone_of small_table ''A'' ''library'') = [''elf'', ''ox'']" by code_simp
  show ?thesis unfolding Inr sum.case
    using zone_history_sound [OF small_table_ok allowed Inr] unfolding obj lib [symmetric] by simp
qed

end
