(* ===== verification/Turn_Pump.thy ===== *)
theory Turn_Pump imports Turn_Priority Trigger_Processing Game_Invariants
begin

text \<open>
  The loop that drives a game from one decision to the next and the command that answers one
  (\<open>quorune/turn_priority_owner.py\<close>: \<open>pump\<close>, \<open>record_action_opportunity\<close>, \<open>issue_priority\<close>,
  \<open>complete_priority\<close>; \<open>quorune/engine.py\<close>: \<open>submit\<close>, \<open>transaction\<close>, \<open>_dispatch_completed_decision\<close>,
  \<open>_semantic_pause_annotation\<close>).

  \<open>max_transitions\<close> is the fuel of the loop, as in the source: the loop that runs out of it raises.
  The offers of actions, stabilisation, entering a step and the completion of the decisions other
  than priority are callbacks; a random source is the list of the values it will return.
\<close>

datatype pump_error =
    PumpEngine engine_error
  | PumpPermission permission_error
  | PumpInvariant invariant_error
  | ActionWithoutId
  | TransitionLimit
  | NoActor
  | NoAnswer string
  | AnswerWithoutAction
  | UnknownYield
  | UnconfirmedConcession
  | UnsupportedAction
  | UnsupportedDecision string
  | PumpHost string

record pump_host =
  offers :: priority_host
  enter_now :: "game_state \<Rightarrow> engine_error + game_state"

section \<open>Windows\<close>

definition semantic_pause_annotation :: "game_state \<Rightarrow> (string, pyval) dict option" where
  "semantic_pause_annotation g =
     find (\<lambda>d. dict_get PNone d ''kind'' = PStr ''semantic_unsupported''
            \<and> truthy (dict_get (PBool True) d ''active''))
       (rev (map as_dict (game_annotations g)))"

fun as_list :: "pyval \<Rightarrow> pyval list" where
  "as_list (PList vs) = vs"
| "as_list _ = []"

definition is_offered :: "(string, pyval) dict \<Rightarrow> (string, pyval) dict \<Rightarrow> bool" where
  "is_offered hints action \<longleftrightarrow>
     dict_get PNone action ''id'' \<notin> {PStr ''pass'', PStr ''concede''}
     \<and> dict_get PNone action ''kind'' \<noteq> PStr ''mana''
     \<and> (dict_get PNone action ''kind'' \<noteq> PStr ''activate''
        \<or> list_ex (\<lambda>item. py_equal (dict_get PNone (as_dict item) ''s'') (dict_get PNone action ''source'')
              \<and> py_equal (dict_get PNone (as_dict item) ''a'') (dict_get PNone action ''ability''))
            (as_list (dict_get (PList []) hints ''abilities'')))"

definition meaningful_ids :: "(string, pyval) dict \<Rightarrow> pump_error + pyval list" where
  "meaningful_ids hints =
     emap (\<lambda>action. option_raise ActionWithoutId (map_of action ''id''))
       (filter (is_offered hints) (map as_dict (as_list (dict_get (PList []) hints ''actions''))))"

definition opportunity_row ::
  "string \<Rightarrow> (string, pyval) dict \<Rightarrow> string \<Rightarrow> string \<Rightarrow> string option \<Rightarrow> pyval list \<Rightarrow> game_state
     \<Rightarrow> (string, pyval) dict" where
  "opportunity_row who hints signature outcome why ids g =
     [(''sequence'', PInt (opportunity_sequence g)), (''revision'', PInt (revision g)),
      (''event_sequence'', PInt (event_sequence g)), (''turn_sequence'', PInt (turn_sequence g)),
      (''active_player'', opt_str (active_player g)), (''phase'', PStr (game_phase g)),
      (''step'', PStr (game_step g)), (''priority_epoch'', PInt (priority_epoch g)), (''seat'', PStr who),
      (''action_signature'', PStr signature),
      (''action_signature_algorithm'', PStr ''meaningful-action-signature/v1''),
      (''meaningful_action_ids'', PList ids), (''meaningful_action_count'', PInt (int (length ids))),
      (''meaningful_actions_exist'', PBool (ids \<noteq> [])),
      (''pilot_task_issued'', PBool (outcome = ''pilot_task_issued'')),
      (''safe_yield_covered'', PBool (outcome = ''safe_yield'')),
      (''pass_only_auto_pass'', PBool (outcome = ''pass_only_auto_pass'')),
      (''ordered_plan_covered'', PBool (outcome = ''ordered_plan'')),
      (''incorrectly_suppressed'', PBool (outcome = ''incorrectly_suppressed'')),
      (''outcome'', PStr outcome), (''yield_invalidated_by'', opt_str why),
      (''diagnostic'', (let d = dict_get PNone hints ''diagnostic'' in if truthy d then d else PDict []))]"

definition record_action_opportunity ::
  "string \<Rightarrow> (string, pyval) dict \<Rightarrow> string \<Rightarrow> string \<Rightarrow> string option \<Rightarrow> game_state \<Rightarrow> pump_error + game_state" where
  "record_action_opportunity who hints signature outcome why g =
     (let g1 = g\<lparr>opportunity_sequence := opportunity_sequence g + 1\<rparr> in
      ebind (meaningful_ids hints) (\<lambda>ids.
      Inr (g1\<lparr>action_opportunities := action_opportunities g1
               @ [PDict (opportunity_row who hints signature outcome why ids g1)]\<rparr>)))"

text \<open>\<open>row["decision_id"] = ...\<close>: the row that was recorded last.\<close>

definition name_decision :: "string \<Rightarrow> game_state \<Rightarrow> game_state" where
  "name_decision i g =
     g\<lparr>action_opportunities := butlast (action_opportunities g)
         @ [PDict (AList.update ''decision_id'' (PStr i) (as_dict (last (action_opportunities g))))]\<rparr>"

definition PRIORITY_ACTIONS :: "string list" where
  "PRIORITY_ACTIONS = [''pass'', ''play_land'', ''cast'', ''activate'', ''turn_face_up'', ''undo_mana'', ''concede'']"

definition priority_payload :: "(string, pyval) dict \<Rightarrow> game_state \<Rightarrow> (string, pyval) dict" where
  "priority_payload hints g =
     [(''stack'', PList (map (\<lambda>s. PDict [(''id'', PStr (stack_ref s)), (''label'', PStr (stack_label s)),
         (''controller'', PStr (stack_controller s))]) (rev (stack_items g)))),
      (''legal'', PDict hints), (''yield_modes'', PList (map PStr (''none'' # YIELD_MODES)))]"

definition issue_priority ::
  "string \<Rightarrow> (string, pyval) dict \<Rightarrow> string list \<Rightarrow> game_state \<Rightarrow> pump_error + game_state \<times> decision_group" where
  "issue_priority who hints draws g =
     ebind (reraise PumpPermission
       (issue ''priority'' ''pilot'' [who] PRIORITY_ACTIONS [(who, priority_payload hints g)] False [] draws g))
       (\<lambda>(h, d, _). Inr (h, d))"

definition count_window :: "string \<Rightarrow> string \<Rightarrow> game_state \<Rightarrow> pump_error + game_state" where
  "count_window who key g =
     ebind (option_raise (PumpEngine (UnknownSeat who)) (player_at g who)) (\<lambda>p.
     Inr (edit_player who (increment_optimization key) g))"

definition open_window :: "pump_host \<Rightarrow> string \<Rightarrow> game_state \<Rightarrow> pump_error + game_state" where
  "open_window host who g =
     ebind (count_window who ''priority_windows_considered'' g) (\<lambda>g1.
     if stack_items g1 \<noteq> [] then
       count_window who (if signature_has_actions (offers host) g who then ''stack_interaction_windows_created''
                         else ''stack_interaction_windows_auto_passed'') g1
     else Inr g1)"

text \<open>
  \<open>CommanderEngine._priority_window_empty\<close>, which counts special actions; the loop does not ask it but
  \<open>signature_has_actions\<close>, which does not.
\<close>

definition priority_window_empty :: "pump_host \<Rightarrow> game_state \<Rightarrow> string \<Rightarrow> bool" where
  "priority_window_empty host g who \<longleftrightarrow>
     \<not> list_ex (\<lambda>k. truthy (dict_get PNone (action_hints (offers host) g who) k))
         [''cast'', ''lands'', ''abilities'', ''special_actions'']"

definition skip_window :: "pump_host \<Rightarrow> string \<Rightarrow> (string, pyval) dict \<Rightarrow> string \<Rightarrow> string list \<Rightarrow> string
     \<Rightarrow> string option \<Rightarrow> game_state \<Rightarrow> pump_error + game_state" where
  "skip_window host who hints signature counters outcome why g =
     ebind (efold (\<lambda>h key. count_window who key h) g counters) (\<lambda>g1.
     ebind (record_action_opportunity who hints signature outcome why g1) (\<lambda>g2.
     reraise PumpEngine (pass_priority (offers host) who True g2)))"

definition ask_window :: "string \<Rightarrow> (string, pyval) dict \<Rightarrow> string \<Rightarrow> string option \<Rightarrow> string list
     \<Rightarrow> game_state \<Rightarrow> pump_error + game_state" where
  "ask_window who hints signature why draws g =
     ebind (record_action_opportunity who hints signature ''pilot_task_issued'' why g) (\<lambda>g1.
     ebind (issue_priority who hints draws g1) (\<lambda>(g2, d). Inr (name_decision (decision_id d) g2)))"

text \<open>The flag says whether the loop goes on.\<close>

definition priority_window ::
  "pump_host \<Rightarrow> string list \<Rightarrow> string \<Rightarrow> game_state \<Rightarrow> pump_error + game_state \<times> bool" where
  "priority_window host draws who g =
     (let hints = action_hints (offers host) g who;
          signature = meaningful_signature (offers host) g who;
          meaningful = signature_has_actions (offers host) g who in
      ebind (open_window host who g) (\<lambda>g1.
      ebind (reraise PumpEngine (can_auto_pass (offers host) who signature meaningful g1)) (\<lambda>(g2, covered, why).
      if auto_pass_empty_priority (config g2) \<and> \<not> meaningful \<and> \<not> manual_active_main_phase_window g2 who then
        ebind (skip_window host who hints signature [''pass_only_windows_skipped'', ''suppressed_empty_windows'']
                 ''pass_only_auto_pass'' why g2) (\<lambda>h. Inr (h, True))
      else if covered then
        ebind (skip_window host who hints signature [''yield_covered_windows''] ''safe_yield'' None g2)
          (\<lambda>h. Inr (h, True))
      else ebind (ask_window who hints signature why draws g2) (\<lambda>h. Inr (h, False)))))"

section \<open>The loop\<close>

definition at_rest :: "game_state \<Rightarrow> bool" where
  "at_rest g \<longleftrightarrow> game_over g \<or> pending_decision g \<noteq> None \<or> semantic_pause_annotation g \<noteq> None
     \<or> \<not> game_started g"

definition pump_turn :: "pump_host \<Rightarrow> string list \<Rightarrow> game_state \<Rightarrow> pump_error + game_state \<times> bool" where
  "pump_turn host draws g =
     (if at_rest g then Inr (g, False)
      else if priority_player g = None \<and> active_cleanup_frame g \<noteq> None then
        ebind (reraise PumpEngine (grant_priority (offers host) (active_player g) g)) (\<lambda>h. Inr (h, True))
      else case priority_player g of
          Some who \<Rightarrow> priority_window host draws who g
        | None \<Rightarrow> ebind (reraise PumpEngine (enter_now host g)) (\<lambda>h. Inr (h, True)))"

fun pump :: "pump_host \<Rightarrow> string list \<Rightarrow> nat \<Rightarrow> game_state \<Rightarrow> pump_error + game_state" where
  "pump host draws 0 g = Inl TransitionLimit"
| "pump host draws (Suc n) g =
     ebind (pump_turn host draws g) (\<lambda>(h, more). if more then pump host draws n h else Inr h)"

definition MAX_TRANSITIONS :: nat where
  "MAX_TRANSITIONS = 1000"

section \<open>Commands\<close>

record command_host =
  pumping :: pump_host
  land_entry :: "string \<Rightarrow> (string, pyval) dict \<Rightarrow> string \<Rightarrow> game_state \<Rightarrow> pump_error + game_state"
  mana_choice_action :: "string \<Rightarrow> string \<Rightarrow> (string, pyval) dict \<Rightarrow> string \<Rightarrow> game_state \<Rightarrow> pump_error + game_state"
  undo_activation :: "string \<Rightarrow> (string, pyval) dict \<Rightarrow> game_state \<Rightarrow> pump_error + game_state"
  eliminate :: "string list \<Rightarrow> string \<Rightarrow> game_state \<Rightarrow> pump_error + game_state"
  complete_other :: "decision_group \<Rightarrow> game_state \<Rightarrow> pump_error + game_state"

definition clear_mana_undo_stack :: "string \<Rightarrow> game_state \<Rightarrow> pump_error + game_state" where
  "clear_mana_undo_stack who g =
     ebind (option_raise (PumpEngine (UnknownSeat who)) (player_at g who)) (\<lambda>_.
     Inr (edit_player who (\<lambda>p. p\<lparr>stats := AList.delete ''reversible_mana_activations'' (stats p)\<rparr>) g))"

text \<open>\<open>str(value or "none")\<close>: a yield that is no text is none, or the text of no mode.\<close>

fun requested_yield :: "pyval \<Rightarrow> pump_error + string option" where
  "requested_yield (PStr s) = Inr (Some s)"
| "requested_yield v = (if truthy v then Inl UnknownYield else Inr None)"

definition complete_priority :: "command_host \<Rightarrow> decision_group \<Rightarrow> game_state \<Rightarrow> pump_error + game_state" where
  "complete_priority host d g =
     (case actors d of
        [] \<Rightarrow> Inl NoActor
      | who # _ \<Rightarrow>
          ebind (option_raise (NoAnswer who) (map_of (responses d) who)) (\<lambda>answer.
          ebind (option_raise AnswerWithoutAction (map_of answer ''action'')) (\<lambda>action.
          let response = AList.delete ''action'' answer in
          if action = PStr ''pass'' then
            ebind (clear_mana_undo_stack who g) (\<lambda>g1.
            ebind (requested_yield (dict_get PNone response ''yield'')) (\<lambda>mode.
            ebind (reraise PumpEngine (set_yield (offers (pumping host)) who mode g1)) (\<lambda>g2.
            reraise PumpEngine (pass_priority (offers (pumping host)) who False g2))))
          else if action = PStr ''play_land'' then land_entry host who response (decision_id d) g
          else if action \<in> {PStr ''cast'', PStr ''activate'', PStr ''turn_face_up''} then
            (case action of
               PStr act \<Rightarrow> mana_choice_action host who act response (decision_id d) g
             | _ \<Rightarrow> Inl UnsupportedAction)
          else if action = PStr ''undo_mana'' then undo_activation host who response g
          else if action = PStr ''concede'' then
            ebind (clear_mana_undo_stack who g) (\<lambda>g1.
            ebind (ensure (dict_get PNone response ''confirm_concede'' = PBool True) UnconfirmedConcession) (\<lambda>_.
            eliminate host [who] ''conceded'' g1))
          else Inl UnsupportedAction)))"

definition DECISION_KINDS :: "string list" where
  "DECISION_KINDS =
     [''mulligan.declare'', ''mulligan.bottom'', ''priority'', ''combat.attackers'', ''combat.blockers'',
      ''combat.damage'', ''cleanup.discard'', ''state.legend'', ''state.commander_zone'',
      ''state.battle_protector'', ''battle.enter_protector'', ''battle.siege_defeated'',
      ''selection.exile_cast'', ''choice.apnap'', ''replacement.order'', ''aura.entry'', ''trigger.order'',
      ''arbiter.resolve'', ''search.fetch'', ''semantic.target'', ''semantic.choice'', ''semantic.search'',
      ''semantic.storm'', ''draw.replacement'', ''draw.reveal'']"

definition dispatch_completed_decision :: "command_host \<Rightarrow> decision_group \<Rightarrow> game_state \<Rightarrow> pump_error + game_state" where
  "dispatch_completed_decision host d g =
     (if decision_kind d = ''priority'' then complete_priority host d g
      else if decision_kind d \<in> set DECISION_KINDS then complete_other host d g
      else Inl (UnsupportedDecision (decision_kind d)))"

definition transaction :: "(game_state \<Rightarrow> pump_error + game_state) \<Rightarrow> game_state \<Rightarrow> game_state \<times> (pump_error + unit)" where
  "transaction body g =
     (case ebind (body g) (\<lambda>h. ebind (reraise PumpInvariant (assert_invariants h)) (\<lambda>_. Inr h)) of
        Inl e \<Rightarrow> (g, Inl e)
      | Inr h \<Rightarrow> (h, Inr ()))"

definition response_entry :: "authorized_command \<Rightarrow> string \<Rightarrow> log_entry" where
  "response_entry cmd prin =
     (let d = command_decision cmd; who = cap_actor (command_capability cmd);
          named = (case who of None \<Rightarrow> None | Some a \<Rightarrow> if a = [] then None else Some a) in
      (new_entry who ''decision.response''
         (prin @ '' submitted '' @ command_action cmd @ '' for '' @ decision_kind d @ ''.'') 0)
        \<lparr>log_details := [(''decision'', PStr (decision_id d)), (''action'', PStr (command_action cmd))],
         log_visibility := (case named of Some a \<Rightarrow> [a, ''analyst''] | None \<Rightarrow> [prin, ''analyst'']),
         log_players := (case named of Some a \<Rightarrow> [a] | None \<Rightarrow> [])\<rparr>)"

definition accept_answer ::
  "string \<Rightarrow> string \<Rightarrow> string \<Rightarrow> (string, pyval) dict \<Rightarrow> game_state \<Rightarrow> pump_error + game_state" where
  "accept_answer t prin act body g =
     ebind (reraise PumpPermission (authorize t prin act body g)) (\<lambda>(g1, cmd).
     Inr (log_event (response_entry cmd prin) (record_response cmd (g1\<lparr>revision := revision g1 + 1\<rparr>))))"

definition finish_answer :: "command_host \<Rightarrow> game_state \<Rightarrow> pump_error + game_state" where
  "finish_answer host g =
     (if decision_complete g then
        ebind (reraise PumpPermission (close_decision g)) (\<lambda>(h, d). dispatch_completed_decision host d h)
      else Inr g)"

record action_result =
  accepted_message :: string
  accepted_events :: "int list"

definition submit ::
  "command_host \<Rightarrow> string list \<Rightarrow> string \<Rightarrow> string \<Rightarrow> string \<Rightarrow> (string, pyval) dict \<Rightarrow> game_state
     \<Rightarrow> game_state \<times> (pump_error + action_result)" where
  "submit host draws t prin act body g =
     (case transaction (\<lambda>g. ebind (accept_answer t prin act body g) (\<lambda>g1.
              ebind (finish_answer host g1) (pump (pumping host) draws MAX_TRANSITIONS))) g of
        (h, Inl e) \<Rightarrow> (h, Inl e)
      | (h, Inr _) \<Rightarrow> (h, Inr \<lparr>accepted_message = ''Accepted '' @ act,
            accepted_events = [event_sequence g + 1..event_sequence h]\<rparr>))"

section \<open>The loop stops only at rest\<close>

lemma issue_pending:
  "issue kind role who acts payloads together cont draws g = Inr (h, d, rest) \<Longrightarrow>
    pending_decision h = Some d \<and> decision_kind d = kind \<and> actors d = who \<and> payload_by_actor d = payloads
    \<and> decision_actions d = acts
    \<and> (\<exists>caps n. h = g\<lparr>ref_counters := AList.update ''decision'' n (ref_counters g),
         pending_decision := Some d, capabilities := caps\<rparr>)"
  by (auto simp: issue_def Let_def ebind_eq_Inr)

lemma issue_priority_pending:
  assumes "issue_priority who hints draws g = Inr (h, d)"
  shows "pending_decision h = Some d \<and> decision_kind d = ''priority'' \<and> actors d = [who]
    \<and> payload_by_actor d = [(who, priority_payload hints g)] \<and> decision_actions d = PRIORITY_ACTIONS
    \<and> (\<exists>caps n. h = g\<lparr>ref_counters := AList.update ''decision'' n (ref_counters g),
         pending_decision := Some d, capabilities := caps\<rparr>)"
proof -
  from assms obtain rest where
    "issue ''priority'' ''pilot'' [who] PRIORITY_ACTIONS [(who, priority_payload hints g)] False [] draws g
      = Inr (h, d, rest)"
    by (auto simp: issue_priority_def ebind_eq_Inr)
  from issue_pending [OF this] show ?thesis .
qed

lemma pending_rests: "pending_decision g \<noteq> None \<Longrightarrow> at_rest g"
  by (simp add: at_rest_def)

lemma ask_window_pending: "ask_window who hints signature why draws g = Inr h \<Longrightarrow> pending_decision h \<noteq> None"
  by (auto simp: ask_window_def ebind_eq_Inr name_decision_def dest!: issue_priority_pending)

lemma window_stops: "priority_window host draws who g = Inr (h, False) \<Longrightarrow> at_rest h"
  by (auto simp: priority_window_def Let_def ebind_eq_Inr split: if_splits
      intro!: pending_rests ask_window_pending)

lemma turn_stops:
  assumes "pump_turn host draws g = Inr (h, False)"
  shows "at_rest h"
  using assms by (auto simp: pump_turn_def ebind_eq_Inr split: if_splits option.splits dest: window_stops)

lemma pump_at_rest: "at_rest g \<Longrightarrow> pump host draws (Suc n) g = Inr g"
  by (simp add: pump_turn_def)

lemma pump_ends_at_rest: "pump host draws n g = Inr h \<Longrightarrow> at_rest h"
proof (induction n arbitrary: g)
  case (Suc n)
  then obtain k more where "pump_turn host draws g = Inr (k, more)"
    "(if more then pump host draws n k else Inr k) = Inr h" by (auto simp: ebind_eq_Inr)
  with Suc.IH show ?case by (cases more) (auto dest: turn_stops)
qed simp

lemma pump_more:
  assumes "pump host draws n g = Inr h" and "n \<le> m"
  shows "pump host draws m g = Inr h"
  using assms
proof (induction n arbitrary: g m)
  case (Suc n)
  then obtain k more where k: "pump_turn host draws g = Inr (k, more)"
    "(if more then pump host draws n k else Inr k) = Inr h" by (auto simp: ebind_eq_Inr)
  obtain m' where m: "m = Suc m'" "n \<le> m'" using Suc.prems(2) by (cases m) auto
  show ?case using Suc.IH [of k m'] k m by (cases more) simp_all
qed simp

section \<open>Commands are transactions\<close>

lemma actor_key_consumed [simp]: "actor_key (c\<lparr>consumed := b\<rparr>) = actor_key c"
  by (cases "cap_actor c") (auto simp: actor_key_def)

lemma accept_answer_eq:
  assumes "accept_answer t prin act body g = Inr h"
  obtains d c where "pending_decision g = Some d" "map_of (capabilities g) t = Some c" "\<not> consumed c"
    "cap_decision_id c = decision_id d" "principal c = prin" "act \<in> set (allowed_actions c)"
    "pending_decision h = Some (d\<lparr>responses := AList.update (actor_key c) (answer_of act body) (responses d)\<rparr>)"
    "capabilities h = AList.update t (c\<lparr>consumed := True\<rparr>) (capabilities g)"
    "players h = players g" "cards h = cards g" "stack_items h = stack_items g"
    "priority_player h = priority_player g" "priority_passes h = priority_passes g"
    "revision h = revision g + 1"
proof -
  from assms obtain g1 cmd where auth: "authorize t prin act body g = Inr (g1, cmd)"
    and h: "h = log_event (response_entry cmd prin) (record_response cmd (g1\<lparr>revision := revision g1 + 1\<rparr>))"
    by (auto simp: accept_answer_def ebind_eq_Inr)
  obtain d where d: "pending_decision g = Some d" using auth by (cases "pending_decision g") (simp_all add: authorize_def)
  obtain c where c: "map_of (capabilities g) t = Some c"
    using auth d by (cases "map_of (capabilities g) t") (simp_all add: authorize_def)
  have checks: "\<not> consumed c" "cap_decision_id c = decision_id d" "principal c = prin" "act \<in> set (allowed_actions c)"
    and g1: "g1 = g\<lparr>capabilities := AList.update t (c\<lparr>consumed := True\<rparr>) (capabilities g)\<rparr>"
    and cmd: "cmd = \<lparr>command_capability = c\<lparr>consumed := True\<rparr>, command_decision = d, command_action = act,
      command_payload = body\<rparr>"
    using auth unfolding authorize_def d c option_raise_simps ebind_simps ebind_ensure_Inr Let_def by simp_all
  let ?d = "d\<lparr>responses := AList.update (actor_key c) (answer_of act body) (responses d)\<rparr>"
  have "pending_decision h = Some ?d" "capabilities h = AList.update t (c\<lparr>consumed := True\<rparr>) (capabilities g)"
    "players h = players g" "cards h = cards g" "stack_items h = stack_items g"
    "priority_player h = priority_player g" "priority_passes h = priority_passes g" "revision h = revision g + 1"
    using d by (simp_all add: h g1 cmd record_response_def)
  with d c checks show ?thesis by (rule that)
qed

text \<open>
  C3. A command is a transaction: one that is refused, by the capability check, by its handler, by
  the loop or by the invariants at the end, leaves the state as it was; one that is accepted was
  authorised by an unused capability of the pending decision, issued to the principal that
  presents it and covering the action, and ends in a state that passes the engine's invariants, at
  rest (over, paused, or waiting for a decision).
\<close>

theorem submit_transactional:
  "case submit host draws t prin act body g of
     (h, Inl e) \<Rightarrow> h = g
   | (h, Inr r) \<Rightarrow> assert_invariants h = Inr () \<and> at_rest h
       \<and> (\<exists>d c. pending_decision g = Some d \<and> map_of (capabilities g) t = Some c \<and> \<not> consumed c
            \<and> cap_decision_id c = decision_id d \<and> principal c = prin \<and> act \<in> set (allowed_actions c))"
proof -
  let ?body = "\<lambda>g. ebind (accept_answer t prin act body g) (\<lambda>g1.
     ebind (finish_answer host g1) (pump (pumping host) draws MAX_TRANSITIONS))"
  show ?thesis
  proof (cases "ebind (?body g) (\<lambda>h. ebind (reraise PumpInvariant (assert_invariants h)) (\<lambda>_. Inr h))")
    case (Inl e)
    then have "submit host draws t prin act body g = (g, Inl e)"
      unfolding submit_def transaction_def by simp
    then show ?thesis by simp
  next
    case (Inr h)
    then obtain g1 g2 where g1: "accept_answer t prin act body g = Inr g1"
      and rest: "pump (pumping host) draws MAX_TRANSITIONS g2 = Inr h" and ok: "assert_invariants h = Inr ()"
      by (auto simp: ebind_eq_Inr)
    from Inr have "\<exists>r. submit host draws t prin act body g = (h, Inr r)"
      unfolding submit_def transaction_def by simp
    then obtain r where r: "submit host draws t prin act body g = (h, Inr r)" by blast
    have "\<exists>d c. pending_decision g = Some d \<and> map_of (capabilities g) t = Some c \<and> \<not> consumed c
        \<and> cap_decision_id c = decision_id d \<and> principal c = prin \<and> act \<in> set (allowed_actions c)"
      by (rule accept_answer_eq [OF g1]) blast
    with pump_ends_at_rest [OF rest] ok show ?thesis by (simp add: r)
  qed
qed

text \<open>
  C9. While a decision still waits for other players, an answer to it is only recorded: the command
  uses up its capability, stores the answer under its actor and changes nothing on the table; the
  same decision stays pending.
\<close>

theorem answer_waits:
  assumes "accept_answer t prin act body g = Inr h" and "\<not> decision_complete h"
    and "assert_invariants h = Inr ()"
  shows "(\<exists>r. submit host draws t prin act body g = (h, Inr r))
    \<and> players h = players g \<and> cards h = cards g \<and> stack_items h = stack_items g
    \<and> priority_player h = priority_player g \<and> priority_passes h = priority_passes g
    \<and> (\<exists>d c. pending_decision g = Some d \<and> map_of (capabilities g) t = Some c
         \<and> pending_decision h = Some (d\<lparr>responses := AList.update (actor_key c) (answer_of act body) (responses d)\<rparr>)
         \<and> capabilities h = AList.update t (c\<lparr>consumed := True\<rparr>) (capabilities g))"
proof -
  from accept_answer_eq [OF assms(1)] obtain d c where
    facts: "pending_decision g = Some d" "map_of (capabilities g) t = Some c"
      "pending_decision h = Some (d\<lparr>responses := AList.update (actor_key c) (answer_of act body) (responses d)\<rparr>)"
      "capabilities h = AList.update t (c\<lparr>consumed := True\<rparr>) (capabilities g)"
      "players h = players g" "cards h = cards g" "stack_items h = stack_items g"
      "priority_player h = priority_player g" "priority_passes h = priority_passes g" by metis
  have "at_rest h" using facts(3) by (simp add: at_rest_def)
  then have pumped: "pump (pumping host) draws MAX_TRANSITIONS h = Inr h"
    using pump_at_rest [of h _ _ 999] by (simp add: MAX_TRANSITIONS_def)
  have "finish_answer host h = Inr h" using assms(2) by (simp add: finish_answer_def)
  then have "\<exists>r. submit host draws t prin act body g = (h, Inr r)"
    unfolding submit_def transaction_def using assms(1,3) pumped by simp
  with facts show ?thesis by blast
qed

lemma automatic_pass:
  assumes "active g = Inr seats" and "distinct (turn_order g)" and "[] \<notin> set (turn_order g)"
    and "filter (seat_in_game g) (rotate k (turn_order g)) = as @ x # bs"
    and "priority_player g = Some x" and "priority_passes g = as"
  shows "pass_priority host x True g =
    (if bs = [] then
       (let h = g\<lparr>priority_player := None, priority_passes := []\<rparr> in
        if stack_items g = [] then host_advance_step host h else prepare_stack_resolution host h)
     else Inr (g\<lparr>priority_passes := as @ [x], priority_player := Some (hd bs)\<rparr>))"
  unfolding pass_priority_def pass_prepared [OF assms] ebind_simps
  by (simp add: commit_priority_pass_def assms(5) Let_def)

section \<open>Windows that ask and windows that pass\<close>

text \<open>
  The bookkeeping of a window: it counts in a player's telemetry, may drop a yield and logs the opportunity.
  Everything else is as it was, the offers' other grounds included.
\<close>

definition same_player :: "player_state \<Rightarrow> player_state \<Rightarrow> bool" where
  "same_player p q \<longleftrightarrow> q\<lparr>stats := stats p, player_yield := player_yield p\<rparr> = p
     \<and> AList.delete ''decision_optimization'' (stats q) = AList.delete ''decision_optimization'' (stats p)"

definition same_course :: "game_state \<Rightarrow> game_state \<Rightarrow> bool" where
  "same_course g h \<longleftrightarrow>
     h\<lparr>players := players g, action_opportunities := action_opportunities g,
       opportunity_sequence := opportunity_sequence g\<rparr> = g
     \<and> (\<forall>s. rel_option same_player (player_at g s) (player_at h s))"

lemma same_player_refl [simp]: "same_player p p"
  by (simp add: same_player_def)

lemma same_player_trans:
  assumes "same_player p q" and "same_player q r"
  shows "same_player p r"
proof -
  have "r\<lparr>stats := stats p, player_yield := player_yield p\<rparr>
      = (r\<lparr>stats := stats q, player_yield := player_yield q\<rparr>)\<lparr>stats := stats p, player_yield := player_yield p\<rparr>" by simp
  also have "\<dots> = p" using assms unfolding same_player_def by metis
  finally show ?thesis using assms by (simp add: same_player_def)
qed

lemma same_player_in_game:
  assumes "same_player p q"
  shows "in_game q = in_game p"
proof -
  have "in_game (q\<lparr>stats := stats p, player_yield := player_yield p\<rparr>) = in_game p"
    using assms unfolding same_player_def by metis
  then show ?thesis by simp
qed

lemma same_player_increment [simp]: "same_player p (increment_optimization key p)"
  by (simp add: same_player_def increment_optimization_def Let_def delete_update_same)

lemma same_player_yield [simp]: "same_player p (p\<lparr>player_yield := y\<rparr>)"
  by (simp add: same_player_def)

lemma same_course_refl [simp]: "same_course g g"
  by (simp add: same_course_def option.rel_refl)

lemma same_course_trans:
  assumes "same_course g h" and "same_course h k"
  shows "same_course g k"
proof -
  have "k\<lparr>players := players g, action_opportunities := action_opportunities g,
       opportunity_sequence := opportunity_sequence g\<rparr>
      = (k\<lparr>players := players h, action_opportunities := action_opportunities h,
          opportunity_sequence := opportunity_sequence h\<rparr>)
        \<lparr>players := players g, action_opportunities := action_opportunities g,
          opportunity_sequence := opportunity_sequence g\<rparr>" by simp
  also have "\<dots> = g" using assms unfolding same_course_def by metis
  finally have rest: "k\<lparr>players := players g, action_opportunities := action_opportunities g,
       opportunity_sequence := opportunity_sequence g\<rparr> = g" .
  have "rel_option same_player (player_at g s) (player_at k s)" for s
  proof -
    have "rel_option same_player (player_at g s) (player_at h s)" "rel_option same_player (player_at h s) (player_at k s)"
      using assms by (simp_all add: same_course_def)
    then show ?thesis by (cases "player_at g s"; cases "player_at h s"; cases "player_at k s")
      (auto intro: same_player_trans)
  qed
  with rest show ?thesis by (simp add: same_course_def)
qed

lemma same_course_fields:
  assumes "same_course g h"
  shows "turn_order h = turn_order g" "stack_items h = stack_items g" "cards h = cards g" "config h = config g"
    "pending_decision h = pending_decision g" "capabilities h = capabilities g" "game_over h = game_over g"
    "game_started h = game_started g" "game_annotations h = game_annotations g"
    "priority_player h = priority_player g" "priority_passes h = priority_passes g"
    "active_player h = active_player g" "game_phase h = game_phase g" "game_step h = game_step g"
proof -
  have e: "h\<lparr>players := players g, action_opportunities := action_opportunities g,
       opportunity_sequence := opportunity_sequence g\<rparr> = g"
    using assms by (simp add: same_course_def)
  show "turn_order h = turn_order g" using arg_cong [OF e, of turn_order] by simp
  show "stack_items h = stack_items g" using arg_cong [OF e, of stack_items] by simp
  show "cards h = cards g" using arg_cong [OF e, of cards] by simp
  show "config h = config g" using arg_cong [OF e, of config] by simp
  show "pending_decision h = pending_decision g" using arg_cong [OF e, of pending_decision] by simp
  show "capabilities h = capabilities g" using arg_cong [OF e, of capabilities] by simp
  show "game_over h = game_over g" using arg_cong [OF e, of game_over] by simp
  show "game_started h = game_started g" using arg_cong [OF e, of game_started] by simp
  show "game_annotations h = game_annotations g" using arg_cong [OF e, of game_annotations] by simp
  show "priority_player h = priority_player g" using arg_cong [OF e, of priority_player] by simp
  show "priority_passes h = priority_passes g" using arg_cong [OF e, of priority_passes] by simp
  show "active_player h = active_player g" using arg_cong [OF e, of active_player] by simp
  show "game_phase h = game_phase g" using arg_cong [OF e, of game_phase] by simp
  show "game_step h = game_step g" using arg_cong [OF e, of game_step] by simp
qed

lemma same_course_in_game:
  assumes "same_course g h"
  shows "map_option in_game (player_at h s) = map_option in_game (player_at g s)"
proof -
  have "rel_option same_player (player_at g s) (player_at h s)" using assms by (simp add: same_course_def)
  then show ?thesis by (cases "player_at g s"; cases "player_at h s") (auto simp: same_player_in_game)
qed

lemma same_course_set:
  assumes "player_at g s = Some p" and "same_player p q"
  shows "same_course g (g\<lparr>players := AList.update s q (players g)\<rparr>)"
  using assms by (simp add: same_course_def option.rel_refl)

lemma same_course_edit:
  assumes "\<And>p. same_player p (f p)"
  shows "same_course g (edit_player s f g)"
  using assms by (cases "player_at g s") (simp_all add: edit_player_def same_course_set)

lemma yield_increment [simp]: "player_yield (increment_optimization key p) = player_yield p"
  by (simp add: increment_optimization_def Let_def)

lemma same_course_player: "same_course g h \<Longrightarrow> player_at h s = None \<longleftrightarrow> player_at g s = None"
  using same_course_in_game by (metis map_option_is_None)

lemma same_course_rest: "same_course g h \<Longrightarrow> at_rest h = at_rest g"
  by (simp add: same_course_fields at_rest_def semantic_pause_annotation_def)

lemma same_course_manual:
  "same_course g h \<Longrightarrow> manual_active_main_phase_window h who = manual_active_main_phase_window g who"
  by (simp add: same_course_fields manual_active_main_phase_window_def)

lemma same_course_seats: "same_course g h \<Longrightarrow> seat_in_game h = seat_in_game g"
proof
  fix s assume "same_course g h"
  then have "map_option in_game (player_at h s) = map_option in_game (player_at g s)" by (rule same_course_in_game)
  then show "seat_in_game h s = seat_in_game g s"
    by (cases "player_at h s"; cases "player_at g s") (simp_all add: seat_in_game_def)
qed

lemma same_course_active:
  assumes "same_course g h" and "active g = Inr seats"
  shows "active h = Inr seats"
proof -
  have loop: "active_seats_loop ps xs = active_seats_loop qs xs"
    if "\<And>s. map_option in_game (map_of ps s) = map_option in_game (map_of qs s)" for ps qs :: "(string, player_state) dict" and xs
  proof (induction xs)
    case (Cons x xs)
    then show ?case using that [of x] by (cases "map_of ps x"; cases "map_of qs x") simp_all
  qed simp
  have "active_seats h = active_seats g"
    unfolding active_seats_def same_course_fields(1) [OF assms(1)]
    by (rule loop) (rule same_course_in_game [OF assms(1)])
  with assms(2) show ?thesis by (simp add: active_def)
qed

lemma count_window_run:
  "player_at g who \<noteq> None \<Longrightarrow> count_window who key g = Inr (edit_player who (increment_optimization key) g)"
  by (auto simp: count_window_def)

lemma open_window_run:
  assumes "player_at g who \<noteq> None"
  shows "\<exists>h. open_window host who g = Inr h \<and> same_course g h
    \<and> (\<forall>s. map_option player_yield (player_at h s) = map_option player_yield (player_at g s))"
proof -
  let ?g1 = "edit_player who (increment_optimization ''priority_windows_considered'') g"
  let ?g2 = "\<lambda>k. edit_player who (increment_optimization k) ?g1"
  have one: "same_course h (edit_player who (increment_optimization k) h)" for k h
    by (rule same_course_edit) simp
  have y: "map_option player_yield (player_at (edit_player who (increment_optimization k) h) s)
      = map_option player_yield (player_at h s)" for k h s
    by (cases "player_at h who") (auto simp: edit_player_def)
  have "player_at ?g1 who \<noteq> None" using assms by (simp add: same_course_player [OF one])
  then have "open_window host who g = Inr ?g1 \<or> (\<exists>k. open_window host who g = Inr (?g2 k))"
    using assms by (auto simp: open_window_def count_window_run)
  moreover have "same_course g (?g2 k)" for k by (rule same_course_trans [OF one one])
  moreover have "map_option player_yield (player_at (?g2 k) s) = map_option player_yield (player_at g s)" for k s
    using y by simp
  ultimately show ?thesis using one y by auto
qed

lemma can_auto_pass_run:
  assumes "player_at g who \<noteq> None"
  shows "\<exists>h c why. can_auto_pass host who signature meaningful g = Inr (h, c, why) \<and> same_course g h"
proof -
  from assms obtain p where p: "player_at g who = Some p" by blast
  have "\<exists>h. drop_yield who k g = Inr h \<and> same_course g h" for k
    using p same_player_trans [OF same_player_yield same_player_increment]
    by (cases k) (auto simp: drop_yield_def intro!: same_course_set)
  then obtain d where d: "\<And>k. drop_yield who k g = Inr (d k)" "\<And>k. same_course g (d k)" by metis
  obtain why where "yield_stop_reason host g who (Some signature) = Inr why"
    by (simp add: yield_stop_reason_def p Let_def)
  then show ?thesis using d by (cases why) (auto simp: can_auto_pass_def p Let_def)
qed

lemma record_run:
  assumes "meaningful_ids hints = Inr ids"
  shows "\<exists>h. record_action_opportunity who hints signature outcome why g = Inr h \<and> same_course g h
    \<and> players h = players g"
  using assms by (simp add: record_action_opportunity_def Let_def same_course_def option.rel_refl)

lemma skip_window_run:
  assumes "player_at g who \<noteq> None" and "meaningful_ids hints = Inr ids"
  shows "\<exists>h. same_course g h \<and> skip_window host who hints signature keys outcome why g
    = reraise PumpEngine (pass_priority (offers host) who True h)"
proof -
  have "\<exists>h. efold (\<lambda>h key. count_window who key h) g ks = Inr h \<and> same_course g h" for ks
    using assms(1)
  proof (induction ks arbitrary: g)
    case (Cons k ks)
    let ?g1 = "edit_player who (increment_optimization k) g"
    have s: "same_course g ?g1" by (rule same_course_edit) simp
    have "player_at ?g1 who \<noteq> None" using Cons.prems by (simp add: same_course_player [OF s])
    from Cons.IH [OF this] s show ?case using same_course_trans Cons.prems by (auto simp: count_window_run)
  qed simp
  then obtain g1 where g1: "efold (\<lambda>h key. count_window who key h) g keys = Inr g1" "same_course g g1" by blast
  obtain g2 where "record_action_opportunity who hints signature outcome why g1 = Inr g2" "same_course g1 g2"
    using record_run [OF assms(2)] by blast
  with g1 same_course_trans show ?thesis by (auto simp: skip_window_def)
qed

text \<open>A window without spells, lands and abilities passes by itself.\<close>

lemma empty_window:
  assumes "\<not> signature_has_actions (offers host) g who"
    and "\<exists>ids. meaningful_ids (action_hints (offers host) g who) = Inr ids"
    and "auto_pass_empty_priority (config g)" and "\<not> manual_active_main_phase_window g who"
    and "player_at g who \<noteq> None"
  shows "\<exists>h. same_course g h \<and> priority_window host draws who g
    = ebind (reraise PumpEngine (pass_priority (offers host) who True h)) (\<lambda>k. Inr (k, True))"
proof -
  obtain ids where ids: "meaningful_ids (action_hints (offers host) g who) = Inr ids" using assms(2) by blast
  obtain g1 where g1: "open_window host who g = Inr g1" "same_course g g1"
    using open_window_run [OF assms(5)] by blast
  have "player_at g1 who \<noteq> None" using assms(5) by (simp add: same_course_player [OF g1(2)])
  then obtain g2 c why where g2: "can_auto_pass (offers host) who (meaningful_signature (offers host) g who) False g1
      = Inr (g2, c, why)" "same_course g1 g2"
    using can_auto_pass_run by blast
  have s: "same_course g g2" using g1(2) g2(2) by (rule same_course_trans)
  have "player_at g2 who \<noteq> None" using assms(5) by (simp add: same_course_player [OF s])
  then obtain g3 where g3: "same_course g2 g3"
    "skip_window host who (action_hints (offers host) g who) (meaningful_signature (offers host) g who)
       [''pass_only_windows_skipped'', ''suppressed_empty_windows''] ''pass_only_auto_pass'' why g2
     = reraise PumpEngine (pass_priority (offers host) who True g3)"
    using skip_window_run ids by blast
  have "config g2 = config g" using s by (rule same_course_fields)
  then have "priority_window host draws who g
      = ebind (reraise PumpEngine (pass_priority (offers host) who True g3)) (\<lambda>k. Inr (k, True))"
    using assms(1,3,4) g1(1) g2(1) g3(2) by (simp add: priority_window_def Let_def same_course_manual [OF s])
  with same_course_trans [OF s g3(1)] show ?thesis by blast
qed

text \<open>The states of a round of empty windows: priority moves on, and the windows do their bookkeeping.\<close>

definition round_state :: "game_state \<Rightarrow> game_state \<Rightarrow> bool" where
  "round_state g h \<longleftrightarrow>
     same_course g (h\<lparr>priority_player := priority_player g, priority_passes := priority_passes g\<rparr>)"

lemma round_state_refl: "round_state g g"
  by (simp add: round_state_def)

lemma round_state_pass:
  assumes "same_course g h" and "round_state (h\<lparr>priority_passes := ps, priority_player := q\<rparr>) k"
  shows "round_state g k"
proof -
  let ?k = "k\<lparr>priority_player := priority_player g, priority_passes := priority_passes g\<rparr>"
  have at: "priority_player h = priority_player g" "priority_passes h = priority_passes g"
    by (rule same_course_fields [OF assms(1)])+
  have "same_course (h\<lparr>priority_passes := ps, priority_player := q\<rparr>) (k\<lparr>priority_player := q, priority_passes := ps\<rparr>)"
    using assms(2) by (simp add: round_state_def)
  then have seats: "\<forall>s. rel_option same_player (player_at h s) (player_at k s)"
    and eq: "k\<lparr>priority_player := q, priority_passes := ps, players := players h,
        action_opportunities := action_opportunities h, opportunity_sequence := opportunity_sequence h\<rparr>
      = h\<lparr>priority_passes := ps, priority_player := q\<rparr>"
    by (simp_all add: same_course_def)
  have "?k\<lparr>players := players h, action_opportunities := action_opportunities h,
        opportunity_sequence := opportunity_sequence h\<rparr>
      = (k\<lparr>priority_player := q, priority_passes := ps, players := players h,
        action_opportunities := action_opportunities h, opportunity_sequence := opportunity_sequence h\<rparr>)
        \<lparr>priority_player := priority_player h, priority_passes := priority_passes h\<rparr>" by (simp add: at)
  also have "\<dots> = h" unfolding eq by simp
  finally have "same_course h ?k" using seats by (simp add: same_course_def)
  with assms(1) have "same_course g ?k" by (rule same_course_trans)
  then show ?thesis by (simp add: round_state_def)
qed

lemma round_state_stack: "round_state g h \<Longrightarrow> stack_items h = stack_items g"
  unfolding round_state_def by (drule same_course_fields(2)) simp

text \<open>
  C5. When nobody has a spell, a land or an ability to play, the loop asks nobody and carries the round to its
  end: from the window of any player, with automatic passing of empty windows on, every player in
  the game passes once in turn order, and then, with priority taken from everybody, the top of the stack is
  resolved or the step advances, with the same stack and the same cards; the loop continues from there with
  the transitions it has left.  What the players have on offer matters in their own windows of this round
  only, where the game is as it was but for priority, telemetry and dropped yields.  Special actions on offer
  are not counted: a round of players who could only turn a permanent face up is passed for as well.
\<close>

theorem empty_round:
  assumes "active g = Inr seats" and "distinct (turn_order g)" and "[] \<notin> set (turn_order g)"
    and "filter (seat_in_game g) (rotate k (turn_order g)) = as @ bs" and "bs \<noteq> []"
    and "priority_player g = Some (hd bs)" and "priority_passes g = as"
    and "\<not> at_rest g" and "auto_pass_empty_priority (config g)"
    and "\<forall>x \<in> set bs. \<not> manual_active_main_phase_window g x"
    and "\<And>h x. round_state g h \<Longrightarrow> priority_player h = Some x \<Longrightarrow> x \<in> set bs \<Longrightarrow>
      (\<forall>key \<in> {''cast'', ''lands'', ''abilities''}. \<not> truthy (dict_get PNone (action_hints (offers host) h x) key))
      \<and> (\<exists>ids. meaningful_ids (action_hints (offers host) h x) = Inr ids)"
  shows "\<exists>h. pump host draws (length bs + n) g
      = ebind (reraise PumpEngine (if stack_items g = [] then host_advance_step (offers host) h
                                   else prepare_stack_resolution (offers host) h)) (pump host draws n)
    \<and> priority_player h = None \<and> priority_passes h = [] \<and> pending_decision h = None
    \<and> stack_items h = stack_items g \<and> cards h = cards g \<and> turn_order h = turn_order g"
  using assms
proof (induction bs arbitrary: g as)
  case (Cons x bs)
  have "x \<in> set (filter (seat_in_game g) (rotate k (turn_order g)))" using Cons.prems(4) by simp
  then have "seat_in_game g x" by simp
  then have known: "player_at g x \<noteq> None" by (auto simp: seat_in_game_def split: option.splits)
  have none_on_offer: "\<not> signature_has_actions (offers host) g x"
    and ids: "\<exists>ids. meaningful_ids (action_hints (offers host) g x) = Inr ids"
    using Cons.prems(11) [OF round_state_refl, of x] Cons.prems(6) by (simp_all add: signature_has_actions_def)
  have "\<not> manual_active_main_phase_window g x" using Cons.prems(10) by simp
  from empty_window [OF none_on_offer ids Cons.prems(9) this known, of draws] obtain g1 where
    s: "same_course g g1" and win: "priority_window host draws x g
      = ebind (reraise PumpEngine (pass_priority (offers host) x True g1)) (\<lambda>k. Inr (k, True))" by blast
  have facts: "turn_order g1 = turn_order g" "stack_items g1 = stack_items g" "cards g1 = cards g"
    "priority_player g1 = Some x" "priority_passes g1 = as" "config g1 = config g"
    "pending_decision g1 = pending_decision g"
    using same_course_fields [OF s] Cons.prems(6,7) by simp_all
  have act: "active g1 = Inr seats" by (rule same_course_active [OF s Cons.prems(1)])
  have round: "filter (seat_in_game g1) (rotate k (turn_order g1)) = as @ x # bs"
    using Cons.prems(4) facts same_course_seats [OF s] by simp
  have order: "distinct (turn_order g1)" "[] \<notin> set (turn_order g1)" using facts Cons.prems(2,3) by simp_all
  note pass = automatic_pass [OF act order round facts(4,5), of "offers host"]
  have turn: "pump_turn host draws g = priority_window host draws x g"
    using Cons.prems(6,8) by (simp add: pump_turn_def)
  have none: "pending_decision g = None" using Cons.prems(8) by (simp add: at_rest_def)
  show ?case
  proof (cases "bs = []")
    case True
    let ?h = "g1\<lparr>priority_player := None, priority_passes := []\<rparr>"
    have "pump host draws (length (x # bs) + n) g
        = ebind (reraise PumpEngine (if stack_items g = [] then host_advance_step (offers host) ?h
                                     else prepare_stack_resolution (offers host) ?h)) (pump host draws n)"
      using True pass by (simp add: turn win facts Let_def ebind_assoc)
    then show ?thesis using facts none by (intro exI [of _ ?h]) simp
  next
    case False
    let ?h = "g1\<lparr>priority_passes := as @ [x], priority_player := Some (hd bs)\<rparr>"
    have same: "players ?h = players g1" "turn_order ?h = turn_order g1" by simp_all
    have "active ?h = Inr seats" using act active_cong [OF same] by simp
    moreover have "filter (seat_in_game ?h) (rotate k (turn_order ?h)) = (as @ [x]) @ bs"
      using round seat_in_game_cong [OF same(1)] by simp
    moreover have "\<not> at_rest ?h"
      using Cons.prems(8) same_course_rest [OF s] by (simp add: at_rest_def semantic_pause_annotation_def)
    moreover have "\<forall>y \<in> set bs. \<not> manual_active_main_phase_window ?h y"
      using Cons.prems(10) same_course_manual [OF s] by (simp add: manual_active_main_phase_window_def)
    moreover have "(\<forall>key \<in> {''cast'', ''lands'', ''abilities''}. \<not> truthy (dict_get PNone (action_hints (offers host) h y) key))
        \<and> (\<exists>ids. meaningful_ids (action_hints (offers host) h y) = Inr ids)"
      if "round_state ?h h" "priority_player h = Some y" "y \<in> set bs" for h y
      using that(2,3) by (intro Cons.prems(11) [OF round_state_pass [OF s that(1)]]) simp_all
    ultimately obtain h where h: "pump host draws (length bs + n) ?h
        = ebind (reraise PumpEngine (if stack_items ?h = [] then host_advance_step (offers host) h
                                     else prepare_stack_resolution (offers host) h)) (pump host draws n)"
      "priority_player h = None" "priority_passes h = []" "pending_decision h = None"
      "stack_items h = stack_items ?h" "cards h = cards ?h" "turn_order h = turn_order ?h"
      using Cons.IH [of ?h "as @ [x]"] False facts Cons.prems(9) order by auto
    have "pump host draws (length (x # bs) + n) g = pump host draws (length bs + n) ?h"
      using False pass by (simp add: turn win)
    with h facts show ?thesis by (intro exI [of _ h]) simp
  qed
qed simp

text \<open>A window that cannot be passed for issues the decision.\<close>

lemma window_asks:
  assumes "\<not> at_rest g" and "priority_player g = Some who" and "player_at g who = Some p"
    and "yield_mode (player_yield p) = ''none''"
    and "signature_has_actions (offers host) g who \<or> \<not> auto_pass_empty_priority (config g)
      \<or> manual_active_main_phase_window g who"
    and "meaningful_ids (action_hints (offers host) g who) = Inr ids"
    and "new_token draws (capabilities g) = Inr fresh"
  shows "\<exists>h d. pump host draws (Suc n) g = Inr h \<and> pending_decision h = Some d
    \<and> decision_kind d = ''priority'' \<and> actors d = [who] \<and> decision_actions d = PRIORITY_ACTIONS
    \<and> (\<exists>payload. map_of (payload_by_actor d) who = Some payload
         \<and> map_of payload ''legal'' = Some (PDict (action_hints (offers host) g who)))
    \<and> priority_player h = Some who \<and> priority_passes h = priority_passes g
    \<and> stack_items h = stack_items g \<and> cards h = cards g"
proof -
  let ?hints = "action_hints (offers host) g who" and ?sig = "meaningful_signature (offers host) g who"
  have known: "player_at g who \<noteq> None" using assms(3) by simp
  obtain g1 where g1: "open_window host who g = Inr g1" "same_course g g1"
    "map_option player_yield (player_at g1 who) = map_option player_yield (player_at g who)"
    using open_window_run [OF known] by blast
  obtain q where q: "player_at g1 who = Some q" "yield_mode (player_yield q) = ''none''"
    using g1(3) assms(3,4) by (cases "player_at g1 who") auto
  have pass: "can_auto_pass (offers host) who ?sig m g1 = Inr (g1, False, None)" for m
    using q by (simp add: can_auto_pass_def)
  obtain g2 where g2: "record_action_opportunity who ?hints ?sig ''pilot_task_issued'' None g1 = Inr g2"
    "same_course g1 g2" "players g2 = players g1"
    using record_run [OF assms(6)] by blast
  have s: "same_course g g2" using g1(2) g2(2) by (rule same_course_trans)
  have none: "pending_decision g2 = None" using assms(1) by (simp add: same_course_fields [OF s] at_rest_def)
  have caps: "capabilities g2 = capabilities g" by (rule same_course_fields [OF s])
  have "\<exists>h d. issue_priority who ?hints draws g2 = Inr (h, d)"
    using none caps q(1) g2(3) assms(7)
    by (cases fresh) (simp add: issue_priority_def issue_def Let_def grant_capability_def principal_of_def)
  then obtain g3 d where g3: "issue_priority who ?hints draws g2 = Inr (g3, d)" by blast
  note d = issue_priority_pending [OF g3]
  let ?h = "name_decision (decision_id d) g3"
  have "priority_window host draws who g = Inr (?h, False)"
    using assms(5) g1(1) pass g2(1) g3
    by (auto simp: priority_window_def ask_window_def Let_def same_course_fields [OF g1(2)] same_course_manual [OF g1(2)])
  then have "pump host draws (Suc n) g = Inr ?h"
    using assms(1,2) by (simp add: pump_turn_def)
  moreover have "priority_player ?h = Some who" "priority_passes ?h = priority_passes g"
    "stack_items ?h = stack_items g" "cards ?h = cards g" "pending_decision ?h = Some d"
    using d assms(2) by (auto simp: name_decision_def same_course_fields [OF s])
  moreover have "map_of (priority_payload ?hints g2) ''legal'' = Some (PDict ?hints)"
    by (simp add: priority_payload_def)
  ultimately show ?thesis using d by (intro exI [of _ ?h] exI [of _ d]) simp
qed

text \<open>
  C4. Whether a player who has given no yield is asked or passed for.  With a spell, a land or an ability on
  offer, or with automatic passing of empty windows off, or in a main phase the player keeps for itself, the
  loop issues that player a priority decision with the actions on offer, in one transition, and neither passes
  nor changes anything on the table.  In every other case, and so even when the player has special actions on
  offer, the loop passes for the player and goes on.
\<close>

theorem player_asked:
  assumes "\<not> at_rest g" and "priority_player g = Some who" and "player_at g who = Some p"
    and "yield_mode (player_yield p) = ''none''"
    and "meaningful_ids (action_hints (offers host) g who) = Inr ids"
    and "new_token draws (capabilities g) = Inr fresh"
  shows "if (\<exists>key \<in> {''cast'', ''lands'', ''abilities''}. truthy (dict_get PNone (action_hints (offers host) g who) key))
      \<or> \<not> auto_pass_empty_priority (config g) \<or> manual_active_main_phase_window g who
    then \<exists>h d. pump host draws (Suc n) g = Inr h \<and> pending_decision h = Some d
      \<and> decision_kind d = ''priority'' \<and> actors d = [who] \<and> decision_actions d = PRIORITY_ACTIONS
      \<and> (\<exists>payload. map_of (payload_by_actor d) who = Some payload
           \<and> map_of payload ''legal'' = Some (PDict (action_hints (offers host) g who)))
      \<and> priority_player h = Some who \<and> priority_passes h = priority_passes g
      \<and> stack_items h = stack_items g \<and> cards h = cards g
    else \<exists>h. same_course g h \<and> pump host draws (Suc n) g
      = ebind (reraise PumpEngine (pass_priority (offers host) who True h)) (pump host draws n)"
proof (cases "signature_has_actions (offers host) g who \<or> \<not> auto_pass_empty_priority (config g)
      \<or> manual_active_main_phase_window g who")
  case True
  then have "(\<exists>key \<in> {''cast'', ''lands'', ''abilities''}. truthy (dict_get PNone (action_hints (offers host) g who) key))
      \<or> \<not> auto_pass_empty_priority (config g) \<or> manual_active_main_phase_window g who"
    by (simp add: signature_has_actions_def)
  with window_asks [OF assms(1-4) True assms(5,6), of n] show ?thesis by (simp only: if_True)
next
  case False
  have known: "player_at g who \<noteq> None" using assms(3) by simp
  from False have "\<not> signature_has_actions (offers host) g who" "auto_pass_empty_priority (config g)"
    "\<not> manual_active_main_phase_window g who" by simp_all
  from empty_window [OF this(1) _ this(2,3) known, of draws] assms(5) obtain h where h: "same_course g h"
    "priority_window host draws who g
      = ebind (reraise PumpEngine (pass_priority (offers host) who True h)) (\<lambda>k. Inr (k, True))" by blast
  have "pump host draws (Suc n) g = ebind (reraise PumpEngine (pass_priority (offers host) who True h)) (pump host draws n)"
    using assms(1,2) h(2) by (simp add: pump_turn_def ebind_assoc)
  with h(1) False show ?thesis by (auto simp: signature_has_actions_def)
qed

section \<open>A concrete table\<close>

definition running_duel :: game_state where
  "running_duel = priority_duel\<lparr>game_started := True\<rparr>"

definition quiet_pump :: pump_host where
  "quiet_pump = \<lparr>offers = quiet_priority, enter_now = Inr\<rparr>"

definition busy_pump :: pump_host where
  "busy_pump = \<lparr>offers = quiet_priority\<lparr>action_hints :=
       (\<lambda>_ s. if s = ''A'' then [(''actions'', PList [PDict [(''id'', PStr ''cast:bear''), (''kind'', PStr ''cast'')]]),
                                (''cast'', PList [PStr ''bear''])] else [])\<rparr>, enter_now = Inr\<rparr>"

definition quiet_commands :: command_host where
  "quiet_commands = \<lparr>pumping = quiet_pump, land_entry = (\<lambda>_ _ _ g. Inr g), mana_choice_action = (\<lambda>_ _ _ _ g. Inr g),
     undo_activation = (\<lambda>_ _ g. Inr g), eliminate = (\<lambda>_ _ g. Inr g), complete_other = (\<lambda>_ g. Inr g)\<rparr>"

text \<open>Offers that depend on the stack: a spell in response to one, and else only a permanent to turn face up.\<close>

definition responding_pump :: pump_host where
  "responding_pump = \<lparr>offers = quiet_priority\<lparr>action_hints := (\<lambda>g s.
       if stack_items g \<noteq> [] then
         [(''cast'', PList [PStr ''bolt'']),
          (''actions'', PList [PDict [(''id'', PStr ''cast:bolt''), (''kind'', PStr ''cast'')]])]
       else [(''special_actions'', PList [PStr ''morph'']),
          (''actions'', PList [PDict [(''id'', PStr ''turn_face_up:morph''), (''kind'', PStr ''turn_face_up'')]])])\<rparr>,
     enter_now = Inr\<rparr>"

lemma only_special:
  assumes "stack_items g = []"
  shows "(\<forall>key \<in> {''cast'', ''lands'', ''abilities''}.
      \<not> truthy (dict_get PNone (action_hints (offers responding_pump) g s) key))
    \<and> (\<exists>ids. meaningful_ids (action_hints (offers responding_pump) g s) = Inr ids)"
  using assms by (simp add: responding_pump_def meaningful_ids_def dict_get_def is_offered_def)

lemma empty_round_witness:
  "\<exists>h. pump responding_pump [] (2 + 3) running_duel
      = ebind (reraise PumpEngine (host_advance_step (offers responding_pump) h)) (pump responding_pump [] 3)
    \<and> priority_player h = None"
proof -
  have facts: "active running_duel = Inr [''A'', ''B'']" "distinct (turn_order running_duel)"
    "[] \<notin> set (turn_order running_duel)"
    "filter (seat_in_game running_duel) (rotate 0 (turn_order running_duel)) = [] @ [''A'', ''B'']"
    "[''A'', ''B''] \<noteq> []" "priority_player running_duel = Some (hd [''A'', ''B''])"
    "priority_passes running_duel = []" "\<not> at_rest running_duel"
    "auto_pass_empty_priority (config running_duel)"
    "\<forall>x \<in> set [''A'', ''B'']. \<not> manual_active_main_phase_window running_duel x"
    by code_simp+
  have stack: "stack_items running_duel = []" by code_simp
  have special: "(\<forall>key \<in> {''cast'', ''lands'', ''abilities''}.
      \<not> truthy (dict_get PNone (action_hints (offers responding_pump) h x) key))
    \<and> (\<exists>ids. meaningful_ids (action_hints (offers responding_pump) h x) = Inr ids)"
    if "round_state running_duel h" for h x
    by (rule only_special) (simp add: round_state_stack [OF that] stack)
  from empty_round [OF facts special, of "[]" 3] obtain h where
    h: "pump responding_pump [] (length [''A'', ''B''] + 3) running_duel
      = ebind (reraise PumpEngine (if stack_items running_duel = [] then host_advance_step (offers responding_pump) h
                                   else prepare_stack_resolution (offers responding_pump) h)) (pump responding_pump [] 3)"
      "priority_player h = None" by blast
  have len: "length [''A'', ''B''] + 3 = 2 + 3" by simp
  from h show ?thesis unfolding len stack by auto
qed

lemma special_window_passed: "\<not> priority_window_empty responding_pump running_duel ''A''
    \<and> \<not> signature_has_actions (offers responding_pump) running_duel ''A''"
  by code_simp

text \<open>A spell on offer is asked about; a player who could only turn a permanent face up is passed for.\<close>

lemma player_asked_witness:
  "(\<exists>h d. pump busy_pump [''x''] (Suc 0) running_duel = Inr h \<and> pending_decision h = Some d \<and> actors d = [''A'']
     \<and> priority_passes h = [])
   \<and> (\<exists>h. same_course running_duel h \<and> pump responding_pump [''x''] (Suc 1) running_duel
     = ebind (reraise PumpEngine (pass_priority (offers responding_pump) ''A'' True h)) (pump responding_pump [''x''] 1))"
proof -
  obtain p where p: "player_at running_duel ''A'' = Some p" "yield_mode (player_yield p) = ''none''"
  proof -
    have "(case player_at running_duel ''A'' of None \<Rightarrow> False | Some p \<Rightarrow> yield_mode (player_yield p) = ''none'')"
      by code_simp
    then show ?thesis using that by (cases "player_at running_duel ''A''") auto
  qed
  have facts: "\<not> at_rest running_duel" "priority_player running_duel = Some ''A''" "priority_passes running_duel = []"
    "auto_pass_empty_priority (config running_duel)" "\<not> manual_active_main_phase_window running_duel ''A''"
    "stack_items running_duel = []"
    by code_simp+
  have fresh: "new_token [''x''] (capabilities running_duel) = Inr (''c_x'', [])" by code_simp
  have busy: "meaningful_ids (action_hints (offers busy_pump) running_duel ''A'') = Inr [PStr ''cast:bear'']"
    "truthy (dict_get PNone (action_hints (offers busy_pump) running_duel ''A'') ''cast'')"
    by code_simp+
  have "\<exists>h d. pump busy_pump [''x''] (Suc 0) running_duel = Inr h \<and> pending_decision h = Some d \<and> actors d = [''A'']
     \<and> priority_passes h = []"
    using player_asked [OF facts(1,2) p busy(1) fresh, of 0] busy(2) facts(3) by auto
  moreover obtain ids where ids: "meaningful_ids (action_hints (offers responding_pump) running_duel ''A'') = Inr ids"
    and special: "\<forall>key \<in> {''cast'', ''lands'', ''abilities''}.
      \<not> truthy (dict_get PNone (action_hints (offers responding_pump) running_duel ''A'') key)"
    using only_special [OF facts(6), of "''A''"] by blast
  have "\<exists>h. same_course running_duel h \<and> pump responding_pump [''x''] (Suc 1) running_duel
     = ebind (reraise PumpEngine (pass_priority (offers responding_pump) ''A'' True h)) (pump responding_pump [''x''] 1)"
    using player_asked [OF facts(1,2) p ids fresh, of 1] special facts(4,5) by simp
  ultimately show ?thesis by blast
qed

definition both_asked :: "permission_error + game_state \<times> decision_group \<times> string list" where
  "both_asked = issue ''mulligan.bottom'' ''pilot'' [''A'', ''B''] [''bottom''] [] True [] [''x'', ''y''] running_duel"

lemma answer_waits_witness:
  "\<exists>g d rest h r. both_asked = Inr (g, d, rest) \<and> submit quiet_commands [] ''c_x'' ''pilot:A'' ''bottom'' [] g = (h, Inr r)
     \<and> pending_decision h \<noteq> None \<and> cards h = cards g"
proof -
  have "(case both_asked of Inl e \<Rightarrow> False | Inr (g, d, rest) \<Rightarrow>
      (case accept_answer ''c_x'' ''pilot:A'' ''bottom'' [] g of Inl e \<Rightarrow> False
       | Inr h \<Rightarrow> \<not> decision_complete h \<and> assert_invariants h = Inr ()))"
    by code_simp
  then obtain g d rest h where run: "both_asked = Inr (g, d, rest)"
    "accept_answer ''c_x'' ''pilot:A'' ''bottom'' [] g = Inr h" "\<not> decision_complete h" "assert_invariants h = Inr ()"
    by (simp only: case_sum_False split_paired_Ex prod.case) blast
  from answer_waits [OF run(2-4), of quiet_commands "[]"] run(1) show ?thesis by auto
qed

end
