(* ===== verification/Mulligan.thy ===== *)
theory Mulligan imports Zone_Moves Trigger_Processing Turn_Steps
begin

text \<open>
  The multiplayer London mulligan (\<open>quorune/engine.py\<close>: \<open>_mulligan_hand_payload\<close>,
  \<open>_issue_mulligan_declaration\<close>, \<open>_complete_mulligan_declaration\<close>, \<open>_perform_mulligan_redraws\<close>,
  \<open>_complete_mulligan_bottom\<close>, \<open>_resolve_object\<close>): players who have not kept declare in turn order,
  then everyone who mulligans redraws, then the cards owed are put on the bottom, and the next round
  opens for those who have not kept, until everyone has and the game starts.

  The hand's signals, the display names, setup draws and the random order of a shuffle are
  callbacks; \<open>draws\<close> are the values the random source of the capability tokens will return.
\<close>

datatype mulligan_error =
    MulliganSeat engine_error
  | MulliganMove zone_error
  | MulliganAsk permission_error
  | MulliganObject string
  | MulliganAnswer string
  | BadContinuation
  | FunctionalHand string
  | InvalidDeclaration
  | NotACardList
  | WrongBottomCount string int
  | NoSuchCard string
  | AmbiguousCard string
  | BottomedTwice
  | DrawRefused

record mulligan_host =
  move_host :: zone_host
  turn_host :: step_host
  hand_signals :: "game_state \<Rightarrow> string \<Rightarrow> (string, pyval) dict"
  display_name :: "game_state \<Rightarrow> string \<Rightarrow> string"
  setup_draw :: "string \<Rightarrow> int \<Rightarrow> game_state \<Rightarrow> mulligan_error + game_state"
  shuffled_by :: "string \<Rightarrow> string list \<Rightarrow> string list"

section \<open>Naming a card\<close>

definition resolve_object ::
  "mulligan_host \<Rightarrow> string \<Rightarrow> string \<Rightarrow> string list option \<Rightarrow> bool \<Rightarrow> bool \<Rightarrow> game_state
     \<Rightarrow> mulligan_error + string \<times> card_instance" where
  "resolve_object host who text allowed controlled_only owned_only g =
     ebind (reraise MulliganSeat (require_seat g who False)) (\<lambda>_.
     let wanted = py_strip (casefold text);
         candidates = (case card_at g text of
             Some c \<Rightarrow> [(text, c)]
           | None \<Rightarrow> filter (\<lambda>(i, c). casefold (card_ref c) = wanted \<or> casefold (printed_name c) = wanted
                \<or> casefold (display_name host g (object_id c)) = wanted) (cards g));
         fitting = filter (\<lambda>(i, c). zone c \<noteq> ''outside''
             \<and> (case allowed of None \<Rightarrow> True | Some zs \<Rightarrow> zone c \<in> set zs)
             \<and> (controlled_only \<longrightarrow> controller c = who) \<and> (owned_only \<longrightarrow> owner c = who)) candidates in
     case fitting of
       [] \<Rightarrow> Inl (NoSuchCard text)
     | [ic] \<Rightarrow> Inr ic
     | _ \<Rightarrow> Inl (AmbiguousCard text))"

section \<open>Asking\<close>

definition free_mulligans_of :: "game_state \<Rightarrow> int" where
  "free_mulligans_of g = effective_free_mulligans (config g) (int (length (turn_order g)))"

definition the_player :: "game_state \<Rightarrow> string \<Rightarrow> mulligan_error + player_state" where
  "the_player g s = option_raise (MulliganSeat (UnknownSeat s)) (player_at g s)"

definition hand_of :: "game_state \<Rightarrow> string \<Rightarrow> mulligan_error + string list" where
  "hand_of g s = ebind (the_player g s) (\<lambda>p. option_raise (MulliganMove (NoOwnerZone s ''hand'')) (map_of (zones p) ''hand''))"

definition card_rows :: "game_state \<Rightarrow> string list \<Rightarrow> mulligan_error + pyval list" where
  "card_rows g ids =
     emap (\<lambda>i. ebind (option_raise (MulliganObject i) (card_at g i)) (\<lambda>c.
       Inr (PDict [(''id'', PStr (card_ref c)), (''name'', PStr (printed_name c))]))) ids"

definition decision_policy :: "game_state \<Rightarrow> player_state \<Rightarrow> string" where
  "decision_policy g p =
     (let penalty = max 0 (mulligans_taken p + 1 - free_mulligans_of g) in
      if mulligans_taken p \<ge> free_mulligans_of g then
        ''KEEP any functional hand after the free redraw. Do not chase an ideal seven: ''
        @ ''rejecting this hand means selecting the next opener from seven and immediately ''
        @ ''bottoming '' @ show_int penalty @ '', for a '' @ show_int (opening_hand_size (config g) - penalty)
        @ ''-card keep.''
      else ''This is the multiplayer free-mulligan decision. Mulligan only for a materially better chance ''
        @ ''at a functional opener, not a perfect one.'')"

definition mulligan_hand_payload :: "mulligan_host \<Rightarrow> string \<Rightarrow> game_state \<Rightarrow> mulligan_error + (string, pyval) dict" where
  "mulligan_hand_payload host s g =
     ebind (the_player g s) (\<lambda>p.
     ebind (hand_of g s) (\<lambda>ids.
     ebind (card_rows g ids) (\<lambda>rows.
     let free = free_mulligans_of g; penalty = max 0 (mulligans_taken p + 1 - free);
         size_now = opening_hand_size (config g) in
     Inr [(''hand'', PList rows), (''hand_size'', PInt (int (length ids))),
          (''mulligans_taken'', PInt (mulligans_taken p)), (''free_mulligans'', PInt free),
          (''signals'', PDict (hand_signals host g s)),
          (''if_mulligan'', PDict [(''draw'', PInt size_now), (''bottom'', PInt penalty),
             (''resulting_hand_size'', PInt (size_now - penalty))]),
          (''decision_policy'', PStr (decision_policy g p))])))"

definition declaration_continuation :: "int \<Rightarrow> string list \<Rightarrow> nat \<Rightarrow> string list \<Rightarrow> (string, pyval) dict" where
  "declaration_continuation round_no seats i leaving =
     [(''round'', PInt round_no), (''actors'', strs seats), (''index'', PInt (int i)),
      (''mulliganers'', strs leaving)]"

definition ask_declaration ::
  "mulligan_host \<Rightarrow> string list \<Rightarrow> int \<Rightarrow> string list \<Rightarrow> nat \<Rightarrow> string list \<Rightarrow> game_state
     \<Rightarrow> mulligan_error + game_state" where
  "ask_declaration host draws round_no seats i leaving g =
     (let s = seats ! i in
      ebind (mulligan_hand_payload host s g) (\<lambda>payload.
      ebind (reraise MulliganAsk (issue ''mulligan.declare'' ''pilot'' [s] [''keep'', ''mulligan''] [(s, payload)]
               False (declaration_continuation round_no seats i leaving) draws g)) (\<lambda>(h, _, _). Inr h)))"

text \<open>\<open>_issue_mulligan_declaration\<close> without actors opens a round, or starts the game.\<close>

definition open_round :: "mulligan_host \<Rightarrow> string list \<Rightarrow> game_state \<Rightarrow> mulligan_error + game_state" where
  "open_round host draws g =
     ebind (emap (\<lambda>s. ebind (the_player g s) (\<lambda>p. Inr (s, kept_hand p))) (turn_order g)) (\<lambda>kept.
     let seats = map fst (filter (\<lambda>(s, k). \<not> k) kept) in
     if seats = [] then reraise MulliganSeat (start_game (turn_host host) g)
     else
       let round_no = mulligan_round g + 1;
           g1 = log_event ((new_entry None ''mulligan.round''
                  (''Mulligan round '' @ show_int round_no @ '' declarations opened in turn order.'') 1)
                  \<lparr>log_details := [(''actors'', strs seats)]\<rparr>)
                (g\<lparr>mulligan_round := round_no\<rparr>) in
       ask_declaration host draws round_no seats 0 [] g1)"

section \<open>Redraws\<close>

definition setup_move :: "pyval \<Rightarrow> move_request" where
  "setup_move position = \<lparr>request_controller = None, request_tapped = False, request_face = None,
     request_protector = None, request_timestamp = None, request_position = position, request_reveal = [],
     request_reason = [], request_log = False, request_kind = Ordinary\<rparr>"

definition count_mulligan :: "game_state \<Rightarrow> player_state \<Rightarrow> player_state" where
  "count_mulligan g p =
     p\<lparr>mulligans_taken := mulligans_taken p + 1,
       mulligan_penalty := max 0 (mulligans_taken p + 1 - free_mulligans_of g)\<rparr>"

definition redraw :: "mulligan_host \<Rightarrow> game_state \<Rightarrow> string \<Rightarrow> mulligan_error + game_state" where
  "redraw host g s =
     ebind (hand_of g s) (\<lambda>ids.
     ebind (efold (\<lambda>h i. reraise MulliganMove (move_card (move_host host) i ''library'' (setup_move (PStr ''top'')) h))
              g ids) (\<lambda>g1.
     ebind (reraise MulliganMove (shuffle_library (shuffled_by host)
              (case rng_seed (config g1) of None \<Rightarrow> ''None'' | Some n \<Rightarrow> show_int n) s ''mulligan'' g1)) (\<lambda>g2.
     ebind (setup_draw host s (opening_hand_size (config g2)) (edit_player s (count_mulligan g2) g2)) (\<lambda>g3.
     ebind (the_player g3 s) (\<lambda>p.
     let owed = mulligan_penalty p;
         g4 = edit_player s (\<lambda>p. p\<lparr>mulligan_status := (if owed \<noteq> 0 then ''bottoming'' else ''pending'')\<rparr>) g3 in
     Inr (log_event ((new_entry (Some s) ''mulligan.redraw''
            (s @ '' redrew seven; penalty is '' @ show_int owed @ '' bottom card(s).'') 2)
          \<lparr>log_details := [(''mulligans'', PInt (mulligans_taken p)), (''bottom'', PInt owed)],
           log_players := [s]\<rparr>) g4))))))"

definition bottom_payload :: "game_state \<Rightarrow> string \<Rightarrow> mulligan_error + string \<times> (string, pyval) dict" where
  "bottom_payload g s =
     ebind (the_player g s) (\<lambda>p.
     ebind (hand_of g s) (\<lambda>ids.
     ebind (card_rows g ids) (\<lambda>rows.
     Inr (s, [(''count'', PInt (mulligan_penalty p)), (''hand'', PList rows)]))))"

definition perform_redraws ::
  "mulligan_host \<Rightarrow> string list \<Rightarrow> string list \<Rightarrow> game_state \<Rightarrow> mulligan_error + game_state" where
  "perform_redraws host draws leaving g =
     ebind (efold (redraw host) g leaving) (\<lambda>g1.
     ebind (emap (\<lambda>s. ebind (the_player g1 s) (\<lambda>p. Inr (s, mulligan_penalty p))) leaving) (\<lambda>owed.
     let bottomers = map fst (filter (\<lambda>(s, n). n \<noteq> 0) owed) in
     if bottomers \<noteq> [] then
       ebind (emap (bottom_payload g1) bottomers) (\<lambda>payloads.
       ebind (reraise MulliganAsk (issue ''mulligan.bottom'' ''pilot'' bottomers [''bottom''] payloads True [] draws g1))
         (\<lambda>(h, _, _). Inr h))
     else if list_all (\<lambda>(s, p). kept_hand p) (players g1) then reraise MulliganSeat (start_game (turn_host host) g1)
     else open_round host draws g1))"

section \<open>Declaring\<close>

definition issue_mulligan_declaration ::
  "mulligan_host \<Rightarrow> string list \<Rightarrow> int \<Rightarrow> string list \<Rightarrow> nat \<Rightarrow> string list \<Rightarrow> game_state
     \<Rightarrow> mulligan_error + game_state" where
  "issue_mulligan_declaration host draws round_no seats i leaving g =
     (if length seats \<le> i then perform_redraws host draws leaving g
      else ask_declaration host draws round_no seats i leaving g)"

fun join_comma :: "string list \<Rightarrow> string" where
  "join_comma [] = []"
| "join_comma [x] = x"
| "join_comma (x # xs) = x @ '', '' @ join_comma xs"

definition keep_hand :: "string \<Rightarrow> game_state \<Rightarrow> mulligan_error + game_state" where
  "keep_hand s g =
     ebind (the_player g s) (\<lambda>p.
     ebind (hand_of g s) (\<lambda>ids.
     ebind (emap (\<lambda>i. option_raise (MulliganObject i) (card_at g i)) ids) (\<lambda>held.
     let g1 = edit_player s (\<lambda>p. p\<lparr>kept_hand := True, mulligan_status := ''kept''\<rparr>) g;
         g2 = log_event ((new_entry (Some s) ''mulligan.keep''
                (s @ '' kept '' @ show_int (int (length ids)) @ '' cards after '' @ show_int (mulligans_taken p)
                 @ '' mulligan(s).'') 2)
              \<lparr>log_details := [(''hand_size'', PInt (int (length ids))), (''mulligans'', PInt (mulligans_taken p))],
               log_players := [s]\<rparr>) g1 in
     Inr (log_event ((new_entry (Some s) ''mulligan.keep.private''
            (s @ '' kept: '' @ join_comma (map printed_name held) @ ''.'') 1)
          \<lparr>log_details := [(''objects'', strs (map card_ref held))], log_visibility := [s, ''analyst'']\<rparr>) g2))))"

definition override_given :: "(string, pyval) dict \<Rightarrow> bool" where
  "override_given response =
     (case dict_get PNone response ''override_reason'' of
        PStr t \<Rightarrow> py_strip t \<noteq> []
      | v \<Rightarrow> truthy v)"

definition leave_hand :: "mulligan_host \<Rightarrow> string \<Rightarrow> (string, pyval) dict \<Rightarrow> pyval \<Rightarrow> game_state
     \<Rightarrow> mulligan_error + game_state" where
  "leave_hand host s response round_no g =
     ebind (the_player g s) (\<lambda>p.
     ebind (ensure (\<not> (realistic_mulligan_guard (config g) \<and> mulligans_taken p \<ge> free_mulligans_of g
               \<and> truthy (dict_get PNone (hand_signals host g s) ''functional_baseline'')
               \<and> \<not> override_given response)) (FunctionalHand s)) (\<lambda>_.
     Inr (log_event ((new_entry (Some s) ''mulligan.declare''
            (s @ '' declared a mulligan in round ''
             @ (case round_no of PInt n \<Rightarrow> show_int n | _ \<Rightarrow> ''None'') @ ''.'') 1)
          \<lparr>log_details := [(''round'', round_no)]\<rparr>) g)))"

fun as_texts :: "pyval \<Rightarrow> mulligan_error + string list" where
  "as_texts (PList vs) = emap (\<lambda>v. option_raise BadContinuation (case v of PStr s \<Rightarrow> Some s | _ \<Rightarrow> None)) vs"
| "as_texts v = (if truthy v then Inl BadContinuation else Inr [])"

definition complete_mulligan_declaration ::
  "mulligan_host \<Rightarrow> string list \<Rightarrow> decision_group \<Rightarrow> game_state \<Rightarrow> mulligan_error + game_state" where
  "complete_mulligan_declaration host draws d g =
     (case actors d of
        [] \<Rightarrow> Inl BadContinuation
      | s # _ \<Rightarrow>
          ebind (option_raise (MulliganAnswer s) (map_of (responses d) s)) (\<lambda>response.
          ebind (option_raise (MulliganAnswer s) (map_of response ''action'')) (\<lambda>action.
          ebind (as_texts (dict_get PNone (continuation d) ''mulliganers'')) (\<lambda>leaving.
          ebind (if action = PStr ''keep'' then ebind (keep_hand s g) (\<lambda>h. Inr (h, leaving))
                 else if action = PStr ''mulligan'' then
                   ebind (leave_hand host s response (dict_get PNone (continuation d) ''round'') g)
                     (\<lambda>h. Inr (h, leaving @ [s]))
                 else Inl InvalidDeclaration) (\<lambda>(h, leaving1).
          ebind (as_texts (dict_get PNone (continuation d) ''actors'')) (\<lambda>seats.
          ebind (option_raise BadContinuation (exact_int (dict_get (PInt 0) (continuation d) ''index''))) (\<lambda>i.
          let round_no = (case exact_int (dict_get PNone (continuation d) ''round'') of
                Some n \<Rightarrow> if n \<noteq> 0 then n else mulligan_round h | None \<Rightarrow> mulligan_round h) in
          issue_mulligan_declaration host draws round_no (if seats = [] then [s] else seats) (nat (i + 1))
            leaving1 h)))))))"

section \<open>Bottoming\<close>

fun iterated :: "pyval \<Rightarrow> mulligan_error + pyval list" where
  "iterated (PList vs) = Inr vs"
| "iterated (PStr s) = Inr (map (\<lambda>c. PStr [c]) s)"
| "iterated (PDict d) = Inr (map (\<lambda>(k, v). PStr k) d)"
| "iterated v = (if truthy v then Inl NotACardList else Inr [])"

definition chosen_cards :: "(string, pyval) dict \<Rightarrow> mulligan_error + pyval list" where
  "chosen_cards response =
     (let pick = (\<lambda>k. dict_get PNone response k) in
      iterated (if truthy (pick ''cards'') then pick ''cards''
                else if truthy (pick ''card_ids'') then pick ''card_ids''
                else if truthy (pick ''bottom'') then pick ''bottom'' else PList []))"

definition resolve_bottomed ::
  "mulligan_host \<Rightarrow> string \<Rightarrow> game_state \<Rightarrow> string list \<Rightarrow> pyval \<Rightarrow> mulligan_error + string list" where
  "resolve_bottomed host s g resolved v =
     ebind (resolve_object host s (py_text v) (Some [''hand'']) False True g) (\<lambda>(_, c).
     ebind (ensure (object_id c \<notin> set resolved) BottomedTwice) (\<lambda>_.
     Inr (resolved @ [object_id c])))"

definition bottom_cards :: "mulligan_host \<Rightarrow> decision_group \<Rightarrow> game_state \<Rightarrow> string \<Rightarrow> mulligan_error + game_state" where
  "bottom_cards host d g s =
     ebind (the_player g s) (\<lambda>p.
     ebind (option_raise (MulliganAnswer s) (map_of (responses d) s)) (\<lambda>response.
     ebind (chosen_cards response) (\<lambda>values.
     let required = mulligan_penalty p in
     ebind (ensure (int (length values) = required) (WrongBottomCount s required)) (\<lambda>_.
     ebind (efold (resolve_bottomed host s g) [] values) (\<lambda>resolved.
     ebind (efold (\<lambda>h i. reraise MulliganMove (move_card (move_host host) i ''library'' (setup_move (PStr ''bottom'')) h))
              g resolved) (\<lambda>g1.
     let g2 = edit_player s (\<lambda>p. p\<lparr>mulligan_status := ''pending''\<rparr>) g1 in
     ebind (hand_of g2 s) (\<lambda>ids.
     Inr (log_event ((new_entry (Some s) ''mulligan.bottom''
            (s @ '' bottomed '' @ show_int required @ '' card(s); current hand size ''
             @ show_int (int (length ids)) @ ''.'') 2)
          \<lparr>log_details := [(''count'', PInt required)], log_objects := resolved, log_players := [s]\<rparr>) g2))))))))"

definition complete_mulligan_bottom ::
  "mulligan_host \<Rightarrow> string list \<Rightarrow> decision_group \<Rightarrow> game_state \<Rightarrow> mulligan_error + game_state" where
  "complete_mulligan_bottom host draws d g =
     ebind (efold (bottom_cards host d) g (actors d)) (open_round host draws)"

section \<open>Cards put on the bottom come from the hand\<close>

lemma resolve_object_hand:
  assumes "resolve_object host s t (Some [''hand'']) False True g = Inr (i, c)" and "table_ok g"
  shows "object_id c \<in> set (zone_of g s ''hand'')"
proof -
  have dicts: "distinct (map fst (cards g))" and keyed: "keyed g" and zones: "zones_ok g"
    using assms(2) by (simp_all add: table_ok_def dicts_ok_def)
  define candidates where "candidates = (case card_at g t of Some c \<Rightarrow> [(t, c)]
    | None \<Rightarrow> filter (\<lambda>(i, c). casefold (card_ref c) = py_strip (casefold t) \<or> casefold (printed_name c) = py_strip (casefold t)
         \<or> casefold (display_name host g (object_id c)) = py_strip (casefold t)) (cards g))"
  define fitting where "fitting = filter (\<lambda>(i, c). zone c \<noteq> ''outside''
      \<and> (case Some [''hand''] of None \<Rightarrow> True | Some zs \<Rightarrow> zone c \<in> set zs)
      \<and> (False \<longrightarrow> controller c = s) \<and> (True \<longrightarrow> owner c = s)) candidates"
  have "require_seat g s False = Inr ()"
    using assms(1) by (cases "require_seat g s False") (simp_all add: resolve_object_def)
  then have "(case fitting of [] \<Rightarrow> Inl (NoSuchCard t) | [ic] \<Rightarrow> Inr ic | _ \<Rightarrow> Inl (AmbiguousCard t)) = Inr (i, c)"
    using assms(1) unfolding resolve_object_def Let_def candidates_def fitting_def by simp
  then have "fitting = [(i, c)]" by (auto split: list.splits)
  then have mem: "(i, c) \<in> set fitting" by simp
  then have zc: "zone c = ''hand''" "owner c = s" and "(i, c) \<in> set candidates" by (auto simp: fitting_def)
  then have "(i, c) \<in> set (cards g)" by (auto simp: candidates_def split: option.splits dest: map_of_SomeD)
  then have at: "card_at g i = Some c" using dicts by simp
  then have "object_id c = i" using keyed by (simp add: keyed_def)
  moreover have "placed g i c" using zones at by (simp add: zones_ok_def)
  ultimately show ?thesis using zc by (auto simp: placed_def OWNER_ZONES_def)
qed

lemma resolve_all:
  assumes "efold (resolve_bottomed host s g) found values = Inr resolved" and "table_ok g"
    and "distinct found" and "set found \<subseteq> set (zone_of g s ''hand'')"
  shows "distinct resolved \<and> set resolved \<subseteq> set (zone_of g s ''hand'') \<and> length resolved = length found + length values"
  using assms
proof (induction "values" arbitrary: found)
  case (Cons v vs)
  then obtain found1 where first: "resolve_bottomed host s g found v = Inr found1"
    and rest: "efold (resolve_bottomed host s g) found1 vs = Inr resolved"
    by (auto simp: ebind_eq_Inr)
  from first obtain i c where one: "resolve_object host s (py_text v) (Some [''hand'']) False True g = Inr (i, c)"
    and new: "object_id c \<notin> set found" "found1 = found @ [object_id c]"
    by (auto simp: resolve_bottomed_def ebind_eq_Inr ebind_ensure_Inr)
  from Cons.IH [OF rest] resolve_object_hand [OF one Cons.prems(2)] new Cons.prems show ?case by auto
qed simp

text \<open>
  C8. Cards go to the bottom from the hand that owes them: an accepted answer names exactly as many
  cards as the player owes, each of them different and in that player's hand; so no answer of a
  player who owes more cards than they hold is ever accepted.
\<close>

theorem bottomed_from_hand:
  assumes "table_ok g" and "player_at g s = Some p" and "bottom_cards host d g s = Inr h"
  shows "mulligan_penalty p \<le> int (length (zone_of g s ''hand''))
    \<and> (\<exists>answer values resolved. map_of (responses d) s = Some answer \<and> chosen_cards answer = Inr values
         \<and> efold (resolve_bottomed host s g) [] values = Inr resolved
         \<and> int (length values) = mulligan_penalty p \<and> length resolved = length values
         \<and> distinct resolved \<and> set resolved \<subseteq> set (zone_of g s ''hand''))"
proof -
  obtain answer where answer: "map_of (responses d) s = Some answer"
    using assms(2,3) by (cases "map_of (responses d) s") (simp_all add: bottom_cards_def the_player_def)
  obtain "values" where vals: "chosen_cards answer = Inr values"
    using assms(2,3) answer by (cases "chosen_cards answer") (simp_all add: bottom_cards_def the_player_def)
  have run: "ebind (ensure (int (length values) = mulligan_penalty p) (WrongBottomCount s (mulligan_penalty p))) (\<lambda>_.
     ebind (efold (resolve_bottomed host s g) [] values) (\<lambda>resolved.
     ebind (efold (\<lambda>h i. reraise MulliganMove (move_card (move_host host) i ''library'' (setup_move (PStr ''bottom'')) h))
              g resolved) (\<lambda>g1.
     let g2 = edit_player s (\<lambda>p. p\<lparr>mulligan_status := ''pending''\<rparr>) g1 in
     ebind (hand_of g2 s) (\<lambda>ids.
     Inr (log_event ((new_entry (Some s) ''mulligan.bottom''
            (s @ '' bottomed '' @ show_int (mulligan_penalty p) @ '' card(s); current hand size ''
             @ show_int (int (length ids)) @ ''.'') 2)
          \<lparr>log_details := [(''count'', PInt (mulligan_penalty p))], log_objects := resolved, log_players := [s]\<rparr>) g2))))) = Inr h"
    using assms(3) unfolding bottom_cards_def the_player_def assms(2) answer vals option_raise_simps ebind_simps
      Let_def [of "mulligan_penalty p"] .
  then have count: "int (length values) = mulligan_penalty p" unfolding ebind_ensure_Inr by blast
  obtain resolved where res: "efold (resolve_bottomed host s g) [] values = Inr resolved"
    using run count by (cases "efold (resolve_bottomed host s g) [] values") simp_all
  have facts: "distinct resolved" "set resolved \<subseteq> set (zone_of g s ''hand'')" "length resolved = length values"
    using resolve_all [OF res assms(1)] by simp_all
  have "length resolved \<le> length (zone_of g s ''hand'')"
    using card_mono [OF _ facts(2)] distinct_card [OF facts(1)] card_length [of "zone_of g s ''hand''"] by simp
  with facts count answer vals res show ?thesis by auto
qed

section \<open>A round of declarations\<close>

definition declare_hand ::
  "mulligan_host \<Rightarrow> string list \<Rightarrow> (string, pyval) dict \<Rightarrow> game_state \<Rightarrow> mulligan_error + game_state" where
  "declare_hand host draws answer g =
     ebind (reraise MulliganAsk (close_decision g)) (\<lambda>(h, d).
     complete_mulligan_declaration host draws (d\<lparr>responses := map (\<lambda>s. (s, answer)) (actors d)\<rparr>) h)"

text \<open>Nothing but flags and the log has changed.\<close>

definition same_hands :: "game_state \<Rightarrow> game_state \<Rightarrow> bool" where
  "same_hands g h \<longleftrightarrow> cards h = cards g \<and> turn_order h = turn_order g
     \<and> (\<forall>s. map_option zones (player_at h s) = map_option zones (player_at g s))"

lemma same_hands_trans: "same_hands g h \<Longrightarrow> same_hands h k \<Longrightarrow> same_hands g k"
  by (simp add: same_hands_def)

lemma keep_hand_frame:
  assumes "keep_hand s g = Inr h"
  shows "same_hands g h" and "map_option kept_hand (player_at h t)
    = (if t = s then Some True else map_option kept_hand (player_at g t))"
proof -
  let ?g1 = "edit_player s (\<lambda>p. p\<lparr>kept_hand := True, mulligan_status := ''kept''\<rparr>) g"
  obtain p where p: "player_at g s = Some p"
    using assms by (cases "player_at g s") (simp_all add: keep_hand_def the_player_def)
  obtain l1 l2 where h: "h = log_event l2 (log_event l1 ?g1)"
    using assms by (auto simp: keep_hand_def Let_def ebind_eq_Inr)
  show "same_hands g h" by (simp add: h same_hands_def option.map_comp comp_def)
  show "map_option kept_hand (player_at h t) = (if t = s then Some True else map_option kept_hand (player_at g t))"
    using p by (simp add: h)
qed

lemma leave_hand_frame:
  assumes "leave_hand host s answer r g = Inr h"
  shows "same_hands g h" and "players h = players g"
proof -
  obtain l where "h = log_event l g"
    using assms by (auto simp: leave_hand_def ebind_eq_Inr ebind_ensure_Inr)
  then show "same_hands g h" "players h = players g" by (simp_all add: same_hands_def)
qed

lemma as_texts_strs [simp]: "as_texts (strs xs) = Inr xs"
  by (induction xs) (simp_all add: strs_def)

lemma asked_declaration:
  assumes "ask_declaration host draws r seats i leaving g = Inr k"
  shows "\<exists>d h. close_decision k = Inr (h, d) \<and> actors d = [seats ! i]
    \<and> continuation d = declaration_continuation r seats i leaving \<and> same_hands g h \<and> players h = players g"
proof -
  obtain payload rest d where
    "issue ''mulligan.declare'' ''pilot'' [seats ! i] [''keep'', ''mulligan''] [(seats ! i, payload)]
      False (declaration_continuation r seats i leaving) draws g = Inr (k, d, rest)"
    using assms by (auto simp: ask_declaration_def Let_def ebind_eq_Inr)
  then have "pending_decision k = Some d" "actors d = [seats ! i]"
    "continuation d = declaration_continuation r seats i leaving" "players k = players g" "cards k = cards g"
    "turn_order k = turn_order g"
    by (auto simp: issue_def Let_def ebind_eq_Inr)
  then show ?thesis by (simp add: close_decision_def same_hands_def)
qed

lemma declare_hand_step:
  assumes "ask_declaration host draws0 r seats i leaving g = Inr k" and "i < length seats"
    and "declare_hand host draws answer k = Inr h"
  shows "\<exists>j r'. issue_mulligan_declaration host draws r' seats (Suc i)
      (if map_of answer ''action'' = Some (PStr ''keep'') then leaving else leaving @ [seats ! i]) j = Inr h
    \<and> map_of answer ''action'' \<in> {Some (PStr ''keep''), Some (PStr ''mulligan'')} \<and> same_hands g j
    \<and> (\<forall>t. map_option kept_hand (player_at j t) =
        (if t = seats ! i \<and> map_of answer ''action'' = Some (PStr ''keep'') then Some True
         else map_option kept_hand (player_at g t)))"
proof -
  let ?s = "seats ! i"
  obtain d g1 where d: "close_decision k = Inr (g1, d)" "actors d = [?s]"
      "continuation d = declaration_continuation r seats i leaving" and g1: "same_hands g g1" "players g1 = players g"
    using asked_declaration [OF assms(1)] by blast
  have cont: "dict_get PNone (continuation d) ''mulliganers'' = strs leaving"
    "dict_get PNone (continuation d) ''actors'' = strs seats" "dict_get (PInt 0) (continuation d) ''index'' = PInt (int i)"
    by (simp_all add: d(3) declaration_continuation_def dict_get_def)
  have ne: "seats \<noteq> []" using assms(2) by auto
  let ?d = "d\<lparr>responses := [(?s, answer)]\<rparr>"
  have run: "complete_mulligan_declaration host draws ?d g1 = Inr h"
    using assms(3) d by (simp add: declare_hand_def)
  obtain action where action: "map_of answer ''action'' = Some action"
    using run d(2) by (cases "map_of answer ''action''") (simp_all add: complete_mulligan_declaration_def)
  obtain g2 out r' where branch: "(if action = PStr ''keep'' then ebind (keep_hand ?s g1) (\<lambda>h. Inr (h, leaving))
      else if action = PStr ''mulligan'' then
        ebind (leave_hand host ?s answer (dict_get PNone (continuation ?d) ''round'') g1) (\<lambda>h. Inr (h, leaving @ [?s]))
      else Inl InvalidDeclaration) = Inr (g2, out)"
    and rest: "issue_mulligan_declaration host draws r' seats (nat (int i + 1)) out g2 = Inr h"
    using run d(2) cont ne
    by (auto simp: complete_mulligan_declaration_def action Let_def ebind_eq_Inr)
  have i: "nat (int i + 1) = Suc i" by simp
  show ?thesis
  proof (cases "action = PStr ''keep''")
    case True
    with branch have keep: "keep_hand ?s g1 = Inr g2" "out = leaving" by (auto simp: ebind_eq_Inr)
    from keep_hand_frame [OF keep(1)] rest True keep(2) g1 same_hands_trans show ?thesis
      by (intro exI [of _ g2] exI [of _ r']) (auto simp: action i)
  next
    case False
    with branch have leave: "action = PStr ''mulligan''"
      "leave_hand host ?s answer (dict_get PNone (continuation ?d) ''round'') g1 = Inr g2" "out = leaving @ [?s]"
      by (auto simp: ebind_eq_Inr split: if_splits)
    from leave_hand_frame [OF leave(2)] rest False leave(1,3) g1 same_hands_trans show ?thesis
      by (intro exI [of _ g2] exI [of _ r']) (auto simp: action i)
  qed
qed

definition leavers :: "string list \<Rightarrow> (string list \<times> (string, pyval) dict) list \<Rightarrow> string list" where
  "leavers seats replies =
     map fst (filter (\<lambda>(s, _, a). map_of a ''action'' \<noteq> Some (PStr ''keep'')) (zip seats replies))"

definition keepers :: "string list \<Rightarrow> (string list \<times> (string, pyval) dict) list \<Rightarrow> string list" where
  "keepers seats replies =
     map fst (filter (\<lambda>(s, _, a). map_of a ''action'' = Some (PStr ''keep'')) (zip seats replies))"

text \<open>
  C7. A round of mulligan declarations: the players asked declare one after the other, in the order
  of the round; only after the last of them do the redraws happen, all together, for exactly
  those who did not keep and in the order in which they declared; until then no card has moved,
  and the players who kept are the only ones whose hand is now final.
\<close>

theorem declaration_round:
  assumes "ask_declaration host draws r seats i leaving g = Inr k" and "i < length seats"
    and "length replies = length seats - i"
    and "efold (\<lambda>g (draws, answer). declare_hand host draws answer g) k replies = Inr h"
  shows "\<exists>j. perform_redraws host (fst (last replies)) (leaving @ leavers (drop i seats) replies) j = Inr h
    \<and> cards j = cards g \<and> (\<forall>s. map_option zones (player_at j s) = map_option zones (player_at g s))
    \<and> (\<forall>s. map_option kept_hand (player_at j s) = (if s \<in> set (keepers (drop i seats) replies) then Some True
         else map_option kept_hand (player_at g s)))"
  using assms
proof (induction replies arbitrary: draws r i leaving g k)
  case (Cons a replies)
  obtain dr answer where a: "a = (dr, answer)" by (cases a)
  obtain k1 where k1: "declare_hand host dr answer k = Inr k1"
    and run: "efold (\<lambda>g (draws, answer). declare_hand host draws answer g) k1 replies = Inr h"
    using Cons.prems(4) by (auto simp: a ebind_eq_Inr)
  let ?keep = "map_of answer ''action'' = Some (PStr ''keep'')"
  let ?out = "if ?keep then leaving else leaving @ [seats ! i]"
  obtain j r' where j: "issue_mulligan_declaration host dr r' seats (Suc i) ?out j = Inr k1"
    and same: "same_hands g j"
    and kept: "\<And>t. map_option kept_hand (player_at j t) = (if t = seats ! i \<and> ?keep then Some True
        else map_option kept_hand (player_at g t))"
    using declare_hand_step [OF Cons.prems(1,2) k1] by blast
  have drop: "drop i seats = seats ! i # drop (Suc i) seats" using Cons.prems(2) by (simp add: Cons_nth_drop_Suc)
  have out: "leaving @ leavers (drop i seats) (a # replies) = ?out @ leavers (drop (Suc i) seats) replies"
    by (simp add: drop leavers_def a)
  have keep: "set (keepers (drop i seats) (a # replies))
      = (if ?keep then {seats ! i} else {}) \<union> set (keepers (drop (Suc i) seats) replies)"
    by (simp add: drop keepers_def a)
  show ?case
  proof (cases "replies = []")
    case True
    with Cons.prems(2,3) have last: "length seats = Suc i" by simp
    with j run True have "perform_redraws host dr ?out j = Inr h" by (simp add: issue_mulligan_declaration_def)
    then show ?thesis using True last same kept out keep
      by (intro exI [of _ j]) (auto simp: a same_hands_def leavers_def keepers_def)
  next
    case False
    with Cons.prems(2,3) have more: "Suc i < length seats" by (cases replies) auto
    with j have "ask_declaration host dr r' seats (Suc i) ?out j = Inr k1"
      by (simp add: issue_mulligan_declaration_def)
    have len: "length replies = length seats - Suc i" using Cons.prems(3) by simp
    from Cons.IH [OF \<open>ask_declaration host dr r' seats (Suc i) ?out j = Inr k1\<close> more len run] obtain f where
      f: "perform_redraws host (fst (last replies)) (?out @ leavers (drop (Suc i) seats) replies) f = Inr h"
        "cards f = cards j" "\<And>s. map_option zones (player_at f s) = map_option zones (player_at j s)"
        "\<And>s. map_option kept_hand (player_at f s) = (if s \<in> set (keepers (drop (Suc i) seats) replies) then Some True
           else map_option kept_hand (player_at j s))"
      by blast
    show ?thesis using f False same kept unfolding out keep
      by (intro exI [of _ f]) (auto simp: same_hands_def)
  qed
qed simp

section \<open>A concrete table\<close>

definition plain_mulligans :: mulligan_host where
  "plain_mulligans = \<lparr>move_host = plain_host,
     turn_host = \<lparr>on_step = (\<lambda>_ _ _ _ g. Inr g), on_cleanup = Inr\<rparr>,
     hand_signals = (\<lambda>_ _. []), display_name = (\<lambda>_ i. i), setup_draw = (\<lambda>_ _ g. Inr g), shuffled_by = (\<lambda>_ ids. ids)\<rparr>"

definition owing_table :: game_state where
  "owing_table = edit_player ''B'' (\<lambda>p. p\<lparr>mulligan_penalty := 1\<rparr>) small_table"

definition bottom_imp :: decision_group where
  "bottom_imp = \<lparr>decision_id = ''D1'', decision_kind = ''mulligan.bottom'', decision_role = ''pilot'', actors = [''B''],
     decision_actions = [''bottom''], payload_by_actor = [], simultaneous = True,
     responses = [(''B'', [(''action'', PStr ''bottom''), (''cards'', PList [PStr ''imp''])])],
     continuation = [], decision_revision = 0\<rparr>"

lemma owing_table_ok: "table_ok owing_table"
proof -
  have dicts: "dicts_ok owing_table"
    by (auto simp: dicts_ok_def owing_table_def small_table_def with_zone_def new_player_def edit_player_def
        split: if_splits)
  have keyed: "keyed owing_table" by (simp add: owing_table_def small_table_keyed)
  have "check_zones owing_table = Inr ()" by code_simp
  then have lists: "\<forall>s z. distinct (zone_of owing_table s z) \<and> (\<forall>i \<in> set (zone_of owing_table s z). card_at owing_table i \<noteq> None)"
    using check_zones_iff [OF dicts] by simp
  have "list_all (\<lambda>ic. check_place owing_table ic = Inr ()) (cards owing_table)" by code_simp
  then have "placed owing_table i c" if "card_at owing_table i = Some c" for i c
    using that check_place_iff [OF dicts] lists by (auto simp: list_all_iff dest: map_of_SomeD)
  with lists dicts keyed show ?thesis by (simp add: table_ok_def zones_ok_def)
qed

lemma bottomed_from_hand_witness:
  "(case bottom_cards plain_mulligans bottom_imp owing_table ''B'' of Inl _ \<Rightarrow> False
    | Inr h \<Rightarrow> int (length (zone_of owing_table ''B'' ''hand'')) \<ge> 1)"
proof (cases "bottom_cards plain_mulligans bottom_imp owing_table ''B''")
  case (Inl e)
  have "(case bottom_cards plain_mulligans bottom_imp owing_table ''B'' of Inl _ \<Rightarrow> False | Inr _ \<Rightarrow> True)" by code_simp
  with Inl show ?thesis by simp
next
  case (Inr h)
  have "(case player_at owing_table ''B'' of None \<Rightarrow> False | Some p \<Rightarrow> mulligan_penalty p = 1)" by code_simp
  then obtain p where p: "player_at owing_table ''B'' = Some p" "mulligan_penalty p = 1"
    by (cases "player_at owing_table ''B''") auto
  from bottomed_from_hand [OF owing_table_ok p(1) Inr] p(2) show ?thesis by (simp add: Inr)
qed

definition one_leaves :: "(string list \<times> (string, pyval) dict) list" where
  "one_leaves = [([''x''], [(''action'', PStr ''keep'')]), ([''y'', ''z''], [(''action'', PStr ''mulligan'')])]"

lemma declaration_round_witness:
  "\<exists>k h j. ask_declaration plain_mulligans [''w''] 1 [''A'', ''B''] 0 [] small_table = Inr k
     \<and> efold (\<lambda>g (draws, answer). declare_hand plain_mulligans draws answer g) k one_leaves = Inr h
     \<and> perform_redraws plain_mulligans [''y'', ''z''] [''B''] j = Inr h"
proof -
  have "(case ask_declaration plain_mulligans [''w''] 1 [''A'', ''B''] 0 [] small_table of Inl _ \<Rightarrow> False
      | Inr k \<Rightarrow> (case efold (\<lambda>g (draws, answer). declare_hand plain_mulligans draws answer g) k one_leaves of
           Inl _ \<Rightarrow> False | Inr h \<Rightarrow> True))" by code_simp
  then obtain k h where run: "ask_declaration plain_mulligans [''w''] 1 [''A'', ''B''] 0 [] small_table = Inr k"
    "efold (\<lambda>g (draws, answer). declare_hand plain_mulligans draws answer g) k one_leaves = Inr h"
    by (simp only: case_sum_False split_paired_Ex prod.case) blast
  have len: "0 < length [''A'', ''B'']" "length one_leaves = length [''A'', ''B''] - 0" by (simp_all add: one_leaves_def)
  have out: "[] @ leavers (drop 0 [''A'', ''B'']) one_leaves = [''B'']" "fst (last one_leaves) = [''y'', ''z'']"
    by (simp_all add: leavers_def one_leaves_def)
  from declaration_round [OF run(1) len run(2)] run show ?thesis unfolding out by blast
qed

end
