(* ===== verification/Declaration_Constraints.thy ===== *)
theory Declaration_Constraints imports Engine_Core
begin

text \<open>
  Combat declarations as finite problems (\<open>quorune/combat_constraints.py\<close>, CR 508.1d and 509.1c): each
  variable is left out or takes one option of its domain, restrictions must be obeyed, and among
  the declarations that obey them a legal one satisfies as many requirements as possible.  The
  maximum is found by a search with early exit and a limit on the states it visits.

  The kinds of requirements and restrictions are the literal types of the source; a declaration is a
  dictionary from variables to options.
\<close>

datatype constraint_error =
    NotEligible string
  | NotLegalFor string string
  | CostNotRepresented
  | SearchLimit
  | RestrictionIdRequired
  | NegativeRestrictionCount
  | OptionRequired
  | OptionNotAccepted
  | RestrictionVariablesRepeated
  | VariablesNotAccepted
  | SearchLimitNotPositive
  | RequirementIdsRepeated
  | RestrictionIdsRepeated
  | CostedOptionOutsideDomain

type_synonym choices = "(string, string) dict"

section \<open>Requirements\<close>

datatype requirement_kind = Choose | ChooseOption | ChooseOptionIn | OptionUsed

record requirement =
  requirement_id :: string
  requirement_kind :: requirement_kind
  requirement_variable :: "string option"
  requirement_option :: "string option"
  requirement_options :: "string list"
  requirement_label :: string

text \<open>\<open>str(variable)\<close> of an optional text.\<close>

definition variable_text :: "string option \<Rightarrow> string" where
  "variable_text v = (case v of None \<Rightarrow> ''None'' | Some s \<Rightarrow> s)"

definition satisfied_by :: "requirement \<Rightarrow> choices \<Rightarrow> bool" where
  "satisfied_by r d =
     (case requirement_kind r of
        Choose \<Rightarrow> (case requirement_variable r of None \<Rightarrow> False | Some v \<Rightarrow> map_of d v \<noteq> None)
      | ChooseOption \<Rightarrow> map_of d (variable_text (requirement_variable r)) = requirement_option r
      | ChooseOptionIn \<Rightarrow> (case map_of d (variable_text (requirement_variable r)) of
            None \<Rightarrow> False | Some x \<Rightarrow> x \<in> set (requirement_options r))
      | OptionUsed \<Rightarrow> (case requirement_option r of None \<Rightarrow> False | Some x \<Rightarrow> x \<in> set (map snd d)))"

fun requirement_kind_text :: "requirement_kind \<Rightarrow> string" where
  "requirement_kind_text Choose = ''choose''"
| "requirement_kind_text ChooseOption = ''choose_option''"
| "requirement_kind_text ChooseOptionIn = ''choose_option_in''"
| "requirement_kind_text OptionUsed = ''option_used''"

definition requirement_to_dict :: "requirement \<Rightarrow> (string, pyval) dict" where
  "requirement_to_dict r =
     [(''id'', PStr (requirement_id r)), (''kind'', PStr (requirement_kind_text (requirement_kind r))),
      (''variable'', opt_str (requirement_variable r)), (''option'', opt_str (requirement_option r)),
      (''options'', PList (map PStr (requirement_options r))), (''label'', PStr (requirement_label r))]"

section \<open>Restrictions\<close>

datatype restriction_kind = MinimumVariables | MinimumUses | MaximumUses | MinimumTotal | MaximumTotal

record restriction =
  restriction_id :: string
  restriction_kind :: restriction_kind
  restricted_option :: "string option"
  restriction_count :: int
  only_when_used :: bool
  trigger_variable :: "string option"
  restricted_variables :: "string list"
  restriction_label :: string

fun restriction_kind_text :: "restriction_kind \<Rightarrow> string" where
  "restriction_kind_text MinimumVariables = ''minimum_variable_selections''"
| "restriction_kind_text MinimumUses = ''minimum_option_uses''"
| "restriction_kind_text MaximumUses = ''maximum_option_uses''"
| "restriction_kind_text MinimumTotal = ''minimum_total_selections''"
| "restriction_kind_text MaximumTotal = ''maximum_total_selections''"

definition restriction_init :: "restriction \<Rightarrow> constraint_error + restriction" where
  "restriction_init r =
     ebind (ensure (restriction_id r \<noteq> []) RestrictionIdRequired) (\<lambda>_.
     ebind (ensure (0 \<le> restriction_count r) NegativeRestrictionCount) (\<lambda>_.
     ebind (ensure (restriction_kind r \<in> {MinimumUses, MaximumUses} \<longrightarrow>
                    restricted_option r \<noteq> None \<and> restricted_option r \<noteq> Some []) OptionRequired) (\<lambda>_.
     ebind (ensure (restriction_kind r \<in> {MinimumTotal, MaximumTotal} \<longrightarrow> restricted_option r = None)
              OptionNotAccepted) (\<lambda>_.
     ebind (ensure (restriction_kind r = MinimumVariables \<longrightarrow> restricted_option r = None) OptionNotAccepted) (\<lambda>_.
     ebind (ensure (distinct (restricted_variables r)) RestrictionVariablesRepeated) (\<lambda>_.
     ebind (ensure (restriction_kind r \<noteq> MinimumVariables \<longrightarrow> restricted_variables r = []) VariablesNotAccepted)
       (\<lambda>_. Inr r)))))))"

definition measured :: "restriction \<Rightarrow> choices \<Rightarrow> int" where
  "measured r d =
     int (case restriction_kind r of
        MinimumVariables \<Rightarrow> length (filter (\<lambda>v. map_of d v \<noteq> None) (restricted_variables r))
      | MinimumUses \<Rightarrow> length (filter (\<lambda>(_, x). restricted_option r = Some x) d)
      | MaximumUses \<Rightarrow> length (filter (\<lambda>(_, x). restricted_option r = Some x) d)
      | _ \<Rightarrow> length d)"

definition breaks :: "restriction_kind \<Rightarrow> int \<Rightarrow> int \<Rightarrow> bool" where
  "breaks kind n limit =
     (if kind \<in> {MaximumUses, MaximumTotal} then n > limit else n < limit)"

definition restriction_text :: "restriction \<Rightarrow> string" where
  "restriction_text r =
     (let n = show_int (restriction_count r);
          opt = variable_text (restricted_option r) in
      if restriction_label r \<noteq> [] then restriction_label r
      else case restriction_kind r of
          MinimumUses \<Rightarrow> opt @ '' requires at least '' @ n @ '' selections''
        | MinimumVariables \<Rightarrow> ''The declaration requires at least '' @ n @ '' matching selections''
        | MaximumUses \<Rightarrow> opt @ '' allows at most '' @ n @ '' selections''
        | MinimumTotal \<Rightarrow> ''The declaration requires at least '' @ n @ '' selections''
        | MaximumTotal \<Rightarrow> ''The declaration allows at most '' @ n @ '' selections'')"

definition restriction_error :: "restriction \<Rightarrow> choices \<Rightarrow> string option" where
  "restriction_error r d =
     (if (case trigger_variable r of None \<Rightarrow> False | Some v \<Rightarrow> map_of d v = None) then None
      else if only_when_used r \<and> measured r d = 0 then None
      else if breaks (restriction_kind r) (measured r d) (restriction_count r) then Some (restriction_text r)
      else None)"

definition restriction_to_dict :: "restriction \<Rightarrow> (string, pyval) dict" where
  "restriction_to_dict r =
     [(''id'', PStr (restriction_id r)), (''kind'', PStr (restriction_kind_text (restriction_kind r))),
      (''option'', opt_str (restricted_option r)), (''count'', PInt (restriction_count r)),
      (''when_used'', PBool (only_when_used r)), (''trigger_variable'', opt_str (trigger_variable r)),
      (''label'', PStr (restriction_label r))]
     @ (if restriction_kind r = MinimumVariables then [(''variables'', PList (map PStr (restricted_variables r)))]
        else [])"

section \<open>Problems\<close>

record declaration_problem =
  domains :: "(string, string list) dict"
  requirements :: "requirement list"
  restrictions :: "restriction list"
  costed_options :: "(string \<times> string) list"
  max_search_states :: int

definition in_domain :: "declaration_problem \<Rightarrow> string \<times> string \<Rightarrow> bool" where
  "in_domain p vx = (case map_of (domains p) (fst vx) of None \<Rightarrow> False | Some xs \<Rightarrow> snd vx \<in> set xs)"

definition problem_init :: "declaration_problem \<Rightarrow> constraint_error + declaration_problem" where
  "problem_init p =
     ebind (ensure (1 \<le> max_search_states p) SearchLimitNotPositive) (\<lambda>_.
     ebind (ensure (distinct (map requirement_id (requirements p))) RequirementIdsRepeated) (\<lambda>_.
     ebind (ensure (distinct (map restriction_id (restrictions p))) RestrictionIdsRepeated) (\<lambda>_.
     ebind (ensure (list_all (in_domain p) (costed_options p)) CostedOptionOutsideDomain) (\<lambda>_. Inr p))))"

definition canonical_declaration :: "declaration_problem \<Rightarrow> choices \<Rightarrow> constraint_error + choices" where
  "canonical_declaration p d =
     efold (\<lambda>c (v, x).
       ebind (option_raise (NotEligible v) (map_of (domains p) v)) (\<lambda>xs.
       ebind (ensure (x \<in> set xs) (NotLegalFor x v)) (\<lambda>_. Inr (AList.update v x c)))) [] d"

definition restriction_errors :: "declaration_problem \<Rightarrow> choices \<Rightarrow> string list" where
  "restriction_errors p d = List.map_filter (\<lambda>r. restriction_error r d) (restrictions p)"

definition satisfied_requirement_ids :: "declaration_problem \<Rightarrow> choices \<Rightarrow> string list" where
  "satisfied_requirement_ids p d = map requirement_id (filter (\<lambda>r. satisfied_by r d) (requirements p))"

section \<open>The search\<close>

text \<open>
  \<open>search\<close> and its loop over the options of one variable; \<open>best\<close> and the number of states are the
  variables of the enclosing call, the flag is the early exit once every requirement is met.
\<close>

function search :: "declaration_problem \<Rightarrow> (string \<times> string list) list \<Rightarrow> choices \<Rightarrow> int \<Rightarrow> int
    \<Rightarrow> constraint_error + bool \<times> int \<times> int"
  and search_options :: "declaration_problem \<Rightarrow> string \<Rightarrow> string list \<Rightarrow> (string \<times> string list) list \<Rightarrow> choices
    \<Rightarrow> int \<Rightarrow> int \<Rightarrow> constraint_error + bool \<times> int \<times> int" where
  "search p [] d best states =
     ebind (ensure (states + 1 \<le> max_search_states p) SearchLimit) (\<lambda>_.
     if restriction_errors p d \<noteq> [] then Inr (False, best, states + 1)
     else
       let most = max best (int (length (satisfied_requirement_ids p d))) in
       Inr (most = int (length (requirements p)), most, states + 1))"
| "search p ((v, xs) # rest) d best states =
     ebind (ensure (states + 1 \<le> max_search_states p) SearchLimit) (\<lambda>_.
     search_options p v xs rest d best (states + 1))"
| "search_options p v [] rest d best states = search p rest (AList.delete v d) best states"
| "search_options p v (x # xs) rest d best states =
     ebind (search p rest (AList.update v x d) best states) (\<lambda>(found, best1, states1).
     if found then Inr (True, best1, states1)
     else search_options p v xs rest (AList.update v x d) best1 states1)"
  by pat_completeness auto
termination
  by (relation "measures [\<lambda>s. case s of Inl (p, vs, _) \<Rightarrow> 2 * length vs
                                       | Inr (p, v, xs, rest, _) \<Rightarrow> 2 * length rest + 1,
                          \<lambda>s. case s of Inl _ \<Rightarrow> 0 | Inr (p, v, xs, _) \<Rightarrow> length xs]") auto

definition free_domains ::
  "declaration_problem \<Rightarrow> (string \<times> string) list \<Rightarrow> (string \<times> string list) list" where
  "free_domains p enabled =
     map (\<lambda>v. (v, filter (\<lambda>x. (v, x) \<notin> set (costed_options p) \<or> (v, x) \<in> set enabled)
                     (unique_preserving_order (dict_get [] (domains p) v))))
       (sort (map fst (domains p)))"

definition maximum_satisfied_requirements ::
  "declaration_problem \<Rightarrow> (string \<times> string) list \<Rightarrow> constraint_error + int" where
  "maximum_satisfied_requirements p enabled =
     (if requirements p = [] then Inr 0
      else
        ebind (ensure (set enabled \<subseteq> set (costed_options p)) CostNotRepresented) (\<lambda>_.
        ebind (search p (free_domains p enabled) [] 0 0) (\<lambda>(_, best, _). Inr best)))"

section \<open>Evaluation\<close>

record declaration_evaluation =
  satisfied_ids :: "string list"
  unmet_ids :: "string list"
  maximum_count :: int
  evaluation_errors :: "string list"

definition legal :: "declaration_evaluation \<Rightarrow> bool" where
  "legal e \<longleftrightarrow> evaluation_errors e = [] \<and> int (length (satisfied_ids e)) = maximum_count e"

definition elected :: "declaration_problem \<Rightarrow> choices \<Rightarrow> (string \<times> string) list" where
  "elected p c = filter (\<lambda>vx. vx \<in> set (costed_options p)) c"

definition evaluate :: "declaration_problem \<Rightarrow> choices \<Rightarrow> constraint_error + declaration_evaluation" where
  "evaluate p d =
     ebind (canonical_declaration p d) (\<lambda>c.
     let met = satisfied_requirement_ids p c in
     ebind (maximum_satisfied_requirements p (elected p c)) (\<lambda>most.
     Inr \<lparr>satisfied_ids = met,
          unmet_ids = filter (\<lambda>i. i \<notin> set met) (map requirement_id (requirements p)),
          maximum_count = most, evaluation_errors = restriction_errors p c\<rparr>))"

definition projection :: "declaration_problem \<Rightarrow> constraint_error + (string, pyval) dict" where
  "projection p =
     ebind (maximum_satisfied_requirements p []) (\<lambda>most.
     Inr [(''domains'', PDict (map (\<lambda>v. (v, PList (map PStr (unique_preserving_order (dict_get [] (domains p) v)))))
             (sort (map fst (domains p))))),
          (''requirements'', PList (map (\<lambda>r. PDict (requirement_to_dict r)) (requirements p))),
          (''restrictions'', PList (map (\<lambda>r. PDict (restriction_to_dict r)) (restrictions p))),
          (''maximum_requirements'', PInt most),
          (''costed_options'', PList (map (\<lambda>(v, x). PDict [(''variable'', PStr v), (''option'', PStr x)])
             (sort (costed_options p))))])"


section \<open>What the search computes\<close>

text \<open>The declarations over the free domains, in the order of their variables.\<close>

fun leaves :: "(string \<times> string list) list \<Rightarrow> choices list" where
  "leaves [] = [[]]"
| "leaves ((v, xs) # rest) = concat (map (\<lambda>x. map ((#) (v, x)) (leaves rest)) xs) @ leaves rest"

text \<open>The number of calls a search without early exit makes.\<close>

fun tree_size :: "(string \<times> string list) list \<Rightarrow> nat" where
  "tree_size [] = 1"
| "tree_size ((v, xs) # rest) = 1 + (length xs + 1) * tree_size rest"

definition satisfied_count :: "declaration_problem \<Rightarrow> choices \<Rightarrow> int" where
  "satisfied_count p c = int (length (satisfied_requirement_ids p c))"

definition goal_count :: "declaration_problem \<Rightarrow> int" where
  "goal_count p = int (length (requirements p))"

lemma satisfied_count_le: "satisfied_count p c \<le> goal_count p"
  by (simp add: satisfied_count_def goal_count_def satisfied_requirement_ids_def)

text \<open>
  What a search over the declarations \<open>cs\<close> that starts with \<open>best\<close> reports: the best count is not
  below any of them unless every requirement is met, and it is attained.
\<close>

definition reports :: "declaration_problem \<Rightarrow> choices list \<Rightarrow> int \<Rightarrow> bool \<times> int \<times> int \<Rightarrow> bool" where
  "reports p cs best r =
     (best \<le> fst (snd r) \<and>
      (fst (snd r) = best \<or> (\<exists>c\<in>set cs. restriction_errors p c = [] \<and> satisfied_count p c = fst (snd r))) \<and>
      (if fst r then fst (snd r) = goal_count p
       else (\<forall>c\<in>set cs. restriction_errors p c = [] \<longrightarrow> satisfied_count p c \<le> fst (snd r))))"

lemma reports_found: "reports p cs best (True, b, n) \<Longrightarrow> reports p (cs @ ds) best (True, b, m)"
  by (auto simp: reports_def)

lemma reports_append:
  assumes "reports p cs best (False, b, n)" and "reports p ds b r"
  shows "reports p (cs @ ds) best r"
  using assms by (fastforce simp: reports_def split: if_splits)

lemma delete_fresh: "v \<notin> fst ` set d \<Longrightarrow> AList.delete v d = d"
  by (induction d) auto

lemma delete_last: "v \<notin> fst ` set d \<Longrightarrow> AList.delete v (d @ [(v, x)]) = d"
  by (induction d) (auto simp: delete_fresh)

lemma update_last: "v \<notin> fst ` set d \<Longrightarrow> AList.update v x (d @ [(v, y)]) = d @ [(v, x)]"
  by (induction d) auto

lemma search_reports:
  "distinct (map fst ds) \<Longrightarrow> fst ` set d \<inter> fst ` set ds = {} \<Longrightarrow>
   search p ds d best n = Inr r \<Longrightarrow> reports p (map ((@) d) (leaves ds)) best r"
  "distinct (v # map fst ds) \<Longrightarrow> d = e \<or> (\<exists>y. d = e @ [(v, y)]) \<Longrightarrow> v \<notin> fst ` set e \<Longrightarrow>
   fst ` set e \<inter> fst ` set ds = {} \<Longrightarrow> search_options p v xs ds d best n = Inr r \<Longrightarrow>
   reports p (map ((@) e) (leaves ((v, xs) # ds))) best r"
proof (induction p ds d best n and p v xs ds d best n arbitrary: r and r e rule: search_search_options.induct)
  case (1 p d best n)
  then show ?case
    by (auto simp: ebind_ensure_Inr reports_def satisfied_count_def goal_count_def Let_def split: if_splits)
next
  case (2 p v xs rest d best n)
  then show ?case by (auto simp: ebind_ensure_Inr)
next
  case (3 p v rest d best n)
  have "AList.delete v d = e" using 3 by (auto simp: delete_fresh delete_last)
  then show ?case using 3 by auto
next
  case (4 p v x xs rest d best n)
  have u: "AList.update v x d = e @ [(v, x)]"
    using "4.prems" by (auto simp: dict_set_new update_last)
  from "4.prems"(5) obtain found b m where s: "search p rest (e @ [(v, x)]) best n = Inr (found, b, m)"
    and k: "(if found then Inr (True, b, m) else search_options p v xs rest (e @ [(v, x)]) b m) = Inr r"
    unfolding search_options.simps u by (auto simp: ebind_eq_Inr)
  have "reports p (map ((@) (e @ [(v, x)])) (leaves rest)) best (found, b, m)"
    by (rule "4.IH"(1) [unfolded u, OF _ _ s]) (use "4.prems" in auto)
  moreover have "reports p (map ((@) e) (leaves ((v, xs) # rest))) b r" if "\<not> found"
    by (rule "4.IH"(2) [where xb = b and xc = m, OF that, unfolded u]) (use "4.prems" k that in auto)
  moreover have "map ((@) e) (leaves ((v, x # xs) # rest)) =
      map ((@) (e @ [(v, x)])) (leaves rest) @ map ((@) e) (leaves ((v, xs) # rest))" by simp
  ultimately show ?case using k
    by (cases found) (auto intro: reports_append simp del: leaves.simps dest: reports_found)
qed

lemma search_returns:
  "n + int (tree_size ds) \<le> max_search_states p \<Longrightarrow>
   \<exists>found b m. search p ds d best n = Inr (found, b, m) \<and> m \<le> n + int (tree_size ds)"
  "n + int ((length xs + 1) * tree_size ds) \<le> max_search_states p \<Longrightarrow>
   \<exists>found b m. search_options p v xs ds d best n = Inr (found, b, m) \<and>
     m \<le> n + int ((length xs + 1) * tree_size ds)"
proof (induction p ds d best n and p v xs ds d best n rule: search_search_options.induct)
  case (1 p d best n)
  then show ?case by (auto simp: Let_def ensure_def)
next
  case (2 p v xs rest d best n)
  have le: "n + 1 + int ((length xs + 1) * tree_size rest) \<le> max_search_states p"
    using 2(2) by (simp add: algebra_simps)
  then have "n + 1 \<le> max_search_states p" by (smt (verit) of_nat_0_le_iff)
  then have "search p ((v, xs) # rest) d best n = search_options p v xs rest d best (n + 1)"
    by (simp add: ensure_def)
  then show ?case using 2(1) [OF le] by (simp add: algebra_simps)
next
  case (3 p v rest d best n)
  then show ?case by simp
next
  case (4 p v x xs rest d best n)
  obtain found b m where s: "search p rest (AList.update v x d) best n = Inr (found, b, m)"
    and m: "m \<le> n + int (tree_size rest)"
  proof -
    have "int ((length (x # xs) + 1) * tree_size rest)
        = int (tree_size rest) + int ((length xs + 1) * tree_size rest)" by (simp add: algebra_simps)
    then have "n + int (tree_size rest) \<le> max_search_states p" using "4.prems" by linarith
    then show thesis using "4.IH"(1) that by blast
  qed
  show ?case
  proof (cases found)
    case True
    have "m \<le> n + int (tree_size rest) + int ((length xs + 1) * tree_size rest)"
      using m by linarith
    then show ?thesis using s True by (auto simp: algebra_simps)
  next
    case False
    have "m + int ((length xs + 1) * tree_size rest) \<le> max_search_states p"
      using m "4.prems" by (simp add: algebra_simps)
    then show ?thesis
      using "4.IH"(2) [where xb = b and xc = m, OF False] s m False by (fastforce simp: algebra_simps)
  qed
qed


text \<open>Whether a declaration is allowed: it takes options of the domains, costed ones only where enabled, and no restriction objects.\<close>

definition obeys :: "declaration_problem \<Rightarrow> (string \<times> string) list \<Rightarrow> choices \<Rightarrow> bool" where
  "obeys p enabled c \<longleftrightarrow>
     distinct (map fst c) \<and>
     (\<forall>vx\<in>set c. in_domain p vx \<and> (vx \<in> set (costed_options p) \<longrightarrow> vx \<in> set enabled)) \<and>
     restriction_errors p c = []"

lemma same_choices:
  assumes "distinct (map fst c)" "distinct (map fst d)" "set c = set d"
  shows "restriction_errors p c = restriction_errors p d"
    and "satisfied_requirement_ids p c = satisfied_requirement_ids p d"
proof -
  have m: "map_of c = map_of d" using assms by (simp add: map_of_inject_set)
  have n: "length (filter P c) = length (filter P d)" for P
    using assms by (metis distinct_length_filter distinct_map)
  have l: "length c = length d" using assms by (metis distinct_card distinct_map)
  have "measured r c = measured r d" for r
    by (simp add: measured_def m n l split: restriction_kind.splits)
  then have "restriction_error r c = restriction_error r d" for r
    unfolding restriction_error_def m by simp
  then show "restriction_errors p c = restriction_errors p d" by (simp add: restriction_errors_def)
  have "satisfied_by r c = satisfied_by r d" for r
    unfolding satisfied_by_def m set_map assms(3) by simp
  then show "satisfied_requirement_ids p c = satisfied_requirement_ids p d"
    by (simp add: satisfied_requirement_ids_def)
qed

lemma leaves_keys: "c \<in> set (leaves ds) \<Longrightarrow> fst ` set c \<subseteq> fst ` set ds"
  by (induction ds arbitrary: c rule: leaves.induct) (auto, force+)

lemma leaves_within:
  "distinct (map fst ds) \<Longrightarrow> c \<in> set (leaves ds) \<Longrightarrow>
   distinct (map fst c) \<and> (\<forall>(v, x)\<in>set c. \<exists>xs. (v, xs) \<in> set ds \<and> x \<in> set xs)"
proof (induction ds arbitrary: c rule: leaves.induct)
  case (2 v xs rest)
  show ?case
  proof (cases "c \<in> set (leaves rest)")
    case True
    then show ?thesis using "2.IH"(2) "2.prems"(1) by fastforce
  next
    case False
    then obtain x b where c: "c = (v, x) # b" "x \<in> set xs" "b \<in> set (leaves rest)" using "2.prems"(2) by auto
    then have "v \<notin> fst ` set b" using "2.prems"(1) leaves_keys [OF c(3)] by auto
    then show ?thesis using "2.IH"(2) [of b] "2.prems"(1) c by fastforce
  qed
qed simp

lemma leaves_complete:
  "(\<And>v xs x. (v, xs) \<in> set ds \<Longrightarrow> m v = Some x \<Longrightarrow> x \<in> set xs) \<Longrightarrow>
   List.map_filter (\<lambda>(v, _). map_option (Pair v) (m v)) ds \<in> set (leaves ds)"
proof (induction ds rule: leaves.induct)
  case (2 v xs rest)
  have r: "List.map_filter (\<lambda>(v, _). map_option (Pair v) (m v)) rest \<in> set (leaves rest)"
    using "2.IH"(2) "2.prems" by auto
  show ?case
  proof (cases "m v")
    case None
    then show ?thesis using r by (simp add: List.map_filter_simps)
  next
    case (Some x)
    then have "x \<in> set xs" using "2.prems" by auto
    then show ?thesis using r Some by (auto simp: List.map_filter_simps)
  qed
qed (simp add: List.map_filter_simps)

lemma picked_choices:
  "(v, x) \<in> set (List.map_filter (\<lambda>(v, _). map_option (Pair v) (m v)) ds) \<longleftrightarrow>
   v \<in> fst ` set ds \<and> m v = Some x"
  by (induction ds) (auto simp: List.map_filter_simps split: option.splits)

lemma free_domains_facts:
  assumes "distinct (map fst (domains p))"
  shows "distinct (map fst (free_domains p enabled))"
    and "(\<exists>xs. (v, xs) \<in> set (free_domains p enabled) \<and> x \<in> set xs) \<longleftrightarrow>
         in_domain p (v, x) \<and> ((v, x) \<in> set (costed_options p) \<longrightarrow> (v, x) \<in> set enabled)"
    and "fst ` set (free_domains p enabled) = fst ` set (domains p)"
  using assms
  by (force simp: free_domains_def in_domain_def dict_get_def comp_def unique_preserving_order_result
      dest: map_of_SomeD split: option.splits)+

lemma obeys_leaves:
  assumes "distinct (map fst (domains p))"
  shows "(\<exists>c\<in>set (leaves (free_domains p enabled)). restriction_errors p c = [] \<and> satisfied_count p c = n)
    \<longleftrightarrow> (\<exists>c. obeys p enabled c \<and> satisfied_count p c = n)"
proof
  let ?ds = "free_domains p enabled"
  note f = free_domains_facts [OF assms, where enabled = enabled]
  show "\<exists>c. obeys p enabled c \<and> satisfied_count p c = n"
    if c: "\<exists>c\<in>set (leaves ?ds). restriction_errors p c = [] \<and> satisfied_count p c = n"
    using that leaves_within [OF f(1)] f(2) by (fastforce simp: obeys_def)
  assume "\<exists>c. obeys p enabled c \<and> satisfied_count p c = n"
  then obtain c where c: "obeys p enabled c" "satisfied_count p c = n" by blast
  define b where "b = List.map_filter (\<lambda>(v, _). map_option (Pair v) (map_of c v)) ?ds"
  have inn: "(v, x) \<in> set c \<longleftrightarrow> map_of c v = Some x" for v x
    using c by (simp add: obeys_def)
  have ok: "\<exists>xs. (v, xs) \<in> set ?ds \<and> x \<in> set xs" if "map_of c v = Some x" for v x
    using c(1) that f(2) unfolding obeys_def by (metis map_of_SomeD)
  have dk: "xs = ys" if "(v, xs) \<in> set ?ds" "(v, ys) \<in> set ?ds" for v xs ys
    using f(1) that by (metis eq_key_imp_eq_value)
  have b: "b \<in> set (leaves ?ds)"
    unfolding b_def by (rule leaves_complete) (use ok dk in blast)
  have "(v, x) \<in> set b \<longleftrightarrow> (v, x) \<in> set c" for v x
    using ok [of v x] inn [of v x] by (force simp: b_def picked_choices)
  then have "set b = set c" by auto
  then have "restriction_errors p b = [] \<and> satisfied_count p b = n"
    using same_choices [of b c p] leaves_within [OF f(1) b] c by (auto simp: obeys_def satisfied_count_def)
  then show "\<exists>c\<in>set (leaves ?ds). restriction_errors p c = [] \<and> satisfied_count p c = n" using b by blast
qed

definition maximal :: "declaration_problem \<Rightarrow> (string \<times> string) list \<Rightarrow> int \<Rightarrow> bool" where
  "maximal p enabled most \<longleftrightarrow> (\<forall>c. obeys p enabled c \<longrightarrow> satisfied_count p c \<le> most) \<and>
     (most = 0 \<or> (\<exists>c. obeys p enabled c \<and> satisfied_count p c = most))"

lemma append_Nil_id: "map ((@) []) xs = xs"
  by (induction xs) auto

lemma maximum_maximal:
  assumes "distinct (map fst (domains p))" and "maximum_satisfied_requirements p enabled = Inr most"
  shows "maximal p enabled most"
proof (cases "requirements p = []")
  case True
  then show ?thesis using assms
    by (simp add: maximum_satisfied_requirements_def maximal_def satisfied_count_def satisfied_requirement_ids_def)
next
  case False
  let ?ds = "free_domains p enabled"
  from assms False obtain found n where s: "search p ?ds [] 0 0 = Inr (found, most, n)"
    by (auto simp: maximum_satisfied_requirements_def ebind_ensure_Inr ebind_eq_Inr)
  have r: "reports p (leaves ?ds) 0 (found, most, n)"
    using search_reports(1) [OF free_domains_facts(1) [OF assms(1)] _ s] by (simp add: append_Nil_id)
  have eq: "(\<exists>c\<in>set (leaves ?ds). restriction_errors p c = [] \<and> satisfied_count p c = k)
      \<longleftrightarrow> (\<exists>c. obeys p enabled c \<and> satisfied_count p c = k)" for k
    by (rule obeys_leaves [OF assms(1)])
  have "satisfied_count p c \<le> most" if "obeys p enabled c" for c
    using r eq [of "satisfied_count p c"] that satisfied_count_le [of p c]
    by (fastforce simp: reports_def split: if_splits)
  then show ?thesis using r eq [of most] by (fastforce simp: reports_def maximal_def)
qed

lemma maximum_returns:
  assumes "set enabled \<subseteq> set (costed_options p)"
    and "int (tree_size (free_domains p enabled)) \<le> max_search_states p"
  shows "\<exists>most. maximum_satisfied_requirements p enabled = Inr most"
  using search_returns(1) [of 0 "free_domains p enabled" p "[]" 0] assms
  by (auto simp: maximum_satisfied_requirements_def ensure_def)

lemma canonical_facts:
  assumes "canonical_declaration p d = Inr c"
  shows "distinct (map fst c)" and "\<forall>vx\<in>set c. in_domain p vx"
proof -
  have "distinct (map fst c) \<and> (\<forall>vx\<in>set c. in_domain p vx)"
    using assms unfolding canonical_declaration_def
    by (rule efold_invariant)
      (fastforce simp: ebind_eq_Inr ebind_ensure_Inr option_raise_def in_domain_def distinct_update
        dest!: set_mp [OF set_dict_set] split: option.splits)+
  then show "distinct (map fst c)" "\<forall>vx\<in>set c. in_domain p vx" by auto
qed

section \<open>Properties\<close>

text \<open>
  C18. The maximum is exact: when the tree over the free domains has no more nodes than the limit, the search
  ends with a count that no allowed declaration exceeds, and some allowed declaration reaches it unless it is zero.
  An allowed declaration takes options of the domains, costed ones only where enabled, and breaks no restriction.
\<close>

theorem maximum_exact:
  assumes "distinct (map fst (domains p))" and "set enabled \<subseteq> set (costed_options p)"
    and "int (tree_size (free_domains p enabled)) \<le> max_search_states p"
  shows "\<exists>most. maximum_satisfied_requirements p enabled = Inr most \<and>
    (\<forall>c. obeys p enabled c \<longrightarrow> int (length (satisfied_requirement_ids p c)) \<le> most) \<and>
    (most = 0 \<or> (\<exists>c. obeys p enabled c \<and> int (length (satisfied_requirement_ids p c)) = most))"
  using maximum_returns [OF assms(2,3)] maximum_maximal [OF assms(1)]
  unfolding maximal_def satisfied_count_def by blast

definition sample_problem :: declaration_problem where
  "sample_problem =
     \<lparr>domains = [(''b'', [''p'']), (''a'', [''p'', ''q''])],
      requirements = [\<lparr>requirement_id = ''r1'', requirement_kind = Choose, requirement_variable = Some ''a'',
                       requirement_option = None, requirement_options = [], requirement_label = []\<rparr>,
                      \<lparr>requirement_id = ''r2'', requirement_kind = Choose, requirement_variable = Some ''b'',
                       requirement_option = None, requirement_options = [], requirement_label = []\<rparr>],
      restrictions = [\<lparr>restriction_id = ''t'', restriction_kind = MaximumTotal, restricted_option = None,
                       restriction_count = 1, only_when_used = False, trigger_variable = None,
                       restricted_variables = [], restriction_label = []\<rparr>],
      costed_options = [(''a'', ''q'')], max_search_states = 20\<rparr>"

theorem maximum_exact_witness:
  "\<exists>most. maximum_satisfied_requirements sample_problem [] = Inr most \<and>
    (\<forall>c. obeys sample_problem [] c \<longrightarrow> int (length (satisfied_requirement_ids sample_problem c)) \<le> most) \<and>
    (most = 0 \<or> (\<exists>c. obeys sample_problem [] c \<and>
       int (length (satisfied_requirement_ids sample_problem c)) = most))"
  by (rule maximum_exact)
    (simp_all add: sample_problem_def free_domains_def dict_get_def unique_preserving_order_def)

text \<open>
  C17. An evaluation calls a declaration legal exactly when the declaration breaks no restriction and no allowed
  declaration, with the costed options the player elected enabled, satisfies more requirements (CR 508.1d).
\<close>

theorem legal_iff:
  assumes "distinct (map fst (domains p))" and "evaluate p d = Inr e"
  shows "\<exists>c. canonical_declaration p d = Inr c \<and>
    (legal e \<longleftrightarrow> restriction_errors p c = [] \<and>
      (\<forall>b. obeys p (elected p c) b \<longrightarrow>
         length (satisfied_requirement_ids p b) \<le> length (satisfied_requirement_ids p c)))"
proof -
  from assms(2) obtain c most where c: "canonical_declaration p d = Inr c"
    and most: "maximum_satisfied_requirements p (elected p c) = Inr most"
    and e: "evaluation_errors e = restriction_errors p c" "satisfied_ids e = satisfied_requirement_ids p c"
      "maximum_count e = most"
    by (auto simp: evaluate_def ebind_eq_Inr Let_def)
  have m: "maximal p (elected p c) most" by (rule maximum_maximal [OF assms(1) most])
  have "obeys p (elected p c) c" if "restriction_errors p c = []"
    using that canonical_facts [OF c] by (auto simp: obeys_def elected_def)
  then have "legal e \<longleftrightarrow> restriction_errors p c = [] \<and>
      (\<forall>b. obeys p (elected p c) b \<longrightarrow>
         length (satisfied_requirement_ids p b) \<le> length (satisfied_requirement_ids p c))"
    using m by (fastforce simp: legal_def e maximal_def satisfied_count_def)
  then show ?thesis using c by blast
qed

lemma sample_evaluation:
  "evaluate sample_problem [(''a'', ''p'')] =
     Inr \<lparr>satisfied_ids = [''r1''], unmet_ids = [''r2''], maximum_count = 1, evaluation_errors = []\<rparr>"
  by code_simp

theorem legal_iff_witness:
  "\<exists>c. canonical_declaration sample_problem [(''a'', ''p'')] = Inr c \<and>
    (restriction_errors sample_problem c = [] \<and>
      (\<forall>b. obeys sample_problem (elected sample_problem c) b \<longrightarrow>
         length (satisfied_requirement_ids sample_problem b) \<le> length (satisfied_requirement_ids sample_problem c)))"
  using legal_iff [OF _ sample_evaluation] by (simp add: sample_problem_def legal_def)

end
