(* ===== verification/Object_Queries.thy ===== *)
theory Object_Queries imports Counter_State Engine_Core
begin

text \<open>
  Object queries (\<open>quorune/object_predicate.py\<close>, \<open>quorune/object_query.py\<close>): the typed predicates that
  target schemas and continuous effects share, how they are read and written, and how they match the
  public facts of one object.

  A submitted query is untrusted and read from \<open>pyval\<close>s.  The characteristics behind
  \<open>object_query_result\<close> are read through the record \<open>effective_values\<close>, with the words already
  texts and the two statistics dynamic, as \<open>exact_numeric_characteristic\<close> needs them.
\<close>

datatype query_error =
    EnteredNotBoolean
  | TappedNotBoolean
  | MinimumWithoutName
  | CounterNameNotText
  | BadCounterName counter_error
  | MinimumNotPositive
  | NothingConstrained
  | PredicateFields
  | BadCounterAmount
  | TermsNotArray string
  | EmptyTerm string
  | RepeatedTerm string
  | NotTextOrNull string
  | NotBooleanOrNull string
  | PhasedOutNotBoolean
  | UnsupportedVersion
  | ExtendedVersion
  | QueryNotObject
  | QueryFields "string list" "string list"
  | SourceZones
  | SourceUnknown
  | SourcePhasedOut
  | SourceExclusions
  | SourceExtended
  | SourceTokenOrTapped
  | SourceOtherThan
  | NoSuchStatistic

section \<open>Predicates on the public state of a permanent\<close>

fun typed_bool :: "pyval \<Rightarrow> bool option" where
  "typed_bool (PBool b) = Some b"
| "typed_bool _ = None"

definition nullable :: "(pyval \<Rightarrow> 'a option) \<Rightarrow> pyval \<Rightarrow> 'a option option" where
  "nullable f v = (if v = PNone then Some None else map_option Some (f v))"

record state_predicate =
  entered_required :: bool
  tapped_required :: "bool option"
  counter_required :: "string option"
  counter_minimum :: "int option"

definition positive_int :: "pyval \<Rightarrow> int option" where
  "positive_int v = (case exact_int v of None \<Rightarrow> None | Some n \<Rightarrow> if 0 < n then Some n else None)"

fun counter_condition :: "pyval \<Rightarrow> pyval \<Rightarrow> query_error + (string \<times> int) option" where
  "counter_condition PNone lowest = ebind (ensure (lowest = PNone) MinimumWithoutName) (\<lambda>_. Inr None)"
| "counter_condition (PStr s) lowest =
     ebind (reraise BadCounterName (normalized_counter_name s)) (\<lambda>name.
     ebind (option_raise MinimumNotPositive (positive_int lowest)) (\<lambda>n. Inr (Some (name, n))))"
| "counter_condition _ lowest = Inl CounterNameNotText"

definition state_predicate_init :: "pyval \<Rightarrow> pyval \<Rightarrow> pyval \<Rightarrow> pyval \<Rightarrow> query_error + state_predicate" where
  "state_predicate_init entered tap name lowest =
     ebind (option_raise EnteredNotBoolean (typed_bool entered)) (\<lambda>e.
     ebind (option_raise TappedNotBoolean (nullable typed_bool tap)) (\<lambda>t.
     ebind (counter_condition name lowest) (\<lambda>c.
     ebind (ensure (e \<or> t \<noteq> None \<or> c \<noteq> None) NothingConstrained) (\<lambda>_.
     Inr \<lparr>entered_required = e, tapped_required = t, counter_required = map_option fst c,
          counter_minimum = map_option snd c\<rparr>))))"

definition opt_value :: "('a \<Rightarrow> pyval) \<Rightarrow> 'a option \<Rightarrow> pyval" where
  "opt_value f x = (case x of None \<Rightarrow> PNone | Some v \<Rightarrow> f v)"

definition state_predicate_to_dict :: "state_predicate \<Rightarrow> pyval" where
  "state_predicate_to_dict s =
     PDict [(''entered_this_turn'', PBool (entered_required s)),
            (''tapped'', opt_value PBool (tapped_required s)),
            (''counter_name'', opt_value PStr (counter_required s)),
            (''minimum_counter_count'', opt_value PInt (counter_minimum s))]"

definition STATE_FIELDS :: "string list" where
  "STATE_FIELDS = [''entered_this_turn'', ''tapped'', ''counter_name'', ''minimum_counter_count'']"

fun state_predicate_from_dict :: "pyval \<Rightarrow> query_error + state_predicate" where
  "state_predicate_from_dict (PDict d) =
     ebind (ensure (set (map fst d) = set STATE_FIELDS) PredicateFields) (\<lambda>_.
     state_predicate_init (dict_get PNone d ''entered_this_turn'') (dict_get PNone d ''tapped'')
       (dict_get PNone d ''counter_name'') (dict_get PNone d ''minimum_counter_count''))"
| "state_predicate_from_dict _ = Inl PredicateFields"

definition state_predicate_matches ::
  "state_predicate \<Rightarrow> (string, int) dict \<Rightarrow> bool \<Rightarrow> bool \<Rightarrow> query_error + bool" where
  "state_predicate_matches s counts entered tap =
     (if entered_required s \<and> \<not> entered then Inr False
      else if tapped_required s \<noteq> None \<and> tapped_required s \<noteq> Some tap then Inr False
      else case counter_required s of
          None \<Rightarrow> Inr True
        | Some name \<Rightarrow>
            let raw = dict_get 0 counts name in
            ebind (ensure (0 \<le> raw) BadCounterAmount) (\<lambda>_.
            Inr (case counter_minimum s of None \<Rightarrow> True | Some n \<Rightarrow> n \<le> raw)))"

section \<open>Queries\<close>

record query_spec =
  q_zones :: "string list"
  q_owner :: "string option"
  q_controller :: "string option"
  types_all :: "string list"
  types_any :: "string list"
  excluded_types :: "string list"
  subtypes_all :: "string list"
  subtypes_any :: "string list"
  excluded_subtypes :: "string list"
  supertypes_all :: "string list"
  colors_all :: "string list"
  colors_any :: "string list"
  q_colorless :: "bool option"
  keywords_all :: "string list"
  q_token :: "bool option"
  q_tapped :: "bool option"
  include_phased_out :: bool
  q_known :: "bool option"
  exclude_ref :: "string option"
  q_state :: "state_predicate option"
  query_version :: int

text \<open>\<open>ObjectQuerySpec()\<close>.\<close>

definition any_object :: query_spec where
  "any_object =
     \<lparr>q_zones = [], q_owner = None, q_controller = None, types_all = [], types_any = [],
      excluded_types = [], subtypes_all = [], subtypes_any = [], excluded_subtypes = [],
      supertypes_all = [], colors_all = [], colors_any = [], q_colorless = None, keywords_all = [],
      q_token = None, q_tapped = None, include_phased_out = False, q_known = None,
      exclude_ref = None, q_state = None, query_version = 2\<rparr>"

fun normalized_terms :: "string \<Rightarrow> (string \<Rightarrow> string) \<Rightarrow> pyval \<Rightarrow> query_error + string list" where
  "normalized_terms field f (PList vs) =
     ebind (emap (\<lambda>v. option_raise (EmptyTerm field) (nonempty_str v)) vs) (\<lambda>names.
     let found = sort (map f names) in
     ebind (ensure (distinct found) (RepeatedTerm field)) (\<lambda>_. Inr found))"
| "normalized_terms field f _ = Inl (TermsNotArray field)"

definition has_extended :: "query_spec \<Rightarrow> bool" where
  "has_extended s \<longleftrightarrow> subtypes_any s \<noteq> [] \<or> excluded_subtypes s \<noteq> [] \<or> q_colorless s \<noteq> None \<or> q_state s \<noteq> None"

text \<open>The end of \<open>__post_init__\<close>: the serialization version a query is written with.\<close>

definition query_version_checked :: "query_spec \<Rightarrow> query_error + query_spec" where
  "query_version_checked s =
     (let t = (if has_extended s \<and> query_version s = 2 then s\<lparr>query_version := 3\<rparr> else s) in
      ebind (ensure (query_version t \<in> {1, 2, 3}) UnsupportedVersion) (\<lambda>_.
      ebind (ensure (has_extended t \<longrightarrow> query_version t = 3) ExtendedVersion) (\<lambda>_. Inr t)))"

text \<open>
  The constructor on untyped arguments, given by name; an argument that is not given has the
  default of its field.
\<close>

definition query_init ::
  "(string, pyval) dict \<Rightarrow> state_predicate option \<Rightarrow> int \<Rightarrow> query_error + query_spec" where
  "query_init d state version =
     (let terms = (\<lambda>f. normalized_terms f casefold (dict_get (PList []) d f));
          colors = (\<lambda>f. normalized_terms f upper (dict_get (PList []) d f));
          name = (\<lambda>f. option_raise (NotTextOrNull f) (nullable nonempty_str (dict_get PNone d f)));
          flag = (\<lambda>f. option_raise (NotBooleanOrNull f) (nullable typed_bool (dict_get PNone d f))) in
      ebind (terms ''zones'') (\<lambda>zs.
      ebind (terms ''types_all'') (\<lambda>ta.
      ebind (terms ''types_any'') (\<lambda>ty.
      ebind (terms ''excluded_types'') (\<lambda>te.
      ebind (terms ''subtypes_all'') (\<lambda>sa.
      ebind (terms ''subtypes_any'') (\<lambda>sy.
      ebind (terms ''excluded_subtypes'') (\<lambda>se.
      ebind (terms ''supertypes_all'') (\<lambda>pa.
      ebind (terms ''keywords_all'') (\<lambda>ks.
      ebind (colors ''colors_all'') (\<lambda>ca.
      ebind (colors ''colors_any'') (\<lambda>cy.
      ebind (name ''owner'') (\<lambda>own.
      ebind (name ''controller'') (\<lambda>con.
      ebind (name ''exclude_ref'') (\<lambda>ref.
      ebind (flag ''token'') (\<lambda>tok.
      ebind (flag ''tapped'') (\<lambda>tap.
      ebind (flag ''known_to_actor'') (\<lambda>known.
      ebind (flag ''colorless'') (\<lambda>less.
      ebind (option_raise PhasedOutNotBoolean
               (typed_bool (dict_get (PBool False) d ''include_phased_out''))) (\<lambda>phased.
      query_version_checked
        \<lparr>q_zones = zs, q_owner = own, q_controller = con, types_all = ta, types_any = ty,
         excluded_types = te, subtypes_all = sa, subtypes_any = sy, excluded_subtypes = se,
         supertypes_all = pa, colors_all = ca, colors_any = cy, q_colorless = less,
         keywords_all = ks, q_token = tok, q_tapped = tap, include_phased_out = phased,
         q_known = known, exclude_ref = ref, q_state = state, query_version = version\<rparr>))))))))))))))))))))"

definition words :: "string list \<Rightarrow> pyval" where
  "words ws = PList (map PStr ws)"

definition canonical_dict :: "query_spec \<Rightarrow> (string, pyval) dict" where
  "canonical_dict s =
     [(''zones'', words (q_zones s)), (''owner'', opt_value PStr (q_owner s)),
      (''controller'', opt_value PStr (q_controller s)), (''types_all'', words (types_all s)),
      (''types_any'', words (types_any s)), (''excluded_types'', words (excluded_types s)),
      (''subtypes_all'', words (subtypes_all s)), (''supertypes_all'', words (supertypes_all s)),
      (''colors_all'', words (colors_all s)), (''colors_any'', words (colors_any s)),
      (''keywords_all'', words (keywords_all s)), (''token'', opt_value PBool (q_token s)),
      (''tapped'', opt_value PBool (q_tapped s)),
      (''include_phased_out'', PBool (include_phased_out s)),
      (''known_to_actor'', opt_value PBool (q_known s)),
      (''exclude_ref'', opt_value PStr (exclude_ref s))]
     @ (if query_version s = 3 then
          [(''subtypes_any'', words (subtypes_any s)),
           (''excluded_subtypes'', words (excluded_subtypes s)),
           (''colorless'', opt_value PBool (q_colorless s)),
           (''state_predicate'', opt_value state_predicate_to_dict (q_state s))]
        else [])"

definition query_to_dict :: "query_spec \<Rightarrow> (string, pyval) dict" where
  "query_to_dict s =
     (if query_version s = 1 then AList.delete ''types_any'' (canonical_dict s) else canonical_dict s)"

definition QUERY_FIELDS :: "string list" where
  "QUERY_FIELDS =
     [''zones'', ''owner'', ''controller'', ''types_all'', ''types_any'', ''excluded_types'',
      ''subtypes_all'', ''supertypes_all'', ''colors_all'', ''colors_any'', ''keywords_all'',
      ''token'', ''tapped'', ''include_phased_out'', ''known_to_actor'', ''exclude_ref'']"

definition LEGACY_QUERY_FIELDS :: "string list" where
  "LEGACY_QUERY_FIELDS = filter (\<lambda>f. f \<noteq> ''types_any'') QUERY_FIELDS"

definition EXTENDED_QUERY_FIELDS :: "string list" where
  "EXTENDED_QUERY_FIELDS = QUERY_FIELDS @ [''subtypes_any'', ''excluded_subtypes'', ''colorless'', ''state_predicate'']"

definition fields_error :: "string list \<Rightarrow> query_error" where
  "fields_error actual =
     (let wanted = (if \<exists>f \<in> set actual. f \<in> set EXTENDED_QUERY_FIELDS \<and> f \<notin> set QUERY_FIELDS
                    then EXTENDED_QUERY_FIELDS else QUERY_FIELDS) in
      QueryFields (sorted_unique (filter (\<lambda>f. f \<notin> set actual) wanted))
        (sorted_unique (filter (\<lambda>f. f \<notin> set EXTENDED_QUERY_FIELDS) actual)))"

definition version_of :: "(string, pyval) dict \<Rightarrow> int" where
  "version_of d =
     (if set (map fst d) = set EXTENDED_QUERY_FIELDS then 3
      else if ''types_any'' \<in> set (map fst d) then 2 else 1)"

fun query_from_dict :: "pyval \<Rightarrow> query_error + query_spec" where
  "query_from_dict (PDict d) =
     (let actual = map fst d; raw = dict_get PNone d ''state_predicate'' in
      ebind (ensure (set actual \<in> {set QUERY_FIELDS, set LEGACY_QUERY_FIELDS, set EXTENDED_QUERY_FIELDS})
               (fields_error actual)) (\<lambda>_.
      ebind (if raw = PNone then Inr None
             else ebind (state_predicate_from_dict raw) (\<lambda>s. Inr (Some s))) (\<lambda>state.
      query_init d state (version_of d))))"
| "query_from_dict _ = Inl QueryNotObject"

section \<open>Matching\<close>

record query_result =
  r_object :: string
  r_ref :: string
  r_name :: string
  r_owner :: string
  r_controller :: string
  r_zone :: string
  r_types :: "string list"
  r_subtypes :: "string list"
  r_supertypes :: "string list"
  r_colors :: "string list"
  r_keywords :: "string list"
  r_counters :: "(string, int) dict"
  r_mana_value :: int
  r_power :: "int option"
  r_toughness :: "int option"
  r_token :: bool
  r_tapped :: bool
  r_phased_out :: bool
  r_known :: bool
  r_attached :: "string option"
  r_logical :: string
  r_monstrous :: "int option"
  r_renowned :: bool
  r_entered :: bool

text \<open>\<open>int(s)\<close> on text: an optional sign, then digits with single underscores between them.\<close>

fun digits_from :: "int \<Rightarrow> bool \<Rightarrow> string \<Rightarrow> int option" where
  "digits_from n after_digit [] = (if after_digit then Some n else None)"
| "digits_from n after_digit (c # cs) =
     (let d = (of_char c :: int) - 48 in
      if 0 \<le> d \<and> d \<le> 9 then digits_from (10 * n + d) True cs
      else if c = CHR ''_'' \<and> after_digit then digits_from n False cs
      else None)"

fun int_of_text :: "string \<Rightarrow> int option" where
  "int_of_text [] = None"
| "int_of_text (c # cs) =
     (if c = CHR ''-'' then map_option uminus (digits_from 0 False cs)
      else if c = CHR ''+'' then digits_from 0 False cs
      else digits_from 0 False (c # cs))"

fun exact_number :: "pyval \<Rightarrow> int option" where
  "exact_number (PInt n) = Some n"
| "exact_number (PStr s) = int_of_text (py_strip s)"
| "exact_number _ = None"

record effective_values =
  eff_colors :: "string list"
  eff_keywords :: "string list"
  eff_mana_value :: pyval
  eff_stats :: "(string, pyval) dict"

definition exact_numeric_characteristic ::
  "card_instance \<Rightarrow> effective_values \<Rightarrow> string \<Rightarrow> query_error + int option" where
  "exact_numeric_characteristic c eff stat =
     ebind (ensure (stat \<in> {''power'', ''toughness''}) NoSuchStatistic) (\<lambda>_.
     let until = dict_get PNone (card_annotations c) ''until_end_of_turn'' in
     Inr (case exact_number (dict_get (dict_get PNone (eff_stats eff) stat) (card_annotations c)
                 (''continuous_'' @ stat)) of
            None \<Rightarrow> None
          | Some base \<Rightarrow>
              (case (if truthy until then until else PDict []) of
                 PDict d \<Rightarrow>
                   map_option (\<lambda>delta. base + dict_get 0 (card_counters c) ''+1/+1''
                                        - dict_get 0 (card_counters c) ''-1/-1'' + delta)
                     (exact_number (dict_get (PInt 0) d stat))
               | _ \<Rightarrow> None)))"

text \<open>\<open>int(v or 0)\<close> of a number: a float is truncated towards zero.\<close>

fun whole_number :: "pyval \<Rightarrow> int" where
  "whole_number (PInt n) = n"
| "whole_number (PBool b) = (if b then 1 else 0)"
| "whole_number (PFloat m e) =
     (if 0 \<le> e then m * 2 ^ nat e else sgn m * (\<bar>m\<bar> div 2 ^ nat (- e)))"
| "whole_number _ = 0"

definition object_query_result ::
  "card_instance \<Rightarrow> effective_values \<Rightarrow> string list \<times> string list \<times> string list
     \<Rightarrow> bool \<Rightarrow> string option \<Rightarrow> bool \<Rightarrow> query_error + query_result" where
  "object_query_result c eff parts known attached entered =
     (case parts of (types, subtypes, supertypes) \<Rightarrow>
      ebind (exact_numeric_characteristic c eff ''power'') (\<lambda>power.
      ebind (exact_numeric_characteristic c eff ''toughness'') (\<lambda>toughness.
      Inr \<lparr>r_object = object_id c, r_ref = card_ref c, r_name = printed_name c, r_owner = owner c,
           r_controller = controller c, r_zone = zone c, r_types = sort (map casefold types),
           r_subtypes = sort (map casefold subtypes), r_supertypes = sort (map casefold supertypes),
           r_colors = map upper (eff_colors eff), r_keywords = map casefold (eff_keywords eff),
           r_counters = card_counters c, r_mana_value = whole_number (eff_mana_value eff),
           r_power = power, r_toughness = toughness, r_token = is_token c, r_tapped = tapped c,
           r_phased_out = phased_out c, r_known = known, r_attached = attached,
           r_logical = logical_object_id c, r_monstrous = monstrous_value c,
           r_renowned = renowned c, r_entered = entered\<rparr>)))"

definition disjoint :: "'a list \<Rightarrow> 'a list \<Rightarrow> bool" where
  "disjoint xs ys \<longleftrightarrow> (\<forall>x \<in> set xs. x \<notin> set ys)"

definition unless_none :: "'a option \<Rightarrow> 'a \<Rightarrow> bool" where
  "unless_none wanted x = (case wanted of None \<Rightarrow> True | Some w \<Rightarrow> x = w)"

definition static_match :: "query_result \<Rightarrow> query_spec \<Rightarrow> bool" where
  "static_match row s \<longleftrightarrow>
     (q_zones s = [] \<or> r_zone row \<in> set (q_zones s))
     \<and> unless_none (q_owner s) (r_owner row)
     \<and> unless_none (q_controller s) (r_controller row)
     \<and> set (types_all s) \<subseteq> set (r_types row)
     \<and> (types_any s = [] \<or> \<not> disjoint (r_types row) (types_any s))
     \<and> disjoint (r_types row) (excluded_types s)
     \<and> set (subtypes_all s) \<subseteq> set (r_subtypes row)
     \<and> (subtypes_any s = [] \<or> \<not> disjoint (r_subtypes row) (subtypes_any s))
     \<and> disjoint (r_subtypes row) (excluded_subtypes s)
     \<and> set (supertypes_all s) \<subseteq> set (r_supertypes row)
     \<and> set (colors_all s) \<subseteq> set (r_colors row)
     \<and> (colors_any s = [] \<or> \<not> disjoint (colors_any s) (r_colors row))
     \<and> unless_none (q_colorless s) (r_colors row = [])
     \<and> set (keywords_all s) \<subseteq> set (r_keywords row)
     \<and> unless_none (q_token s) (r_token row)
     \<and> unless_none (q_tapped s) (r_tapped row)
     \<and> (include_phased_out s \<or> \<not> r_phased_out row)
     \<and> unless_none (q_known s) (r_known row)
     \<and> (case exclude_ref s of None \<Rightarrow> True | Some r \<Rightarrow> r_ref row \<noteq> r)"

definition object_matches_query :: "query_result \<Rightarrow> query_spec \<Rightarrow> query_error + bool" where
  "object_matches_query row s =
     (if \<not> static_match row s then Inr False
      else case q_state s of
          None \<Rightarrow> Inr True
        | Some p \<Rightarrow> state_predicate_matches p (r_counters row) (r_entered row) (r_tapped row))"

fun query_objects :: "query_result list \<Rightarrow> query_spec \<Rightarrow> query_error + query_result list" where
  "query_objects [] s = Inr []"
| "query_objects (row # rows) s =
     ebind (object_matches_query row s) (\<lambda>hit.
     ebind (query_objects rows s) (\<lambda>rest. Inr (if hit then row # rest else rest)))"

definition DAMAGE_SOURCE_ZONES :: "string list" where
  "DAMAGE_SOURCE_ZONES = [''battlefield'', ''command'', ''exile'', ''graveyard'', ''stack'']"

definition validate_chosen_damage_source :: "query_spec \<Rightarrow> query_error + query_spec" where
  "validate_chosen_damage_source s =
     ebind (ensure (q_zones s \<noteq> [] \<and> set (q_zones s) \<subseteq> set DAMAGE_SOURCE_ZONES) SourceZones) (\<lambda>_.
     ebind (ensure (q_known s = Some True) SourceUnknown) (\<lambda>_.
     ebind (ensure (\<not> include_phased_out s) SourcePhasedOut) (\<lambda>_.
     ebind (ensure (excluded_types s = [] \<and> excluded_subtypes s = []) SourceExclusions) (\<lambda>_.
     ebind (ensure (subtypes_any s = [] \<and> q_colorless s = None \<and> q_state s = None) SourceExtended) (\<lambda>_.
     ebind (ensure (q_token s = None \<and> q_tapped s = None) SourceTokenOrTapped) (\<lambda>_.
     ebind (ensure (exclude_ref s = None) SourceOtherThan) (\<lambda>_. Inr s)))))))"


section \<open>Reading back what was written\<close>

definition canon_terms :: "(string \<Rightarrow> string) \<Rightarrow> string list \<Rightarrow> bool" where
  "canon_terms f ws \<longleftrightarrow> sorted ws \<and> distinct ws \<and> (\<forall>w \<in> set ws. w \<noteq> [] \<and> f w = w)"

lemma upper_char_idem [simp]: "upper_char (upper_char c) = upper_char c"
  by (auto simp: upper_char_def)

lemma upper_idem [simp]: "upper (upper s) = upper s"
  by (simp add: upper_def)

lemma upper_Nil [simp]: "upper s = [] \<longleftrightarrow> s = []" "casefold s = [] \<longleftrightarrow> s = []"
  by (simp_all add: upper_def casefold_def)

lemma emap_names: "\<forall>w \<in> set ws. w \<noteq> [] \<Longrightarrow> emap (\<lambda>v. option_raise e (nonempty_str v)) (map PStr ws) = Inr ws"
  by (induction ws) auto

lemma emap_names_nonempty:
  "emap (\<lambda>v. option_raise e (nonempty_str v)) vs = Inr ws \<Longrightarrow> \<forall>w \<in> set ws. w \<noteq> []"
  by (induction vs arbitrary: ws) (auto simp: ebind_eq_Inr option_raise_eq_Inr nonempty_str_Some)

lemma normalized_terms_canon:
  assumes "normalized_terms field f v = Inr ws" and "\<And>w. f (f w) = f w" and "\<And>w. f w = [] \<longleftrightarrow> w = []"
  shows "canon_terms f ws"
proof -
  from assms(1) obtain vs where "v = PList vs" by (cases v) auto
  then obtain names where names: "emap (\<lambda>v. option_raise (EmptyTerm field) (nonempty_str v)) vs = Inr names"
    and ws: "ws = sort (map f names)" "distinct ws"
    using assms(1) by (auto simp: ebind_eq_Inr Let_def)
  have ne: "w \<noteq> []" if "w \<in> set names" for w using emap_names_nonempty [OF names] that by blast
  then show ?thesis using assms(2,3) ws by (auto simp: canon_terms_def)
qed

lemma normalized_terms_words:
  assumes "canon_terms f ws"
  shows "normalized_terms field f (words ws) = Inr ws"
proof -
  have "map f ws = ws" using assms by (auto simp: canon_terms_def intro: map_idI)
  then show ?thesis using assms
    by (simp add: words_def emap_names canon_terms_def sorted_sort_id)
qed

definition state_ok :: "state_predicate \<Rightarrow> bool" where
  "state_ok s \<longleftrightarrow> state_predicate_from_dict (state_predicate_to_dict s) = Inr s"

lemma counter_name_again: "normalized_counter_name s = Inr n \<Longrightarrow> normalized_counter_name n = Inr n"
  by (auto simp: normalized_counter_name_def Let_def split: if_splits)

lemma counter_condition_again:
  "counter_condition name lowest = Inr c \<Longrightarrow>
   counter_condition (opt_value PStr (map_option fst c)) (opt_value PInt (map_option snd c)) = Inr c"
  by (cases name) (auto simp: ebind_eq_Inr opt_value_def option_raise_eq_Inr positive_int_def
      ebind_ensure_Inr counter_name_again split: option.splits if_splits)

lemma typed_bool_Some: "typed_bool v = Some b \<longleftrightarrow> v = PBool b"
  by (cases v) auto

lemma nullable_bool [simp]: "nullable typed_bool (opt_value PBool x) = Some x"
  by (cases x) (simp_all add: nullable_def opt_value_def)

lemma nullable_name [simp]: "x \<noteq> Some [] \<Longrightarrow> nullable nonempty_str (opt_value PStr x) = Some x"
  by (cases x) (auto simp: nullable_def opt_value_def)

lemma nullable_nonempty: "nullable nonempty_str v = Some x \<Longrightarrow> x \<noteq> Some []"
  by (cases v) (auto simp: nullable_def split: if_splits)

lemma state_predicate_init_ok:
  assumes "state_predicate_init e t n m = Inr s"
  shows "state_ok s"
proof -
  obtain c where c: "counter_condition n m = Inr c"
    and s: "counter_required s = map_option fst c" "counter_minimum s = map_option snd c"
    and some: "entered_required s \<or> tapped_required s \<noteq> None \<or> c \<noteq> None"
    using assms by (auto simp: state_predicate_init_def ebind_eq_Inr ebind_ensure_Inr)
  from counter_condition_again [OF c] some show ?thesis
    by (auto simp: state_ok_def state_predicate_to_dict_def STATE_FIELDS_def dict_get_def
        state_predicate_init_def s)
qed

lemma state_predicate_from_dict_ok: "state_predicate_from_dict v = Inr s \<Longrightarrow> state_ok s"
  by (cases v) (auto simp: ebind_ensure_Inr intro: state_predicate_init_ok)

text \<open>The fields of a built query, whatever its version.\<close>

definition fields_ok :: "query_spec \<Rightarrow> bool" where
  "fields_ok s \<longleftrightarrow>
     canon_terms casefold (q_zones s) \<and> canon_terms casefold (types_all s)
     \<and> canon_terms casefold (types_any s) \<and> canon_terms casefold (excluded_types s)
     \<and> canon_terms casefold (subtypes_all s) \<and> canon_terms casefold (subtypes_any s)
     \<and> canon_terms casefold (excluded_subtypes s) \<and> canon_terms casefold (supertypes_all s)
     \<and> canon_terms casefold (keywords_all s)
     \<and> canon_terms upper (colors_all s) \<and> canon_terms upper (colors_any s)
     \<and> q_owner s \<noteq> Some [] \<and> q_controller s \<noteq> Some [] \<and> exclude_ref s \<noteq> Some []"

definition query_ok :: "query_spec \<Rightarrow> bool" where
  "query_ok s \<longleftrightarrow> fields_ok s
     \<and> (case q_state s of None \<Rightarrow> True | Some p \<Rightarrow> state_ok p)
     \<and> query_version s \<in> {1, 2, 3} \<and> (has_extended s \<longrightarrow> query_version s = 3)
     \<and> (query_version s = 1 \<longrightarrow> types_any s = [])"

lemma has_extended_version [simp]: "has_extended (s\<lparr>query_version := n\<rparr>) = has_extended s"
  by (simp add: has_extended_def)

lemma version_checked:
  assumes "query_version_checked s = Inr t"
  shows "\<exists>n. t = s\<lparr>query_version := n\<rparr> \<and> n \<in> {1, 2, 3} \<and> (has_extended s \<longrightarrow> n = 3) \<and>
    (n = 1 \<longrightarrow> query_version s = 1)"
proof (cases "has_extended s \<and> query_version s = 2")
  case True
  then have "t = s\<lparr>query_version := 3\<rparr>"
    using assms by (simp add: query_version_checked_def ebind_ensure_Inr)
  then show ?thesis by auto
next
  case False
  then have "t = s\<lparr>query_version := query_version s\<rparr>" "query_version s \<in> {1, 2, 3}"
    "has_extended s \<longrightarrow> query_version s = 3"
    using assms by (auto simp: query_version_checked_def ebind_ensure_Inr split: if_splits)
  then show ?thesis by blast
qed

lemma ebind_InrE:
  assumes "ebind m f = Inr y"
  obtains x where "m = Inr x" and "f x = Inr y"
  using assms by (cases m) simp_all

lemma term_canon:
  "normalized_terms field casefold v = Inr ws \<Longrightarrow> canon_terms casefold ws"
  "normalized_terms field upper v = Inr ws \<Longrightarrow> canon_terms upper ws"
  by (erule normalized_terms_canon; simp)+

lemma name_nonempty: "option_raise e (nullable nonempty_str v) = Inr x \<Longrightarrow> x \<noteq> Some []"
  by (auto simp: option_raise_eq_Inr dest: nullable_nonempty)

lemma query_init_parts:
  assumes "query_init d state version = Inr s"
  obtains t where "query_version_checked t = Inr s" and "fields_ok t" and "q_state t = state"
    and "query_version t = version"
    and "normalized_terms ''types_any'' casefold (dict_get (PList []) d ''types_any'') = Inr (types_any t)"
  using assms unfolding query_init_def Let_def
  by (elim ebind_InrE) (rule that, assumption, simp_all add: fields_ok_def term_canon name_nonempty)

lemma query_init_ok:
  assumes "query_init d state version = Inr s"
    and "case state of None \<Rightarrow> True | Some p \<Rightarrow> state_ok p"
    and "version = 1 \<Longrightarrow> ''types_any'' \<notin> fst ` set d"
  shows "query_ok s"
proof -
  obtain t where t: "query_version_checked t = Inr s" "fields_ok t" "q_state t = state"
    "query_version t = version"
    "normalized_terms ''types_any'' casefold (dict_get (PList []) d ''types_any'') = Inr (types_any t)"
    using assms(1) by (rule query_init_parts)
  have "types_any t = []" if "version = 1"
  proof -
    have "dict_get (PList []) d ''types_any'' = PList []"
      using assms(3) [OF that] by (metis dict_get_def map_of_eq_None_iff option.case(1))
    with t(5) show ?thesis by simp
  qed
  with version_checked [OF t(1)] t(2-4) assms(2) show ?thesis
    by (auto simp: query_ok_def fields_ok_def)
qed

lemma query_from_dict_ok:
  assumes "query_from_dict v = Inr s"
  shows "query_ok s"
proof -
  from assms obtain d where v: "v = PDict d" by (cases v) auto
  let ?raw = "dict_get PNone d ''state_predicate''"
  from assms obtain state where
    st: "(if ?raw = PNone then Inr None
          else ebind (state_predicate_from_dict ?raw) (\<lambda>s. Inr (Some s))) = Inr state"
    and init: "query_init d state (version_of d) = Inr s"
    unfolding v query_from_dict.simps Let_def by (elim ebind_InrE)
  have "case state of None \<Rightarrow> True | Some p \<Rightarrow> state_ok p"
    using st by (auto simp: ebind_eq_Inr split: if_splits dest: state_predicate_from_dict_ok)
  with init show ?thesis
    by (rule query_init_ok) (auto simp: version_of_def split: if_splits)
qed

lemma version_kept: "query_version s \<in> {1, 2, 3} \<Longrightarrow> (has_extended s \<longrightarrow> query_version s = 3) \<Longrightarrow> query_version_checked s = Inr s"
  by (auto simp: query_version_checked_def)

text \<open>The constructor on the fields of a built query.\<close>

lemma query_init_again:
  assumes ok: "query_ok s"
    and d: "\<And>f ws. (f, ws) \<in> set [(''zones'', q_zones s), (''types_all'', types_all s), (''types_any'', types_any s),
        (''excluded_types'', excluded_types s), (''subtypes_all'', subtypes_all s),
        (''subtypes_any'', subtypes_any s), (''excluded_subtypes'', excluded_subtypes s),
        (''supertypes_all'', supertypes_all s), (''keywords_all'', keywords_all s),
        (''colors_all'', colors_all s), (''colors_any'', colors_any s)] \<Longrightarrow>
        dict_get (PList []) d f = words ws"
    and n: "\<And>f x. (f, x) \<in> set [(''owner'', q_owner s), (''controller'', q_controller s),
        (''exclude_ref'', exclude_ref s)] \<Longrightarrow> dict_get PNone d f = opt_value PStr x"
    and b: "\<And>f x. (f, x) \<in> set [(''token'', q_token s), (''tapped'', q_tapped s),
        (''known_to_actor'', q_known s), (''colorless'', q_colorless s)] \<Longrightarrow>
        dict_get PNone d f = opt_value PBool x"
    and p: "dict_get (PBool False) d ''include_phased_out'' = PBool (include_phased_out s)"
  shows "query_init d (q_state s) (query_version s) = Inr s"
proof -
  have "query_version_checked s = Inr s"
    using ok by (intro version_kept) (simp_all add: query_ok_def)
  with ok show ?thesis
    by (cases s) (simp add: query_init_def Let_def d n b p normalized_terms_words query_ok_def fields_ok_def)
qed

lemma field_sets:
  "set QUERY_FIELDS \<noteq> set EXTENDED_QUERY_FIELDS" "set LEGACY_QUERY_FIELDS \<noteq> set EXTENDED_QUERY_FIELDS"
  "''types_any'' \<in> set QUERY_FIELDS" "''types_any'' \<notin> set LEGACY_QUERY_FIELDS"
proof -
  have "''colorless'' \<in> set EXTENDED_QUERY_FIELDS" "''colorless'' \<notin> set QUERY_FIELDS"
    "''colorless'' \<notin> set LEGACY_QUERY_FIELDS"
    by (simp_all add: QUERY_FIELDS_def EXTENDED_QUERY_FIELDS_def LEGACY_QUERY_FIELDS_def)
  then show "set QUERY_FIELDS \<noteq> set EXTENDED_QUERY_FIELDS"
    "set LEGACY_QUERY_FIELDS \<noteq> set EXTENDED_QUERY_FIELDS" by blast+
qed (simp_all add: QUERY_FIELDS_def LEGACY_QUERY_FIELDS_def)

lemma query_reads_back:
  assumes ok: "query_ok s"
  shows "query_from_dict (PDict (query_to_dict s)) = Inr s"
proof -
  let ?d = "query_to_dict s"
  have keys: "map fst ?d = (if query_version s = 1 then LEGACY_QUERY_FIELDS
      else if query_version s = 3 then EXTENDED_QUERY_FIELDS else QUERY_FIELDS)"
    by (simp add: query_to_dict_def canonical_dict_def QUERY_FIELDS_def EXTENDED_QUERY_FIELDS_def
        LEGACY_QUERY_FIELDS_def)
  have none: "subtypes_any s = []" "excluded_subtypes s = []" "q_colorless s = None" "q_state s = None"
    if "query_version s \<noteq> 3" using ok that by (auto simp: query_ok_def has_extended_def)
  have legacy: "types_any s = []" if "query_version s = 1" using ok that by (simp add: query_ok_def)
  have version: "version_of ?d = query_version s"
    using ok unfolding version_of_def keys by (auto simp: query_ok_def field_sets)
  have init: "query_init ?d (q_state s) (query_version s) = Inr s"
  proof -
    consider "query_version s = 1" | "query_version s = 2" | "query_version s = 3"
      using ok by (auto simp: query_ok_def)
    then show ?thesis
    proof cases
      case 1
      then show ?thesis using none legacy
        by (intro query_init_again ok)
          (simp_all add: query_to_dict_def canonical_dict_def dict_get_def, (elim disjE; simp add: words_def opt_value_def)+)
    next
      case 2
      then show ?thesis using none
        by (intro query_init_again ok)
          (simp_all add: query_to_dict_def canonical_dict_def dict_get_def, (elim disjE; simp add: words_def opt_value_def)+)
    next
      case 3
      then show ?thesis
        by (intro query_init_again ok)
          (simp_all add: query_to_dict_def canonical_dict_def dict_get_def, (elim disjE; simp)+)
    qed
  qed
  have state: "(if dict_get PNone ?d ''state_predicate'' = PNone then Inr None
      else ebind (state_predicate_from_dict (dict_get PNone ?d ''state_predicate'')) (\<lambda>s. Inr (Some s)))
      = Inr (q_state s)"
    using none ok
    by (cases "q_state s") (auto simp: query_to_dict_def canonical_dict_def dict_get_def opt_value_def
        query_ok_def state_ok_def state_predicate_to_dict_def)
  have "set (map fst ?d) \<in> {set QUERY_FIELDS, set LEGACY_QUERY_FIELDS, set EXTENDED_QUERY_FIELDS}"
    unfolding keys by simp
  with init state version show ?thesis by (simp add: Let_def)
qed

section \<open>Properties\<close>

text \<open>
  A query that was accepted, in the legacy, the current or the extended form, reads back from its own
  dictionary as the same query, so a saved query keeps its terms and its form.
\<close>

theorem query_roundtrip:
  assumes "query_from_dict v = Inr s"
  shows "query_from_dict (PDict (query_to_dict s)) = Inr s"
  using assms by (intro query_reads_back query_from_dict_ok)

definition sample_query :: pyval where
  "sample_query =
     PDict [(''zones'', words [''Battlefield'']), (''owner'', PNone), (''controller'', PStr ''A''),
            (''types_all'', words [''Creature'', ''ARTIFACT'']), (''excluded_types'', words []),
            (''subtypes_all'', words []), (''supertypes_all'', words []), (''colors_all'', words [''w'']),
            (''colors_any'', words []), (''keywords_all'', words []), (''token'', PNone),
            (''tapped'', PBool False), (''include_phased_out'', PBool False), (''known_to_actor'', PNone),
            (''exclude_ref'', PNone)]"

lemma sample_query_read:
  "query_from_dict sample_query =
     Inr (any_object\<lparr>q_zones := [''battlefield''], q_controller := Some ''A'',
            types_all := [''artifact'', ''creature''], colors_all := [''W''], q_tapped := Some False,
            query_version := 1\<rparr>)"
  by code_simp

theorem query_roundtrip_witness:
  "\<exists>s. query_from_dict sample_query = Inr s \<and> query_from_dict (PDict (query_to_dict s)) = Inr s"
  using query_roundtrip [OF sample_query_read] sample_query_read by blast

end
