(* ===== verification/Continuous_Model.thy ===== *)
theory Continuous_Model imports Object_Queries Trigger_Batches
begin

text \<open>
  Continuous effects as data (\<open>quorune/continuous_effect_model.py\<close>): the seven layers, the closed set of
  operations with their checked values, object identities and effects, and how they are read and
  written.

  Typed ability fragments and activated abilities belong to other modules; what is used of them is the
  record \<open>ability_host\<close>: reading a fragment (\<open>ability_fragment_from_dict\<close>, \<open>None\<close> when it raises), its
  dictionary and stable JSON text, and the same for activated abilities.
\<close>

record ('f, 'a) ability_host =
  fragment_of :: "pyval \<Rightarrow> 'f option"
  fragment_row :: "'f \<Rightarrow> pyval"
  fragment_json :: "'f \<Rightarrow> string"
  ability_accepted :: "pyval \<Rightarrow> bool"
  ability_of :: "pyval \<Rightarrow> 'a option"
  ability_row :: "'a \<Rightarrow> pyval"

datatype effect_error =
    WordsNotArray string
  | WordsRepeated string
  | CopyNotObject
  | UnknownCopyFields "string list"
  | CopyField string
  | FieldNotAccepted string
  | FaceDownNotObject
  | FaceDownUnknown
  | FaceDownField string
  | ControllerNotText
  | ReplaceTextFields
  | BadTypeField
  | BadColors
  | AbilityNotText string
  | BadFragment string
  | NoValueAccepted string
  | NotIntegerPair string
  | OperationNameMissing
  | UnsupportedOperation string
  | FieldNotText
  | ValueNotFrozen
  | OperationNotObject
  | OperationFields
  | IdentityMissing
  | IdentityFields
  | IdentityNotText
  | LockedSetRequired
  | ExplicitDurationRequired
  | OnlyGeneratedLocks
  | SourcePresenceRequired
  | UnrelatedObject
  | RelatedObjectRequired
  | RelationNeedsStatic
  | RelationNeedsPresence
  | EffectTextMissing string
  | NegativeTimestamp
  | SublayerNotInLayer string
  | NoOperations
  | OperationInWrongLayer
  | DependencyNotText
  | DependencyRepeated
  | LockedRepeated
  | EffectFields
  | EffectArrays
  | EffectScalars
  | BadEnumeration
  | BadApplicability query_error
  | IdsNotUnique
  | UnknownCopiable string
  | BadPair string

section \<open>Layers, origins, durations, relations\<close>

datatype layer =
  CopyLayer | ControlLayer | TextLayer | TypeLayer | ColorLayer | AbilityLayer | PowerToughnessLayer

fun layer_number :: "layer \<Rightarrow> int" where
  "layer_number CopyLayer = 1"
| "layer_number ControlLayer = 2"
| "layer_number TextLayer = 3"
| "layer_number TypeLayer = 4"
| "layer_number ColorLayer = 5"
| "layer_number AbilityLayer = 6"
| "layer_number PowerToughnessLayer = 7"

datatype effect_origin = FromObject | FromReplacement | FromResolution | FromStaticAbility
datatype effect_duration = WhileSourcePresent | UntilEndOfTurn | ForZoneObject
datatype effect_relation = Unrelated | SourceAttachedToObject

fun origin_text :: "effect_origin \<Rightarrow> string" where
  "origin_text FromObject = ''object''"
| "origin_text FromReplacement = ''replacement''"
| "origin_text FromResolution = ''resolution''"
| "origin_text FromStaticAbility = ''static_ability''"

fun duration_text :: "effect_duration \<Rightarrow> string" where
  "duration_text WhileSourcePresent = ''while_source_present''"
| "duration_text UntilEndOfTurn = ''until_end_of_turn''"
| "duration_text ForZoneObject = ''zone_object''"

fun relation_text :: "effect_relation \<Rightarrow> string" where
  "relation_text Unrelated = ''none''"
| "relation_text SourceAttachedToObject = ''source_attached_to_object''"

text \<open>The member of an enumeration with a given value.\<close>

definition member_of :: "('m \<Rightarrow> 'v) \<Rightarrow> 'm list \<Rightarrow> 'v \<Rightarrow> effect_error + 'm" where
  "member_of value_of ms v = option_raise BadEnumeration (List.find (\<lambda>m. value_of m = v) ms)"

definition LAYERS :: "layer list" where
  "LAYERS = [CopyLayer, ControlLayer, TextLayer, TypeLayer, ColorLayer, AbilityLayer, PowerToughnessLayer]"

definition ORIGINS :: "effect_origin list" where
  "ORIGINS = [FromObject, FromReplacement, FromResolution, FromStaticAbility]"

definition DURATIONS :: "effect_duration list" where
  "DURATIONS = [WhileSourcePresent, UntilEndOfTurn, ForZoneObject]"

definition RELATIONS :: "effect_relation list" where
  "RELATIONS = [Unrelated, SourceAttachedToObject]"

definition OPERATION_LAYERS :: "(string, layer) dict" where
  "OPERATION_LAYERS =
     [(''copy_values'', CopyLayer), (''face_down'', CopyLayer), (''set_controller'', ControlLayer),
      (''replace_text'', TextLayer), (''set_types'', TypeLayer), (''add_types'', TypeLayer),
      (''remove_types'', TypeLayer), (''set_colors'', ColorLayer), (''add_colors'', ColorLayer),
      (''remove_colors'', ColorLayer), (''remove_all_colors'', ColorLayer),
      (''add_ability'', AbilityLayer), (''remove_ability'', AbilityLayer),
      (''remove_all_abilities'', AbilityLayer), (''add_rules_text'', AbilityLayer),
      (''add_ability_fragment'', AbilityLayer), (''remove_ability_fragment'', AbilityLayer),
      (''set_power_toughness'', PowerToughnessLayer), (''modify_power_toughness'', PowerToughnessLayer),
      (''switch_power_toughness'', PowerToughnessLayer)]"

fun layer_sublayers :: "layer \<Rightarrow> string list" where
  "layer_sublayers CopyLayer = [''1a'', ''1b'']"
| "layer_sublayers ControlLayer = [''2'']"
| "layer_sublayers TextLayer = [''3'']"
| "layer_sublayers TypeLayer = [''4'']"
| "layer_sublayers ColorLayer = [''5'']"
| "layer_sublayers AbilityLayer = [''6'']"
| "layer_sublayers PowerToughnessLayer = [''7a'', ''7b'', ''7c'', ''7d'']"

definition COPY_FIELDS :: "string list" where
  "COPY_FIELDS =
     [''name'', ''controller'', ''mana_cost'', ''mana_value'', ''text'', ''executable_text'',
      ''supertypes'', ''card_types'', ''subtypes'', ''colors'', ''abilities'', ''ability_fragments'',
      ''activated_abilities'', ''power'', ''toughness'', ''loyalty'', ''defense'', ''copiable_values'']"

definition WORD_FIELDS :: "string list" where
  "WORD_FIELDS = [''supertypes'', ''card_types'', ''subtypes'', ''colors'', ''abilities'']"

section \<open>Checked values\<close>

definition string_array :: "string \<Rightarrow> bool \<Rightarrow> pyval \<Rightarrow> effect_error + string list" where
  "string_array field unique v =
     (case v of
        PList vs \<Rightarrow>
          ebind (emap (\<lambda>x. option_raise (WordsNotArray field) (nonempty_str x)) vs) (\<lambda>ws.
          ebind (ensure (unique \<longrightarrow> distinct (map casefold ws)) (WordsRepeated field)) (\<lambda>_. Inr ws))
      | _ \<Rightarrow> Inl (WordsNotArray field))"

definition nonempty_words :: "string \<Rightarrow> pyval \<Rightarrow> effect_error + string list" where
  "nonempty_words field v =
     ebind (ensure (v \<noteq> PList []) (WordsNotArray field)) (\<lambda>_. string_array field True v)"

fun is_number :: "pyval \<Rightarrow> bool" where
  "is_number (PInt n) \<longleftrightarrow> 0 \<le> n"
| "is_number (PFloat m e) \<longleftrightarrow> 0 \<le> m"
| "is_number _ \<longleftrightarrow> False"

fun is_mapping :: "pyval \<Rightarrow> bool" where
  "is_mapping (PDict d) \<longleftrightarrow> True"
| "is_mapping _ \<longleftrightarrow> False"

fun is_integer :: "pyval \<Rightarrow> bool" where
  "is_integer (PInt n) \<longleftrightarrow> True"
| "is_integer _ \<longleftrightarrow> False"

fun all_items :: "(pyval \<Rightarrow> bool) \<Rightarrow> pyval \<Rightarrow> bool" where
  "all_items f (PList vs) \<longleftrightarrow> list_all f vs"
| "all_items f _ \<longleftrightarrow> False"

definition check_copy_field :: "('f, 'a) ability_host \<Rightarrow> string \<times> pyval \<Rightarrow> effect_error + unit" where
  "check_copy_field host kv =
     (let k = fst kv; v = snd kv; ok = (\<lambda>b. ensure b (CopyField k)) in
      if k \<in> set WORD_FIELDS then
        ebind (string_array (''copy_values.'' @ k) (k \<noteq> ''abilities'') v) (\<lambda>_. Inr ())
      else if k = ''ability_fragments'' then ok (all_items (\<lambda>x. fragment_of host x \<noteq> None) v)
      else if k = ''activated_abilities'' then ok (all_items (ability_accepted host) v)
      else if k \<in> {''name'', ''controller'', ''mana_cost'', ''text'', ''executable_text''} then ok (is_text v)
      else if k = ''mana_value'' then ok (is_number v)
      else if k \<in> {''power'', ''toughness'', ''loyalty'', ''defense''} then ok (v = PNone \<or> is_integer v)
      else ok (k = ''copiable_values'' \<longrightarrow> is_mapping v))"

definition validate_copy_values :: "('f, 'a) ability_host \<Rightarrow> pyval \<Rightarrow> effect_error + unit" where
  "validate_copy_values host v =
     (case v of
        PDict d \<Rightarrow>
          ebind (ensure (d \<noteq> []) CopyNotObject) (\<lambda>_.
          let unknown = filter (\<lambda>k. k \<notin> set COPY_FIELDS) (map fst d) in
          ebind (ensure (unknown = []) (UnknownCopyFields (sort unknown))) (\<lambda>_.
          ebind (emap (check_copy_field host) d) (\<lambda>_. Inr ())))
      | _ \<Rightarrow> Inl CopyNotObject)"

definition FACE_DOWN_FIELDS :: "string list" where
  "FACE_DOWN_FIELDS =
     [''name'', ''mana_cost'', ''mana_value'', ''text'', ''supertypes'', ''card_types'', ''subtypes'',
      ''colors'', ''abilities'', ''power'', ''toughness'']"

text \<open>The order of the checks of a face-down description decides which error is raised; here every field is
  checked in the order of the closed field list.\<close>

definition check_face_down_field :: "(string, pyval) dict \<Rightarrow> string \<Rightarrow> effect_error + unit" where
  "check_face_down_field d k =
     (case map_of d k of
        None \<Rightarrow> Inr ()
      | Some v \<Rightarrow>
          if k \<in> set WORD_FIELDS then
            ebind (string_array (''face_down.'' @ k) (k \<noteq> ''abilities'') v) (\<lambda>_. Inr ())
          else if k \<in> {''name'', ''mana_cost'', ''text''} then ensure (is_text v) (FaceDownField k)
          else if k = ''mana_value'' then ensure (is_number v) (FaceDownField k)
          else ensure (is_integer v) (FaceDownField k))"

definition validate_face_down :: "pyval \<Rightarrow> effect_error + unit" where
  "validate_face_down v =
     (case v of
        PDict d \<Rightarrow>
          ebind (ensure (set (map fst d) \<subseteq> set FACE_DOWN_FIELDS) FaceDownUnknown) (\<lambda>_.
          ebind (emap (check_face_down_field d)
                   (WORD_FIELDS @ [''name'', ''mana_cost'', ''text'', ''mana_value'', ''power'', ''toughness'']))
            (\<lambda>_. Inr ()))
      | _ \<Rightarrow> Inl FaceDownNotObject)"

definition COLOR_SYMBOLS :: "string list" where
  "COLOR_SYMBOLS = [''W'', ''U'', ''B'', ''R'', ''G'', ''C'']"

fun replacement_pair :: "pyval \<Rightarrow> (string \<times> string) option" where
  "replacement_pair (PDict d) =
     (if set (map fst d) = {''from'', ''to''} then
        (case (dict_get PNone d ''from'', dict_get PNone d ''to'') of
           (PStr f, PStr t) \<Rightarrow> if f = [] then None else Some (f, t)
         | _ \<Rightarrow> None)
      else None)"
| "replacement_pair _ = None"

fun integer_pair :: "pyval \<Rightarrow> (int \<times> int) option" where
  "integer_pair (PList [PInt a, PInt b]) = Some (a, b)"
| "integer_pair _ = None"

definition validate_operation_value ::
  "('f, 'a) ability_host \<Rightarrow> string \<Rightarrow> pyval \<Rightarrow> string option \<Rightarrow> effect_error + unit" where
  "validate_operation_value host name v field =
     (let types = {''set_types'', ''add_types'', ''remove_types''} in
      ebind (ensure (name \<notin> types \<longrightarrow> field = None) (FieldNotAccepted name)) (\<lambda>_.
      if name = ''copy_values'' then validate_copy_values host v
      else if name = ''face_down'' then validate_face_down v
      else if name = ''set_controller'' then ensure (nonempty_str v \<noteq> None) ControllerNotText
      else if name = ''replace_text'' then ensure (replacement_pair v \<noteq> None) ReplaceTextFields
      else if name \<in> types then
        ebind (ensure (field \<in> {None, Some ''supertypes'', Some ''card_types'', Some ''subtypes''}) BadTypeField)
          (\<lambda>_. ebind (nonempty_words name v) (\<lambda>_. Inr ()))
      else if name \<in> {''set_colors'', ''add_colors'', ''remove_colors''} then
        ebind (nonempty_words name v) (\<lambda>cs.
        ensure (\<forall>c \<in> set cs. upper c \<in> set COLOR_SYMBOLS) BadColors)
      else if name \<in> {''add_ability'', ''remove_ability'', ''add_rules_text''} then
        ensure (nonempty_str v \<noteq> None) (AbilityNotText name)
      else if name \<in> {''add_ability_fragment'', ''remove_ability_fragment''} then
        ensure (is_mapping v \<and> fragment_of host v \<noteq> None) (BadFragment name)
      else if name \<in> {''remove_all_abilities'', ''remove_all_colors'', ''switch_power_toughness''} then
        ensure (v = PNone) (NoValueAccepted name)
      else ensure (integer_pair v \<noteq> None) (NotIntegerPair name)))"

section \<open>Operations\<close>

record operation =
  op_name :: string
  op_value :: pyval
  op_field :: "string option"

definition operation_init ::
  "('f, 'a) ability_host \<Rightarrow> string \<Rightarrow> pyval \<Rightarrow> pyval \<Rightarrow> effect_error + operation" where
  "operation_init host name v raw_field =
     ebind (ensure (name \<noteq> []) OperationNameMissing) (\<lambda>_.
     ebind (ensure (map_of OPERATION_LAYERS name \<noteq> None) (UnsupportedOperation name)) (\<lambda>_.
     ebind (option_raise FieldNotText (nullable nonempty_str raw_field)) (\<lambda>field.
     ebind (validate_operation_value host name v field) (\<lambda>_.
     ebind (reraise (\<lambda>_. ValueNotFrozen) (freeze_value v)) (\<lambda>frozen.
     Inr \<lparr>op_name = name, op_value = frozen, op_field = field\<rparr>)))))"

definition operation_to_dict :: "operation \<Rightarrow> pyval" where
  "operation_to_dict x =
     PDict [(''op'', PStr (op_name x)), (''value'', op_value x), (''field'', opt_value PStr (op_field x))]"

fun operation_from_dict :: "('f, 'a) ability_host \<Rightarrow> pyval \<Rightarrow> effect_error + operation" where
  "operation_from_dict host (PDict d) =
     ebind (ensure (set (map fst d) = {''op'', ''value'', ''field''}) OperationFields) (\<lambda>_.
     case dict_get PNone d ''op'' of
       PStr name \<Rightarrow> operation_init host name (dict_get PNone d ''value'') (dict_get PNone d ''field'')
     | _ \<Rightarrow> Inl OperationNameMissing)"
| "operation_from_dict host _ = Inl OperationNotObject"

section \<open>Identities\<close>

record object_identity =
  identity_object :: string
  identity_logical :: string

definition identity_init :: "string \<Rightarrow> string \<Rightarrow> effect_error + object_identity" where
  "identity_init i l =
     ebind (ensure (i \<noteq> [] \<and> l \<noteq> []) IdentityMissing) (\<lambda>_.
     Inr \<lparr>identity_object = i, identity_logical = l\<rparr>)"

definition identity_to_dict :: "object_identity \<Rightarrow> pyval" where
  "identity_to_dict x =
     PDict [(''object_id'', PStr (identity_object x)), (''logical_object_id'', PStr (identity_logical x))]"

fun identity_from_dict :: "pyval \<Rightarrow> effect_error + object_identity" where
  "identity_from_dict (PDict d) =
     ebind (ensure (set (map fst d) = {''object_id'', ''logical_object_id''}) IdentityFields) (\<lambda>_.
     case (dict_get PNone d ''object_id'', dict_get PNone d ''logical_object_id'') of
       (PStr i, PStr l) \<Rightarrow> identity_init i l
     | _ \<Rightarrow> Inl IdentityNotText)"
| "identity_from_dict _ = Inl IdentityFields"

definition identity_key :: "object_identity \<Rightarrow> string \<times> string" where
  "identity_key x = (identity_object x, identity_logical x)"

section \<open>Effects\<close>

record continuous_effect =
  effect_id :: string
  effect_source :: string
  effect_layer :: layer
  sublayer :: string
  effect_timestamp :: int
  operations :: "operation list"
  depends_on :: "string list"
  characteristic_defining :: bool
  effect_origin :: effect_origin
  effect_duration :: effect_duration
  source_present :: bool
  applies_to :: query_spec
  locked_objects :: "object_identity list"
  effect_relation :: effect_relation
  related_object :: "object_identity option"

definition is_generated :: "continuous_effect \<Rightarrow> bool" where
  "is_generated e \<longleftrightarrow> effect_origin e \<in> {FromReplacement, FromResolution}"

definition validate_identity_scope :: "continuous_effect \<Rightarrow> effect_error + unit" where
  "validate_identity_scope e =
     ebind (ensure (\<not> (is_generated e \<and> locked_objects e = [])) LockedSetRequired) (\<lambda>_.
     ebind (ensure (\<not> (is_generated e \<and> effect_duration e = WhileSourcePresent)) ExplicitDurationRequired) (\<lambda>_.
     ebind (ensure (\<not> (\<not> is_generated e \<and> locked_objects e \<noteq> [])) OnlyGeneratedLocks) (\<lambda>_.
     ebind (ensure (\<not> (effect_origin e = FromStaticAbility \<and> effect_duration e \<noteq> WhileSourcePresent))
              SourcePresenceRequired) (\<lambda>_.
     if effect_relation e = Unrelated then ensure (related_object e = None) UnrelatedObject
     else
       ebind (ensure (related_object e \<noteq> None) RelatedObjectRequired) (\<lambda>_.
       ebind (ensure (effect_origin e = FromStaticAbility) RelationNeedsStatic) (\<lambda>_.
       ensure (effect_duration e = WhileSourcePresent) RelationNeedsPresence))))))"

definition effect_init :: "continuous_effect \<Rightarrow> effect_error + continuous_effect" where
  "effect_init e =
     ebind (ensure (effect_id e \<noteq> []) (EffectTextMissing ''effect_id'')) (\<lambda>_.
     ebind (ensure (effect_source e \<noteq> []) (EffectTextMissing ''source_id'')) (\<lambda>_.
     ebind (ensure (sublayer e \<noteq> []) (EffectTextMissing ''sublayer'')) (\<lambda>_.
     ebind (ensure (0 \<le> effect_timestamp e) NegativeTimestamp) (\<lambda>_.
     ebind (ensure (sublayer e \<in> set (layer_sublayers (effect_layer e)))
              (SublayerNotInLayer (sublayer e))) (\<lambda>_.
     ebind (ensure (operations e \<noteq> []) NoOperations) (\<lambda>_.
     ebind (ensure (\<forall>x \<in> set (operations e). map_of OPERATION_LAYERS (op_name x) = Some (effect_layer e))
              OperationInWrongLayer) (\<lambda>_.
     ebind (ensure (\<forall>d \<in> set (depends_on e). d \<noteq> []) DependencyNotText) (\<lambda>_.
     ebind (ensure (distinct (depends_on e)) DependencyRepeated) (\<lambda>_.
     let locked = sort_key identity_key (locked_objects e);
         built = e\<lparr>locked_objects := locked\<rparr> in
     ebind (ensure (distinct locked) LockedRepeated) (\<lambda>_.
     ebind (validate_identity_scope built) (\<lambda>_. Inr built)))))))))))"

definition effect_to_dict :: "continuous_effect \<Rightarrow> (string, pyval) dict" where
  "effect_to_dict e =
     [(''effect_id'', PStr (effect_id e)), (''source_id'', PStr (effect_source e)),
      (''layer'', PInt (layer_number (effect_layer e))), (''sublayer'', PStr (sublayer e)),
      (''timestamp'', PInt (effect_timestamp e)),
      (''operations'', PList (map operation_to_dict (operations e))),
      (''depends_on'', words (depends_on e)),
      (''characteristic_defining'', PBool (characteristic_defining e)),
      (''origin'', PStr (origin_text (effect_origin e))),
      (''duration'', PStr (duration_text (effect_duration e))),
      (''source_present'', PBool (source_present e)), (''applies'', PDict (query_to_dict (applies_to e))),
      (''locked_objects'', PList (map identity_to_dict (locked_objects e)))]
     @ (if effect_relation e = Unrelated then []
        else [(''relation'', PStr (relation_text (effect_relation e))),
              (''related_object'', opt_value identity_to_dict (related_object e))])"

definition EFFECT_FIELDS :: "string list" where
  "EFFECT_FIELDS =
     [''effect_id'', ''source_id'', ''layer'', ''sublayer'', ''timestamp'', ''operations'', ''depends_on'',
      ''characteristic_defining'', ''origin'', ''duration'', ''source_present'', ''applies'', ''locked_objects'']"

definition RELATION_FIELDS :: "string list" where
  "RELATION_FIELDS = EFFECT_FIELDS @ [''relation'', ''related_object'']"

definition read_array :: "effect_error \<Rightarrow> pyval \<Rightarrow> effect_error + pyval list" where
  "read_array e v = (case v of PList vs \<Rightarrow> Inr vs | _ \<Rightarrow> Inl e)"

definition read_text :: "effect_error \<Rightarrow> pyval \<Rightarrow> effect_error + string" where
  "read_text e v = (case v of PStr s \<Rightarrow> Inr s | _ \<Rightarrow> Inl e)"

definition read_relation :: "(string, pyval) dict \<Rightarrow> effect_error + effect_relation" where
  "read_relation d =
     (case map_of d ''relation'' of
        None \<Rightarrow> Inr Unrelated
      | Some v \<Rightarrow> ebind (read_text BadEnumeration v) (member_of relation_text RELATIONS))"

definition read_related :: "(string, pyval) dict \<Rightarrow> effect_error + object_identity option" where
  "read_related d =
     (case map_of d ''related_object'' of
        None \<Rightarrow> Inr None
      | Some v \<Rightarrow> ebind (identity_from_dict v) (\<lambda>x. Inr (Some x)))"

fun effect_from_dict :: "('f, 'a) ability_host \<Rightarrow> pyval \<Rightarrow> effect_error + continuous_effect" where
  "effect_from_dict host (PDict d) =
     (let get = dict_get PNone d in
      ebind (ensure (set (map fst d) \<in> {set EFFECT_FIELDS, set RELATION_FIELDS}) EffectFields) (\<lambda>_.
      ebind (read_array EffectArrays (get ''operations'')) (\<lambda>raw_operations.
      ebind (read_array EffectArrays (get ''locked_objects'')) (\<lambda>raw_locked.
      ebind (read_array DependencyNotText (get ''depends_on'')) (\<lambda>raw_depends.
      ebind (emap (\<lambda>v. option_raise DependencyNotText (nonempty_str v)) raw_depends) (\<lambda>depends.
      ebind (option_raise EffectScalars (typed_bool (get ''characteristic_defining''))) (\<lambda>defining.
      ebind (read_text EffectScalars (get ''effect_id'')) (\<lambda>i.
      ebind (read_text EffectScalars (get ''source_id'')) (\<lambda>source.
      ebind (read_text EffectScalars (get ''sublayer'')) (\<lambda>sub.
      ebind (option_raise EffectScalars (exact_int (get ''layer''))) (\<lambda>n.
      ebind (option_raise EffectScalars (exact_int (get ''timestamp''))) (\<lambda>stamp.
      ebind (read_text EffectScalars (get ''origin'')) (\<lambda>origin.
      ebind (read_text EffectScalars (get ''duration'')) (\<lambda>duration.
      ebind (option_raise EffectScalars (typed_bool (get ''source_present''))) (\<lambda>present.
      ebind (member_of layer_number LAYERS n) (\<lambda>layer.
      ebind (emap (operation_from_dict host) raw_operations) (\<lambda>ops.
      ebind (member_of origin_text ORIGINS origin) (\<lambda>from.
      ebind (member_of duration_text DURATIONS duration) (\<lambda>lasting.
      ebind (reraise BadApplicability (query_from_dict (get ''applies''))) (\<lambda>query.
      ebind (emap identity_from_dict raw_locked) (\<lambda>locked.
      ebind (read_relation d) (\<lambda>rel.
      ebind (read_related d) (\<lambda>related.
      effect_init
        \<lparr>effect_id = i, effect_source = source, effect_layer = layer, sublayer = sub,
         effect_timestamp = stamp, operations = ops, depends_on = depends,
         characteristic_defining = defining, effect_origin = from, effect_duration = lasting,
         source_present = present, applies_to = query, locked_objects = locked,
         effect_relation = rel, related_object = related\<rparr>)))))))))))))))))))))))"
| "effect_from_dict host _ = Inl EffectFields"

section \<open>Freezing keeps what the checks look at\<close>

text \<open>What is used of the host: reading a fragment or an ability does not depend on whether it is frozen.\<close>

definition reads_frozen :: "('f, 'a) ability_host \<Rightarrow> bool" where
  "reads_frozen host \<longleftrightarrow>
     (\<forall>v w. freeze_value v = Inr w \<longrightarrow>
        fragment_of host w = fragment_of host v \<and> ability_accepted host w = ability_accepted host v)"

lemma freeze_list_all2: "freeze_list vs = Inr ws \<Longrightarrow> list_all2 (\<lambda>v w. freeze_value v = Inr w) vs ws"
  by (induction vs arbitrary: ws) (auto simp: ebind_eq_Inr)

lemma freeze_items_all2:
  "freeze_items vs = Inr ws \<Longrightarrow> list_all2 (\<lambda>a b. fst b = fst a \<and> freeze_value (snd a) = Inr (snd b)) vs ws"
  by (induction vs arbitrary: ws) (auto simp: ebind_eq_Inr)

lemma freeze_PDict:
  assumes "freeze_value (PDict d) = Inr w"
  obtains frozen where "w = PDict (sort_key fst frozen)"
    and "list_all2 (\<lambda>a b. fst b = fst a \<and> freeze_value (snd a) = Inr (snd b)) d frozen"
  using assms by (auto simp: ebind_eq_Inr dest: freeze_items_all2)

lemma freeze_PList:
  assumes "freeze_value (PList vs) = Inr w"
  obtains ws where "w = PList ws" and "list_all2 (\<lambda>v w. freeze_value v = Inr w) vs ws"
  using assms by (auto simp: ebind_eq_Inr dest: freeze_list_all2)

lemma freeze_scalars:
  assumes "freeze_value v = Inr w"
  shows "nonempty_str w = nonempty_str v" "is_text w = is_text v" "is_number w = is_number v"
    "is_integer w = is_integer v" "is_mapping w = is_mapping v" "w = PNone \<longleftrightarrow> v = PNone"
    "exact_int w = exact_int v" "w = PList [] \<longleftrightarrow> v = PList []" "w = PStr s \<longleftrightarrow> v = PStr s"
proof -
  have "(\<exists>ws. w = PList ws \<and> (ws = [] \<longleftrightarrow> vs = []))" if "v = PList vs" for vs
    using assms unfolding that by (rule freeze_PList) auto
  moreover have "\<exists>d'. w = PDict d'" if "v = PDict d" for d
    using assms unfolding that by (rule freeze_PDict) auto
  moreover have "w = v" if "\<nexists>vs. v = PList vs" "\<nexists>d. v = PDict d"
    using assms that by (cases v) simp_all
  ultimately have shape: "(\<exists>vs ws. v = PList vs \<and> w = PList ws \<and> (ws = [] \<longleftrightarrow> vs = []))
      \<or> (\<exists>d d'. v = PDict d \<and> w = PDict d') \<or> w = v" by metis
  then show "nonempty_str w = nonempty_str v" "is_text w = is_text v" "is_number w = is_number v"
    "is_integer w = is_integer v" "is_mapping w = is_mapping v" "w = PNone \<longleftrightarrow> v = PNone"
    "exact_int w = exact_int v" "w = PList [] \<longleftrightarrow> v = PList []" "w = PStr s \<longleftrightarrow> v = PStr s" by auto
qed

lemma all_items_frozen:
  assumes "freeze_value v = Inr w" and "\<And>x y. freeze_value x = Inr y \<Longrightarrow> f y = f x"
  shows "all_items f w = all_items f v"
proof (cases v)
  case (PList vs)
  with assms(1) obtain ws where w: "w = PList ws" and rel: "list_all2 (\<lambda>v w. freeze_value v = Inr w) vs ws"
    by (auto elim: freeze_PList simp del: freeze_value.simps)
  from rel have "list_all f ws = list_all f vs"
    by (induction rule: list_all2_induct) (auto dest: assms(2))
  then show ?thesis by (simp add: w PList)
qed (use assms(1) in \<open>auto simp: ebind_eq_Inr\<close>)

lemma string_array_frozen:
  assumes "freeze_value v = Inr w"
  shows "string_array field u w = string_array field u v"
proof (cases v)
  case (PList vs)
  with assms obtain ws where w: "w = PList ws" and rel: "list_all2 (\<lambda>v w. freeze_value v = Inr w) vs ws"
    by (auto elim: freeze_PList simp del: freeze_value.simps)
  from rel have "emap (\<lambda>x. option_raise (WordsNotArray field) (nonempty_str x)) ws
      = emap (\<lambda>x. option_raise (WordsNotArray field) (nonempty_str x)) vs"
    by (induction rule: list_all2_induct) (auto dest: freeze_scalars(1))
  then show ?thesis by (simp add: w PList string_array_def)
qed (use assms in \<open>auto simp: string_array_def ebind_eq_Inr\<close>)

lemma nonempty_words_frozen:
  "freeze_value v = Inr w \<Longrightarrow> nonempty_words field w = nonempty_words field v"
  unfolding nonempty_words_def using string_array_frozen [of v w] freeze_scalars(8) [of v w] by simp

lemma map_of_insort: "map_of (insort_key fst x xs) k = (if fst x = k then Some (snd x) else map_of xs k)"
  by (induction xs) auto

lemma map_of_sort_fst: "map_of (sort_key fst xs) = map_of xs"
  by (induction xs) (auto simp: map_of_insort fun_eq_iff)

lemma map_of_frozen:
  assumes "list_all2 (\<lambda>a b. fst b = fst a \<and> freeze_value (snd a) = Inr (snd b)) d frozen"
  shows "rel_option (\<lambda>v w. freeze_value v = Inr w) (map_of d k) (map_of frozen k)"
    and "map fst frozen = map fst d"
  using assms
proof (induction rule: list_all2_induct)
  case (Cons a d b frozen)
  { case 1 then show ?case using Cons.hyps Cons.IH by (cases a; cases b) simp }
  { case 2 then show ?case using Cons.hyps Cons.IH by simp }
qed simp_all

lemma integer_pair_frozen:
  assumes "freeze_value v = Inr w"
  shows "integer_pair w = integer_pair v"
proof (cases v)
  case (PList vs)
  with assms obtain ws where w: "w = PList ws" and rel: "list_all2 (\<lambda>v w. freeze_value v = Inr w) vs ws"
    by (auto elim: freeze_PList simp del: freeze_value.simps)
  have len: "length ws = length vs" using rel by (simp add: list_all2_lengthD)
  show ?thesis
  proof (cases "length vs = 2")
    case True
    then obtain a b where vs: "vs = [a, b]" by (auto simp: numeral_2_eq_2 length_Suc_conv)
    with rel obtain c d where ws: "ws = [c, d]" and "freeze_value a = Inr c" "freeze_value b = Inr d"
      by (auto simp: list_all2_Cons1)
    then show ?thesis
      by (cases a; cases b; auto simp: w PList vs ebind_eq_Inr)
  next
    case False
    then have "integer_pair (PList xs) = None" if "length xs = length vs" for xs
      using that by (cases "PList xs" rule: integer_pair.cases) auto
    then show ?thesis by (simp add: w PList len)
  qed
qed (use assms in \<open>auto simp: ebind_eq_Inr\<close>)

lemma dict_get_frozen:
  assumes "list_all2 (\<lambda>a b. fst b = fst a \<and> freeze_value (snd a) = Inr (snd b)) d frozen"
  shows "freeze_value (dict_get PNone d k) = Inr (dict_get PNone (sort_key fst frozen) k)"
  using map_of_frozen(1) [OF assms, of k]
  by (auto simp: dict_get_def map_of_sort_fst split: option.splits)

lemma replacement_pair_Some:
  "replacement_pair (PDict d) = Some (f, t) \<longleftrightarrow> fst ` set d = {''from'', ''to''} \<and>
     dict_get PNone d ''from'' = PStr f \<and> dict_get PNone d ''to'' = PStr t \<and> f \<noteq> []"
  by (auto split: pyval.splits)

lemma replacement_pair_frozen:
  assumes "freeze_value v = Inr w"
  shows "replacement_pair w = replacement_pair v"
proof (cases v)
  case (PDict d)
  with assms obtain frozen where w: "w = PDict (sort_key fst frozen)"
    and rel: "list_all2 (\<lambda>a b. fst b = fst a \<and> freeze_value (snd a) = Inr (snd b)) d frozen"
    by (auto elim: freeze_PDict simp del: freeze_value.simps)
  have keys: "fst ` set frozen = fst ` set d" using map_of_frozen(2) [OF rel] by (metis list.set_map)
  have "replacement_pair w = Some (f, t) \<longleftrightarrow> replacement_pair v = Some (f, t)" for f t
    unfolding w PDict replacement_pair_Some
    using freeze_scalars(9) [OF dict_get_frozen [OF rel]] by (simp add: keys)
  then show ?thesis by (metis not_None_eq surj_pair)
qed (use assms in \<open>auto simp: ebind_eq_Inr\<close>)


lemma check_copy_field_frozen:
  assumes "reads_frozen host" and "freeze_value v = Inr w"
  shows "check_copy_field host (k, w) = check_copy_field host (k, v)"
proof -
  have "all_items (\<lambda>x. fragment_of host x \<noteq> None) w = all_items (\<lambda>x. fragment_of host x \<noteq> None) v"
    "all_items (ability_accepted host) w = all_items (ability_accepted host) v"
    using assms(1) by (auto intro!: all_items_frozen [OF assms(2)] simp: reads_frozen_def)
  then show ?thesis
    by (simp add: check_copy_field_def Let_def string_array_frozen [OF assms(2)] freeze_scalars [OF assms(2)])
qed

lemma emap_unit: "(\<exists>us. emap f xs = Inr (us :: unit list)) \<longleftrightarrow> (\<forall>x \<in> set xs. f x = Inr ())"
  by (induction xs) (auto simp: ebind_eq_Inr)

lemma validate_copy_iff:
  "validate_copy_values host (PDict d) = Inr () \<longleftrightarrow>
     d \<noteq> [] \<and> fst ` set d \<subseteq> set COPY_FIELDS \<and> (\<forall>x \<in> set d. check_copy_field host x = Inr ())"
proof -
  have "filter (\<lambda>k. k \<notin> set COPY_FIELDS) (map fst d) = [] \<longleftrightarrow> fst ` set d \<subseteq> set COPY_FIELDS"
    by (auto simp: filter_empty_conv)
  moreover have "validate_copy_values host (PDict d) = Inr () \<longleftrightarrow>
      d \<noteq> [] \<and> filter (\<lambda>k. k \<notin> set COPY_FIELDS) (map fst d) = [] \<and> (\<exists>us. emap (check_copy_field host) d = Inr us)"
    by (auto simp: validate_copy_values_def Let_def ebind_ensure_Inr ebind_eq_Inr)
  ultimately show ?thesis by (simp add: emap_unit)
qed

lemma validate_copy_frozen:
  assumes "reads_frozen host" and "freeze_value v = Inr w" and "validate_copy_values host v = Inr ()"
  shows "validate_copy_values host w = Inr ()"
proof -
  obtain d where v: "v = PDict d" using assms(3) by (cases v) (auto simp: validate_copy_values_def)
  with assms(2) obtain frozen where w: "w = PDict (sort_key fst frozen)"
    and rel: "list_all2 (\<lambda>a b. fst b = fst a \<and> freeze_value (snd a) = Inr (snd b)) d frozen"
    by (auto elim: freeze_PDict simp del: freeze_value.simps)
  have keys: "fst ` set frozen = fst ` set d" using map_of_frozen(2) [OF rel] by (metis list.set_map)
  have "check_copy_field host b = Inr ()" if "b \<in> set frozen" for b
  proof -
    obtain a where "a \<in> set d" "fst b = fst a" "freeze_value (snd a) = Inr (snd b)"
      using list_all2_member [OF rel \<open>b \<in> set frozen\<close>] by auto
    then show ?thesis
      using check_copy_field_frozen [OF assms(1), of "snd a" "snd b" "fst a"] assms(3)
      by (metis prod.collapse v validate_copy_iff)
  qed
  moreover have "sort_key fst frozen \<noteq> []"
  proof -
    have "length frozen = length d" using rel by (simp add: list_all2_lengthD)
    moreover have "d \<noteq> []" using assms(3) unfolding v validate_copy_iff by blast
    ultimately show ?thesis by (metis length_0_conv length_sort)
  qed
  ultimately show ?thesis using assms(3) keys by (simp add: v w validate_copy_iff)
qed

lemma check_face_down_frozen:
  assumes "list_all2 (\<lambda>a b. fst b = fst a \<and> freeze_value (snd a) = Inr (snd b)) d frozen"
  shows "check_face_down_field (sort_key fst frozen) k = check_face_down_field d k"
proof (cases "map_of d k")
  case None
  then have "map_of frozen k = None" using map_of_frozen(1) [OF assms, of k] by simp
  then show ?thesis using None by (simp add: check_face_down_field_def map_of_sort_fst)
next
  case (Some v)
  then obtain w where w: "map_of frozen k = Some w" and fr: "freeze_value v = Inr w"
    using map_of_frozen(1) [OF assms, of k] by (auto simp: option_rel_Some1)
  then show ?thesis using Some
    by (simp add: check_face_down_field_def map_of_sort_fst string_array_frozen [OF fr] freeze_scalars [OF fr])
qed

lemma validate_face_down_frozen:
  assumes "freeze_value v = Inr w"
  shows "validate_face_down w = validate_face_down v"
proof (cases v)
  case (PDict d)
  with assms obtain frozen where w: "w = PDict (sort_key fst frozen)"
    and rel: "list_all2 (\<lambda>a b. fst b = fst a \<and> freeze_value (snd a) = Inr (snd b)) d frozen"
    by (auto elim: freeze_PDict simp del: freeze_value.simps)
  have keys: "fst ` set frozen = fst ` set d" using map_of_frozen(2) [OF rel] by (metis list.set_map)
  have "check_face_down_field (sort_key fst frozen) = check_face_down_field d"
    by (rule ext) (rule check_face_down_frozen [OF rel])
  then show ?thesis by (simp add: w PDict validate_face_down_def keys)
qed (use assms in \<open>auto simp: ebind_eq_Inr validate_face_down_def elim: freeze_PList\<close>)

lemma validate_frozen:
  assumes "reads_frozen host" and fr: "freeze_value v = Inr w"
    and "validate_operation_value host name v field = Inr ()"
  shows "validate_operation_value host name w field = Inr ()"
proof (cases "name = ''copy_values''")
  case True
  with assms validate_copy_frozen [OF assms(1) fr] show ?thesis
    by (simp add: validate_operation_value_def ebind_ensure_Inr)
next
  case False
  have "fragment_of host w = fragment_of host v" using assms(1) fr by (simp add: reads_frozen_def)
  then have "validate_operation_value host name w field = validate_operation_value host name v field"
    using False freeze_scalars(1,5,6) [OF fr]
    by (simp add: validate_operation_value_def Let_def validate_face_down_frozen [OF fr]
        replacement_pair_frozen [OF fr] integer_pair_frozen [OF fr] nonempty_words_frozen [OF fr])
  with assms(3) show ?thesis by simp
qed

section \<open>Reading back what was written\<close>

definition operation_ok :: "('f, 'a) ability_host \<Rightarrow> operation \<Rightarrow> bool" where
  "operation_ok host x \<longleftrightarrow> operation_from_dict host (operation_to_dict x) = Inr x"

lemma operation_init_ok:
  assumes host: "reads_frozen host" and "operation_init host name v raw = Inr x"
  shows "operation_ok host x"
proof -
  from assms(2) obtain field where name: "name \<noteq> []" "map_of OPERATION_LAYERS name \<noteq> None"
    and field: "nullable nonempty_str raw = Some field"
    and valid: "validate_operation_value host name v field = Inr ()"
    and frozen: "freeze_value v = Inr (op_value x)"
    and x: "op_name x = name" "op_field x = field"
    by (auto simp: operation_init_def ebind_ensure_Inr ebind_eq_Inr option_raise_eq_Inr)
  from validate_frozen [OF host frozen valid] freeze_fixed(1) [OF frozen] name x nullable_nonempty [OF field]
  show ?thesis
    by (cases x) (auto simp: operation_ok_def operation_to_dict_def operation_init_def dict_get_def)
qed

lemma operation_from_dict_ok:
  "reads_frozen host \<Longrightarrow> operation_from_dict host v = Inr x \<Longrightarrow> operation_ok host x"
  by (cases v) (auto simp: ebind_ensure_Inr split: pyval.splits dest: operation_init_ok)

definition identity_ok :: "object_identity \<Rightarrow> bool" where
  "identity_ok x \<longleftrightarrow> identity_object x \<noteq> [] \<and> identity_logical x \<noteq> []"

lemma identity_roundtrip: "identity_ok x \<Longrightarrow> identity_from_dict (identity_to_dict x) = Inr x"
  by (cases x) (auto simp: identity_ok_def identity_to_dict_def identity_init_def dict_get_def)

lemma identity_from_dict_ok:
  assumes "identity_from_dict v = Inr x"
  shows "identity_ok x"
proof -
  from assms obtain d where v: "v = PDict d" by (cases v) auto
  from assms have "(case (dict_get PNone d ''object_id'', dict_get PNone d ''logical_object_id'') of
       (PStr i, PStr l) \<Rightarrow> identity_init i l | _ \<Rightarrow> Inl IdentityNotText) = Inr x"
    unfolding v identity_from_dict.simps ebind_ensure_Inr by blast
  then show ?thesis
    by (cases "dict_get PNone d ''object_id''"; cases "dict_get PNone d ''logical_object_id''")
      (auto simp: identity_init_def ebind_ensure_Inr identity_ok_def)
qed

lemma effect_init_again:
  assumes "effect_init e = Inr b"
  shows "effect_init b = Inr b" and "b = e\<lparr>locked_objects := sort_key identity_key (locked_objects e)\<rparr>"
proof -
  show b: "b = e\<lparr>locked_objects := sort_key identity_key (locked_objects e)\<rparr>"
    using assms by (auto simp: effect_init_def ebind_ensure_Inr ebind_eq_Inr Let_def)
  have "sort_key identity_key (sort_key identity_key (locked_objects e)) = sort_key identity_key (locked_objects e)"
    by (simp add: sort_key_id_if_sorted)
  with assms show "effect_init b = Inr b"
    by (auto simp: b effect_init_def ebind_ensure_Inr ebind_eq_Inr Let_def)
qed

text \<open>An effect as the constructor leaves it.\<close>

definition effect_ok :: "('f, 'a) ability_host \<Rightarrow> continuous_effect \<Rightarrow> bool" where
  "effect_ok host e \<longleftrightarrow>
     effect_init e = Inr e \<and> (\<forall>x \<in> set (operations e). operation_ok host x)
     \<and> (\<forall>x \<in> set (locked_objects e). identity_ok x)
     \<and> (case related_object e of None \<Rightarrow> True | Some x \<Rightarrow> identity_ok x)
     \<and> query_ok (applies_to e)"

lemma members_found:
  "member_of layer_number LAYERS (layer_number l) = Inr l"
  "member_of origin_text ORIGINS (origin_text og) = Inr og"
  "member_of duration_text DURATIONS (duration_text du) = Inr du"
  "member_of relation_text RELATIONS (relation_text r) = Inr r"
  by (cases l; cases og; cases du; cases r;
      simp add: member_of_def LAYERS_def ORIGINS_def DURATIONS_def RELATIONS_def)+

lemma effect_related: "effect_init e = Inr e \<Longrightarrow> effect_relation e = Unrelated \<longleftrightarrow> related_object e = None"
  by (auto simp: effect_init_def validate_identity_scope_def ebind_ensure_Inr ebind_eq_Inr Let_def split: if_splits)

lemma effect_depends: "effect_init e = Inr e \<Longrightarrow> \<forall>d \<in> set (depends_on e). d \<noteq> []"
  by (auto simp: effect_init_def ebind_ensure_Inr)

lemma effect_reads_back:
  assumes "effect_ok host e"
  shows "effect_from_dict host (PDict (effect_to_dict e)) = Inr e"
proof -
  let ?d = "effect_to_dict e"
  have init: "effect_init e = Inr e" using assms by (simp add: effect_ok_def)
  note rel = effect_related [OF init]
  have ops: "emap (operation_from_dict host) (map operation_to_dict (operations e)) = Inr (operations e)"
    using assms by (intro emap_inverse) (simp add: effect_ok_def operation_ok_def)
  have locked: "emap identity_from_dict (map identity_to_dict (locked_objects e)) = Inr (locked_objects e)"
    using assms by (intro emap_inverse) (simp add: effect_ok_def identity_roundtrip)
  have names: "emap (\<lambda>v. option_raise DependencyNotText (nonempty_str v)) (map PStr (depends_on e)) = Inr (depends_on e)"
    by (rule emap_names [OF effect_depends [OF init]])
  have query: "query_from_dict (PDict (query_to_dict (applies_to e))) = Inr (applies_to e)"
    using assms by (intro query_reads_back) (simp add: effect_ok_def)
  have relation: "read_relation ?d = Inr (effect_relation e)"
    by (simp add: read_relation_def effect_to_dict_def read_text_def members_found)
  have related: "read_related ?d = Inr (related_object e)"
    using assms rel by (cases "related_object e")
      (simp_all add: read_related_def effect_to_dict_def opt_value_def effect_ok_def identity_roundtrip)
  have keys: "map fst ?d = (if effect_relation e = Unrelated then EFFECT_FIELDS else RELATION_FIELDS)"
    by (simp add: effect_to_dict_def EFFECT_FIELDS_def RELATION_FIELDS_def)
  have fields: "set (map fst ?d) \<in> {set EFFECT_FIELDS, set RELATION_FIELDS}"
    unfolding keys by simp
  have gets: "dict_get PNone ?d ''operations'' = PList (map operation_to_dict (operations e))"
    "dict_get PNone ?d ''locked_objects'' = PList (map identity_to_dict (locked_objects e))"
    "dict_get PNone ?d ''depends_on'' = PList (map PStr (depends_on e))"
    "dict_get PNone ?d ''characteristic_defining'' = PBool (characteristic_defining e)"
    "dict_get PNone ?d ''effect_id'' = PStr (effect_id e)"
    "dict_get PNone ?d ''source_id'' = PStr (effect_source e)"
    "dict_get PNone ?d ''sublayer'' = PStr (sublayer e)"
    "dict_get PNone ?d ''layer'' = PInt (layer_number (effect_layer e))"
    "dict_get PNone ?d ''timestamp'' = PInt (effect_timestamp e)"
    "dict_get PNone ?d ''origin'' = PStr (origin_text (effect_origin e))"
    "dict_get PNone ?d ''duration'' = PStr (duration_text (effect_duration e))"
    "dict_get PNone ?d ''source_present'' = PBool (source_present e)"
    "dict_get PNone ?d ''applies'' = PDict (query_to_dict (applies_to e))"
    by (simp_all add: effect_to_dict_def dict_get_def words_def)
  have "effect_init
        \<lparr>effect_id = effect_id e, effect_source = effect_source e, effect_layer = effect_layer e,
         sublayer = sublayer e, effect_timestamp = effect_timestamp e, operations = operations e,
         depends_on = depends_on e, characteristic_defining = characteristic_defining e,
         effect_origin = effect_origin e, effect_duration = effect_duration e,
         source_present = source_present e, applies_to = applies_to e,
         locked_objects = locked_objects e, effect_relation = effect_relation e,
         related_object = related_object e\<rparr> = Inr e"
    using init by (cases e) simp
  moreover have "ensure (set (map fst ?d) \<in> {set EFFECT_FIELDS, set RELATION_FIELDS}) EffectFields = Inr ()"
    unfolding ensure_eq_Inr by (rule fields)
  ultimately show ?thesis
    unfolding effect_from_dict.simps Let_def
    by (simp only: gets ops locked names query relation related read_array_def read_text_def
        pyval.case typed_bool.simps exact_int.simps option_raise_simps reraise_simps ebind_simps members_found)
qed

lemma effect_from_dict_ok:
  assumes "reads_frozen host" and "effect_from_dict host v = Inr e"
  shows "effect_ok host e"
proof -
  from assms(2) obtain d where v: "v = PDict d" by (cases v) auto
  obtain raw where init: "effect_init raw = Inr e"
    and ops: "\<exists>rs. emap (operation_from_dict host) rs = Inr (operations raw)"
    and query: "\<exists>q. query_from_dict q = Inr (applies_to raw)"
    and locked: "\<exists>rs. emap identity_from_dict rs = Inr (locked_objects raw)"
    and related: "read_related d = Inr (related_object raw)"
    using assms(2) unfolding v effect_from_dict.simps Let_def
    by (elim ebind_InrE) (rule that, assumption, auto)
  have e: "e = raw\<lparr>locked_objects := sort_key identity_key (locked_objects raw)\<rparr>"
    by (rule effect_init_again(2) [OF init])
  have "\<forall>x \<in> set (operations raw). operation_ok host x"
    using ops operation_from_dict_ok [OF assms(1)] by (auto simp: emap_Inr_iff dest: list_all2_member)
  moreover have "\<forall>x \<in> set (locked_objects raw). identity_ok x"
    using locked identity_from_dict_ok by (auto simp: emap_Inr_iff dest: list_all2_member)
  moreover have "case related_object raw of None \<Rightarrow> True | Some x \<Rightarrow> identity_ok x"
    using related by (auto simp: read_related_def ebind_eq_Inr dest: identity_from_dict_ok split: option.splits)
  ultimately show ?thesis
    using effect_init_again(1) [OF init] query by (auto simp: effect_ok_def e query_from_dict_ok)
qed

section \<open>Properties\<close>

text \<open>
  C39. An effect that was accepted reads back from its own dictionary as the same effect: freezing the values of
  its operations changes nothing that any check looks at, and its applicability, identities and relation are
  restored as they were.  The host is assumed to read a fragment or ability the same when it is frozen,
  as the reader of fragments does by thawing its argument first.
\<close>

theorem effect_roundtrip:
  assumes "reads_frozen host" and "effect_from_dict host v = Inr e"
  shows "effect_from_dict host (PDict (effect_to_dict e)) = Inr e"
  by (rule effect_reads_back [OF effect_from_dict_ok [OF assms]])

definition mapping_host :: "(unit, unit) ability_host" where
  "mapping_host =
     \<lparr>fragment_of = (\<lambda>v. if is_mapping v then Some () else None), fragment_row = (\<lambda>_. PDict []),
      fragment_json = (\<lambda>_. ''{}''), ability_accepted = is_mapping,
      ability_of = (\<lambda>v. if is_mapping v then Some () else None), ability_row = (\<lambda>_. PDict [])\<rparr>"

lemma mapping_host_reads: "reads_frozen mapping_host"
  by (auto simp: reads_frozen_def mapping_host_def freeze_scalars)

definition sample_effect :: pyval where
  "sample_effect =
     PDict [(''effect_id'', PStr ''anthem''), (''source_id'', PStr ''s1''), (''layer'', PInt 7),
            (''sublayer'', PStr ''7c''), (''timestamp'', PInt 4),
            (''operations'', PList [PDict [(''value'', PList [PInt 1, PInt 1]),
                (''op'', PStr ''modify_power_toughness''), (''field'', PNone)]]),
            (''depends_on'', PList []), (''characteristic_defining'', PBool False),
            (''origin'', PStr ''static_ability''), (''duration'', PStr ''while_source_present''),
            (''source_present'', PBool True), (''applies'', sample_query), (''locked_objects'', PList [])]"

lemma sample_effect_read: "\<not> isl (effect_from_dict mapping_host sample_effect)"
  by code_simp

theorem effect_roundtrip_witness:
  "\<exists>e. effect_from_dict mapping_host sample_effect = Inr e
    \<and> effect_from_dict mapping_host (PDict (effect_to_dict e)) = Inr e"
proof -
  obtain e where e: "effect_from_dict mapping_host sample_effect = Inr e"
    using sample_effect_read by (cases "effect_from_dict mapping_host sample_effect") simp_all
  from effect_roundtrip [OF mapping_host_reads e] e show ?thesis by blast
qed

end
