(* ===== verification/Continuous_Effects.thy ===== *)
theory Continuous_Effects imports Continuous_Model
begin

text \<open>
  The layer system (\<open>quorune/continuous_effects.py\<close>, CR 613): ordering continuous effects by layer,
  sublayer, dependency and timestamp, and applying their operations to the characteristics of one
  object.  The context of an evaluation is the record \<open>eval_context\<close>; an absent entry of the source's
  mapping is \<open>None\<close> or the default of its field.  A set of words is the sorted list of its members.
\<close>

section \<open>Characteristics\<close>

record ('f, 'a) characteristics =
  ch_name :: string
  ch_controller :: "string option"
  ch_mana_cost :: string
  ch_mana_value :: pyval
  ch_text :: string
  ch_executable_text :: string
  ch_supertypes :: "string list"
  ch_card_types :: "string list"
  ch_subtypes :: "string list"
  ch_colors :: "string list"
  ch_abilities :: "string list"
  ch_fragments :: "'f list"
  ch_activated :: "'a list"
  ch_power :: "int option"
  ch_toughness :: "int option"
  ch_loyalty :: "int option"
  ch_defense :: "int option"
  ch_copiable :: "(string, pyval) dict"

definition canonical_fragments :: "('f, 'a) ability_host \<Rightarrow> 'f list \<Rightarrow> 'f list" where
  "canonical_fragments host fs = sort_key (fragment_json host) fs"

definition snapshot :: "('f, 'a) ability_host \<Rightarrow> ('f, 'a) characteristics \<Rightarrow> (string, pyval) dict" where
  "snapshot host c =
     [(''name'', PStr (ch_name c)), (''controller'', opt_value PStr (ch_controller c)),
      (''mana_cost'', PStr (ch_mana_cost c)), (''mana_value'', ch_mana_value c),
      (''text'', PStr (ch_text c)), (''executable_text'', PStr (ch_executable_text c)),
      (''supertypes'', words (ch_supertypes c)), (''card_types'', words (ch_card_types c)),
      (''subtypes'', words (ch_subtypes c)), (''colors'', words (ch_colors c)),
      (''abilities'', words (ch_abilities c)),
      (''ability_fragments'', PList (map (fragment_row host) (canonical_fragments host (ch_fragments c)))),
      (''activated_abilities'', PList (map (ability_row host) (ch_activated c))),
      (''power'', opt_value PInt (ch_power c)), (''toughness'', opt_value PInt (ch_toughness c)),
      (''loyalty'', opt_value PInt (ch_loyalty c)), (''defense'', opt_value PInt (ch_defense c)),
      (''copiable_values'', PDict (ch_copiable c))]"

record continuous_evaluation =
  evaluated_characteristics :: "(string, pyval) dict"
  applied_effects :: "string list"
  dependency_cycles :: "string list list"
  inapplicable_effects :: "string list"

section \<open>Ordering\<close>

definition effect_key :: "continuous_effect \<Rightarrow> bool \<times> int \<times> string" where
  "effect_key e = (\<not> characteristic_defining e, effect_timestamp e, effect_id e)"

definition waits_for :: "continuous_effect list \<Rightarrow> continuous_effect \<Rightarrow> bool" where
  "waits_for remaining e \<longleftrightarrow> (\<exists>d \<in> set (depends_on e). d \<in> effect_id ` set remaining)"

function dependency_rounds ::
  "continuous_effect list \<Rightarrow> continuous_effect list \<times> string list list" where
  "dependency_rounds remaining =
     (if remaining = [] then ([], [])
      else
        let ready = filter (\<lambda>e. \<not> waits_for remaining e) remaining in
        if ready \<noteq> [] then
          (case dependency_rounds (filter (waits_for remaining) remaining) of
             (ordered, cycles) \<Rightarrow> (sort_key effect_key ready @ ordered, cycles))
        else
          let cycle = sort_key effect_key remaining in (cycle, [map effect_id cycle]))"
  by pat_completeness auto

termination
proof (relation "measure length")
  fix remaining ready
  assume "remaining \<noteq> []" and r: "ready = filter (\<lambda>e. \<not> waits_for remaining e) remaining" and ne: "ready \<noteq> []"
  have "length (filter (waits_for remaining) remaining) + length ready = length remaining"
    using sum_length_filter_compl [of "waits_for remaining" remaining] by (simp add: r)
  moreover have "0 < length ready" using ne by (rule length_greater_0_conv [THEN iffD2])
  ultimately have "length (filter (waits_for remaining) remaining) < length remaining" by linarith
  then show "(filter (waits_for remaining) remaining, remaining) \<in> measure length" by simp
qed simp

declare dependency_rounds.simps [simp del]

definition dependency_order :: "continuous_effect list \<Rightarrow> continuous_effect list \<times> string list list" where
  "dependency_order es = dependency_rounds (map snd (dict_by effect_id es))"

definition SUBLAYER_ORDER :: "(layer \<times> string, int) dict" where
  "SUBLAYER_ORDER =
     [((CopyLayer, ''1a''), 0), ((CopyLayer, ''1b''), 1),
      ((PowerToughnessLayer, ''7a''), 0), ((PowerToughnessLayer, ''7b''), 1),
      ((PowerToughnessLayer, ''7c''), 2), ((PowerToughnessLayer, ''7d''), 3)]"

definition group_key :: "continuous_effect \<Rightarrow> int \<times> int" where
  "group_key e = (layer_number (effect_layer e), dict_get 0 SUBLAYER_ORDER (effect_layer e, sublayer e))"

definition effect_groups :: "continuous_effect list \<Rightarrow> (int \<times> int, continuous_effect list) dict" where
  "effect_groups es =
     foldl (\<lambda>g e. AList.update (group_key e) (dict_get [] g (group_key e) @ [e]) g) [] es"

definition order_continuous_effects ::
  "continuous_effect list \<Rightarrow> effect_error + continuous_effect list \<times> string list list" where
  "order_continuous_effects es =
     ebind (ensure (distinct (map effect_id es)) IdsNotUnique) (\<lambda>_.
     let groups = effect_groups es;
         parts = map (\<lambda>k. dependency_order (dict_get [] groups k)) (sort (map fst groups)) in
     Inr (concat (map fst parts), concat (map snd parts)))"

section \<open>Matching\<close>

record eval_context =
  ctx_object :: "string option"
  ctx_logical :: "string option"
  ctx_ref :: "string option"
  ctx_owner :: "string option"
  ctx_controller :: "string option"
  ctx_zone :: "string option"
  ctx_token :: bool
  ctx_tapped :: bool
  ctx_phased_out :: bool
  ctx_known :: bool

text \<open>\<open>x or y\<close> of an optional text.\<close>

definition or_text :: "string option \<Rightarrow> string \<Rightarrow> string" where
  "or_text x y = (case x of None \<Rightarrow> y | Some s \<Rightarrow> if s = [] then y else s)"

definition state_row :: "('f, 'a) characteristics \<Rightarrow> eval_context \<Rightarrow> query_result" where
  "state_row c x =
     \<lparr>r_object = or_text (ctx_object x) ''unrepresented'', r_ref = or_text (ctx_ref x) ''unrepresented'',
      r_name = ch_name c, r_owner = or_text (ctx_owner x) (or_text (ch_controller c) ''unrepresented''),
      r_controller = or_text (ch_controller c) (or_text (ctx_controller x) []),
      r_zone = or_text (ctx_zone x) ''battlefield'',
      r_types = sort (map casefold (ch_card_types c)), r_subtypes = sort (map casefold (ch_subtypes c)),
      r_supertypes = sort (map casefold (ch_supertypes c)), r_colors = sort (map upper (ch_colors c)),
      r_keywords = sort (map casefold (ch_abilities c)), r_counters = [],
      r_mana_value = whole_number (ch_mana_value c), r_power = None, r_toughness = None,
      r_token = ctx_token x, r_tapped = ctx_tapped x, r_phased_out = ctx_phased_out x,
      r_known = ctx_known x, r_attached = None, r_logical = [], r_monstrous = None,
      r_renowned = False, r_entered = False\<rparr>"

definition matches :: "query_spec \<Rightarrow> ('f, 'a) characteristics \<Rightarrow> eval_context \<Rightarrow> query_error + bool" where
  "matches q c x = object_matches_query (state_row c x) q"

section \<open>Text\<close>

text \<open>\<open>s.replace(old, new)\<close>: non-overlapping occurrences from the left; an empty \<open>old\<close> occurs everywhere.\<close>

function replace_text :: "string \<Rightarrow> string \<Rightarrow> string \<Rightarrow> string" where
  "replace_text old new s =
     (if old = [] then new @ concat (map (\<lambda>c. c # new) s)
      else case s of
          [] \<Rightarrow> []
        | c # cs \<Rightarrow>
            if take (length old) s = old then new @ replace_text old new (drop (length old) s)
            else c # replace_text old new cs)"
  by pat_completeness auto
termination
  by (relation "measure (\<lambda>(old, new, s). length s)") auto

declare replace_text.simps [simp del]

definition is_line_end :: "char \<Rightarrow> bool" where
  "is_line_end c \<longleftrightarrow> (of_char c :: nat) \<in> {10, 11, 12, 13, 28, 29, 30}"

text \<open>\<open>s.splitlines()\<close> on ASCII text; a carriage return and a line feed end one line.\<close>

fun split_lines :: "string \<Rightarrow> string \<Rightarrow> string list" where
  "split_lines cur [] = (if cur = [] then [] else [rev cur])"
| "split_lines cur [c] = (if is_line_end c then [rev cur] else [rev (c # cur)])"
| "split_lines cur (c # d # cs) =
     (if (of_char c :: nat) = 13 \<and> (of_char d :: nat) = 10 then rev cur # split_lines [] cs
      else if is_line_end c then rev cur # split_lines [] (d # cs)
      else split_lines (c # cur) (d # cs))"

fun join_lines :: "string list \<Rightarrow> string" where
  "join_lines [] = []"
| "join_lines [s] = s"
| "join_lines (s # t # ss) = s @ [CHR 0x0A] @ join_lines (t # ss)"

section \<open>Operations\<close>

text \<open>\<open>_as_words\<close>: the words of a text or an array, as a set.\<close>

fun as_words :: "pyval \<Rightarrow> string list" where
  "as_words PNone = []"
| "as_words (PStr s) = [s]"
| "as_words (PList vs) = sorted_unique (List.map_filter (\<lambda>v. case v of PStr s \<Rightarrow> Some s | _ \<Rightarrow> None) vs)"
| "as_words _ = []"

text \<open>Reading values that the construction of the operation has checked.\<close>

fun text_value :: "pyval \<Rightarrow> string" where
  "text_value (PStr s) = s"
| "text_value _ = []"

fun list_value :: "pyval \<Rightarrow> pyval list" where
  "list_value (PList vs) = vs"
| "list_value _ = []"

definition read_fragments :: "('f, 'a) ability_host \<Rightarrow> pyval \<Rightarrow> effect_error + 'f list" where
  "read_fragments host v =
     ebind (emap (\<lambda>x. option_raise (BadFragment ''copy_values'') (fragment_of host x)) (list_value v)) (\<lambda>fs.
     Inr (canonical_fragments host fs))"

definition read_abilities :: "('f, 'a) ability_host \<Rightarrow> pyval \<Rightarrow> effect_error + 'a list" where
  "read_abilities host v =
     (case v of
        PList vs \<Rightarrow> emap (\<lambda>x. option_raise (CopyField ''activated_abilities'') (ability_of host x)) vs
      | _ \<Rightarrow> Inl (CopyField ''activated_abilities''))"

definition copy_value ::
  "('f, 'a) ability_host \<Rightarrow> bool \<Rightarrow> ('f, 'a) characteristics \<Rightarrow> string \<times> pyval
     \<Rightarrow> effect_error + ('f, 'a) characteristics" where
  "copy_value host explicit c kv =
     (let k = fst kv; v = snd kv in
      if k = ''text'' then
        Inr (c\<lparr>ch_text := text_value v,
               ch_executable_text := (if explicit then ch_executable_text c else text_value v)\<rparr>)
      else if k = ''supertypes'' then Inr (c\<lparr>ch_supertypes := as_words v\<rparr>)
      else if k = ''card_types'' then Inr (c\<lparr>ch_card_types := as_words v\<rparr>)
      else if k = ''subtypes'' then Inr (c\<lparr>ch_subtypes := as_words v\<rparr>)
      else if k = ''colors'' then Inr (c\<lparr>ch_colors := as_words v\<rparr>)
      else if k = ''abilities'' then Inr (c\<lparr>ch_abilities := map text_value (list_value v)\<rparr>)
      else if k = ''ability_fragments'' then
        ebind (read_fragments host v) (\<lambda>fs. Inr (c\<lparr>ch_fragments := fs\<rparr>))
      else if k = ''activated_abilities'' then
        ebind (read_abilities host v) (\<lambda>as. Inr (c\<lparr>ch_activated := as\<rparr>))
      else if k = ''name'' then Inr (c\<lparr>ch_name := text_value v\<rparr>)
      else if k = ''controller'' then Inr (c\<lparr>ch_controller := Some (text_value v)\<rparr>)
      else if k = ''mana_cost'' then Inr (c\<lparr>ch_mana_cost := text_value v\<rparr>)
      else if k = ''mana_value'' then Inr (c\<lparr>ch_mana_value := v\<rparr>)
      else if k = ''executable_text'' then Inr (c\<lparr>ch_executable_text := text_value v\<rparr>)
      else if k = ''power'' then Inr (c\<lparr>ch_power := exact_int v\<rparr>)
      else if k = ''toughness'' then Inr (c\<lparr>ch_toughness := exact_int v\<rparr>)
      else if k = ''loyalty'' then Inr (c\<lparr>ch_loyalty := exact_int v\<rparr>)
      else if k = ''defense'' then Inr (c\<lparr>ch_defense := exact_int v\<rparr>)
      else if k = ''copiable_values'' then
        Inr (c\<lparr>ch_copiable := (case v of PDict d \<Rightarrow> d | _ \<Rightarrow> [])\<rparr>)
      else Inl (UnknownCopiable k))"

definition apply_copy_values ::
  "('f, 'a) ability_host \<Rightarrow> pyval \<Rightarrow> ('f, 'a) characteristics \<Rightarrow> effect_error + ('f, 'a) characteristics" where
  "apply_copy_values host v c =
     (case v of
        PDict d \<Rightarrow> efold (copy_value host (''executable_text'' \<in> set (map fst d))) c d
      | _ \<Rightarrow> Inl CopyNotObject)"

fun number_value :: "pyval \<Rightarrow> pyval" where
  "number_value (PInt n) = PFloat n 0"
| "number_value (PFloat m e) = PFloat m e"
| "number_value _ = PFloat 0 0"

definition apply_face_down :: "pyval \<Rightarrow> ('f, 'a) characteristics \<Rightarrow> ('f, 'a) characteristics" where
  "apply_face_down v c =
     (let d = (case v of PDict d \<Rightarrow> d | _ \<Rightarrow> []); get = dict_get PNone d in
      c\<lparr>ch_name := text_value (get ''name''), ch_mana_cost := text_value (get ''mana_cost''),
        ch_mana_value := number_value (get ''mana_value''), ch_text := text_value (get ''text''),
        ch_executable_text := text_value (get ''text''), ch_supertypes := as_words (get ''supertypes''),
        ch_card_types := as_words (dict_get (PList [PStr ''Creature'']) d ''card_types''),
        ch_subtypes := as_words (get ''subtypes''), ch_colors := as_words (get ''colors''),
        ch_abilities := map text_value (list_value (get ''abilities'')), ch_fragments := [],
        ch_activated := [], ch_power := exact_int (dict_get (PInt 2) d ''power''),
        ch_toughness := exact_int (dict_get (PInt 2) d ''toughness'')\<rparr>)"

definition add_rules_text :: "string \<Rightarrow> string \<Rightarrow> string" where
  "add_rules_text line t =
     (if line \<in> set (map py_strip (split_lines [] t)) then t
      else join_lines (filter (\<lambda>s. s \<noteq> []) [py_strip t, line]))"

definition apply_ability_operation ::
  "('f, 'a) ability_host \<Rightarrow> operation \<Rightarrow> ('f, 'a) characteristics
     \<Rightarrow> effect_error + ('f, 'a) characteristics option" where
  "apply_ability_operation host x c =
     (let v = op_value x; n = op_name x in
      if n = ''add_ability'' then
        Inr (Some (if casefold (text_value v) \<in> casefold ` set (ch_abilities c) then c
                   else c\<lparr>ch_abilities := ch_abilities c @ [text_value v]\<rparr>))
      else if n = ''remove_ability'' then
        Inr (Some (c\<lparr>ch_abilities := filter (\<lambda>a. casefold a \<noteq> casefold (text_value v)) (ch_abilities c)\<rparr>))
      else if n = ''add_rules_text'' then
        Inr (Some (c\<lparr>ch_text := add_rules_text (py_strip (text_value v)) (ch_text c)\<rparr>))
      else if n = ''add_ability_fragment'' then
        ebind (option_raise (BadFragment n) (fragment_of host v)) (\<lambda>f.
        Inr (Some (c\<lparr>ch_fragments := canonical_fragments host (ch_fragments c @ [f])\<rparr>)))
      else if n = ''remove_ability_fragment'' then
        ebind (option_raise (BadFragment n) (fragment_of host v)) (\<lambda>f.
        Inr (Some (c\<lparr>ch_fragments := filter (\<lambda>g. g \<noteq> f) (ch_fragments c)\<rparr>)))
      else if n = ''remove_all_abilities'' then
        Inr (Some (c\<lparr>ch_abilities := [], ch_fragments := [], ch_activated := []\<rparr>))
      else Inr None)"

definition type_words :: "string \<Rightarrow> string list \<Rightarrow> string list \<Rightarrow> string list" where
  "type_words n current ws =
     (if n = ''set_types'' then ws
      else if n = ''add_types'' then sorted_unique (current @ ws)
      else filter (\<lambda>w. w \<notin> set ws) current)"

definition apply_type_operation ::
  "operation \<Rightarrow> ('f, 'a) characteristics \<Rightarrow> effect_error + ('f, 'a) characteristics" where
  "apply_type_operation x c =
     (let target = (case op_field x of None \<Rightarrow> ''card_types'' | Some f \<Rightarrow> f);
          ws = as_words (op_value x); n = op_name x in
      if target = ''supertypes'' then Inr (c\<lparr>ch_supertypes := type_words n (ch_supertypes c) ws\<rparr>)
      else if target = ''card_types'' then Inr (c\<lparr>ch_card_types := type_words n (ch_card_types c) ws\<rparr>)
      else if target = ''subtypes'' then Inr (c\<lparr>ch_subtypes := type_words n (ch_subtypes c) ws\<rparr>)
      else Inl BadTypeField)"

definition apply_color_operation :: "operation \<Rightarrow> ('f, 'a) characteristics \<Rightarrow> ('f, 'a) characteristics" where
  "apply_color_operation x c =
     (let ws = sorted_unique (map upper (as_words (op_value x))); n = op_name x in
      if n = ''set_colors'' then c\<lparr>ch_colors := ws\<rparr>
      else if n = ''add_colors'' then c\<lparr>ch_colors := sorted_unique (ch_colors c @ ws)\<rparr>
      else c\<lparr>ch_colors := filter (\<lambda>w. w \<notin> set ws) (ch_colors c)\<rparr>)"

definition apply_operation ::
  "('f, 'a) ability_host \<Rightarrow> operation \<Rightarrow> ('f, 'a) characteristics
     \<Rightarrow> effect_error + ('f, 'a) characteristics" where
  "apply_operation host x c =
     (let n = op_name x; v = op_value x in
      if n = ''copy_values'' then apply_copy_values host v c
      else if n = ''face_down'' then Inr (apply_face_down v c)
      else if n = ''set_controller'' then Inr (c\<lparr>ch_controller := Some (text_value v)\<rparr>)
      else if n = ''replace_text'' then
        (case v of
           PDict d \<Rightarrow>
             let old = text_value (dict_get PNone d ''from''); new = text_value (dict_get PNone d ''to'') in
             Inr (c\<lparr>ch_text := replace_text old new (ch_text c),
                    ch_executable_text := replace_text old new (ch_executable_text c),
                    ch_activated := []\<rparr>)
         | _ \<Rightarrow> Inl ReplaceTextFields)
      else if n \<in> {''set_types'', ''add_types'', ''remove_types''} then apply_type_operation x c
      else if n \<in> {''set_colors'', ''add_colors'', ''remove_colors''} then Inr (apply_color_operation x c)
      else if n = ''remove_all_colors'' then Inr (c\<lparr>ch_colors := []\<rparr>)
      else ebind (apply_ability_operation host x c) (\<lambda>done.
        case done of
          Some c1 \<Rightarrow> Inr c1
        | None \<Rightarrow>
            if n = ''set_power_toughness'' then
              ebind (option_raise (BadPair n) (integer_pair v)) (\<lambda>(a, b).
              Inr (c\<lparr>ch_power := Some a, ch_toughness := Some b\<rparr>))
            else if n = ''modify_power_toughness'' then
              ebind (option_raise (BadPair n) (integer_pair v)) (\<lambda>(a, b).
              Inr (c\<lparr>ch_power := map_option (\<lambda>p. p + a) (ch_power c),
                     ch_toughness := map_option (\<lambda>p. p + b) (ch_toughness c)\<rparr>))
            else if n = ''switch_power_toughness'' then
              Inr (c\<lparr>ch_power := ch_toughness c, ch_toughness := ch_power c\<rparr>)
            else Inl (UnsupportedOperation n)))"

section \<open>Evaluation\<close>

text \<open>The tests of relation and locked objects, before the object's characteristics are looked at.\<close>

definition identity_applies :: "eval_context \<Rightarrow> continuous_effect \<Rightarrow> bool" where
  "identity_applies x e \<longleftrightarrow>
     (let i = or_text (ctx_object x) []; l = or_text (ctx_logical x) [] in
      (effect_relation e = SourceAttachedToObject \<longrightarrow>
         (case related_object e of None \<Rightarrow> False
          | Some r \<Rightarrow> i = identity_object r \<and> l = identity_logical r))
      \<and> (locked_objects e \<noteq> [] \<longrightarrow>
           i \<noteq> [] \<and> l \<noteq> [] \<and> \<lparr>identity_object = i, identity_logical = l\<rparr> \<in> set (locked_objects e)))"

definition effect_applies ::
  "eval_context \<Rightarrow> continuous_effect \<Rightarrow> ('f, 'a) characteristics \<Rightarrow> effect_error + bool" where
  "effect_applies x e c =
     (if \<not> identity_applies x e then Inr False
      else reraise BadApplicability (matches (applies_to e) c x))"

definition apply_effect ::
  "('f, 'a) ability_host \<Rightarrow> continuous_effect \<Rightarrow> ('f, 'a) characteristics
     \<Rightarrow> effect_error + ('f, 'a) characteristics" where
  "apply_effect host e c =
     ebind (efold (\<lambda>c x. apply_operation host x c) c (operations e)) (\<lambda>c1.
     Inr (if effect_layer e = CopyLayer \<and> sublayer e = ''1a''
          then c1\<lparr>ch_copiable := snapshot host c1\<rparr> else c1))"

fun evaluate_ordered ::
  "('f, 'a) ability_host \<Rightarrow> eval_context \<Rightarrow> continuous_effect list \<Rightarrow> ('f, 'a) characteristics
     \<Rightarrow> effect_error + ('f, 'a) characteristics \<times> string list \<times> string list" where
  "evaluate_ordered host x [] c = Inr (c, [], [])"
| "evaluate_ordered host x (e # es) c =
     ebind (effect_applies x e c) (\<lambda>hit.
     if hit then
       ebind (apply_effect host e c) (\<lambda>c1.
       ebind (evaluate_ordered host x es c1) (\<lambda>(c2, applied, inapplicable).
       Inr (c2, effect_id e # applied, inapplicable)))
     else
       ebind (evaluate_ordered host x es c) (\<lambda>(c2, applied, inapplicable).
       Inr (c2, applied, effect_id e # inapplicable)))"

definition source_missing :: "continuous_effect \<Rightarrow> bool" where
  "source_missing e \<longleftrightarrow> effect_duration e = WhileSourcePresent \<and> \<not> source_present e"

definition evaluate_continuous_effects ::
  "('f, 'a) ability_host \<Rightarrow> ('f, 'a) characteristics \<Rightarrow> continuous_effect list \<Rightarrow> eval_context
     \<Rightarrow> effect_error + ('f, 'a) characteristics \<times> continuous_evaluation" where
  "evaluate_continuous_effects host c es x =
     (let present = filter (\<lambda>e. \<not> source_missing e) es;
          absent = map effect_id (filter source_missing es) in
      ebind (order_continuous_effects present) (\<lambda>(ordered, cycles).
      ebind (evaluate_ordered host x ordered c) (\<lambda>(c1, applied, inapplicable).
      Inr (c1, \<lparr>evaluated_characteristics = snapshot host c1, applied_effects = applied,
                dependency_cycles = cycles, inapplicable_effects = absent @ inapplicable\<rparr>))))"

section \<open>The order of effects\<close>

text \<open>Whoever can always walk on in a finite set of places comes to a loop.\<close>

lemma walk_meets_loop:
  assumes "finite X" and "\<forall>x \<in> X. \<exists>y \<in> X. (x, y) \<in> R" and "x \<in> X"
  shows "\<exists>y. (x, y) \<in> R\<^sup>* \<and> (y, y) \<in> R\<^sup>+"
proof (rule ccontr)
  assume none: "\<not> ?thesis"
  define Y where "Y = {y \<in> X. (x, y) \<in> R\<^sup>*}"
  define r where "r = R \<inter> Y \<times> Y"
  have "r\<^sup>+ \<subseteq> Y \<times> Y" by (rule trancl_subset_Sigma) (simp add: r_def)
  moreover have "p \<in> R\<^sup>+" if "p \<in> r\<^sup>+" for p using that by (rule trancl_mono) (simp add: r_def)
  ultimately have "acyclic r" using none by (fastforce simp: acyclic_def Y_def)
  moreover have "finite r" using assms(1) by (simp add: r_def Y_def)
  ultimately have "wf (r\<inverse>)" by (rule finite_acyclic_wf_converse [rotated])
  moreover have "x \<in> Y" using assms(3) by (simp add: Y_def)
  ultimately obtain z where z: "z \<in> Y" and last: "\<And>y. (y, z) \<in> r\<inverse> \<Longrightarrow> y \<notin> Y" by (rule wfE_min) blast
  from z have "z \<in> X" by (simp add: Y_def)
  with assms(2) obtain y where y: "y \<in> X" "(z, y) \<in> R" by blast
  with z have "y \<in> Y" by (auto simp: Y_def intro: rtrancl_into_rtrancl)
  with last z y(2) show False by (auto simp: r_def)
qed

text \<open>
  The waiting relation of a group of effects (one layer and sublayer), and the effects that depend,
  directly or through others, on a loop of it.
\<close>

definition waits_in :: "continuous_effect list \<Rightarrow> (string \<times> string) set" where
  "waits_in es =
     {(effect_id e, effect_id f) | e f. e \<in> set es \<and> f \<in> set es \<and> group_key e = group_key f
        \<and> effect_id f \<in> set (depends_on e)}"

definition caught :: "continuous_effect list \<Rightarrow> continuous_effect \<Rightarrow> bool" where
  "caught es e \<longleftrightarrow> (\<exists>i. (effect_id e, i) \<in> (waits_in es)\<^sup>* \<and> (i, i) \<in> (waits_in es)\<^sup>+)"

lemma caught_steps:
  assumes "caught es e"
  shows "\<exists>X. effect_id e \<in> X \<and> (\<forall>x \<in> X. \<exists>y \<in> X. (x, y) \<in> waits_in es)"
proof (intro exI conjI ballI)
  let ?X = "{x. \<exists>i. (x, i) \<in> (waits_in es)\<^sup>* \<and> (i, i) \<in> (waits_in es)\<^sup>+}"
  show "effect_id e \<in> ?X" using assms by (simp add: caught_def)
  fix x assume "x \<in> ?X"
  then obtain i where i: "(x, i) \<in> (waits_in es)\<^sup>*" "(i, i) \<in> (waits_in es)\<^sup>+" by blast
  then have "(x, i) \<in> (waits_in es)\<^sup>+" by (rule rtrancl_trancl_trancl)
  then obtain y where "(x, y) \<in> waits_in es" "(y, i) \<in> (waits_in es)\<^sup>*" by (metis tranclD)
  with i(2) show "\<exists>y \<in> ?X. (x, y) \<in> waits_in es" by blast
qed

text \<open>
  The effects \<open>S\<close> that never become ready: each waits for another of them, and every set whose
  members all wait for members of it lies among them.
\<close>

definition rounds_left :: "continuous_effect list \<Rightarrow> continuous_effect list \<Rightarrow> bool" where
  "rounds_left es S \<longleftrightarrow> S = filter (\<lambda>e. e \<in> set S) es
     \<and> (\<forall>e \<in> set S. \<exists>f \<in> set S. effect_id f \<in> set (depends_on e))
     \<and> (\<forall>X. (\<forall>x \<in> X. \<exists>y \<in> X. (x, y) \<in> waits_in es) \<longrightarrow> X \<subseteq> effect_id ` set S)"

lemma mset_split: "mset (filter (\<lambda>e. \<not> P e) xs) + mset (filter P xs) = mset xs"
  by (induction xs) auto

lemma rounds_permutation: "dependency_rounds es = (os, cycles) \<Longrightarrow> mset os = mset es"
proof (induction es arbitrary: os cycles rule: dependency_rounds.induct)
  case (1 es)
  let ?ready = "filter (\<lambda>e. \<not> waits_for es e) es"
  show ?case
  proof (cases "es = [] \<or> ?ready = []")
    case True
    then show ?thesis using "1.prems" by (auto simp: dependency_rounds.simps [of es] Let_def split: if_splits)
  next
    case False
    obtain os' where rest: "dependency_rounds (filter (waits_for es) es) = (os', cycles)"
      and os: "os = sort_key effect_key ?ready @ os'"
      using "1.prems" False by (subst (asm) dependency_rounds.simps) (auto simp: Let_def split: prod.splits)
    have "mset os' = mset (filter (waits_for es) es)" using False by (intro "1.IH" [OF _ refl _ rest]) auto
    then show ?thesis using mset_split [of "waits_for es" es] by (simp add: os)
  qed
qed

lemma same_effect:
  "distinct (map effect_id es) \<Longrightarrow> e \<in> set es \<Longrightarrow> f \<in> set es \<Longrightarrow> effect_id e = effect_id f \<Longrightarrow> e = f"
  by (auto simp: distinct_map dest: inj_onD)

lemma rounds_left_step:
  assumes "rounds_left (filter (waits_for es) es) S" and "distinct (map effect_id es)"
    and "\<forall>e \<in> set es. group_key e = k"
  shows "rounds_left es S"
proof -
  let ?ws = "filter (waits_for es) es"
  from assms(1) have members: "set S \<subseteq> set ?ws" unfolding rounds_left_def by (metis filter_is_subset)
  have "S = filter (\<lambda>e. e \<in> set S) ?ws" using assms(1) by (simp add: rounds_left_def)
  also have "\<dots> = filter (\<lambda>e. e \<in> set S) es" using members by (auto intro!: filter_cong)
  finally have S: "S = filter (\<lambda>e. e \<in> set S) es" .
  have "X \<subseteq> effect_id ` set S" if X: "\<forall>x \<in> X. \<exists>y \<in> X. (x, y) \<in> waits_in es" for X
  proof -
    have waits: "e \<in> set ?ws" if "e \<in> set es" "effect_id e \<in> X" for e
    proof -
      from X that(2) obtain y where "(effect_id e, y) \<in> waits_in es" by blast
      then obtain e' f where "e' \<in> set es" "effect_id e' = effect_id e" "f \<in> set es" "effect_id f \<in> set (depends_on e')"
        by (auto simp: waits_in_def)
      moreover from this(1,2) that(1) have "e' = e" by (intro same_effect [OF assms(2)])
      ultimately show ?thesis using that(1) by (auto simp: waits_for_def)
    qed
    have "\<exists>y \<in> X. (x, y) \<in> waits_in ?ws" if "x \<in> X" for x
    proof -
      from X that obtain y where y: "y \<in> X" "(x, y) \<in> waits_in es" by blast
      then obtain e f where "x = effect_id e" "y = effect_id f" "e \<in> set es" "f \<in> set es"
          "group_key e = group_key f" "effect_id f \<in> set (depends_on e)"
        by (auto simp: waits_in_def)
      with waits that y(1) have "(x, y) \<in> waits_in ?ws" unfolding waits_in_def by blast
      with y(1) show ?thesis by blast
    qed
    with assms(1) show ?thesis unfolding rounds_left_def by blast
  qed
  with S assms(1) show ?thesis unfolding rounds_left_def by blast
qed

lemma rounds_sound:
  assumes "dependency_rounds es = (os, cycles)" "distinct (map effect_id es)" "\<forall>e \<in> set es. group_key e = k"
  shows "\<exists>S. rounds_left es S \<and> cycles = (if S = [] then [] else [map effect_id (sort_key effect_key S)])
    \<and> sorted_wrt (\<lambda>a b. a \<notin> set S \<longrightarrow> effect_id b \<notin> set (depends_on a)) os"
  using assms
proof (induction es arbitrary: os cycles rule: dependency_rounds.induct)
  case (1 es)
  let ?ready = "filter (\<lambda>e. \<not> waits_for es e) es"
  show ?case
  proof (cases "es = [] \<or> ?ready = []")
    case True
    then have "\<forall>e \<in> set es. \<exists>f \<in> set es. effect_id f \<in> set (depends_on e)"
      by (auto simp: filter_empty_conv waits_for_def)
    moreover have "X \<subseteq> effect_id ` set es" if "\<forall>x \<in> X. \<exists>y \<in> X. (x, y) \<in> waits_in es" for X
      using that by (auto simp: waits_in_def)
    moreover have "filter (\<lambda>e. e \<in> set es) es = es" by (simp add: filter_id_conv)
    ultimately have left: "rounds_left es es" by (simp add: rounds_left_def)
    have "os = sort_key effect_key es" "cycles = (if es = [] then [] else [map effect_id (sort_key effect_key es)])"
      using "1.prems"(1) True by (auto simp: dependency_rounds.simps [of es] Let_def split: if_splits)
    moreover have "sorted_wrt (\<lambda>a b. a \<notin> set es \<longrightarrow> effect_id b \<notin> set (depends_on a)) (sort_key effect_key es)"
      by (rule sorted_wrt_mono_rel [of _ "\<lambda>_ _. True"]) (simp_all add: sorted_wrt_iff_nth_less)
    ultimately show ?thesis using left by auto
  next
    case False
    let ?ws = "filter (waits_for es) es"
    obtain os' where rest: "dependency_rounds ?ws = (os', cycles)"
      and os: "os = sort_key effect_key ?ready @ os'"
      using "1.prems"(1) False by (subst (asm) dependency_rounds.simps) (auto simp: Let_def split: prod.splits)
    have "\<exists>S. rounds_left ?ws S \<and> cycles = (if S = [] then [] else [map effect_id (sort_key effect_key S)])
      \<and> sorted_wrt (\<lambda>a b. a \<notin> set S \<longrightarrow> effect_id b \<notin> set (depends_on a)) os'"
      using False "1.prems"(2,3) by (intro "1.IH" [OF _ refl _ rest]) (auto simp: distinct_map_filter)
    then obtain S where S: "rounds_left ?ws S" "cycles = (if S = [] then [] else [map effect_id (sort_key effect_key S)])"
        "sorted_wrt (\<lambda>a b. a \<notin> set S \<longrightarrow> effect_id b \<notin> set (depends_on a)) os'" by blast
    from rounds_permutation [OF rest] have "set os' \<subseteq> set es" by (metis filter_is_subset mset_eq_setD)
    moreover have "sorted_wrt (\<lambda>a b. a \<notin> set S \<longrightarrow> effect_id b \<notin> set (depends_on a)) (sort_key effect_key ?ready)"
      by (rule sorted_wrt_mono_rel [of _ "\<lambda>_ _. True"]) (auto simp: waits_for_def sorted_wrt_iff_nth_less)
    ultimately have "sorted_wrt (\<lambda>a b. a \<notin> set S \<longrightarrow> effect_id b \<notin> set (depends_on a)) os"
      using S(3) by (auto simp: os sorted_wrt_append waits_for_def)
    moreover have "rounds_left es S" by (rule rounds_left_step [OF S(1) "1.prems"(2,3)])
    ultimately show ?thesis using S(2) by blast
  qed
qed

lemma rounds_left_caught:
  assumes "rounds_left es S" and "distinct (map effect_id es)" and "\<forall>e \<in> set es. group_key e = k"
  shows "S = filter (caught es) es"
proof -
  have members: "set S \<subseteq> set es" using assms(1) unfolding rounds_left_def by (metis filter_is_subset)
  have "e \<in> set S \<longleftrightarrow> caught es e" if e: "e \<in> set es" for e
  proof
    assume "e \<in> set S"
    moreover have "\<exists>y \<in> effect_id ` set S. (effect_id f, y) \<in> waits_in es" if f: "f \<in> set S" for f
    proof -
      from f assms(1) obtain h where h: "h \<in> set S" "effect_id h \<in> set (depends_on f)"
        unfolding rounds_left_def by blast
      with f members have "f \<in> set es" "h \<in> set es" by blast+
      with h(2) assms(3) have "(effect_id f, effect_id h) \<in> waits_in es" unfolding waits_in_def by force
      with h(1) show ?thesis by blast
    qed
    ultimately have member: "effect_id e \<in> effect_id ` set S"
      and steps: "\<forall>x \<in> effect_id ` set S. \<exists>y \<in> effect_id ` set S. (x, y) \<in> waits_in es" by simp_all
    show "caught es e" unfolding caught_def by (rule walk_meets_loop [OF _ steps member]) simp
  next
    assume "caught es e"
    then obtain X where X: "effect_id e \<in> X" "\<forall>x \<in> X. \<exists>y \<in> X. (x, y) \<in> waits_in es"
      by (blast dest: caught_steps)
    have "X \<subseteq> effect_id ` set S" using assms(1) [unfolded rounds_left_def, THEN conjunct2, THEN conjunct2, rule_format, of X] X(2)
      by simp
    with X(1) have "effect_id e \<in> effect_id ` set S" by blast
    then obtain f where "f \<in> set S" "effect_id e = effect_id f" by blast
    moreover from this members have "e = f" by (intro same_effect [OF assms(2) e]) auto
    ultimately show "e \<in> set S" by simp
  qed
  then have "filter (\<lambda>e. e \<in> set S) es = filter (caught es) es" by (intro filter_cong) auto
  with assms(1) show ?thesis by (simp add: rounds_left_def)
qed

lemma effect_key_inj: "distinct (map effect_id es) \<Longrightarrow> inj_on effect_key (set es)"
  by (auto simp: inj_on_def effect_key_def distinct_map)

lemma rounds_permuted:
  "distinct (map effect_id es) \<Longrightarrow> mset fs = mset es \<Longrightarrow> dependency_rounds fs = dependency_rounds es"
proof (induction es arbitrary: fs rule: dependency_rounds.induct)
  case (1 es)
  have sets: "set fs = set es" using "1.prems"(2) by (rule mset_eq_setD)
  then have waits: "waits_for fs = waits_for es" by (simp add: waits_for_def fun_eq_iff)
  have sorted: "sort_key effect_key (filter P fs) = sort_key effect_key (filter P es)" for P
  proof (rule sort_key_permutation)
    show "mset (filter P fs) = mset (filter P es)" by (simp add: "1.prems"(2))
    show "inj_on effect_key (set (filter P fs))"
      using effect_key_inj [OF "1.prems"(1)] by (rule inj_on_subset) (auto simp: sets)
    have "distinct es" using "1.prems"(1) by (simp add: distinct_map)
    then show "distinct (filter P fs)" using "1.prems"(2) by (metis distinct_filter mset_eq_imp_distinct_iff)
  qed
  have same: "fs = [] \<longleftrightarrow> es = []" using sets by (metis set_empty)
  have ready: "filter (\<lambda>e. \<not> waits_for es e) fs = [] \<longleftrightarrow> filter (\<lambda>e. \<not> waits_for es e) es = []"
    using sets by (simp add: filter_empty_conv)
  note unfold = dependency_rounds.simps [of es] dependency_rounds.simps [of fs]
  show ?case
  proof (cases "es = [] \<or> filter (\<lambda>e. \<not> waits_for es e) es = []")
    case True
    have "sort_key effect_key fs = sort_key effect_key es" using sorted [of "\<lambda>_. True"] by simp
    with True show ?thesis unfolding unfold waits Let_def by (auto simp: same ready)
  next
    case False
    have "mset (filter (waits_for es) fs) = mset (filter (waits_for es) es)" by (simp add: "1.prems"(2))
    moreover have "distinct (map effect_id (filter (waits_for es) es))"
      using "1.prems"(1) by (rule distinct_map_filter)
    ultimately have "dependency_rounds (filter (waits_for es) fs) = dependency_rounds (filter (waits_for es) es)"
      using False "1.IH" [OF _ refl] by blast
    with False show ?thesis unfolding unfold waits Let_def by (simp add: same ready sorted)
  qed
qed

lemma rounds_independent:
  assumes "\<And>e. e \<in> set es \<Longrightarrow> \<not> waits_for es e"
  shows "dependency_rounds es = (sort_key effect_key es, [])"
proof (cases "es = []")
  case False
  have "filter (waits_for es) es = []" "filter (\<lambda>e. \<not> waits_for es e) es = es"
    using assms by (auto simp: filter_empty_conv)
  then show ?thesis using False
    by (subst dependency_rounds.simps) (simp add: dependency_rounds.simps [of "[]"])
qed (simp add: dependency_rounds.simps)

section \<open>Groups\<close>

lemma effect_groups_get: "dict_get [] (effect_groups es) k = filter (\<lambda>e. group_key e = k) es"
  unfolding effect_groups_def by (induction es rule: rev_induct) auto

lemma effect_groups_keys:
  "set (map fst (effect_groups es)) = group_key ` set es" "distinct (map fst (effect_groups es))"
  unfolding effect_groups_def by (induction es rule: rev_induct) (auto simp: distinct_dict_set)

definition group_order :: "continuous_effect list \<Rightarrow> (int \<times> int) list" where
  "group_order es = sort (map fst (effect_groups es))"

definition layer_group :: "int \<times> int \<Rightarrow> continuous_effect list \<Rightarrow> continuous_effect list" where
  "layer_group k es = filter (\<lambda>e. group_key e = k) es"

lemma group_order_facts:
  "sorted (group_order es)" "distinct (group_order es)" "set (group_order es) = group_key ` set es"
  using effect_groups_keys [of es] by (simp_all add: group_order_def)

lemma group_order_permuted: "set fs = set es \<Longrightarrow> group_order fs = group_order es"
  by (intro sorted_distinct_set_unique group_order_facts) (simp add: group_order_facts)

lemma group_ids: "distinct (map effect_id es) \<Longrightarrow> distinct (map effect_id (layer_group k es))"
  by (simp add: layer_group_def distinct_map_filter)

lemma order_rounds:
  "order_continuous_effects es = Inr r \<longleftrightarrow> distinct (map effect_id es)
     \<and> r = (concat (map (\<lambda>k. fst (dependency_rounds (layer_group k es))) (group_order es)),
            concat (map (\<lambda>k. snd (dependency_rounds (layer_group k es))) (group_order es)))"
proof -
  have "dependency_order (dict_get [] (effect_groups es) k) = dependency_rounds (layer_group k es)"
    if "distinct (map effect_id es)" for k
    using dict_by_distinct [OF group_ids [OF that, of k]]
    by (simp add: dependency_order_def effect_groups_get comp_def flip: layer_group_def)
  then show ?thesis
    unfolding order_continuous_effects_def Let_def ebind_ensure_Inr group_order_def map_map comp_def
    by (cases "distinct (map effect_id es)") auto
qed

lemma mset_groups:
  assumes "distinct ks" and "group_key ` set es \<subseteq> set ks"
  shows "mset (concat (map (\<lambda>k. layer_group k es) ks)) = mset es"
  using assms
proof (induction ks arbitrary: es)
  case (Cons k ks)
  have "mset (concat (map (\<lambda>j. layer_group j (filter (\<lambda>e. group_key e \<noteq> k) es)) ks))
      = mset (filter (\<lambda>e. group_key e \<noteq> k) es)"
    by (rule Cons.IH) (use Cons.prems in auto)
  moreover have "map (\<lambda>j. layer_group j (filter (\<lambda>e. group_key e \<noteq> k) es)) ks = map (\<lambda>j. layer_group j es) ks"
    using Cons.prems(1) by (auto simp: layer_group_def intro!: filter_cong)
  ultimately have "mset (concat (map (\<lambda>j. layer_group j es) ks)) = mset (filter (\<lambda>e. group_key e \<noteq> k) es)"
    by (simp only:)
  then show ?case using mset_split [of "\<lambda>e. group_key e \<noteq> k" es] by (simp add: layer_group_def)
qed auto

lemma sorted_concat:
  assumes "sorted ks" and "distinct ks" and "\<And>k. k \<in> set ks \<Longrightarrow> sorted_wrt R (f k)"
    and "\<And>k e. e \<in> set (f k) \<Longrightarrow> group_key e = k"
    and "\<And>a b. group_key a < group_key b \<Longrightarrow> R a b"
  shows "sorted_wrt R (concat (map f ks))"
  using assms(1-3)
proof (induction ks)
  case (Cons k ks)
  have "R a b" if "a \<in> set (f k)" "j \<in> set ks" "b \<in> set (f j)" for a b j
    using that Cons.prems(1,2) assms(4) by (intro assms(5)) (auto simp: less_le)
  with Cons show ?case by (auto simp: sorted_wrt_append)
qed simp

lemma rounds_members:
  assumes "dependency_rounds es = (os, cycles)"
  shows "set os = set es"
  using rounds_permutation [OF assms] by (rule mset_eq_setD)

lemma rounds_parts: "dependency_rounds es = (fst (dependency_rounds es), snd (dependency_rounds es))"
  by simp

lemma rounds_in_group: "e \<in> set (fst (dependency_rounds (layer_group k es))) \<Longrightarrow> group_key e = k"
  using rounds_members [OF rounds_parts, of "layer_group k es"] by (auto simp: layer_group_def)

lemma ordered_permutation:
  assumes "order_continuous_effects es = Inr (os, cycles)"
  shows "mset os = mset es"
proof -
  have "mset (concat (map (\<lambda>k. fst (dependency_rounds (layer_group k es))) ks))
      = mset (concat (map (\<lambda>k. layer_group k es) ks))" for ks
    by (induction ks) (use rounds_permutation [OF rounds_parts] in auto)
  then show ?thesis
    using assms mset_groups [of "group_order es" es] group_order_facts [of es]
    by (simp add: order_rounds)
qed

lemma caught_group:
  assumes "distinct (map effect_id es)" and "e \<in> set (layer_group k es)"
  shows "caught (layer_group k es) e \<longleftrightarrow> caught es e"
proof
  assume "caught (layer_group k es) e"
  moreover have "waits_in (layer_group k es) \<subseteq> waits_in es" by (auto simp: waits_in_def layer_group_def)
  ultimately show "caught es e" unfolding caught_def by (meson rtrancl_mono subsetD trancl_mono)
next
  assume "caught es e"
  then obtain X where X: "effect_id e \<in> X" "\<forall>x \<in> X. \<exists>y \<in> X. (x, y) \<in> waits_in es"
    by (blast dest: caught_steps)
  let ?ids = "effect_id ` set (layer_group k es)"
  have same: "f = h" if "f \<in> set es" "h \<in> set es" "effect_id f = effect_id h" for f h
    using that by (rule same_effect [OF assms(1)])
  have "\<exists>y \<in> X \<inter> ?ids. (x, y) \<in> waits_in (layer_group k es)" if "x \<in> X \<inter> ?ids" for x
  proof -
    from that obtain f where f: "f \<in> set es" "group_key f = k" "effect_id f = x" "x \<in> X" by (auto simp: layer_group_def)
    with X(2) obtain y where y: "y \<in> X" "(x, y) \<in> waits_in es" by blast
    then obtain a b where ab: "x = effect_id a" "y = effect_id b" "a \<in> set es" "b \<in> set es"
        "group_key a = group_key b" "effect_id b \<in> set (depends_on a)" unfolding waits_in_def by blast
    with f same have "a = f" by simp
    with ab f have "b \<in> set (layer_group k es)" "f \<in> set (layer_group k es)" by (simp_all add: layer_group_def)
    with ab f(2) \<open>a = f\<close> have "(x, y) \<in> waits_in (layer_group k es)" unfolding waits_in_def by blast
    with y(1) ab(2) \<open>b \<in> set (layer_group k es)\<close> show ?thesis by blast
  qed
  then show "caught (layer_group k es) e"
    unfolding caught_def using X(1) assms(2) by (intro walk_meets_loop [of "X \<inter> ?ids"]) auto
qed

lemma rounds_of_group:
  assumes "distinct (map effect_id es)"
  shows "sorted_wrt (\<lambda>a b. \<not> caught es a \<longrightarrow> effect_id b \<notin> set (depends_on a)) (fst (dependency_rounds (layer_group k es)))"
    and "snd (dependency_rounds (layer_group k es)) =
      (if filter (caught es) (layer_group k es) = [] then []
       else [map effect_id (sort_key effect_key (filter (caught es) (layer_group k es)))])"
proof -
  note dist = group_ids [OF assms, of k]
  have same: "\<forall>e \<in> set (layer_group k es). group_key e = k" by (simp add: layer_group_def)
  obtain S where S: "rounds_left (layer_group k es) S"
      "snd (dependency_rounds (layer_group k es)) = (if S = [] then [] else [map effect_id (sort_key effect_key S)])"
      "sorted_wrt (\<lambda>a b. a \<notin> set S \<longrightarrow> effect_id b \<notin> set (depends_on a)) (fst (dependency_rounds (layer_group k es)))"
    using rounds_sound [OF rounds_parts dist same] by blast
  have "S = filter (caught (layer_group k es)) (layer_group k es)" by (rule rounds_left_caught [OF S(1) dist same])
  also have "\<dots> = filter (caught es) (layer_group k es)" by (intro filter_cong) (auto simp: caught_group [OF assms])
  finally have caughts: "S = filter (caught es) (layer_group k es)" .
  then show "snd (dependency_rounds (layer_group k es)) =
      (if filter (caught es) (layer_group k es) = [] then []
       else [map effect_id (sort_key effect_key (filter (caught es) (layer_group k es)))])"
    using S(2) by simp
  show "sorted_wrt (\<lambda>a b. \<not> caught es a \<longrightarrow> effect_id b \<notin> set (depends_on a)) (fst (dependency_rounds (layer_group k es)))"
    using S(3) by (rule sorted_wrt_mono_rel [rotated])
      (use rounds_members [OF rounds_parts] in \<open>auto simp: caughts\<close>)
qed

lemma ordered_applied_ids:
  "evaluate_ordered host x es c = Inr (c1, applied, inapplicable) \<Longrightarrow> distinct (map effect_id es) \<Longrightarrow>
   applied = map effect_id (filter (\<lambda>e. effect_id e \<in> set applied) es)
   \<and> efold (\<lambda>c e. apply_effect host e c) c (filter (\<lambda>e. effect_id e \<in> set applied) es) = Inr c1
   \<and> (\<forall>e \<in> set es. effect_id e \<in> set applied \<longrightarrow> identity_applies x e)
   \<and> mset (applied @ inapplicable) = mset (map effect_id es)"
proof (induction es arbitrary: c applied inapplicable)
  case (Cons e es)
  obtain hit where hit: "effect_applies x e c = Inr hit" using Cons.prems(1) by (auto simp: ebind_eq_Inr)
  have fresh: "effect_id f \<noteq> effect_id e" if "f \<in> set es" for f
  proof
    assume "effect_id f = effect_id e"
    with that have "effect_id e \<in> set (map effect_id es)" by (metis image_eqI list.set_map)
    with Cons.prems(2) show False by simp
  qed
  show ?case
  proof (cases hit)
    case True
    obtain c2 as where step: "apply_effect host e c = Inr c2"
      and rest: "evaluate_ordered host x es c2 = Inr (c1, as, inapplicable)" and a: "applied = effect_id e # as"
      using Cons.prems(1) hit True by (auto simp: ebind_eq_Inr)
    have "filter (\<lambda>f. effect_id f = effect_id e \<or> effect_id f \<in> set as) es = filter (\<lambda>f. effect_id f \<in> set as) es"
      using fresh by (intro filter_cong) auto
    moreover have "identity_applies x e"
      using hit True by (auto simp: effect_applies_def split: if_splits)
    ultimately show ?thesis using Cons.IH [OF rest] Cons.prems(2) step fresh
      by (auto simp: a)
  next
    case False
    obtain ns where rest: "evaluate_ordered host x es c = Inr (c1, applied, ns)"
      and i: "inapplicable = effect_id e # ns"
      using Cons.prems(1) hit False by (auto simp: ebind_eq_Inr)
    note ih = Cons.IH [OF rest]
    have "effect_id e \<notin> set applied"
    proof
      assume "effect_id e \<in> set applied"
      moreover have "set applied \<subseteq> effect_id ` set es"
        using ih Cons.prems(2) by (metis (no_types, lifting) distinct.simps(2) filter_is_subset image_mono list.set_map list.simps(9))
      ultimately show False using fresh by force
    qed
    then show ?thesis using ih Cons.prems(2) by (auto simp: i)
  qed
qed simp

section \<open>Properties\<close>

text \<open>
  C12. The order of continuous effects is a permutation of the given effects, by layer and sublayer.  Within
  a sublayer an effect comes after every effect it depends on, unless it depends, directly or through others,
  on a loop of dependencies; the effects that do are exactly the reported ones, one report for a sublayer,
  by characteristic definition, timestamp and identity, and nothing is reported if and only if there is no
  loop.  (A report therefore holds a loop and all effects that hang on it, not loops alone.)
\<close>

theorem effects_ordered:
  assumes "order_continuous_effects es = Inr (os, cycles)"
  shows "mset os = mset es \<and> sorted_wrt (\<lambda>a b. group_key a \<le> group_key b) os
    \<and> sorted_wrt (\<lambda>a b. group_key a = group_key b \<and> \<not> caught es a \<longrightarrow> effect_id b \<notin> set (depends_on a)) os
    \<and> (cycles = [] \<longleftrightarrow> acyclic (waits_in es))
    \<and> (\<forall>e \<in> set es. caught es e \<longleftrightarrow> effect_id e \<in> set (concat cycles))
    \<and> (\<forall>c \<in> set cycles. c \<noteq> [] \<and> (\<exists>k. c =
        map effect_id (sort_key effect_key (filter (\<lambda>e. group_key e = k \<and> caught es e) es))))"
proof (intro conjI)
  let ?part = "\<lambda>k. dependency_rounds (layer_group k es)"
  from assms have dist: "distinct (map effect_id es)"
    and os: "os = concat (map (\<lambda>k. fst (?part k)) (group_order es))"
    and cycles: "cycles = concat (map (\<lambda>k. snd (?part k)) (group_order es))" by (simp_all add: order_rounds)
  note sorted = sorted_concat [OF group_order_facts(1,2) [of es], where f = "\<lambda>k. fst (?part k)", folded os]
  note part = rounds_of_group [OF dist]
  show "mset os = mset es" by (rule ordered_permutation [OF assms])
  show "sorted_wrt (\<lambda>a b. group_key a \<le> group_key b) os"
  proof (rule sorted)
    fix k
    show "sorted_wrt (\<lambda>a b. group_key a \<le> group_key b) (fst (?part k))"
      by (rule sorted_wrt_mono_rel [of _ "\<lambda>_ _. True"])
        (simp_all add: rounds_in_group sorted_wrt_iff_nth_less)
  qed (auto dest: rounds_in_group)
  show "sorted_wrt (\<lambda>a b. group_key a = group_key b \<and> \<not> caught es a \<longrightarrow> effect_id b \<notin> set (depends_on a)) os"
  proof (rule sorted)
    fix k
    show "sorted_wrt (\<lambda>a b. group_key a = group_key b \<and> \<not> caught es a \<longrightarrow> effect_id b \<notin> set (depends_on a)) (fst (?part k))"
      using part(1) by (rule sorted_wrt_mono_rel [rotated]) blast
  qed (auto dest: rounds_in_group)
  have found: "\<exists>S. S \<noteq> [] \<and> S = filter (caught es) (layer_group k es) \<and> c = map effect_id (sort_key effect_key S)"
    if "c \<in> set (snd (?part k))" for c k
    using that by (auto simp: part(2) split: if_splits)
  show reported: "\<forall>e \<in> set es. caught es e \<longleftrightarrow> effect_id e \<in> set (concat cycles)"
  proof (intro ballI iffI)
    fix e assume e: "e \<in> set es" and "caught es e"
    then have "e \<in> set (filter (caught es) (layer_group (group_key e) es))" by (simp add: layer_group_def)
    then have "effect_id e \<in> set (concat (snd (?part (group_key e))))" by (auto simp: part(2) simp del: set_filter)
    then show "effect_id e \<in> set (concat cycles)" using e by (auto simp: cycles group_order_facts)
  next
    fix e assume e: "e \<in> set es" and "effect_id e \<in> set (concat cycles)"
    then obtain c k where "c \<in> set (snd (?part k))" "effect_id e \<in> set c" by (auto simp: cycles)
    with found obtain f where f: "f \<in> set es" "caught es f" "effect_id f = effect_id e"
      by (fastforce simp: layer_group_def)
    with same_effect [OF dist f(1) e] show "caught es e" by simp
  qed
  show "\<forall>c \<in> set cycles. c \<noteq> [] \<and> (\<exists>k. c =
      map effect_id (sort_key effect_key (filter (\<lambda>e. group_key e = k \<and> caught es e) es)))"
  proof
    fix c assume "c \<in> set cycles"
    then obtain k where "c \<in> set (snd (?part k))" by (auto simp: cycles)
    from found [OF this] show "c \<noteq> [] \<and> (\<exists>k. c =
        map effect_id (sort_key effect_key (filter (\<lambda>e. group_key e = k \<and> caught es e) es)))"
      unfolding layer_group_def filter_filter by (elim exE conjE) (intro conjI exI [of _ k], simp_all flip: set_empty)
  qed
  then have "cycles = [] \<longleftrightarrow> concat cycles = []" by (cases cycles) auto
  also have "\<dots> \<longleftrightarrow> acyclic (waits_in es)"
  proof
    assume none: "concat cycles = []"
    have "(i, i) \<notin> (waits_in es)\<^sup>+" for i
    proof
      assume loop: "(i, i) \<in> (waits_in es)\<^sup>+"
      then obtain j where "(i, j) \<in> waits_in es" by (meson tranclD)
      then obtain e where "e \<in> set es" "effect_id e = i" by (auto simp: waits_in_def)
      with loop have "caught es e" by (auto simp: caught_def)
      with reported none \<open>e \<in> set es\<close> show False by auto
    qed
    then show "acyclic (waits_in es)" by (simp add: acyclic_def)
  next
    assume "acyclic (waits_in es)"
    then have free: "\<not> caught es e" for e by (simp add: caught_def acyclic_def)
    have "snd (?part k) = []" for k using free by (simp add: part(2))
    then show "concat cycles = []" by (simp add: cycles)
  qed
  finally show "cycles = [] \<longleftrightarrow> acyclic (waits_in es)" .
qed
text \<open>A modification in layer 7c and the objects it needs, for examples.\<close>

definition pump_effect :: "string \<Rightarrow> int \<Rightarrow> string list \<Rightarrow> continuous_effect" where
  "pump_effect i stamp depends =
     \<lparr>effect_id = i, effect_source = ''s'', effect_layer = PowerToughnessLayer, sublayer = ''7c'',
      effect_timestamp = stamp,
      operations = [\<lparr>op_name = ''modify_power_toughness'', op_value = PList [PInt 1, PInt 2], op_field = None\<rparr>],
      depends_on = depends, characteristic_defining = False, effect_origin = FromStaticAbility,
      effect_duration = WhileSourcePresent, source_present = True, applies_to = any_object,
      locked_objects = [], effect_relation = Unrelated, related_object = None\<rparr>"

lemma waiting_order:
  "order_continuous_effects [pump_effect ''a'' 1 [''b''], pump_effect ''b'' 2 []] =
     Inr ([pump_effect ''b'' 2 [], pump_effect ''a'' 1 [''b'']], [])"
  by code_simp

text \<open>An effect that only waits for a loop is ordered and reported as part of it.\<close>

lemma follower_joins_cycle:
  "order_continuous_effects [pump_effect ''a'' 2 [''b''], pump_effect ''b'' 3 [''a''], pump_effect ''c'' 1 [''a'']] =
     Inr ([pump_effect ''c'' 1 [''a''], pump_effect ''a'' 2 [''b''], pump_effect ''b'' 3 [''a'']],
          [[''c'', ''a'', ''b'']])"
  by code_simp

theorem effects_ordered_witness:
  "sorted_wrt (\<lambda>a b. group_key a = group_key b \<and> \<not> caught [pump_effect ''a'' 1 [''b''], pump_effect ''b'' 2 []] a
       \<longrightarrow> effect_id b \<notin> set (depends_on a)) [pump_effect ''b'' 2 [], pump_effect ''a'' 1 [''b'']]
   \<and> acyclic (waits_in [pump_effect ''a'' 1 [''b''], pump_effect ''b'' 2 []])
   \<and> \<not> acyclic (waits_in [pump_effect ''a'' 2 [''b''], pump_effect ''b'' 3 [''a''], pump_effect ''c'' 1 [''a'']])"
  using effects_ordered [OF waiting_order] effects_ordered [OF follower_joins_cycle] by blast

text \<open>
  Effects that are ready in the same round come before one that they free: \<open>a\<close>, the oldest, waits for
  \<open>b\<close> and comes after the newest effect \<open>c\<close>, which has nothing to do with either.
\<close>

lemma freed_effect_comes_late:
  "order_continuous_effects [pump_effect ''a'' 1 [''b''], pump_effect ''b'' 2 [], pump_effect ''c'' 3 []] =
     Inr ([pump_effect ''b'' 2 [], pump_effect ''c'' 3 [], pump_effect ''a'' 1 [''b'']], [])"
  by code_simp

text \<open>
  C13. The order depends on the effects alone and not on how they are listed, and when no effect depends on
  another it is the order by layer, sublayer, characteristic definition, timestamp and identity.
\<close>

theorem order_canonical:
  assumes "distinct (map effect_id es)" and "mset fs = mset es"
  shows "order_continuous_effects fs = order_continuous_effects es
    \<and> ((\<forall>e \<in> set es. \<forall>d \<in> set (depends_on e). d \<notin> effect_id ` set es) \<longrightarrow>
        order_continuous_effects es = Inr (sort_key (\<lambda>e. (group_key e, effect_key e)) es, []))"
proof (intro conjI impI)
  have dist: "distinct (map effect_id fs)" using assms by (metis mset_eq_imp_distinct_iff mset_map)
  have groups: "dependency_rounds (layer_group k fs) = dependency_rounds (layer_group k es)" for k
    by (rule rounds_permuted [OF group_ids [OF assms(1)]]) (simp add: layer_group_def assms(2))
  have "group_order fs = group_order es" by (rule group_order_permuted [OF mset_eq_setD [OF assms(2)]])
  moreover have "\<exists>r. order_continuous_effects es = Inr r" using assms(1) by (auto simp: order_rounds)
  ultimately show "order_continuous_effects fs = order_continuous_effects es"
  proof -
    assume same: "group_order fs = group_order es" and "\<exists>r. order_continuous_effects es = Inr r"
    then obtain r where r: "order_continuous_effects es = Inr r" by blast
    then have "order_continuous_effects fs = Inr r" using dist unfolding order_rounds by (simp add: same groups)
    with r show ?thesis by simp
  qed
  assume free: "\<forall>e \<in> set es. \<forall>d \<in> set (depends_on e). d \<notin> effect_id ` set es"
  have part: "dependency_rounds (layer_group k es) = (sort_key effect_key (layer_group k es), [])" for k
    using free by (intro rounds_independent) (auto simp: waits_for_def layer_group_def)
  define os where "os = concat (map (\<lambda>k. sort_key effect_key (layer_group k es)) (group_order es))"
  have order: "order_continuous_effects es = Inr (os, [])"
    using assms(1) by (simp add: order_rounds part os_def)
  have "sorted_wrt (\<lambda>a b. (group_key a, effect_key a) \<le> (group_key b, effect_key b)) os"
    unfolding os_def
  proof (rule sorted_concat [OF group_order_facts(1,2)])
    fix k
    have "sorted_wrt (\<lambda>a b. effect_key a \<le> effect_key b) (sort_key effect_key (layer_group k es))"
      using sorted_sort_key [of effect_key "layer_group k es"] unfolding sorted_map .
    then show "sorted_wrt (\<lambda>a b. (group_key a, effect_key a) \<le> (group_key b, effect_key b))
        (sort_key effect_key (layer_group k es))"
      by (rule sorted_wrt_mono_rel [rotated]) (auto simp: layer_group_def less_eq_prod_def)
  qed (auto simp: layer_group_def less_eq_prod_def)
  then have "sort_key (\<lambda>e. (group_key e, effect_key e)) os = os"
    by (intro sort_key_id_if_sorted) (simp only: sorted_map)
  moreover have "sort_key (\<lambda>e. (group_key e, effect_key e)) es = sort_key (\<lambda>e. (group_key e, effect_key e)) os"
  proof (rule sort_key_permutation)
    show "mset es = mset os" by (rule ordered_permutation [OF order, symmetric])
    show "inj_on (\<lambda>e. (group_key e, effect_key e)) (set es)"
      using effect_key_inj [OF assms(1)] by (auto simp: inj_on_def)
    show "distinct es" using assms(1) by (simp add: distinct_map)
  qed
  ultimately have "os = sort_key (\<lambda>e. (group_key e, effect_key e)) es" by simp
  with order show "order_continuous_effects es = Inr (sort_key (\<lambda>e. (group_key e, effect_key e)) es, [])"
    by simp
qed

theorem order_canonical_witness:
  "order_continuous_effects [pump_effect ''b'' 2 [], pump_effect ''a'' 1 []] =
     order_continuous_effects [pump_effect ''a'' 1 [], pump_effect ''b'' 2 []]
   \<and> order_continuous_effects [pump_effect ''a'' 1 [], pump_effect ''b'' 2 []] =
     Inr (sort_key (\<lambda>e. (group_key e, effect_key e)) [pump_effect ''a'' 1 [], pump_effect ''b'' 2 []], [])"
  using order_canonical [of "[pump_effect ''a'' 1 [], pump_effect ''b'' 2 []]"
      "[pump_effect ''b'' 2 [], pump_effect ''a'' 1 []]"]
  by (simp add: pump_effect_def)

text \<open>
  C14. An evaluation reports every effect exactly once, as applied or as inapplicable; the characteristics are
  those of the object after the operations of exactly the applied effects in layer order, and an applied
  effect whose source must be present or that is bound to particular objects had its source and is bound
  to the object evaluated.
\<close>

theorem evaluation_exact:
  assumes "evaluate_continuous_effects host c es x = Inr (c1, ev)"
  shows "\<exists>os. order_continuous_effects (filter (\<lambda>e. \<not> source_missing e) es) = Inr (os, dependency_cycles ev)
    \<and> applied_effects ev = map effect_id (filter (\<lambda>e. effect_id e \<in> set (applied_effects ev)) os)
    \<and> efold (\<lambda>c e. apply_effect host e c) c (filter (\<lambda>e. effect_id e \<in> set (applied_effects ev)) os) = Inr c1
    \<and> evaluated_characteristics ev = snapshot host c1
    \<and> (\<forall>e \<in> set os. \<not> source_missing e \<and> (effect_id e \<in> set (applied_effects ev) \<longrightarrow> identity_applies x e))
    \<and> mset (applied_effects ev @ inapplicable_effects ev) = mset (map effect_id es)"
proof -
  let ?present = "filter (\<lambda>e. \<not> source_missing e) es"
  obtain os inapplicable where order: "order_continuous_effects ?present = Inr (os, dependency_cycles ev)"
    and run: "evaluate_ordered host x os c = Inr (c1, applied_effects ev, inapplicable)"
    and ev: "evaluated_characteristics ev = snapshot host c1"
      "inapplicable_effects ev = map effect_id (filter source_missing es) @ inapplicable"
    using assms by (auto simp: evaluate_continuous_effects_def Let_def ebind_eq_Inr)
  have perm: "mset os = mset ?present" by (rule ordered_permutation [OF order])
  have "distinct (map effect_id ?present)" using order by (simp add: order_rounds)
  then have dist: "distinct (map effect_id os)" using perm by (metis mset_eq_imp_distinct_iff mset_map)
  have "set os = set ?present" using perm by (rule mset_eq_setD)
  then have "\<forall>e \<in> set os. \<not> source_missing e" by simp
  moreover have "mset (map effect_id os) + mset (map effect_id (filter source_missing es)) = mset (map effect_id es)"
    using perm mset_split [of source_missing es] by (metis image_mset_union mset_map)
  moreover note ids = ordered_applied_ids [OF run dist]
  ultimately have "mset (applied_effects ev @ inapplicable_effects ev) = mset (map effect_id es)"
  proof -
    assume all: "mset (map effect_id os) + mset (map effect_id (filter source_missing es)) = mset (map effect_id es)"
    have "mset (applied_effects ev @ inapplicable_effects ev)
        = mset (applied_effects ev @ inapplicable) + mset (map effect_id (filter source_missing es))"
      unfolding ev(2) by simp
    also have "\<dots> = mset (map effect_id es)" using ids all by simp
    finally show ?thesis .
  qed
  with order ids ev(1) \<open>\<forall>e \<in> set os. \<not> source_missing e\<close> show ?thesis by blast
qed

definition bear :: "(unit, unit) characteristics" where
  "bear =
     \<lparr>ch_name = ''Bear'', ch_controller = Some ''A'', ch_mana_cost = [], ch_mana_value = PInt 2, ch_text = [],
      ch_executable_text = [], ch_supertypes = [], ch_card_types = [''Creature''], ch_subtypes = [],
      ch_colors = [''G''], ch_abilities = [], ch_fragments = [], ch_activated = [], ch_power = Some 2,
      ch_toughness = Some 2, ch_loyalty = None, ch_defense = None, ch_copiable = []\<rparr>"

definition on_battlefield :: eval_context where
  "on_battlefield =
     \<lparr>ctx_object = Some ''o1'', ctx_logical = Some ''o1:1'', ctx_ref = Some ''P1'', ctx_owner = Some ''A'',
      ctx_controller = Some ''A'', ctx_zone = Some ''battlefield'', ctx_token = False, ctx_tapped = False,
      ctx_phased_out = False, ctx_known = True\<rparr>"

definition pumped :: "((unit, unit) characteristics \<times> continuous_evaluation) option" where
  "pumped =
     (case evaluate_continuous_effects mapping_host bear
         [pump_effect ''a'' 1 [''b''], pump_effect ''b'' 2 [],
          (pump_effect ''gone'' 3 [])\<lparr>source_present := False\<rparr>] on_battlefield of
        Inl _ \<Rightarrow> None | Inr r \<Rightarrow> Some r)"

lemma pumped_result:
  "map_option (\<lambda>(c, ev). (ch_power c, ch_toughness c, applied_effects ev, inapplicable_effects ev)) pumped =
     Some (Some 4, Some 6, [''b'', ''a''], [''gone''])"
  by code_simp

theorem evaluation_exact_witness:
  "\<exists>c1 ev. evaluate_continuous_effects mapping_host bear
      [pump_effect ''a'' 1 [''b''], pump_effect ''b'' 2 [],
       (pump_effect ''gone'' 3 [])\<lparr>source_present := False\<rparr>] on_battlefield = Inr (c1, ev)
    \<and> ch_power c1 = Some 4 \<and> mset (applied_effects ev @ inapplicable_effects ev) = mset [''a'', ''b'', ''gone'']"
proof -
  obtain c1 ev where run: "evaluate_continuous_effects mapping_host bear
      [pump_effect ''a'' 1 [''b''], pump_effect ''b'' 2 [],
       (pump_effect ''gone'' 3 [])\<lparr>source_present := False\<rparr>] on_battlefield = Inr (c1, ev)"
    and power: "ch_power c1 = Some 4"
    using pumped_result by (auto simp: pumped_def split: sum.splits)
  from evaluation_exact [OF run]
  have "mset (applied_effects ev @ inapplicable_effects ev) = mset [''a'', ''b'', ''gone'']"
    by (auto simp: pump_effect_def)
  with run power show ?thesis by blast
qed

end
