(* ===== verification/Continuous_State.thy ===== *)
theory Continuous_State imports Continuous_Effects Zone_Moves
begin

text \<open>
  The journal of continuous effects that resolving spells and abilities create
  (\<open>quorune/continuous_effect_state.py\<close>, CR 611) and the declaration rules stored beside them
  (\<open>quorune/declaration_rule_effects.py\<close>): choosing the affected objects, creating an effect locked to
  them, which effects are active on an object, and the expiry at the end of the turn.

  The journal holds typed effects; the game state beside it keeps their dictionaries.  The effective
  characteristics of a card are the record \<open>fact_host\<close>, the reviewed restriction templates
  \<open>restriction_host\<close>.
\<close>

record fact_host =
  effective_of :: "game_state \<Rightarrow> card_instance \<Rightarrow> effective_values"
  parts_of :: "game_state \<Rightarrow> card_instance \<Rightarrow> string list \<times> string list \<times> string list"

record 'r restriction_host =
  restriction_mode :: "'r \<Rightarrow> string"
  restriction_scope :: "'r \<Rightarrow> string"
  restriction_row :: "'r \<Rightarrow> pyval"
  restriction_read :: "pyval \<Rightarrow> 'r option"

datatype journal_error =
    StackIdentityRequired
  | BothSourceIdentities
  | SourceIdentityEmpty
  | SourceContextRequired
  | SourceFieldNotText string
  | JournalUnavailable
  | AlreadyCommitted
  | BattlefieldOnly
  | JournalEngine engine_error
  | JournalKey string
  | JournalQuery query_error
  | JournalEffect effect_error
  | RuleTextMissing
  | RuleTimestamp
  | RuleNotAnchored
  | RuleDuration
  | RuleLocked
  | RuleFields
  | RuleKind
  | RuleMalformed

section \<open>Declaration rules\<close>

record 'r declaration_rule =
  rule_id :: string
  rule_source :: string
  rule_timestamp :: int
  rule_restriction :: 'r
  rule_locked :: "object_identity list"
  rule_duration :: effect_duration

definition rule_init :: "'r restriction_host \<Rightarrow> 'r declaration_rule \<Rightarrow> journal_error + 'r declaration_rule" where
  "rule_init host r =
     ebind (ensure (rule_id r \<noteq> [] \<and> rule_source r \<noteq> []) RuleTextMissing) (\<lambda>_.
     ebind (ensure (0 \<le> rule_timestamp r) RuleTimestamp) (\<lambda>_.
     ebind (ensure (restriction_mode host (rule_restriction r) = ''prohibit''
                    \<and> restriction_scope host (rule_restriction r) \<in> {''self'', ''source_option''})
              RuleNotAnchored) (\<lambda>_.
     ebind (ensure (rule_duration r = UntilEndOfTurn) RuleDuration) (\<lambda>_.
     let locked = sort_key identity_key (rule_locked r) in
     ebind (ensure (locked \<noteq> [] \<and> distinct locked) RuleLocked) (\<lambda>_.
     Inr (r\<lparr>rule_locked := locked\<rparr>))))))"

definition rule_to_dict :: "'r restriction_host \<Rightarrow> 'r declaration_rule \<Rightarrow> (string, pyval) dict" where
  "rule_to_dict host r =
     [(''effect_kind'', PStr ''resolution_declaration_rule''), (''effect_id'', PStr (rule_id r)),
      (''source_id'', PStr (rule_source r)), (''timestamp'', PInt (rule_timestamp r)),
      (''restriction'', restriction_row host (rule_restriction r)),
      (''duration'', PStr (duration_text (rule_duration r))),
      (''locked_objects'', PList (map identity_to_dict (rule_locked r)))]"

definition RULE_FIELDS :: "string list" where
  "RULE_FIELDS =
     [''effect_kind'', ''effect_id'', ''source_id'', ''timestamp'', ''restriction'', ''duration'', ''locked_objects'']"

fun rule_from_dict :: "'r restriction_host \<Rightarrow> pyval \<Rightarrow> journal_error + 'r declaration_rule" where
  "rule_from_dict host (PDict d) =
     (let get = dict_get PNone d in
      ebind (ensure (set (map fst d) = set RULE_FIELDS) RuleFields) (\<lambda>_.
      ebind (ensure (get ''effect_kind'' = PStr ''resolution_declaration_rule'') RuleKind) (\<lambda>_.
      ebind (ensure (is_mapping (get ''restriction'')) RuleMalformed) (\<lambda>_.
      ebind (reraise (\<lambda>_. RuleMalformed) (read_array EffectArrays (get ''locked_objects''))) (\<lambda>raws.
      ebind (option_raise RuleMalformed (restriction_read host (get ''restriction''))) (\<lambda>restriction.
      ebind (reraise JournalEffect (read_text BadEnumeration (get ''duration''))) (\<lambda>duration.
      ebind (reraise JournalEffect (member_of duration_text DURATIONS duration)) (\<lambda>lasting.
      ebind (reraise JournalEffect (emap identity_from_dict raws)) (\<lambda>locked.
      ebind (option_raise RuleTextMissing (nonempty_str (get ''effect_id''))) (\<lambda>i.
      ebind (option_raise RuleTextMissing (nonempty_str (get ''source_id''))) (\<lambda>source.
      ebind (option_raise RuleTimestamp (exact_int (get ''timestamp''))) (\<lambda>stamp.
      rule_init host
        \<lparr>rule_id = i, rule_source = source, rule_timestamp = stamp, rule_restriction = restriction,
         rule_locked = locked, rule_duration = lasting\<rparr>))))))))))))"
| "rule_from_dict host _ = Inl RuleFields"

section \<open>The journal\<close>

datatype 'r journal_effect = Layered continuous_effect | Declared "'r declaration_rule"

fun journal_id :: "'r journal_effect \<Rightarrow> string" where
  "journal_id (Layered e) = effect_id e"
| "journal_id (Declared r) = rule_id r"

fun journal_duration :: "'r journal_effect \<Rightarrow> effect_duration" where
  "journal_duration (Layered e) = effect_duration e"
| "journal_duration (Declared r) = rule_duration r"

text \<open>\<open>continuous_journal_effect_from_dict\<close>.\<close>

fun journal_effect_from_dict ::
  "('f, 'a) ability_host \<Rightarrow> 'r restriction_host \<Rightarrow> pyval \<Rightarrow> journal_error + 'r journal_effect" where
  "journal_effect_from_dict abilities host (PDict d) =
     (if ''effect_kind'' \<in> set (map fst d)
      then ebind (rule_from_dict host (PDict d)) (\<lambda>r. Inr (Declared r))
      else ebind (reraise JournalEffect (effect_from_dict abilities (PDict d))) (\<lambda>e. Inr (Layered e)))"
| "journal_effect_from_dict abilities host v =
     ebind (reraise JournalEffect (effect_from_dict abilities v)) (\<lambda>e. Inr (Layered e))"

record 'r effect_state =
  es_game :: game_state
  es_journal :: "'r journal_effect list option"

definition commit_continuous_effect ::
  "'r journal_effect \<Rightarrow> 'r effect_state \<Rightarrow> journal_error + 'r effect_state" where
  "commit_continuous_effect e s =
     (case es_journal s of
        None \<Rightarrow> Inl JournalUnavailable
      | Some js \<Rightarrow>
          ebind (ensure (\<forall>j \<in> set js. journal_id j \<noteq> journal_id e) AlreadyCommitted) (\<lambda>_.
          Inr (s\<lparr>es_journal := Some (js @ [e])\<rparr>)))"

section \<open>Sources\<close>

record resolution_source =
  from_stack :: string
  from_object :: "string option"
  from_logical :: "string option"
  from_card :: "string option"

definition source_init :: "resolution_source \<Rightarrow> journal_error + resolution_source" where
  "source_init s =
     ebind (ensure (from_stack s \<noteq> []) StackIdentityRequired) (\<lambda>_.
     ebind (ensure (from_object s = None \<longleftrightarrow> from_logical s = None) BothSourceIdentities) (\<lambda>_.
     ebind (ensure (Some [] \<notin> {from_object s, from_logical s, from_card s}) SourceIdentityEmpty) (\<lambda>_.
     Inr s)))"

definition source_to_dict :: "resolution_source \<Rightarrow> pyval" where
  "source_to_dict s =
     PDict [(''stack_ref'', PStr (from_stack s)), (''object_id'', opt_value PStr (from_object s)),
            (''logical_object_id'', opt_value PStr (from_logical s)), (''card_ref'', opt_value PStr (from_card s))]"

fun source_from_value :: "pyval \<Rightarrow> journal_error + resolution_source" where
  "source_from_value (PDict d) =
     (let name = (\<lambda>f. option_raise (SourceFieldNotText f) (nullable nonempty_str (dict_get PNone d f))) in
      ebind (ensure (set (map fst d) = {''stack_ref'', ''object_id'', ''logical_object_id'', ''card_ref''})
               SourceContextRequired) (\<lambda>_.
      ebind (name ''stack_ref'') (\<lambda>stack.
      ebind (name ''object_id'') (\<lambda>i.
      ebind (name ''logical_object_id'') (\<lambda>l.
      ebind (name ''card_ref'') (\<lambda>c.
      ebind (option_raise StackIdentityRequired stack) (\<lambda>st.
      source_init \<lparr>from_stack = st, from_object = i, from_logical = l, from_card = c\<rparr>)))))))"
| "source_from_value _ = Inl SourceContextRequired"

definition resolution_effect_source ::
  "game_state \<Rightarrow> (string, pyval) dict \<Rightarrow> card_instance option \<Rightarrow> journal_error + resolution_source" where
  "resolution_effect_source g effect fallback =
     (case map_of effect ''_runtime_source'' of
        Some v \<Rightarrow> source_from_value v
      | None \<Rightarrow>
          (case fallback of
             Some c \<Rightarrow> source_init
               \<lparr>from_stack = ''direct:'' @ card_ref c, from_object = Some (object_id c),
                from_logical = Some (logical_object_id c), from_card = Some (card_ref c)\<rparr>
           | None \<Rightarrow> source_init
               \<lparr>from_stack = ''direct:'' @ show_int (turn_sequence g) @ '':'' @ show_int (event_sequence g) @ '':''
                    @ (let v = dict_get PNone effect ''op'' in if truthy v then py_text v else ''effect''),
                from_object = None, from_logical = None, from_card = None\<rparr>))"

section \<open>Affected objects\<close>

definition matches_card :: "fact_host \<Rightarrow> query_spec \<Rightarrow> game_state \<Rightarrow> string \<Rightarrow> journal_error + card_instance option" where
  "matches_card host q g i =
     ebind (option_raise (JournalKey i) (card_at g i)) (\<lambda>c.
     let attached = (case attached_to c of None \<Rightarrow> None | Some t \<Rightarrow> map_option card_ref (card_at g t)) in
     ebind (reraise JournalQuery
       (object_query_result c (effective_of host g c) (parts_of host g c) True attached False)) (\<lambda>row.
     ebind (reraise JournalQuery (object_matches_query row q)) (\<lambda>hit.
     Inr (if hit then Some c else None))))"

definition battlefield_of :: "game_state \<Rightarrow> string \<Rightarrow> journal_error + string list" where
  "battlefield_of g s =
     ebind (option_raise (JournalKey s) (map_of (players g) s)) (\<lambda>p.
     option_raise (JournalKey ''battlefield'') (map_of (zones p) ''battlefield''))"

definition matching_battlefield_objects ::
  "fact_host \<Rightarrow> query_spec \<Rightarrow> game_state \<Rightarrow> journal_error + card_instance list" where
  "matching_battlefield_objects host q g =
     ebind (ensure (q_zones q = [] \<or> q_zones q = [''battlefield'']) BattlefieldOnly) (\<lambda>_.
     ebind (reraise JournalEngine (active g)) (\<lambda>seats.
     ebind (emap (\<lambda>s. ebind (battlefield_of g s) (emap (matches_card host q g))) seats) (\<lambda>found.
     Inr (List.map_filter id (concat found)))))"

section \<open>Creating effects\<close>

definition card_identity :: "card_instance \<Rightarrow> object_identity" where
  "card_identity c = \<lparr>identity_object = object_id c, identity_logical = logical_object_id c\<rparr>"

definition identities_of :: "card_instance list \<Rightarrow> journal_error + object_identity list" where
  "identities_of cs = reraise JournalEffect (emap (\<lambda>c. identity_init (object_id c) (logical_object_id c)) cs)"

text \<open>\<open>source.object_id or source.stack_ref\<close>.\<close>

definition source_name :: "resolution_source \<Rightarrow> string" where
  "source_name s = or_text (from_object s) (from_stack s)"

definition new_resolution_effect ::
  "resolution_source \<Rightarrow> object_identity list \<Rightarrow> layer \<Rightarrow> string \<Rightarrow> operation list \<Rightarrow> effect_duration
     \<Rightarrow> game_state \<Rightarrow> journal_error + game_state \<times> continuous_effect" where
  "new_resolution_effect source identities layer sub ops lasting g =
     (let (g1, ref) = next_ref ''CE'' g;
          (g2, stamp) = next_timestamp g1 in
      ebind (reraise JournalEffect (effect_init
        \<lparr>effect_id = ref, effect_source = source_name source, effect_layer = layer, sublayer = sub,
         effect_timestamp = stamp, operations = ops, depends_on = [], characteristic_defining = False,
         effect_origin = FromResolution, effect_duration = lasting, source_present = True,
         applies_to = any_object\<lparr>q_zones := [''battlefield'']\<rparr>, locked_objects = identities,
         effect_relation = Unrelated, related_object = None\<rparr>)) (\<lambda>e. Inr (g2, e)))"

definition create_resolution_effect ::
  "resolution_source \<Rightarrow> card_instance list \<Rightarrow> layer \<Rightarrow> string \<Rightarrow> operation list \<Rightarrow> effect_duration
     \<Rightarrow> 'r effect_state \<Rightarrow> journal_error + 'r effect_state \<times> continuous_effect option" where
  "create_resolution_effect source affected layer sub ops lasting s =
     (if es_journal s = None then Inr (s, None)
      else ebind (identities_of affected) (\<lambda>identities.
        if identities = [] then Inr (s, None)
        else
          ebind (new_resolution_effect source identities layer sub ops lasting (es_game s)) (\<lambda>(g, e).
          ebind (commit_continuous_effect (Layered e) (s\<lparr>es_game := g\<rparr>)) (\<lambda>s1. Inr (s1, Some e)))))"

definition new_declaration_rule ::
  "'r restriction_host \<Rightarrow> resolution_source \<Rightarrow> object_identity list \<Rightarrow> 'r \<Rightarrow> effect_duration
     \<Rightarrow> game_state \<Rightarrow> journal_error + game_state \<times> 'r declaration_rule" where
  "new_declaration_rule host source identities restriction lasting g =
     (let (g1, ref) = next_ref ''DR'' g;
          (g2, stamp) = next_timestamp g1 in
      ebind (rule_init host
        \<lparr>rule_id = ref, rule_source = source_name source, rule_timestamp = stamp,
         rule_restriction = restriction, rule_locked = identities, rule_duration = lasting\<rparr>) (\<lambda>r. Inr (g2, r)))"

definition create_declaration_rule ::
  "'r restriction_host \<Rightarrow> resolution_source \<Rightarrow> card_instance list \<Rightarrow> 'r \<Rightarrow> effect_duration
     \<Rightarrow> 'r effect_state \<Rightarrow> journal_error + 'r effect_state \<times> 'r declaration_rule option" where
  "create_declaration_rule host source affected restriction lasting s =
     (if es_journal s = None then Inr (s, None)
      else ebind (identities_of affected) (\<lambda>identities.
        if identities = [] then Inr (s, None)
        else
          ebind (new_declaration_rule host source identities restriction lasting (es_game s)) (\<lambda>(g, r).
          ebind (commit_continuous_effect (Declared r) (s\<lparr>es_game := g\<rparr>)) (\<lambda>s1. Inr (s1, Some r)))))"

section \<open>Active effects and expiry\<close>

definition journal_of :: "'r effect_state \<Rightarrow> 'r journal_effect list" where
  "journal_of s = (case es_journal s of None \<Rightarrow> [] | Some js \<Rightarrow> js)"

definition active_resolution_effects :: "'r effect_state \<Rightarrow> card_instance \<Rightarrow> continuous_effect list" where
  "active_resolution_effects s c =
     List.map_filter (\<lambda>j. case j of
        Layered e \<Rightarrow> if card_identity c \<in> set (locked_objects e) then Some e else None
      | Declared r \<Rightarrow> None) (journal_of s)"

definition active_declaration_rules :: "'r effect_state \<Rightarrow> card_instance \<Rightarrow> 'r declaration_rule list" where
  "active_declaration_rules s c =
     List.map_filter (\<lambda>j. case j of
        Layered e \<Rightarrow> None
      | Declared r \<Rightarrow> if card_identity c \<in> set (rule_locked r) then Some r else None) (journal_of s)"

definition expire_end_of_turn :: "'r effect_state \<Rightarrow> 'r effect_state \<times> int" where
  "expire_end_of_turn s =
     (case es_journal s of
        None \<Rightarrow> (s, 0)
      | Some js \<Rightarrow>
          let retained = filter (\<lambda>j. journal_duration j \<noteq> UntilEndOfTurn) js in
          (s\<lparr>es_journal := Some retained\<rparr>, int (length js) - int (length retained)))"

section \<open>Reachable journals\<close>

text \<open>The steps that change the journal or the game beside it.\<close>

inductive journal_step :: "'r restriction_host \<Rightarrow> 'r effect_state \<Rightarrow> 'r effect_state \<Rightarrow> bool"
  for host :: "'r restriction_host" where
  commit_step: "commit_continuous_effect j s = Inr s1 \<Longrightarrow> journal_step host s s1"
| effect_step: "create_resolution_effect source cs l sub ops lasting s = Inr (s1, e) \<Longrightarrow> journal_step host s s1"
| rule_step: "create_declaration_rule host source cs r lasting s = Inr (s1, x) \<Longrightarrow> journal_step host s s1"
| expire_step: "expire_end_of_turn s = (s1, n) \<Longrightarrow> journal_step host s s1"
| game_step: "journal_step host s (s\<lparr>es_game := g\<rparr>)"

definition journal_sound :: "'r effect_state \<Rightarrow> bool" where
  "journal_sound s \<longleftrightarrow> distinct (map journal_id (journal_of s))"

lemma commit_Inr:
  "commit_continuous_effect j s = Inr s1 \<longleftrightarrow>
     (\<exists>js. es_journal s = Some js \<and> journal_id j \<notin> journal_id ` set js \<and> s1 = s\<lparr>es_journal := Some (js @ [j])\<rparr>)"
  by (auto simp: commit_continuous_effect_def ebind_ensure_Inr image_iff split: option.splits; metis)

lemma commit_sound: "commit_continuous_effect j s = Inr s1 \<Longrightarrow> journal_sound s \<Longrightarrow> journal_sound s1"
  by (auto simp: commit_Inr journal_sound_def journal_of_def)

lemma identities_of_Inr:
  "identities_of cs = Inr ids \<Longrightarrow> ids = map card_identity cs \<and> (\<forall>c \<in> set cs. object_id c \<noteq> [])"
  unfolding identities_of_def reraise_eq_Inr
  by (induction cs arbitrary: ids) (auto simp: ebind_eq_Inr identity_init_def ebind_ensure_Inr card_identity_def)

lemma new_resolution_effect_facts:
  assumes "new_resolution_effect source ids l sub ops lasting g = Inr (g1, e)"
  shows "locked_objects e = sort_key identity_key ids" "effect_duration e = lasting" "cards g1 = cards g"
  using assms
  by (auto simp: new_resolution_effect_def Let_def next_ref_def next_timestamp_def ebind_eq_Inr
      dest!: effect_init_again(2))

lemma create_effect_cases:
  assumes "create_resolution_effect source cs l sub ops lasting s = Inr (s1, x)"
  obtains (nothing) "s1 = s" "x = None"
    | (created) g e where "x = Some e" "commit_continuous_effect (Layered e) (s\<lparr>es_game := g\<rparr>) = Inr s1"
        "locked_objects e = sort_key identity_key (map card_identity cs)" "effect_duration e = lasting"
proof (cases "es_journal s = None")
  case True
  show thesis by (rule nothing) (use assms True in \<open>simp_all add: create_resolution_effect_def\<close>)
next
  case False
  obtain ids where ids: "identities_of cs = Inr ids"
    and rest: "(if ids = [] then Inr (s, None) else
        ebind (new_resolution_effect source ids l sub ops lasting (es_game s)) (\<lambda>(g, e).
        ebind (commit_continuous_effect (Layered e) (s\<lparr>es_game := g\<rparr>)) (\<lambda>s1. Inr (s1, Some e)))) = Inr (s1, x)"
    using assms False unfolding create_resolution_effect_def by (auto elim!: ebind_InrE)
  show thesis
  proof (cases "ids = []")
    case True
    show thesis by (rule nothing) (use rest True in simp_all)
  next
    case False
    then obtain g e where new: "new_resolution_effect source ids l sub ops lasting (es_game s) = Inr (g, e)"
      and commit: "commit_continuous_effect (Layered e) (s\<lparr>es_game := g\<rparr>) = Inr s1" and x: "x = Some e"
      using rest by (auto simp: ebind_eq_Inr)
    show thesis
      by (rule created [OF x commit])
        (use new_resolution_effect_facts [OF new] identities_of_Inr [OF ids] in simp_all)
  qed
qed

lemma create_rule_cases:
  assumes "create_declaration_rule host source cs r lasting s = Inr (s1, x)"
  obtains (nothing) "s1 = s" | (created) g t where "commit_continuous_effect (Declared t) (s\<lparr>es_game := g\<rparr>) = Inr s1"
  using assms unfolding create_declaration_rule_def
  by (auto elim!: ebind_InrE split: if_splits)

lemma journal_of_game [simp]: "journal_of (s\<lparr>es_game := g\<rparr>) = journal_of s"
  by (simp add: journal_of_def)

lemma journal_sound_game [simp]: "journal_sound (s\<lparr>es_game := g\<rparr>) = journal_sound s"
  by (simp add: journal_sound_def)

lemma step_sound: "journal_step host s s1 \<Longrightarrow> journal_sound s \<Longrightarrow> journal_sound s1"
proof (induction rule: journal_step.induct)
  case (commit_step j s s1)
  then show ?case by (rule commit_sound)
next
  case (effect_step source cs l sub ops lasting s s1 e)
  from effect_step(1) show ?case
    by (cases rule: create_effect_cases) (use effect_step(2) in \<open>auto dest: commit_sound\<close>)
next
  case (rule_step source cs r lasting s s1 x)
  from rule_step(1) show ?case
    by (cases rule: create_rule_cases) (use rule_step(2) in \<open>auto dest: commit_sound\<close>)
next
  case (expire_step s s1 n)
  then show ?case
    by (auto simp: expire_end_of_turn_def journal_sound_def journal_of_def Let_def distinct_map_filter
        split: option.splits)
qed simp

text \<open>The ids of the effects active on an object are ids of the journal, in its order.\<close>

lemma active_ids:
  "map effect_id (active_resolution_effects s c) =
     map journal_id (filter (\<lambda>j. case j of Layered e \<Rightarrow> card_identity c \<in> set (locked_objects e) | Declared r \<Rightarrow> False)
       (journal_of s))"
proof -
  have "map effect_id (List.map_filter (\<lambda>j. case j of
        Layered e \<Rightarrow> if card_identity c \<in> set (locked_objects e) then Some e else None
      | Declared r \<Rightarrow> None) js) =
     map journal_id (filter (\<lambda>j. case j of Layered e \<Rightarrow> card_identity c \<in> set (locked_objects e) | Declared r \<Rightarrow> False) js)"
    for js :: "'a journal_effect list"
    by (induction js) (auto simp: List.map_filter_simps split: journal_effect.splits)
  then show ?thesis by (simp add: active_resolution_effects_def)
qed

lemma active_member:
  "e \<in> set (active_resolution_effects s c) \<longleftrightarrow> Layered e \<in> set (journal_of s) \<and> card_identity c \<in> set (locked_objects e)"
proof -
  have "e \<in> set (List.map_filter (\<lambda>j. case j of
        Layered e \<Rightarrow> if card_identity c \<in> set (locked_objects e) then Some e else None
      | Declared r \<Rightarrow> None) js) \<longleftrightarrow> Layered e \<in> set js \<and> card_identity c \<in> set (locked_objects e)"
    for js :: "'a journal_effect list"
    by (induction js) (auto simp: List.map_filter_simps split: journal_effect.splits)
  then show ?thesis by (simp add: active_resolution_effects_def)
qed

lemma card_identity_eq:
  "card_identity c = card_identity d \<longleftrightarrow> object_id c = object_id d \<and> zone_change_counter c = zone_change_counter d"
  by (auto simp: card_identity_def logical_object_id_def dest: show_int_inject [THEN iffD1])

section \<open>Properties\<close>

text \<open>
  C16. However the journal is changed (committing an effect, creating effects and declaration rules, expiring
  them at the end of the turn, the game moving on beside it), effects never share an identity, so ordering
  the effects active on any object never fails.
\<close>

theorem journal_never_ambiguous:
  assumes "(journal_step host)\<^sup>*\<^sup>* s s1" and "journal_of s = []"
  shows "distinct (map journal_id (journal_of s1))
    \<and> (\<exists>r. order_continuous_effects (active_resolution_effects s1 c) = Inr r)"
proof -
  have "journal_sound s" using assms(2) by (simp add: journal_sound_def)
  with assms(1) have "journal_sound s1" by (induction rule: rtranclp_induct) (auto intro: step_sound)
  then have "distinct (map journal_id (journal_of s1))" by (simp add: journal_sound_def)
  moreover from this have "distinct (map effect_id (active_resolution_effects s1 c))"
    unfolding active_ids by (rule distinct_map_filter)
  ultimately show ?thesis by (auto simp: order_rounds)
qed

definition no_restrictions :: "unit restriction_host" where
  "no_restrictions =
     \<lparr>restriction_mode = (\<lambda>_. ''prohibit''), restriction_scope = (\<lambda>_. ''self''),
      restriction_row = (\<lambda>_. PDict []), restriction_read = (\<lambda>_. Some ())\<rparr>"

definition quiet_table :: "unit effect_state" where
  "quiet_table = \<lparr>es_game = small_table, es_journal = Some []\<rparr>"

definition pumped_table :: "unit effect_state" where
  "pumped_table = \<lparr>es_game = small_table, es_journal = Some [Layered (pump_effect ''a'' 1 [])]\<rparr>"

theorem journal_never_ambiguous_witness:
  "distinct (map journal_id (journal_of pumped_table))
    \<and> (\<exists>r. order_continuous_effects (active_resolution_effects pumped_table (new_card ''x'' ''A'' ''battlefield'')) = Inr r)"
proof (rule journal_never_ambiguous)
  have "journal_step no_restrictions quiet_table pumped_table"
    by (rule commit_step [of "Layered (pump_effect ''a'' 1 [])"])
      (simp add: commit_continuous_effect_def quiet_table_def pumped_table_def)
  then show "(journal_step no_restrictions)\<^sup>*\<^sup>* quiet_table pumped_table" by blast
  show "journal_of quiet_table = []" by (simp add: journal_of_def quiet_table_def)
qed

text \<open>
  C15. A created effect is active on exactly the objects it was created for, and a zone change that makes
  one of them a new object ends it for that object, although the effect stays in the journal (CR 400.7).
\<close>

theorem effect_follows_incarnation:
  assumes "create_resolution_effect source cs l sub ops lasting s = Inr (s1, Some e)"
    and "\<forall>t \<in> set cs. card_at (es_game s) (object_id t) = Some t"
    and "table_ok (es_game s)" and "card_at (es_game s) i = Some c" and "c \<in> set cs"
    and "commit_move zones_host plan req (es_game s) = Inr h" and "plan_object plan = i"
    and "plan_destination plan \<in> set ZONE_CHANGE_DESTINATIONS"
    and "\<not> keeps_incarnation (zone c) (plan_destination plan)"
  shows "(\<forall>t. e \<in> set (active_resolution_effects s1 t) \<longleftrightarrow> card_identity t \<in> card_identity ` set cs)
    \<and> (\<exists>d. card_at h i = Some d \<and> e \<notin> set (active_resolution_effects (s1\<lparr>es_game := h\<rparr>) d))"
proof -
  from assms(1) obtain g where commit: "commit_continuous_effect (Layered e) (s\<lparr>es_game := g\<rparr>) = Inr s1"
    and locked: "locked_objects e = sort_key identity_key (map card_identity cs)"
    by (cases rule: create_effect_cases) auto
  have "Layered e \<in> set (journal_of s1)" using commit by (auto simp: commit_Inr journal_of_def)
  then have active: "e \<in> set (active_resolution_effects s1 t) \<longleftrightarrow> card_identity t \<in> card_identity ` set cs" for t
    by (simp add: active_member locked)
  obtain d where d: "card_at h i = Some d" and table: "table_ok h"
    and count: "zone_change_counter d = zone_change_counter c + 1"
    using commit_move_places [OF assms(3,4,6-8)] assms(9) by (auto simp: moves_only_def)
  have ids: "object_id d = i" "object_id c = i"
    using d table assms(3,4) by (auto simp: table_ok_def keyed_def)
  have "card_identity d \<noteq> card_identity t" if "t \<in> set cs" for t
  proof
    assume "card_identity d = card_identity t"
    then have "object_id t = i" and t: "zone_change_counter t = zone_change_counter d"
      using ids by (auto simp: card_identity_eq)
    then have "t = c" using assms(2,4) that by force
    with t count show False by simp
  qed
  then have "e \<notin> set (active_resolution_effects (s1\<lparr>es_game := h\<rparr>) d)"
    using active [of d] by (auto simp: active_member)
  with active d show ?thesis by blast
qed

definition table_bear :: card_instance where
  "table_bear = (new_card ''bear'' ''B'' ''battlefield'')\<lparr>controller := ''A''\<rparr>"

definition growth_spell :: resolution_source where
  "growth_spell = \<lparr>from_stack = ''S1'', from_object = None, from_logical = None, from_card = None\<rparr>"

definition growth :: operation where
  "growth = \<lparr>op_name = ''modify_power_toughness'', op_value = PList [PInt 3, PInt 3], op_field = None\<rparr>"

theorem effect_follows_incarnation_witness:
  "\<exists>s1 e h d. create_resolution_effect growth_spell [table_bear] PowerToughnessLayer ''7c'' [growth] UntilEndOfTurn
       quiet_table = Inr (s1, Some e)
    \<and> e \<in> set (active_resolution_effects s1 table_bear)
    \<and> commit_move plain_host dying_bear plain_request small_table = Inr h \<and> card_at h ''bear'' = Some d
    \<and> e \<notin> set (active_resolution_effects (s1\<lparr>es_game := h\<rparr>) d)"
proof -
  let ?create = "create_resolution_effect growth_spell [table_bear] PowerToughnessLayer ''7c'' [growth] UntilEndOfTurn
       quiet_table"
  have "case ?create of Inr (_, Some _) \<Rightarrow> True | _ \<Rightarrow> False" by code_simp
  then obtain s1 e where run: "?create = Inr (s1, Some e)"
    by (auto split: sum.splits option.splits prod.splits)
  have "case commit_move plain_host dying_bear plain_request small_table of Inl _ \<Rightarrow> False | Inr _ \<Rightarrow> True"
    by code_simp
  then obtain h where move: "commit_move plain_host dying_bear plain_request small_table = Inr h"
    by (auto split: sum.splits)
  have bear: "card_at small_table ''bear'' = Some table_bear" "object_id table_bear = ''bear''"
    by (simp_all add: small_table_def table_bear_def new_card_def)
  have new: "\<not> keeps_incarnation (zone table_bear) (plan_destination dying_bear)" by code_simp
  have dest: "plan_destination dying_bear \<in> set ZONE_CHANGE_DESTINATIONS" by code_simp
  have game: "es_game quiet_table = small_table" by (simp add: quiet_table_def)
  have "(\<forall>t. e \<in> set (active_resolution_effects s1 t) \<longleftrightarrow> card_identity t \<in> card_identity ` set [table_bear])
    \<and> (\<exists>d. card_at h ''bear'' = Some d \<and> e \<notin> set (active_resolution_effects (s1\<lparr>es_game := h\<rparr>) d))"
    by (rule effect_follows_incarnation [OF run, unfolded game, OF _ small_table_ok bear(1) _ move _ dest new])
      (simp_all add: bear dying_bear_def)
  with run move show ?thesis by auto
qed

end
