(* ===== verification/Spec2Isabelle.thy ===== *)
theory Spec2Isabelle imports
  Prelude Mana_Pool State_Planner Trigger_Batches Game_Model Life_State Counter_State
  Damage_Assignment Damage_Snapshot Damage_Sequence Combat_Relations Commander_Identity State_Based_Actions
  Engine_Core Turn_Steps Turn_Priority Permissions Trigger_Processing Turn_Cleanup
  Object_Store Attachments Zone_Objects Game_Invariants Zone_Transitions Zone_Moves Turn_Pump Mulligan Declaration_Constraints
  Object_Queries Continuous_Model Continuous_Effects Continuous_State
begin

text \<open>
  Verification development for Quorune, a rules engine for multiplayer Commander games written in
  Python (\<open>src/quorune\<close>).  The engine owns one mutable game state and advances it from decision to
  decision: players answer with commands, a command is a transaction, and between decisions the engine
  runs turns, steps, state-based actions, triggers and the stack by itself.  The development models the
  state and the owners that change it, from the bottom up, and proves what each of them promises.

  \<^bold>\<open>Parts of the program and theories.\<close>

  \<^item> Vocabulary: \<open>Prelude\<close> (results, dynamic values, dictionaries, text, sorted containers).
  \<^item> Mana (\<open>util.py\<close>): \<open>Mana_Pool\<close>, cost vectors and paying from a pool.
  \<^item> State model (\<open>model.py\<close>): \<open>Game_Model\<close>, cards, players, stack items and the game state with the
    checks of their constructors.
  \<^item> Planned changes (\<open>state_planner.py\<close>, \<open>life_state.py\<close>, \<open>counter_state.py\<close>, \<open>counter_names.py\<close>):
    \<open>State_Planner\<close>, \<open>Life_State\<close>, \<open>Counter_State\<close>.
  \<^item> Combat (\<open>combat_damage_*.py\<close>, \<open>combat_relationship_state.py\<close>, \<open>combat_constraints.py\<close>):
    \<open>Damage_Assignment\<close>, \<open>Damage_Snapshot\<close>, \<open>Damage_Sequence\<close>, \<open>Combat_Relations\<close> and
    \<open>Declaration_Constraints\<close>, the legality of declared attackers and blockers.
  \<^item> State-based actions and losing (\<open>state_based_actions.py\<close>, \<open>commander.py\<close>): \<open>State_Based_Actions\<close>,
    \<open>Commander_Identity\<close>.
  \<^item> Triggers (\<open>trigger_batches.py\<close>, \<open>delayed_triggers.py\<close>, \<open>trigger_processing.py\<close>): \<open>Trigger_Batches\<close>,
    \<open>Delayed_Triggers\<close>, \<open>Trigger_Processing\<close>.
  \<^item> Engine core, turns and priority (\<open>engine.py\<close>, \<open>turn_step_owner.py\<close>, \<open>turn_priority_model.py\<close>,
    \<open>turn_priority_owner.py\<close>, \<open>permissions.py\<close>): \<open>Engine_Core\<close>, \<open>Turn_Steps\<close>, \<open>Turn_Cleanup\<close>,
    \<open>Turn_Priority\<close>, \<open>Permissions\<close>, and \<open>Turn_Pump\<close>, the loop from decision to decision and the
    submit transaction.
  \<^item> Objects and zones (\<open>attachments.py\<close>, \<open>zone_object_state.py\<close>, \<open>control_history.py\<close>,
    \<open>zone_transitions.py\<close> and its model and journal): \<open>Object_Store\<close>, \<open>Attachments\<close>, \<open>Zone_Objects\<close>,
    \<open>Game_Invariants\<close> (what every transaction asserts), \<open>Zone_Transitions\<close> (the operations) and
    \<open>Zone_Moves\<close> (where objects are after them).
  \<^item> The London mulligan (\<open>engine.py\<close>): \<open>Mulligan\<close>.
  \<^item> Characteristics (\<open>object_predicate.py\<close>, \<open>object_query.py\<close>, \<open>continuous_effect_model.py\<close>,
    \<open>continuous_effects.py\<close>, \<open>continuous_effect_state.py\<close>, \<open>declaration_rule_effects.py\<close>):
    \<open>Object_Queries\<close>, \<open>Continuous_Model\<close>, \<open>Continuous_Effects\<close>, the layer system, and
    \<open>Continuous_State\<close>, the journal of the effects that resolutions create.

  \<^bold>\<open>How they interact.\<close>  \<open>Turn_Pump.submit\<close> authorizes an answer through \<open>Permissions\<close>, lets the
  handler of the decision change the state, runs \<open>pump\<close> and asserts \<open>Game_Invariants\<close>; an error leaves
  the state as it was.  \<open>pump\<close> offers priority windows through \<open>Turn_Priority\<close> and enters steps through
  \<open>Turn_Steps\<close>, whose cleanup is \<open>Turn_Cleanup\<close>.  Triggers found on the way are queued by
  \<open>Trigger_Processing\<close> in the batches of \<open>Trigger_Batches\<close> and put on the stack in APNAP order.  Every
  operation writes the journal through \<open>Engine_Core.log_event\<close>, which also advances the epochs that end
  yields.

  \<^bold>\<open>Correspondence.\<close>  A class is a \<open>record\<close>, an enumeration a \<open>datatype\<close>, a dictionary an association
  list in insertion order, a set its sorted list.  A method that mutates its object takes the state and
  returns the new one; a raise is \<open>Inl\<close> of the component's error type, and the state behind a raise
  is dropped except where the code keeps it (\<open>Combat_Relations\<close>), where the operation returns both.
  Integers are Python's, so \<open>int\<close>.  Fields that a constructor types are typed; data that arrives from
  outside (submissions, checkpoints, journals) stays dynamic as \<open>pyval\<close> until the code has checked it.
  Strings are ASCII; the arrow in the log texts is written \<open>->\<close>.  Names are the source's; a clash with
  a constant of the library or a field of another record is resolved by a prefix.

  \<^bold>\<open>Hosts.\<close>  An owner of the source reaches the rest of the engine through a \<open>Protocol\<close>.  Such a
  protocol is a record of functions that the operations take as an argument (\<open>step_host\<close>,
  \<open>cleanup_host\<close>, \<open>trigger_host\<close>, \<open>priority_host\<close>, \<open>zone_host\<close>, \<open>pump_host\<close>, \<open>command_host\<close>,
  \<open>mulligan_host\<close>, \<open>ability_host\<close>, \<open>fact_host\<close>, \<open>restriction_host\<close>).  What a property needs of them is a named predicate in its hypotheses,
  and its witness instantiates the host with concrete functions.  SHA-256 values and random draws are
  arguments: an operation that draws takes the list of values the source of randomness returns.

  \<^bold>\<open>Interfaces.\<close>  The locale \<open>state_adapter\<close> states the laws of the planner's adapter protocol and proves
  planning, validation and commit once; it is interpreted on the life totals (\<open>life\<close>) and the counters
  (\<open>counters\<close>), and their batch properties rest on its facts.  The locale \<open>table_steps\<close> takes operations
  that move only their object and keep the table sound and speaks about sequences of them; it is
  interpreted as \<open>zone_steps\<close> on zone moves and control changes.

  \<^bold>\<open>What the lemmas show.\<close>

  \<^item> Preservation: the engine's invariants are decided exactly by its checks, and committed moves,
    changes of control and attachments keep them.
  \<^item> Exactness: payments, damage assignments, batches of life and counter changes, state-based actions
    and evaluations of effects do what they say and nothing else, on every branch.
  \<^item> Order: seats act in APNAP order, a round of priority gives everybody one pass, effects are ordered by
    layer, dependency and timestamp independently of how they are listed.
  \<^item> Equivalence: the damage and payment routines agree with declarative legality, the search over combat
    declarations computes the true maximum, attachments refine a function from objects to holders.
  \<^item> Round trips: effects and queries read back what was written.
  \<^item> Journals: effects created by resolutions never share an identity and end with the incarnation of the
    object they were created for, across the theories of effects and of zone moves.
  \<^item> Errors: a refused command leaves no trace, a consumed capability is never accepted again.

  \<^bold>\<open>Bounds and termination.\<close>  \<open>MAX_TRANSITIONS = 1000\<close> is the source's own limit on \<open>pump\<close>, and the loop
  that exhausts it raises.  Choosing a turn within the seats takes at most two rounds of the turn order
  (\<open>Turn_Steps\<close>), the placement loop of \<open>Trigger_Processing\<close> has a weight that every turn of it lowers, the
  dependency rounds drop at least one effect each, and the search of \<open>Declaration_Constraints\<close> stays within
  its limit whenever the tree of the free domains does.

  \<^bold>\<open>Not modelled.\<close>  Replacement effects and the damage pipeline (only the freezing of their values), the
  semantic runtime and the compiler that turn card text into programs, the card programs themselves,
  drawing, milling and selecting, the handlers of the combat decisions, several objects changing zones at once,
  the elimination of players, and the files, records, reports, servers and clients around the engine.
  The first are large owners over the state modelled here; the last are input and output.
\<close>

end
